(* ===== verification/Prelude.thy ===== *)
theory Prelude
  imports Main "HOL-Library.Word" "HOL-Library.List_Lexorder" "HOL-Library.Char_ord"
begin

text \<open>
  Shared ground of the development.

  \<^item> The result type of fallible code (\<open>'e + 'a\<close>, \<open>Inl\<close> the error), its bind, the guard
    \<open>ensure\<close> that models an early return, and the fallible left fold \<open>foldE\<close> that models a
    \<open>for\<close> loop whose body may return an error.
  \<^item> Checked arithmetic on machine words (\<open>checked_add\<close> of the Rust standard library).
  \<^item> \<open>omap\<close>, the model of \<open>BTreeMap\<close>: a canonical strictly sorted association list, with
    in-order iteration; \<open>oset\<close>, the model of \<open>BTreeSet\<close>, is a map to \<open>unit\<close>.
  \<^item> The locales \<open>ordered_map\<close> (the contract a client of an ordered map relies on) and
    \<open>fold_invariant\<close> (what a fallible fold keeps when its step keeps it), the first of which is
    interpreted here on \<open>omap\<close> and the second on the event fold.

  A \<open>string\<close> of the model is the UTF-8 byte list of a Rust \<open>String\<close>: its length is the length in
  bytes, and the lexicographic order of lists over the order of characters by code is the
  bytewise order Rust uses.
\<close>

named_theorems result_simps \<open>characteristic equations of the result type\<close>
named_theorems omap_simps \<open>characteristic equations of ordered maps\<close>


section \<open>Results\<close>

fun bindE :: "'e + 'a \<Rightarrow> ('a \<Rightarrow> 'e + 'b) \<Rightarrow> 'e + 'b" where
  "bindE (Inl e) f = Inl e"
| "bindE (Inr a) f = f a"

definition ensure :: "bool \<Rightarrow> 'e \<Rightarrow> 'e + unit" where
  "ensure b e = (if b then Inr () else Inl e)"

fun ok_or :: "'a option \<Rightarrow> 'e \<Rightarrow> 'e + 'a" where
  "ok_or None e = Inl e"
| "ok_or (Some a) e = Inr a"

fun foldE :: "('x \<Rightarrow> 's \<Rightarrow> 'e + 's) \<Rightarrow> 'x list \<Rightarrow> 's \<Rightarrow> 'e + 's" where
  "foldE f [] s = Inr s"
| "foldE f (x # xs) s = bindE (f x s) (foldE f xs)"

lemma bindE_eq_Inr [simp]: "bindE r f = Inr b \<longleftrightarrow> (\<exists>a. r = Inr a \<and> f a = Inr b)"
  by (cases r) auto

lemma bindE_eq_Inl: "bindE r f = Inl e \<longleftrightarrow> r = Inl e \<or> (\<exists>a. r = Inr a \<and> f a = Inl e)"
  by (cases r) auto

lemma ensure_eq_Inr [simp]: "ensure b e = Inr u \<longleftrightarrow> b"
  by (simp add: ensure_def)

lemma ensure_eq_Inl [simp]: "ensure b e = Inl e' \<longleftrightarrow> \<not> b \<and> e' = e"
  by (auto simp: ensure_def)

lemma bindE_ensure [result_simps]: "bindE (ensure b e) f = (if b then f () else Inl e)"
  by (simp add: ensure_def)

lemma ok_or_eq_Inr [simp]: "ok_or x e = Inr a \<longleftrightarrow> x = Some a"
  by (cases x) auto

lemma bindE_assoc: "bindE (bindE r f) g = bindE r (\<lambda>a. bindE (f a) g)"
  by (cases r) auto

lemma foldE_append: "foldE f (xs @ ys) s = bindE (foldE f xs s) (foldE f ys)"
proof (induction xs arbitrary: s)
  case (Cons x xs)
  then show ?case by (cases "f x s") simp_all
qed simp

lemma foldE_snoc_Inr:
  "foldE f (xs @ [x]) s = Inr t \<longleftrightarrow> (\<exists>u. foldE f xs s = Inr u \<and> f x u = Inr t)"
  by (simp add: foldE_append)

locale fold_invariant =
  fixes step :: "'x \<Rightarrow> 's \<Rightarrow> 'e + 's"
    and good :: "'s \<Rightarrow> bool"
  assumes step_keeps: "good s \<Longrightarrow> step x s = Inr t \<Longrightarrow> good t"
begin

lemma fold_keeps: "good s \<Longrightarrow> foldE step xs s = Inr t \<Longrightarrow> good t"
  by (induction xs arbitrary: s) (auto dest: step_keeps)

lemma fold_prefix_good:
  assumes "good s" and "foldE step (xs @ ys) s = Inr t"
  shows "\<exists>u. foldE step xs s = Inr u \<and> good u \<and> foldE step ys u = Inr t"
  using assms by (auto simp: foldE_append dest: fold_keeps)

end


section \<open>Machine integers\<close>

type_synonym u64 = "64 word"
type_synonym u32 = "32 word"

definition checked_add :: "'l::len word \<Rightarrow> 'l word \<Rightarrow> 'l word option" where
  "checked_add a b = (if unat a + unat b < 2 ^ LENGTH('l) then Some (a + b) else None)"

lemma checked_add_Some:
  "checked_add a b = Some c \<Longrightarrow> unat c = unat a + unat b"
  for a b c :: "'l::len word"
  by (auto simp: checked_add_def unat_add_lem split: if_splits)

lemma checked_add_None_iff:
  "checked_add a b = None \<longleftrightarrow> unat a + unat b \<ge> 2 ^ LENGTH('l)"
  for a b :: "'l::len word"
  by (auto simp: checked_add_def)

definition saturating_add :: "'l::len word \<Rightarrow> 'l word \<Rightarrow> 'l word" where
  "saturating_add a b = (case checked_add a b of Some c \<Rightarrow> c | None \<Rightarrow> - 1)"

lemma unat_saturating_add:
  "unat (saturating_add a b) = min (unat a + unat b) (2 ^ LENGTH('l) - 1)"
  for a b :: "'l::len word"
proof (cases "checked_add a b")
  case None
  then have "unat a + unat b \<ge> 2 ^ LENGTH('l)"
    by (simp add: checked_add_None_iff)
  with None show ?thesis
    by (simp add: saturating_add_def unsigned_minus_1_eq_mask mask_eq_exp_minus_1)
next
  case (Some c)
  then have "unat c = unat a + unat b" by (rule checked_add_Some)
  moreover have "unat c < 2 ^ LENGTH('l)" by simp
  ultimately show ?thesis using Some by (simp add: saturating_add_def)
qed


text \<open>\<open>usize::checked_add\<close>.\<close>

definition usize_add :: "nat \<Rightarrow> nat \<Rightarrow> nat option" where
  "usize_add a b = (if a + b < 2 ^ 64 then Some (a + b) else None)"


section \<open>Lists\<close>

lemma set_map_filter: "y \<in> set (List.map_filter f xs) \<longleftrightarrow> (\<exists>x\<in>set xs. f x = Some y)"
  by (force simp: List.map_filter_def)


section \<open>Ordered maps\<close>

fun upd_list :: "'k::linorder \<Rightarrow> 'v \<Rightarrow> ('k \<times> 'v) list \<Rightarrow> ('k \<times> 'v) list" where
  "upd_list k v [] = [(k, v)]"
| "upd_list k v ((x, w) # ps) =
    (if k < x then (k, v) # (x, w) # ps
     else if k = x then (k, v) # ps else (x, w) # upd_list k v ps)"

definition strict_keys :: "('k::linorder \<times> 'v) list \<Rightarrow> bool" where
  "strict_keys ps = sorted_wrt (<) (map fst ps)"

fun del_list :: "'k::linorder \<Rightarrow> ('k \<times> 'v) list \<Rightarrow> ('k \<times> 'v) list" where
  "del_list k [] = []"
| "del_list k ((x, w) # ps) = (if k = x then ps else (x, w) # del_list k ps)"

lemma strict_keys_Nil [simp]: "strict_keys []"
  by (simp add: strict_keys_def)

lemma strict_keys_Cons [simp]:
  "strict_keys ((k, v) # ps) \<longleftrightarrow> (\<forall>p \<in> set ps. k < fst p) \<and> strict_keys ps"
  by (auto simp: strict_keys_def)

lemma fst_set_upd_list: "fst ` set (upd_list k v ps) = insert k (fst ` set ps)"
  by (induction k v ps rule: upd_list.induct) auto

lemma strict_keys_upd_list [simp]: "strict_keys ps \<Longrightarrow> strict_keys (upd_list k v ps)"
proof (induction k v ps rule: upd_list.induct)
  case (2 k v x w ps)
  have "k < fst p" if "p \<in> set ps" "k < x" for p
    using that 2 by (auto intro: less_trans)
  moreover have "x < fst p" if "p \<in> set (upd_list k v ps)" "x < k" for p
    using that 2 fst_set_upd_list [of k v ps] by (metis image_iff insertE strict_keys_Cons)
  ultimately show ?case using 2 by (auto simp: not_less_iff_gr_or_eq)
qed simp

lemma set_del_list: "set (del_list k ps) \<subseteq> set ps"
  by (induction k ps rule: del_list.induct) auto

lemma strict_keys_del_list [simp]: "strict_keys ps \<Longrightarrow> strict_keys (del_list k ps)"
proof (induction ps)
  case (Cons p ps)
  then show ?case using set_del_list [of k ps] by (cases p) auto
qed simp

lemma map_of_upd_list: "map_of (upd_list k v ps) = (map_of ps)(k \<mapsto> v)"
  by (induction k v ps rule: upd_list.induct) auto

lemma map_of_strict_None: "\<forall>p \<in> set ps. k < fst p \<Longrightarrow> map_of ps k = None"
  for k :: "'k::linorder"
  by (induction ps) auto

lemma map_of_del_list: "strict_keys ps \<Longrightarrow> map_of (del_list k ps) = (map_of ps)(k := None)"
proof (induction ps)
  case (Cons p ps)
  then show ?case by (cases p) (auto simp: map_of_strict_None)
qed simp

lemma strict_keys_distinct: "strict_keys ps \<Longrightarrow> distinct (map fst ps)"
  by (auto simp: strict_keys_def strict_sorted_iff)

lemma strict_keys_ext:
  assumes "strict_keys ps" "strict_keys qs" "map_of ps = map_of qs"
  shows "ps = qs"
proof -
  have eq: "set ps = set qs"
    using assms by (metis map_of_inject_set strict_keys_distinct)
  moreover have "inj_on fst (set ps)"
    using assms(1) by (auto dest: strict_keys_distinct simp: distinct_map)
  ultimately show ?thesis
    using assms(1,2) strict_keys_distinct
    by (intro map_sorted_distinct_set_unique [of fst])
       (auto simp: strict_keys_def strict_sorted_iff)
qed

typedef (overloaded) ('k::linorder, 'v) omap = "{ps :: ('k \<times> 'v) list. strict_keys ps}"
  morphisms om_entries Abs_omap
  by (rule exI [of _ "[]"]) simp

setup_lifting type_definition_omap

lift_definition om_empty :: "('k::linorder, 'v) omap" is "[]" by simp

lift_definition om_get :: "('k::linorder, 'v) omap \<Rightarrow> 'k \<Rightarrow> 'v option" is map_of .

lift_definition om_insert :: "'k::linorder \<Rightarrow> 'v \<Rightarrow> ('k, 'v) omap \<Rightarrow> ('k, 'v) omap" is upd_list
  by simp

lift_definition om_remove :: "'k::linorder \<Rightarrow> ('k, 'v) omap \<Rightarrow> ('k, 'v) omap" is del_list
  by simp

lift_definition om_map :: "('v \<Rightarrow> 'w) \<Rightarrow> ('k::linorder, 'v) omap \<Rightarrow> ('k, 'w) omap"
  is "\<lambda>f. map (\<lambda>(k, v). (k, f v))"
  by (simp add: strict_keys_def comp_def case_prod_unfold)

definition om_keys :: "('k::linorder, 'v) omap \<Rightarrow> 'k list" where
  "om_keys m = map fst (om_entries m)"

definition om_values :: "('k::linorder, 'v) omap \<Rightarrow> 'v list" where
  "om_values m = map snd (om_entries m)"

definition om_len :: "('k::linorder, 'v) omap \<Rightarrow> nat" where
  "om_len m = length (om_entries m)"

definition om_contains :: "('k::linorder, 'v) omap \<Rightarrow> 'k \<Rightarrow> bool" where
  "om_contains m k = (om_get m k \<noteq> None)"

lemma om_entries_empty [simp, omap_simps]: "om_entries om_empty = []"
  by (rule om_empty.rep_eq)

lemma om_entries_insert [omap_simps]: "om_entries (om_insert k v m) = upd_list k v (om_entries m)"
  by (rule om_insert.rep_eq)

lemma om_entries_remove [omap_simps]: "om_entries (om_remove k m) = del_list k (om_entries m)"
  by (rule om_remove.rep_eq)

lemma om_entries_map [omap_simps]: "om_entries (om_map f m) = map (\<lambda>(k, v). (k, f v)) (om_entries m)"
  by (rule om_map.rep_eq)

lemma strict_keys_entries [simp]: "strict_keys (om_entries m)"
  using om_entries by auto

lemma om_get_entries: "om_get m k = map_of (om_entries m) k"
  by (simp add: om_get.rep_eq)

lemma om_get_empty [simp]: "om_get om_empty k = None"
  by (simp add: om_get_entries)

lemma om_get_insert [simp]: "om_get (om_insert k v m) k' = (if k' = k then Some v else om_get m k')"
  by (simp add: om_get_entries om_entries_insert map_of_upd_list)

lemma om_get_remove [simp]: "om_get (om_remove k m) k' = (if k' = k then None else om_get m k')"
  by (simp add: om_get_entries om_entries_remove map_of_del_list)

lemma om_get_map [simp]: "om_get (om_map f m) k = map_option f (om_get m k)"
proof -
  have "map_of (map (\<lambda>(k, v). (k, f v)) ps) k = map_option f (map_of ps k)" for ps
    by (induction ps) auto
  then show ?thesis by (simp add: om_get_entries om_entries_map)
qed

text \<open>The contract a client of an ordered map relies on: point lookups after every update, and
  the entries in strictly increasing key order.\<close>

locale ordered_map =
  fixes emp :: "'m"
    and get :: "'m \<Rightarrow> 'k::linorder \<Rightarrow> 'v option"
    and ins :: "'k \<Rightarrow> 'v \<Rightarrow> 'm \<Rightarrow> 'm"
    and del :: "'k \<Rightarrow> 'm \<Rightarrow> 'm"
    and ents :: "'m \<Rightarrow> ('k \<times> 'v) list"
  assumes get_emp: "get emp k = None"
    and get_ins: "get (ins k v m) k' = (if k' = k then Some v else get m k')"
    and get_del: "get (del k m) k' = (if k' = k then None else get m k')"
    and ents_get: "map_of (ents m) = get m"
    and ents_strict: "sorted_wrt (<) (map fst (ents m))"
    and ents_inj: "ents m = ents m' \<Longrightarrow> m = m'"
begin

lemma ents_strict_keys: "strict_keys (ents m)"
  by (simp add: strict_keys_def ents_strict)

lemma map_ext: "(\<And>k. get m k = get m' k) \<Longrightarrow> m = m'"
  by (rule ents_inj, rule strict_keys_ext) (auto simp: ents_strict_keys ents_get)

lemma in_ents: "(k, v) \<in> set (ents m) \<longleftrightarrow> get m k = Some v"
  by (simp add: ents_get [symmetric] strict_keys_distinct ents_strict_keys)

lemma key_in_ents: "k \<in> fst ` set (ents m) \<longleftrightarrow> get m k \<noteq> None"
  by (metis ents_get map_of_eq_None_iff)

lemma dom_get: "dom (get m) = fst ` set (ents m)"
  by (metis dom_map_of_conv_image_fst ents_get)

lemma length_ents: "length (ents m) = card (dom (get m))"
  by (metis dom_get distinct_card ents_strict_keys length_map list.set_map strict_keys_distinct)

lemma finite_dom: "finite (dom (get m))"
  by (simp add: dom_get)

lemma length_ins:
  "length (ents (ins k v m)) = (if get m k = None then Suc (length (ents m)) else length (ents m))"
proof -
  have "dom (get (ins k v m)) = insert k (dom (get m))"
    by (auto simp: get_ins dom_def)
  then show ?thesis
    using finite_dom [of m] by (auto simp: length_ents dom_def insert_absorb)
qed

lemma length_del_le: "length (ents (del k m)) \<le> length (ents m)"
proof -
  have "dom (get (del k m)) \<subseteq> dom (get m)"
    by (auto simp: get_del dom_def split: if_splits)
  then show ?thesis by (simp add: length_ents card_mono finite_dom)
qed

lemma ins_ins_same: "ins k v (ins k w m) = ins k v m"
  by (rule map_ext) (simp add: get_ins)

lemma ins_commute: "k \<noteq> l \<Longrightarrow> ins k v (ins l w m) = ins l w (ins k v m)"
  by (rule map_ext) (simp add: get_ins)

lemma ins_id: "get m k = Some v \<Longrightarrow> ins k v m = m"
  by (rule map_ext) (simp add: get_ins)

end

interpretation omap: ordered_map om_empty om_get om_insert om_remove om_entries
proof (unfold_locales, goal_cases)
  case 4 then show ?case by (simp add: om_get.rep_eq)
next
  case 5 show ?case using strict_keys_entries by (simp only: strict_keys_def)
next
  case 6 then show ?case by (simp add: om_entries_inject)
qed simp_all

lemmas om_ext = omap.map_ext
lemmas om_in_entries = omap.in_ents

instantiation omap :: (linorder, equal) equal
begin

definition equal_omap :: "('a, 'b) omap \<Rightarrow> ('a, 'b) omap \<Rightarrow> bool" where
  "equal_omap m m' = HOL.equal (om_entries m) (om_entries m')"

instance
  by standard (simp add: equal_omap_def equal_eq om_entries_inject)

end

lemma om_contains_empty [simp]: "om_contains om_empty k \<longleftrightarrow> False"
  by (simp add: om_contains_def)

lemma om_contains_insert [simp]: "om_contains (om_insert k v m) k' \<longleftrightarrow> k' = k \<or> om_contains m k'"
  by (simp add: om_contains_def)

lemma om_contains_remove [simp]: "om_contains (om_remove k m) k' \<longleftrightarrow> k' \<noteq> k \<and> om_contains m k'"
  by (simp add: om_contains_def)

lemma om_contains_map [simp]: "om_contains (om_map f m) k \<longleftrightarrow> om_contains m k"
  by (simp add: om_contains_def)

lemma om_len_map [simp]: "om_len (om_map f m) = om_len m"
  by (simp add: om_len_def om_entries_map)

lemma om_len_empty [simp]: "om_len om_empty = 0"
  by (simp add: om_len_def)

lemma om_len_insert: "om_len (om_insert k v m) = (if om_contains m k then om_len m else Suc (om_len m))"
  by (simp add: om_len_def om_contains_def omap.length_ins)

lemma om_len_remove_le: "om_len (om_remove k m) \<le> om_len m"
  by (simp add: om_len_def omap.length_del_le)

lemma om_keys_empty [simp, omap_simps]: "om_keys om_empty = []"
  by (simp add: om_keys_def)

lemma set_om_keys [simp]: "set (om_keys m) = {k. om_contains m k}"
  using omap.key_in_ents [of _ m] by (auto simp: om_keys_def om_contains_def)

lemma sorted_om_keys: "sorted_wrt (<) (om_keys m)"
  by (simp add: om_keys_def omap.ents_strict)

lemma distinct_om_keys [simp]: "distinct (om_keys m)"
  using sorted_om_keys strict_sorted_iff by auto

lemma length_om_keys: "length (om_keys m) = om_len m"
  by (simp add: om_keys_def om_len_def)


section \<open>Ordered sets\<close>

type_synonym 'k oset = "('k, unit) omap"

definition os_insert :: "'k::linorder \<Rightarrow> 'k oset \<Rightarrow> 'k oset" where
  "os_insert k s = om_insert k () s"

definition os_member :: "'k::linorder oset \<Rightarrow> 'k \<Rightarrow> bool" where
  "os_member s k = om_contains s k"

definition os_of_list :: "'k::linorder list \<Rightarrow> 'k oset" where
  "os_of_list ks = fold os_insert ks om_empty"

lemma os_member_empty [simp]: "os_member om_empty k \<longleftrightarrow> False"
  by (simp add: os_member_def)

lemma os_member_insert [simp]: "os_member (os_insert k s) k' \<longleftrightarrow> k' = k \<or> os_member s k'"
  by (simp add: os_member_def os_insert_def)

lemma os_member_fold_insert:
  "os_member (fold os_insert ks s) k \<longleftrightarrow> k \<in> set ks \<or> os_member s k"
  by (induction ks arbitrary: s) auto

lemma os_member_of_list [simp]: "os_member (os_of_list ks) k \<longleftrightarrow> k \<in> set ks"
  by (simp add: os_of_list_def os_member_fold_insert)

lemma set_os_list: "set (om_keys s) = {k. os_member s k}" for s :: "'k::linorder oset"
  by (simp add: os_member_def)

lemma os_of_list_snoc: "os_of_list (ks @ [k]) = os_insert k (os_of_list ks)"
  by (simp add: os_of_list_def)

lemma os_of_list_len: "om_len (os_of_list ks) = card (set ks)"
proof -
  have "om_len (os_of_list ks) = card (set (om_keys (os_of_list ks)))"
    by (metis distinct_card distinct_om_keys length_om_keys)
  then show ?thesis by (simp add: os_member_def [symmetric])
qed

end
