(* ===== verification/Wire.thy ===== *)
theory Wire
  imports Prelude
begin

text \<open>
  The durable wire vocabulary: the byte-level validators of the persisted identifiers
  (\<open>core/protocols/src/persistence.rs\<close>), the persisted scope, reference and actor records, the
  canonical timestamp syntax, and the closed state and outcome vocabularies
  (\<open>core/protocols/src/simulation.rs\<close>).

  A validated string type of the source (\<open>OpaqueId\<close>, \<open>EventHash\<close>, ...) is the type \<open>string\<close> of its
  bytes; \<open>parse\<close> is the only constructor of the source, so the validator is the type's invariant.
  A timestamp is the number of nanoseconds since the epoch.
\<close>

section \<open>Bytes\<close>

definition byte :: "char \<Rightarrow> nat" where
  "byte c = of_char c"

definition is_ascii_digit :: "char \<Rightarrow> bool" where
  "is_ascii_digit c = (48 \<le> byte c \<and> byte c \<le> 57)"

definition is_ascii_lowercase :: "char \<Rightarrow> bool" where
  "is_ascii_lowercase c = (97 \<le> byte c \<and> byte c \<le> 122)"

definition is_ascii_uppercase :: "char \<Rightarrow> bool" where
  "is_ascii_uppercase c = (65 \<le> byte c \<and> byte c \<le> 90)"

definition is_ascii_alphabetic :: "char \<Rightarrow> bool" where
  "is_ascii_alphabetic c = (is_ascii_lowercase c \<or> is_ascii_uppercase c)"

definition is_ascii_alphanumeric :: "char \<Rightarrow> bool" where
  "is_ascii_alphanumeric c = (is_ascii_alphabetic c \<or> is_ascii_digit c)"

definition to_ascii_lowercase :: "char \<Rightarrow> char" where
  "to_ascii_lowercase c = (if is_ascii_uppercase c then char_of (byte c + 32) else c)"

definition strip_prefix :: "string \<Rightarrow> string \<Rightarrow> string option" where
  "strip_prefix pre s = (if take (length pre) s = pre then Some (drop (length pre) s) else None)"

lemma strip_prefix_append [simp]: "strip_prefix p (p @ s) = Some s"
  by (simp add: strip_prefix_def)

definition starts_with :: "string \<Rightarrow> string \<Rightarrow> bool" where
  "starts_with s pre = (take (length pre) s = pre)"

definition ends_with :: "string \<Rightarrow> string \<Rightarrow> bool" where
  "ends_with s suf = starts_with (rev s) (rev suf)"

definition strip_suffix :: "string \<Rightarrow> string \<Rightarrow> string option" where
  "strip_suffix suf s = (if ends_with s suf then Some (take (length s - length suf) s) else None)"

fun split_once :: "string \<Rightarrow> string \<Rightarrow> (string \<times> string) option" where
  "split_once sep [] = (if sep = [] then Some ([], []) else None)"
| "split_once sep (c # cs) =
    (case strip_prefix sep (c # cs) of
       Some rest \<Rightarrow> Some ([], rest)
     | None \<Rightarrow> map_option (\<lambda>(l, r). (c # l, r)) (split_once sep cs))"

fun contains_sub :: "string \<Rightarrow> string \<Rightarrow> bool" where
  "contains_sub [] sub = (sub = [])"
| "contains_sub (c # cs) sub = (take (length sub) (c # cs) = sub \<or> contains_sub cs sub)"

fun split_on :: "char \<Rightarrow> string \<Rightarrow> string list" where
  "split_on sep [] = [[]]"
| "split_on sep (c # cs) =
    (if c = sep then [] # split_on sep cs
     else (case split_on sep cs of p # ps \<Rightarrow> (c # p) # ps | [] \<Rightarrow> [[c]]))"

definition chars_count :: "string \<Rightarrow> nat" where
  "chars_count s = length (filter (\<lambda>c. \<not> (128 \<le> byte c \<and> byte c \<le> 191)) s)"

fun show_decimal :: "nat \<Rightarrow> string" where
  "show_decimal n = (if n < 10 then [char_of (48 + n)] else show_decimal (n div 10) @ [char_of (48 + n mod 10)])"

text \<open>\<open>trim\<close> strips Unicode white space at both ends, so nothing is left of a string of white space only: the six
  ASCII characters and the UTF-8 encodings of the others.\<close>

fun trim_is_empty :: "string \<Rightarrow> bool" where
  "trim_is_empty [] = True"
| "trim_is_empty (c # cs) =
    (if byte c \<in> {9, 10, 11, 12, 13, 32} then trim_is_empty cs
     else case cs of
       d # ds \<Rightarrow>
         if byte c = 194 \<and> byte d \<in> {133, 160} then trim_is_empty ds
         else (case ds of
           e # es \<Rightarrow>
             if byte c = 225 \<and> byte d = 154 \<and> byte e = 128
               \<or> byte c = 226 \<and> byte d = 128 \<and> (128 \<le> byte e \<and> byte e \<le> 138 \<or> byte e \<in> {168, 169, 175})
               \<or> byte c = 226 \<and> byte d = 129 \<and> byte e = 159
               \<or> byte c = 227 \<and> byte d = 128 \<and> byte e = 128
             then trim_is_empty es else False
         | [] \<Rightarrow> False)
     | [] \<Rightarrow> False)"

lemmas ascii_defs = is_ascii_alphanumeric_def is_ascii_alphabetic_def is_ascii_digit_def
  is_ascii_lowercase_def is_ascii_uppercase_def byte_def


section \<open>Validated strings\<close>

definition MAX_SAFE_INTEGER :: u64 where
  "MAX_SAFE_INTEGER = 9007199254740991"

datatype persistence_error = PersistenceError string

definition validated :: "string \<Rightarrow> (string \<Rightarrow> bool) \<Rightarrow> string \<Rightarrow> persistence_error + string" where
  "validated field validator s = (if validator s then Inr s else Inl (PersistenceError field))"

definition is_opaque_id :: "string \<Rightarrow> bool" where
  "is_opaque_id s = (s \<noteq> [] \<and> length s \<le> 128 \<and>
     list_all (\<lambda>c. let b = byte c in
       (0x21 \<le> b \<and> b \<le> 0x2e) \<or> (0x30 \<le> b \<and> b \<le> 0x39) \<or>
       (0x3b \<le> b \<and> b \<le> 0x5b) \<or> (0x5d \<le> b \<and> b \<le> 0x7e)) s)"

definition is_dotted_word :: "char \<Rightarrow> bool" where
  "is_dotted_word c = (is_ascii_alphanumeric c \<or> c \<in> set ''._-'')"

definition is_actor_id :: "string \<Rightarrow> bool" where
  "is_actor_id s = (case s of [] \<Rightarrow> False
     | c # cs \<Rightarrow> length s \<le> 256 \<and> is_ascii_alphanumeric c \<and> list_all is_dotted_word cs)"

definition is_raw_sha256 :: "string \<Rightarrow> bool" where
  "is_raw_sha256 s = (length s = 64 \<and>
     list_all (\<lambda>c. is_ascii_digit c \<or> (97 \<le> byte c \<and> byte c \<le> 102)) s)"

definition is_wire_hash :: "string \<Rightarrow> bool" where
  "is_wire_hash s = (case strip_prefix ''sha256:'' s of None \<Rightarrow> False | Some r \<Rightarrow> is_raw_sha256 r)"

definition FORBIDDEN_SAFE_KEY_FRAGMENTS :: "string list" where
  "FORBIDDEN_SAFE_KEY_FRAGMENTS =
    [''instruction'', ''prompt'', ''objective'', ''purpose'', ''output'', ''log'', ''credential'',
     ''environment'', ''message'', ''path'', ''source'', ''secret'', ''token'', ''password'',
     ''apikey'', ''privatekey'', ''rawtoolresult'', ''description'', ''displayname'',
     ''completioncontract'', ''policytext'', ''diagnosticdetail'', ''content'', ''response'',
     ''comment'', ''example'', ''title'', ''prose'', ''note'']"

definition is_safe_key :: "string \<Rightarrow> bool" where
  "is_safe_key s = (case s of [] \<Rightarrow> False
     | c # cs \<Rightarrow> length s \<le> 64 \<and> is_ascii_alphabetic c \<and> list_all is_dotted_word cs \<and>
         (let normalized = map to_ascii_lowercase (filter (\<lambda>c. c \<notin> set ''._-'') s)
          in \<not> list_ex (contains_sub normalized) FORBIDDEN_SAFE_KEY_FRAGMENTS))"

definition is_safe_value :: "string \<Rightarrow> bool" where
  "is_safe_value s = (case s of [] \<Rightarrow> False
     | c # cs \<Rightarrow> length s \<le> 128 \<and> is_ascii_alphanumeric c \<and>
         list_all (\<lambda>b. is_ascii_alphanumeric b \<or> b \<in> set ''._:-'') cs)"

definition is_artifact_locator :: "string \<Rightarrow> bool" where
  "is_artifact_locator s =
    (case strip_prefix ''artifact://sha256/'' s of None \<Rightarrow> False | Some r \<Rightarrow> is_raw_sha256 r)"

definition media_type_part :: "string \<Rightarrow> bool" where
  "media_type_part s = (case s of [] \<Rightarrow> False
     | c # cs \<Rightarrow> length s \<le> 63 \<and> (is_ascii_lowercase c \<or> is_ascii_digit c) \<and>
         list_all (\<lambda>b. is_ascii_lowercase b \<or> is_ascii_digit b \<or> b \<in> set ''!#$&^_.+-'') cs)"

definition is_media_type :: "string \<Rightarrow> bool" where
  "is_media_type s = (3 \<le> length s \<and> length s \<le> 127 \<and>
     (case split_on CHR ''/'' s of
        [first, second] \<Rightarrow> media_type_part first \<and> media_type_part second
      | _ \<Rightarrow> False))"

definition is_semantic_version :: "string \<Rightarrow> bool" where
  "is_semantic_version s = (5 \<le> length s \<and> length s \<le> 32 \<and>
     (let parts = split_on CHR ''.'' s in
       length parts = 3 \<and>
       list_all (\<lambda>p. p \<noteq> [] \<and> list_all is_ascii_digit p \<and>
                     (length p = 1 \<or> hd p \<noteq> CHR ''0'')) parts))"

definition valid_positive_safe_integer :: "u64 \<Rightarrow> bool" where
  "valid_positive_safe_integer n = (1 \<le> n \<and> n \<le> MAX_SAFE_INTEGER)"

definition valid_safe_integer :: "64 word \<Rightarrow> bool" where
  "valid_safe_integer n = (-9007199254740991 \<le> sint n \<and> sint n \<le> 9007199254740991)"

definition valid_bounded_text :: "string \<Rightarrow> nat \<Rightarrow> nat \<Rightarrow> bool" where
  "valid_bounded_text s lo hi = (lo \<le> chars_count s \<and> chars_count s \<le> hi)"


section \<open>Timestamps\<close>

type_synonym timestamp = int

definition nth_opt :: "'a list \<Rightarrow> nat \<Rightarrow> 'a option" where
  "nth_opt xs i = (if i < length xs then Some (xs ! i) else None)"

definition slice :: "nat \<Rightarrow> nat \<Rightarrow> 'a list \<Rightarrow> 'a list option" where
  "slice lo hi xs = (if lo \<le> hi \<and> hi \<le> length xs then Some (take (hi - lo) (drop lo xs)) else None)"

fun parse_two_ascii_digits :: "string option \<Rightarrow> nat option" where
  "parse_two_ascii_digits (Some [tens, units]) =
    (if \<not> is_ascii_digit tens \<or> \<not> is_ascii_digit units then None
     else Some ((byte tens - 48) * 10 + (byte units - 48)))"
| "parse_two_ascii_digits _ = None"

definition digits_at :: "string \<Rightarrow> nat \<times> nat \<Rightarrow> bool" where
  "digits_at s r = (case slice (fst r) (snd r) s of None \<Rightarrow> False | Some p \<Rightarrow> list_all is_ascii_digit p)"

definition canonical_suffix :: "string \<Rightarrow> bool" where
  "canonical_suffix s =
    (if nth_opt s 19 = Some CHR ''Z'' then length s = 20
     else if nth_opt s 19 = Some CHR ''.'' then
       last s = CHR ''Z'' \<and>
       (case slice 20 (length s - 1) s of None \<Rightarrow> False
        | Some digits \<Rightarrow> 1 \<le> length digits \<and> length digits \<le> 9 \<and> list_all is_ascii_digit digits)
     else False)"

definition is_schema_datetime :: "string \<Rightarrow> bool" where
  "is_schema_datetime s =
    (if \<not> (20 \<le> length s \<and> length s \<le> 30)
        \<or> nth_opt s 4 \<noteq> Some CHR ''-'' \<or> nth_opt s 7 \<noteq> Some CHR ''-''
        \<or> nth_opt s 10 \<noteq> Some CHR ''T'' \<or> nth_opt s 13 \<noteq> Some CHR '':''
        \<or> nth_opt s 16 \<noteq> Some CHR '':''
        \<or> list_ex (\<lambda>r. \<not> digits_at s r) [(0,4), (5,7), (8,10), (11,13), (14,16), (17,19)]
     then False
     else
       (case (parse_two_ascii_digits (slice 11 13 s), parse_two_ascii_digits (slice 14 16 s),
              parse_two_ascii_digits (slice 17 19 s)) of
          (Some hour, Some minute, Some second) \<Rightarrow>
            if hour > 23 \<or> minute > 59 \<or> second > 60 then False
            else canonical_suffix s \<and> (second \<noteq> 60 \<or> (hour = 23 \<and> minute = 59))
        | _ \<Rightarrow> False))"

text \<open>\<open>rfc3339\<close> stands for \<open>chrono::DateTime::parse_from_rfc3339\<close> followed by the conversion to UTC.\<close>

definition parse_timestamp ::
  "(string \<Rightarrow> timestamp option) \<Rightarrow> string \<Rightarrow> persistence_error + timestamp" where
  "parse_timestamp rfc3339 s =
    (if \<not> (20 \<le> chars_count s \<and> chars_count s \<le> 30) \<or> \<not> is_schema_datetime s
     then Inl (PersistenceError ''timestamp'')
     else ok_or (rfc3339 s) (PersistenceError ''timestamp''))"


section \<open>Persisted records\<close>

datatype sensitivity = Public | Internal | Confidential | Restricted

record repository_scope =
  rs_workspace_id :: string
  rs_project_id :: string
  rs_execution_id :: "string option"

record evidence_reference =
  er_evidence_id :: string
  er_content_sha256 :: string
  er_ciphertext_sha256 :: string

record artifact_reference =
  ar_artifact_id :: string
  ar_locator :: string
  ar_content_sha256 :: string
  ar_media_type :: string
  ar_byte_length :: u64
  ar_sensitivity :: sensitivity
  ar_metadata_version :: string

definition artifact_reference_new ::
  "string \<Rightarrow> string \<Rightarrow> string \<Rightarrow> string \<Rightarrow> u64 \<Rightarrow> sensitivity \<Rightarrow> string
   \<Rightarrow> persistence_error + artifact_reference" where
  "artifact_reference_new aid loc sha media len sens ver =
    (if \<not> (1 \<le> len \<and> len \<le> 17179869184) then Inl (PersistenceError ''artifact byte length'')
     else Inr \<lparr>ar_artifact_id = aid, ar_locator = loc, ar_content_sha256 = sha,
               ar_media_type = media, ar_byte_length = len, ar_sensitivity = sens,
               ar_metadata_version = ver\<rparr>)"

datatype persisted_actor_type = Owner | Human | AgentActor | SystemActor

record persisted_actor =
  pa_actor_type :: persisted_actor_type
  pa_id :: string


section \<open>Closed vocabularies of node and execution state\<close>

datatype node_state =
    S_Draft | S_Ghost | S_Linting | S_Ready | S_Queued | S_Running | S_WaitingInput
  | S_WaitingCapacity | S_Paused | S_Blocked | S_Succeeded | S_Failed | S_Waived | S_Skipped
  | S_Cancelled | S_Invalidated

fun node_state_wire_name :: "node_state \<Rightarrow> string" where
  "node_state_wire_name S_Draft = ''draft''"
| "node_state_wire_name S_Ghost = ''ghost''"
| "node_state_wire_name S_Linting = ''linting''"
| "node_state_wire_name S_Ready = ''ready''"
| "node_state_wire_name S_Queued = ''queued''"
| "node_state_wire_name S_Running = ''running''"
| "node_state_wire_name S_WaitingInput = ''waiting_input''"
| "node_state_wire_name S_WaitingCapacity = ''waiting_capacity''"
| "node_state_wire_name S_Paused = ''paused''"
| "node_state_wire_name S_Blocked = ''blocked''"
| "node_state_wire_name S_Succeeded = ''succeeded''"
| "node_state_wire_name S_Failed = ''failed''"
| "node_state_wire_name S_Waived = ''waived''"
| "node_state_wire_name S_Skipped = ''skipped''"
| "node_state_wire_name S_Cancelled = ''cancelled''"
| "node_state_wire_name S_Invalidated = ''invalidated''"

definition every_node_state :: "node_state list" where
  "every_node_state =
    [S_Draft, S_Ghost, S_Linting, S_Ready, S_Queued, S_Running, S_WaitingInput, S_WaitingCapacity,
     S_Paused, S_Blocked, S_Succeeded, S_Failed, S_Waived, S_Skipped, S_Cancelled, S_Invalidated]"

datatype node_outcome =
    O_Started | O_Succeeded | O_RetryableFailure | O_TerminalFailure | O_NeedsInput
  | O_NeedsCapacity | O_Approved | O_Waived | O_Skipped | O_Cancelled | O_Invalidated | O_Paused
  | O_Interrupted

datatype execution_mode = Autopilot | Supervised | Manual

datatype freshness_class = ImmutableByInput | SnapshotClosed | Drifting

datatype signal_severity = LowSeverity | MediumSeverity | HighSeverity | CriticalSeverity

datatype signal_source_kind =
  FromNode | FromRuntime | FromTool | FromTest | FromUser | FromDream | FromSystem

datatype simulation_status =
  SimRunning | SimCompleted | SimFailed | SimPaused | SimBlocked | SimCancelled

lemma every_node_state_complete: "s \<in> set every_node_state"
  by (cases s) (simp_all add: every_node_state_def)

lemma every_node_state_distinct: "distinct every_node_state"
  by (simp add: every_node_state_def)

end
