(* ===== verification/Graph_Model.thy ===== *)
theory Graph_Model
  imports Wire
begin

text \<open>
  The execution graph exchanged at the boundaries (\<open>core/protocols/src/graph.rs\<close>): its spec, nodes,
  edges and budgets, the node type vocabulary, and the reading of a node's customs declaration out
  of its properties.

  A JSON document is \<open>json\<close>; a 64-bit float is kept as its bit pattern, which nothing here
  computes with. Deserialising a customs block is the work of \<open>serde_json\<close> and is the parameter
  \<open>decode\<close> of \<open>node_customs\<close>.
\<close>

datatype json_number = PosInt u64 | NegInt "64 word" | Float "64 word"

datatype json =
    JNull
  | JBool bool
  | JNumber json_number
  | JString string
  | JArray "json list"
  | JObject "(string \<times> json) list"

fun as_u64 :: "json \<Rightarrow> u64 option" where
  "as_u64 (JNumber (PosInt n)) = Some n"
| "as_u64 _ = None"

fun as_str :: "json \<Rightarrow> string option" where
  "as_str (JString s) = Some s"
| "as_str _ = None"

fun as_bool :: "json \<Rightarrow> bool option" where
  "as_bool (JBool b) = Some b"
| "as_bool _ = None"

fun as_array :: "json \<Rightarrow> json list option" where
  "as_array (JArray xs) = Some xs"
| "as_array _ = None"

fun as_object :: "json \<Rightarrow> (string \<times> json) list option" where
  "as_object (JObject fs) = Some fs"
| "as_object _ = None"

fun json_get :: "json \<Rightarrow> string \<Rightarrow> json option" where
  "json_get (JObject fs) k = map_of fs k"
| "json_get _ k = None"

datatype node_type =
    Agent | Tool | Classifier | Planner | Gate | Evaluator | Fork | Join | HumanDecision | Timer
  | Trigger | Subgraph | Materializer | Deploy | Rollback | ArtifactTransform | DeadLetter

fun node_type_as_str :: "node_type \<Rightarrow> string" where
  "node_type_as_str Agent = ''agent''"
| "node_type_as_str Tool = ''tool''"
| "node_type_as_str Classifier = ''classifier''"
| "node_type_as_str Planner = ''planner''"
| "node_type_as_str Gate = ''gate''"
| "node_type_as_str Evaluator = ''evaluator''"
| "node_type_as_str Fork = ''fork''"
| "node_type_as_str Join = ''join''"
| "node_type_as_str HumanDecision = ''human_decision''"
| "node_type_as_str Timer = ''timer''"
| "node_type_as_str Trigger = ''trigger''"
| "node_type_as_str Subgraph = ''subgraph''"
| "node_type_as_str Materializer = ''materializer''"
| "node_type_as_str Deploy = ''deploy''"
| "node_type_as_str Rollback = ''rollback''"
| "node_type_as_str ArtifactTransform = ''artifact_transform''"
| "node_type_as_str DeadLetter = ''dead_letter''"

definition EVERY_VARIANT :: "node_type list" where
  "EVERY_VARIANT =
    [Agent, Tool, Classifier, Planner, Gate, Evaluator, Fork, Join, HumanDecision, Timer, Trigger,
     Subgraph, Materializer, Deploy, Rollback, ArtifactTransform, DeadLetter]"

definition EVERY_NODE_TYPE_NAME :: "string list" where
  "EVERY_NODE_TYPE_NAME = map node_type_as_str EVERY_VARIANT"

datatype optionality = Required | Recommended | Optional

datatype edge_type = Control | Data | Evidence | Event | Failure | Compensation | HumanApproval

datatype unknown_condition_behavior = PauseOnUnknown | FailOnUnknown | SkipOnUnknown | RouteOnUnknown

record graph_node =
  gn_node_type :: node_type
  gn_name :: string
  gn_objective :: string
  gn_optionality :: optionality
  gn_properties :: "(string, json) omap"

record graph_edge =
  ge_id :: string
  ge_from :: string
  ge_to :: string
  ge_edge_type :: edge_type
  ge_payload_schema :: "string option"
  ge_condition :: "json option"
  ge_on_false :: "json option"
  ge_on_unknown :: "unknown_condition_behavior option"
  ge_bindings :: "(string, string) omap"
  ge_priority :: "64 word option"

record graph_budgets =
  gb_max_nodes :: "u64 option"
  gb_max_depth :: "u64 option"
  gb_max_mutations :: "u64 option"
  gb_max_retries_per_node :: "u64 option"
  gb_max_wall_clock_seconds :: "u64 option"
  gb_max_api_cost_usd :: "64 word option"
  gb_max_parallel_model_calls :: "u64 option"

definition default_budgets :: graph_budgets where
  "default_budgets = \<lparr>gb_max_nodes = None, gb_max_depth = None, gb_max_mutations = None,
     gb_max_retries_per_node = None, gb_max_wall_clock_seconds = None, gb_max_api_cost_usd = None,
     gb_max_parallel_model_calls = None\<rparr>"

record graph_spec =
  gs_entrypoints :: "string list"
  gs_nodes :: "(string, graph_node) omap"
  gs_edges :: "graph_edge list"
  gs_budgets :: graph_budgets
  gs_policies :: "json list"
  gs_completion :: json

record graph_metadata =
  gm_id :: string
  gm_name :: string
  gm_execution_id :: string
  gm_version :: u64
  gm_based_on :: "string option"
  gm_labels :: "(string, string) omap"
  gm_properties :: "(string, json) omap"

record execution_graph =
  eg_api_version :: string
  eg_kind :: string
  eg_metadata :: graph_metadata
  eg_spec :: graph_spec

definition declared_timeout_seconds :: "graph_node \<Rightarrow> u64 option" where
  "declared_timeout_seconds n = Option.bind (om_get (gn_properties n) ''timeoutSeconds'') as_u64"

record customs_budgets =
  cb_wait_within_seconds :: u64
  cb_clearance_within_seconds :: u64
  cb_dlq_within_seconds :: "u64 option"

record node_customs =
  nc_proof_kinds :: "string list"
  nc_budgets :: customs_budgets

definition customs ::
  "(json \<Rightarrow> 'err + node_customs) \<Rightarrow> graph_node \<Rightarrow> 'err + node_customs option" where
  "customs decode n =
    (case Option.bind (om_get (gn_properties n) ''completion'') (\<lambda>c. json_get c ''customs'') of
       None \<Rightarrow> Inr None
     | Some c \<Rightarrow> bindE (decode c) (\<lambda>x. Inr (Some x)))"

lemma EVERY_VARIANT_complete: "t \<in> set EVERY_VARIANT"
  by (cases t) (simp_all add: EVERY_VARIANT_def)

lemma distinct_node_type_names: "distinct EVERY_NODE_TYPE_NAME"
  by (simp add: EVERY_NODE_TYPE_NAME_def EVERY_VARIANT_def)

lemma inj_node_type_as_str: "node_type_as_str a = node_type_as_str b \<Longrightarrow> a = b"
  using distinct_node_type_names EVERY_VARIANT_complete
  by (metis EVERY_NODE_TYPE_NAME_def distinct_map inj_onD)

text \<open>Node types order by declaration, as the derived \<open>Ord\<close> of the source does; the order exists
  only so that a map can be keyed by them.\<close>

fun node_type_index :: "node_type \<Rightarrow> nat" where
  "node_type_index Agent = 0" | "node_type_index Tool = 1" | "node_type_index Classifier = 2"
| "node_type_index Planner = 3" | "node_type_index Gate = 4" | "node_type_index Evaluator = 5"
| "node_type_index Fork = 6" | "node_type_index Join = 7" | "node_type_index HumanDecision = 8"
| "node_type_index Timer = 9" | "node_type_index Trigger = 10" | "node_type_index Subgraph = 11"
| "node_type_index Materializer = 12" | "node_type_index Deploy = 13"
| "node_type_index Rollback = 14" | "node_type_index ArtifactTransform = 15"
| "node_type_index DeadLetter = 16"

lemma node_type_index_inj: "node_type_index a = node_type_index b \<Longrightarrow> a = b"
  by (cases a; cases b) simp_all

instantiation node_type :: linorder
begin

definition less_eq_node_type :: "node_type \<Rightarrow> node_type \<Rightarrow> bool" where
  "less_eq_node_type a b = (node_type_index a \<le> node_type_index b)"

definition less_node_type :: "node_type \<Rightarrow> node_type \<Rightarrow> bool" where
  "less_node_type a b = (node_type_index a < node_type_index b)"

instance
  by standard (auto simp: less_eq_node_type_def less_node_type_def intro: node_type_index_inj)

end

end
