(* ===== verification/Transition.thy ===== *)
theory Transition
  imports Wire
begin

text \<open>
  The node state machine (\<open>core/execution/src/transition.rs\<close>) and the counters that bound it
  (\<open>core/execution/src/bounds.rs\<close>). \<open>apply_transition\<close> is the source's function, arm by arm;
  \<open>node_step\<close> is the life of one node under it, with the attempt counter advanced the way the
  event fold advances it (one per entry into \<open>Running\<close>).
\<close>

section \<open>Bounds\<close>

definition MAX_NODE_ATTEMPTS :: u32 where "MAX_NODE_ATTEMPTS = 8"
definition MAX_IDENTICAL_OUTCOMES :: u32 where "MAX_IDENTICAL_OUTCOMES = 3"
definition MAX_ACCEPTED_MUTATIONS :: u32 where "MAX_ACCEPTED_MUTATIONS = 64"
definition MAX_READY_SET :: nat where "MAX_READY_SET = 1024"
definition MAX_SIGNALS_PER_EXECUTION :: u32 where "MAX_SIGNALS_PER_EXECUTION = 10000"


section \<open>The transition function\<close>

datatype execution_error = IllegalTransition

record transition_request =
  tr_current :: node_state
  tr_outcome :: node_outcome
  tr_attempts :: u32
  tr_identical_outcomes :: u32

fun is_terminal :: "node_state \<Rightarrow> bool" where
  "is_terminal S_Succeeded = True"
| "is_terminal S_Failed = True"
| "is_terminal S_Waived = True"
| "is_terminal S_Skipped = True"
| "is_terminal S_Cancelled = True"
| "is_terminal _ = False"

text \<open>The second half of \<open>apply_transition\<close>: its \<open>match\<close> on the current state and the outcome,
  arms in source order.\<close>

definition transition_table ::
  "u32 \<Rightarrow> u32 \<Rightarrow> node_state \<Rightarrow> node_outcome \<Rightarrow> execution_error + node_state" where
  "transition_table att same s out =
    (if s = S_Ghost \<and> out = O_Approved then Inr S_Ready
     else if s = S_Ghost then Inl IllegalTransition
     else if (s = S_Draft \<or> s = S_Linting) \<and> out = O_Approved then Inr S_Ready
     else if s = S_Blocked \<and> out = O_Approved then Inr S_Ready
     else if s = S_Ready \<and> out = O_Started then Inr S_Queued
     else if s = S_Queued \<and> out = O_Started then Inr S_Running
     else if (s = S_Ready \<or> s = S_Queued) \<and> out = O_Paused then Inr S_Paused
     else if s = S_Running \<and> out = O_Succeeded then Inr S_Succeeded
     else if s = S_Running \<and> out = O_TerminalFailure then Inr S_Failed
     else if s = S_Running \<and> out = O_NeedsInput then Inr S_WaitingInput
     else if s = S_Running \<and> out = O_NeedsCapacity then Inr S_WaitingCapacity
     else if s = S_Running \<and> out = O_Interrupted then Inr S_Blocked
     else if s = S_Running \<and> out = O_RetryableFailure then
       (if att \<ge> MAX_NODE_ATTEMPTS \<or> same \<ge> MAX_IDENTICAL_OUTCOMES then Inr S_Blocked
        else Inr S_Queued)
     else if s = S_WaitingInput \<and> out = O_NeedsInput then Inr S_WaitingInput
     else if s = S_WaitingCapacity \<and> out = O_NeedsCapacity then Inr S_WaitingCapacity
     else if (s = S_WaitingInput \<or> s = S_WaitingCapacity \<or> s = S_Paused) \<and> out = O_Started
       then Inr S_Queued
     else if out = O_Waived then Inr S_Waived
     else if out = O_Skipped then Inr S_Skipped
     else if s = S_Invalidated \<and> out = O_Approved then Inr S_Ready
     else Inl IllegalTransition)"

definition apply_transition :: "transition_request \<Rightarrow> execution_error + node_state" where
  "apply_transition r =
    (if is_terminal (tr_current r) then
       (case (tr_current r, tr_outcome r) of
          (S_Succeeded, O_Invalidated) \<Rightarrow> Inr S_Invalidated
        | _ \<Rightarrow> Inl IllegalTransition)
     else if tr_outcome r = O_Cancelled then Inr S_Cancelled
     else transition_table (tr_attempts r) (tr_identical_outcomes r) (tr_current r) (tr_outcome r))"

lemmas transition_defs = apply_transition_def transition_table_def

abbreviation transit :: "node_state \<Rightarrow> node_outcome \<Rightarrow> u32 \<Rightarrow> u32 \<Rightarrow> execution_error + node_state" where
  "transit s out att same \<equiv>
    apply_transition \<lparr>tr_current = s, tr_outcome = out, tr_attempts = att, tr_identical_outcomes = same\<rparr>"

lemma transit_request: "apply_transition r =
    transit (tr_current r) (tr_outcome r) (tr_attempts r) (tr_identical_outcomes r)"
  by (cases r) simp

lemma terminal_transit:
  "is_terminal s \<Longrightarrow> transit s out att same = Inr t \<longleftrightarrow>
     s = S_Succeeded \<and> out = O_Invalidated \<and> t = S_Invalidated"
  by (cases s; cases out) (auto simp: transition_defs)

lemma into_Running: "transit s out att same = Inr S_Running \<longleftrightarrow> s = S_Queued \<and> out = O_Started"
  by (cases s; cases out) (simp_all add: transition_defs)

lemma into_Queued: "transit s out att same = Inr S_Queued \<longleftrightarrow>
    out = O_Started \<and> s \<in> {S_Ready, S_WaitingInput, S_WaitingCapacity, S_Paused} \<or>
    s = S_Running \<and> out = O_RetryableFailure \<and> att < MAX_NODE_ATTEMPTS \<and> same < MAX_IDENTICAL_OUTCOMES"
  by (cases s; cases out) (auto simp: transition_defs)

lemma into_Ready: "transit s out att same = Inr S_Ready \<longleftrightarrow>
    out = O_Approved \<and> s \<in> {S_Ghost, S_Draft, S_Linting, S_Blocked, S_Invalidated}"
  by (cases s; cases out) (simp_all add: transition_defs)

lemma never_into_proposal: "transit s out att same = Inr t \<Longrightarrow> t \<notin> {S_Draft, S_Ghost, S_Linting}"
  by (cases s; cases out) (auto simp: transition_defs split: if_splits)

lemma from_Ghost: "transit S_Ghost out att same =
    (if out = O_Approved then Inr S_Ready else if out = O_Cancelled then Inr S_Cancelled
     else Inl IllegalTransition)"
  by (simp add: transition_defs)

lemma retry_transit: "transit S_Running O_RetryableFailure att same =
    (if att \<ge> MAX_NODE_ATTEMPTS \<or> same \<ge> MAX_IDENTICAL_OUTCOMES then Inr S_Blocked else Inr S_Queued)"
  by (simp add: transition_defs)

lemma started_transit: "transit s O_Started att same =
    (if s \<in> {S_Ready, S_WaitingInput, S_WaitingCapacity, S_Paused} then Inr S_Queued
     else if s = S_Queued then Inr S_Running else Inl IllegalTransition)"
  by (cases s) (simp_all add: transition_defs)

lemma cancel_transit: "transit s O_Cancelled att same =
    (if is_terminal s then Inl IllegalTransition else Inr S_Cancelled)"
  by (cases s) (simp_all add: transition_defs)


section \<open>The life of a node\<close>

text \<open>The state of one node as its history unfolds: its state, the attempts the fold has counted
  and, as ghost information, how many automatic retries it was granted.\<close>

record node_life =
  nl_state :: node_state
  nl_attempts :: u32
  nl_retries :: nat

inductive node_step :: "node_life \<Rightarrow> node_outcome \<Rightarrow> node_life \<Rightarrow> bool" where
  enter_running:
    "\<lbrakk> transit (nl_state l) out (nl_attempts l) same = Inr S_Running;
       checked_add (nl_attempts l) 1 = Some a \<rbrakk>
     \<Longrightarrow> node_step l out (l\<lparr>nl_state := S_Running, nl_attempts := a\<rparr>)"
| automatic_retry:
    "\<lbrakk> out = O_RetryableFailure; transit (nl_state l) out (nl_attempts l) same = Inr S_Queued \<rbrakk>
     \<Longrightarrow> node_step l out (l\<lparr>nl_state := S_Queued, nl_retries := nl_retries l + 1\<rparr>)"
| other_move:
    "\<lbrakk> transit (nl_state l) out (nl_attempts l) same = Inr t; t \<noteq> S_Running;
       \<not> (out = O_RetryableFailure \<and> t = S_Queued) \<rbrakk>
     \<Longrightarrow> node_step l out (l\<lparr>nl_state := t\<rparr>)"

inductive_cases node_stepE: "node_step l out l'"

inductive node_reach :: "node_life \<Rightarrow> bool" where
  born: "s \<in> {S_Draft, S_Ghost, S_Linting, S_Ready} \<Longrightarrow>
    node_reach \<lparr>nl_state = s, nl_attempts = 0, nl_retries = 0\<rparr>"
| lived: "\<lbrakk> node_reach l; node_step l out l' \<rbrakk> \<Longrightarrow> node_reach l'"

definition life_inv :: "node_life \<Rightarrow> bool" where
  "life_inv l \<longleftrightarrow> nl_retries l \<le> unat (nl_attempts l) \<and> nl_retries l < unat MAX_NODE_ATTEMPTS \<and>
     (nl_state l = S_Running \<longrightarrow> nl_retries l < unat (nl_attempts l))"

lemma life_inv_step:
  assumes "life_inv l" "node_step l out l'"
  shows "life_inv l'"
  using assms(2)
proof cases
  case (enter_running same a)
  then have "unat a = unat (nl_attempts l) + 1"
    using checked_add_Some by fastforce
  with enter_running assms(1) show ?thesis by (simp add: life_inv_def)
next
  case (automatic_retry same)
  then have "nl_state l = S_Running" "unat (nl_attempts l) < unat MAX_NODE_ATTEMPTS"
    by (auto simp: into_Queued word_less_nat_alt)
  with automatic_retry assms(1) show ?thesis by (simp add: life_inv_def)
next
  case (other_move same t)
  with assms(1) show ?thesis by (simp add: life_inv_def)
qed

lemma life_inv_reach: "node_reach l \<Longrightarrow> life_inv l"
proof (induction rule: node_reach.induct)
  case (born s)
  then show ?case by (auto simp: life_inv_def MAX_NODE_ATTEMPTS_def)
next
  case (lived l out l')
  then show ?case by (intro life_inv_step [of l out l'])
qed


section \<open>Properties\<close>

text \<open>A terminal node is immutable. From \<open>Succeeded\<close>, \<open>Failed\<close>, \<open>Waived\<close>, \<open>Skipped\<close> and
  \<open>Cancelled\<close> every outcome is refused, whatever the counters, with the single exception that an
  upstream invalidation reopens a success; and that exception leads to \<open>Invalidated\<close>.\<close>

theorem terminal_absorbing:
  assumes "is_terminal (tr_current r)"
  shows "apply_transition r =
    (if tr_current r = S_Succeeded \<and> tr_outcome r = O_Invalidated then Inr S_Invalidated
     else Inl IllegalTransition)"
  using assms by (cases "tr_current r"; cases "tr_outcome r") (simp_all add: apply_transition_def)

theorem terminal_absorbing_witness:
  "apply_transition \<lparr>tr_current = S_Failed, tr_outcome = O_Started, tr_attempts = 1,
     tr_identical_outcomes = 0\<rparr> = Inl IllegalTransition"
  using terminal_absorbing [of "\<lparr>tr_current = S_Failed, tr_outcome = O_Started, tr_attempts = 1,
     tr_identical_outcomes = 0\<rparr>"] by simp

text \<open>C34: a proposal consumes nothing. A ghost is left only by the owner's approval, to \<open>Ready\<close>, or
  by the owner's cancellation, to \<open>Cancelled\<close>; every other outcome is refused, so no transition
  dispatches it. No transition at all leads back into \<open>Ghost\<close>, \<open>Draft\<close> or \<open>Linting\<close>, and
  \<open>Running\<close> is entered from \<open>Queued\<close> by \<open>Started\<close> alone.\<close>

theorem ghost_never_runs:
  "(transit S_Ghost out att same =
      (if out = O_Approved then Inr S_Ready else if out = O_Cancelled then Inr S_Cancelled
       else Inl IllegalTransition)) \<and>
   transit s out att same \<notin> {Inr S_Ghost, Inr S_Draft, Inr S_Linting} \<and>
   (transit s out att same = Inr S_Running \<longleftrightarrow> s = S_Queued \<and> out = O_Started)"
  using from_Ghost into_Running never_into_proposal [of s out att same] by auto

text \<open>C30: automatic retry is bounded for the whole life of a node. However long the history, and
  whatever the owner, the waits and the invalidations do in between, a node is granted fewer than
  \<open>MAX_NODE_ATTEMPTS\<close> automatic retries (\<open>RetryableFailure\<close> answered by \<open>Queued\<close>), and never more
  than the attempts that were counted.\<close>

theorem automatic_retries_bounded:
  assumes "node_reach l"
  shows "nl_retries l < 8 \<and> nl_retries l \<le> unat (nl_attempts l)"
  using life_inv_reach [OF assms] by (simp add: life_inv_def MAX_NODE_ATTEMPTS_def)

theorem automatic_retries_bounded_witness:
  "nl_retries \<lparr>nl_state = S_Queued, nl_attempts = 1, nl_retries = 1\<rparr> < 8"
proof -
  let ?l = "\<lambda>s a r. \<lparr>nl_state = s, nl_attempts = a, nl_retries = r\<rparr>"
  have 0: "node_reach (?l S_Ready 0 0)" by (rule born) simp
  have "node_step (?l S_Ready 0 0) O_Started (?l S_Queued 0 0)"
    using other_move [of "?l S_Ready 0 0" O_Started 0 S_Queued] by (simp add: started_transit)
  with 0 have 1: "node_reach (?l S_Queued 0 0)" by (rule lived)
  have "node_step (?l S_Queued 0 0) O_Started (?l S_Running 1 0)"
    using enter_running [of "?l S_Queued 0 0" O_Started 0 1]
    by (simp add: started_transit checked_add_def)
  with 1 have 2: "node_reach (?l S_Running 1 0)" by (rule lived)
  have "node_step (?l S_Running 1 0) O_RetryableFailure (?l S_Queued 1 1)"
    using automatic_retry [of O_RetryableFailure "?l S_Running 1 0" 0]
    by (simp add: retry_transit MAX_NODE_ATTEMPTS_def MAX_IDENTICAL_OUTCOMES_def word_le_nat_alt)
  with 2 have "node_reach (?l S_Queued 1 1)" by (rule lived)
  from automatic_retries_bounded [OF this] show ?thesis by simp
qed

end
