(* ===== verification/Scheduling.thy ===== *)
theory Scheduling
  imports Graph_Model Transition "HOL-Library.Product_Lexorder"
begin

text \<open>
  Which nodes may run and which run now: the ready set, the dispatch candidates and the dispatch
  view of \<open>core/execution/src/ready.rs\<close>, and the attempt-fair bounded plan of
  \<open>core/execution/src/dispatch.rs\<close>. All of it is pure over the graph spec and the folded node
  states.

  \<open>usize\<close> counts are natural numbers; the one conversion into \<open>usize\<close> (\<open>parallel_limit\<close>) is from
  \<open>u64\<close>, which on a 64-bit target is exact.
\<close>

section \<open>Readiness\<close>

datatype schedule_error = ReadySetTooLarge

fun satisfies_dependents :: "node_state \<Rightarrow> bool" where
  "satisfies_dependents S_Succeeded = True"
| "satisfies_dependents S_Waived = True"
| "satisfies_dependents S_Skipped = True"
| "satisfies_dependents _ = False"

definition is_dispatchable :: "node_state \<Rightarrow> bool" where
  "is_dispatchable s = (s = S_Ready)"

definition edge_gates :: "graph_edge \<Rightarrow> node_state \<Rightarrow> bool" where
  "edge_gates e pred =
    (if ge_condition e = Some (JBool False) then False
     else case ge_edge_type e of
        Failure \<Rightarrow> pred \<noteq> S_Failed
      | _ \<Rightarrow> \<not> satisfies_dependents pred)"

type_synonym node_states = "(string, node_state) omap"

definition predecessor_map :: "graph_spec \<Rightarrow> (string, graph_edge list) omap" where
  "predecessor_map spec =
    fold (\<lambda>e m. om_insert (ge_to e) ((case om_get m (ge_to e) of None \<Rightarrow> [] | Some es \<Rightarrow> es) @ [e]) m)
      (gs_edges spec) om_empty"

definition state_or_draft :: "node_states \<Rightarrow> string \<Rightarrow> node_state" where
  "state_or_draft states n = (case om_get states n of None \<Rightarrow> S_Draft | Some s \<Rightarrow> s)"

definition satisfied_with :: "(string, graph_edge list) omap \<Rightarrow> node_states \<Rightarrow> string \<Rightarrow> bool" where
  "satisfied_with preds states n =
    (case om_get preds n of None \<Rightarrow> True
     | Some incoming \<Rightarrow>
         list_all (\<lambda>e. \<not> edge_gates e (state_or_draft states (ge_from e))) incoming)"

definition edges_satisfied :: "graph_spec \<Rightarrow> node_states \<Rightarrow> string \<Rightarrow> bool" where
  "edges_satisfied spec states n = satisfied_with (predecessor_map spec) states n"

text \<open>The loop of \<open>ready_set\<close>: the length is tested after every insertion.\<close>

definition ready_step ::
  "(string, graph_edge list) omap \<Rightarrow> node_states \<Rightarrow> string \<Rightarrow> string oset \<Rightarrow> schedule_error + string oset" where
  "ready_step preds states n ready =
    (if \<not> is_dispatchable (state_or_draft states n) then Inr ready
     else if satisfied_with preds states n then
       (let ready' = os_insert n ready in
        if om_len ready' > MAX_READY_SET then Inl ReadySetTooLarge else Inr ready')
     else Inr ready)"

definition ready_set :: "graph_spec \<Rightarrow> node_states \<Rightarrow> schedule_error + string oset" where
  "ready_set spec states =
    foldE (ready_step (predecessor_map spec) states) (om_keys (gs_nodes spec)) om_empty"

definition dispatch_candidates :: "graph_spec \<Rightarrow> node_states \<Rightarrow> schedule_error + string oset" where
  "dispatch_candidates spec states =
    bindE (ready_set spec states) (\<lambda>candidates.
      let preds = predecessor_map spec in
      Inr (fold (\<lambda>(n, s) c. if s = S_Queued \<and> satisfied_with preds states n then os_insert n c else c)
             (om_entries states) candidates))"


section \<open>The bounded plan\<close>

datatype dispatch_error = ZeroParallelism

definition attempts_of :: "(string, u32) omap \<Rightarrow> string \<Rightarrow> u32" where
  "attempts_of attempts n = (case om_get attempts n of None \<Rightarrow> 0 | Some a \<Rightarrow> a)"

definition dispatch_plan ::
  "string oset \<Rightarrow> (string, u32) omap \<Rightarrow> nat \<Rightarrow> nat \<Rightarrow> dispatch_error + string list" where
  "dispatch_plan ready attempts in_flight max_parallel =
    (if max_parallel = 0 then Inl ZeroParallelism
     else
       let capacity = max_parallel - in_flight;
           ordered = sort_key (\<lambda>n. (attempts_of attempts n, n)) (om_keys ready)
       in Inr (take capacity ordered))"

definition parallel_limit :: "graph_budgets \<Rightarrow> nat" where
  "parallel_limit b = (case gb_max_parallel_model_calls b of None \<Rightarrow> 1 | Some v \<Rightarrow> unat v)"


section \<open>The dispatch view\<close>

datatype dispatch_unavailable = NoGraph | PausedExecution | TooLarge

fun dispatch_unavailable_reason :: "dispatch_unavailable \<Rightarrow> string" where
  "dispatch_unavailable_reason NoGraph =
    ''this command did not have the graph; `execution status --file <graph>` derives it''"
| "dispatch_unavailable_reason PausedExecution =
    ''the execution is paused; the driver dispatches nothing until resume''"
| "dispatch_unavailable_reason TooLarge =
    ''the ready set exceeds the dispatch bound; the driver blocks for an owner decision before any of it moves''"

record dispatch_view =
  dv_ready :: nat
  dv_gated :: "string list"
  dv_waiting_capacity :: "string list"

definition in_flight_count :: "node_states \<Rightarrow> nat" where
  "in_flight_count states = length (filter (\<lambda>s. s = S_Running) (om_values states))"

definition derive_dispatch_view ::
  "graph_spec option \<Rightarrow> node_states \<Rightarrow> (string, u32) omap \<Rightarrow> simulation_status option
   \<Rightarrow> dispatch_unavailable + dispatch_view" where
  "derive_dispatch_view spec_opt states attempts status =
    (if status = Some SimPaused then Inl PausedExecution
     else case spec_opt of None \<Rightarrow> Inl NoGraph
     | Some spec \<Rightarrow>
       (case ready_set spec states of Inl ReadySetTooLarge \<Rightarrow> Inl TooLarge
        | Inr dispatchable \<Rightarrow>
          (case dispatch_candidates spec states of Inl ReadySetTooLarge \<Rightarrow> Inl TooLarge
           | Inr candidates \<Rightarrow>
             (let gated = map fst (filter (\<lambda>(n, s). s = S_Ready \<and> om_contains (gs_nodes spec) n
                                             \<and> \<not> os_member dispatchable n) (om_entries states));
                  in_flight = in_flight_count states;
                  max_parallel = parallel_limit (gs_budgets spec);
                  planned = (case dispatch_plan candidates attempts in_flight max_parallel of
                               Inl ZeroParallelism \<Rightarrow> [] | Inr p \<Rightarrow> p)
              in Inr \<lparr>dv_ready = length (filter (os_member dispatchable) planned),
                      dv_gated = gated,
                      dv_waiting_capacity =
                        filter (\<lambda>n. n \<notin> set planned) (om_keys dispatchable)\<rparr>))))"


section \<open>What the index and the edge rule mean\<close>

lemma get_predecessor_fold:
  "om_get (fold (\<lambda>e m. om_insert (ge_to e) ((case om_get m (ge_to e) of None \<Rightarrow> [] | Some es \<Rightarrow> es) @ [e]) m) es m) n =
    (case filter (\<lambda>e. ge_to e = n) es of [] \<Rightarrow> om_get m n
     | fs \<Rightarrow> Some ((case om_get m n of None \<Rightarrow> [] | Some gs \<Rightarrow> gs) @ fs))"
  by (induction es arbitrary: m) (auto split: list.splits option.splits)

lemma get_predecessor_map:
  "om_get (predecessor_map spec) n =
    (case filter (\<lambda>e. ge_to e = n) (gs_edges spec) of [] \<Rightarrow> None | fs \<Rightarrow> Some fs)"
  unfolding predecessor_map_def get_predecessor_fold by (simp split: list.split)

lemma satisfied_with_edges:
  "satisfied_with (predecessor_map spec) states n \<longleftrightarrow>
    list_all (\<lambda>e. ge_to e = n \<longrightarrow> \<not> edge_gates e (state_or_draft states (ge_from e))) (gs_edges spec)"
proof -
  have "list_all P (filter Q xs) \<longleftrightarrow> list_all (\<lambda>x. Q x \<longrightarrow> P x) xs" for P Q and xs :: "graph_edge list"
    by (auto simp: list_all_iff)
  note this [of _ "\<lambda>e. ge_to e = n" "gs_edges spec", symmetric]
  then show ?thesis
    by (simp add: satisfied_with_def get_predecessor_map split: list.splits)
qed

definition node_ready :: "graph_spec \<Rightarrow> node_states \<Rightarrow> string \<Rightarrow> bool" where
  "node_ready spec states n \<longleftrightarrow> om_get states n = Some S_Ready \<and> edges_satisfied spec states n"

lemma state_or_draft_dispatchable: "is_dispatchable (state_or_draft states n) \<longleftrightarrow> om_get states n = Some S_Ready"
  by (auto simp: is_dispatchable_def state_or_draft_def split: option.splits)

lemma ready_step_eq:
  "ready_step (predecessor_map spec) states n ready =
    (if node_ready spec states n then
       (if om_len (os_insert n ready) > MAX_READY_SET then Inl ReadySetTooLarge else Inr (os_insert n ready))
     else Inr ready)"
  by (simp add: ready_step_def node_ready_def state_or_draft_dispatchable edges_satisfied_def Let_def)

lemma om_len_os_insert: "om_len (os_insert n s) = (if os_member s n then om_len s else Suc (om_len s))"
  by (simp add: os_insert_def om_len_insert os_member_def)

lemma ready_fold:
  assumes "distinct ns" "\<And>n. n \<in> set ns \<Longrightarrow> \<not> os_member acc n" "om_len acc \<le> MAX_READY_SET"
  shows "foldE (ready_step (predecessor_map spec) states) ns acc =
    (if om_len acc + length (filter (node_ready spec states) ns) > MAX_READY_SET then Inl ReadySetTooLarge
     else Inr (fold os_insert (filter (node_ready spec states) ns) acc))"
  using assms
proof (induction ns arbitrary: acc)
  case (Cons n ns)
  show ?case
  proof (cases "node_ready spec states n \<and> om_len acc < MAX_READY_SET")
    case True
    have "foldE (ready_step (predecessor_map spec) states) ns (os_insert n acc) =
      (if om_len (os_insert n acc) + length (filter (node_ready spec states) ns) > MAX_READY_SET
       then Inl ReadySetTooLarge else Inr (fold os_insert (filter (node_ready spec states) ns) (os_insert n acc)))"
      by (rule Cons.IH) (use Cons.prems True in \<open>auto simp: om_len_os_insert\<close>)
    then show ?thesis using True Cons.prems by (simp add: ready_step_eq [of spec states n acc] om_len_os_insert)
  next
    case False
    then show ?thesis using Cons by (auto simp: ready_step_eq [of spec states n acc] om_len_os_insert)
  qed
qed simp

definition ready_nodes :: "graph_spec \<Rightarrow> node_states \<Rightarrow> string list" where
  "ready_nodes spec states = filter (node_ready spec states) (om_keys (gs_nodes spec))"

lemma ready_set_eq:
  "ready_set spec states =
    (if length (ready_nodes spec states) > MAX_READY_SET then Inl ReadySetTooLarge
     else Inr (os_of_list (ready_nodes spec states)))"
  using ready_fold [of "om_keys (gs_nodes spec)" om_empty spec states]
  by (simp add: ready_set_def ready_nodes_def os_of_list_def)

lemma ready_set_member:
  "ready_set spec states = Inr r \<Longrightarrow>
    os_member r n \<longleftrightarrow> om_contains (gs_nodes spec) n \<and> node_ready spec states n"
  by (auto simp: ready_set_eq ready_nodes_def split: if_splits)

lemma os_member_candidates_fold:
  "os_member (fold (\<lambda>(n, s) c. if P n s then os_insert n c else c) es acc) x \<longleftrightarrow>
    os_member acc x \<or> (\<exists>s. (x, s) \<in> set es \<and> P x s)"
  by (induction es arbitrary: acc) (auto split: if_splits)

lemma dispatch_candidates_member:
  assumes "dispatch_candidates spec states = Inr c"
  shows "os_member c n \<longleftrightarrow>
    edges_satisfied spec states n \<and>
    (om_contains (gs_nodes spec) n \<and> om_get states n = Some S_Ready \<or> om_get states n = Some S_Queued)"
proof -
  obtain r where r: "ready_set spec states = Inr r"
    and c: "c = fold (\<lambda>(n, s) c. if s = S_Queued \<and> satisfied_with (predecessor_map spec) states n
                                then os_insert n c else c) (om_entries states) r"
    using assms by (auto simp: dispatch_candidates_def Let_def)
  have "os_member c n \<longleftrightarrow> os_member r n \<or>
    (\<exists>s. (n, s) \<in> set (om_entries states) \<and> s = S_Queued \<and> satisfied_with (predecessor_map spec) states n)"
    unfolding c by (rule os_member_candidates_fold)
  then show ?thesis
    using ready_set_member [OF r, of n]
    by (auto simp: om_in_entries node_ready_def edges_satisfied_def)
qed

lemma dispatch_candidates_ok: "(\<exists>c. dispatch_candidates spec states = Inr c) \<longleftrightarrow> (\<exists>r. ready_set spec states = Inr r)"
  by (auto simp: dispatch_candidates_def Let_def)


section \<open>What the plan means\<close>

abbreviation dispatch_key :: "(string, u32) omap \<Rightarrow> string \<Rightarrow> u32 \<times> string" where
  "dispatch_key attempts n \<equiv> (attempts_of attempts n, n)"

definition dispatch_order :: "string oset \<Rightarrow> (string, u32) omap \<Rightarrow> string list" where
  "dispatch_order ready attempts = sort_key (dispatch_key attempts) (om_keys ready)"

lemma dispatch_plan_eq:
  "dispatch_plan ready attempts in_flight max_parallel =
    (if max_parallel = 0 then Inl ZeroParallelism
     else Inr (take (max_parallel - in_flight) (dispatch_order ready attempts)))"
  by (simp add: dispatch_plan_def dispatch_order_def)

lemma set_dispatch_order [simp]: "set (dispatch_order ready attempts) = {n. os_member ready n}"
  by (simp add: dispatch_order_def os_member_def)

lemma distinct_dispatch_order [simp]: "distinct (dispatch_order ready attempts)"
  by (simp add: dispatch_order_def)

lemma length_dispatch_order [simp]: "length (dispatch_order ready attempts) = om_len ready"
  by (simp add: dispatch_order_def length_om_keys)

lemma sorted_dispatch_order:
  "sorted_wrt (<) (map (dispatch_key attempts) (dispatch_order ready attempts))"
  by (simp add: dispatch_order_def strict_sorted_iff distinct_map inj_on_def)

lemma sorted_wrt_take_drop:
  "sorted_wrt P xs \<Longrightarrow> x \<in> set (take n xs) \<Longrightarrow> y \<in> set (drop n xs) \<Longrightarrow> P x y"
  by (metis append_take_drop_id sorted_wrt_append)

lemma set_take_or_drop: "x \<in> set xs \<Longrightarrow> x \<notin> set (take n xs) \<Longrightarrow> x \<in> set (drop n xs)"
  by (metis Un_iff append_take_drop_id set_append)

lemma plan_prefers:
  assumes "dispatch_plan ready attempts in_flight max_parallel = Inr plan"
    and "m \<in> set plan" and "os_member ready n" and "n \<notin> set plan"
  shows "dispatch_key attempts m < dispatch_key attempts n"
proof -
  let ?k = "max_parallel - in_flight" and ?o = "dispatch_order ready attempts"
  have plan: "plan = take ?k ?o" using assms(1) by (auto simp: dispatch_plan_eq split: if_splits)
  have "dispatch_key attempts n \<in> set (drop ?k (map (dispatch_key attempts) ?o))"
    using assms(3,4) plan set_take_or_drop [of n ?o ?k] by (simp add: drop_map)
  moreover have "dispatch_key attempts m \<in> set (take ?k (map (dispatch_key attempts) ?o))"
    using assms(2) plan by (simp add: take_map)
  ultimately show ?thesis by (intro sorted_wrt_take_drop [OF sorted_dispatch_order])
qed


section \<open>What the view means\<close>

lemma planned_list:
  fixes c attempts in_flight limit
  defines "planned \<equiv> (case dispatch_plan c attempts in_flight limit of Inl ZeroParallelism \<Rightarrow> [] | Inr p \<Rightarrow> p)"
  shows "distinct planned" "set planned \<subseteq> {n. os_member c n}" "length planned \<le> limit - in_flight"
  using set_take_subset [of "limit - in_flight" "dispatch_order c attempts"]
  by (auto simp: planned_def dispatch_plan_eq)

lemma derive_dispatch_view_Inr:
  assumes "derive_dispatch_view (Some spec) states attempts status = Inr v"
  shows "\<exists>d planned. ready_set spec states = Inr d \<and> distinct planned \<and>
    length planned \<le> parallel_limit (gs_budgets spec) - in_flight_count states \<and>
    dv_ready v = length (filter (os_member d) planned) \<and>
    dv_gated v = map fst (filter (\<lambda>(n, s). s = S_Ready \<and> om_contains (gs_nodes spec) n \<and> \<not> os_member d n)
       (om_entries states)) \<and>
    dv_waiting_capacity v = filter (\<lambda>n. n \<notin> set planned) (om_keys d)"
proof -
  obtain d c where d: "ready_set spec states = Inr d" "dispatch_candidates spec states = Inr c"
    using assms by (auto simp: derive_dispatch_view_def split: if_splits sum.splits schedule_error.splits)
  let ?planned = "case dispatch_plan c attempts (in_flight_count states) (parallel_limit (gs_budgets spec)) of
       Inl ZeroParallelism \<Rightarrow> [] | Inr p \<Rightarrow> p"
  show ?thesis
    by (rule exI [of _ d], rule exI [of _ ?planned])
       (use assms d planned_list in \<open>simp add: derive_dispatch_view_def Let_def split: if_splits; auto\<close>)
qed

lemma length_filter_inter:
  assumes "distinct xs" "distinct ys"
  shows "length (filter (\<lambda>x. x \<in> set ys) xs) = length (filter (\<lambda>y. y \<in> set xs) ys)"
  using assms by (simp add: distinct_length_filter Int_commute)

lemma length_filter_split: "length (filter P xs) + length (filter (\<lambda>x. \<not> P x) xs) = length xs"
  by (induction xs) auto

lemma dv_ready_waiting:
  assumes "derive_dispatch_view (Some spec) states attempts status = Inr v" "ready_set spec states = Inr d"
  shows "dv_ready v + length (dv_waiting_capacity v) = om_len d"
proof -
  obtain planned where pl: "distinct planned" "dv_ready v = length (filter (os_member d) planned)"
    "dv_waiting_capacity v = filter (\<lambda>n. n \<notin> set planned) (om_keys d)"
    using derive_dispatch_view_Inr [OF assms(1)] assms(2) by auto
  have "os_member d = (\<lambda>n. n \<in> set (om_keys d))" by (simp add: fun_eq_iff os_member_def)
  then have "length (filter (os_member d) planned) = length (filter (\<lambda>n. n \<in> set planned) (om_keys d))"
    using length_filter_inter [of planned "om_keys d"] pl(1) by simp
  then show ?thesis
    using pl length_filter_split [of "\<lambda>n. n \<in> set planned" "om_keys d"] by (simp add: length_om_keys)
qed

lemma set_dv_gated:
  assumes "derive_dispatch_view (Some spec) states attempts status = Inr v"
  shows "n \<in> set (dv_gated v) \<longleftrightarrow>
    om_contains (gs_nodes spec) n \<and> om_get states n = Some S_Ready \<and> \<not> edges_satisfied spec states n"
proof -
  obtain d where d: "ready_set spec states = Inr d"
    and g: "dv_gated v = map fst (filter (\<lambda>(n, s). s = S_Ready \<and> om_contains (gs_nodes spec) n
       \<and> \<not> os_member d n) (om_entries states))"
    using derive_dispatch_view_Inr [OF assms] by auto
  have "n \<in> set (dv_gated v) \<longleftrightarrow> (n, S_Ready) \<in> set (om_entries states) \<and>
      om_contains (gs_nodes spec) n \<and> \<not> os_member d n"
    unfolding g by (auto simp: image_iff)
  then show ?thesis
    unfolding om_in_entries using ready_set_member [OF d, of n] by (auto simp: node_ready_def)
qed


section \<open>Properties\<close>

text \<open>C32: the ready set is exact. It holds the nodes of the active graph that are \<open>Ready\<close> and whose
  incoming edges release them, all of them and nothing else; when there are more than
  \<open>MAX_READY_SET\<close> the call refuses, and it never returns a truncated set.\<close>

theorem ready_set_exact:
  "\<exists>r. {n. os_member r n} = {n. om_contains (gs_nodes spec) n \<and> om_get states n = Some S_Ready
                               \<and> edges_satisfied spec states n} \<and>
     ready_set spec states =
       (if card {n. om_contains (gs_nodes spec) n \<and> om_get states n = Some S_Ready
                   \<and> edges_satisfied spec states n} > 1024
        then Inl ReadySetTooLarge else Inr r)"
proof -
  let ?N = "{n. om_contains (gs_nodes spec) n \<and> om_get states n = Some S_Ready \<and> edges_satisfied spec states n}"
  have set: "set (ready_nodes spec states) = ?N"
    by (auto simp: ready_nodes_def node_ready_def)
  moreover have "distinct (ready_nodes spec states)" by (simp add: ready_nodes_def)
  ultimately have "length (ready_nodes spec states) = card ?N" by (metis distinct_card)
  then show ?thesis
    using set by (intro exI [of _ "os_of_list (ready_nodes spec states)"])
                 (simp add: ready_set_eq MAX_READY_SET_def)
qed

text \<open>The edge rule. A node is released exactly when no incoming edge holds it: an edge whose
  condition is the literal \<open>false\<close> never holds; a failure edge holds until its source has \<open>Failed\<close>;
  every other edge holds until its source \<open>Succeeded\<close>, was \<open>Waived\<close> or was \<open>Skipped\<close>. A source
  without a recorded state holds.\<close>

theorem edges_satisfied_iff:
  "edges_satisfied spec states n \<longleftrightarrow>
    \<not> (\<exists>e. e \<in> set (gs_edges spec) \<and> ge_to e = n \<and> ge_condition e \<noteq> Some (JBool False) \<and>
        (if ge_edge_type e = Failure then om_get states (ge_from e) \<noteq> Some S_Failed
         else om_get states (ge_from e) \<notin> {Some S_Succeeded, Some S_Waived, Some S_Skipped}))"
proof -
  have sd: "satisfies_dependents s \<longleftrightarrow> s \<in> {S_Succeeded, S_Waived, S_Skipped}" for s
    by (cases s) simp_all
  have "edge_gates e (state_or_draft states (ge_from e)) \<longleftrightarrow> ge_condition e \<noteq> Some (JBool False) \<and>
      (if ge_edge_type e = Failure then om_get states (ge_from e) \<noteq> Some S_Failed
       else om_get states (ge_from e) \<notin> {Some S_Succeeded, Some S_Waived, Some S_Skipped})" for e
    by (cases "ge_edge_type e"; cases "om_get states (ge_from e)")
       (auto simp: edge_gates_def state_or_draft_def sd)
  then show ?thesis
    unfolding edges_satisfied_def satisfied_with_edges list_all_iff by blast
qed

text \<open>The scheduler and the state machine cannot disagree. The dispatch candidates are exactly the
  edge-released nodes that are \<open>Ready\<close> in the active graph or \<open>Queued\<close> for a retry, and for every
  candidate the state machine accepts \<open>Started\<close>, whatever its counters.\<close>

theorem dispatch_candidates_start:
  assumes "dispatch_candidates spec states = Inr c"
  shows "(os_member c n \<longleftrightarrow>
      edges_satisfied spec states n \<and>
      (om_contains (gs_nodes spec) n \<and> om_get states n = Some S_Ready \<or> om_get states n = Some S_Queued)) \<and>
    (os_member c n \<longrightarrow>
      (\<exists>t. transit (state_or_draft states n) O_Started att same = Inr t \<and> t \<in> {S_Queued, S_Running}))"
  using dispatch_candidates_member [OF assms, of n]
  by (auto simp: started_transit state_or_draft_def)

text \<open>C35: the plan is bounded, fair and never a silent stall. A zero limit is an error; otherwise the
  plan has as many ready nodes as the free capacity allows, without repetition, strictly increasing
  by prior attempts and then by name, and every ready node left out comes after every node taken: a
  retrying node never takes the slot of a node with fewer attempts.\<close>

theorem dispatch_plan_fair:
  "(dispatch_plan ready attempts in_flight max_parallel = Inl ZeroParallelism \<longleftrightarrow> max_parallel = 0) \<and>
   (dispatch_plan ready attempts in_flight max_parallel = Inr plan \<longrightarrow>
      length plan = min (max_parallel - in_flight) (om_len ready) \<and>
      set plan \<subseteq> {n. os_member ready n} \<and> distinct plan \<and>
      sorted_wrt (<) (map (\<lambda>n. (attempts_of attempts n, n)) plan) \<and>
      (\<forall>m n. m \<in> set plan \<longrightarrow> os_member ready n \<longrightarrow> n \<notin> set plan \<longrightarrow>
        (attempts_of attempts m, m) < (attempts_of attempts n, n)))"
proof (intro conjI impI allI)
  assume plan: "dispatch_plan ready attempts in_flight max_parallel = Inr plan"
  then have t: "plan = take (max_parallel - in_flight) (dispatch_order ready attempts)"
    by (auto simp: dispatch_plan_eq split: if_splits)
  show "length plan = min (max_parallel - in_flight) (om_len ready)" by (simp add: t min.commute)
  show "set plan \<subseteq> {n. os_member ready n}"
    unfolding t by (metis set_dispatch_order set_take_subset)
  show "distinct plan" by (simp add: t)
  show "sorted_wrt (<) (map (\<lambda>n. (attempts_of attempts n, n)) plan)"
    unfolding t using sorted_wrt_take [OF sorted_dispatch_order] by (simp add: take_map)
  fix m n assume "m \<in> set plan" "os_member ready n" "n \<notin> set plan"
  with plan show "(attempts_of attempts m, m) < (attempts_of attempts n, n)"
    by (rule plan_prefers)
qed (simp add: dispatch_plan_eq)

theorem dispatch_plan_fair_witness:
  "dispatch_plan (os_of_list [''aaa'', ''zzz'']) (om_insert ''aaa'' 3 om_empty) 0 1 = Inr [''zzz''] \<and>
   length [''zzz''] = min 1 (om_len (os_of_list [''aaa'', ''zzz'']))"
proof -
  have p: "dispatch_plan (os_of_list [''aaa'', ''zzz'']) (om_insert ''aaa'' 3 om_empty) 0 1 = Inr [''zzz'']"
    by code_simp
  with dispatch_plan_fair [of "os_of_list [''aaa'', ''zzz'']" "om_insert ''aaa'' 3 om_empty" 0 1 "[''zzz'']"]
  show ?thesis by simp
qed

text \<open>The dispatch view does not over-promise. When a view is derived, its three fields account
  for every \<open>Ready\<close> node of the active graph exactly once (the gated ones are those whose edges hold
  them), and the nodes counted as dispatching now fit beside the running ones in the parallel
  limit.\<close>

theorem dispatch_view_accounts:
  assumes "derive_dispatch_view (Some spec) states attempts status = Inr v"
  shows "status \<noteq> Some SimPaused \<and>
    set (dv_gated v) = {n. om_contains (gs_nodes spec) n \<and> om_get states n = Some S_Ready
                           \<and> \<not> edges_satisfied spec states n} \<and>
    dv_ready v + length (dv_waiting_capacity v) =
      card {n. om_contains (gs_nodes spec) n \<and> om_get states n = Some S_Ready
               \<and> edges_satisfied spec states n} \<and>
    dv_ready v \<le> parallel_limit (gs_budgets spec) - in_flight_count states"
proof (intro conjI)
  show "status \<noteq> Some SimPaused" using assms by (auto simp: derive_dispatch_view_def)
  show "set (dv_gated v) = {n. om_contains (gs_nodes spec) n \<and> om_get states n = Some S_Ready
                                 \<and> \<not> edges_satisfied spec states n}"
    using set_dv_gated [OF assms] by blast
  obtain d planned where d: "ready_set spec states = Inr d"
    and p: "length planned \<le> parallel_limit (gs_budgets spec) - in_flight_count states"
      "dv_ready v = length (filter (os_member d) planned)"
    using derive_dispatch_view_Inr [OF assms] by auto
  have "om_len d = card {n. os_member d n}"
    by (metis distinct_card distinct_om_keys length_om_keys set_os_list)
  also have "{n. os_member d n} = {n. om_contains (gs_nodes spec) n \<and> om_get states n = Some S_Ready
                    \<and> edges_satisfied spec states n}"
    using ready_set_member [OF d] by (auto simp: node_ready_def)
  finally show "dv_ready v + length (dv_waiting_capacity v) =
           card {n. om_contains (gs_nodes spec) n \<and> om_get states n = Some S_Ready
                    \<and> edges_satisfied spec states n}"
    using dv_ready_waiting [OF assms d] by simp
  show "dv_ready v \<le> parallel_limit (gs_budgets spec) - in_flight_count states"
    unfolding p(2) using length_filter_le p(1) by (rule le_trans)
qed

definition sample_node :: graph_node where
  "sample_node = \<lparr>gn_node_type = Agent, gn_name = ''n'', gn_objective = ''o'', gn_optionality = Required,
     gn_properties = om_empty\<rparr>"

definition sample_edge :: "string \<Rightarrow> string \<Rightarrow> edge_type \<Rightarrow> graph_edge" where
  "sample_edge a b k = \<lparr>ge_id = a @ b, ge_from = a, ge_to = b, ge_edge_type = k, ge_payload_schema = None,
     ge_condition = None, ge_on_false = None, ge_on_unknown = None, ge_bindings = om_empty,
     ge_priority = None\<rparr>"

definition sample_spec :: graph_spec where
  "sample_spec = \<lparr>gs_entrypoints = [''a''],
     gs_nodes = om_insert ''a'' sample_node (om_insert ''b'' sample_node (om_insert ''c'' sample_node om_empty)),
     gs_edges = [sample_edge ''a'' ''b'' Control, sample_edge ''a'' ''c'' Failure],
     gs_budgets = default_budgets, gs_policies = [], gs_completion = JNull\<rparr>"

definition sample_states :: node_states where
  "sample_states = om_insert ''a'' S_Succeeded (om_insert ''b'' S_Queued (om_insert ''c'' S_Ready om_empty))"

theorem dispatch_candidates_start_witness:
  "transit S_Queued O_Started 0 0 = Inr S_Running \<and>
   dispatch_candidates sample_spec sample_states = Inr (os_of_list [''b''])"
proof -
  have d: "dispatch_candidates sample_spec sample_states = Inr (os_of_list [''b''])"
    by code_simp
  have "state_or_draft sample_states ''b'' = S_Queued" by code_simp
  with dispatch_candidates_start [OF d, of "''b''" 0 0] d show ?thesis
    by (auto simp: started_transit)
qed

theorem dispatch_view_accounts_witness:
  "derive_dispatch_view (Some sample_spec) sample_states om_empty None =
     Inr \<lparr>dv_ready = 0, dv_gated = [''c''], dv_waiting_capacity = []\<rparr> \<and>
   \<not> edges_satisfied sample_spec sample_states ''c''"
proof -
  have d: "derive_dispatch_view (Some sample_spec) sample_states om_empty None =
     Inr \<lparr>dv_ready = 0, dv_gated = [''c''], dv_waiting_capacity = []\<rparr>"
    by code_simp
  with dispatch_view_accounts [OF d] show ?thesis by auto
qed

end
