(* ===== verification/Persisted_Graph.thy ===== *)
theory Persisted_Graph
  imports Graph_Model "HOL-Library.Product_Lexorder"
begin

text \<open>
  The safe persisted form of a graph version (\<open>core/protocols/src/projection.rs\<close>): its records and
  the checks of their constructors, and the parts of \<open>core/graph/src/persistence.rs\<close> the event fold
  calls on a publication: the slot profile, the publication-scoped Evidence identity and the
  ordered one-to-one match of content slots and Evidence references.

  SHA-256 in hexadecimal is the parameter \<open>sha_hex\<close>. A byte buffer is a \<open>string\<close>. A 64-bit float is
  its bit pattern: the range test on \<open>max_api_cost_usd\<close> is the IEEE order on non-negative doubles,
  which is the order of their bit patterns, with negative zero equal to zero.
\<close>

section \<open>Byte encodings\<close>

definition be_bytes :: "nat \<Rightarrow> nat \<Rightarrow> string" where
  "be_bytes k n = map (\<lambda>i. char_of (n div 256 ^ i)) (rev [0..<k])"

definition be32 :: "u32 \<Rightarrow> string" where "be32 w = be_bytes 4 (unat w)"

definition be64 :: "u64 \<Rightarrow> string" where "be64 w = be_bytes 8 (unat w)"


section \<open>Persisted records and their constructors\<close>

definition MAX_MAP_ITEMS :: nat where "MAX_MAP_ITEMS = 128"

definition all_unique :: "'a::linorder list \<Rightarrow> bool" where
  "all_unique xs = (om_len (os_of_list xs) = length xs)"

record persisted_graph_version_ref =
  pgr_number :: u64
  pgr_semantic_hash :: string

definition persisted_graph_version_ref_new ::
  "u64 \<Rightarrow> string \<Rightarrow> persistence_error + persisted_graph_version_ref" where
  "persisted_graph_version_ref_new n h =
    (if \<not> valid_positive_safe_integer n then Inl (PersistenceError ''predecessor number'')
     else Inr \<lparr>pgr_number = n, pgr_semantic_hash = h\<rparr>)"

record persisted_control =
  pc_control_type :: string
  pc_identifiers :: "(string, string) omap"
  pc_digests :: "(string, string) omap"
  pc_integers :: "(string, 64 word) omap"
  pc_flags :: "(string, bool) omap"

definition persisted_control_new ::
  "string \<Rightarrow> (string, string) omap \<Rightarrow> (string, string) omap \<Rightarrow> (string, 64 word) omap
   \<Rightarrow> (string, bool) omap \<Rightarrow> persistence_error + persisted_control" where
  "persisted_control_new ty ids digs ints flags =
    (if list_ex (\<lambda>n. n > MAX_MAP_ITEMS) [om_len ids, om_len digs, om_len ints, om_len flags]
        \<or> list_ex (\<lambda>v. \<not> valid_safe_integer v) (om_values ints)
     then Inl (PersistenceError ''control'')
     else Inr \<lparr>pc_control_type = ty, pc_identifiers = ids, pc_digests = digs, pc_integers = ints,
               pc_flags = flags\<rparr>)"

text \<open>\<open>PersistedBudgets\<close> has the fields of \<open>GraphBudgets\<close>.\<close>

type_synonym persisted_budgets = graph_budgets

fun bounded_nonzero :: "u64 option \<Rightarrow> u64 \<Rightarrow> bool" where
  "bounded_nonzero None m = True"
| "bounded_nonzero (Some v) m = (1 \<le> v \<and> v \<le> m)"

fun exceeds :: "u64 option \<Rightarrow> u64 \<Rightarrow> bool" where
  "exceeds None m = False"
| "exceeds (Some v) m = (v > m)"

definition cost_in_range :: "64 word \<Rightarrow> bool" where
  "cost_in_range bits = (bits \<le> 0x41CDCD6500000000 \<or> bits = 0x8000000000000000)"

definition persisted_budgets_new :: "graph_budgets \<Rightarrow> persistence_error + persisted_budgets" where
  "persisted_budgets_new b =
    (if \<not> bounded_nonzero (gb_max_nodes b) 100000
        \<or> \<not> bounded_nonzero (gb_max_depth b) 100000
        \<or> exceeds (gb_max_mutations b) 100000
        \<or> exceeds (gb_max_retries_per_node b) 100000
        \<or> \<not> bounded_nonzero (gb_max_wall_clock_seconds b) 315576000
        \<or> (case gb_max_api_cost_usd b of None \<Rightarrow> False | Some v \<Rightarrow> \<not> cost_in_range v)
        \<or> \<not> bounded_nonzero (gb_max_parallel_model_calls b) 100000
     then Inl (PersistenceError ''budgets'') else Inr b)"

record persisted_customs =
  pcu_wait_within_seconds :: u64
  pcu_clearance_within_seconds :: u64
  pcu_dlq_within_seconds :: "u64 option"

record persisted_node =
  pn_node_type :: node_type
  pn_optionality :: optionality
  pn_controls :: "persisted_control list"
  pn_content_slot_ids :: "string list"
  pn_timeout_seconds :: "u64 option"
  pn_customs :: "persisted_customs option"

definition persisted_node_new :: "persisted_node \<Rightarrow> persistence_error + persisted_node" where
  "persisted_node_new n =
    (if length (pn_controls n) > 64 \<or> length (pn_content_slot_ids n) > 64
        \<or> \<not> all_unique (pn_content_slot_ids n)
     then Inl (PersistenceError ''node'') else Inr n)"

record persisted_edge =
  pe_id :: string
  pe_from :: string
  pe_to :: string
  pe_edge_type :: edge_type
  pe_priority :: "64 word option"
  pe_bindings :: "(string, string) omap"
  pe_condition :: "persisted_control option"

definition persisted_edge_new :: "persisted_edge \<Rightarrow> persistence_error + persisted_edge" where
  "persisted_edge_new e =
    (if (case pe_priority e of None \<Rightarrow> False | Some v \<Rightarrow> \<not> valid_safe_integer v)
        \<or> om_len (pe_bindings e) > MAX_MAP_ITEMS
     then Inl (PersistenceError ''edge'') else Inr e)"

record persisted_topology =
  pt_graph_id :: string
  pt_execution_id :: string
  pt_labels :: "(string, string) omap"
  pt_entrypoints :: "string list"
  pt_nodes :: "(string, persisted_node) omap"
  pt_edges :: "persisted_edge list"
  pt_budgets :: persisted_budgets
  pt_policies :: "persisted_control list"
  pt_completion :: persisted_control

definition persisted_topology_new :: "persisted_topology \<Rightarrow> persistence_error + persisted_topology" where
  "persisted_topology_new t =
    (if om_len (pt_labels t) > MAX_MAP_ITEMS
        \<or> pt_entrypoints t = [] \<or> length (pt_entrypoints t) > 1024 \<or> \<not> all_unique (pt_entrypoints t)
        \<or> om_len (pt_nodes t) = 0 \<or> om_len (pt_nodes t) > 1024
        \<or> length (pt_edges t) > 4096 \<or> length (pt_policies t) > 64
     then Inl (PersistenceError ''topology'') else Inr t)"

datatype content_owner_kind =
  OwnerGraph | OwnerNode | OwnerAgent | OwnerEdge | OwnerPolicy | OwnerDiagnostic

datatype content_field_kind =
    DisplayName | Description | Objective | Purpose | Instructions | CompletionContract
  | PolicyText | DiagnosticDetail | ContextPath | PermissionPath | IsolationPath

text \<open>The positions of the variants in their declarations, which order them (\<open>derive(Ord)\<close>).\<close>

fun owner_index :: "content_owner_kind \<Rightarrow> nat" where
  "owner_index OwnerGraph = 0" | "owner_index OwnerNode = 1" | "owner_index OwnerAgent = 2"
| "owner_index OwnerEdge = 3" | "owner_index OwnerPolicy = 4" | "owner_index OwnerDiagnostic = 5"

fun field_index :: "content_field_kind \<Rightarrow> nat" where
  "field_index DisplayName = 0" | "field_index Description = 1" | "field_index Objective = 2"
| "field_index Purpose = 3" | "field_index Instructions = 4" | "field_index CompletionContract = 5"
| "field_index PolicyText = 6" | "field_index DiagnosticDetail = 7" | "field_index ContextPath = 8"
| "field_index PermissionPath = 9" | "field_index IsolationPath = 10"

record content_slot =
  cs_slot_id :: string
  cs_owner_kind :: content_owner_kind
  cs_owner_id :: string
  cs_field_kind :: content_field_kind
  cs_ordinal :: u32
  cs_evidence_id :: string
  cs_content_sha256 :: string
  cs_sensitivity :: sensitivity
  cs_required_for_execution :: bool

definition slot_position :: "content_slot \<Rightarrow> nat \<times> string \<times> nat \<times> u32" where
  "slot_position s = (owner_index (cs_owner_kind s), cs_owner_id s, field_index (cs_field_kind s), cs_ordinal s)"

fun windows_increasing :: "('a \<Rightarrow> 'b::linorder) \<Rightarrow> 'a list \<Rightarrow> bool" where
  "windows_increasing f (x # y # ys) = (\<not> f x \<ge> f y \<and> windows_increasing f (y # ys))"
| "windows_increasing f _ = True"

record persisted_graph_version =
  pgv_number :: u64
  pgv_predecessor :: "persisted_graph_version_ref option"
  pgv_topology :: persisted_topology
  pgv_topology_hash :: string
  pgv_semantic_hash :: string
  pgv_content_slots :: "content_slot list"
  pgv_created_by :: persisted_actor
  pgv_created_at :: timestamp

definition persisted_graph_version_new ::
  "persisted_graph_version \<Rightarrow> persistence_error + persisted_graph_version" where
  "persisted_graph_version_new v =
    (if \<not> valid_positive_safe_integer (pgv_number v)
        \<or> (case pgv_predecessor v of None \<Rightarrow> False
           | Some r \<Rightarrow> checked_add (pgr_number r) 1 \<noteq> Some (pgv_number v))
        \<or> length (pgv_content_slots v) > 8192
        \<or> \<not> windows_increasing slot_position (pgv_content_slots v)
        \<or> om_len (os_of_list (map cs_slot_id (pgv_content_slots v))) \<noteq> length (pgv_content_slots v)
        \<or> om_len (os_of_list (map cs_evidence_id (pgv_content_slots v))) \<noteq> length (pgv_content_slots v)
     then Inl (PersistenceError ''graph version'') else Inr v)"


section \<open>Content slots and Evidence\<close>

datatype graph_error = InvalidProjection

fun content_owner_kind_bytes :: "content_owner_kind \<Rightarrow> string" where
  "content_owner_kind_bytes OwnerGraph = ''graph''"
| "content_owner_kind_bytes OwnerNode = ''node''"
| "content_owner_kind_bytes OwnerAgent = ''agent''"
| "content_owner_kind_bytes OwnerEdge = ''edge''"
| "content_owner_kind_bytes OwnerPolicy = ''policy''"
| "content_owner_kind_bytes OwnerDiagnostic = ''diagnostic''"

fun content_field_kind_bytes :: "content_field_kind \<Rightarrow> string" where
  "content_field_kind_bytes DisplayName = ''display_name''"
| "content_field_kind_bytes Description = ''description''"
| "content_field_kind_bytes Objective = ''objective''"
| "content_field_kind_bytes Purpose = ''purpose''"
| "content_field_kind_bytes Instructions = ''instructions''"
| "content_field_kind_bytes CompletionContract = ''completion_contract''"
| "content_field_kind_bytes PolicyText = ''policy_text''"
| "content_field_kind_bytes DiagnosticDetail = ''diagnostic_detail''"
| "content_field_kind_bytes ContextPath = ''context_path''"
| "content_field_kind_bytes PermissionPath = ''permission_path''"
| "content_field_kind_bytes IsolationPath = ''isolation_path''"

definition push_slot_position_part :: "string \<Rightarrow> string \<Rightarrow> graph_error + string" where
  "push_slot_position_part out v =
    (if length v < 2 ^ 32 then Inr (out @ be_bytes 4 (length v) @ v) else Inl InvalidProjection)"

text \<open>The bytes \<open>derive_publication_evidence_id\<close> hashes.\<close>

definition publication_identity_bytes ::
  "repository_scope \<Rightarrow> u64 \<Rightarrow> string \<Rightarrow> content_slot \<Rightarrow> graph_error + string" where
  "publication_identity_bytes scope number semantic_hash slot =
    bindE (push_slot_position_part [] ''graphhelm-publication-evidence-identity-v1'') (\<lambda>b.
    bindE (push_slot_position_part b (rs_workspace_id scope)) (\<lambda>b.
    bindE (push_slot_position_part b (rs_project_id scope)) (\<lambda>b.
    bindE (case rs_execution_id scope of
             Some e \<Rightarrow> push_slot_position_part (b @ [char_of (1::nat)]) e
           | None \<Rightarrow> Inr (b @ [char_of (0::nat)])) (\<lambda>b.
    bindE (push_slot_position_part (b @ be64 number) semantic_hash) (\<lambda>b.
    bindE (push_slot_position_part b (cs_slot_id slot)) (\<lambda>b.
    bindE (push_slot_position_part b (content_owner_kind_bytes (cs_owner_kind slot))) (\<lambda>b.
    bindE (push_slot_position_part b (cs_owner_id slot)) (\<lambda>b.
    bindE (push_slot_position_part b (content_field_kind_bytes (cs_field_kind slot))) (\<lambda>b.
      Inr (b @ be32 (cs_ordinal slot)))))))))))"

definition raw_content_sha256 :: "(string \<Rightarrow> string) \<Rightarrow> string \<Rightarrow> graph_error + string" where
  "raw_content_sha256 sha_hex bytes =
    (if is_raw_sha256 (sha_hex bytes) then Inr (sha_hex bytes) else Inl InvalidProjection)"

definition derive_publication_evidence_id ::
  "(string \<Rightarrow> string) \<Rightarrow> repository_scope \<Rightarrow> u64 \<Rightarrow> string \<Rightarrow> content_slot \<Rightarrow> graph_error + string" where
  "derive_publication_evidence_id sha_hex scope number semantic_hash slot =
    bindE (publication_identity_bytes scope number semantic_hash slot) (\<lambda>bytes.
    bindE (raw_content_sha256 sha_hex bytes) (\<lambda>digest.
      let eid = ''evidence-'' @ digest in
      if is_opaque_id eid then Inr eid else Inl InvalidProjection))"

definition validate_publication_evidence_ids ::
  "(string \<Rightarrow> string) \<Rightarrow> repository_scope \<Rightarrow> persisted_graph_version \<Rightarrow> graph_error + unit" where
  "validate_publication_evidence_ids sha_hex scope v =
    foldE (\<lambda>slot u.
        bindE (derive_publication_evidence_id sha_hex scope (pgv_number v) (pgv_semantic_hash v) slot)
          (\<lambda>eid. ensure (eid = cs_evidence_id slot) InvalidProjection))
      (pgv_content_slots v) ()"

record content_slot_profile =
  csp_sensitivity :: sensitivity
  csp_required_for_execution :: bool

definition derive_content_slot_profile ::
  "content_owner_kind \<Rightarrow> string \<Rightarrow> content_field_kind \<Rightarrow> u32 \<Rightarrow> graph_error + content_slot_profile" where
  "derive_content_slot_profile ow oid fk ord =
    (if ow \<in> {OwnerGraph, OwnerNode} \<and> fk \<in> {DisplayName, Description} \<and> ord = 0
     then Inr \<lparr>csp_sensitivity = Internal, csp_required_for_execution = False\<rparr>
     else if (ow = OwnerNode \<and> fk \<in> {Objective, Instructions} \<and> ord = 0)
        \<or> (ow = OwnerAgent \<and> fk \<in> {Purpose, Instructions, CompletionContract} \<and> ord = 0)
        \<or> (ow = OwnerEdge \<and> fk = PolicyText \<and> ord \<le> 1)
        \<or> (ow = OwnerNode \<and> fk \<in> {CompletionContract, ContextPath, PermissionPath, IsolationPath})
        \<or> (ow = OwnerPolicy \<and> fk = PolicyText)
     then Inr \<lparr>csp_sensitivity = Restricted, csp_required_for_execution = True\<rparr>
     else Inl InvalidProjection)"

definition validate_evidence_bijection ::
  "content_slot list \<Rightarrow> evidence_reference list \<Rightarrow> graph_error + unit" where
  "validate_evidence_bijection slots refs =
    (if length slots > 8192
        \<or> length slots \<noteq> length refs
        \<or> \<not> windows_increasing slot_position slots
        \<or> om_len (os_of_list (map cs_slot_id slots)) \<noteq> length slots
        \<or> om_len (os_of_list (map cs_evidence_id slots)) \<noteq> length slots
        \<or> om_len (os_of_list (map er_evidence_id refs)) \<noteq> length refs
        \<or> list_ex (\<lambda>(s, r). cs_evidence_id s \<noteq> er_evidence_id r \<or> cs_content_sha256 s \<noteq> er_content_sha256 r)
             (zip slots refs)
     then Inl InvalidProjection else Inr ())"


section \<open>Framing is injective\<close>

lemma length_be_bytes [simp]: "length (be_bytes k n) = k"
  by (simp add: be_bytes_def)

lemma be_bytes_Suc: "be_bytes (Suc k) n = char_of (n div 256 ^ k) # be_bytes k n"
  by (simp add: be_bytes_def)

lemma be_bytes_mod: "be_bytes k m = be_bytes k n \<Longrightarrow> m mod 256 ^ k = n mod 256 ^ k"
proof (induction k)
  case (Suc k)
  then have a: "m mod 256 ^ k = n mod 256 ^ k" and b: "(m div 256 ^ k) mod 256 = (n div 256 ^ k) mod 256"
    by (simp_all add: be_bytes_Suc char_of_eq_iff) (metis of_char_of char_of_eq_iff)
  have *: "x mod 256 ^ Suc k = 256 ^ k * ((x div 256 ^ k) mod 256) + x mod 256 ^ k" for x :: nat
    using mod_mult2_eq [of x "256 ^ k" 256] by (simp add: mult.commute)
  show ?case unfolding * a b ..
qed simp

lemma be_bytes_inj: "be_bytes k m = be_bytes k n \<Longrightarrow> m < 256 ^ k \<Longrightarrow> n < 256 ^ k \<Longrightarrow> m = n"
  by (drule be_bytes_mod) simp

lemma be64_inj [simp]: "be64 a = be64 b \<longleftrightarrow> a = b"
proof
  assume "be64 a = be64 b"
  moreover have "unat w < 256 ^ 8" for w :: u64 using unsigned_less [of w] by simp
  ultimately have "unat a = unat b" unfolding be64_def by (intro be_bytes_inj [of 8])
  then show "a = b" by (rule unsigned_word_eqI)
qed simp

lemma be32_inj [simp]: "be32 a = be32 b \<longleftrightarrow> a = b"
proof
  assume "be32 a = be32 b"
  moreover have "unat w < 256 ^ 4" for w :: u32 using unsigned_less [of w] by simp
  ultimately have "unat a = unat b" unfolding be32_def by (intro be_bytes_inj [of 4])
  then show "a = b" by (rule unsigned_word_eqI)
qed simp

lemma length_be64 [simp]: "length (be64 w) = 8"
  by (simp add: be64_def)

lemma length_be32 [simp]: "length (be32 w) = 4"
  by (simp add: be32_def)

definition frame :: "nat \<Rightarrow> string \<Rightarrow> string" where
  "frame k v = be_bytes k (length v) @ v"

lemma frame_append_inj:
  assumes "frame k v @ r = frame k v' @ r'" "length v < 256 ^ k" "length v' < 256 ^ k"
  shows "v = v' \<and> r = r'"
proof -
  have "be_bytes k (length v) @ (v @ r) = be_bytes k (length v') @ (v' @ r')"
    using assms(1) by (simp add: frame_def)
  then have "be_bytes k (length v) = be_bytes k (length v')" and vr: "v @ r = v' @ r'"
    by (simp_all add: append_eq_append_conv)
  then have "length v = length v'" using assms(2,3) by (intro be_bytes_inj [of k]) auto
  with vr show ?thesis by simp
qed

lemma push_slot_position_part_Inr:
  "push_slot_position_part b v = Inr c \<longleftrightarrow> length v < 2 ^ 32 \<and> c = b @ frame 4 v"
  by (auto simp: push_slot_position_part_def frame_def)

lemma content_owner_kind_bytes_inj [simp]:
  "content_owner_kind_bytes a = content_owner_kind_bytes b \<longleftrightarrow> a = b"
  by (cases a; cases b) simp_all

lemma content_field_kind_bytes_inj [simp]:
  "content_field_kind_bytes a = content_field_kind_bytes b \<longleftrightarrow> a = b"
  by (cases a; cases b) simp_all

definition scope_bytes :: "string option \<Rightarrow> string" where
  "scope_bytes e = (case e of Some x \<Rightarrow> char_of (1::nat) # frame 4 x | None \<Rightarrow> [char_of (0::nat)])"

lemma frame4_eq [simp]:
  "length v < 4294967296 \<Longrightarrow> length v' < 4294967296 \<Longrightarrow>
    frame 4 v @ r = frame 4 v' @ r' \<longleftrightarrow> v = v' \<and> r = r'"
  using frame_append_inj [of 4 v r v' r'] by auto

lemma frame4_inj [simp]:
  "length v < 4294967296 \<Longrightarrow> length v' < 4294967296 \<Longrightarrow> frame 4 v = frame 4 v' \<longleftrightarrow> v = v'"
  using frame4_eq [of v v' "[]" "[]"] by simp

lemma be64_append_eq [simp]: "be64 a @ r = be64 b @ r' \<longleftrightarrow> a = b \<and> r = r'"
  by (simp add: append_eq_append_conv)

lemma scope_bytes_eq [simp]:
  "\<lbrakk> \<forall>x \<in> set_option e. length x < 4294967296; \<forall>x \<in> set_option e'. length x < 4294967296 \<rbrakk> \<Longrightarrow>
    scope_bytes e @ r = scope_bytes e' @ r' \<longleftrightarrow> e = e' \<and> r = r'"
  by (cases e; cases e') (auto simp: scope_bytes_def char_of_eq_iff)

lemma publication_identity_bytes_Inr:
  "publication_identity_bytes scope n h slot = Inr b \<longleftrightarrow>
    length (rs_workspace_id scope) < 2 ^ 32 \<and> length (rs_project_id scope) < 2 ^ 32 \<and>
    (\<forall>x \<in> set_option (rs_execution_id scope). length x < 2 ^ 32) \<and> length h < 2 ^ 32 \<and>
    length (cs_slot_id slot) < 2 ^ 32 \<and> length (cs_owner_id slot) < 2 ^ 32 \<and>
    b = frame 4 ''graphhelm-publication-evidence-identity-v1'' @ frame 4 (rs_workspace_id scope) @
        frame 4 (rs_project_id scope) @ scope_bytes (rs_execution_id scope) @ be64 n @ frame 4 h @
        frame 4 (cs_slot_id slot) @ frame 4 (content_owner_kind_bytes (cs_owner_kind slot)) @
        frame 4 (cs_owner_id slot) @ frame 4 (content_field_kind_bytes (cs_field_kind slot)) @
        be32 (cs_ordinal slot)"
proof -
  have "length (content_owner_kind_bytes k) < 2 ^ 32" for k by (cases k) simp_all
  moreover have "length (content_field_kind_bytes k) < 2 ^ 32" for k by (cases k) simp_all
  ultimately show ?thesis
    by (cases "rs_execution_id scope")
       (auto simp: publication_identity_bytes_def push_slot_position_part_Inr scope_bytes_def)
qed

lemma windows_increasing_sorted: "windows_increasing f xs \<longleftrightarrow> sorted_wrt (<) (map f xs)"
proof (induction f xs rule: windows_increasing.induct)
  case (1 f x y ys)
  then show ?case by (auto simp: not_le intro: less_trans)
qed auto

lemma all_unique_distinct: "all_unique xs \<longleftrightarrow> distinct xs"
  by (auto simp: all_unique_def os_of_list_len card_distinct distinct_card)

lemma os_of_list_len_distinct: "om_len (os_of_list xs) = length xs \<longleftrightarrow> distinct xs"
  using all_unique_distinct [of xs] by (simp add: all_unique_def)


section \<open>Properties\<close>

text \<open>The publication-scoped Evidence identity separates publications. Two publications and slots
  are hashed from the same bytes only when they agree on the whole scope (workspace, project and the
  presence and value of the execution), the version number, the semantic hash, the slot identity and
  the slot's whole position.\<close>

theorem publication_identity_injective:
  assumes "publication_identity_bytes scope n h slot = Inr b"
    and "publication_identity_bytes scope' n' h' slot' = Inr b"
  shows "scope = scope' \<and> n = n' \<and> h = h' \<and> cs_slot_id slot = cs_slot_id slot' \<and>
    slot_position slot = slot_position slot'"
proof -
  have k: "length (content_owner_kind_bytes k) < 4294967296" for k by (cases k) simp_all
  have f: "length (content_field_kind_bytes k) < 4294967296" for k by (cases k) simp_all
  have all: "rs_workspace_id scope = rs_workspace_id scope' \<and> rs_project_id scope = rs_project_id scope' \<and>
    rs_execution_id scope = rs_execution_id scope' \<and> n = n' \<and> h = h' \<and>
    cs_slot_id slot = cs_slot_id slot' \<and> cs_owner_kind slot = cs_owner_kind slot' \<and>
    cs_owner_id slot = cs_owner_id slot' \<and> cs_field_kind slot = cs_field_kind slot' \<and>
    cs_ordinal slot = cs_ordinal slot'"
    using assms [unfolded publication_identity_bytes_Inr] by (clarsimp simp: k f)
  then have "scope = scope'" by (intro repository_scope.equality) simp_all
  with all show ?thesis by (simp add: slot_position_def)
qed

definition sample_scope :: repository_scope where
  "sample_scope = \<lparr>rs_workspace_id = ''w'', rs_project_id = ''p'', rs_execution_id = Some ''e''\<rparr>"

definition sample_slot :: content_slot where
  "sample_slot = \<lparr>cs_slot_id = ''slot'', cs_owner_kind = OwnerNode, cs_owner_id = ''n'',
     cs_field_kind = Objective, cs_ordinal = 0, cs_evidence_id = ''evidence'',
     cs_content_sha256 = ''sha'', cs_sensitivity = Restricted, cs_required_for_execution = True\<rparr>"

theorem publication_identity_injective_witness:
  "\<exists>b. publication_identity_bytes sample_scope 1 ''h'' sample_slot = Inr b \<and>
       publication_identity_bytes sample_scope 2 ''h'' sample_slot \<noteq> Inr b"
proof -
  have "\<exists>b. publication_identity_bytes sample_scope 1 ''h'' sample_slot = Inr b"
    unfolding publication_identity_bytes_Inr by (simp add: sample_scope_def sample_slot_def)
  then obtain b where b: "publication_identity_bytes sample_scope 1 ''h'' sample_slot = Inr b" ..
  have "publication_identity_bytes sample_scope 2 ''h'' sample_slot \<noteq> Inr b"
    using publication_identity_injective [OF b, of sample_scope 2 "''h''" sample_slot] by auto
  with b show ?thesis by blast
qed

text \<open>The Evidence match of a publication is an ordered bijection. It is accepted exactly when
  the references are, position by position, the Evidence and content hash of the slots, the slots
  strictly increase by position, slot and Evidence identities do not repeat, and there are at most
  8192 of them.\<close>

theorem evidence_bijection_exact:
  "validate_evidence_bijection slots refs = Inr () \<longleftrightarrow>
    length slots \<le> 8192 \<and>
    map (\<lambda>s. (cs_evidence_id s, cs_content_sha256 s)) slots =
      map (\<lambda>r. (er_evidence_id r, er_content_sha256 r)) refs \<and>
    sorted_wrt (<) (map slot_position slots) \<and>
    distinct (map cs_slot_id slots) \<and> distinct (map cs_evidence_id slots)"
proof -
  have zip: "length slots = length refs \<and>
      \<not> list_ex (\<lambda>(s, r). cs_evidence_id s \<noteq> er_evidence_id r \<or> cs_content_sha256 s \<noteq> er_content_sha256 r)
          (zip slots refs) \<longleftrightarrow>
    map (\<lambda>s. (cs_evidence_id s, cs_content_sha256 s)) slots =
      map (\<lambda>r. (er_evidence_id r, er_content_sha256 r)) refs"
    by (induction slots refs rule: list_induct2') (auto simp: list_ex_iff)
  have ids: "map cs_evidence_id slots = map er_evidence_id refs"
    if "map (\<lambda>s. (cs_evidence_id s, cs_content_sha256 s)) slots =
      map (\<lambda>r. (er_evidence_id r, er_content_sha256 r)) refs"
    using arg_cong [OF that, of "map fst"] by (simp add: comp_def)
  have lens: "om_len (os_of_list (map f xs)) = length xs \<longleftrightarrow> distinct (map f xs)"
    for f :: "'x \<Rightarrow> string" and xs
    using os_of_list_len_distinct [of "map f xs"] by simp
  show ?thesis
    unfolding validate_evidence_bijection_def windows_increasing_sorted lens
    using zip ids by (auto simp: not_less)
qed

end
