(* ===== verification/Graph_Payloads.thy ===== *)
theory Graph_Payloads
  imports Persisted_Graph
begin

text \<open>
  Payloads of the graph, draft, policy, memory and dream events
  (\<open>core/protocols/src/event.rs\<close>, \<open>policy.rs\<close>, \<open>diagnostic.rs\<close>, \<open>dreams.rs\<close>).
\<close>

section \<open>Payloads: graphs, drafts and policy\<close>

datatype graph_source_kind = GraphDocument | Generated

record graph_imported =
  gim_source_sha256 :: string
  gim_source_kind :: graph_source_kind

datatype severity = SeverityError | SeverityWarning

datatype diagnostic_component =
    SchemaComponent | GraphComponent | PolicyComponent | GovernorComponent | SimulationComponent
  | EventsComponent | EvidenceComponent | ArtifactComponent | RetentionComponent
  | ProjectionComponent | IntegrityComponent | RepositoryComponent

record persisted_diagnostic =
  pdg_code :: string
  pdg_severity :: severity
  pdg_path :: string
  pdg_component :: diagnostic_component
  pdg_source_content_sha256 :: "string option"
  pdg_detail_evidence_id :: "string option"

record graph_validation_failed =
  gvf_diagnostics :: "persisted_diagnostic list"

record graph_version_published =
  gvp_version :: persisted_graph_version

record graph_authoring_snapshot_stored =
  gas_execution_id :: string
  gas_graph_version :: u64
  gas_graph_hash :: string

record draft_proposed =
  dpr_draft_id :: string
  dpr_expected_version :: u64
  dpr_expected_hash :: "string option"
  dpr_expected_safe_hash :: "string option"
  dpr_operation_count :: "16 word"
  dpr_proposal_sha256 :: "string option"

record draft_rejected =
  drj_draft_id :: string
  drj_reason_code :: string
  drj_diagnostics :: "persisted_diagnostic list"
  drj_detail_evidence_id :: "string option"

record draft_applied =
  dap_draft_id :: string
  dap_graph_version :: u64
  dap_graph_hash :: string

datatype persisted_obligation_status =
  ObligationSatisfied | ObligationUnsatisfied | ObligationWaived | ObligationImpossible

record policy_obligation_evaluated =
  poe_draft_id :: string
  poe_requirement_id :: string
  poe_status :: persisted_obligation_status
  poe_evidence_ids :: "string list"
  poe_reason_code :: string
  poe_overrideable :: bool

datatype waiver_scope = WaiveNode | WaiveBranch | WaiveExecution

record policy_waiver =
  pwv_id :: string
  pwv_requirement :: string
  pwv_execution_id :: string
  pwv_graph_version :: u64
  pwv_actor :: string
  pwv_reason :: "string option"
  pwv_acknowledged_risks :: "string list"
  pwv_scope :: waiver_scope
  pwv_created_at :: timestamp
  pwv_expires_at :: "timestamp option"

record policy_waiver_created =
  pwc_waiver :: policy_waiver


section \<open>Payloads: memory and dreams\<close>

datatype memory_admission_refusal_code = ScopeMismatch | RecaptureLoop | SecretDetected | SelfValidated

datatype memory_admission_local = LocalContent | LocalScope | LocalValidators | LocalOrigin

record memory_admission_refused =
  mar_code :: memory_admission_refusal_code
  mar_local :: memory_admission_local
  mar_bytes :: u64

datatype memory_publication_transition = Propose | Publish | Withdraw

datatype memory_publication_state = Unpublished | Proposed | Published | Withdrawn

record memory_publication_transitioned =
  mpt_record_id :: string
  mpt_transition :: memory_publication_transition
  mpt_resulting_state :: memory_publication_state

record memory_validation_recorded =
  mvr_record_id :: string
  mvr_validator_signal_id :: string
  mvr_source_execution_id :: string
  mvr_content_digest :: string
  mvr_source_semantic_hash :: string

datatype memory_semantic_state =
  Candidate | Validated | Contradicted | Deprecated | ExpiredMemory

datatype supersession_reason = ByContradiction | ByDeprecation

record memory_record_superseded =
  mrs_predecessor_id :: string
  mrs_successor_id :: string
  mrs_reason :: supersession_reason
  mrs_predecessor_new_semantic_state :: memory_semantic_state

datatype dream_trigger = ManualDream | IdleDream | IncidentDream

datatype dream_category = MemoryExpiry | ConflictReport | RetrievalOptimization | CodeFinding

datatype dream_outcome = AdvisoryProposal | Discarded

datatype dream_critic_verdict = CriticAccepted | CriticRejectedVerdict

datatype dream_refusal_code =
    InputEmpty | InputTooLarge | MissingEvidence | WriteCritical | DreamScopeMismatch
  | CriticNotIndependent | CriticRejected | TaskMappingMissing

record dream_task_request =
  dtr_task_id :: string
  dtr_dream_run_id :: string
  dtr_scope :: repository_scope
  dtr_finding_sha256 :: string
  dtr_evidence_sha256 :: "string list"
  dtr_origin :: string

record dream_shadow_recorded =
  dsr_run_id :: string
  dsr_scope :: repository_scope
  dsr_trigger :: dream_trigger
  dsr_category :: dream_category
  dsr_input_sha256 :: string
  dsr_evidence_sha256 :: "string list"
  dsr_outcome :: dream_outcome
  dsr_validation_code :: "dream_refusal_code option"
  dsr_planner_id :: string
  dsr_critic_id :: string
  dsr_critic_verdict :: dream_critic_verdict
  dsr_task_request :: "dream_task_request option"

end
