(* ===== verification/Execution_Payloads.thy ===== *)
theory Execution_Payloads
  imports Persisted_Graph
begin

text \<open>
  Payloads of the customs, simulation and execution events (\<open>core/protocols/src/event.rs\<close>) and the
  code vocabulary they carry.
\<close>

section \<open>Codes\<close>

definition safe_code_char :: "char \<Rightarrow> bool" where
  "safe_code_char c = (is_ascii_lowercase c \<or> is_ascii_digit c \<or> c = CHR ''_'')"

definition safe_code_parse :: "string \<Rightarrow> persistence_error + string" where
  "safe_code_parse s = (case s of
      [] \<Rightarrow> Inl (PersistenceError ''safe code'')
    | c # cs \<Rightarrow>
        if length s > 64 \<or> \<not> is_ascii_lowercase c \<or> \<not> list_all safe_code_char cs
        then Inl (PersistenceError ''safe code'') else Inr s)"

definition REFUSAL_REASON_CODES :: "string list" where
  "REFUSAL_REASON_CODES =
    [''stale_rendezvous'', ''duplicate_completion'', ''evidence_budget_unmet'', ''hash_mismatch'',
     ''unknown_wait'', ''unknown_identity'', ''clearance_expired'', ''not_waiting'',
     ''signature_unverifiable'']"


section \<open>Payloads: customs\<close>

record claim_evidence =
  ce_kind :: string
  ce_content_hash :: string
  ce_size :: u64

datatype claim_attestation_mode = OperatorAttested | MachineVerified

record claim_attestation =
  cat_asserter :: string
  cat_mode :: claim_attestation_mode

record completion_claimed =
  ccl_execution_id :: string
  ccl_node :: string
  ccl_completes_wait_seq :: u64
  ccl_evidence :: "claim_evidence list"
  ccl_attestation :: claim_attestation

datatype clearance_verifier =
    MachineReplay (manifest_hash: string)
  | Countersign (identity: string) (key_fingerprint: string)

record completion_cleared =
  ccd_execution_id :: string
  ccd_claim_seq :: u64
  ccd_verifier :: clearance_verifier

record completion_rejected =
  crj_execution_id :: string
  crj_claim_seq :: u64
  crj_verifier :: clearance_verifier
  crj_reason_code :: string

record completion_refused =
  crf_execution_id :: string
  crf_node :: string
  crf_claimed_wait_seq :: u64
  crf_reason_code :: string

record clearance_identity_registered =
  cir_execution_id :: string
  cir_identity :: string
  cir_key_fingerprint :: string

record clearance_identity_revoked =
  civ_execution_id :: string
  civ_identity :: string

datatype wire_customs_stage = WireParked | WireClaimed | WireDeadLettered

datatype sweep_caller = Tick | Operator

record dlq_routed =
  dro_execution_id :: string
  dro_node_id :: string
  dro_episode_sequence :: u64
  dro_reason :: string

record dlq_redrive =
  drd_execution_id :: string
  drd_node_id :: string
  drd_dlq_episode_sequence :: u64

record dlq_returned =
  drt_execution_id :: string
  drt_node_id :: string
  drt_dlq_episode_sequence :: u64
  drt_wait_within_seconds :: "u64 option"

record sweep_performed =
  swp_execution_id :: string
  swp_as_of :: timestamp
  swp_caller :: sweep_caller

record overdue_exception =
  oex_execution_id :: string
  oex_node_id :: string
  oex_episode_sequence :: u64
  oex_stage :: wire_customs_stage
  oex_deadline :: timestamp


section \<open>Payloads: simulation and execution\<close>

record simulation_started =
  sst_simulation_id :: string
  sst_graph_version :: u64
  sst_graph_hash :: string

record node_state_changed =
  nsc_simulation_id :: string
  nsc_node_id :: string
  nsc_previous_state :: "node_state option"
  nsc_next_state :: node_state

record simulation_completed =
  scm_simulation_id :: string
  scm_status :: simulation_status

record execution_started =
  est_execution_id :: string
  est_graph_version :: u64
  est_graph_hash :: string
  est_mode :: execution_mode

record node_descriptor =
  nds_name :: string
  nds_role :: node_type

record declared_topology_edge =
  dte_id :: string
  dte_from :: string
  dte_to :: string
  dte_edge_type :: string

record declared_topology =
  dtp_graph_hash :: string
  dtp_entrypoints :: "string list"
  dtp_edges :: "declared_topology_edge list"

datatype declared_executor = DeclaredFixture | DeclaredGateway

record execution_form_declared =
  efd_execution_id :: string
  efd_node_ids :: "string list"
  efd_node_descriptors :: "(string, node_descriptor) omap"
  efd_topology :: "declared_topology option"
  efd_node_timeout_seconds :: "(string, u64) omap"
  efd_name :: "string option"
  efd_objective :: "string option"
  efd_executor :: "declared_executor option"
  efd_node_customs_budgets :: "(string, customs_budgets) omap"

record execution_form_amended =
  efa_execution_id :: string
  efa_computed_at_sequence :: u64
  efa_node_timeout_seconds :: "(string, u64) omap"
  efa_observed_silence_seconds :: "(string, u64) omap"

record execution_mode_changed =
  emc_execution_id :: string
  emc_previous_mode :: "execution_mode option"
  emc_mode :: execution_mode

datatype attempt_executor_kind = AttemptFixture | AttemptModel | AttemptTool | AttemptGate

record attempt_executor =
  aex_kind :: attempt_executor_kind
  aex_route_id :: "string option"

datatype node_outcome_reason =
    AuthRequired | AuthRevoked | QuotaExhausted | RateLimited | ProviderUnavailable | ModelRemoved
  | ContextTooLarge | MalformedOutput | RuntimeCrashed | UnsupportedCapability | PolicyDenied
  | ReasonCancelled | ReasonTimeout | EmptyReply | MalformedJudgment | JudgeRefused | GateRefused
  | ToolExitedNonZero | ToolTimedOut | ToolDenied | ToolHostError | FixtureScripted

datatype crash_site =
    WaitFailed | ExitStatusUnreadable | StdinWriterUnclean | TimeoutCleanupUnobserved
  | StdoutTruncated | ExitNonzeroWithReply | StreamMalformed | StreamWithoutErrorText
  | ErrorTextUnclassified | ClaudeUnparsed

record node_outcome_recorded =
  nor_crash_site :: "crash_site option"
  nor_execution_id :: string
  nor_node_id :: string
  nor_outcome :: node_outcome
  nor_next_state :: node_state
  nor_executor :: "attempt_executor option"
  nor_reason :: "node_outcome_reason option"

record execution_completed =
  ecm_execution_id :: string
  ecm_status :: simulation_status

record signal_recorded =
  sgr_to :: "string option"
  sgr_reply_to :: "string option"
  sgr_execution_id :: string
  sgr_signal_id :: string
  sgr_source_kind :: signal_source_kind
  sgr_source_id :: string
  sgr_kind :: string
  sgr_severity :: signal_severity
  sgr_envelope_sha256 :: string
  sgr_scoped_agent_authenticated :: "bool option"

record ghost_node_proposed =
  gnp_execution_id :: string
  gnp_node_id :: string
  gnp_draft_id :: string

record node_assigned =
  nas_execution_id :: string
  nas_node_id :: string
  nas_assigned_actor :: persisted_actor
  nas_proposal_sha256 :: string

record mutation_accepted =
  mac_execution_id :: string
  mac_draft_id :: string
  mac_mode :: execution_mode
  mac_graph_version :: u64

record execution_paused =
  eps_execution_id :: string

record execution_resumed =
  ers_execution_id :: string

end
