(* ===== verification/Operations_Payloads.thy ===== *)
theory Operations_Payloads
  imports Persisted_Graph
begin

text \<open>
  Payloads of the integrity, retention, reuse, wake, gate, agent and drive events
  (\<open>core/protocols/src/event.rs\<close>, \<open>delegation.rs\<close>).
\<close>

section \<open>Payloads: integrity, retention, reuse, wake and gates\<close>

datatype persisted_authentication_algorithm = HmacSha256 | Blake3Keyed

record persisted_authentication_tag =
  pat_key_id :: string
  pat_algorithm :: persisted_authentication_algorithm
  pat_tag_sha256 :: string

record integrity_checkpoint_created =
  icc_stream_id :: string
  icc_sequence :: u64
  icc_event_hash :: string
  icc_repository_format :: string
  icc_authentication_tag :: persisted_authentication_tag

datatype evidence_prior_state = PriorAvailable | PriorExpired | PriorMissingKey | PriorIntegrityFailed

datatype erasure_pending_state = IsErasurePending

datatype erased_state = IsErased

datatype pending_prior_state = WasErasurePending

record evidence_erasure_requested =
  eer_evidence_scope :: repository_scope
  eer_operation_id :: string
  eer_evidence_id :: string
  eer_key_handle_id :: string
  eer_retention_policy_id :: string
  eer_retention_policy_version :: string
  eer_authority :: string
  eer_reason_code :: string
  eer_prior_state :: evidence_prior_state
  eer_state :: erasure_pending_state
  eer_requested_at :: timestamp

record evidence_erasure_completed =
  eec_evidence_scope :: repository_scope
  eec_operation_id :: string
  eec_evidence_id :: string
  eec_key_handle_id :: string
  eec_retention_policy_id :: string
  eec_retention_policy_version :: string
  eec_authority :: string
  eec_reason_code :: string
  eec_ciphertext_sha256 :: string
  eec_provider_receipt_id :: string
  eec_provider_epoch :: u64
  eec_prior_state :: pending_prior_state
  eec_state :: erased_state
  eec_requested_at :: timestamp
  eec_completed_at :: timestamp

record evidence_ciphertext_deleted =
  ecd_evidence_scope :: repository_scope
  ecd_operation_id :: string
  ecd_evidence_id :: string
  ecd_ciphertext_sha256 :: string
  ecd_deleted_at :: timestamp

datatype legal_hold_state = Placed | Released

record evidence_legal_hold_changed =
  elh_evidence_scope :: repository_scope
  elh_hold_id :: string
  elh_evidence_id :: string
  elh_authority :: string
  elh_reason_code :: string
  elh_state :: legal_hold_state
  elh_changed_at :: timestamp

datatype reuse_plane = ToolBroker

datatype reuse_outcome = ReuseHit | ReuseMiss | ReuseForcedFresh | ReuseExcluded

datatype forced_fresh_reason = DirtyTree | OperatorForced

datatype reuse_key_component = ToolVersion | CanonicalInput | LeaseScope | SourceSnapshot

record reuse_decision =
  rud_execution_id :: string
  rud_node_id :: "string option"
  rud_plane :: reuse_plane
  rud_decision :: reuse_outcome
  rud_forced_reason :: "forced_fresh_reason option"
  rud_freshness_class :: "freshness_class option"
  rud_key_components :: "reuse_key_component list"
  rud_key_digest :: string
  rud_evidence_ref :: "string option"
  rud_provenance_erased :: bool

record wake_lease =
  wkl_execution_id :: string
  wkl_session_id :: string
  wkl_cursor :: u64
  wkl_rendezvous_id :: string
  wkl_matures_in_seconds :: "u64 option"

datatype wake_consume_reason = Rung | StaleRendezvous

record wake_lease_consumed =
  wlc_execution_id :: string
  wlc_session_id :: string
  wlc_reason :: wake_consume_reason
  wlc_captured_arming :: "u64 option"

record gate_finding =
  gfn_severity :: signal_severity
  gfn_claim :: string
  gfn_evidence :: "string list"
  gfn_remediation :: string

record gate_verdict =
  gvd_execution_id :: string
  gvd_node_id :: string
  gvd_gate_id :: string
  gvd_passed :: bool
  gvd_findings :: "gate_finding list"

record gate_certified =
  gce_execution_id :: string
  gce_gate_id :: string
  gce_suite_digest :: string
  gce_specimens :: u32


section \<open>Payloads: agents and drives\<close>

datatype declared_effort = EffortLow | EffortMedium | EffortHigh

record agent_presence_declared =
  apd_actor_id :: string
  apd_actor_type :: persisted_actor_type
  apd_model :: "string option"
  apd_effort :: "declared_effort option"
  apd_session :: "string option"

datatype subagent_kind = Explorer | Implementer | Reviewer | Verifier

datatype delegation_tier = TierSmall | TierStandard | TierLarge

datatype delegation_effort = DelegateLow | DelegateMedium | DelegateHigh

datatype delegation_policy_id = Routed

record delegation_chosen =
  dch_node_id :: string
  dch_policy :: delegation_policy_id
  dch_kind :: subagent_kind
  dch_tier :: delegation_tier
  dch_effort :: delegation_effort
  dch_escalated :: bool
  dch_red_checks :: u32

datatype subagent_basis =
    ReusedSubagent | NoEligibleSubagent | AuthorUnderReview | BoundUnavailable | BoundExceeded
  | SessionUnavailable

record subagent_reused =
  sur_node_id :: string
  sur_subagent_id :: string
  sur_kind :: subagent_kind
  sur_graph_version :: u64
  sur_basis :: subagent_basis
  sur_from_node_id :: "string option"
  sur_from_kind :: "subagent_kind option"
  sur_tokens_used :: "u64 option"
  sur_tokens_allocated :: "u64 option"

datatype drive_failure_site = DriveSite | WorkspaceReleaseSite

record drive_failed =
  dfl_execution_id :: string
  dfl_site :: drive_failure_site
  dfl_cause :: string

end
