(* ===== verification/Event_Model.thy ===== *)
theory Event_Model
  imports Graph_Payloads Execution_Payloads Operations_Payloads
begin

text \<open>
  The journal's vocabulary (\<open>core/protocols/src/event.rs\<close>): the closed sum of the 54 event kinds over
  the payload records of the three payload theories, their wire names and scope levels, and the
  envelope a stream is made of.
\<close>

section \<open>The closed sum of event kinds\<close>

datatype (plugins only: code) event_kind =
    GraphImported graph_imported
  | GraphValidationFailed graph_validation_failed
  | MemoryAdmissionRefused memory_admission_refused
  | MemoryPublicationTransitioned memory_publication_transitioned
  | MemoryValidationRecorded memory_validation_recorded
  | MemoryRecordSuperseded memory_record_superseded
  | DreamShadowRecorded dream_shadow_recorded
  | GraphVersionPublished graph_version_published
  | GraphAuthoringSnapshotStored graph_authoring_snapshot_stored
  | DraftProposed draft_proposed
  | DraftRejected draft_rejected
  | DraftApplied draft_applied
  | PolicyObligationEvaluated policy_obligation_evaluated
  | PolicyWaiverCreated policy_waiver_created
  | SimulationStarted simulation_started
  | NodeStateChanged node_state_changed
  | SimulationCompleted simulation_completed
  | ExecutionStarted execution_started
  | ExecutionFormDeclared execution_form_declared
  | ExecutionFormAmended execution_form_amended
  | ExecutionModeChanged execution_mode_changed
  | NodeOutcomeRecorded node_outcome_recorded
  | ExecutionCompleted execution_completed
  | SignalRecorded signal_recorded
  | GhostNodeProposed ghost_node_proposed
  | NodeAssigned node_assigned
  | MutationAccepted mutation_accepted
  | ExecutionPaused execution_paused
  | ExecutionResumed execution_resumed
  | IntegrityCheckpointCreated integrity_checkpoint_created
  | EvidenceErasureRequested evidence_erasure_requested
  | EvidenceErasureCompleted evidence_erasure_completed
  | EvidenceCiphertextDeleted evidence_ciphertext_deleted
  | EvidenceLegalHoldChanged evidence_legal_hold_changed
  | ReuseDecision reuse_decision
  | WakeLease wake_lease
  | WakeLeaseConsumed wake_lease_consumed
  | GateVerdict gate_verdict
  | GateCertified gate_certified
  | CompletionClaimed completion_claimed
  | CompletionCleared completion_cleared
  | CompletionRejected completion_rejected
  | CompletionRefused completion_refused
  | ClearanceIdentityRegistered clearance_identity_registered
  | ClearanceIdentityRevoked clearance_identity_revoked
  | DlqRouted dlq_routed
  | DlqRedrive dlq_redrive
  | DlqReturned dlq_returned
  | SweepPerformed sweep_performed
  | OverdueException overdue_exception
  | AgentPresenceDeclared agent_presence_declared
  | DelegationChosen delegation_chosen
  | SubagentReused subagent_reused
  | DriveFailed drive_failed

primrec wire_name :: "event_kind \<Rightarrow> string" where
  "wire_name (GraphImported p) = ''graph_imported''"
| "wire_name (GraphValidationFailed p) = ''graph_validation_failed''"
| "wire_name (MemoryAdmissionRefused p) = ''memory_admission_refused''"
| "wire_name (MemoryPublicationTransitioned p) = ''memory_publication_transitioned''"
| "wire_name (MemoryValidationRecorded p) = ''memory_validation_recorded''"
| "wire_name (MemoryRecordSuperseded p) = ''memory_record_superseded''"
| "wire_name (DreamShadowRecorded p) = ''dream_shadow_recorded''"
| "wire_name (GraphVersionPublished p) = ''graph_version_published''"
| "wire_name (GraphAuthoringSnapshotStored p) = ''graph_authoring_snapshot_stored''"
| "wire_name (DraftProposed p) = ''draft_proposed''"
| "wire_name (DraftRejected p) = ''draft_rejected''"
| "wire_name (DraftApplied p) = ''draft_applied''"
| "wire_name (PolicyObligationEvaluated p) = ''policy_obligation_evaluated''"
| "wire_name (PolicyWaiverCreated p) = ''policy_waiver_created''"
| "wire_name (SimulationStarted p) = ''simulation_started''"
| "wire_name (NodeStateChanged p) = ''node_state_changed''"
| "wire_name (SimulationCompleted p) = ''simulation_completed''"
| "wire_name (ExecutionStarted p) = ''execution_started''"
| "wire_name (ExecutionFormDeclared p) = ''execution_form_declared''"
| "wire_name (ExecutionFormAmended p) = ''execution_form_amended''"
| "wire_name (ExecutionModeChanged p) = ''execution_mode_changed''"
| "wire_name (NodeOutcomeRecorded p) = ''node_outcome_recorded''"
| "wire_name (ExecutionCompleted p) = ''execution_completed''"
| "wire_name (SignalRecorded p) = ''signal_recorded''"
| "wire_name (GhostNodeProposed p) = ''ghost_node_proposed''"
| "wire_name (NodeAssigned p) = ''node_assigned''"
| "wire_name (MutationAccepted p) = ''mutation_accepted''"
| "wire_name (ExecutionPaused p) = ''execution_paused''"
| "wire_name (ExecutionResumed p) = ''execution_resumed''"
| "wire_name (IntegrityCheckpointCreated p) = ''integrity_checkpoint_created''"
| "wire_name (EvidenceErasureRequested p) = ''evidence_erasure_requested''"
| "wire_name (EvidenceErasureCompleted p) = ''evidence_erasure_completed''"
| "wire_name (EvidenceCiphertextDeleted p) = ''evidence_ciphertext_deleted''"
| "wire_name (EvidenceLegalHoldChanged p) = ''evidence_legal_hold_changed''"
| "wire_name (ReuseDecision p) = ''reuse_decision''"
| "wire_name (WakeLease p) = ''wake_lease''"
| "wire_name (WakeLeaseConsumed p) = ''wake_lease_consumed''"
| "wire_name (GateVerdict p) = ''gate_verdict''"
| "wire_name (GateCertified p) = ''gate_certified''"
| "wire_name (CompletionClaimed p) = ''completion_claimed''"
| "wire_name (CompletionCleared p) = ''completion_cleared''"
| "wire_name (CompletionRejected p) = ''completion_rejected''"
| "wire_name (CompletionRefused p) = ''completion_refused''"
| "wire_name (ClearanceIdentityRegistered p) = ''clearance_identity_registered''"
| "wire_name (ClearanceIdentityRevoked p) = ''clearance_identity_revoked''"
| "wire_name (DlqRouted p) = ''dlq_routed''"
| "wire_name (DlqRedrive p) = ''dlq_redrive''"
| "wire_name (DlqReturned p) = ''dlq_returned''"
| "wire_name (SweepPerformed p) = ''sweep_performed''"
| "wire_name (OverdueException p) = ''overdue_exception''"
| "wire_name (AgentPresenceDeclared p) = ''agent_presence_declared''"
| "wire_name (DelegationChosen p) = ''delegation_chosen''"
| "wire_name (SubagentReused p) = ''subagent_reused''"
| "wire_name (DriveFailed p) = ''drive_failed''"

definition EVERY_WIRE_NAME :: "string list" where
  "EVERY_WIRE_NAME =
    [''graph_imported'', ''graph_validation_failed'', ''memory_admission_refused'',
     ''memory_publication_transitioned'', ''memory_validation_recorded'', ''memory_record_superseded'',
     ''dream_shadow_recorded'', ''graph_version_published'', ''graph_authoring_snapshot_stored'',
     ''draft_proposed'', ''draft_rejected'', ''draft_applied'',
     ''policy_obligation_evaluated'', ''policy_waiver_created'', ''simulation_started'',
     ''node_state_changed'', ''simulation_completed'', ''execution_started'',
     ''execution_form_declared'', ''execution_form_amended'', ''execution_mode_changed'',
     ''node_outcome_recorded'', ''execution_completed'', ''signal_recorded'',
     ''ghost_node_proposed'', ''node_assigned'', ''mutation_accepted'',
     ''execution_paused'', ''execution_resumed'', ''integrity_checkpoint_created'',
     ''evidence_erasure_requested'', ''evidence_erasure_completed'', ''evidence_ciphertext_deleted'',
     ''evidence_legal_hold_changed'', ''reuse_decision'', ''wake_lease'',
     ''wake_lease_consumed'', ''gate_verdict'', ''gate_certified'',
     ''completion_claimed'', ''completion_cleared'', ''completion_rejected'',
     ''completion_refused'', ''clearance_identity_registered'', ''clearance_identity_revoked'',
     ''dlq_routed'', ''dlq_redrive'', ''dlq_returned'',
     ''sweep_performed'', ''overdue_exception'', ''agent_presence_declared'',
     ''delegation_chosen'', ''subagent_reused'', ''drive_failed'']"

definition is_project_level :: "event_kind \<Rightarrow> bool" where
  "is_project_level k = (case k of
      IntegrityCheckpointCreated _ \<Rightarrow> True
    | MemoryAdmissionRefused _ \<Rightarrow> True
    | MemoryPublicationTransitioned _ \<Rightarrow> True
    | MemoryValidationRecorded _ \<Rightarrow> True
    | MemoryRecordSuperseded _ \<Rightarrow> True
    | DreamShadowRecorded _ \<Rightarrow> True
    | EvidenceErasureRequested _ \<Rightarrow> True
    | EvidenceErasureCompleted _ \<Rightarrow> True
    | EvidenceCiphertextDeleted _ \<Rightarrow> True
    | EvidenceLegalHoldChanged _ \<Rightarrow> True
    | _ \<Rightarrow> False)"


section \<open>Envelopes\<close>

datatype event_schema_version = V1

record new_event =
  nev_idempotency_key :: string
  nev_actor :: persisted_actor
  nev_sensitivity :: sensitivity
  nev_kind :: event_kind
  nev_evidence_refs :: "evidence_reference list"
  nev_artifact_refs :: "artifact_reference list"

record event_envelope =
  env_schema_version :: event_schema_version
  env_event_id :: string
  env_scope :: repository_scope
  env_stream_id :: string
  env_sequence :: u64
  env_occurred_at :: timestamp
  env_idempotency_key :: string
  env_actor :: persisted_actor
  env_sensitivity :: sensitivity
  env_kind :: event_kind
  env_evidence_refs :: "evidence_reference list"
  env_artifact_refs :: "artifact_reference list"
  env_previous_hash :: string
  env_event_hash :: string

definition event_envelope_new ::
  "string \<Rightarrow> repository_scope \<Rightarrow> string \<Rightarrow> u64 \<Rightarrow> timestamp \<Rightarrow> new_event \<Rightarrow> string \<Rightarrow> string \<Rightarrow> event_envelope" where
  "event_envelope_new event_id scope stream_id seq at ev previous_hash event_hash =
    \<lparr>env_schema_version = V1, env_event_id = event_id, env_scope = scope, env_stream_id = stream_id, env_sequence = seq,
     env_occurred_at = at, env_idempotency_key = nev_idempotency_key ev, env_actor = nev_actor ev,
     env_sensitivity = nev_sensitivity ev, env_kind = nev_kind ev,
     env_evidence_refs = nev_evidence_refs ev, env_artifact_refs = nev_artifact_refs ev,
     env_previous_hash = previous_hash, env_event_hash = event_hash\<rparr>"

lemma distinct_EVERY_WIRE_NAME: "distinct EVERY_WIRE_NAME"
  by (simp add: EVERY_WIRE_NAME_def)

lemma wire_name_declared: "wire_name k \<in> set EVERY_WIRE_NAME"
  by (cases k) (simp_all add: EVERY_WIRE_NAME_def)

lemma length_EVERY_WIRE_NAME: "length EVERY_WIRE_NAME = 54"
  by (simp add: EVERY_WIRE_NAME_def)

lemma safe_code_parse_Inr:
  "safe_code_parse s = Inr t \<longleftrightarrow>
    t = s \<and> s \<noteq> [] \<and> length s \<le> 64 \<and> is_ascii_lowercase (hd s) \<and> list_all safe_code_char (tl s)"
  by (cases s) (auto simp: safe_code_parse_def)

text \<open>Every refusal code the verbs and the fold write is a valid safe code, so the \<open>expect\<close> calls on
  the literals cannot fail.\<close>

lemma refusal_reason_codes_valid: "list_all (\<lambda>c. safe_code_parse c = Inr c) REFUSAL_REASON_CODES"
  by (simp add: REFUSAL_REASON_CODES_def safe_code_parse_def safe_code_char_def is_ascii_lowercase_def
      is_ascii_digit_def byte_def)

end
