(* ===== verification/Projection.thy ===== *)
theory Projection
  imports Event_Model Transition "HOL-Library.Option_ord" "HOL-Library.Product_Lexorder"
begin

text \<open>
  The projection of a journal and the fold that builds it (\<open>core/events/src/projection.rs\<close>):
  \<open>execution_projection\<close> has the fields of \<open>ExecutionProjection\<close>, every arm of
  \<open>apply_projection_event\<close> is a definition of its own named \<open>fold_<kind>\<close>, and
  \<open>apply_projection_event\<close> dispatches on the event kind.

  The fold's state is the projection and the set of active legal holds, both mutable arguments of
  the source; an error carries no state because both callers discard it. \<open>fold_env\<close> holds what the
  fold calls and this development does not define: SHA-256 in hexadecimal, the safety validation of
  a persisted graph version (\<open>graphhelm_graph::validate_persisted_projection\<close>), and the addition of
  seconds to an instant with the range check of the timestamp type (\<open>chrono\<close>).
\<close>

section \<open>Scoped Evidence identities\<close>

datatype scoped_evidence_id = ScopedEvidenceId (se_scope: repository_scope) (se_evidence_id: string)

definition se_key :: "scoped_evidence_id \<Rightarrow> string \<times> string \<times> string option \<times> string" where
  "se_key s = (rs_workspace_id (se_scope s), rs_project_id (se_scope s), rs_execution_id (se_scope s),
     se_evidence_id s)"

lemma se_key_inj: "se_key a = se_key b \<Longrightarrow> a = b"
  by (cases a; cases b) (simp add: se_key_def)

instantiation scoped_evidence_id :: linorder
begin

definition less_eq_scoped_evidence_id :: "scoped_evidence_id \<Rightarrow> scoped_evidence_id \<Rightarrow> bool" where
  "less_eq_scoped_evidence_id a b = (se_key a \<le> se_key b)"

definition less_scoped_evidence_id :: "scoped_evidence_id \<Rightarrow> scoped_evidence_id \<Rightarrow> bool" where
  "less_scoped_evidence_id a b = (se_key a < se_key b)"

instance
  by standard
     (auto simp: less_eq_scoped_evidence_id_def less_scoped_evidence_id_def intro: se_key_inj)

end

function show_nat :: "nat \<Rightarrow> string" where
  "show_nat n = (if n < 10 then [char_of (48 + n)] else show_nat (n div 10) @ [char_of (48 + n mod 10)])"
  by auto
termination by (relation "measure id") auto

declare show_nat.simps [simp del]

definition parse_digits :: "string \<Rightarrow> nat" where
  "parse_digits s = fold (\<lambda>c n. n * 10 + (byte c - 48)) s 0"

definition parse_usize :: "string \<Rightarrow> nat option" where
  "parse_usize s =
    (let d = (case s of c # cs \<Rightarrow> if c = CHR ''+'' then cs else s | [] \<Rightarrow> s) in
     if d = [] \<or> \<not> list_all is_ascii_digit d then None
     else if parse_digits d < 2 ^ 64 then Some (parse_digits d) else None)"

definition push_text_field :: "string \<Rightarrow> string" where
  "push_text_field field = show_nat (length field) @ '':'' @ field"

definition scoped_evidence_serialize :: "scoped_evidence_id \<Rightarrow> string" where
  "scoped_evidence_serialize s =
    ''v1:'' @ concat (map push_text_field
      [rs_workspace_id (se_scope s), rs_project_id (se_scope s),
       (case rs_execution_id (se_scope s) of None \<Rightarrow> [] | Some e \<Rightarrow> e), se_evidence_id s])"

text \<open>\<open>str::get(..n)\<close>: a prefix in bytes, present only on a character boundary.\<close>

definition get_prefix :: "nat \<Rightarrow> string \<Rightarrow> string option" where
  "get_prefix n s =
    (if n \<le> length s \<and> (n = length s \<or> \<not> (128 \<le> byte (s ! n) \<and> byte (s ! n) \<le> 191))
     then Some (take n s) else None)"

definition read_field :: "string \<Rightarrow> (string \<times> string) option" where
  "read_field r =
    (let tok = takeWhile (\<lambda>c. c \<noteq> CHR '':'') r in
     if tok = r then None
     else case parse_usize tok of None \<Rightarrow> None
     | Some n \<Rightarrow>
         if tok \<noteq> show_nat n then None
         else let r' = drop (length tok + 1) r in
           (case get_prefix n r' of None \<Rightarrow> None | Some f \<Rightarrow> Some (f, drop n r')))"

definition read_fields4 :: "string \<Rightarrow> ((string \<times> string \<times> string \<times> string) \<times> string) option" where
  "read_fields4 r =
    Option.bind (read_field r) (\<lambda>(a, r). Option.bind (read_field r) (\<lambda>(b, r).
    Option.bind (read_field r) (\<lambda>(c, r). Option.bind (read_field r) (\<lambda>(d, r).
      Some ((a, b, c, d), r)))))"

definition scoped_evidence_deserialize :: "string \<Rightarrow> scoped_evidence_id option" where
  "scoped_evidence_deserialize wire =
    Option.bind (strip_prefix ''v1:'' wire) (\<lambda>r.
    Option.bind (read_fields4 r) (\<lambda>((w, p, x, e), rest).
      if rest \<noteq> [] then None
      else if is_opaque_id w \<and> is_opaque_id p \<and> (x = [] \<or> is_opaque_id x) \<and> is_opaque_id e then
        Some (ScopedEvidenceId
          \<lparr>rs_workspace_id = w, rs_project_id = p,
           rs_execution_id = (if x = [] then None else Some x)\<rparr> e)
      else None))"

definition scoped_evidence_key :: "repository_scope \<Rightarrow> string \<Rightarrow> scoped_evidence_id" where
  "scoped_evidence_key scope eid = ScopedEvidenceId scope eid"


section \<open>The projection\<close>

definition GENESIS_HASH :: string where
  "GENESIS_HASH = ''sha256:35c8ab0717bef1684ad07efcf3bedd4648c778a2c944cbd2c7e6a4802e2237b3''"

definition MAX_PROJECTION_NODES :: nat where "MAX_PROJECTION_NODES = 10000"

datatype evidence_availability = Available | ErasurePending | Erased | Deleted

datatype customs_stage = Parked | Claimed | StageCleared | Rejected | Refused | Overdue | DeadLettered

fun project_customs_stage :: "wire_customs_stage \<Rightarrow> customs_stage" where
  "project_customs_stage WireParked = Parked"
| "project_customs_stage WireClaimed = Claimed"
| "project_customs_stage WireDeadLettered = DeadLettered"

record customs_scan =
  csn_at_sequence :: u64
  csn_stage :: customs_stage
  csn_claim_seq :: "u64 option"
  csn_reason_code :: "string option"
  csn_deadline :: "timestamp option"

record open_wait =
  ow_at_sequence :: u64
  ow_deadline :: "timestamp option"

datatype clearance_outcome = Cleared | ClearanceRefused (refusal_code: string)

record open_claim =
  oc_node :: string
  oc_completes_wait_seq :: u64
  oc_stage_entered_at :: u64
  oc_deadline :: "timestamp option"
  oc_evidence_digest :: string

record memory_admission_refusal_receipt =
  rr_sequence :: u64
  rr_code :: memory_admission_refusal_code
  rr_local :: memory_admission_local
  rr_bytes :: u64

record memory_record_projection =
  mr_publication :: "memory_publication_state option"
  mr_last_transition_sequence :: "u64 option"
  mr_semantic :: "memory_semantic_state option"
  mr_supersedes :: "string option"
  mr_evidence_refs :: "evidence_reference list"

definition default_memory_record :: memory_record_projection where
  "default_memory_record = \<lparr>mr_publication = None, mr_last_transition_sequence = None,
     mr_semantic = None, mr_supersedes = None, mr_evidence_refs = []\<rparr>"

record subagent_record =
  sr_at_sequence :: u64
  sr_record :: subagent_reused

record delegation_record =
  dr_at_sequence :: u64
  dr_chosen :: delegation_chosen

record agent_presence =
  ap_at_sequence :: u64
  ap_declared :: agent_presence_declared

record drive_failure_record =
  dfr_at_sequence :: u64
  dfr_site :: drive_failure_site
  dfr_cause :: string

record wake_mis_burn =
  wmb_at_sequence :: u64
  wmb_captured_arming :: u64
  wmb_live_arming :: u64

record wake_consumption_receipt =
  wcr_reason :: wake_consume_reason
  wcr_sequence :: u64

record wake_lease_state =
  wls_cursor :: u64
  wls_rendezvous_id :: string
  wls_armed_at_sequence :: u64
  wls_matures_at :: "timestamp option"

record execution_projection =
  p_stream_id :: "string option"
  p_current_graph :: "persisted_graph_version option"
  p_authoring_snapshots :: "(u64, evidence_reference) omap"
  p_declared_form :: "execution_form_declared option"
  p_form_amendments :: "(u64 \<times> execution_form_amended) list"
  p_memory_admission_refusal_count :: u64
  p_last_memory_admission_refusal :: "memory_admission_refusal_receipt option"
  p_memory_records :: "(string, memory_record_projection) omap"
  p_dream_runs :: "(string, dream_shadow_recorded) omap"
  p_proposed_drafts :: "string list"
  p_proposed_draft_sha256 :: "(string, string) omap"
  p_rejected_drafts :: "string list"
  p_applied_drafts :: "string list"
  p_waivers :: "policy_waiver list"
  p_node_states :: "(string, node_state) omap"
  p_node_assignments :: "(string, persisted_actor) omap"
  p_ghost_drafts :: "(string, string) omap"
  p_open_waits :: "(string, open_wait) omap"
  p_open_claims :: "(u64, open_claim) omap"
  p_exception_marked :: "u64 oset"
  p_customs_scans :: "(string, customs_scan list) omap"
  p_clearance_registry :: "(string, string) omap"
  p_clearances :: "(u64, clearance_outcome) omap"
  p_simulation_status :: "simulation_status option"
  p_evidence_availability :: "(scoped_evidence_id, evidence_availability) omap"
  p_legal_holds :: "scoped_evidence_id oset"
  p_execution_id :: "string option"
  p_mode :: "execution_mode option"
  p_node_attempts :: "(string, u32) omap"
  p_last_outcome :: "(string, node_outcome) omap"
  p_identical_outcomes :: "(string, u32) omap"
  p_signals_recorded :: u32
  p_accepted_mutations :: u32
  p_gate_certifications :: "(string, string) omap"
  p_wake_leases :: "(string, wake_lease_state) omap"
  p_wake_last_consumed :: "(string, wake_consumption_receipt) omap"
  p_wake_mis_burns :: "(string, wake_mis_burn) omap"
  p_drive_failure :: "drive_failure_record option"
  p_agent_presence :: "(string, agent_presence) omap"
  p_red_checks :: "(string, u32) omap"
  p_delegation_choices :: "(string, delegation_record) omap"
  p_subagents :: "(string, subagent_record) omap"
  p_started_graph_version :: "u64 option"

definition default_projection :: execution_projection where
  "default_projection =
    \<lparr>p_stream_id = None, p_current_graph = None, p_authoring_snapshots = om_empty,
     p_declared_form = None, p_form_amendments = [], p_memory_admission_refusal_count = 0,
     p_last_memory_admission_refusal = None, p_memory_records = om_empty, p_dream_runs = om_empty,
     p_proposed_drafts = [], p_proposed_draft_sha256 = om_empty, p_rejected_drafts = [],
     p_applied_drafts = [], p_waivers = [], p_node_states = om_empty,
     p_node_assignments = om_empty, p_ghost_drafts = om_empty, p_open_waits = om_empty,
     p_open_claims = om_empty, p_exception_marked = om_empty, p_customs_scans = om_empty,
     p_clearance_registry = om_empty, p_clearances = om_empty, p_simulation_status = None,
     p_evidence_availability = om_empty, p_legal_holds = om_empty, p_execution_id = None,
     p_mode = None, p_node_attempts = om_empty, p_last_outcome = om_empty,
     p_identical_outcomes = om_empty, p_signals_recorded = 0, p_accepted_mutations = 0,
     p_gate_certifications = om_empty, p_wake_leases = om_empty, p_wake_last_consumed = om_empty,
     p_wake_mis_burns = om_empty, p_drive_failure = None, p_agent_presence = om_empty,
     p_red_checks = om_empty, p_delegation_choices = om_empty, p_subagents = om_empty,
     p_started_graph_version = None\<rparr>"

definition amendment_head :: "execution_projection \<Rightarrow> u64" where
  "amendment_head p = (if p_form_amendments p = [] then 0 else fst (last (p_form_amendments p)))"

definition as_of :: "u64 \<Rightarrow> execution_projection \<Rightarrow> execution_projection" where
  "as_of n p = p\<lparr>p_form_amendments := filter (\<lambda>(at, _). at \<le> n) (p_form_amendments p)\<rparr>"

definition apply_amendment :: "execution_form_amended \<Rightarrow> execution_projection \<Rightarrow> execution_projection" where
  "apply_amendment am p =
    p\<lparr>p_form_amendments := p_form_amendments p @ [(saturating_add (amendment_head p) 1, am)]\<rparr>"

definition identical_outcomes_for :: "execution_projection \<Rightarrow> string \<Rightarrow> node_outcome \<Rightarrow> u32" where
  "identical_outcomes_for p n out =
    (if om_get (p_last_outcome p) n \<noteq> Some out then 0
     else case om_get (p_identical_outcomes p) n of None \<Rightarrow> 0 | Some r \<Rightarrow> r)"

end
