(* ===== verification/Fold.thy ===== *)
theory Fold
  imports Projection
begin

text \<open>
  The event fold (\<open>apply_projection_event\<close> of \<open>core/events/src/projection.rs\<close>): one definition per
  arm, in the order of the source, each with the arm's guards, early returns and updates, and the
  dispatcher over all 54 kinds.
\<close>

named_theorems fold_defs \<open>the arms of the fold\<close>
named_theorems fold_frames \<open>which fields each arm may change\<close>

section \<open>Environment and helpers\<close>

datatype replay_error = LimitExceeded | Corrupt | BudgetExceeded (walked: u64) (limit_millis: int)

fun replay_error_code :: "replay_error \<Rightarrow> string" where
  "replay_error_code LimitExceeded = ''GHE006_LIMIT_EXCEEDED''"
| "replay_error_code Corrupt = ''GHE005_INTEGRITY_FAILURE''"
| "replay_error_code (BudgetExceeded w l) = ''GHE013_READ_BUDGET_EXCEEDED''"

record fold_env =
  fe_sha_hex :: "string \<Rightarrow> string"
  fe_validate_persisted_projection :: "persisted_graph_version \<Rightarrow> bool"
  fe_add_seconds :: "timestamp \<Rightarrow> int \<Rightarrow> timestamp option"

type_synonym holds = "(scoped_evidence_id \<times> string) oset"

text \<open>\<open>i64::try_from(seconds).ok()?\<close>, then the checked addition of the duration and the conversion
  back to a persisted timestamp.\<close>

definition horizon :: "fold_env \<Rightarrow> timestamp \<Rightarrow> u64 \<Rightarrow> timestamp option" where
  "horizon env at s = (if unat s < 2 ^ 63 then fe_add_seconds env at (uint s) else None)"

definition stage_deadline ::
  "fold_env \<Rightarrow> execution_projection \<Rightarrow> string \<Rightarrow> timestamp \<Rightarrow> (persisted_customs \<Rightarrow> u64)
   \<Rightarrow> (customs_budgets \<Rightarrow> u64) \<Rightarrow> timestamp option" where
  "stage_deadline env p node entered_at budget declared =
    (if \<not> is_opaque_id node then None
     else Option.bind
       (case p_current_graph p of
          Some graph \<Rightarrow>
            Option.bind (om_get (pt_nodes (pgv_topology graph)) node)
              (\<lambda>n. map_option budget (pn_customs n))
        | None \<Rightarrow>
            Option.bind (p_declared_form p)
              (\<lambda>form. map_option declared (om_get (efd_node_customs_budgets form) node)))
       (horizon env entered_at))"

definition scans_of :: "execution_projection \<Rightarrow> string \<Rightarrow> customs_scan list" where
  "scans_of p node = (case om_get (p_customs_scans p) node of None \<Rightarrow> [] | Some h \<Rightarrow> h)"

definition record_scan ::
  "string \<Rightarrow> customs_scan \<Rightarrow> execution_projection \<Rightarrow> replay_error + execution_projection" where
  "record_scan node scan p =
    (if om_len (p_customs_scans p) \<ge> MAX_PROJECTION_NODES \<and> \<not> om_contains (p_customs_scans p) node
     then Inl LimitExceeded
     else if length (scans_of p node) \<ge> MAX_PROJECTION_NODES then Inl LimitExceeded
     else Inr (p\<lparr>p_customs_scans := om_insert node (scans_of p node @ [scan]) (p_customs_scans p)\<rparr>))"

definition claim_evidence_bytes :: "claim_evidence list \<Rightarrow> string" where
  "claim_evidence_bytes evidence =
    concat (map (\<lambda>item.
      (be_bytes 8 (length (ce_kind item)) @ ce_kind item) @
      (be_bytes 8 (length (ce_content_hash item)) @ ce_content_hash item) @
      (be_bytes 8 (length (be64 (ce_size item))) @ be64 (ce_size item))) evidence)"

text \<open>\<open>wire_sha256\<close>; the \<open>expect\<close> on its parse cannot fail for a hexadecimal SHA-256.\<close>

definition claim_evidence_digest :: "fold_env \<Rightarrow> claim_evidence list \<Rightarrow> string" where
  "claim_evidence_digest env evidence = ''sha256:'' @ fe_sha_hex env (claim_evidence_bytes evidence)"

definition full_for :: "('k::linorder, 'v) omap \<Rightarrow> 'k \<Rightarrow> bool" where
  "full_for m k = (om_len m \<ge> MAX_PROJECTION_NODES \<and> \<not> om_contains m k)"

definition in_execution :: "execution_projection \<Rightarrow> string \<Rightarrow> bool" where
  "in_execution p eid = (p_execution_id p = Some eid)"


section \<open>Arms: memory and dreams\<close>

definition fold_memory_admission_refused ::
  "event_envelope \<Rightarrow> memory_admission_refused \<Rightarrow> execution_projection \<Rightarrow> replay_error + execution_projection" where
  [fold_defs]: "fold_memory_admission_refused ev pl p =
    bindE (ok_or (checked_add (p_memory_admission_refusal_count p) 1) LimitExceeded) (\<lambda>n.
      Inr (p\<lparr>p_memory_admission_refusal_count := n,
             p_last_memory_admission_refusal := Some
               \<lparr>rr_sequence = env_sequence ev, rr_code = mar_code pl, rr_local = mar_local pl,
                rr_bytes = mar_bytes pl\<rparr>\<rparr>))"

definition memory_record_of :: "execution_projection \<Rightarrow> string \<Rightarrow> memory_record_projection" where
  "memory_record_of p rid =
    (case om_get (p_memory_records p) rid of None \<Rightarrow> default_memory_record | Some r \<Rightarrow> r)"

definition fold_memory_publication_transitioned ::
  "event_envelope \<Rightarrow> memory_publication_transitioned \<Rightarrow> execution_projection
   \<Rightarrow> replay_error + execution_projection" where
  [fold_defs]: "fold_memory_publication_transitioned ev pl p =
    (let rid = mpt_record_id pl in
     if full_for (p_memory_records p) rid then Inl LimitExceeded
     else Inr (p\<lparr>p_memory_records := om_insert rid
       ((memory_record_of p rid)
          \<lparr>mr_publication := Some (mpt_resulting_state pl),
           mr_last_transition_sequence := Some (env_sequence ev),
           mr_evidence_refs := env_evidence_refs ev\<rparr>) (p_memory_records p)\<rparr>))"

definition fold_memory_validation_recorded ::
  "event_envelope \<Rightarrow> memory_validation_recorded \<Rightarrow> execution_projection
   \<Rightarrow> replay_error + execution_projection" where
  [fold_defs]: "fold_memory_validation_recorded ev pl p =
    (let rid = mvr_record_id pl; r = memory_record_of p rid in
     if full_for (p_memory_records p) rid then Inl LimitExceeded
     else Inr (p\<lparr>p_memory_records := om_insert rid
       (if mr_semantic r \<in> {None, Some Candidate, Some Validated}
        then r\<lparr>mr_semantic := Some Validated\<rparr> else r) (p_memory_records p)\<rparr>))"

definition fold_memory_record_superseded ::
  "event_envelope \<Rightarrow> memory_record_superseded \<Rightarrow> execution_projection
   \<Rightarrow> replay_error + execution_projection" where
  [fold_defs]: "fold_memory_record_superseded ev pl p =
    (let pre = mrs_predecessor_id pl; suc = mrs_successor_id pl;
         new_keys = (if om_contains (p_memory_records p) pre then 0 else 1)
                  + (if om_contains (p_memory_records p) suc then 0 else 1) in
     if om_len (p_memory_records p) + new_keys > MAX_PROJECTION_NODES then Inl LimitExceeded
     else
       let p1 = p\<lparr>p_memory_records := om_insert pre
             ((memory_record_of p pre)\<lparr>mr_semantic := Some (mrs_predecessor_new_semantic_state pl)\<rparr>)
             (p_memory_records p)\<rparr>
       in Inr (p1\<lparr>p_memory_records := om_insert suc
             ((memory_record_of p1 suc)\<lparr>mr_supersedes := Some pre\<rparr>) (p_memory_records p1)\<rparr>))"

definition fold_dream_shadow_recorded ::
  "event_envelope \<Rightarrow> dream_shadow_recorded \<Rightarrow> execution_projection \<Rightarrow> replay_error + execution_projection" where
  [fold_defs]: "fold_dream_shadow_recorded ev pl p =
    (if full_for (p_dream_runs p) (dsr_run_id pl) then Inl LimitExceeded
     else Inr (p\<lparr>p_dream_runs := om_insert (dsr_run_id pl) pl (p_dream_runs p)\<rparr>))"


section \<open>Arms: form, graph and drafts\<close>

definition fold_execution_form_declared ::
  "event_envelope \<Rightarrow> execution_form_declared \<Rightarrow> execution_projection \<Rightarrow> replay_error + execution_projection" where
  [fold_defs]: "fold_execution_form_declared ev pl p =
    (if p_declared_form p \<noteq> None then Inl Corrupt else Inr (p\<lparr>p_declared_form := Some pl\<rparr>))"

definition fold_execution_form_amended ::
  "event_envelope \<Rightarrow> execution_form_amended \<Rightarrow> execution_projection \<Rightarrow> replay_error + execution_projection" where
  [fold_defs]: "fold_execution_form_amended ev pl p =
    Inr (p\<lparr>p_form_amendments := p_form_amendments p @ [(env_sequence ev, pl)]\<rparr>)"

definition follows_active :: "persisted_graph_version option \<Rightarrow> persisted_graph_version \<Rightarrow> bool" where
  "follows_active active v =
    (case active of
       Some a \<Rightarrow>
         \<not> (checked_add (pgv_number a) 1 \<noteq> Some (pgv_number v)
            \<or> (case pgv_predecessor v of None \<Rightarrow> True
               | Some prior \<Rightarrow> pgr_number prior \<noteq> pgv_number a
                   \<or> pgr_semantic_hash prior \<noteq> pgv_semantic_hash a))
     | None \<Rightarrow> \<not> (pgv_number v \<noteq> 1 \<or> pgv_predecessor v \<noteq> None))"

definition fold_graph_version_published ::
  "fold_env \<Rightarrow> event_envelope \<Rightarrow> graph_version_published \<Rightarrow> execution_projection
   \<Rightarrow> replay_error + execution_projection" where
  [fold_defs]: "fold_graph_version_published env ev pl p =
    (let v = gvp_version pl in
     if \<not> fe_validate_persisted_projection env v then Inl Corrupt
     else if env_actor ev \<noteq> pgv_created_by v
        \<or> rs_execution_id (env_scope ev) \<noteq> Some (pt_execution_id (pgv_topology v))
        \<or> isl (validate_publication_evidence_ids (fe_sha_hex env) (env_scope ev) v)
        \<or> isl (validate_evidence_bijection (pgv_content_slots v) (env_evidence_refs ev))
     then Inl Corrupt
     else if \<not> follows_active (p_current_graph p) v then Inl Corrupt
     else Inr (p\<lparr>p_current_graph := Some v,
                 p_evidence_availability := fold (\<lambda>slot m.
                     let k = scoped_evidence_key (env_scope ev) (cs_evidence_id slot) in
                     if om_contains m k then m else om_insert k Available m)
                   (pgv_content_slots v) (p_evidence_availability p)\<rparr>))"

definition fold_graph_authoring_snapshot_stored ::
  "event_envelope \<Rightarrow> graph_authoring_snapshot_stored \<Rightarrow> execution_projection
   \<Rightarrow> replay_error + execution_projection" where
  [fold_defs]: "fold_graph_authoring_snapshot_stored ev pl p =
    (case env_evidence_refs ev of
       [r] \<Rightarrow>
         if rs_execution_id (env_scope ev) \<noteq> Some (gas_execution_id pl)
            \<or> (case p_current_graph p of None \<Rightarrow> True
               | Some g \<Rightarrow> pgv_number g \<noteq> gas_graph_version pl \<or> pgv_semantic_hash g \<noteq> gas_graph_hash pl)
            \<or> \<not> starts_with (er_evidence_id r)
                  (''graph-authoring-snapshot-'' @ show_nat (unat (gas_graph_version pl)) @ ''-'')
         then Inl Corrupt
         else if om_contains (p_authoring_snapshots p) (gas_graph_version pl) then Inl Corrupt
         else Inr (p\<lparr>p_authoring_snapshots :=
                      om_insert (gas_graph_version pl) r (p_authoring_snapshots p)\<rparr>)
     | _ \<Rightarrow> Inl Corrupt)"

definition fold_draft_proposed ::
  "event_envelope \<Rightarrow> draft_proposed \<Rightarrow> execution_projection \<Rightarrow> replay_error + execution_projection" where
  [fold_defs]: "fold_draft_proposed ev pl p =
    (let p1 = p\<lparr>p_proposed_drafts := p_proposed_drafts p @ [dpr_draft_id pl]\<rparr> in
     case dpr_proposal_sha256 pl of None \<Rightarrow> Inr p1
     | Some digest \<Rightarrow>
         if om_contains (p_proposed_draft_sha256 p) (dpr_draft_id pl) then Inl Corrupt
         else Inr (p1\<lparr>p_proposed_draft_sha256 :=
                       om_insert (dpr_draft_id pl) digest (p_proposed_draft_sha256 p)\<rparr>))"

definition fold_draft_rejected ::
  "event_envelope \<Rightarrow> draft_rejected \<Rightarrow> execution_projection \<Rightarrow> replay_error + execution_projection" where
  [fold_defs]: "fold_draft_rejected ev pl p =
    Inr (p\<lparr>p_rejected_drafts := p_rejected_drafts p @ [drj_draft_id pl]\<rparr>)"

definition fold_draft_applied ::
  "event_envelope \<Rightarrow> draft_applied \<Rightarrow> execution_projection \<Rightarrow> replay_error + execution_projection" where
  [fold_defs]: "fold_draft_applied ev pl p =
    Inr (p\<lparr>p_applied_drafts := p_applied_drafts p @ [dap_draft_id pl]\<rparr>)"

definition fold_policy_waiver_created ::
  "event_envelope \<Rightarrow> policy_waiver_created \<Rightarrow> execution_projection \<Rightarrow> replay_error + execution_projection" where
  [fold_defs]: "fold_policy_waiver_created ev pl p = Inr (p\<lparr>p_waivers := p_waivers p @ [pwc_waiver pl]\<rparr>)"


section \<open>Arms: simulation and execution\<close>

definition fold_simulation_started ::
  "event_envelope \<Rightarrow> simulation_started \<Rightarrow> execution_projection \<Rightarrow> replay_error + execution_projection" where
  [fold_defs]: "fold_simulation_started ev pl p = Inr (p\<lparr>p_simulation_status := Some SimRunning\<rparr>)"

definition fold_node_state_changed ::
  "event_envelope \<Rightarrow> node_state_changed \<Rightarrow> execution_projection \<Rightarrow> replay_error + execution_projection" where
  [fold_defs]: "fold_node_state_changed ev pl p =
    Inr (p\<lparr>p_node_states := om_insert (nsc_node_id pl) (nsc_next_state pl) (p_node_states p)\<rparr>)"

definition fold_execution_started ::
  "event_envelope \<Rightarrow> execution_started \<Rightarrow> execution_projection \<Rightarrow> replay_error + execution_projection" where
  [fold_defs]: "fold_execution_started ev pl p =
    (if p_execution_id p \<noteq> None then Inl Corrupt
     else Inr (p\<lparr>p_execution_id := Some (est_execution_id pl), p_mode := Some (est_mode pl),
                 p_started_graph_version := Some (est_graph_version pl)\<rparr>))"

definition fold_execution_mode_changed ::
  "event_envelope \<Rightarrow> execution_mode_changed \<Rightarrow> execution_projection \<Rightarrow> replay_error + execution_projection" where
  [fold_defs]: "fold_execution_mode_changed ev pl p =
    (if \<not> in_execution p (emc_execution_id pl) \<or> p_mode p \<noteq> emc_previous_mode pl then Inl Corrupt
     else Inr (p\<lparr>p_mode := Some (emc_mode pl)\<rparr>))"

text \<open>The arm of \<open>NodeOutcomeRecorded\<close> in its four steps: the attempt counter, the run of identical
  outcomes, the open wait, and the state.\<close>

definition count_attempt ::
  "node_outcome_recorded \<Rightarrow> execution_projection \<Rightarrow> replay_error + execution_projection" where
  "count_attempt pl p =
    (let node = nor_node_id pl;
         attempts = (case om_get (p_node_attempts p) node of None \<Rightarrow> 0 | Some a \<Rightarrow> a) in
     if nor_outcome pl = O_Started \<and> nor_next_state pl = S_Running then
       bindE (ok_or (checked_add attempts 1) LimitExceeded) (\<lambda>a.
         Inr (p\<lparr>p_node_attempts := om_insert node a (p_node_attempts p)\<rparr>))
     else Inr (p\<lparr>p_node_attempts := om_insert node attempts (p_node_attempts p)\<rparr>))"

definition count_run ::
  "node_outcome_recorded \<Rightarrow> execution_projection \<Rightarrow> replay_error + execution_projection" where
  "count_run pl p =
    (let node = nor_node_id pl in
     if nor_outcome pl \<noteq> O_Started then
       bindE
         (if om_get (p_last_outcome p) node = Some (nor_outcome pl) then
            ok_or (checked_add
              (case om_get (p_identical_outcomes p) node of None \<Rightarrow> 0 | Some r \<Rightarrow> r) 1) LimitExceeded
          else Inr 1)
         (\<lambda>run. Inr (p\<lparr>p_last_outcome := om_insert node (nor_outcome pl) (p_last_outcome p),
                       p_identical_outcomes := om_insert node run (p_identical_outcomes p)\<rparr>))
     else Inr p)"

definition move_wait ::
  "fold_env \<Rightarrow> event_envelope \<Rightarrow> node_outcome_recorded \<Rightarrow> execution_projection
   \<Rightarrow> replay_error + execution_projection" where
  "move_wait env ev pl p =
    (let node = nor_node_id pl in
     if nor_next_state pl = S_WaitingInput then
       if full_for (p_open_waits p) node then Inl LimitExceeded
       else
         let deadline = stage_deadline env p node (env_occurred_at ev) pcu_wait_within_seconds
                          cb_wait_within_seconds in
         record_scan node
           \<lparr>csn_at_sequence = env_sequence ev, csn_stage = Parked, csn_claim_seq = None,
            csn_reason_code = None, csn_deadline = deadline\<rparr>
           (p\<lparr>p_open_waits := om_insert node
                \<lparr>ow_at_sequence = env_sequence ev, ow_deadline = deadline\<rparr> (p_open_waits p)\<rparr>)
     else Inr (p\<lparr>p_open_waits := om_remove node (p_open_waits p)\<rparr>))"

definition fold_node_outcome_recorded ::
  "fold_env \<Rightarrow> event_envelope \<Rightarrow> node_outcome_recorded \<Rightarrow> execution_projection
   \<Rightarrow> replay_error + execution_projection" where
  [fold_defs]: "fold_node_outcome_recorded env ev pl p =
    (if \<not> in_execution p (nor_execution_id pl) then Inl Corrupt
     else if full_for (p_node_attempts p) (nor_node_id pl) then Inl LimitExceeded
     else
       bindE (count_attempt pl p) (\<lambda>p.
       bindE (count_run pl p) (\<lambda>p.
       bindE (move_wait env ev pl p) (\<lambda>p.
         Inr (p\<lparr>p_node_states := om_insert (nor_node_id pl) (nor_next_state pl) (p_node_states p)\<rparr>)))))"


section \<open>Arms: customs\<close>

definition fold_completion_claimed ::
  "fold_env \<Rightarrow> event_envelope \<Rightarrow> completion_claimed \<Rightarrow> execution_projection
   \<Rightarrow> replay_error + execution_projection" where
  [fold_defs]: "fold_completion_claimed env ev pl p =
    (if \<not> in_execution p (ccl_execution_id pl) then Inl Corrupt
     else
       let node = ccl_node pl;
           answers_open_wait =
             (case om_get (p_open_waits p) node of None \<Rightarrow> False
              | Some w \<Rightarrow> ow_at_sequence w = ccl_completes_wait_seq pl) in
       if om_len (p_open_claims p) \<ge> MAX_PROJECTION_NODES then Inl LimitExceeded
       else if answers_open_wait then
         let deadline = stage_deadline env p node (env_occurred_at ev) pcu_clearance_within_seconds
                          cb_clearance_within_seconds in
         record_scan node
           \<lparr>csn_at_sequence = env_sequence ev, csn_stage = Claimed,
            csn_claim_seq = Some (env_sequence ev), csn_reason_code = None, csn_deadline = deadline\<rparr>
           (p\<lparr>p_open_claims := om_insert (env_sequence ev)
                \<lparr>oc_node = node, oc_completes_wait_seq = ccl_completes_wait_seq pl,
                 oc_stage_entered_at = env_sequence ev, oc_deadline = deadline,
                 oc_evidence_digest = claim_evidence_digest env (ccl_evidence pl)\<rparr> (p_open_claims p)\<rparr>)
       else Inr p)"

definition clearance_verdict ::
  "execution_projection \<Rightarrow> open_claim \<Rightarrow> clearance_verifier \<Rightarrow> clearance_outcome" where
  "clearance_verdict p claim v =
    (case v of
       MachineReplay mh \<Rightarrow>
         if mh = oc_evidence_digest claim then Cleared else ClearanceRefused ''hash_mismatch''
     | Countersign ident fp \<Rightarrow>
         if om_get (p_clearance_registry p) ident = Some fp then Cleared
         else ClearanceRefused ''unknown_identity'')"

definition fold_completion_cleared ::
  "event_envelope \<Rightarrow> completion_cleared \<Rightarrow> execution_projection \<Rightarrow> replay_error + execution_projection" where
  [fold_defs]: "fold_completion_cleared ev pl p =
    (if \<not> in_execution p (ccd_execution_id pl) then Inl Corrupt
     else case om_get (p_open_claims p) (ccd_claim_seq pl) of None \<Rightarrow> Inl Corrupt
     | Some claim \<Rightarrow>
         let out = clearance_verdict p claim (ccd_verifier pl);
             p1 = p\<lparr>p_open_claims := om_remove (ccd_claim_seq pl) (p_open_claims p),
                    p_clearances := om_insert (ccd_claim_seq pl) out (p_clearances p)\<rparr>;
             scan = (\<lambda>stage. \<lparr>csn_at_sequence = env_sequence ev, csn_stage = stage,
                              csn_claim_seq = Some (ccd_claim_seq pl), csn_reason_code = None,
                              csn_deadline = None\<rparr>) in
         if out \<noteq> Cleared then record_scan (oc_node claim) (scan Rejected) p1
         else
           bindE (record_scan (oc_node claim) (scan StageCleared)
                   (p1\<lparr>p_open_waits := om_remove (oc_node claim) (p_open_waits p1)\<rparr>)) (\<lambda>p2.
             Inr (p2\<lparr>p_node_states := om_insert (oc_node claim) S_Succeeded (p_node_states p2)\<rparr>)))"

definition fold_completion_rejected ::
  "event_envelope \<Rightarrow> completion_rejected \<Rightarrow> execution_projection \<Rightarrow> replay_error + execution_projection" where
  [fold_defs]: "fold_completion_rejected ev pl p =
    (if \<not> in_execution p (crj_execution_id pl) then Inl Corrupt
     else case om_get (p_open_claims p) (crj_claim_seq pl) of None \<Rightarrow> Inl Corrupt
     | Some claim \<Rightarrow>
         record_scan (oc_node claim)
           \<lparr>csn_at_sequence = env_sequence ev, csn_stage = Rejected,
            csn_claim_seq = Some (crj_claim_seq pl), csn_reason_code = None, csn_deadline = None\<rparr>
           (p\<lparr>p_open_claims := om_remove (crj_claim_seq pl) (p_open_claims p)\<rparr>))"

definition fold_completion_refused ::
  "event_envelope \<Rightarrow> completion_refused \<Rightarrow> execution_projection \<Rightarrow> replay_error + execution_projection" where
  [fold_defs]: "fold_completion_refused ev pl p =
    (if \<not> in_execution p (crf_execution_id pl) then Inl Corrupt
     else record_scan (crf_node pl)
       \<lparr>csn_at_sequence = env_sequence ev, csn_stage = Refused, csn_claim_seq = None,
        csn_reason_code = Some (crf_reason_code pl), csn_deadline = None\<rparr> p)"

definition fold_clearance_identity_registered ::
  "event_envelope \<Rightarrow> clearance_identity_registered \<Rightarrow> execution_projection
   \<Rightarrow> replay_error + execution_projection" where
  [fold_defs]: "fold_clearance_identity_registered ev pl p =
    (if \<not> in_execution p (cir_execution_id pl) then Inl Corrupt
     else if full_for (p_clearance_registry p) (cir_identity pl) then Inl LimitExceeded
     else Inr (p\<lparr>p_clearance_registry :=
                  om_insert (cir_identity pl) (cir_key_fingerprint pl) (p_clearance_registry p)\<rparr>))"

definition fold_clearance_identity_revoked ::
  "event_envelope \<Rightarrow> clearance_identity_revoked \<Rightarrow> execution_projection
   \<Rightarrow> replay_error + execution_projection" where
  [fold_defs]: "fold_clearance_identity_revoked ev pl p =
    (if \<not> in_execution p (civ_execution_id pl) then Inl Corrupt
     else Inr (p\<lparr>p_clearance_registry := om_remove (civ_identity pl) (p_clearance_registry p)\<rparr>))"

definition fold_execution_completed ::
  "event_envelope \<Rightarrow> execution_completed \<Rightarrow> execution_projection \<Rightarrow> replay_error + execution_projection" where
  [fold_defs]: "fold_execution_completed ev pl p =
    (if \<not> in_execution p (ecm_execution_id pl) then Inl Corrupt
     else Inr (p\<lparr>p_simulation_status := Some (ecm_status pl)\<rparr>))"

definition fold_signal_recorded ::
  "event_envelope \<Rightarrow> signal_recorded \<Rightarrow> execution_projection \<Rightarrow> replay_error + execution_projection" where
  [fold_defs]: "fold_signal_recorded ev pl p =
    (if \<not> in_execution p (sgr_execution_id pl) then Inl Corrupt
     else bindE (ok_or (checked_add (p_signals_recorded p) 1) LimitExceeded) (\<lambda>n.
       Inr (p\<lparr>p_signals_recorded := n\<rparr>)))"


section \<open>Arms: mutation, lifecycle and retention\<close>

definition fold_ghost_node_proposed ::
  "event_envelope \<Rightarrow> ghost_node_proposed \<Rightarrow> execution_projection \<Rightarrow> replay_error + execution_projection" where
  [fold_defs]: "fold_ghost_node_proposed ev pl p =
    (if \<not> in_execution p (gnp_execution_id pl) then Inl Corrupt
     else if om_contains (p_node_states p) (gnp_node_id pl) then Inl Corrupt
     else if om_len (p_node_states p) \<ge> MAX_PROJECTION_NODES then Inl LimitExceeded
     else Inr (p\<lparr>p_node_states := om_insert (gnp_node_id pl) S_Ghost (p_node_states p),
                 p_ghost_drafts := om_insert (gnp_node_id pl) (gnp_draft_id pl) (p_ghost_drafts p)\<rparr>))"

definition fold_node_assigned ::
  "event_envelope \<Rightarrow> node_assigned \<Rightarrow> execution_projection \<Rightarrow> replay_error + execution_projection" where
  [fold_defs]: "fold_node_assigned ev pl p =
    (if pa_actor_type (nas_assigned_actor pl) \<noteq> AgentActor
        \<or> \<not> in_execution p (nas_execution_id pl)
        \<or> om_get (p_node_states p) (nas_node_id pl) \<noteq> Some S_Ghost
        \<or> om_contains (p_node_assignments p) (nas_node_id pl)
        \<or> Option.bind (om_get (p_ghost_drafts p) (nas_node_id pl)) (om_get (p_proposed_draft_sha256 p))
            \<noteq> Some (nas_proposal_sha256 pl)
     then Inl Corrupt
     else Inr (p\<lparr>p_node_assignments :=
                  om_insert (nas_node_id pl) (nas_assigned_actor pl) (p_node_assignments p)\<rparr>))"

definition fold_mutation_accepted ::
  "event_envelope \<Rightarrow> mutation_accepted \<Rightarrow> execution_projection \<Rightarrow> replay_error + execution_projection" where
  [fold_defs]: "fold_mutation_accepted ev pl p =
    (if \<not> in_execution p (mac_execution_id pl) \<or> p_mode p \<noteq> Some (mac_mode pl) then Inl Corrupt
     else bindE (ok_or (checked_add (p_accepted_mutations p) 1) LimitExceeded) (\<lambda>n.
       Inr (p\<lparr>p_accepted_mutations := n\<rparr>)))"

definition fold_execution_paused ::
  "event_envelope \<Rightarrow> execution_paused \<Rightarrow> execution_projection \<Rightarrow> replay_error + execution_projection" where
  [fold_defs]: "fold_execution_paused ev pl p =
    (if \<not> in_execution p (eps_execution_id pl) \<or> p_simulation_status p \<notin> {None, Some SimRunning}
     then Inl Corrupt
     else Inr (p\<lparr>p_simulation_status := Some SimPaused\<rparr>))"

definition fold_execution_resumed ::
  "event_envelope \<Rightarrow> execution_resumed \<Rightarrow> execution_projection \<Rightarrow> replay_error + execution_projection" where
  [fold_defs]: "fold_execution_resumed ev pl p =
    (if \<not> in_execution p (ers_execution_id pl) \<or> p_simulation_status p \<noteq> Some SimPaused
     then Inl Corrupt
     else Inr (p\<lparr>p_drive_failure := None, p_simulation_status := Some SimRunning\<rparr>))"

definition fold_simulation_completed ::
  "event_envelope \<Rightarrow> simulation_completed \<Rightarrow> execution_projection \<Rightarrow> replay_error + execution_projection" where
  [fold_defs]: "fold_simulation_completed ev pl p = Inr (p\<lparr>p_simulation_status := Some (scm_status pl)\<rparr>)"

definition set_availability ::
  "repository_scope \<Rightarrow> string \<Rightarrow> evidence_availability \<Rightarrow> execution_projection \<Rightarrow> execution_projection" where
  "set_availability scope eid a p =
    p\<lparr>p_evidence_availability := om_insert (scoped_evidence_key scope eid) a (p_evidence_availability p)\<rparr>"

definition fold_evidence_erasure_requested ::
  "event_envelope \<Rightarrow> evidence_erasure_requested \<Rightarrow> execution_projection
   \<Rightarrow> replay_error + execution_projection" where
  [fold_defs]: "fold_evidence_erasure_requested ev pl p =
    Inr (set_availability (eer_evidence_scope pl) (eer_evidence_id pl) ErasurePending p)"

definition fold_evidence_erasure_completed ::
  "event_envelope \<Rightarrow> evidence_erasure_completed \<Rightarrow> execution_projection
   \<Rightarrow> replay_error + execution_projection" where
  [fold_defs]: "fold_evidence_erasure_completed ev pl p =
    Inr (set_availability (eec_evidence_scope pl) (eec_evidence_id pl) Erased p)"

definition fold_evidence_ciphertext_deleted ::
  "event_envelope \<Rightarrow> evidence_ciphertext_deleted \<Rightarrow> execution_projection
   \<Rightarrow> replay_error + execution_projection" where
  [fold_defs]: "fold_evidence_ciphertext_deleted ev pl p =
    Inr (set_availability (ecd_evidence_scope pl) (ecd_evidence_id pl) Deleted p)"

definition update_legal_hold_projection ::
  "scoped_evidence_id \<Rightarrow> string \<Rightarrow> legal_hold_state \<Rightarrow> execution_projection \<times> holds
   \<Rightarrow> execution_projection \<times> holds" where
  "update_legal_hold_projection evidence hold_id state st =
    (case st of (p, active) \<Rightarrow>
      (case state of
         Placed \<Rightarrow>
           (p\<lparr>p_legal_holds := os_insert evidence (p_legal_holds p)\<rparr>, os_insert (evidence, hold_id) active)
       | Released \<Rightarrow>
           let active' = om_remove (evidence, hold_id) active in
           (if list_ex (\<lambda>(key, _). key = evidence) (om_keys active') then p
            else p\<lparr>p_legal_holds := om_remove evidence (p_legal_holds p)\<rparr>, active')))"


section \<open>Arms: wake, gates, delegation and presence\<close>

definition fold_wake_lease ::
  "fold_env \<Rightarrow> event_envelope \<Rightarrow> wake_lease \<Rightarrow> execution_projection \<Rightarrow> replay_error + execution_projection" where
  [fold_defs]: "fold_wake_lease env ev pl p =
    Inr (p\<lparr>p_wake_leases := om_insert (wkl_session_id pl)
      \<lparr>wls_cursor = wkl_cursor pl, wls_rendezvous_id = wkl_rendezvous_id pl,
       wls_armed_at_sequence = env_sequence ev,
       wls_matures_at = Option.bind (wkl_matures_in_seconds pl) (horizon env (env_occurred_at ev))\<rparr>
      (p_wake_leases p)\<rparr>)"

definition fold_gate_verdict ::
  "event_envelope \<Rightarrow> gate_verdict \<Rightarrow> execution_projection \<Rightarrow> replay_error + execution_projection" where
  [fold_defs]: "fold_gate_verdict ev pl p =
    (if \<not> gvd_passed pl then
       if full_for (p_red_checks p) (gvd_node_id pl) then Inl LimitExceeded
       else bindE (ok_or (checked_add
              (case om_get (p_red_checks p) (gvd_node_id pl) of None \<Rightarrow> 0 | Some n \<Rightarrow> n) 1) LimitExceeded)
         (\<lambda>n. Inr (p\<lparr>p_red_checks := om_insert (gvd_node_id pl) n (p_red_checks p)\<rparr>))
     else Inr p)"

definition fold_delegation_chosen ::
  "event_envelope \<Rightarrow> delegation_chosen \<Rightarrow> execution_projection \<Rightarrow> replay_error + execution_projection" where
  [fold_defs]: "fold_delegation_chosen ev pl p =
    (if full_for (p_delegation_choices p) (dch_node_id pl) then Inl LimitExceeded
     else Inr (p\<lparr>p_delegation_choices := om_insert (dch_node_id pl)
                  \<lparr>dr_at_sequence = env_sequence ev, dr_chosen = pl\<rparr> (p_delegation_choices p)\<rparr>))"

definition fold_subagent_reused ::
  "event_envelope \<Rightarrow> subagent_reused \<Rightarrow> execution_projection \<Rightarrow> replay_error + execution_projection" where
  [fold_defs]: "fold_subagent_reused ev pl p =
    (if full_for (p_subagents p) (sur_node_id pl) then Inl LimitExceeded
     else Inr (p\<lparr>p_subagents := om_insert (sur_node_id pl)
                  \<lparr>sr_at_sequence = env_sequence ev, sr_record = pl\<rparr> (p_subagents p)\<rparr>))"

definition fold_gate_certified ::
  "event_envelope \<Rightarrow> gate_certified \<Rightarrow> execution_projection \<Rightarrow> replay_error + execution_projection" where
  [fold_defs]: "fold_gate_certified ev pl p =
    Inr (p\<lparr>p_gate_certifications :=
            om_insert (gce_gate_id pl) (gce_suite_digest pl) (p_gate_certifications p)\<rparr>)"

definition fold_wake_lease_consumed ::
  "event_envelope \<Rightarrow> wake_lease_consumed \<Rightarrow> execution_projection \<Rightarrow> replay_error + execution_projection" where
  [fold_defs]: "fold_wake_lease_consumed ev pl p =
    (case om_get (p_wake_leases p) (wlc_session_id pl) of None \<Rightarrow> Inl Corrupt
     | Some burned \<Rightarrow>
         let p1 = p\<lparr>p_wake_leases := om_remove (wlc_session_id pl) (p_wake_leases p)\<rparr>;
             p2 = (case wlc_captured_arming pl of
                     Some captured \<Rightarrow>
                       if captured \<noteq> wls_armed_at_sequence burned
                       then p1\<lparr>p_wake_mis_burns := om_insert (wlc_session_id pl)
                              \<lparr>wmb_at_sequence = env_sequence ev, wmb_captured_arming = captured,
                               wmb_live_arming = wls_armed_at_sequence burned\<rparr> (p_wake_mis_burns p1)\<rparr>
                       else p1
                   | None \<Rightarrow> p1)
         in Inr (p2\<lparr>p_wake_last_consumed := om_insert (wlc_session_id pl)
                     \<lparr>wcr_reason = wlc_reason pl, wcr_sequence = env_sequence ev\<rparr>
                     (p_wake_last_consumed p2)\<rparr>))"

definition fold_agent_presence_declared ::
  "event_envelope \<Rightarrow> agent_presence_declared \<Rightarrow> execution_projection
   \<Rightarrow> replay_error + execution_projection" where
  [fold_defs]: "fold_agent_presence_declared ev pl p =
    (if full_for (p_agent_presence p) (apd_actor_id pl) then Inl LimitExceeded
     else Inr (p\<lparr>p_agent_presence := om_insert (apd_actor_id pl)
                  \<lparr>ap_at_sequence = env_sequence ev, ap_declared = pl\<rparr> (p_agent_presence p)\<rparr>))"

definition fold_drive_failed ::
  "event_envelope \<Rightarrow> drive_failed \<Rightarrow> execution_projection \<Rightarrow> replay_error + execution_projection" where
  [fold_defs]: "fold_drive_failed ev pl p =
    (if \<not> in_execution p (dfl_execution_id pl) then Inl Corrupt
     else Inr (p\<lparr>p_drive_failure := Some
                  \<lparr>dfr_at_sequence = env_sequence ev, dfr_site = dfl_site pl, dfr_cause = dfl_cause pl\<rparr>\<rparr>))"


section \<open>Arms: dead letters and overdue stages\<close>

definition fold_dlq_routed ::
  "event_envelope \<Rightarrow> dlq_routed \<Rightarrow> execution_projection \<Rightarrow> replay_error + execution_projection" where
  [fold_defs]: "fold_dlq_routed ev pl p =
    (if \<not> in_execution p (dro_execution_id pl) then Inl Corrupt
     else
       let node = dro_node_id pl in
       record_scan node
         \<lparr>csn_at_sequence = env_sequence ev, csn_stage = DeadLettered, csn_claim_seq = None,
          csn_reason_code = Some (dro_reason pl), csn_deadline = None\<rparr>
         (p\<lparr>p_open_waits := om_remove node (p_open_waits p),
            p_open_claims := om_map (\<lambda>c. if oc_node c = node then c\<lparr>oc_deadline := None\<rparr> else c)
              (p_open_claims p)\<rparr>))"

definition fold_dlq_returned ::
  "fold_env \<Rightarrow> event_envelope \<Rightarrow> dlq_returned \<Rightarrow> execution_projection \<Rightarrow> replay_error + execution_projection" where
  [fold_defs]: "fold_dlq_returned env ev pl p =
    (if \<not> in_execution p (drt_execution_id pl) then Inl Corrupt
     else
       let node = drt_node_id pl in
       if full_for (p_open_waits p) node then Inl LimitExceeded
       else
         let deadline = Option.bind (drt_wait_within_seconds pl) (horizon env (env_occurred_at ev)) in
         record_scan node
           \<lparr>csn_at_sequence = env_sequence ev, csn_stage = Parked, csn_claim_seq = None,
            csn_reason_code = None, csn_deadline = deadline\<rparr>
           (p\<lparr>p_open_waits := om_insert node
                \<lparr>ow_at_sequence = env_sequence ev, ow_deadline = deadline\<rparr> (p_open_waits p)\<rparr>))"

definition fold_overdue_exception ::
  "event_envelope \<Rightarrow> overdue_exception \<Rightarrow> execution_projection \<Rightarrow> replay_error + execution_projection" where
  [fold_defs]: "fold_overdue_exception ev pl p =
    (if \<not> in_execution p (oex_execution_id pl) then Inl Corrupt
     else if full_for (p_exception_marked p) (oex_episode_sequence pl) then Inl LimitExceeded
     else Inr (p\<lparr>p_exception_marked := os_insert (oex_episode_sequence pl) (p_exception_marked p)\<rparr>))"

definition fold_dlq_redrive ::
  "fold_env \<Rightarrow> event_envelope \<Rightarrow> dlq_redrive \<Rightarrow> execution_projection \<Rightarrow> replay_error + execution_projection" where
  [fold_defs]: "fold_dlq_redrive env ev pl p =
    (if \<not> in_execution p (drd_execution_id pl) then Inl Corrupt
     else
       let node = drd_node_id pl;
           deadline = stage_deadline env p node (env_occurred_at ev) pcu_clearance_within_seconds
                        cb_clearance_within_seconds;
           rebased = list_ex (\<lambda>c. oc_node c = node) (om_values (p_open_claims p)) in
       record_scan node
         \<lparr>csn_at_sequence = env_sequence ev, csn_stage = Claimed,
          csn_claim_seq = (if rebased then Some (env_sequence ev) else None),
          csn_reason_code = None, csn_deadline = deadline\<rparr>
         (p\<lparr>p_open_claims := om_map (\<lambda>c. if oc_node c = node
                then c\<lparr>oc_stage_entered_at := env_sequence ev, oc_deadline := deadline\<rparr> else c)
              (p_open_claims p)\<rparr>))"


section \<open>The dispatcher\<close>

definition stamp_stream :: "event_envelope \<Rightarrow> execution_projection \<Rightarrow> execution_projection" where
  "stamp_stream ev p = (case p_stream_id p of None \<Rightarrow> p\<lparr>p_stream_id := Some (env_stream_id ev)\<rparr> | Some _ \<Rightarrow> p)"

text \<open>Every arm but the legal-hold one updates the projection alone.\<close>

definition fold_projection ::
  "fold_env \<Rightarrow> event_envelope \<Rightarrow> execution_projection \<Rightarrow> replay_error + execution_projection" where
  "fold_projection env ev p =
    (case env_kind ev of
       MemoryAdmissionRefused pl \<Rightarrow> fold_memory_admission_refused ev pl p
     | MemoryPublicationTransitioned pl \<Rightarrow> fold_memory_publication_transitioned ev pl p
     | MemoryValidationRecorded pl \<Rightarrow> fold_memory_validation_recorded ev pl p
     | MemoryRecordSuperseded pl \<Rightarrow> fold_memory_record_superseded ev pl p
     | DreamShadowRecorded pl \<Rightarrow> fold_dream_shadow_recorded ev pl p
     | ExecutionFormDeclared pl \<Rightarrow> fold_execution_form_declared ev pl p
     | ExecutionFormAmended pl \<Rightarrow> fold_execution_form_amended ev pl p
     | GraphVersionPublished pl \<Rightarrow> fold_graph_version_published env ev pl p
     | GraphAuthoringSnapshotStored pl \<Rightarrow> fold_graph_authoring_snapshot_stored ev pl p
     | DraftProposed pl \<Rightarrow> fold_draft_proposed ev pl p
     | DraftRejected pl \<Rightarrow> fold_draft_rejected ev pl p
     | DraftApplied pl \<Rightarrow> fold_draft_applied ev pl p
     | PolicyWaiverCreated pl \<Rightarrow> fold_policy_waiver_created ev pl p
     | SimulationStarted pl \<Rightarrow> fold_simulation_started ev pl p
     | NodeStateChanged pl \<Rightarrow> fold_node_state_changed ev pl p
     | ExecutionStarted pl \<Rightarrow> fold_execution_started ev pl p
     | ExecutionModeChanged pl \<Rightarrow> fold_execution_mode_changed ev pl p
     | NodeOutcomeRecorded pl \<Rightarrow> fold_node_outcome_recorded env ev pl p
     | CompletionClaimed pl \<Rightarrow> fold_completion_claimed env ev pl p
     | CompletionCleared pl \<Rightarrow> fold_completion_cleared ev pl p
     | CompletionRejected pl \<Rightarrow> fold_completion_rejected ev pl p
     | CompletionRefused pl \<Rightarrow> fold_completion_refused ev pl p
     | ClearanceIdentityRegistered pl \<Rightarrow> fold_clearance_identity_registered ev pl p
     | ClearanceIdentityRevoked pl \<Rightarrow> fold_clearance_identity_revoked ev pl p
     | ExecutionCompleted pl \<Rightarrow> fold_execution_completed ev pl p
     | SignalRecorded pl \<Rightarrow> fold_signal_recorded ev pl p
     | GhostNodeProposed pl \<Rightarrow> fold_ghost_node_proposed ev pl p
     | NodeAssigned pl \<Rightarrow> fold_node_assigned ev pl p
     | MutationAccepted pl \<Rightarrow> fold_mutation_accepted ev pl p
     | ExecutionPaused pl \<Rightarrow> fold_execution_paused ev pl p
     | ExecutionResumed pl \<Rightarrow> fold_execution_resumed ev pl p
     | SimulationCompleted pl \<Rightarrow> fold_simulation_completed ev pl p
     | EvidenceErasureRequested pl \<Rightarrow> fold_evidence_erasure_requested ev pl p
     | EvidenceErasureCompleted pl \<Rightarrow> fold_evidence_erasure_completed ev pl p
     | EvidenceCiphertextDeleted pl \<Rightarrow> fold_evidence_ciphertext_deleted ev pl p
     | EvidenceLegalHoldChanged pl \<Rightarrow> Inr p
     | ReuseDecision pl \<Rightarrow> Inr p
     | WakeLease pl \<Rightarrow> fold_wake_lease env ev pl p
     | GateVerdict pl \<Rightarrow> fold_gate_verdict ev pl p
     | DelegationChosen pl \<Rightarrow> fold_delegation_chosen ev pl p
     | SubagentReused pl \<Rightarrow> fold_subagent_reused ev pl p
     | GateCertified pl \<Rightarrow> fold_gate_certified ev pl p
     | WakeLeaseConsumed pl \<Rightarrow> fold_wake_lease_consumed ev pl p
     | GraphImported pl \<Rightarrow> Inr p
     | GraphValidationFailed pl \<Rightarrow> Inr p
     | PolicyObligationEvaluated pl \<Rightarrow> Inr p
     | IntegrityCheckpointCreated pl \<Rightarrow> Inr p
     | DlqRouted pl \<Rightarrow> fold_dlq_routed ev pl p
     | DlqReturned pl \<Rightarrow> fold_dlq_returned env ev pl p
     | AgentPresenceDeclared pl \<Rightarrow> fold_agent_presence_declared ev pl p
     | DriveFailed pl \<Rightarrow> fold_drive_failed ev pl p
     | OverdueException pl \<Rightarrow> fold_overdue_exception ev pl p
     | DlqRedrive pl \<Rightarrow> fold_dlq_redrive env ev pl p
     | SweepPerformed pl \<Rightarrow> Inr p)"

definition apply_projection_event ::
  "fold_env \<Rightarrow> event_envelope \<Rightarrow> execution_projection \<times> holds
   \<Rightarrow> replay_error + (execution_projection \<times> holds)" where
  "apply_projection_event env ev st =
    (case st of (p, active) \<Rightarrow>
      let p0 = stamp_stream ev p in
      case env_kind ev of
        EvidenceLegalHoldChanged pl \<Rightarrow>
          Inr (update_legal_hold_projection
            (scoped_evidence_key (elh_evidence_scope pl) (elh_evidence_id pl)) (elh_hold_id pl)
            (elh_state pl) (p0, active))
      | _ \<Rightarrow> bindE (fold_projection env ev p0) (\<lambda>p'. Inr (p', active)))"


section \<open>Frames\<close>

text \<open>One lemma per arm: the fields it may change, and by omission all it leaves alone.\<close>

lemma record_scan_Inr: "record_scan n s p = Inr q \<Longrightarrow> \<exists>x. q = p\<lparr>p_customs_scans := x\<rparr>"
  by (auto simp: record_scan_def split: if_splits)

lemma count_attempt_Inr: "count_attempt pl p = Inr q \<Longrightarrow> \<exists>x. q = p\<lparr>p_node_attempts := x\<rparr>"
  by (auto simp: count_attempt_def Let_def split: if_splits)

lemma count_run_Inr:
  assumes "count_run pl p = Inr q"
  shows "\<exists>x y. q = p\<lparr>p_last_outcome := x, p_identical_outcomes := y\<rparr>"
proof -
  have "q = p\<lparr>p_last_outcome := p_last_outcome q, p_identical_outcomes := p_identical_outcomes q\<rparr>"
    using assms by (auto simp: count_run_def Let_def split: if_splits)
  then show ?thesis by (intro exI)
qed

lemma move_wait_Inr:
  assumes "move_wait env ev pl p = Inr q"
  shows "\<exists>x y. q = p\<lparr>p_open_waits := x, p_customs_scans := y\<rparr>"
proof -
  have "q = p\<lparr>p_open_waits := p_open_waits q, p_customs_scans := p_customs_scans q\<rparr>"
    using assms by (auto simp: move_wait_def Let_def split: if_splits dest!: record_scan_Inr)
  then show ?thesis by (intro exI)
qed

lemma frame_memory_admission_refused [fold_frames]:
  assumes "fold_memory_admission_refused ev pl p = Inr q"
  shows "\<exists>a b. q = p\<lparr>p_memory_admission_refusal_count := a, p_last_memory_admission_refusal := b\<rparr>"
proof -
  have "q = p\<lparr>p_memory_admission_refusal_count := p_memory_admission_refusal_count q, p_last_memory_admission_refusal := p_last_memory_admission_refusal q\<rparr>"
    using assms
    by (auto simp: fold_memory_admission_refused_def Let_def split: if_splits option.splits list.splits dest!: record_scan_Inr)
  then show ?thesis by (intro exI)
qed

lemma frame_memory_publication_transitioned [fold_frames]:
  assumes "fold_memory_publication_transitioned ev pl p = Inr q"
  shows "\<exists>a. q = p\<lparr>p_memory_records := a\<rparr>"
proof -
  have "q = p\<lparr>p_memory_records := p_memory_records q\<rparr>"
    using assms
    by (auto simp: fold_memory_publication_transitioned_def Let_def split: if_splits option.splits list.splits dest!: record_scan_Inr)
  then show ?thesis by (intro exI)
qed

lemma frame_memory_validation_recorded [fold_frames]:
  assumes "fold_memory_validation_recorded ev pl p = Inr q"
  shows "\<exists>a. q = p\<lparr>p_memory_records := a\<rparr>"
proof -
  have "q = p\<lparr>p_memory_records := p_memory_records q\<rparr>"
    using assms
    by (auto simp: fold_memory_validation_recorded_def Let_def split: if_splits option.splits list.splits dest!: record_scan_Inr)
  then show ?thesis by (intro exI)
qed

lemma frame_memory_record_superseded [fold_frames]:
  assumes "fold_memory_record_superseded ev pl p = Inr q"
  shows "\<exists>a. q = p\<lparr>p_memory_records := a\<rparr>"
proof -
  have "q = p\<lparr>p_memory_records := p_memory_records q\<rparr>"
    using assms
    by (auto simp: fold_memory_record_superseded_def Let_def split: if_splits option.splits list.splits dest!: record_scan_Inr)
  then show ?thesis by (intro exI)
qed

lemma frame_dream_shadow_recorded [fold_frames]:
  assumes "fold_dream_shadow_recorded ev pl p = Inr q"
  shows "\<exists>a. q = p\<lparr>p_dream_runs := a\<rparr>"
proof -
  have "q = p\<lparr>p_dream_runs := p_dream_runs q\<rparr>"
    using assms
    by (auto simp: fold_dream_shadow_recorded_def Let_def split: if_splits option.splits list.splits dest!: record_scan_Inr)
  then show ?thesis by (intro exI)
qed

lemma frame_execution_form_declared [fold_frames]:
  assumes "fold_execution_form_declared ev pl p = Inr q"
  shows "\<exists>a. q = p\<lparr>p_declared_form := a\<rparr>"
proof -
  have "q = p\<lparr>p_declared_form := p_declared_form q\<rparr>"
    using assms
    by (auto simp: fold_execution_form_declared_def Let_def split: if_splits option.splits list.splits dest!: record_scan_Inr)
  then show ?thesis by (intro exI)
qed

lemma frame_execution_form_amended [fold_frames]:
  assumes "fold_execution_form_amended ev pl p = Inr q"
  shows "\<exists>a. q = p\<lparr>p_form_amendments := a\<rparr>"
proof -
  have "q = p\<lparr>p_form_amendments := p_form_amendments q\<rparr>"
    using assms
    by (auto simp: fold_execution_form_amended_def Let_def split: if_splits option.splits list.splits dest!: record_scan_Inr)
  then show ?thesis by (intro exI)
qed

lemma frame_graph_version_published [fold_frames]:
  assumes "fold_graph_version_published env ev pl p = Inr q"
  shows "\<exists>a b. q = p\<lparr>p_current_graph := a, p_evidence_availability := b\<rparr>"
proof -
  have "q = p\<lparr>p_current_graph := p_current_graph q, p_evidence_availability := p_evidence_availability q\<rparr>"
    using assms
    by (auto simp: fold_graph_version_published_def Let_def split: if_splits option.splits list.splits dest!: record_scan_Inr)
  then show ?thesis by (intro exI)
qed

lemma frame_graph_authoring_snapshot_stored [fold_frames]:
  assumes "fold_graph_authoring_snapshot_stored ev pl p = Inr q"
  shows "\<exists>a. q = p\<lparr>p_authoring_snapshots := a\<rparr>"
proof -
  have "q = p\<lparr>p_authoring_snapshots := p_authoring_snapshots q\<rparr>"
    using assms
    by (auto simp: fold_graph_authoring_snapshot_stored_def Let_def split: if_splits option.splits list.splits dest!: record_scan_Inr)
  then show ?thesis by (intro exI)
qed

lemma frame_draft_proposed [fold_frames]:
  assumes "fold_draft_proposed ev pl p = Inr q"
  shows "\<exists>a b. q = p\<lparr>p_proposed_drafts := a, p_proposed_draft_sha256 := b\<rparr>"
proof -
  have "q = p\<lparr>p_proposed_drafts := p_proposed_drafts q, p_proposed_draft_sha256 := p_proposed_draft_sha256 q\<rparr>"
    using assms
    by (auto simp: fold_draft_proposed_def Let_def split: if_splits option.splits list.splits dest!: record_scan_Inr)
  then show ?thesis by (intro exI)
qed

lemma frame_draft_rejected [fold_frames]:
  assumes "fold_draft_rejected ev pl p = Inr q"
  shows "\<exists>a. q = p\<lparr>p_rejected_drafts := a\<rparr>"
proof -
  have "q = p\<lparr>p_rejected_drafts := p_rejected_drafts q\<rparr>"
    using assms
    by (auto simp: fold_draft_rejected_def Let_def split: if_splits option.splits list.splits dest!: record_scan_Inr)
  then show ?thesis by (intro exI)
qed

lemma frame_draft_applied [fold_frames]:
  assumes "fold_draft_applied ev pl p = Inr q"
  shows "\<exists>a. q = p\<lparr>p_applied_drafts := a\<rparr>"
proof -
  have "q = p\<lparr>p_applied_drafts := p_applied_drafts q\<rparr>"
    using assms
    by (auto simp: fold_draft_applied_def Let_def split: if_splits option.splits list.splits dest!: record_scan_Inr)
  then show ?thesis by (intro exI)
qed

lemma frame_policy_waiver_created [fold_frames]:
  assumes "fold_policy_waiver_created ev pl p = Inr q"
  shows "\<exists>a. q = p\<lparr>p_waivers := a\<rparr>"
proof -
  have "q = p\<lparr>p_waivers := p_waivers q\<rparr>"
    using assms
    by (auto simp: fold_policy_waiver_created_def Let_def split: if_splits option.splits list.splits dest!: record_scan_Inr)
  then show ?thesis by (intro exI)
qed

lemma frame_simulation_started [fold_frames]:
  assumes "fold_simulation_started ev pl p = Inr q"
  shows "\<exists>a. q = p\<lparr>p_simulation_status := a\<rparr>"
proof -
  have "q = p\<lparr>p_simulation_status := p_simulation_status q\<rparr>"
    using assms
    by (auto simp: fold_simulation_started_def Let_def split: if_splits option.splits list.splits dest!: record_scan_Inr)
  then show ?thesis by (intro exI)
qed

lemma frame_node_state_changed [fold_frames]:
  assumes "fold_node_state_changed ev pl p = Inr q"
  shows "\<exists>a. q = p\<lparr>p_node_states := a\<rparr>"
proof -
  have "q = p\<lparr>p_node_states := p_node_states q\<rparr>"
    using assms
    by (auto simp: fold_node_state_changed_def Let_def split: if_splits option.splits list.splits dest!: record_scan_Inr)
  then show ?thesis by (intro exI)
qed

lemma frame_execution_started [fold_frames]:
  assumes "fold_execution_started ev pl p = Inr q"
  shows "\<exists>a b c. q = p\<lparr>p_execution_id := a, p_mode := b, p_started_graph_version := c\<rparr>"
proof -
  have "q = p\<lparr>p_execution_id := p_execution_id q, p_mode := p_mode q, p_started_graph_version := p_started_graph_version q\<rparr>"
    using assms
    by (auto simp: fold_execution_started_def Let_def split: if_splits option.splits list.splits dest!: record_scan_Inr)
  then show ?thesis by (intro exI)
qed

lemma frame_execution_mode_changed [fold_frames]:
  assumes "fold_execution_mode_changed ev pl p = Inr q"
  shows "\<exists>a. q = p\<lparr>p_mode := a\<rparr>"
proof -
  have "q = p\<lparr>p_mode := p_mode q\<rparr>"
    using assms
    by (auto simp: fold_execution_mode_changed_def Let_def split: if_splits option.splits list.splits dest!: record_scan_Inr)
  then show ?thesis by (intro exI)
qed

lemma frame_node_outcome_recorded [fold_frames]:
  assumes "fold_node_outcome_recorded env ev pl p = Inr q"
  shows "\<exists>a b c d e f. q = p\<lparr>p_node_attempts := a, p_last_outcome := b, p_identical_outcomes := c, p_open_waits := d, p_customs_scans := e, p_node_states := f\<rparr>"
proof -
  have "q = p\<lparr>p_node_attempts := p_node_attempts q, p_last_outcome := p_last_outcome q, p_identical_outcomes := p_identical_outcomes q, p_open_waits := p_open_waits q, p_customs_scans := p_customs_scans q, p_node_states := p_node_states q\<rparr>"
    using assms
    by (auto simp: fold_node_outcome_recorded_def split: if_splits dest!: count_attempt_Inr count_run_Inr move_wait_Inr)
  then show ?thesis by (intro exI)
qed

lemma frame_completion_claimed [fold_frames]:
  assumes "fold_completion_claimed env ev pl p = Inr q"
  shows "\<exists>a b. q = p\<lparr>p_open_claims := a, p_customs_scans := b\<rparr>"
proof -
  have "q = p\<lparr>p_open_claims := p_open_claims q, p_customs_scans := p_customs_scans q\<rparr>"
    using assms
    by (auto simp: fold_completion_claimed_def Let_def split: if_splits dest!: record_scan_Inr)
  then show ?thesis by (intro exI)
qed

lemma frame_completion_cleared [fold_frames]:
  assumes "fold_completion_cleared ev pl p = Inr q"
  shows "\<exists>a b c d e. q = p\<lparr>p_open_claims := a, p_clearances := b, p_open_waits := c, p_customs_scans := d, p_node_states := e\<rparr>"
proof -
  have "q = p\<lparr>p_open_claims := p_open_claims q, p_clearances := p_clearances q, p_open_waits := p_open_waits q, p_customs_scans := p_customs_scans q, p_node_states := p_node_states q\<rparr>"
    using assms
    by (auto simp: fold_completion_cleared_def Let_def split: if_splits option.splits dest!: record_scan_Inr)
  then show ?thesis by (intro exI)
qed

lemma frame_completion_rejected [fold_frames]:
  assumes "fold_completion_rejected ev pl p = Inr q"
  shows "\<exists>a b. q = p\<lparr>p_open_claims := a, p_customs_scans := b\<rparr>"
proof -
  have "q = p\<lparr>p_open_claims := p_open_claims q, p_customs_scans := p_customs_scans q\<rparr>"
    using assms
    by (auto simp: fold_completion_rejected_def Let_def split: if_splits option.splits list.splits dest!: record_scan_Inr)
  then show ?thesis by (intro exI)
qed

lemma frame_completion_refused [fold_frames]:
  assumes "fold_completion_refused ev pl p = Inr q"
  shows "\<exists>a. q = p\<lparr>p_customs_scans := a\<rparr>"
proof -
  have "q = p\<lparr>p_customs_scans := p_customs_scans q\<rparr>"
    using assms
    by (auto simp: fold_completion_refused_def Let_def split: if_splits option.splits list.splits dest!: record_scan_Inr)
  then show ?thesis by (intro exI)
qed

lemma frame_clearance_identity_registered [fold_frames]:
  assumes "fold_clearance_identity_registered ev pl p = Inr q"
  shows "\<exists>a. q = p\<lparr>p_clearance_registry := a\<rparr>"
proof -
  have "q = p\<lparr>p_clearance_registry := p_clearance_registry q\<rparr>"
    using assms
    by (auto simp: fold_clearance_identity_registered_def Let_def split: if_splits option.splits list.splits dest!: record_scan_Inr)
  then show ?thesis by (intro exI)
qed

lemma frame_clearance_identity_revoked [fold_frames]:
  assumes "fold_clearance_identity_revoked ev pl p = Inr q"
  shows "\<exists>a. q = p\<lparr>p_clearance_registry := a\<rparr>"
proof -
  have "q = p\<lparr>p_clearance_registry := p_clearance_registry q\<rparr>"
    using assms
    by (auto simp: fold_clearance_identity_revoked_def Let_def split: if_splits option.splits list.splits dest!: record_scan_Inr)
  then show ?thesis by (intro exI)
qed

lemma frame_execution_completed [fold_frames]:
  assumes "fold_execution_completed ev pl p = Inr q"
  shows "\<exists>a. q = p\<lparr>p_simulation_status := a\<rparr>"
proof -
  have "q = p\<lparr>p_simulation_status := p_simulation_status q\<rparr>"
    using assms
    by (auto simp: fold_execution_completed_def Let_def split: if_splits option.splits list.splits dest!: record_scan_Inr)
  then show ?thesis by (intro exI)
qed

lemma frame_signal_recorded [fold_frames]:
  assumes "fold_signal_recorded ev pl p = Inr q"
  shows "\<exists>a. q = p\<lparr>p_signals_recorded := a\<rparr>"
proof -
  have "q = p\<lparr>p_signals_recorded := p_signals_recorded q\<rparr>"
    using assms
    by (auto simp: fold_signal_recorded_def Let_def split: if_splits option.splits list.splits dest!: record_scan_Inr)
  then show ?thesis by (intro exI)
qed

lemma frame_ghost_node_proposed [fold_frames]:
  assumes "fold_ghost_node_proposed ev pl p = Inr q"
  shows "\<exists>a b. q = p\<lparr>p_node_states := a, p_ghost_drafts := b\<rparr>"
proof -
  have "q = p\<lparr>p_node_states := p_node_states q, p_ghost_drafts := p_ghost_drafts q\<rparr>"
    using assms
    by (auto simp: fold_ghost_node_proposed_def Let_def split: if_splits option.splits list.splits dest!: record_scan_Inr)
  then show ?thesis by (intro exI)
qed

lemma frame_node_assigned [fold_frames]:
  assumes "fold_node_assigned ev pl p = Inr q"
  shows "\<exists>a. q = p\<lparr>p_node_assignments := a\<rparr>"
proof -
  have "q = p\<lparr>p_node_assignments := p_node_assignments q\<rparr>"
    using assms
    by (auto simp: fold_node_assigned_def Let_def split: if_splits option.splits list.splits dest!: record_scan_Inr)
  then show ?thesis by (intro exI)
qed

lemma frame_mutation_accepted [fold_frames]:
  assumes "fold_mutation_accepted ev pl p = Inr q"
  shows "\<exists>a. q = p\<lparr>p_accepted_mutations := a\<rparr>"
proof -
  have "q = p\<lparr>p_accepted_mutations := p_accepted_mutations q\<rparr>"
    using assms
    by (auto simp: fold_mutation_accepted_def Let_def split: if_splits option.splits list.splits dest!: record_scan_Inr)
  then show ?thesis by (intro exI)
qed

lemma frame_execution_paused [fold_frames]:
  assumes "fold_execution_paused ev pl p = Inr q"
  shows "\<exists>a. q = p\<lparr>p_simulation_status := a\<rparr>"
proof -
  have "q = p\<lparr>p_simulation_status := p_simulation_status q\<rparr>"
    using assms
    by (auto simp: fold_execution_paused_def Let_def split: if_splits option.splits list.splits dest!: record_scan_Inr)
  then show ?thesis by (intro exI)
qed

lemma frame_execution_resumed [fold_frames]:
  assumes "fold_execution_resumed ev pl p = Inr q"
  shows "\<exists>a b. q = p\<lparr>p_drive_failure := a, p_simulation_status := b\<rparr>"
proof -
  have "q = p\<lparr>p_drive_failure := p_drive_failure q, p_simulation_status := p_simulation_status q\<rparr>"
    using assms
    by (auto simp: fold_execution_resumed_def Let_def split: if_splits option.splits list.splits dest!: record_scan_Inr)
  then show ?thesis by (intro exI)
qed

lemma frame_simulation_completed [fold_frames]:
  assumes "fold_simulation_completed ev pl p = Inr q"
  shows "\<exists>a. q = p\<lparr>p_simulation_status := a\<rparr>"
proof -
  have "q = p\<lparr>p_simulation_status := p_simulation_status q\<rparr>"
    using assms
    by (auto simp: fold_simulation_completed_def Let_def split: if_splits option.splits list.splits dest!: record_scan_Inr)
  then show ?thesis by (intro exI)
qed

lemma frame_evidence_erasure_requested [fold_frames]:
  assumes "fold_evidence_erasure_requested ev pl p = Inr q"
  shows "\<exists>a. q = p\<lparr>p_evidence_availability := a\<rparr>"
proof -
  have "q = p\<lparr>p_evidence_availability := p_evidence_availability q\<rparr>"
    using assms
    by (auto simp: fold_evidence_erasure_requested_def Let_def set_availability_def split: if_splits option.splits list.splits dest!: record_scan_Inr)
  then show ?thesis by (intro exI)
qed

lemma frame_evidence_erasure_completed [fold_frames]:
  assumes "fold_evidence_erasure_completed ev pl p = Inr q"
  shows "\<exists>a. q = p\<lparr>p_evidence_availability := a\<rparr>"
proof -
  have "q = p\<lparr>p_evidence_availability := p_evidence_availability q\<rparr>"
    using assms
    by (auto simp: fold_evidence_erasure_completed_def Let_def set_availability_def split: if_splits option.splits list.splits dest!: record_scan_Inr)
  then show ?thesis by (intro exI)
qed

lemma frame_evidence_ciphertext_deleted [fold_frames]:
  assumes "fold_evidence_ciphertext_deleted ev pl p = Inr q"
  shows "\<exists>a. q = p\<lparr>p_evidence_availability := a\<rparr>"
proof -
  have "q = p\<lparr>p_evidence_availability := p_evidence_availability q\<rparr>"
    using assms
    by (auto simp: fold_evidence_ciphertext_deleted_def Let_def set_availability_def split: if_splits option.splits list.splits dest!: record_scan_Inr)
  then show ?thesis by (intro exI)
qed

lemma frame_wake_lease [fold_frames]:
  assumes "fold_wake_lease env ev pl p = Inr q"
  shows "\<exists>a. q = p\<lparr>p_wake_leases := a\<rparr>"
proof -
  have "q = p\<lparr>p_wake_leases := p_wake_leases q\<rparr>"
    using assms
    by (auto simp: fold_wake_lease_def Let_def split: if_splits option.splits list.splits dest!: record_scan_Inr)
  then show ?thesis by (intro exI)
qed

lemma frame_gate_verdict [fold_frames]:
  assumes "fold_gate_verdict ev pl p = Inr q"
  shows "\<exists>a. q = p\<lparr>p_red_checks := a\<rparr>"
proof -
  have "q = p\<lparr>p_red_checks := p_red_checks q\<rparr>"
    using assms
    by (auto simp: fold_gate_verdict_def Let_def split: if_splits option.splits list.splits dest!: record_scan_Inr)
  then show ?thesis by (intro exI)
qed

lemma frame_delegation_chosen [fold_frames]:
  assumes "fold_delegation_chosen ev pl p = Inr q"
  shows "\<exists>a. q = p\<lparr>p_delegation_choices := a\<rparr>"
proof -
  have "q = p\<lparr>p_delegation_choices := p_delegation_choices q\<rparr>"
    using assms
    by (auto simp: fold_delegation_chosen_def Let_def split: if_splits option.splits list.splits dest!: record_scan_Inr)
  then show ?thesis by (intro exI)
qed

lemma frame_subagent_reused [fold_frames]:
  assumes "fold_subagent_reused ev pl p = Inr q"
  shows "\<exists>a. q = p\<lparr>p_subagents := a\<rparr>"
proof -
  have "q = p\<lparr>p_subagents := p_subagents q\<rparr>"
    using assms
    by (auto simp: fold_subagent_reused_def Let_def split: if_splits option.splits list.splits dest!: record_scan_Inr)
  then show ?thesis by (intro exI)
qed

lemma frame_gate_certified [fold_frames]:
  assumes "fold_gate_certified ev pl p = Inr q"
  shows "\<exists>a. q = p\<lparr>p_gate_certifications := a\<rparr>"
proof -
  have "q = p\<lparr>p_gate_certifications := p_gate_certifications q\<rparr>"
    using assms
    by (auto simp: fold_gate_certified_def Let_def split: if_splits option.splits list.splits dest!: record_scan_Inr)
  then show ?thesis by (intro exI)
qed

lemma frame_wake_lease_consumed [fold_frames]:
  assumes "fold_wake_lease_consumed ev pl p = Inr q"
  shows "\<exists>a b c. q = p\<lparr>p_wake_leases := a, p_wake_mis_burns := b, p_wake_last_consumed := c\<rparr>"
proof -
  have "q = p\<lparr>p_wake_leases := p_wake_leases q, p_wake_mis_burns := p_wake_mis_burns q, p_wake_last_consumed := p_wake_last_consumed q\<rparr>"
    using assms
    by (auto simp: fold_wake_lease_consumed_def Let_def split: if_splits option.splits list.splits dest!: record_scan_Inr)
  then show ?thesis by (intro exI)
qed

lemma frame_agent_presence_declared [fold_frames]:
  assumes "fold_agent_presence_declared ev pl p = Inr q"
  shows "\<exists>a. q = p\<lparr>p_agent_presence := a\<rparr>"
proof -
  have "q = p\<lparr>p_agent_presence := p_agent_presence q\<rparr>"
    using assms
    by (auto simp: fold_agent_presence_declared_def Let_def split: if_splits option.splits list.splits dest!: record_scan_Inr)
  then show ?thesis by (intro exI)
qed

lemma frame_drive_failed [fold_frames]:
  assumes "fold_drive_failed ev pl p = Inr q"
  shows "\<exists>a. q = p\<lparr>p_drive_failure := a\<rparr>"
proof -
  have "q = p\<lparr>p_drive_failure := p_drive_failure q\<rparr>"
    using assms
    by (auto simp: fold_drive_failed_def Let_def split: if_splits option.splits list.splits dest!: record_scan_Inr)
  then show ?thesis by (intro exI)
qed

lemma frame_dlq_routed [fold_frames]:
  assumes "fold_dlq_routed ev pl p = Inr q"
  shows "\<exists>a b c. q = p\<lparr>p_open_waits := a, p_open_claims := b, p_customs_scans := c\<rparr>"
proof -
  have "q = p\<lparr>p_open_waits := p_open_waits q, p_open_claims := p_open_claims q, p_customs_scans := p_customs_scans q\<rparr>"
    using assms
    by (auto simp: fold_dlq_routed_def Let_def split: if_splits option.splits list.splits dest!: record_scan_Inr)
  then show ?thesis by (intro exI)
qed

lemma frame_dlq_returned [fold_frames]:
  assumes "fold_dlq_returned env ev pl p = Inr q"
  shows "\<exists>a b. q = p\<lparr>p_open_waits := a, p_customs_scans := b\<rparr>"
proof -
  have "q = p\<lparr>p_open_waits := p_open_waits q, p_customs_scans := p_customs_scans q\<rparr>"
    using assms
    by (auto simp: fold_dlq_returned_def Let_def split: if_splits option.splits list.splits dest!: record_scan_Inr)
  then show ?thesis by (intro exI)
qed

lemma frame_overdue_exception [fold_frames]:
  assumes "fold_overdue_exception ev pl p = Inr q"
  shows "\<exists>a. q = p\<lparr>p_exception_marked := a\<rparr>"
proof -
  have "q = p\<lparr>p_exception_marked := p_exception_marked q\<rparr>"
    using assms
    by (auto simp: fold_overdue_exception_def Let_def split: if_splits option.splits list.splits dest!: record_scan_Inr)
  then show ?thesis by (intro exI)
qed

lemma frame_dlq_redrive [fold_frames]:
  assumes "fold_dlq_redrive env ev pl p = Inr q"
  shows "\<exists>a b. q = p\<lparr>p_open_claims := a, p_customs_scans := b\<rparr>"
proof -
  have "q = p\<lparr>p_open_claims := p_open_claims q, p_customs_scans := p_customs_scans q\<rparr>"
    using assms
    by (auto simp: fold_dlq_redrive_def Let_def split: if_splits option.splits list.splits dest!: record_scan_Inr)
  then show ?thesis by (intro exI)
qed


section \<open>Steps of the whole fold\<close>

lemma apply_projection_event_Inr:
  assumes "apply_projection_event env ev (p, a) = Inr (q, b)"
  shows "(\<exists>pl. env_kind ev = EvidenceLegalHoldChanged pl \<and>
            (q, b) = update_legal_hold_projection
              (scoped_evidence_key (elh_evidence_scope pl) (elh_evidence_id pl)) (elh_hold_id pl)
              (elh_state pl) (stamp_stream ev p, a)) \<or>
         ((\<forall>pl. env_kind ev \<noteq> EvidenceLegalHoldChanged pl) \<and>
          fold_projection env ev (stamp_stream ev p) = Inr q \<and> b = a)"
  using assms by (cases "env_kind ev") (simp_all add: apply_projection_event_def Let_def)

lemma stamp_stream_fields:
  "\<exists>x. stamp_stream ev p = p\<lparr>p_stream_id := x\<rparr>"
proof -
  have "stamp_stream ev p = p\<lparr>p_stream_id := p_stream_id (stamp_stream ev p)\<rparr>"
    by (simp add: stamp_stream_def split: option.split)
  then show ?thesis by (intro exI)
qed

lemma update_legal_hold_fields:
  assumes "(q, b) = update_legal_hold_projection e h s (p, a)"
  shows "\<exists>x. q = p\<lparr>p_legal_holds := x\<rparr>"
proof -
  have "q = p\<lparr>p_legal_holds := p_legal_holds q\<rparr>"
    using assms by (auto simp: update_legal_hold_projection_def Let_def split: legal_hold_state.splits if_splits)
  then show ?thesis by (intro exI)
qed

text \<open>Up to the stream identity and the legal holds, a step of the whole fold is a step of the arms.\<close>

lemma apply_event_arm:
  assumes "apply_projection_event env ev (p, a) = Inr (q, b)"
  obtains x r y where "fold_projection env ev (p\<lparr>p_stream_id := x\<rparr>) = Inr r" "q = r\<lparr>p_legal_holds := y\<rparr>"
proof -
  obtain x where s: "stamp_stream ev p = p\<lparr>p_stream_id := x\<rparr>" using stamp_stream_fields by blast
  from apply_projection_event_Inr [OF assms] show ?thesis
  proof (elim disjE exE conjE)
    fix pl assume k: "env_kind ev = EvidenceLegalHoldChanged pl" and "(q, b) =
      update_legal_hold_projection (scoped_evidence_key (elh_evidence_scope pl) (elh_evidence_id pl))
        (elh_hold_id pl) (elh_state pl) (stamp_stream ev p, a)"
    then obtain y where "q = (stamp_stream ev p)\<lparr>p_legal_holds := y\<rparr>" using update_legal_hold_fields by blast
    moreover have "fold_projection env ev (stamp_stream ev p) = Inr (stamp_stream ev p)"
      by (simp add: fold_projection_def k)
    ultimately show ?thesis using that s by metis
  next
    assume "fold_projection env ev (stamp_stream ev p) = Inr q"
    moreover have "q = q\<lparr>p_legal_holds := p_legal_holds q\<rparr>" by simp
    ultimately show ?thesis using that s by metis
  qed
qed

end
