(* ===== verification/Fold_Invariants.thy ===== *)
theory Fold_Invariants
  imports Fold
begin

text \<open>
  What the event fold keeps and what it counts: the agreement of legal holds with the active set, the
  resource guards, the facts that are written once, the graph lineage, the attempt and run counters
  against a specification over the history, and who may move a node.
\<close>

definition fold_events ::
  "fold_env \<Rightarrow> event_envelope list \<Rightarrow> execution_projection \<times> holds
   \<Rightarrow> replay_error + (execution_projection \<times> holds)" where
  "fold_events env = foldE (apply_projection_event env)"

abbreviation from_genesis ::
  "fold_env \<Rightarrow> event_envelope list \<Rightarrow> replay_error + (execution_projection \<times> holds)" where
  "from_genesis env evs \<equiv> fold_events env evs (default_projection, om_empty)"

lemma from_genesis_snoc:
  "from_genesis env (evs @ [ev]) = Inr st \<longleftrightarrow>
    (\<exists>u. from_genesis env evs = Inr u \<and> apply_projection_event env ev u = Inr st)"
  by (simp add: fold_events_def foldE_snoc_Inr)

lemma fold_events_Nil [simp]: "fold_events env [] st = Inr st"
  by (simp add: fold_events_def)


section \<open>Legal holds\<close>

definition holds_inv :: "execution_projection \<times> holds \<Rightarrow> bool" where
  "holds_inv st \<longleftrightarrow>
    (\<forall>e. os_member (p_legal_holds (fst st)) e \<longleftrightarrow> (\<exists>h. os_member (snd st) (e, h)))"

lemma os_member_remove [simp]: "os_member (om_remove k s) x \<longleftrightarrow> x \<noteq> k \<and> os_member s x"
  by (simp add: os_member_def)

lemma fold_projection_holds: "fold_projection env ev p = Inr q \<Longrightarrow> p_legal_holds q = p_legal_holds p"
  by (cases "env_kind ev") (auto simp: fold_projection_def dest!: fold_frames)

lemma update_legal_hold_inv:
  assumes inv: "holds_inv (p, a)"
  shows "holds_inv (update_legal_hold_projection e h s (p, a))"
proof (cases s)
  case Placed
  with inv show ?thesis by (auto simp: holds_inv_def update_legal_hold_projection_def)
next
  case Released
  let ?a = "om_remove (e, h) a"
  have keys: "list_ex (\<lambda>(key, _). key = e) (om_keys ?a) \<longleftrightarrow> (\<exists>h'. os_member ?a (e, h'))"
    by (auto simp: list_ex_iff os_member_def)
  have other: "(\<exists>h'. os_member ?a (x, h')) \<longleftrightarrow> (\<exists>h'. os_member a (x, h'))" if "x \<noteq> e" for x
    using that by auto
  show ?thesis
    using inv other unfolding holds_inv_def update_legal_hold_projection_def Released
    by (auto simp: keys Let_def) metis
qed

lemma holds_inv_step:
  assumes inv: "holds_inv st" and step: "apply_projection_event env ev st = Inr st'"
  shows "holds_inv st'"
proof -
  obtain p a q b where st: "st = (p, a)" "st' = (q, b)" by (cases st; cases st') simp
  obtain x where s: "stamp_stream ev p = p\<lparr>p_stream_id := x\<rparr>" using stamp_stream_fields by blast
  have i: "holds_inv (stamp_stream ev p, a)" using inv by (simp add: st s holds_inv_def)
  from apply_projection_event_Inr [OF step [unfolded st]] show ?thesis
  proof (elim disjE exE conjE)
    fix pl assume "(q, b) = update_legal_hold_projection
        (scoped_evidence_key (elh_evidence_scope pl) (elh_evidence_id pl)) (elh_hold_id pl)
        (elh_state pl) (stamp_stream ev p, a)"
    then show ?thesis using update_legal_hold_inv [OF i] by (simp add: st)
  next
    assume "fold_projection env ev (stamp_stream ev p) = Inr q" "b = a"
    then show ?thesis using i by (simp add: st holds_inv_def fold_projection_holds)
  qed
qed

interpretation legal_holds: fold_invariant "apply_projection_event env" holds_inv for env
  by unfold_locales (rule holds_inv_step)


section \<open>Resource guards\<close>

definition within_guard :: "('k::linorder, 'v) omap \<Rightarrow> bool" where
  "within_guard m \<longleftrightarrow> om_len m \<le> MAX_PROJECTION_NODES"

definition guarded :: "execution_projection \<Rightarrow> bool" where
  "guarded p \<longleftrightarrow>
    within_guard (p_memory_records p) \<and> within_guard (p_dream_runs p) \<and>
    within_guard (p_node_attempts p) \<and> within_guard (p_open_waits p) \<and>
    within_guard (p_open_claims p) \<and> within_guard (p_exception_marked p) \<and>
    within_guard (p_customs_scans p) \<and> within_guard (p_clearance_registry p) \<and>
    within_guard (p_agent_presence p) \<and> within_guard (p_red_checks p) \<and>
    within_guard (p_delegation_choices p) \<and> within_guard (p_subagents p) \<and>
    list_all (\<lambda>h. length h \<le> MAX_PROJECTION_NODES) (om_values (p_customs_scans p))"

lemma within_guard_empty [simp]: "within_guard om_empty"
  by (simp add: within_guard_def)

lemma within_guard_insert: "within_guard m \<Longrightarrow> \<not> full_for m k \<Longrightarrow> within_guard (om_insert k v m)"
  by (auto simp: within_guard_def full_for_def om_len_insert)

lemma within_guard_remove [simp]: "within_guard m \<Longrightarrow> within_guard (om_remove k m)"
  unfolding within_guard_def using om_len_remove_le le_trans by blast

lemma within_guard_map [simp]: "within_guard (om_map f m) = within_guard m"
  by (simp add: within_guard_def)

lemma list_all_values: "list_all P (om_values m) \<longleftrightarrow> (\<forall>k v. om_get m k = Some v \<longrightarrow> P v)"
  by (auto simp: list_all_iff om_values_def om_in_entries [symmetric])

lemma record_scan_guarded:
  assumes "guarded p" "record_scan n s p = Inr q"
  shows "guarded q"
proof -
  have q: "q = p\<lparr>p_customs_scans := om_insert n (scans_of p n @ [s]) (p_customs_scans p)\<rparr>"
    and nf: "\<not> full_for (p_customs_scans p) n" and l: "length (scans_of p n) < MAX_PROJECTION_NODES"
    using assms(2) by (auto simp: record_scan_def full_for_def split: if_splits)
  show ?thesis
    using assms(1) l within_guard_insert [OF _ nf]
    by (auto simp: q guarded_def list_all_values split: if_splits)
qed


lemma guarded_node_states [simp]: "guarded (p\<lparr>p_node_states := x\<rparr>) = guarded p"
  by (simp add: guarded_def)

lemma guarded_stream [simp]: "guarded (p\<lparr>p_stream_id := x\<rparr>) = guarded p"
  by (simp add: guarded_def)

lemma guarded_holds [simp]: "guarded (p\<lparr>p_legal_holds := x\<rparr>) = guarded p"
  by (simp add: guarded_def)

lemma guarded_clearances [simp]: "guarded (p\<lparr>p_clearances := x\<rparr>) = guarded p"
  by (simp add: guarded_def)

lemma guarded_open_waits: "guarded p \<Longrightarrow> within_guard x \<Longrightarrow> guarded (p\<lparr>p_open_waits := x\<rparr>)"
  by (simp add: guarded_def)

lemma guarded_open_claims: "guarded p \<Longrightarrow> within_guard x \<Longrightarrow> guarded (p\<lparr>p_open_claims := x\<rparr>)"
  by (simp add: guarded_def)

lemma guardedD: "guarded p \<Longrightarrow> within_guard (p_open_waits p)" "guarded p \<Longrightarrow> within_guard (p_open_claims p)"
  by (simp_all add: guarded_def)

lemmas guarded_intros = guarded_open_waits guarded_open_claims guardedD within_guard_insert
  within_guard_remove

lemma move_wait_guarded:
  assumes "guarded p" "move_wait env ev pl p = Inr q"
  shows "guarded q"
proof -
  have 1: "guarded (p\<lparr>p_open_waits := om_insert n w (p_open_waits p)\<rparr>)"
    if "\<not> full_for (p_open_waits p) n" for n w
    using that assms(1) by (simp add: guarded_intros)
  show ?thesis
    using assms by (auto simp: move_wait_def Let_def guarded_intros split: if_splits
        dest: record_scan_guarded [OF 1])
qed

lemma count_attempt_guarded:
  "\<lbrakk> guarded p; \<not> full_for (p_node_attempts p) (nor_node_id pl); count_attempt pl p = Inr q \<rbrakk> \<Longrightarrow> guarded q"
  by (auto simp: count_attempt_def Let_def guarded_def within_guard_insert split: if_splits)

lemma count_run_guarded: "guarded p \<Longrightarrow> count_run pl p = Inr q \<Longrightarrow> guarded q"
  by (drule count_run_Inr) (auto simp: guarded_def)

lemma node_outcome_guarded:
  assumes "guarded p" "fold_node_outcome_recorded env ev pl p = Inr q"
  shows "guarded q"
proof -
  obtain a b c where "\<not> full_for (p_node_attempts p) (nor_node_id pl)" "count_attempt pl p = Inr a"
    "count_run pl a = Inr b" "move_wait env ev pl b = Inr c"
    and q: "q = c\<lparr>p_node_states := om_insert (nor_node_id pl) (nor_next_state pl) (p_node_states c)\<rparr>"
    using assms(2) by (auto simp: fold_node_outcome_recorded_def split: if_splits)
  then have "guarded c"
    using assms(1) by (blast intro: count_attempt_guarded count_run_guarded move_wait_guarded)
  then show ?thesis by (simp add: q)
qed

lemma completion_claimed_guarded:
  assumes g: "guarded p" and f: "fold_completion_claimed env ev pl p = Inr q"
  shows "guarded q"
proof -
  have 1: "guarded (p\<lparr>p_open_claims := om_insert k c (p_open_claims p)\<rparr>)"
    if "om_len (p_open_claims p) < MAX_PROJECTION_NODES" for k c
    using that g by (intro guarded_open_claims) (simp_all add: within_guard_def om_len_insert)
  show ?thesis
    using f g by (auto simp: fold_completion_claimed_def Let_def not_le split: if_splits
        dest: record_scan_guarded [OF 1])
qed

lemma completion_cleared_guarded:
  assumes g: "guarded p" and f: "fold_completion_cleared ev pl p = Inr q"
  shows "guarded q"
proof -
  have 1: "guarded (p\<lparr>p_open_claims := om_remove k (p_open_claims p), p_clearances := x\<rparr>)" for k x
    using g by (simp add: guarded_intros)
  have 2: "guarded (p\<lparr>p_open_claims := om_remove k (p_open_claims p), p_clearances := x,
      p_open_waits := om_remove n (p_open_waits p)\<rparr>)" for k x n
    using guarded_open_waits [OF 1] guardedD(1) [OF g] by simp
  show ?thesis
    using f by (auto simp: fold_completion_cleared_def Let_def split: if_splits option.splits
        dest: record_scan_guarded [OF 1] record_scan_guarded [OF 2])
qed

lemma completion_rejected_guarded:
  assumes g: "guarded p" and f: "fold_completion_rejected ev pl p = Inr q"
  shows "guarded q"
proof -
  have 1: "guarded (p\<lparr>p_open_claims := om_remove k (p_open_claims p)\<rparr>)" for k
    using g by (simp add: guarded_intros)
  show ?thesis
    using f by (auto simp: fold_completion_rejected_def split: if_splits option.splits
        dest: record_scan_guarded [OF 1])
qed

lemma dlq_guarded:
  "guarded p \<Longrightarrow> fold_dlq_routed ev pl p = Inr q \<Longrightarrow> guarded q"
  "guarded p \<Longrightarrow> fold_dlq_returned env ev pl' p = Inr q \<Longrightarrow> guarded q"
  "guarded p \<Longrightarrow> fold_dlq_redrive env ev pl'' p = Inr q \<Longrightarrow> guarded q"
  "guarded p \<Longrightarrow> fold_completion_refused ev pl3 p = Inr q \<Longrightarrow> guarded q"
proof -
  assume g: "guarded p"
  have 1: "guarded (p\<lparr>p_open_waits := om_remove n (p_open_waits p), p_open_claims := om_map f (p_open_claims p)\<rparr>)"
    for n f using g by (simp add: guarded_def)
  show "fold_dlq_routed ev pl p = Inr q \<Longrightarrow> guarded q"
    by (auto simp: fold_dlq_routed_def Let_def split: if_splits dest: record_scan_guarded [OF 1])
  have 2: "guarded (p\<lparr>p_open_claims := om_map f (p_open_claims p)\<rparr>)" for f
    using g by (simp add: guarded_def)
  show "fold_dlq_redrive env ev pl'' p = Inr q \<Longrightarrow> guarded q"
    by (auto simp: fold_dlq_redrive_def Let_def split: if_splits dest: record_scan_guarded [OF 2])
  have 3: "guarded (p\<lparr>p_open_waits := om_insert n w (p_open_waits p)\<rparr>)"
    if "\<not> full_for (p_open_waits p) n" for n w
    using that g by (simp add: guarded_intros)
  show "fold_dlq_returned env ev pl' p = Inr q \<Longrightarrow> guarded q"
    by (auto simp: fold_dlq_returned_def Let_def split: if_splits dest: record_scan_guarded [OF 3])
  show "fold_completion_refused ev pl3 p = Inr q \<Longrightarrow> guarded q"
    using g by (auto simp: fold_completion_refused_def split: if_splits intro: record_scan_guarded)
qed

lemma memory_superseded_guarded:
  assumes "guarded p" "fold_memory_record_superseded ev pl p = Inr q"
  shows "guarded q"
proof -
  let ?m = "p_memory_records p" and ?pre = "mrs_predecessor_id pl" and ?suc = "mrs_successor_id pl"
  have "om_len (om_insert ?suc v (om_insert ?pre w ?m)) \<le> MAX_PROJECTION_NODES" for v w
    using assms by (auto simp: fold_memory_record_superseded_def Let_def om_len_insert guarded_def
        within_guard_def split: if_splits)
  then show ?thesis
    using assms by (auto simp: fold_memory_record_superseded_def Let_def guarded_def within_guard_def
        split: if_splits)
qed

lemmas special_guarded = node_outcome_guarded completion_claimed_guarded completion_cleared_guarded
  completion_rejected_guarded dlq_guarded memory_superseded_guarded

lemma plain_guarded:
  assumes g: "guarded p"
  shows "fold_memory_publication_transitioned ev a1 p = Inr q \<Longrightarrow> guarded q"
    and "fold_memory_validation_recorded ev a2 p = Inr q \<Longrightarrow> guarded q"
    and "fold_dream_shadow_recorded ev a3 p = Inr q \<Longrightarrow> guarded q"
    and "fold_clearance_identity_registered ev a4 p = Inr q \<Longrightarrow> guarded q"
    and "fold_clearance_identity_revoked ev a5 p = Inr q \<Longrightarrow> guarded q"
    and "fold_gate_verdict ev a6 p = Inr q \<Longrightarrow> guarded q"
    and "fold_delegation_chosen ev a7 p = Inr q \<Longrightarrow> guarded q"
    and "fold_subagent_reused ev a8 p = Inr q \<Longrightarrow> guarded q"
    and "fold_agent_presence_declared ev a9 p = Inr q \<Longrightarrow> guarded q"
    and "fold_overdue_exception ev a10 p = Inr q \<Longrightarrow> guarded q"
  using g by (auto simp: fold_memory_publication_transitioned_def fold_memory_validation_recorded_def
      fold_dream_shadow_recorded_def fold_clearance_identity_registered_def
      fold_clearance_identity_revoked_def fold_gate_verdict_def fold_delegation_chosen_def
      fold_subagent_reused_def fold_agent_presence_declared_def fold_overdue_exception_def
      guarded_def within_guard_insert Let_def os_insert_def split: if_splits)

text \<open>Every other arm leaves the guarded maps alone.\<close>

lemma fold_projection_guarded:
  assumes g: "guarded p" and f: "fold_projection env ev p = Inr q"
  shows "guarded q"
  using f
  by (cases "env_kind ev", simp_all add: fold_projection_def)
     (erule special_guarded [OF g] plain_guarded [OF g]
       | use g in \<open>auto dest!: fold_frames simp: guarded_def; fail\<close>)+

lemma guarded_step:
  assumes "guarded (fst st)" "apply_projection_event env ev st = Inr st'"
  shows "guarded (fst st')"
proof -
  obtain p a q b where st: "st = (p, a)" "st' = (q, b)" by (cases st; cases st') simp
  obtain x r y where r: "fold_projection env ev (p\<lparr>p_stream_id := x\<rparr>) = Inr r" "q = r\<lparr>p_legal_holds := y\<rparr>"
    using assms(2) unfolding st by (rule apply_event_arm)
  have "guarded r" by (rule fold_projection_guarded [OF _ r(1)]) (use assms(1) st in simp)
  then show ?thesis by (simp add: st r(2))
qed

interpretation guards: fold_invariant "apply_projection_event env" "\<lambda>st. guarded (fst st)" for env
  by unfold_locales (rule guarded_step)


section \<open>Who moves a node\<close>

lemma fold_projection_moves:
  assumes f: "fold_projection env ev p = Inr q"
    and moved: "om_get (p_node_states q) n \<noteq> om_get (p_node_states p) n"
  shows "(\<exists>pl. env_kind ev = NodeStateChanged pl \<and> nsc_node_id pl = n) \<or>
    (\<exists>pl. env_kind ev = NodeOutcomeRecorded pl \<and> nor_node_id pl = n \<and> in_execution p (nor_execution_id pl)) \<or>
    (\<exists>pl. env_kind ev = GhostNodeProposed pl \<and> gnp_node_id pl = n \<and> om_get (p_node_states q) n = Some S_Ghost) \<or>
    (\<exists>pl claim. env_kind ev = CompletionCleared pl \<and> in_execution p (ccd_execution_id pl) \<and>
        om_get (p_open_claims p) (ccd_claim_seq pl) = Some claim \<and> oc_node claim = n \<and>
        clearance_verdict p claim (ccd_verifier pl) = Cleared \<and> om_get (p_node_states q) n = Some S_Succeeded)"
proof (cases "env_kind ev")
  case (NodeStateChanged pl)
  then show ?thesis
    using f moved by (auto simp: fold_projection_def fold_node_state_changed_def split: if_splits)
next
  case (NodeOutcomeRecorded pl)
  then show ?thesis
    using f moved by (auto simp: fold_projection_def fold_node_outcome_recorded_def split: if_splits
        dest!: count_attempt_Inr count_run_Inr move_wait_Inr)
next
  case (GhostNodeProposed pl)
  then show ?thesis
    using f moved by (auto simp: fold_projection_def fold_ghost_node_proposed_def split: if_splits)
next
  case (CompletionCleared pl)
  then show ?thesis
    using f moved by (auto simp: fold_projection_def fold_completion_cleared_def Let_def
        split: if_splits option.splits dest!: record_scan_Inr)
qed (use f moved in \<open>auto simp: fold_projection_def dest!: fold_frames\<close>)


section \<open>Attempts and runs against the history\<close>

definition node_attempts_of :: "execution_projection \<Rightarrow> string \<Rightarrow> u32" where
  "node_attempts_of p n = (case om_get (p_node_attempts p) n of None \<Rightarrow> 0 | Some a \<Rightarrow> a)"

definition is_attempt :: "string \<Rightarrow> event_envelope \<Rightarrow> bool" where
  "is_attempt n ev = (case env_kind ev of
      NodeOutcomeRecorded pl \<Rightarrow> nor_node_id pl = n \<and> nor_outcome pl = O_Started \<and> nor_next_state pl = S_Running
    | _ \<Rightarrow> False)"

definition outcome_at :: "string \<Rightarrow> event_envelope \<Rightarrow> node_outcome option" where
  "outcome_at n ev = (case env_kind ev of
      NodeOutcomeRecorded pl \<Rightarrow> if nor_node_id pl = n \<and> nor_outcome pl \<noteq> O_Started then Some (nor_outcome pl) else None
    | _ \<Rightarrow> None)"

definition outcomes_of :: "string \<Rightarrow> event_envelope list \<Rightarrow> node_outcome list" where
  "outcomes_of n evs = List.map_filter (outcome_at n) evs"

definition final_run :: "node_outcome \<Rightarrow> node_outcome list \<Rightarrow> nat" where
  "final_run out os = length (takeWhile (\<lambda>x. x = out) (rev os))"

lemma outcomes_of_snoc:
  "outcomes_of n (evs @ [ev]) = outcomes_of n evs @ (case outcome_at n ev of None \<Rightarrow> [] | Some x \<Rightarrow> [x])"
  by (simp add: outcomes_of_def List.map_filter_def split: option.split)

lemma count_attempt_attempts:
  assumes "count_attempt pl p = Inr q"
  shows "unat (node_attempts_of q n) = unat (node_attempts_of p n) +
    (if nor_node_id pl = n \<and> nor_outcome pl = O_Started \<and> nor_next_state pl = S_Running then 1 else 0)"
  using assms
  by (auto simp: count_attempt_def Let_def node_attempts_of_def dest!: checked_add_Some
      split: if_splits option.splits)

lemma fold_projection_attempts:
  assumes "fold_projection env ev p = Inr q"
  shows "unat (node_attempts_of q n) = unat (node_attempts_of p n) + (if is_attempt n ev then 1 else 0)"
proof (cases "env_kind ev")
  case (NodeOutcomeRecorded pl)
  then obtain a where a: "count_attempt pl p = Inr a" and q: "p_node_attempts q = p_node_attempts a"
    using assms by (auto simp: fold_projection_def fold_node_outcome_recorded_def split: if_splits
        dest!: count_run_Inr move_wait_Inr)
  show ?thesis
    using count_attempt_attempts [OF a, of n] NodeOutcomeRecorded q
    by (simp add: node_attempts_of_def is_attempt_def)
qed (use assms in \<open>auto simp: fold_projection_def is_attempt_def node_attempts_of_def dest!: fold_frames\<close>)

definition run_inv :: "execution_projection \<Rightarrow> string \<Rightarrow> node_outcome list \<Rightarrow> bool" where
  "run_inv p n os \<longleftrightarrow>
    om_get (p_last_outcome p) n = (if os = [] then None else Some (last os)) \<and>
    (os \<noteq> [] \<longrightarrow> (\<exists>r. om_get (p_identical_outcomes p) n = Some r \<and> unat r = final_run (last os) os))"

lemma final_run_snoc: "final_run out (os @ [x]) = (if x = out then Suc (final_run out os) else 0)"
  by (simp add: final_run_def)

lemma count_run_inv:
  assumes inv: "run_inv p n os" and f: "count_run pl p = Inr q"
  shows "run_inv q n (os @ (if nor_node_id pl = n \<and> nor_outcome pl \<noteq> O_Started then [nor_outcome pl] else []))"
proof (cases "nor_node_id pl = n \<and> nor_outcome pl \<noteq> O_Started")
  case True
  have other: "final_run (nor_outcome pl) os = 0" if "om_get (p_last_outcome p) n \<noteq> Some (nor_outcome pl)"
    using that inv by (cases os rule: rev_cases) (auto simp: run_inv_def final_run_def)
  show ?thesis
    using True f inv other
    by (cases "om_get (p_last_outcome p) n = Some (nor_outcome pl)")
       (auto simp: count_run_def Let_def run_inv_def final_run_snoc dest!: checked_add_Some split: if_splits)
next
  case False
  then show ?thesis
    using f inv by (auto simp: count_run_def Let_def run_inv_def split: if_splits)
qed

lemma fold_projection_run:
  assumes "run_inv p n os" "fold_projection env ev p = Inr q"
  shows "run_inv q n (os @ (case outcome_at n ev of None \<Rightarrow> [] | Some x \<Rightarrow> [x]))"
proof (cases "env_kind ev")
  case (NodeOutcomeRecorded pl)
  then obtain a b where a: "count_attempt pl p = Inr a" and b: "count_run pl a = Inr b"
    and q: "p_last_outcome q = p_last_outcome b" "p_identical_outcomes q = p_identical_outcomes b"
    using assms by (auto simp: fold_projection_def fold_node_outcome_recorded_def split: if_splits
        dest!: move_wait_Inr)
  have "run_inv a n os" using assms(1) count_attempt_Inr [OF a] by (auto simp: run_inv_def)
  from count_run_inv [OF this b] NodeOutcomeRecorded q show ?thesis
    by (auto simp: run_inv_def outcome_at_def split: if_splits)
qed (use assms in \<open>auto simp: fold_projection_def outcome_at_def run_inv_def dest!: fold_frames\<close>)


section \<open>Lineage and facts written once\<close>

definition is_publication :: "event_envelope \<Rightarrow> bool" where
  "is_publication ev = (case env_kind ev of GraphVersionPublished _ \<Rightarrow> True | _ \<Rightarrow> False)"

definition lineage_inv :: "execution_projection \<Rightarrow> nat \<Rightarrow> bool" where
  "lineage_inv p k \<longleftrightarrow>
    (case p_current_graph p of None \<Rightarrow> k = 0 | Some g \<Rightarrow> unat (pgv_number g) = k \<and> 0 < k)"

lemma follows_active_number:
  "follows_active active v \<Longrightarrow>
    unat (pgv_number v) = Suc (case active of None \<Rightarrow> 0 | Some g \<Rightarrow> unat (pgv_number g))"
  by (auto simp: follows_active_def dest: checked_add_Some split: option.splits)

lemma fold_projection_lineage:
  assumes "lineage_inv p k" "fold_projection env ev p = Inr q"
  shows "lineage_inv q (k + (if is_publication ev then 1 else 0))"
proof (cases "env_kind ev")
  case (GraphVersionPublished pl)
  then have "follows_active (p_current_graph p) (gvp_version pl)" "p_current_graph q = Some (gvp_version pl)"
    using assms(2) by (auto simp: fold_projection_def fold_graph_version_published_def Let_def split: if_splits)
  then show ?thesis
    using assms(1) GraphVersionPublished follows_active_number [of "p_current_graph p" "gvp_version pl"]
    by (auto simp: lineage_inv_def is_publication_def split: option.splits)
qed (use assms in \<open>auto simp: fold_projection_def is_publication_def lineage_inv_def dest!: fold_frames\<close>)

definition kept :: "'a option \<Rightarrow> 'a option \<Rightarrow> bool" where
  "kept before after \<longleftrightarrow> before = None \<or> after = before"

definition write_once :: "execution_projection \<Rightarrow> execution_projection \<Rightarrow> bool" where
  "write_once p q \<longleftrightarrow> kept (p_execution_id p) (p_execution_id q) \<and>
    kept (p_declared_form p) (p_declared_form q) \<and>
    kept (p_started_graph_version p) (p_started_graph_version q) \<and>
    (\<forall>n. kept (om_get (p_node_assignments p) n) (om_get (p_node_assignments q) n)) \<and>
    (\<forall>v. kept (om_get (p_authoring_snapshots p) v) (om_get (p_authoring_snapshots q) v))"

lemma write_once_refl [simp]: "write_once p p"
  by (simp add: write_once_def kept_def)

lemma kept_trans: "kept x y \<Longrightarrow> kept y z \<Longrightarrow> kept x z"
  by (auto simp: kept_def)

lemma write_once_trans: "write_once p q \<Longrightarrow> write_once q r \<Longrightarrow> write_once p r"
  unfolding write_once_def by (blast intro: kept_trans)

definition started_inv :: "execution_projection \<Rightarrow> bool" where
  "started_inv p \<longleftrightarrow> (p_execution_id p = None \<longrightarrow> p_started_graph_version p = None)"

lemma fold_projection_write_once:
  assumes "started_inv p" "fold_projection env ev p = Inr q"
  shows "write_once p q \<and> started_inv q"
proof (cases "env_kind ev")
  case (ExecutionStarted pl)
  then show ?thesis using assms
    by (auto simp: fold_projection_def fold_execution_started_def write_once_def kept_def started_inv_def split: if_splits)
next
  case (ExecutionFormDeclared pl)
  then show ?thesis using assms
    by (auto simp: fold_projection_def fold_execution_form_declared_def write_once_def kept_def started_inv_def split: if_splits)
next
  case (NodeAssigned pl)
  then show ?thesis using assms
    by (auto simp: fold_projection_def fold_node_assigned_def write_once_def kept_def started_inv_def
        om_contains_def split: if_splits)
next
  case (GraphAuthoringSnapshotStored pl)
  then show ?thesis using assms
    by (auto simp: fold_projection_def fold_graph_authoring_snapshot_stored_def write_once_def kept_def
        started_inv_def om_contains_def split: if_splits list.splits)
qed (use assms in \<open>auto simp: fold_projection_def write_once_def kept_def started_inv_def dest!: fold_frames\<close>)


section \<open>Lifting to histories\<close>

definition history_inv :: "string \<Rightarrow> event_envelope list \<Rightarrow> execution_projection \<Rightarrow> bool" where
  "history_inv n evs p \<longleftrightarrow> unat (node_attempts_of p n) = length (filter (is_attempt n) evs) \<and>
    run_inv p n (outcomes_of n evs) \<and> lineage_inv p (length (filter is_publication evs)) \<and> started_inv p"

lemma history_inv_insensitive [simp]:
  "history_inv n evs (p\<lparr>p_stream_id := x\<rparr>) = history_inv n evs p"
  "history_inv n evs (p\<lparr>p_legal_holds := y\<rparr>) = history_inv n evs p"
  by (simp_all add: history_inv_def node_attempts_of_def run_inv_def lineage_inv_def started_inv_def)

lemma history_inv_step:
  assumes "history_inv n evs p" "fold_projection env ev p = Inr q"
  shows "history_inv n (evs @ [ev]) q"
proof -
  have i: "unat (node_attempts_of p n) = length (filter (is_attempt n) evs)" "run_inv p n (outcomes_of n evs)"
    "lineage_inv p (length (filter is_publication evs))" "started_inv p"
    using assms(1) by (simp_all add: history_inv_def)
  show ?thesis
    using fold_projection_attempts [OF assms(2), of n] fold_projection_run [OF i(2) assms(2)]
      fold_projection_lineage [OF i(3) assms(2)] fold_projection_write_once [OF i(4) assms(2)] i(1)
    by (cases "is_publication ev") (simp_all add: history_inv_def outcomes_of_snoc)
qed

lemma genesis_history:
  "from_genesis env evs = Inr (p, a) \<Longrightarrow> history_inv n evs p"
proof (induction evs arbitrary: p a rule: rev_induct)
  case Nil
  then show ?case
    by (auto simp: history_inv_def default_projection_def node_attempts_of_def run_inv_def outcomes_of_def
        List.map_filter_def lineage_inv_def started_inv_def)
next
  case (snoc ev evs)
  then obtain p0 a0 where p0: "from_genesis env evs = Inr (p0, a0)"
    and step: "apply_projection_event env ev (p0, a0) = Inr (p, a)"
    by (auto simp: from_genesis_snoc)
  obtain x r y where r: "fold_projection env ev (p0\<lparr>p_stream_id := x\<rparr>) = Inr r" "p = r\<lparr>p_legal_holds := y\<rparr>"
    using step by (rule apply_event_arm)
  have "history_inv n (evs @ [ev]) r"
    by (rule history_inv_step [OF _ r(1)]) (use snoc.IH [OF p0] in simp)
  then show ?case by (simp add: r(2))
qed

lemma run_inv_run:
  "run_inv p n outs \<Longrightarrow> unat (identical_outcomes_for p n out) = final_run out outs"
  by (cases outs rule: rev_cases) (auto simp: run_inv_def identical_outcomes_for_def final_run_def)

lemma write_once_step:
  assumes "apply_projection_event env ev (p, a) = Inr (q, b)" "started_inv p"
  shows "write_once p q \<and> started_inv q"
proof -
  obtain x r y where r: "fold_projection env ev (p\<lparr>p_stream_id := x\<rparr>) = Inr r" "q = r\<lparr>p_legal_holds := y\<rparr>"
    using assms(1) by (rule apply_event_arm)
  have "started_inv (p\<lparr>p_stream_id := x\<rparr>)" using assms(2) by (simp add: started_inv_def)
  from fold_projection_write_once [OF this r(1)] show ?thesis
    by (simp add: r(2) write_once_def started_inv_def)
qed

lemma write_once_fold:
  "fold_events env evs (p, a) = Inr (q, b) \<Longrightarrow> started_inv p \<Longrightarrow> write_once p q"
proof (induction evs arbitrary: p a)
  case (Cons ev evs)
  then obtain p1 a1 where s: "apply_projection_event env ev (p, a) = Inr (p1, a1)"
    and r: "fold_events env evs (p1, a1) = Inr (q, b)"
    by (auto simp: fold_events_def)
  from write_once_step [OF s Cons.prems(2)] Cons.IH [OF r] show ?case
    by (blast intro: write_once_trans)
qed simp


section \<open>Sample histories\<close>

definition sample_env :: fold_env where
  "sample_env = \<lparr>fe_sha_hex = (\<lambda>_. replicate 64 CHR ''0''), fe_validate_persisted_projection = (\<lambda>_. True),
     fe_add_seconds = (\<lambda>t s. Some (t + s * 1000000000))\<rparr>"

definition sample_actor :: persisted_actor where
  "sample_actor = \<lparr>pa_actor_type = Owner, pa_id = ''owner''\<rparr>"

definition sample_event :: "u64 \<Rightarrow> event_kind \<Rightarrow> event_envelope" where
  "sample_event n k = \<lparr>env_schema_version = V1, env_event_id = ''event'', env_scope = sample_scope,
     env_stream_id = ''stream'', env_sequence = n, env_occurred_at = 0, env_idempotency_key = ''key'',
     env_actor = sample_actor, env_sensitivity = Internal, env_kind = k, env_evidence_refs = [],
     env_artifact_refs = [], env_previous_hash = GENESIS_HASH, env_event_hash = GENESIS_HASH\<rparr>"

definition started_kind :: event_kind where
  "started_kind = ExecutionStarted \<lparr>est_execution_id = ''e'', est_graph_version = 1, est_graph_hash = ''h'',
     est_mode = Supervised\<rparr>"

definition outcome_kind :: "string \<Rightarrow> node_outcome \<Rightarrow> node_state \<Rightarrow> event_kind" where
  "outcome_kind n out s = NodeOutcomeRecorded \<lparr>nor_crash_site = None, nor_execution_id = ''e'',
     nor_node_id = n, nor_outcome = out, nor_next_state = s, nor_executor = None, nor_reason = None\<rparr>"

definition run_history :: "event_envelope list" where
  "run_history = [sample_event 1 started_kind, sample_event 2 (outcome_kind ''n'' O_Started S_Running),
     sample_event 3 (outcome_kind ''n'' O_RetryableFailure S_Queued)]"

lemmas sample_defs = sample_env_def sample_actor_def sample_event_def started_kind_def outcome_kind_def
  sample_scope_def default_projection_def

lemmas sample_fold = fold_events_def apply_projection_event_def fold_projection_def Let_def in_execution_def
  full_for_def MAX_PROJECTION_NODES_def stamp_stream_def checked_add_def fold_execution_started_def
  fold_node_outcome_recorded_def count_attempt_def count_run_def move_wait_def om_len_insert ensure_def

lemma run_history_folds: "\<exists>p. from_genesis sample_env run_history = Inr (p, om_empty)"
  by (simp add: run_history_def sample_defs sample_fold)


section \<open>Properties\<close>

text \<open>C28: the counters are the history. Folding a journal from the start leaves, for every node, as
  many attempts as the journal has \<open>Started\<close> outcomes that entered \<open>Running\<close>, and the run handed to
  the retry rule for an outcome is the length of the final run of that outcome among the node's
  recorded outcomes, dispatches aside; an outcome that is not the last one has run zero.\<close>

theorem fold_counts_history:
  assumes "from_genesis env evs = Inr (p, a)"
  shows "unat (node_attempts_of p n) = length (filter (is_attempt n) evs) \<and>
    unat (identical_outcomes_for p n out) = final_run out (outcomes_of n evs)"
  using genesis_history [OF assms, of n] by (simp add: history_inv_def run_inv_run)

theorem fold_counts_history_witness:
  "\<exists>p a. from_genesis sample_env run_history = Inr (p, a) \<and> unat (node_attempts_of p ''n'') = 1 \<and>
     unat (identical_outcomes_for p ''n'' O_RetryableFailure) = 1"
proof -
  obtain p where p: "from_genesis sample_env run_history = Inr (p, om_empty)" using run_history_folds ..
  have "length (filter (is_attempt ''n'') run_history) = 1"
    by (simp add: run_history_def is_attempt_def sample_event_def started_kind_def outcome_kind_def)
  moreover have "final_run O_RetryableFailure (outcomes_of ''n'' run_history) = 1"
    by (simp add: run_history_def outcomes_of_def List.map_filter_def outcome_at_def final_run_def
        sample_event_def started_kind_def outcome_kind_def)
  ultimately show ?thesis using p fold_counts_history [OF p, of "''n''" O_RetryableFailure] by auto
qed

text \<open>legal holds are exact. After any journal, an Evidence item is reported under legal hold
  exactly when some hold placed on it has not been released: releasing one of several holds does
  not lift the others.\<close>

theorem legal_holds_exact:
  assumes "from_genesis env evs = Inr (p, active)"
  shows "os_member (p_legal_holds p) e \<longleftrightarrow> (\<exists>h. os_member active (e, h))"
proof -
  have "holds_inv (default_projection, om_empty)" by (simp add: holds_inv_def default_projection_def)
  from legal_holds.fold_keeps [OF this assms [unfolded fold_events_def]] show ?thesis
    by (simp add: holds_inv_def)
qed

definition hold_kind :: "string \<Rightarrow> legal_hold_state \<Rightarrow> event_kind" where
  "hold_kind h s = EvidenceLegalHoldChanged \<lparr>elh_evidence_scope = sample_scope, elh_hold_id = h,
     elh_evidence_id = ''ev'', elh_authority = ''a'', elh_reason_code = ''r'', elh_state = s, elh_changed_at = 0\<rparr>"

definition hold_history :: "event_envelope list" where
  "hold_history = [sample_event 1 (hold_kind ''h1'' Placed), sample_event 2 (hold_kind ''h2'' Placed),
     sample_event 3 (hold_kind ''h1'' Released)]"

theorem legal_holds_exact_witness:
  "\<exists>p a. from_genesis sample_env hold_history = Inr (p, a) \<and>
     os_member (p_legal_holds p) (ScopedEvidenceId sample_scope ''ev'')"
proof -
  let ?e = "ScopedEvidenceId sample_scope ''ev''"
  have "\<exists>p a. from_genesis sample_env hold_history = Inr (p, a) \<and> os_member a (?e, ''h2'')"
    by (simp add: hold_history_def hold_kind_def sample_event_def sample_fold update_legal_hold_projection_def
        scoped_evidence_key_def)
  then obtain p a where p: "from_genesis sample_env hold_history = Inr (p, a)" "os_member a (?e, ''h2'')"
    by blast
  with legal_holds_exact [OF p(1), of ?e] show ?thesis by blast
qed

text \<open>C36: the resource guards hold. Whatever journal is folded, every guarded map of the projection
  (memory records, dream runs, attempts, open waits, open claims, marked episodes, customs scans,
  clearance registry, presence, red checks, delegation choices, subagents) stays within
  \<open>MAX_PROJECTION_NODES\<close> entries, and so does the scan history of every node.\<close>

theorem fold_keeps_guards:
  assumes "from_genesis env evs = Inr (p, a)"
  shows "guarded p"
proof -
  have "guarded (fst (default_projection, om_empty))"
    by (simp add: guarded_def default_projection_def om_values_def)
  from guards.fold_keeps [OF this assms [unfolded fold_events_def]] show ?thesis by simp
qed

theorem fold_keeps_guards_witness:
  "\<exists>p a. from_genesis sample_env run_history = Inr (p, a) \<and> om_len (p_node_attempts p) \<le> 10000"
proof -
  obtain p where p: "from_genesis sample_env run_history = Inr (p, om_empty)" using run_history_folds ..
  with fold_keeps_guards [OF p] show ?thesis
    by (auto simp: guarded_def within_guard_def MAX_PROJECTION_NODES_def)
qed

text \<open>C37: who may move a node. When folding an event changes the state of a node, the event is a state
  change or an outcome of that very node, the proposal that introduces it as a ghost, or a clearance
  of a claim that was open for that node and whose verifier checks out (the replayed manifest is the
  claimed evidence, or the countersigning key is the registered one), and then the node succeeded.
  In particular a completion claim, a refusal, a rejection and a forged clearance move nothing.\<close>

theorem node_moves_only_by_cause:
  assumes "apply_projection_event env ev (p, a) = Inr (q, b)"
    and "om_get (p_node_states q) n \<noteq> om_get (p_node_states p) n"
  shows "(\<exists>pl. env_kind ev = NodeStateChanged pl \<and> nsc_node_id pl = n) \<or>
    (\<exists>pl. env_kind ev = NodeOutcomeRecorded pl \<and> nor_node_id pl = n \<and>
        p_execution_id p = Some (nor_execution_id pl)) \<or>
    (\<exists>pl. env_kind ev = GhostNodeProposed pl \<and> gnp_node_id pl = n \<and> om_get (p_node_states q) n = Some S_Ghost) \<or>
    (\<exists>pl claim. env_kind ev = CompletionCleared pl \<and>
        om_get (p_open_claims p) (ccd_claim_seq pl) = Some claim \<and> oc_node claim = n \<and>
        om_get (p_node_states q) n = Some S_Succeeded \<and>
        (case ccd_verifier pl of
           MachineReplay mh \<Rightarrow> mh = oc_evidence_digest claim
         | Countersign ident fp \<Rightarrow> om_get (p_clearance_registry p) ident = Some fp))"
proof -
  obtain x r y where r: "fold_projection env ev (p\<lparr>p_stream_id := x\<rparr>) = Inr r" "q = r\<lparr>p_legal_holds := y\<rparr>"
    using assms(1) by (rule apply_event_arm)
  have ver: "(case v of MachineReplay mh \<Rightarrow> mh = oc_evidence_digest c
      | Countersign ident fp \<Rightarrow> om_get (p_clearance_registry p) ident = Some fp) \<longleftrightarrow>
      clearance_verdict (p\<lparr>p_stream_id := x\<rparr>) c v = Cleared" for c v
    by (cases v) (auto simp: clearance_verdict_def)
  show ?thesis
    using fold_projection_moves [OF r(1), of n] assms(2) unfolding ver
    by (simp add: r(2) in_execution_def) blast
qed

theorem node_moves_only_by_cause_witness:
  "\<exists>q. apply_projection_event sample_env (sample_event 2 (outcome_kind ''n'' O_Started S_Running))
       (default_projection\<lparr>p_execution_id := Some ''e''\<rparr>, om_empty) = Inr (q, om_empty) \<and>
     om_get (p_node_states q) ''n'' = Some S_Running \<and>
     (\<exists>pl. outcome_kind ''n'' O_Started S_Running = NodeOutcomeRecorded pl \<and> nor_node_id pl = ''n'')"
proof -
  let ?p = "default_projection\<lparr>p_execution_id := Some ''e''\<rparr>"
  let ?ev = "sample_event 2 (outcome_kind ''n'' O_Started S_Running)"
  have "\<exists>q. apply_projection_event sample_env ?ev (?p, om_empty) = Inr (q, om_empty) \<and>
      om_get (p_node_states q) ''n'' = Some S_Running"
    by (simp add: sample_defs sample_fold)
  then obtain q where q: "apply_projection_event sample_env ?ev (?p, om_empty) = Inr (q, om_empty)"
    "om_get (p_node_states q) ''n'' = Some S_Running" by blast
  have "om_get (p_node_states q) ''n'' \<noteq> om_get (p_node_states ?p) ''n''"
    using q(2) by (simp add: default_projection_def)
  from node_moves_only_by_cause [OF q(1) this] q show ?thesis
    by (auto simp: sample_event_def outcome_kind_def)
qed

text \<open>Facts written once. The execution identity, the declared form, the graph version the
  execution started on, the assignment of a node and the authoring snapshot of a version, once
  folded from the start of a journal, are never changed by any continuation of it.\<close>

theorem fold_writes_once:
  assumes "from_genesis env evs = Inr (p, a)" and "from_genesis env (evs @ rest) = Inr (q, b)"
  shows "p_execution_id p \<in> {None, p_execution_id q} \<and> p_declared_form p \<in> {None, p_declared_form q} \<and>
    p_started_graph_version p \<in> {None, p_started_graph_version q} \<and>
    om_get (p_node_assignments p) n \<in> {None, om_get (p_node_assignments q) n} \<and>
    om_get (p_authoring_snapshots p) v \<in> {None, om_get (p_authoring_snapshots q) v}"
proof -
  have "fold_events env rest (p, a) = Inr (q, b)"
    using assms by (auto simp: fold_events_def foldE_append)
  moreover have "started_inv p" using genesis_history [OF assms(1)] by (simp add: history_inv_def)
  ultimately have "write_once p q" by (rule write_once_fold)
  then show ?thesis unfolding write_once_def kept_def by simp metis
qed

theorem fold_writes_once_witness:
  "\<exists>p q a b. from_genesis sample_env [sample_event 1 started_kind] = Inr (p, a) \<and>
     from_genesis sample_env run_history = Inr (q, b) \<and>
     p_execution_id p = Some ''e'' \<and> p_execution_id q = Some ''e''"
proof -
  have "\<exists>p a. from_genesis sample_env [sample_event 1 started_kind] = Inr (p, a) \<and> p_execution_id p = Some ''e''"
    by (simp add: sample_defs sample_fold)
  then obtain p a where p: "from_genesis sample_env [sample_event 1 started_kind] = Inr (p, a)"
    "p_execution_id p = Some ''e''" by blast
  obtain q where q: "from_genesis sample_env run_history = Inr (q, om_empty)" using run_history_folds ..
  have "p_execution_id q = Some ''e''"
    using fold_writes_once [OF p(1), of "tl run_history" q om_empty] p q by (simp add: run_history_def)
  with p q show ?thesis by blast
qed

text \<open>the active graph version counts the publications. After any journal the number of the active
  version is the number of publications folded, so versions are contiguous from one and no
  publication is skipped, repeated or reordered; before the first there is no active graph.\<close>

theorem graph_version_counts_publications:
  assumes "from_genesis env evs = Inr (p, a)"
  shows "length (filter is_publication evs) =
    (case p_current_graph p of None \<Rightarrow> 0 | Some g \<Rightarrow> unat (pgv_number g))"
  using genesis_history [OF assms, of "''n''"] by (auto simp: history_inv_def lineage_inv_def split: option.splits)

definition sample_control :: persisted_control where
  "sample_control = \<lparr>pc_control_type = ''c'', pc_identifiers = om_empty, pc_digests = om_empty,
     pc_integers = om_empty, pc_flags = om_empty\<rparr>"

definition sample_persisted_node :: "persisted_customs option \<Rightarrow> persisted_node" where
  "sample_persisted_node c = \<lparr>pn_node_type = Agent, pn_optionality = Required, pn_controls = [],
     pn_content_slot_ids = [], pn_timeout_seconds = None, pn_customs = c\<rparr>"

definition sample_topology :: persisted_topology where
  "sample_topology = \<lparr>pt_graph_id = ''g'', pt_execution_id = ''e'', pt_labels = om_empty,
     pt_entrypoints = [''n''],
     pt_nodes = om_insert ''n'' (sample_persisted_node (Some \<lparr>pcu_wait_within_seconds = 60,
        pcu_clearance_within_seconds = 60, pcu_dlq_within_seconds = None\<rparr>)) om_empty,
     pt_edges = [], pt_budgets = default_budgets, pt_policies = [], pt_completion = sample_control\<rparr>"

definition publication_kind :: "u64 \<Rightarrow> persisted_graph_version_ref option \<Rightarrow> event_kind" where
  "publication_kind n pred = GraphVersionPublished \<lparr>gvp_version = \<lparr>pgv_number = n, pgv_predecessor = pred,
     pgv_topology = sample_topology, pgv_topology_hash = ''t'', pgv_semantic_hash = ''s'',
     pgv_content_slots = [], pgv_created_by = sample_actor, pgv_created_at = 0\<rparr>\<rparr>"

definition lineage_history :: "event_envelope list" where
  "lineage_history = [sample_event 1 (publication_kind 1 None),
     sample_event 2 (publication_kind 2 (Some \<lparr>pgr_number = 1, pgr_semantic_hash = ''s''\<rparr>))]"

theorem graph_version_counts_publications_witness:
  "\<exists>p a g. from_genesis sample_env lineage_history = Inr (p, a) \<and> p_current_graph p = Some g \<and>
     unat (pgv_number g) = 2"
proof -
  have "validate_evidence_bijection [] [] = Inr ()"
    by (simp add: validate_evidence_bijection_def os_of_list_def)
  moreover have "validate_publication_evidence_ids h sc v = Inr ()" if "pgv_content_slots v = []" for h sc v
    using that by (simp add: validate_publication_evidence_ids_def)
  ultimately have "\<exists>p a g. from_genesis sample_env lineage_history = Inr (p, a) \<and> p_current_graph p = Some g"
    by (simp add: lineage_history_def publication_kind_def sample_defs sample_fold sample_topology_def
        fold_graph_version_published_def follows_active_def)
  then obtain p a g where p: "from_genesis sample_env lineage_history = Inr (p, a)" "p_current_graph p = Some g"
    by blast
  moreover have "length (filter is_publication lineage_history) = 2"
    by (simp add: lineage_history_def is_publication_def sample_event_def publication_kind_def)
  ultimately show ?thesis using graph_version_counts_publications [OF p(1)] by auto
qed

text \<open>clearance releases exactly when the verifier checks out. Folding a clearance of an open claim
  always closes the claim and records its verdict; a good verdict succeeds the node and closes its
  wait, a bad one is recorded with its refusal code and leaves every node state and every open wait
  as they were. A clearance of a claim that is not open is corrupt.\<close>

theorem clearance_releases_iff_verified:
  "fold_completion_cleared ev pl p = Inr q \<longrightarrow>
    (\<exists>claim. om_get (p_open_claims p) (ccd_claim_seq pl) = Some claim \<and>
      p_open_claims q = om_remove (ccd_claim_seq pl) (p_open_claims p) \<and>
      p_clearances q = om_insert (ccd_claim_seq pl) (clearance_verdict p claim (ccd_verifier pl)) (p_clearances p) \<and>
      (if clearance_verdict p claim (ccd_verifier pl) = Cleared
       then p_node_states q = om_insert (oc_node claim) S_Succeeded (p_node_states p) \<and>
            p_open_waits q = om_remove (oc_node claim) (p_open_waits p)
       else p_node_states q = p_node_states p \<and> p_open_waits q = p_open_waits p))"
proof
  assume f: "fold_completion_cleared ev pl p = Inr q"
  then obtain claim where c: "om_get (p_open_claims p) (ccd_claim_seq pl) = Some claim"
    and e: "in_execution p (ccd_execution_id pl)"
    by (auto simp: fold_completion_cleared_def split: if_splits option.splits)
  show "\<exists>claim. om_get (p_open_claims p) (ccd_claim_seq pl) = Some claim \<and>
      p_open_claims q = om_remove (ccd_claim_seq pl) (p_open_claims p) \<and>
      p_clearances q = om_insert (ccd_claim_seq pl) (clearance_verdict p claim (ccd_verifier pl)) (p_clearances p) \<and>
      (if clearance_verdict p claim (ccd_verifier pl) = Cleared
       then p_node_states q = om_insert (oc_node claim) S_Succeeded (p_node_states p) \<and>
            p_open_waits q = om_remove (oc_node claim) (p_open_waits p)
       else p_node_states q = p_node_states p \<and> p_open_waits q = p_open_waits p)"
  proof (cases "clearance_verdict p claim (ccd_verifier pl) = Cleared")
    case True
    with f c e show ?thesis
      by (simp add: fold_completion_cleared_def Let_def) (auto dest!: record_scan_Inr)
  next
    case False
    with f c e show ?thesis
      by (simp add: fold_completion_cleared_def Let_def) (auto dest!: record_scan_Inr)
  qed
qed

definition sample_claim :: open_claim where
  "sample_claim = \<lparr>oc_node = ''n'', oc_completes_wait_seq = 2, oc_stage_entered_at = 3, oc_deadline = None,
     oc_evidence_digest = ''sha256:d''\<rparr>"

definition claimed_projection :: execution_projection where
  "claimed_projection = default_projection\<lparr>p_execution_id := Some ''e'',
     p_node_states := om_insert ''n'' S_WaitingInput om_empty,
     p_open_waits := om_insert ''n'' \<lparr>ow_at_sequence = 2, ow_deadline = None\<rparr> om_empty,
     p_open_claims := om_insert 3 sample_claim om_empty\<rparr>"

theorem clearance_releases_iff_verified_witness:
  "\<exists>q. fold_completion_cleared (sample_event 4 started_kind)
        \<lparr>ccd_execution_id = ''e'', ccd_claim_seq = 3, ccd_verifier = MachineReplay ''sha256:forged''\<rparr>
        claimed_projection = Inr q \<and>
      om_get (p_node_states q) ''n'' = Some S_WaitingInput \<and>
      om_get (p_clearances q) 3 = Some (ClearanceRefused ''hash_mismatch'')"
proof -
  let ?pl = "\<lparr>ccd_execution_id = ''e'', ccd_claim_seq = 3, ccd_verifier = MachineReplay ''sha256:forged''\<rparr>"
  have "\<exists>q. fold_completion_cleared (sample_event 4 started_kind) ?pl claimed_projection = Inr q"
    by (simp add: fold_completion_cleared_def claimed_projection_def sample_claim_def sample_fold
        clearance_verdict_def record_scan_def scans_of_def default_projection_def)
  then obtain q where q: "fold_completion_cleared (sample_event 4 started_kind) ?pl claimed_projection = Inr q" ..
  then show ?thesis
    using clearance_releases_iff_verified [of "sample_event 4 started_kind" ?pl claimed_projection q]
    by (auto simp: claimed_projection_def clearance_verdict_def sample_claim_def default_projection_def)
qed

end
