(* ===== verification/Recovery.thy ===== *)
theory Recovery
  imports Fold_Invariants Transition
begin

text \<open>
  Crash recovery, the gate before a resume (\<open>core/execution/src/recovery.rs\<close>) and the retry verdict
  (\<open>core/execution/src/progress.rs\<close>): pure decisions over a projection, related here to the state
  machine that moves the nodes and to the fold that records the moves.
\<close>

section \<open>Decisions\<close>

definition recovery_plan :: "execution_projection \<Rightarrow> string list" where
  "recovery_plan p = map fst (filter (\<lambda>(_, s). s = S_Running) (om_entries (p_node_states p)))"

datatype resume_error =
  NotStarted | NotPaused | UnrecoveredInterruption | UntriagedInterruption | VersionMismatch

definition resume_preconditions :: "execution_projection \<Rightarrow> u64 option \<Rightarrow> resume_error + unit" where
  "resume_preconditions p resume_against_version =
    (if p_execution_id p = None then Inl NotStarted
     else if p_simulation_status p \<noteq> Some SimPaused then Inl NotPaused
     else if list_ex (\<lambda>s. s = S_Running) (om_values (p_node_states p)) then Inl UnrecoveredInterruption
     else if list_ex (\<lambda>(n, s). s = S_Blocked \<and> om_get (p_last_outcome p) n = Some O_Interrupted)
               (om_entries (p_node_states p)) then Inl UntriagedInterruption
     else case (resume_against_version, p_current_graph p) of
       (Some requested, Some current) \<Rightarrow>
         if requested \<noteq> pgv_number current then Inl VersionMismatch else Inr ()
     | _ \<Rightarrow> Inr ())"

datatype progress = Continue | AttemptsExhausted | NoProgress

definition classify_progress :: "execution_projection \<Rightarrow> string \<Rightarrow> node_outcome \<Rightarrow> progress" where
  "classify_progress p n out =
    (if (case om_get (p_node_attempts p) n of None \<Rightarrow> 0 | Some a \<Rightarrow> a) \<ge> MAX_NODE_ATTEMPTS
     then AttemptsExhausted
     else if identical_outcomes_for p n out \<ge> MAX_IDENTICAL_OUTCOMES then NoProgress
     else Continue)"


section \<open>Lemmas\<close>

lemma set_recovery_plan [simp]: "n \<in> set (recovery_plan p) \<longleftrightarrow> om_get (p_node_states p) n = Some S_Running"
  by (force simp: recovery_plan_def om_in_entries)

lemma recovery_plan_empty: "recovery_plan p = [] \<longleftrightarrow> (\<forall>n. om_get (p_node_states p) n \<noteq> Some S_Running)"
  by (metis set_recovery_plan list.set_intros(1) neq_Nil_conv empty_iff list.set(1))

lemma sorted_recovery_plan: "sorted_wrt (<) (recovery_plan p)"
proof -
  have "sorted_wrt (<) (map fst (om_entries (p_node_states p)))" by (rule omap.ents_strict)
  then show ?thesis by (simp add: recovery_plan_def sorted_wrt_map sorted_wrt_filter)
qed

lemma any_running: "list_ex (\<lambda>s. s = S_Running) (om_values (p_node_states p)) \<longleftrightarrow> recovery_plan p \<noteq> []"
proof -
  have "S_Running \<in> set (om_values (p_node_states p)) \<longleftrightarrow> (\<exists>n. (n, S_Running) \<in> set (om_entries (p_node_states p)))"
    by (force simp: om_values_def)
  then show ?thesis by (simp add: list_ex_iff recovery_plan_empty om_in_entries)
qed

definition untriaged :: "execution_projection \<Rightarrow> string \<Rightarrow> bool" where
  "untriaged p n \<longleftrightarrow>
    om_get (p_node_states p) n = Some S_Blocked \<and> om_get (p_last_outcome p) n = Some O_Interrupted"

lemma any_untriaged:
  "list_ex (\<lambda>(n, s). s = S_Blocked \<and> om_get (p_last_outcome p) n = Some O_Interrupted)
     (om_entries (p_node_states p)) \<longleftrightarrow> (\<exists>n. untriaged p n)"
  by (auto simp: list_ex_iff untriaged_def om_in_entries)

lemma outcome_recorded_effect:
  assumes "fold_node_outcome_recorded env ev pl p = Inr q" and "nor_outcome pl \<noteq> O_Started"
  shows "p_node_states q = om_insert (nor_node_id pl) (nor_next_state pl) (p_node_states p) \<and>
    p_last_outcome q = om_insert (nor_node_id pl) (nor_outcome pl) (p_last_outcome p)"
proof -
  obtain p1 p2 p3 where s: "count_attempt pl p = Inr p1" "count_run pl p1 = Inr p2" "move_wait env ev pl p2 = Inr p3"
    "q = p3\<lparr>p_node_states := om_insert (nor_node_id pl) (nor_next_state pl) (p_node_states p3)\<rparr>"
    using assms(1) by (auto simp: fold_node_outcome_recorded_def split: if_splits)
  have "p_last_outcome p2 = om_insert (nor_node_id pl) (nor_outcome pl) (p_last_outcome p1)"
    using s(2) assms(2) by (auto simp: count_run_def Let_def)
  then show ?thesis
    using s(4) count_attempt_Inr [OF s(1)] count_run_Inr [OF s(2)] move_wait_Inr [OF s(3)] by auto
qed

text \<open>The event the driver records for an interrupted node.\<close>

definition interruption_of :: "string \<Rightarrow> event_kind \<Rightarrow> bool" where
  "interruption_of n k \<longleftrightarrow> (case k of
      NodeOutcomeRecorded pl \<Rightarrow> nor_node_id pl = n \<and> nor_outcome pl = O_Interrupted \<and> nor_next_state pl = S_Blocked
    | _ \<Rightarrow> False)"

lemma interruption_effect:
  assumes "apply_projection_event env ev (p, a) = Inr (q, b)" and "interruption_of n (env_kind ev)"
  shows "p_node_states q = om_insert n S_Blocked (p_node_states p) \<and>
    p_last_outcome q = om_insert n O_Interrupted (p_last_outcome p) \<and>
    p_execution_id q = p_execution_id p \<and> p_simulation_status q = p_simulation_status p"
proof -
  obtain x r y where r: "fold_projection env ev (p\<lparr>p_stream_id := x\<rparr>) = Inr r" "q = r\<lparr>p_legal_holds := y\<rparr>"
    using assms(1) by (rule apply_event_arm)
  obtain pl where pl: "env_kind ev = NodeOutcomeRecorded pl" "nor_node_id pl = n" "nor_outcome pl = O_Interrupted"
    "nor_next_state pl = S_Blocked"
    using assms(2) by (auto simp: interruption_of_def split: event_kind.splits)
  have f: "fold_node_outcome_recorded env ev pl (p\<lparr>p_stream_id := x\<rparr>) = Inr r"
    using r(1) by (simp add: fold_projection_def pl)
  show ?thesis
    using outcome_recorded_effect [OF f] frame_node_outcome_recorded [OF f] r(2) pl by auto
qed

lemma interruptions_effect:
  assumes "fold_events env evs (p, a) = Inr (q, b)" and "list_all2 (\<lambda>ev n. interruption_of n (env_kind ev)) evs ns"
  shows "om_get (p_node_states q) m = (if m \<in> set ns then Some S_Blocked else om_get (p_node_states p) m) \<and>
    om_get (p_last_outcome q) m = (if m \<in> set ns then Some O_Interrupted else om_get (p_last_outcome p) m) \<and>
    p_execution_id q = p_execution_id p \<and> p_simulation_status q = p_simulation_status p"
  using assms(2,1)
proof (induction evs ns arbitrary: p a rule: list_all2_induct)
  case Nil
  then show ?case by simp
next
  case (Cons ev evs n ns)
  then obtain p1 a1 where s: "apply_projection_event env ev (p, a) = Inr (p1, a1)"
    "fold_events env evs (p1, a1) = Inr (q, b)"
    by (auto simp: fold_events_def)
  from interruption_effect [OF s(1) Cons.hyps(1)] Cons.IH [OF s(2)] show ?case by auto
qed


section \<open>Properties\<close>

text \<open>C38: recovery settles every node whose effects are unknown and nothing else. The plan lists
  exactly the \<open>Running\<close> nodes in order, and the state machine sends each to \<open>Blocked\<close>; once the
  journal folds one interruption per planned node, none is running, every other node is where it
  was, and while the execution is paused no resume passes until the interruptions are triaged.\<close>

theorem recovery_settles_running:
  assumes "fold_events env evs (p, a) = Inr (q, b)"
    and "list_all2 (\<lambda>ev n. interruption_of n (env_kind ev)) evs (recovery_plan p)"
  shows "sorted_wrt (<) (recovery_plan p) \<and>
    set (recovery_plan p) = {n. om_get (p_node_states p) n = Some S_Running} \<and>
    transit S_Running O_Interrupted att same = Inr S_Blocked \<and>
    recovery_plan q = [] \<and>
    om_get (p_node_states q) m =
      (if om_get (p_node_states p) m = Some S_Running then Some S_Blocked else om_get (p_node_states p) m) \<and>
    (recovery_plan p \<noteq> [] \<longrightarrow> p_execution_id p \<noteq> None \<longrightarrow> p_simulation_status p = Some SimPaused \<longrightarrow>
      resume_preconditions q v = Inl UntriagedInterruption)"
proof (intro conjI impI)
  note eff = interruptions_effect [OF assms]
  show e: "recovery_plan q = []" unfolding recovery_plan_empty using eff by auto
  show "om_get (p_node_states q) m =
      (if om_get (p_node_states p) m = Some S_Running then Some S_Blocked else om_get (p_node_states p) m)"
    using eff [of m] by simp
  show "transit S_Running O_Interrupted att same = Inr S_Blocked" by (simp add: transition_defs)
  assume h: "recovery_plan p \<noteq> []" "p_execution_id p \<noteq> None" "p_simulation_status p = Some SimPaused"
  then obtain n where n: "n \<in> set (recovery_plan p)" by (meson last_in_set)
  then have "untriaged q n" using eff [of n] by (simp add: untriaged_def)
  then have "\<exists>n. untriaged q n" ..
  moreover have "p_execution_id q \<noteq> None" "p_simulation_status q = Some SimPaused" using h eff by simp_all
  ultimately show "resume_preconditions q v = Inl UntriagedInterruption"
    using e by (simp add: resume_preconditions_def any_running any_untriaged)
qed (auto simp: sorted_recovery_plan)

definition crashed_history :: "event_envelope list" where
  "crashed_history = [sample_event 1 started_kind, sample_event 2 (outcome_kind ''n'' O_Started S_Running),
     sample_event 3 (ExecutionPaused \<lparr>eps_execution_id = ''e''\<rparr>)]"

definition interruption_event :: event_envelope where
  "interruption_event = sample_event 4 (outcome_kind ''n'' O_Interrupted S_Blocked)"

theorem recovery_settles_running_witness:
  "\<exists>p a q b. from_genesis sample_env crashed_history = Inr (p, a) \<and> recovery_plan p = [''n''] \<and>
     fold_events sample_env [interruption_event] (p, a) = Inr (q, b) \<and> recovery_plan q = [] \<and>
     resume_preconditions q None = Inl UntriagedInterruption"
proof -
  have "\<exists>p. from_genesis sample_env crashed_history = Inr (p, om_empty) \<and>
      p_node_states p = om_insert ''n'' S_Running om_empty \<and> p_execution_id p = Some ''e'' \<and>
      p_simulation_status p = Some SimPaused \<and>
      (\<exists>q. fold_events sample_env [interruption_event] (p, om_empty) = Inr (q, om_empty))"
    by (simp add: crashed_history_def interruption_event_def sample_defs sample_fold fold_execution_paused_def)
  then obtain p q where p: "from_genesis sample_env crashed_history = Inr (p, om_empty)"
    "p_node_states p = om_insert ''n'' S_Running om_empty" "p_execution_id p = Some ''e''"
    "p_simulation_status p = Some SimPaused" and q: "fold_events sample_env [interruption_event] (p, om_empty) = Inr (q, om_empty)"
    by blast
  have plan: "recovery_plan p = [''n'']" unfolding recovery_plan_def p(2) by code_simp
  have "list_all2 (\<lambda>ev n. interruption_of n (env_kind ev)) [interruption_event] (recovery_plan p)"
    by (simp add: plan interruption_of_def interruption_event_def sample_event_def outcome_kind_def)
  from recovery_settles_running [OF q this, of 0 0 "''n''" None] p q plan show ?thesis by auto
qed

text \<open>C29: a resume that passes the gate is one the fold accepts. The gate passes exactly for a started,
  paused execution with no running node, no untriaged interruption and a matching graph version; the
  fold then accepts the resumption for that execution, the run is running again, and no node moves.\<close>

theorem resume_gate_exact:
  "resume_preconditions p v = Inr () \<longleftrightarrow>
    (\<exists>e. p_execution_id p = Some e \<and> p_simulation_status p = Some SimPaused \<and>
      recovery_plan p = [] \<and> (\<nexists>n. untriaged p n) \<and>
      (v = None \<or> p_current_graph p = None \<or> v = map_option pgv_number (p_current_graph p)) \<and>
      fold_execution_resumed ev \<lparr>ers_execution_id = e\<rparr> p =
        Inr (p\<lparr>p_drive_failure := None, p_simulation_status := Some SimRunning\<rparr>))"
  by (cases v; cases "p_current_graph p")
    (auto simp: resume_preconditions_def any_running any_untriaged fold_execution_resumed_def in_execution_def)

text \<open>C39: the retry verdict is the history's. After a replayed journal, a node may be attempted again
  exactly when it was dispatched fewer than 8 times and its last outcomes do not repeat the reported one 3 times; and
  for a retryable failure the verdict is the move the state machine makes: back to the queue iff it
  says continue, blocked otherwise.\<close>

theorem retry_verdict_agrees:
  assumes "from_genesis env evs = Inr (p, a)"
  shows "classify_progress p n out =
      (if length (filter (is_attempt n) evs) \<ge> 8 then AttemptsExhausted
       else if final_run out (outcomes_of n evs) \<ge> 3 then NoProgress else Continue) \<and>
    transit S_Running O_RetryableFailure (node_attempts_of p n) (identical_outcomes_for p n O_RetryableFailure) =
      Inr (if classify_progress p n O_RetryableFailure = Continue then S_Queued else S_Blocked)"
proof -
  have h: "unat (node_attempts_of p n) = length (filter (is_attempt n) evs)"
    "unat (identical_outcomes_for p n o') = final_run o' (outcomes_of n evs)" for o'
    using genesis_history [OF assms, of n] by (simp_all add: history_inv_def run_inv_run)
  have "MAX_NODE_ATTEMPTS \<le> node_attempts_of p n \<longleftrightarrow> 8 \<le> length (filter (is_attempt n) evs)"
    by (simp add: word_le_nat_alt h MAX_NODE_ATTEMPTS_def)
  moreover have "MAX_IDENTICAL_OUTCOMES \<le> identical_outcomes_for p n out \<longleftrightarrow> 3 \<le> final_run out (outcomes_of n evs)"
    by (simp add: word_le_nat_alt h MAX_IDENTICAL_OUTCOMES_def)
  ultimately show ?thesis
    by (simp add: classify_progress_def node_attempts_of_def [symmetric] retry_transit)
qed

theorem retry_verdict_agrees_witness:
  "\<exists>p a. from_genesis sample_env run_history = Inr (p, a) \<and>
     classify_progress p ''n'' O_RetryableFailure = Continue"
proof -
  obtain p where p: "from_genesis sample_env run_history = Inr (p, om_empty)" using run_history_folds ..
  have "length (filter (is_attempt ''n'') run_history) < 8"
    by (simp add: run_history_def)
  moreover have "final_run O_RetryableFailure (outcomes_of ''n'' run_history) < 3"
    by (simp add: run_history_def outcomes_of_def List.map_filter_def outcome_at_def final_run_def
        sample_event_def started_kind_def outcome_kind_def)
  ultimately show ?thesis using p retry_verdict_agrees [OF p, of "''n''" O_RetryableFailure] by auto
qed

end
