(* ===== verification/Replay.thy ===== *)
theory Replay
  imports Fold_Invariants
begin

text \<open>
  Replay of a journal and its paged rebuild: \<open>replay_within\<close> and \<open>ProjectionGeneration::apply_page\<close> of
  \<open>core/events/src/projection.rs\<close>, the read budget of \<open>budget.rs\<close>, the limits of \<open>limits.rs\<close>, and
  the envelope validation of \<open>integrity.rs\<close> both run on every event.

  \<open>replay_env\<close> holds what these call outside the model: the JSON serialisation of an envelope (its
  length, and its canonical bytes with and without the event hash), the JSON schema set, and the
  scan for unsafe content. Reading the clock is an effect; the instant read by the check after
  \<open>after\<close> events is \<open>clock after\<close>.
\<close>

section \<open>Limits\<close>

definition MAX_EVENT_BYTES :: nat where "MAX_EVENT_BYTES = 1024 * 1024"
definition MAX_JOURNAL_BYTES :: u64 where "MAX_JOURNAL_BYTES = 256 * 1024 * 1024"
definition MAX_READ_PAGE :: nat where "MAX_READ_PAGE = 1000"
definition MAX_READ_ALL :: nat where "MAX_READ_ALL = 250000"


section \<open>Repository errors\<close>

datatype repository_error =
    SequenceConflict | IdempotencyConflict | Integrity | IntegrityAt string | CorruptBatch
  | WatermarkMismatch | RepositoryLimitExceeded | UnsupportedFormat | RepositoryInvalid
  | UnsafePersistence | StreamSelectionRequired | Storage | StorageAt string "int option"
  | ReadBudgetExceeded u64 int

fun repository_error_code :: "repository_error \<Rightarrow> string" where
  "repository_error_code SequenceConflict = ''GHE001_SEQUENCE_CONFLICT''"
| "repository_error_code IdempotencyConflict = ''GHE003_IDEMPOTENCY_CONFLICT''"
| "repository_error_code Integrity = ''GHE005_INTEGRITY_FAILURE''"
| "repository_error_code (IntegrityAt _) = ''GHE005_INTEGRITY_FAILURE''"
| "repository_error_code CorruptBatch = ''GHE002_CORRUPT_BATCH''"
| "repository_error_code WatermarkMismatch = ''GHPROJ001_WATERMARK_MISMATCH''"
| "repository_error_code RepositoryLimitExceeded = ''GHE006_LIMIT_EXCEEDED''"
| "repository_error_code UnsupportedFormat = ''GHE007_UNSUPPORTED_FORMAT''"
| "repository_error_code RepositoryInvalid = ''GHE004_INVALID_EVENT''"
| "repository_error_code UnsafePersistence = ''GHE009_EXTERNALIZATION_FAILED''"
| "repository_error_code StreamSelectionRequired = ''GHE010_STREAM_SELECTION_REQUIRED''"
| "repository_error_code Storage = ''GHE008_STORAGE_FAILURE''"
| "repository_error_code (StorageAt _ _) = ''GHE008_STORAGE_FAILURE''"
| "repository_error_code (ReadBudgetExceeded _ _) = ''GHE013_READ_BUDGET_EXCEEDED''"

fun map_replay_error :: "replay_error \<Rightarrow> repository_error" where
  "map_replay_error LimitExceeded = RepositoryLimitExceeded"
| "map_replay_error Corrupt = Integrity"
| "map_replay_error (BudgetExceeded w l) = ReadBudgetExceeded w l"


section \<open>The read budget\<close>

definition READ_BUDGET_CHECK_INTERVAL :: u64 where "READ_BUDGET_CHECK_INTERVAL = 256"

record read_bound =
  rb_deadline :: timestamp
  rb_limit_millis :: int

type_synonym read_budget = "read_bound option"

definition unbounded :: read_budget where "unbounded = None"

definition starting_now :: "timestamp \<Rightarrow> int \<Rightarrow> read_budget" where
  "starting_now now millis = Some \<lparr>rb_deadline = now + millis * 1000000, rb_limit_millis = millis\<rparr>"

definition renewed :: "timestamp \<Rightarrow> read_budget \<Rightarrow> read_budget" where
  "renewed now b = (case b of None \<Rightarrow> unbounded | Some bound \<Rightarrow> starting_now now (rb_limit_millis bound))"

definition check_now :: "timestamp \<Rightarrow> read_budget \<Rightarrow> u64 \<Rightarrow> (u64 \<times> int) + unit" where
  "check_now now b n =
    (case b of None \<Rightarrow> Inr ()
     | Some bound \<Rightarrow>
         if now \<le> rb_deadline bound then Inr () else Inl (n, rb_limit_millis bound))"

definition check_progress :: "(u64 \<Rightarrow> timestamp) \<Rightarrow> read_budget \<Rightarrow> u64 \<Rightarrow> u64 \<Rightarrow> (u64 \<times> int) + unit" where
  "check_progress clock b before after =
    (case b of None \<Rightarrow> Inr ()
     | Some bound \<Rightarrow>
         if after = 0 \<or> before div READ_BUDGET_CHECK_INTERVAL = after div READ_BUDGET_CHECK_INTERVAL
         then Inr ()
         else if clock after \<le> rb_deadline bound then Inr ()
         else Inl (after, rb_limit_millis bound))"


section \<open>Envelope validation\<close>

record replay_env =
  re_fold :: fold_env
  re_schemas_load :: bool
  re_schema_ok :: "event_envelope \<Rightarrow> bool"
  re_json_len :: "event_envelope \<Rightarrow> nat option"
  re_content_scan :: "event_envelope \<Rightarrow> repository_error + unit"
  re_canonical_len :: "event_envelope \<Rightarrow> nat option"
  re_canonical_unhashed :: "event_envelope \<Rightarrow> string option"

definition serialized_len_bounded :: "replay_env \<Rightarrow> event_envelope \<Rightarrow> nat \<Rightarrow> repository_error + nat" where
  "serialized_len_bounded env ev limit =
    (case re_json_len env ev of None \<Rightarrow> Inl RepositoryLimitExceeded
     | Some n \<Rightarrow> if n > limit then Inl RepositoryLimitExceeded else Inr n)"

definition event_hash :: "replay_env \<Rightarrow> event_envelope \<Rightarrow> string \<Rightarrow> repository_error + string" where
  "event_hash env ev previous_hash =
    (case re_canonical_unhashed env (ev\<lparr>env_event_hash := []\<rparr>) of None \<Rightarrow> Inl RepositoryInvalid
     | Some bytes \<Rightarrow>
         Inr (''sha256:'' @ fe_sha_hex (re_fold env)
           (''graphhelm-event-hash-v1'' @ [char_of (0::nat)] @ previous_hash @ [char_of (0::nat)] @ bytes)))"

definition retention_evidence_scope :: "event_kind \<Rightarrow> repository_scope option" where
  "retention_evidence_scope k = (case k of
      EvidenceErasureRequested pl \<Rightarrow> Some (eer_evidence_scope pl)
    | EvidenceErasureCompleted pl \<Rightarrow> Some (eec_evidence_scope pl)
    | EvidenceCiphertextDeleted pl \<Rightarrow> Some (ecd_evidence_scope pl)
    | EvidenceLegalHoldChanged pl \<Rightarrow> Some (elh_evidence_scope pl)
    | _ \<Rightarrow> None)"

definition validate_envelope_content :: "replay_env \<Rightarrow> event_envelope \<Rightarrow> repository_error + unit" where
  "validate_envelope_content env ev =
    bindE (serialized_len_bounded env ev MAX_EVENT_BYTES) (\<lambda>_. re_content_scan env ev)"

definition publication_consistent :: "replay_env \<Rightarrow> event_envelope \<Rightarrow> bool" where
  "publication_consistent env ev = (case env_kind ev of
      GraphVersionPublished pl \<Rightarrow>
        \<not> (rs_execution_id (env_scope ev) \<noteq> Some (pt_execution_id (pgv_topology (gvp_version pl)))
           \<or> env_actor ev \<noteq> pgv_created_by (gvp_version pl)
           \<or> isl (validate_publication_evidence_ids (fe_sha_hex (re_fold env)) (env_scope ev) (gvp_version pl))
           \<or> isl (validate_evidence_bijection (pgv_content_slots (gvp_version pl)) (env_evidence_refs ev)))
    | _ \<Rightarrow> True)"

definition level_mismatch :: "event_envelope \<Rightarrow> bool" where
  "level_mismatch ev = (is_project_level (env_kind ev) = (rs_execution_id (env_scope ev) \<noteq> None))"

definition validate_envelope :: "replay_env \<Rightarrow> event_envelope \<Rightarrow> repository_error + unit" where
  "validate_envelope env ev =
    bindE (validate_envelope_content env ev) (\<lambda>_.
    if \<not> re_schemas_load env \<or> \<not> re_schema_ok env ev then Inl RepositoryInvalid
    else if level_mismatch ev then Inl RepositoryInvalid
    else if (case retention_evidence_scope (env_kind ev) of None \<Rightarrow> False
             | Some s \<Rightarrow> rs_workspace_id s \<noteq> rs_workspace_id (env_scope ev)
                       \<or> rs_project_id s \<noteq> rs_project_id (env_scope ev))
    then Inl RepositoryInvalid
    else if \<not> publication_consistent env ev then Inl RepositoryInvalid
    else case re_canonical_len env ev of None \<Rightarrow> Inl RepositoryInvalid
      | Some n \<Rightarrow> if n > MAX_EVENT_BYTES then Inl RepositoryLimitExceeded else Inr ())"



section \<open>Replay\<close>

record replay_state =
  rp_projection :: execution_projection
  rp_seen :: "string oset"
  rp_previous_hash :: string
  rp_scope :: "repository_scope option"
  rp_bytes :: u64
  rp_references :: nat
  rp_holds :: holds
  rp_index :: nat

definition replay_start :: replay_state where
  "replay_start = \<lparr>rp_projection = default_projection, rp_seen = om_empty, rp_previous_hash = GENESIS_HASH,
     rp_scope = None, rp_bytes = 0, rp_references = 0, rp_holds = om_empty, rp_index = 0\<rparr>"

text \<open>The running totals both walks keep: bytes and references, each refused past its limit.\<close>

definition advance_totals ::
  "replay_env \<Rightarrow> event_envelope \<Rightarrow> u64 \<Rightarrow> nat \<Rightarrow> replay_error + (u64 \<times> nat)" where
  "advance_totals env ev bytes refs =
    (case serialized_len_bounded env ev MAX_EVENT_BYTES of Inl _ \<Rightarrow> Inl LimitExceeded
     | Inr n \<Rightarrow>
       (if n \<ge> 2 ^ 64 then Inl LimitExceeded
        else bindE (ok_or (checked_add bytes (of_nat n)) LimitExceeded) (\<lambda>bytes'.
        bindE (ok_or (Option.bind (usize_add refs (length (env_evidence_refs ev)))
                 (\<lambda>r. usize_add r (length (env_artifact_refs ev)))) LimitExceeded) (\<lambda>refs'.
          if bytes' > MAX_JOURNAL_BYTES \<or> refs' > MAX_READ_ALL then Inl LimitExceeded
          else Inr (bytes', refs')))))"

definition replay_event ::
  "replay_env \<Rightarrow> repository_scope \<Rightarrow> string \<Rightarrow> read_budget \<Rightarrow> (u64 \<Rightarrow> timestamp) \<Rightarrow> event_envelope
   \<Rightarrow> replay_state \<Rightarrow> replay_error + replay_state" where
  "replay_event env expected_scope expected_stream budget clock ev st =
    (case check_progress clock budget (of_nat (rp_index st)) (of_nat (rp_index st) + 1) of
       Inl (n, l) \<Rightarrow> Inl (BudgetExceeded n l)
     | Inr _ \<Rightarrow>
       bindE (advance_totals env ev (rp_bytes st) (rp_references st)) (\<lambda>(bytes, refs).
       if \<not> re_schema_ok env ev
          \<or> isl (validate_envelope env ev)
          \<or> env_scope ev \<noteq> expected_scope
          \<or> env_stream_id ev \<noteq> expected_stream
          \<or> (case rp_scope st of None \<Rightarrow> False | Some s \<Rightarrow> s \<noteq> env_scope ev)
          \<or> level_mismatch ev
          \<or> event_hash env ev (rp_previous_hash st) \<noteq> Inr (env_event_hash ev)
       then Inl Corrupt
       else if env_sequence ev \<noteq> of_nat (rp_index st) + 1
          \<or> env_previous_hash ev \<noteq> rp_previous_hash st
          \<or> os_member (rp_seen st) (env_idempotency_key ev)
       then Inl Corrupt
       else if (case p_stream_id (rp_projection st) of None \<Rightarrow> False | Some s \<Rightarrow> s \<noteq> env_stream_id ev)
       then Inl Corrupt
       else
         let p0 = (case p_stream_id (rp_projection st) of
                     Some _ \<Rightarrow> rp_projection st
                   | None \<Rightarrow> (rp_projection st)\<lparr>p_stream_id := Some (env_stream_id ev)\<rparr>) in
         bindE (apply_projection_event (re_fold env) ev (p0, rp_holds st)) (\<lambda>(p, holds).
           Inr (st\<lparr>rp_projection := p, rp_holds := holds,
                   rp_seen := os_insert (env_idempotency_key ev) (rp_seen st),
                   rp_previous_hash := env_event_hash ev,
                   rp_scope := (case rp_scope st of None \<Rightarrow> Some (env_scope ev) | Some s \<Rightarrow> Some s),
                   rp_bytes := bytes, rp_references := refs, rp_index := Suc (rp_index st)\<rparr>))))"

definition replay_within ::
  "replay_env \<Rightarrow> repository_scope \<Rightarrow> string \<Rightarrow> event_envelope list \<Rightarrow> read_budget \<Rightarrow> (u64 \<Rightarrow> timestamp)
   \<Rightarrow> replay_error + execution_projection" where
  "replay_within env scope stream evs budget clock =
    (if \<not> is_opaque_id stream then Inl Corrupt
     else if length evs > MAX_READ_ALL then Inl LimitExceeded
     else if \<not> re_schemas_load env then Inl Corrupt
     else bindE (foldE (replay_event env scope stream budget clock) evs replay_start)
            (\<lambda>st. Inr (rp_projection st)))"

definition replay ::
  "replay_env \<Rightarrow> repository_scope \<Rightarrow> string \<Rightarrow> event_envelope list \<Rightarrow> replay_error + execution_projection" where
  "replay env scope stream evs = replay_within env scope stream evs unbounded (\<lambda>_. 0)"


section \<open>Projection generations\<close>

record projection_watermark =
  wm_scope :: repository_scope
  wm_stream_id :: string
  wm_projection_name :: string
  wm_projection_version :: u32
  wm_generation :: u64
  wm_last_sequence :: u64
  wm_last_event_hash :: "string option"

definition projection_watermark_new ::
  "repository_scope \<Rightarrow> string \<Rightarrow> string \<Rightarrow> u32 \<Rightarrow> u64 \<Rightarrow> u64 \<Rightarrow> string option
   \<Rightarrow> replay_error + projection_watermark" where
  "projection_watermark_new scope stream pname ver gen last_seq last_hash =
    (if \<not> is_opaque_id stream then Inl Corrupt
     else if \<not> is_opaque_id pname then Inl Corrupt
     else if ver > 2147483647 \<or> gen > MAX_SAFE_INTEGER \<or> last_seq > MAX_SAFE_INTEGER then Inl LimitExceeded
     else if ver = 0 \<or> gen = 0 \<or> (last_seq = 0) \<noteq> (last_hash = None) then Inl Corrupt
     else Inr \<lparr>wm_scope = scope, wm_stream_id = stream, wm_projection_name = pname,
               wm_projection_version = ver, wm_generation = gen, wm_last_sequence = last_seq,
               wm_last_event_hash = last_hash\<rparr>)"

record projection_generation =
  pg_watermark :: projection_watermark
  pg_projection :: execution_projection
  pg_seen_idempotency_keys :: "string oset"
  pg_active_legal_holds :: holds
  pg_aggregate_bytes :: u64
  pg_aggregate_references :: nat

definition projection_generation_new ::
  "repository_scope \<Rightarrow> string \<Rightarrow> string \<Rightarrow> u32 \<Rightarrow> u64 \<Rightarrow> replay_error + projection_generation" where
  "projection_generation_new scope stream pname ver gen =
    bindE (projection_watermark_new scope stream pname ver gen 0 None) (\<lambda>wm.
      Inr \<lparr>pg_watermark = wm, pg_projection = default_projection, pg_seen_idempotency_keys = om_empty,
           pg_active_legal_holds = om_empty, pg_aggregate_bytes = 0, pg_aggregate_references = 0\<rparr>)"

record projection_rebuild_request =
  prr_scope :: repository_scope
  prr_stream_id :: string
  prr_projection_name :: string
  prr_projection_version :: u32
  prr_generation :: u64
  prr_page_size :: u32

definition projection_rebuild_request_new ::
  "repository_scope \<Rightarrow> string \<Rightarrow> string \<Rightarrow> u32 \<Rightarrow> u64 \<Rightarrow> u32 \<Rightarrow> replay_error + projection_rebuild_request" where
  "projection_rebuild_request_new scope stream pname ver gen page =
    bindE (projection_watermark_new scope stream pname ver gen 0 None) (\<lambda>_.
      if page = 0 \<or> unat page > MAX_READ_PAGE then Inl LimitExceeded
      else Inr \<lparr>prr_scope = scope, prr_stream_id = stream, prr_projection_name = pname,
                prr_projection_version = ver, prr_generation = gen, prr_page_size = page\<rparr>)"

definition restart_walk_bounds :: "projection_generation \<Rightarrow> projection_generation" where
  "restart_walk_bounds g = g\<lparr>pg_aggregate_bytes := 0, pg_aggregate_references := 0\<rparr>"

definition page_event ::
  "replay_env \<Rightarrow> event_envelope \<Rightarrow> projection_generation \<Rightarrow> replay_error + projection_generation" where
  "page_event env ev g =
    bindE (advance_totals env ev (pg_aggregate_bytes g) (pg_aggregate_references g)) (\<lambda>(bytes, refs).
      let wm = pg_watermark g;
          expected_previous = (case wm_last_event_hash wm of None \<Rightarrow> GENESIS_HASH | Some h \<Rightarrow> h) in
      if \<not> re_schema_ok env ev
         \<or> isl (validate_envelope env ev)
         \<or> env_scope ev \<noteq> wm_scope wm
         \<or> env_stream_id ev \<noteq> wm_stream_id wm
         \<or> level_mismatch ev
         \<or> env_sequence ev \<noteq> wm_last_sequence wm + 1
         \<or> env_previous_hash ev \<noteq> expected_previous
         \<or> event_hash env ev expected_previous \<noteq> Inr (env_event_hash ev)
         \<or> os_member (pg_seen_idempotency_keys g) (env_idempotency_key ev)
      then Inl Corrupt
      else
        bindE (apply_projection_event (re_fold env) ev (pg_projection g, pg_active_legal_holds g)) (\<lambda>(p, holds).
          Inr \<lparr>pg_watermark = wm\<lparr>wm_last_sequence := env_sequence ev,
                                 wm_last_event_hash := Some (env_event_hash ev)\<rparr>,
               pg_projection = p,
               pg_seen_idempotency_keys = os_insert (env_idempotency_key ev) (pg_seen_idempotency_keys g),
               pg_active_legal_holds = holds, pg_aggregate_bytes = bytes,
               pg_aggregate_references = refs\<rparr>))"

definition apply_page ::
  "replay_env \<Rightarrow> event_envelope list \<Rightarrow> projection_generation \<Rightarrow> replay_error + projection_generation" where
  "apply_page env evs g =
    (if length evs > MAX_READ_PAGE then Inl LimitExceeded
     else if \<not> re_schemas_load env then Inl Corrupt
     else foldE (page_event env) evs g)"

end
