(* ===== verification/Append.thy ===== *)
theory Append
  imports Replay
begin

text \<open>
  The prepared append and its static checks, shared by every repository: \<open>PreparedAppend\<close> of
  \<open>core/events/src/repository.rs\<close>, the sealed evidence metadata of \<open>evidence.rs\<close>, and the preflight,
  reference, artifact and lineage checks and the request digest of \<open>integrity.rs\<close>.

  \<open>append_env\<close> extends the environment of a replay with the JSON of a request: the serialised length of an
  event and of a digest input, the canonical bytes of the digest input, and the content scans.
\<close>

section \<open>Limits\<close>

definition MAX_BATCH_BYTES :: nat where "MAX_BATCH_BYTES = 16 * 1024 * 1024"
definition MAX_BATCH_EVENTS :: nat where "MAX_BATCH_EVENTS = 10000"
definition MAX_EVIDENCE_ITEMS :: nat where "MAX_EVIDENCE_ITEMS = 10000"
definition MAX_EVIDENCE_BATCH_BYTES :: nat where "MAX_EVIDENCE_BATCH_BYTES = 64 * 1024 * 1024"
definition MAX_ARTIFACTS :: nat where "MAX_ARTIFACTS = 64"
definition MAX_EVIDENCE_BYTES :: nat where "MAX_EVIDENCE_BYTES = 16 * 1024 * 1024"
definition EVIDENCE_SCHEMA_VERSION :: string where "EVIDENCE_SCHEMA_VERSION = ''1.0.0''"
definition EVIDENCE_ALGORITHM :: string where "EVIDENCE_ALGORITHM = ''xchacha20poly1305''"


section \<open>Sealed evidence\<close>

record wrapped_key =
  wk_key_id :: string
  wk_handle :: string
  wk_algorithm :: string
  wk_nonce :: string
  wk_ciphertext :: string
  wk_aad_sha256 :: string

record sealed_evidence =
  sev_reference :: evidence_reference
  sev_scope :: repository_scope
  sev_media_type :: string
  sev_sensitivity :: sensitivity
  sev_retention_class :: string
  sev_algorithm :: string
  sev_nonce :: string
  sev_ciphertext :: string
  sev_wrapped_key :: wrapped_key

definition plaintext_byte_length :: "sealed_evidence \<Rightarrow> nat" where
  "plaintext_byte_length e = length (sev_ciphertext e) - 16"

text \<open>\<open>push_field\<close>: a four-byte big-endian length, then the bytes; refused past 32 bits.\<close>

definition push_field :: "string \<Rightarrow> string \<Rightarrow> unit + string" where
  "push_field v out = (if length v < 2 ^ 32 then Inr (out @ be_bytes 4 (length v) @ v) else Inl ())"

fun sensitivity_name :: "sensitivity \<Rightarrow> string" where
  "sensitivity_name Public = ''public''"
| "sensitivity_name Internal = ''internal''"
| "sensitivity_name Confidential = ''confidential''"
| "sensitivity_name Restricted = ''restricted''"

definition evidence_aad ::
  "repository_scope \<Rightarrow> string \<Rightarrow> string \<Rightarrow> sensitivity \<Rightarrow> string \<Rightarrow> string \<Rightarrow> unit + string" where
  "evidence_aad scope evidence_id media_type sens retention_class content_sha256 =
    bindE (push_field ''graphhelm-evidence-aad-v1'' []) (\<lambda>aad.
    bindE (push_field (rs_workspace_id scope) aad) (\<lambda>aad.
    bindE (push_field (rs_project_id scope) aad) (\<lambda>aad.
    bindE (case rs_execution_id scope of
             Some x \<Rightarrow> push_field x (aad @ [char_of (1::nat)])
           | None \<Rightarrow> Inr (aad @ [char_of (0::nat)])) (\<lambda>aad.
    bindE (push_field evidence_id aad) (\<lambda>aad.
    bindE (push_field EVIDENCE_SCHEMA_VERSION aad) (\<lambda>aad.
    bindE (push_field media_type aad) (\<lambda>aad.
    bindE (push_field (sensitivity_name sens) aad) (\<lambda>aad.
    bindE (push_field retention_class aad) (\<lambda>aad.
    push_field content_sha256 aad)))))))))"

text \<open>\<open>raw_sha256\<close> is the hexadecimal SHA-256, the parameter \<open>sha\<close>.\<close>

definition validate_sealed_metadata :: "(string \<Rightarrow> string) \<Rightarrow> sealed_evidence \<Rightarrow> unit + unit" where
  "validate_sealed_metadata sha v =
    (if sev_algorithm v \<noteq> EVIDENCE_ALGORITHM \<or> length (sev_nonce v) \<noteq> 24
        \<or> \<not> (16 \<le> length (sev_ciphertext v) \<and> length (sev_ciphertext v) \<le> MAX_EVIDENCE_BYTES + 16)
        \<or> wk_handle (sev_wrapped_key v) \<noteq> er_evidence_id (sev_reference v)
        \<or> sha (sev_ciphertext v) \<noteq> er_ciphertext_sha256 (sev_reference v)
     then Inl ()
     else bindE (evidence_aad (sev_scope v) (er_evidence_id (sev_reference v)) (sev_media_type v)
            (sev_sensitivity v) (sev_retention_class v) (er_content_sha256 (sev_reference v))) (\<lambda>aad.
       if sha aad \<noteq> wk_aad_sha256 (sev_wrapped_key v) then Inl () else Inr ()))"

record evidence_digest =
  evd_reference :: evidence_reference
  evd_scope :: repository_scope
  evd_media_type :: string
  evd_sensitivity :: sensitivity
  evd_retention_class :: string
  evd_algorithm :: string
  evd_nonce_sha256 :: string
  evd_wrapped_key_sha256 :: string

definition evidence_digest_of :: "(string \<Rightarrow> string) \<Rightarrow> sealed_evidence \<Rightarrow> evidence_digest" where
  "evidence_digest_of sha item =
    (let k = sev_wrapped_key item; wrapped = wk_key_id k @ wk_handle k @ wk_nonce k @ wk_ciphertext k in
     \<lparr>evd_reference = sev_reference item, evd_scope = sev_scope item, evd_media_type = sev_media_type item,
      evd_sensitivity = sev_sensitivity item, evd_retention_class = sev_retention_class item,
      evd_algorithm = sev_algorithm item, evd_nonce_sha256 = ''sha256:'' @ sha (sev_nonce item),
      evd_wrapped_key_sha256 = ''sha256:'' @ sha wrapped\<rparr>)"


section \<open>The prepared append\<close>

record artifact_registration =
  arg_reference :: artifact_reference
  arg_producer_idempotency_key :: string

record prepared_append =
  pap_scope :: repository_scope
  pap_stream_id :: string
  pap_expected_next_sequence :: u64
  pap_events :: "new_event list"
  pap_evidence :: "sealed_evidence list"
  pap_artifacts :: "artifact_registration list"

fun usize_sum :: "nat list \<Rightarrow> nat \<Rightarrow> nat option" where
  "usize_sum [] t = Some t"
| "usize_sum (n # ns) t = Option.bind (usize_add t n) (usize_sum ns)"

definition prepared_append_new ::
  "repository_scope \<Rightarrow> string \<Rightarrow> u64 \<Rightarrow> new_event list \<Rightarrow> sealed_evidence list \<Rightarrow> artifact_registration list
   \<Rightarrow> repository_error + prepared_append" where
  "prepared_append_new scope stream_id expected evs evidence artifacts =
    (if expected = 0 \<or> expected > MAX_SAFE_INTEGER \<or> evs = [] \<or> length evs > MAX_BATCH_EVENTS
        \<or> length evidence > MAX_EVIDENCE_ITEMS \<or> length artifacts > MAX_ARTIFACTS
     then Inl RepositoryLimitExceeded
     else if (case usize_sum (map plaintext_byte_length evidence) 0 of None \<Rightarrow> True
              | Some t \<Rightarrow> t > MAX_EVIDENCE_BATCH_BYTES)
     then Inl RepositoryLimitExceeded
     else Inr \<lparr>pap_scope = scope, pap_stream_id = stream_id, pap_expected_next_sequence = expected,
               pap_events = evs, pap_evidence = evidence, pap_artifacts = artifacts\<rparr>)"

text \<open>An artifact registration as the journal stores it; the digest input and the committed identity have the same fields.\<close>

record stored_artifact =
  sar_reference :: artifact_reference
  sar_producer_stream_id :: string
  sar_producer_idempotency_key :: string

record request_digest_input =
  rdi_scope :: repository_scope
  rdi_stream_id :: string
  rdi_expected_next_sequence :: u64
  rdi_events :: "new_event list"
  rdi_evidence :: "evidence_digest list"
  rdi_artifacts :: "stored_artifact list"

record append_env =
  ape_replay :: replay_env
  ape_event_len :: "new_event \<Rightarrow> nat option"
  ape_scan_scope :: "repository_scope \<Rightarrow> string \<Rightarrow> repository_error + unit"
  ape_scan_event :: "new_event \<Rightarrow> repository_error + unit"
  ape_scan_evidence :: "sealed_evidence \<Rightarrow> repository_error + unit"
  ape_scan_artifact :: "artifact_registration \<Rightarrow> repository_error + unit"
  ape_digest_len :: "request_digest_input \<Rightarrow> nat option"
  ape_digest_bytes :: "request_digest_input \<Rightarrow> string option"

abbreviation ape_sha :: "append_env \<Rightarrow> string \<Rightarrow> string" where
  "ape_sha env \<equiv> fe_sha_hex (re_fold (ape_replay env))"

definition bounded_len :: "nat option \<Rightarrow> nat \<Rightarrow> repository_error + nat" where
  "bounded_len l limit =
    (case l of None \<Rightarrow> Inl RepositoryLimitExceeded
     | Some n \<Rightarrow> if n > limit then Inl RepositoryLimitExceeded else Inr n)"

definition digest_of_input :: "append_env \<Rightarrow> request_digest_input \<Rightarrow> repository_error + string" where
  "digest_of_input env i =
    bindE (bounded_len (ape_digest_len env i) MAX_BATCH_BYTES) (\<lambda>_.
    bindE (ok_or (ape_digest_bytes env i) RepositoryInvalid) (\<lambda>bytes.
      Inr (''sha256:'' @ ape_sha env bytes)))"

definition stored_artifacts :: "prepared_append \<Rightarrow> stored_artifact list" where
  "stored_artifacts r = map (\<lambda>a. \<lparr>sar_reference = arg_reference a, sar_producer_stream_id = pap_stream_id r,
     sar_producer_idempotency_key = arg_producer_idempotency_key a\<rparr>) (pap_artifacts r)"

definition evidence_id_of_digest :: "evidence_digest \<Rightarrow> string" where
  "evidence_id_of_digest d = er_evidence_id (evd_reference d)"

definition request_digest :: "append_env \<Rightarrow> prepared_append \<Rightarrow> repository_error + string" where
  "request_digest env r =
    digest_of_input env
      \<lparr>rdi_scope = pap_scope r, rdi_stream_id = pap_stream_id r,
       rdi_expected_next_sequence = pap_expected_next_sequence r, rdi_events = pap_events r,
       rdi_evidence = sort_key evidence_id_of_digest (map (evidence_digest_of (ape_sha env)) (pap_evidence r)),
       rdi_artifacts = stored_artifacts r\<rparr>"



section \<open>References, artifacts and lineage\<close>

text \<open>\<open>collect\<close> into a \<open>BTreeMap\<close>: later entries replace earlier ones.\<close>

definition om_collect :: "('k::linorder \<times> 'v) list \<Rightarrow> ('k, 'v) omap" where
  "om_collect kvs = fold (\<lambda>(k, v). om_insert k v) kvs om_empty"

definition prepared_evidence_map :: "prepared_append \<Rightarrow> (string, evidence_reference) omap" where
  "prepared_evidence_map r =
    om_collect (map (\<lambda>e. (er_evidence_id (sev_reference e), sev_reference e)) (pap_evidence r))"

definition evidence_reference_step ::
  "(string, evidence_reference) omap \<Rightarrow> (evidence_reference \<Rightarrow> repository_error + bool) \<Rightarrow> evidence_reference
   \<Rightarrow> (string, evidence_reference) omap \<Rightarrow> repository_error + (string, evidence_reference) omap" where
  "evidence_reference_step prepared verify_committed ref verified =
    (case om_get prepared (er_evidence_id ref) of
       Some prep \<Rightarrow> if prep \<noteq> ref then Inl RepositoryInvalid else Inr verified
     | None \<Rightarrow>
         (case om_get verified (er_evidence_id ref) of
            Some existing \<Rightarrow> if existing \<noteq> ref then Inl RepositoryInvalid else Inr verified
          | None \<Rightarrow>
              bindE (verify_committed ref) (\<lambda>ok.
                if \<not> ok then Inl RepositoryInvalid
                else Inr (om_insert (er_evidence_id ref) ref verified))))"

definition validate_evidence_references ::
  "new_event list \<Rightarrow> (string, evidence_reference) omap \<Rightarrow> (evidence_reference \<Rightarrow> repository_error + bool)
   \<Rightarrow> repository_error + unit" where
  "validate_evidence_references evs prepared verify_committed =
    bindE (foldE (evidence_reference_step prepared verify_committed)
             (concat (map nev_evidence_refs evs)) om_empty) (\<lambda>_. Inr ())"

definition validate_artifact_relations ::
  "prepared_append \<Rightarrow> (string, stored_artifact) omap \<Rightarrow> repository_error + unit" where
  "validate_artifact_relations r committed =
    (let prepared = om_collect (map (\<lambda>a. (ar_artifact_id (arg_reference a), a)) (pap_artifacts r)) in
     if list_ex (\<lambda>sa. case om_get committed (ar_artifact_id (sar_reference sa)) of None \<Rightarrow> False
                  | Some existing \<Rightarrow> existing \<noteq> sa) (stored_artifacts r)
     then Inl RepositoryInvalid
     else if list_ex (\<lambda>ref. \<not> om_contains prepared (ar_artifact_id ref) \<and>
               \<not> (case om_get committed (ar_artifact_id ref) of None \<Rightarrow> False
                  | Some existing \<Rightarrow> sar_producer_stream_id existing = pap_stream_id r \<and>
                      sar_reference existing = ref)) (concat (map nev_artifact_refs (pap_events r)))
     then Inl RepositoryInvalid
     else Inr ())"

record active_graph_identity =
  agi_number :: u64
  agi_semantic_hash :: string

definition active_graph_identity_new :: "u64 \<Rightarrow> string \<Rightarrow> repository_error + active_graph_identity" where
  "active_graph_identity_new number semantic_hash =
    (if number = 0 \<or> number > 9007199254740991 \<or> \<not> is_wire_hash semantic_hash then Inl RepositoryInvalid
     else Inr \<lparr>agi_number = number, agi_semantic_hash = semantic_hash\<rparr>)"

definition is_graph_successor :: "persisted_graph_version \<Rightarrow> u64 \<Rightarrow> string \<Rightarrow> bool" where
  "is_graph_successor v active_number active_semantic_hash =
    (checked_add active_number 1 = Some (pgv_number v) \<and>
     (case pgv_predecessor v of None \<Rightarrow> False
      | Some p \<Rightarrow> pgr_number p = active_number \<and> pgr_semantic_hash p = active_semantic_hash))"

definition lineage_step ::
  "new_event \<Rightarrow> active_graph_identity option \<Rightarrow> repository_error + active_graph_identity option" where
  "lineage_step ev current = (case nev_kind ev of
      GraphVersionPublished pl \<Rightarrow>
        let v = gvp_version pl in
        if (case current of
              Some a \<Rightarrow> \<not> is_graph_successor v (agi_number a) (agi_semantic_hash a)
            | None \<Rightarrow> pgv_number v \<noteq> 1 \<or> pgv_predecessor v \<noteq> None)
        then Inl RepositoryInvalid
        else Inr (Some \<lparr>agi_number = pgv_number v, agi_semantic_hash = pgv_semantic_hash v\<rparr>)
    | _ \<Rightarrow> Inr current)"

definition validate_graph_lineage ::
  "prepared_append \<Rightarrow> active_graph_identity option \<Rightarrow> repository_error + unit" where
  "validate_graph_lineage r active = bindE (foldE lineage_step (pap_events r) active) (\<lambda>_. Inr ())"


section \<open>The static preflight\<close>

definition preflight_event ::
  "append_env \<Rightarrow> repository_scope \<Rightarrow> new_event \<Rightarrow> nat \<Rightarrow> repository_error + nat" where
  "preflight_event env scope ev event_bytes =
    bindE (bounded_len (ape_event_len env ev) MAX_EVENT_BYTES) (\<lambda>len.
    bindE (ok_or (usize_add event_bytes len) RepositoryLimitExceeded) (\<lambda>bytes.
    if bytes > MAX_BATCH_BYTES then Inl RepositoryLimitExceeded
    else bindE (ape_scan_event env ev) (\<lambda>_.
      if is_project_level (nev_kind ev) = (rs_execution_id scope \<noteq> None) then Inl RepositoryInvalid
      else if length (nev_evidence_refs ev) > 8192 \<or> length (nev_artifact_refs ev) > 64
      then Inl RepositoryLimitExceeded
      else if (case nev_kind ev of
          GraphVersionPublished pl \<Rightarrow>
            let v = gvp_version pl in
            \<not> fe_validate_persisted_projection (re_fold (ape_replay env)) v
            \<or> isl (validate_publication_evidence_ids (ape_sha env) scope v)
            \<or> isl (validate_evidence_bijection (pgv_content_slots v) (nev_evidence_refs ev))
            \<or> rs_execution_id scope \<noteq> Some (pt_execution_id (pgv_topology v))
            \<or> nev_actor ev \<noteq> pgv_created_by v
        | _ \<Rightarrow> False)
      then Inl RepositoryInvalid
      else Inr bytes)))"

definition producer_artifacts :: "new_event list \<Rightarrow> ((string \<times> string) \<times> artifact_reference) list" where
  "producer_artifacts evs =
    concat (map (\<lambda>ev. map (\<lambda>ref. ((nev_idempotency_key ev, ar_artifact_id ref), ref)) (nev_artifact_refs ev)) evs)"

definition artifact_registrations_ok :: "prepared_append \<Rightarrow> bool" where
  "artifact_registrations_ok r =
    (let registered = om_collect (map (\<lambda>a. (ar_artifact_id (arg_reference a), a)) (pap_artifacts r));
         producers = om_collect (producer_artifacts (pap_events r)) in
     om_len registered = length (pap_artifacts r) \<and>
     om_len producers = length (producer_artifacts (pap_events r)) \<and>
     list_all (\<lambda>a. om_get producers (arg_producer_idempotency_key a, ar_artifact_id (arg_reference a))
                = Some (arg_reference a)) (pap_artifacts r))"

definition validate_prepared_append :: "append_env \<Rightarrow> prepared_append \<Rightarrow> repository_error + unit" where
  "validate_prepared_append env r =
    bindE (ape_scan_scope env (pap_scope r) (pap_stream_id r)) (\<lambda>_.
    if om_len (os_of_list (map nev_idempotency_key (pap_events r))) \<noteq> length (pap_events r)
    then Inl RepositoryInvalid
    else bindE (foldE (preflight_event env (pap_scope r)) (pap_events r) 0) (\<lambda>_.
      let prepared = prepared_evidence_map r in
      if om_len prepared \<noteq> length (pap_evidence r)
         \<or> list_ex (\<lambda>e. sev_scope e \<noteq> pap_scope r \<or> isl (validate_sealed_metadata (ape_sha env) e))
             (pap_evidence r)
      then Inl RepositoryInvalid
      else bindE (foldE (\<lambda>e _. ape_scan_evidence env e) (pap_evidence r) ()) (\<lambda>_.
        let referenced = os_of_list (map er_evidence_id (concat (map nev_evidence_refs (pap_events r)))) in
        if \<not> list_all (os_member referenced) (om_keys prepared) then Inl RepositoryInvalid
        else bindE (validate_evidence_references (pap_events r) prepared (\<lambda>_. Inr True)) (\<lambda>_.
          if usize_sum (map (\<lambda>ev. length (nev_artifact_refs ev)) (pap_events r)) 0 = None
          then Inl RepositoryLimitExceeded
          else if \<not> artifact_registrations_ok r then Inl RepositoryInvalid
          else bindE (foldE (\<lambda>a _. ape_scan_artifact env a) (pap_artifacts r) ()) (\<lambda>_.
            bindE (request_digest env r) (\<lambda>_. Inr ()))))))"

end
