(* ===== verification/Replay_Soundness.thy ===== *)
theory Replay_Soundness
  imports Replay
begin

text \<open>
  What a replay accepts, stated on the events alone (\<open>sound_journal\<close>, \<open>within_totals\<close>); that a rebuild
  in pages is the replay of the whole journal, whatever the cut; and that a read budget only refuses.
  The proofs describe the walk's state after a prefix as a function of that prefix (\<open>replayed\<close>,
  \<open>paged\<close>), so each step lemma is an equation.
\<close>


section \<open>The stream stamp\<close>

lemma fold_projection_stream: "fold_projection env ev p = Inr q \<Longrightarrow> p_stream_id q = p_stream_id p"
  by (cases "env_kind ev") (auto simp: fold_projection_def dest!: fold_frames)

lemma stamp_stream_id:
  "p_stream_id (stamp_stream ev p) = Some (case p_stream_id p of None \<Rightarrow> env_stream_id ev | Some s \<Rightarrow> s)"
  by (simp add: stamp_stream_def split: option.split)

lemma stamp_stream_idem [simp]: "stamp_stream ev (stamp_stream ev p) = stamp_stream ev p"
  by (simp add: stamp_stream_def split: option.split)

lemma apply_event_stream:
  assumes "apply_projection_event env ev (p, a) = Inr (q, b)"
  shows "p_stream_id q = Some (case p_stream_id p of None \<Rightarrow> env_stream_id ev | Some s \<Rightarrow> s)"
  using apply_projection_event_Inr [OF assms]
proof (elim disjE exE conjE)
  fix pl assume "(q, b) = update_legal_hold_projection
      (scoped_evidence_key (elh_evidence_scope pl) (elh_evidence_id pl)) (elh_hold_id pl)
      (elh_state pl) (stamp_stream ev p, a)"
  then obtain y where "q = (stamp_stream ev p)\<lparr>p_legal_holds := y\<rparr>" using update_legal_hold_fields by blast
  then show ?thesis by (simp add: stamp_stream_id)
next
  assume "fold_projection env ev (stamp_stream ev p) = Inr q"
  then show ?thesis by (simp add: fold_projection_stream stamp_stream_id)
qed

lemma apply_event_stamped:
  "apply_projection_event env ev (stamp_stream ev p, a) = apply_projection_event env ev (p, a)"
  unfolding apply_projection_event_def prod.case Let_def stamp_stream_idem ..

section \<open>What replay accepts\<close>

text \<open>
  The journal a replay promises, stated on positions: event \<open>i\<close> carries sequence \<open>i + 1\<close>, the hash of
  its predecessor and its own hash, is valid, and belongs to the scope and stream asked for; no
  idempotency key occurs twice.
\<close>

definition chain_hash :: "event_envelope list \<Rightarrow> string" where
  "chain_hash evs = (if evs = [] then GENESIS_HASH else env_event_hash (last evs))"

definition admissible ::
  "replay_env \<Rightarrow> repository_scope \<Rightarrow> string \<Rightarrow> event_envelope \<Rightarrow> bool" where
  "admissible env scope stream ev \<longleftrightarrow>
    re_schema_ok env ev \<and> validate_envelope env ev = Inr () \<and>
    env_scope ev = scope \<and> env_stream_id ev = stream"

definition linked :: "replay_env \<Rightarrow> event_envelope list \<Rightarrow> event_envelope \<Rightarrow> bool" where
  "linked env evs ev \<longleftrightarrow>
    env_sequence ev = of_nat (Suc (length evs)) \<and> env_previous_hash ev = chain_hash evs \<and>
    event_hash env ev (chain_hash evs) = Inr (env_event_hash ev)"

definition sound_journal ::
  "replay_env \<Rightarrow> repository_scope \<Rightarrow> string \<Rightarrow> event_envelope list \<Rightarrow> bool" where
  "sound_journal env scope stream evs \<longleftrightarrow>
    list_all (admissible env scope stream) evs \<and>
    (\<forall>i<length evs. linked env (take i evs) (evs ! i)) \<and>
    distinct (map env_idempotency_key evs)"

definition event_bytes :: "replay_env \<Rightarrow> event_envelope \<Rightarrow> nat" where
  "event_bytes env ev = (case re_json_len env ev of None \<Rightarrow> 0 | Some n \<Rightarrow> n)"

definition journal_bytes :: "replay_env \<Rightarrow> event_envelope list \<Rightarrow> nat" where
  "journal_bytes env evs = sum_list (map (event_bytes env) evs)"

definition journal_references :: "event_envelope list \<Rightarrow> nat" where
  "journal_references evs = (\<Sum>ev\<leftarrow>evs. length (env_evidence_refs ev) + length (env_artifact_refs ev))"

definition within_totals :: "replay_env \<Rightarrow> event_envelope list \<Rightarrow> bool" where
  "within_totals env evs \<longleftrightarrow>
    list_all (\<lambda>ev. \<exists>n\<le>MAX_EVENT_BYTES. re_json_len env ev = Some n) evs \<and>
    journal_bytes env evs \<le> unat MAX_JOURNAL_BYTES \<and> journal_references evs \<le> MAX_READ_ALL"

lemma sound_journal_snoc:
  "sound_journal env scope stream (evs @ [ev]) \<longleftrightarrow>
    sound_journal env scope stream evs \<and> admissible env scope stream ev \<and> linked env evs ev \<and>
    env_idempotency_key ev \<notin> env_idempotency_key ` set evs"
proof -
  have "(\<forall>i<length (evs @ [ev]). linked env (take i (evs @ [ev])) ((evs @ [ev]) ! i)) \<longleftrightarrow>
      (\<forall>i<length evs. linked env (take i evs) (evs ! i)) \<and> linked env evs ev"
    by (auto simp: less_Suc_eq nth_append)
  then show ?thesis by (auto simp: sound_journal_def)
qed

lemma chain_hash_snoc [simp]: "chain_hash (evs @ [ev]) = env_event_hash ev"
  by (simp add: chain_hash_def)

lemma chain_hash_Nil [simp]: "chain_hash [] = GENESIS_HASH"
  by (simp add: chain_hash_def)

lemma limits_unat [simp]: "unat MAX_JOURNAL_BYTES = 268435456"
  by (simp add: MAX_JOURNAL_BYTES_def)

lemma within_totals_Nil [simp]: "within_totals env []"
  by (simp add: within_totals_def journal_bytes_def journal_references_def)

lemma within_totals_snoc:
  "within_totals env (evs @ [ev]) \<longleftrightarrow>
    within_totals env evs \<and> (\<exists>n\<le>MAX_EVENT_BYTES. re_json_len env ev = Some n) \<and>
    journal_bytes env (evs @ [ev]) \<le> unat MAX_JOURNAL_BYTES \<and>
    journal_references (evs @ [ev]) \<le> MAX_READ_ALL"
  by (auto simp: within_totals_def journal_bytes_def journal_references_def)

lemma advance_totals_exact:
  assumes "within_totals env evs"
  shows "advance_totals env ev (of_nat (journal_bytes env evs)) (journal_references evs) =
    (if within_totals env (evs @ [ev])
     then Inr (of_nat (journal_bytes env (evs @ [ev])), journal_references (evs @ [ev]))
     else Inl LimitExceeded)"
proof (cases "\<exists>n\<le>MAX_EVENT_BYTES. re_json_len env ev = Some n")
  case False
  then show ?thesis
    by (auto simp: advance_totals_def serialized_len_bounded_def within_totals_snoc split: option.splits)
next
  case True
  then obtain n where n: "re_json_len env ev = Some n" "n \<le> MAX_EVENT_BYTES" by blast
  let ?b = "journal_bytes env evs"
  have bound: "?b \<le> 268435456" "journal_references evs \<le> MAX_READ_ALL"
    using assms by (simp_all add: within_totals_def)
  have nb: "n \<le> 1048576" using n by (simp add: MAX_EVENT_BYTES_def)
  have jb: "journal_bytes env (evs @ [ev]) = ?b + n"
    by (simp add: journal_bytes_def event_bytes_def n)
  have small: "unat (of_nat ?b :: u64) = ?b" "unat (of_nat n :: u64) = n"
    using bound nb by (simp_all add: unat_of_nat)
  have add: "checked_add (of_nat ?b :: u64) (of_nat n) = Some (of_nat (?b + n))"
    using bound nb small by (simp add: checked_add_def)
  have cmp: "(of_nat (?b + n) :: u64) > MAX_JOURNAL_BYTES \<longleftrightarrow> ?b + n > unat MAX_JOURNAL_BYTES"
    using bound nb by (simp add: word_less_nat_alt unat_of_nat del: of_nat_add)
  have n64: "\<not> n \<ge> 2 ^ 64" using nb by simp
  let ?r = "length (env_evidence_refs ev)" and ?t = "length (env_artifact_refs ev)"
  have jr: "journal_references (evs @ [ev]) = journal_references evs + ?r + ?t"
    by (simp add: journal_references_def)
  have within: "within_totals env (evs @ [ev]) \<longleftrightarrow>
      ?b + n \<le> unat MAX_JOURNAL_BYTES \<and> journal_references evs + ?r + ?t \<le> MAX_READ_ALL"
    using assms n by (simp add: within_totals_snoc jb jr)
  have refs: "Option.bind (usize_add (journal_references evs) ?r) (\<lambda>r. usize_add r ?t) =
      (if journal_references evs + ?r + ?t < 2 ^ 64 then Some (journal_references evs + ?r + ?t) else None)"
    by (simp add: usize_add_def)
  have unfolded: "advance_totals env ev (of_nat ?b) (journal_references evs) =
      (case (if journal_references evs + ?r + ?t < 2 ^ 64 then Some (journal_references evs + ?r + ?t) else None) of
         None \<Rightarrow> Inl LimitExceeded
       | Some r \<Rightarrow> if ?b + n > unat MAX_JOURNAL_BYTES \<or> r > MAX_READ_ALL then Inl LimitExceeded
                  else Inr (of_nat (?b + n), r))"
    using n n64 unfolding advance_totals_def serialized_len_bounded_def
    by (simp add: add refs cmp del: of_nat_add split: option.split)
  show ?thesis unfolding unfolded within jb jr by (auto simp: MAX_READ_ALL_def)
qed

lemma admissible_levels: "admissible env scope stream ev \<Longrightarrow> \<not> level_mismatch ev"
  by (auto simp: admissible_def validate_envelope_def split: if_splits)

text \<open>The state of a replay after \<open>evs\<close>, read off the events.\<close>

definition replayed ::
  "replay_env \<Rightarrow> repository_scope \<Rightarrow> event_envelope list \<Rightarrow> execution_projection \<Rightarrow> holds \<Rightarrow> replay_state" where
  "replayed env scope evs p a =
    \<lparr>rp_projection = p, rp_seen = os_of_list (map env_idempotency_key evs),
     rp_previous_hash = chain_hash evs, rp_scope = (if evs = [] then None else Some scope),
     rp_bytes = of_nat (journal_bytes env evs), rp_references = journal_references evs,
     rp_holds = a, rp_index = length evs\<rparr>"

lemma replayed_Nil: "replayed env scope [] default_projection om_empty = replay_start"
  by (simp add: replayed_def replay_start_def journal_bytes_def journal_references_def os_of_list_def)

lemma isl_unit: "\<not> isl r \<longleftrightarrow> r = Inr ()"
  by (cases r) auto

lemma replay_event_exact:
  assumes totals: "within_totals env evs"
    and stream: "p_stream_id p = (if evs = [] then None else Some stream)"
  shows "replay_event env scope stream unbounded clock ev (replayed env scope evs p a) =
    (if \<not> within_totals env (evs @ [ev]) then Inl LimitExceeded
     else if \<not> (admissible env scope stream ev \<and> linked env evs ev \<and>
                env_idempotency_key ev \<notin> env_idempotency_key ` set evs) then Inl Corrupt
     else bindE (apply_projection_event (re_fold env) ev (p, a))
            (\<lambda>(q, b). Inr (replayed env scope (evs @ [ev]) q b)))"
proof -
  have ok: "check_progress clock unbounded i j = Inr ()" for i j
    by (simp add: check_progress_def unbounded_def)
  have stamp: "(case p_stream_id p of Some _ \<Rightarrow> p | None \<Rightarrow> p\<lparr>p_stream_id := Some (env_stream_id ev)\<rparr>) =
      stamp_stream ev p"
    by (simp add: stamp_stream_def split: option.split)
  have after: "(replayed env scope evs p a)\<lparr>rp_projection := q, rp_holds := b,
                   rp_seen := os_insert (env_idempotency_key ev) (os_of_list (map env_idempotency_key evs)),
                   rp_previous_hash := env_event_hash ev, rp_scope := Some scope,
                   rp_bytes := of_nat (journal_bytes env (evs @ [ev])), rp_references := journal_references (evs @ [ev]),
                   rp_index := Suc (length evs)\<rparr> = replayed env scope (evs @ [ev]) q b" for q b
    by (simp add: replayed_def os_of_list_snoc)
  let ?good = "admissible env scope stream ev \<and> linked env evs ev \<and>
                env_idempotency_key ev \<notin> env_idempotency_key ` set evs"
  have fields: "rp_index (replayed env scope evs p a) = length evs"
    "rp_bytes (replayed env scope evs p a) = of_nat (journal_bytes env evs)"
    "rp_references (replayed env scope evs p a) = journal_references evs"
    "rp_previous_hash (replayed env scope evs p a) = chain_hash evs"
    "rp_projection (replayed env scope evs p a) = p" "rp_holds (replayed env scope evs p a) = a"
    "rp_seen (replayed env scope evs p a) = os_of_list (map env_idempotency_key evs)"
    "rp_scope (replayed env scope evs p a) = (if evs = [] then None else Some scope)"
    by (simp_all add: replayed_def)
  consider (over) "\<not> within_totals env (evs @ [ev])" | (bad) "within_totals env (evs @ [ev])" "\<not> ?good"
    | (good) "within_totals env (evs @ [ev])" ?good by blast
  then show ?thesis
  proof cases
    case over
    then show ?thesis by (simp add: replay_event_def ok fields advance_totals_exact [OF totals])
  next
    case bad
    then show ?thesis
      by (auto simp: replay_event_def ok fields advance_totals_exact [OF totals] admissible_def linked_def
          isl_unit add.commute)
  next
    case good
    note lv = admissible_levels [OF conjunct1 [OF good(2)]]
    have sc: "env_scope ev = scope" "env_stream_id ev = stream" using good by (auto simp: admissible_def)
    have cases: "(case if evs = [] then None else Some scope of None \<Rightarrow> Some (env_scope ev) | Some s \<Rightarrow> Some s) = Some scope"
      "(case p_stream_id p of None \<Rightarrow> False | Some s \<Rightarrow> s \<noteq> env_stream_id ev) = False"
      "(case if evs = [] then None else Some scope of None \<Rightarrow> False | Some s \<Rightarrow> s \<noteq> env_scope ev) = False"
      by (simp_all add: sc stream)
    show ?thesis
      using good(2) lv unfolding replay_event_def fields ok advance_totals_exact [OF totals] Let_def stamp
        apply_event_stamped cases if_P [OF good(1)]
      by (simp add: good(1) admissible_def linked_def isl_unit add.commute after)
  qed
qed

lemma from_genesis_stream:
  assumes "from_genesis env evs = Inr (p, a)" and "list_all (\<lambda>ev. env_stream_id ev = stream) evs"
  shows "p_stream_id p = (if evs = [] then None else Some stream)"
  using assms
proof (induction evs arbitrary: p a rule: rev_induct)
  case Nil
  then show ?case by (auto simp: default_projection_def)
next
  case (snoc ev evs)
  then obtain q b where q: "from_genesis env evs = Inr (q, b)" "apply_projection_event env ev (q, b) = Inr (p, a)"
    by (auto simp: from_genesis_snoc)
  from apply_event_stream [OF q(2)] snoc.IH [OF q(1)] snoc.prems(2) show ?case by (simp split: if_splits)
qed

lemma sound_journal_stream:
  "sound_journal env scope stream evs \<Longrightarrow> list_all (\<lambda>ev. env_stream_id ev = stream) evs"
  by (auto simp: sound_journal_def list_all_iff admissible_def)

lemma replay_fold_exact:
  "foldE (replay_event env scope stream unbounded clock) evs replay_start = Inr st \<longleftrightarrow>
    sound_journal env scope stream evs \<and> within_totals env evs \<and>
    (\<exists>p a. from_genesis (re_fold env) evs = Inr (p, a) \<and> st = replayed env scope evs p a)"
proof (induction evs arbitrary: st rule: rev_induct)
  case Nil
  then show ?case by (auto simp: replayed_Nil sound_journal_def)
next
  case (snoc ev evs)
  have "foldE (replay_event env scope stream unbounded clock) (evs @ [ev]) replay_start = Inr st \<longleftrightarrow>
      (\<exists>u. foldE (replay_event env scope stream unbounded clock) evs replay_start = Inr u \<and>
        replay_event env scope stream unbounded clock ev u = Inr st)"
    by (rule foldE_snoc_Inr)
  also have "\<dots> \<longleftrightarrow> sound_journal env scope stream evs \<and> within_totals env evs \<and>
      (\<exists>p a. from_genesis (re_fold env) evs = Inr (p, a) \<and>
        replay_event env scope stream unbounded clock ev (replayed env scope evs p a) = Inr st)"
    by (auto simp: snoc.IH)
  also have "\<dots> \<longleftrightarrow> sound_journal env scope stream (evs @ [ev]) \<and> within_totals env (evs @ [ev]) \<and>
      (\<exists>p a. from_genesis (re_fold env) (evs @ [ev]) = Inr (p, a) \<and> st = replayed env scope (evs @ [ev]) p a)"
    (is "?L \<longleftrightarrow> ?R")
  proof (cases "sound_journal env scope stream evs \<and> within_totals env evs")
    case True
    have step: "replay_event env scope stream unbounded clock ev (replayed env scope evs p a) = Inr st \<longleftrightarrow>
        sound_journal env scope stream (evs @ [ev]) \<and> within_totals env (evs @ [ev]) \<and>
        (\<exists>q b. apply_projection_event (re_fold env) ev (p, a) = Inr (q, b) \<and> st = replayed env scope (evs @ [ev]) q b)"
      if "from_genesis (re_fold env) evs = Inr (p, a)" for p a
      unfolding replay_event_exact [OF conjunct2 [OF True] from_genesis_stream [OF that sound_journal_stream [OF conjunct1 [OF True]]]]
        sound_journal_snoc
      using True by (auto simp: image_iff)
    show ?thesis using True step by (auto simp: from_genesis_snoc)
  next
    case False
    then show ?thesis by (auto simp: sound_journal_snoc within_totals_snoc)
  qed
  finally show ?case .
qed

lemma replay_Inr:
  "replay env scope stream evs = Inr p \<longleftrightarrow>
    is_opaque_id stream \<and> re_schemas_load env \<and> length evs \<le> MAX_READ_ALL \<and>
    sound_journal env scope stream evs \<and> within_totals env evs \<and>
    (\<exists>a. from_genesis (re_fold env) evs = Inr (p, a))"
  by (auto simp: replay_def replay_within_def replay_fold_exact replayed_def)

text \<open>C8: replay accepts exactly the sound journals. It returns a projection iff the stream name is
  well formed, the schemas load, the journal stays within every limit, every event is valid and
  belongs to the scope and stream, the sequence runs 1, 2, 3 from the genesis hash with each event
  carrying its predecessor's hash and its own, no idempotency key repeats, and the fold accepts; the
  projection is then the fold of the journal.\<close>

theorem replay_accepts_iff:
  "replay env scope stream evs = Inr p \<longleftrightarrow>
    is_opaque_id stream \<and> re_schemas_load env \<and> length evs \<le> MAX_READ_ALL \<and>
    sound_journal env scope stream evs \<and> within_totals env evs \<and>
    (\<exists>a. from_genesis (re_fold env) evs = Inr (p, a))"
  by (rule replay_Inr)



section \<open>A paged rebuild is a replay\<close>

text \<open>The generation a rebuild has reached after \<open>evs\<close>, read off the events as \<open>replayed\<close> is.\<close>

definition paged ::
  "replay_env \<Rightarrow> projection_watermark \<Rightarrow> event_envelope list \<Rightarrow> execution_projection \<Rightarrow> holds
   \<Rightarrow> projection_generation" where
  "paged env wm evs p a =
    \<lparr>pg_watermark = wm\<lparr>wm_last_sequence := of_nat (length evs),
                      wm_last_event_hash := (if evs = [] then None else Some (chain_hash evs))\<rparr>,
     pg_projection = p, pg_seen_idempotency_keys = os_of_list (map env_idempotency_key evs),
     pg_active_legal_holds = a, pg_aggregate_bytes = of_nat (journal_bytes env evs),
     pg_aggregate_references = journal_references evs\<rparr>"

lemma page_event_exact:
  assumes totals: "within_totals env evs"
  shows "page_event env ev (paged env wm evs p a) =
    (if \<not> within_totals env (evs @ [ev]) then Inl LimitExceeded
     else if \<not> (admissible env (wm_scope wm) (wm_stream_id wm) ev \<and> linked env evs ev \<and>
                env_idempotency_key ev \<notin> env_idempotency_key ` set evs) then Inl Corrupt
     else bindE (apply_projection_event (re_fold env) ev (p, a))
            (\<lambda>(q, b). Inr (paged env wm (evs @ [ev]) q b)))"
proof -
  have prev: "(case wm_last_event_hash (pg_watermark (paged env wm evs p a)) of None \<Rightarrow> GENESIS_HASH | Some h \<Rightarrow> h)
      = chain_hash evs"
    by (simp add: paged_def)
  have fields: "pg_aggregate_bytes (paged env wm evs p a) = of_nat (journal_bytes env evs)"
    "pg_aggregate_references (paged env wm evs p a) = journal_references evs"
    "pg_projection (paged env wm evs p a) = p" "pg_active_legal_holds (paged env wm evs p a) = a"
    "pg_seen_idempotency_keys (paged env wm evs p a) = os_of_list (map env_idempotency_key evs)"
    "wm_scope (pg_watermark (paged env wm evs p a)) = wm_scope wm"
    "wm_stream_id (pg_watermark (paged env wm evs p a)) = wm_stream_id wm"
    "wm_last_sequence (pg_watermark (paged env wm evs p a)) = of_nat (length evs)"
    by (simp_all add: paged_def)
  have after: "\<lparr>pg_watermark = (pg_watermark (paged env wm evs p a))\<lparr>wm_last_sequence := env_sequence ev,
                                 wm_last_event_hash := Some (env_event_hash ev)\<rparr>,
               pg_projection = q,
               pg_seen_idempotency_keys = os_insert (env_idempotency_key ev) (os_of_list (map env_idempotency_key evs)),
               pg_active_legal_holds = b, pg_aggregate_bytes = of_nat (journal_bytes env (evs @ [ev])),
               pg_aggregate_references = journal_references (evs @ [ev])\<rparr> = paged env wm (evs @ [ev]) q b"
    if "linked env evs ev" for q b
    using that by (simp add: paged_def os_of_list_snoc linked_def)
  have ok: "\<not> (\<not> re_schema_ok env ev \<or> isl (validate_envelope env ev) \<or> env_scope ev \<noteq> wm_scope wm
         \<or> env_stream_id ev \<noteq> wm_stream_id wm \<or> level_mismatch ev
         \<or> env_sequence ev \<noteq> of_nat (length evs) + 1 \<or> env_previous_hash ev \<noteq> chain_hash evs
         \<or> event_hash env ev (chain_hash evs) \<noteq> Inr (env_event_hash ev)
         \<or> os_member (os_of_list (map env_idempotency_key evs)) (env_idempotency_key ev)) \<longleftrightarrow>
      admissible env (wm_scope wm) (wm_stream_id wm) ev \<and> linked env evs ev \<and>
                env_idempotency_key ev \<notin> env_idempotency_key ` set evs"
    using admissible_levels [of env "wm_scope wm" "wm_stream_id wm" ev]
    by (auto simp: admissible_def linked_def isl_unit add.commute)
  show ?thesis
    unfolding page_event_def fields advance_totals_exact [OF totals] Let_def prev
    using ok after by auto
qed

lemma bindE_foldE_Nil: "bindE r (foldE f []) = r"
  by (cases r) simp_all

lemma bindE_foldE_snoc: "foldE f (xs @ [x]) s = bindE (foldE f xs s) (f x)"
proof -
  have "bindE r (foldE f [x]) = bindE r (f x)" for r by (cases r) (simp_all add: bindE_foldE_Nil)
  then show ?thesis by (simp add: foldE_append)
qed

lemma page_fold_is_replay_fold:
  "foldE (page_event env) evs (paged env wm [] default_projection om_empty) =
    bindE (foldE (replay_event env (wm_scope wm) (wm_stream_id wm) unbounded clock) evs replay_start)
      (\<lambda>st. Inr (paged env wm evs (rp_projection st) (rp_holds st)))"
proof (induction evs rule: rev_induct)
  case Nil
  then show ?case by (simp add: replay_start_def)
next
  case (snoc ev evs)
  let ?r = "foldE (replay_event env (wm_scope wm) (wm_stream_id wm) unbounded clock) evs replay_start"
  show ?case
  proof (cases ?r)
    case (Inl e)
    then show ?thesis using snoc.IH by (simp add: bindE_foldE_snoc)
  next
    case (Inr st)
    then obtain p a where st: "sound_journal env (wm_scope wm) (wm_stream_id wm) evs" "within_totals env evs"
      "from_genesis (re_fold env) evs = Inr (p, a)" "st = replayed env (wm_scope wm) evs p a"
      unfolding replay_fold_exact by blast
    note stream = from_genesis_stream [OF st(3) sound_journal_stream [OF st(1)]]
    have "page_event env ev (paged env wm evs p a) =
        bindE (replay_event env (wm_scope wm) (wm_stream_id wm) unbounded clock ev st)
          (\<lambda>st'. Inr (paged env wm (evs @ [ev]) (rp_projection st') (rp_holds st')))"
      unfolding page_event_exact [OF st(2)] st(4) replay_event_exact [OF st(2) stream]
      by (cases "apply_projection_event (re_fold env) ev (p, a)") (auto simp: replayed_def)
    then show ?thesis using snoc.IH Inr st(4) by (simp add: bindE_foldE_snoc replayed_def)
  qed
qed

lemma pages_fold:
  assumes "re_schemas_load env" and "list_all (\<lambda>pg. length pg \<le> MAX_READ_PAGE) pages"
  shows "foldE (apply_page env) pages g = foldE (page_event env) (concat pages) g"
  using assms
proof (induction pages arbitrary: g)
  case (Cons pg pages)
  have "foldE (apply_page env) pages = foldE (page_event env) (concat pages)"
    using Cons by (intro ext) simp
  moreover have "apply_page env pg g = foldE (page_event env) pg g" using Cons.prems by (simp add: apply_page_def)
  ultimately show ?case by (simp add: foldE_append)
qed simp

lemma generation_new_paged:
  assumes "projection_generation_new scope stream pname ver gen = Inr g"
  shows "g = paged env (pg_watermark g) [] default_projection om_empty \<and> is_opaque_id stream \<and>
    wm_scope (pg_watermark g) = scope \<and> wm_stream_id (pg_watermark g) = stream"
  using assms
  by (auto simp: projection_generation_new_def projection_watermark_new_def paged_def journal_bytes_def
      journal_references_def os_of_list_def split: if_splits)

text \<open>C9: however a journal is cut into pages, the pages and the total within the read limits, the paged rebuild of a fresh
  generation and the replay of the whole journal agree: same error, or the same projection, with the watermark on the last event.\<close>

theorem paged_rebuild_is_replay:
  assumes "projection_generation_new scope stream pname ver gen = Inr g"
    and "re_schemas_load env" and "list_all (\<lambda>pg. length pg \<le> MAX_READ_PAGE) pages"
    and "length (concat pages) \<le> MAX_READ_ALL"
  shows "case foldE (apply_page env) pages g of
      Inl e \<Rightarrow> replay env scope stream (concat pages) = Inl e
    | Inr g' \<Rightarrow> replay env scope stream (concat pages) = Inr (pg_projection g') \<and>
        wm_last_sequence (pg_watermark g') = of_nat (length (concat pages)) \<and>
        wm_last_event_hash (pg_watermark g') =
          (if concat pages = [] then None else Some (env_event_hash (last (concat pages))))"
proof -
  note g = generation_new_paged [OF assms(1), of env]
  let ?r = "foldE (replay_event env scope stream unbounded (\<lambda>_. 0)) (concat pages) replay_start"
  have eq: "foldE (apply_page env) pages g =
      bindE ?r (\<lambda>st. Inr (paged env (pg_watermark g) (concat pages) (rp_projection st) (rp_holds st)))"
    using g page_fold_is_replay_fold [of env "concat pages" "pg_watermark g"] pages_fold [OF assms(2,3), of g] by simp
  show ?thesis
    unfolding eq using g assms(2,4)
    by (cases ?r) (simp_all add: replay_def replay_within_def paged_def chain_hash_def)
qed

text \<open>A journal of two events, read in two pages; every event hashes to the same sample digest.\<close>

definition sample_replay_env :: replay_env where
  "sample_replay_env = \<lparr>re_fold = sample_env, re_schemas_load = True, re_schema_ok = (\<lambda>_. True),
     re_json_len = (\<lambda>_. Some 600), re_content_scan = (\<lambda>_. Inr ()), re_canonical_len = (\<lambda>_. Some 600),
     re_canonical_unhashed = (\<lambda>_. Some [])\<rparr>"

definition sample_hash :: string where
  "sample_hash = ''sha256:'' @ replicate 64 CHR ''0''"

definition sample_journal :: "event_envelope list" where
  "sample_journal =
    [(sample_event 1 started_kind)\<lparr>env_idempotency_key := ''k1'', env_event_hash := sample_hash\<rparr>,
     (sample_event 2 (outcome_kind ''n'' O_Started S_Running))
       \<lparr>env_idempotency_key := ''k2'', env_previous_hash := sample_hash, env_event_hash := sample_hash\<rparr>]"

lemma sample_journal_replays: "\<exists>p. replay sample_replay_env sample_scope ''stream'' sample_journal = Inr p"
proof -
  have "sound_journal sample_replay_env sample_scope ''stream'' sample_journal"
    by (simp add: sound_journal_def sample_journal_def admissible_def linked_def chain_hash_def less_Suc_eq
        All_less_Suc2 numeral_2_eq_2 sample_replay_env_def sample_defs event_hash_def sample_hash_def validate_envelope_def
        validate_envelope_content_def serialized_len_bounded_def MAX_EVENT_BYTES_def level_mismatch_def
        is_project_level_def retention_evidence_scope_def publication_consistent_def)
  moreover have "within_totals sample_replay_env sample_journal"
    by (simp add: within_totals_def sample_journal_def journal_bytes_def journal_references_def event_bytes_def
        sample_replay_env_def MAX_EVENT_BYTES_def MAX_READ_ALL_def sample_event_def)
  moreover have "\<exists>p a. from_genesis (re_fold sample_replay_env) sample_journal = Inr (p, a)"
    by (simp add: sample_journal_def sample_replay_env_def sample_defs sample_fold)
  moreover have "is_opaque_id ''stream''" by code_simp
  moreover have "re_schemas_load sample_replay_env" "length sample_journal \<le> MAX_READ_ALL"
    by (simp_all add: sample_replay_env_def sample_journal_def MAX_READ_ALL_def)
  ultimately show ?thesis unfolding replay_Inr by blast
qed

theorem paged_rebuild_is_replay_witness:
  "\<exists>g g' p. projection_generation_new sample_scope ''stream'' ''view'' 1 1 = Inr g \<and>
     foldE (apply_page sample_replay_env) [take 1 sample_journal, drop 1 sample_journal] g = Inr g' \<and>
     replay sample_replay_env sample_scope ''stream'' sample_journal = Inr p \<and>
     pg_projection g' = p \<and> wm_last_sequence (pg_watermark g') = 2"
proof -
  have "is_opaque_id ''stream''" "is_opaque_id ''view''" by code_simp+
  then obtain g where g: "projection_generation_new sample_scope ''stream'' ''view'' 1 1 = Inr g"
    by (simp add: projection_generation_new_def projection_watermark_new_def word_le_nat_alt word_less_nat_alt
        MAX_SAFE_INTEGER_def)
  let ?pages = "[take 1 sample_journal, drop 1 sample_journal]"
  have c: "concat ?pages = sample_journal" by (simp add: sample_journal_def)
  have l: "length sample_journal = 2" by (simp add: sample_journal_def)
  obtain p where p: "replay sample_replay_env sample_scope ''stream'' sample_journal = Inr p"
    using sample_journal_replays ..
  have "re_schemas_load sample_replay_env" by (simp add: sample_replay_env_def)
  moreover have "list_all (\<lambda>pg. length pg \<le> MAX_READ_PAGE) ?pages" by (simp add: MAX_READ_PAGE_def l)
  moreover have "length (concat ?pages) \<le> MAX_READ_ALL" by (simp add: c l MAX_READ_ALL_def)
  ultimately show ?thesis
    using paged_rebuild_is_replay [OF g, of sample_replay_env ?pages] g p l unfolding c
    by (auto split: sum.splits)
qed


section \<open>The read budget\<close>

text \<open>The budget refuses at the \<open>k\<close>-th event; a walk of \<open>n\<close> events meets no refusal.\<close>

definition expired :: "read_budget \<Rightarrow> (u64 \<Rightarrow> timestamp) \<Rightarrow> nat \<Rightarrow> bool" where
  "expired budget clock k \<longleftrightarrow> k mod 256 = 0 \<and>
    (case budget of None \<Rightarrow> False | Some bound \<Rightarrow> clock (of_nat k) > rb_deadline bound)"

definition in_time :: "read_budget \<Rightarrow> (u64 \<Rightarrow> timestamp) \<Rightarrow> nat \<Rightarrow> bool" where
  "in_time budget clock n \<longleftrightarrow> list_all (\<lambda>k. \<not> expired budget clock k) [1..<Suc n]"

lemma in_time_Suc: "in_time budget clock (Suc n) \<longleftrightarrow> in_time budget clock n \<and> \<not> expired budget clock (Suc n)"
  by (auto simp: in_time_def)

lemma in_time_0 [simp]: "in_time budget clock 0"
  by (simp add: in_time_def)

lemma check_progress_exact:
  assumes "Suc i < 2 ^ 64"
  shows "check_progress clock budget (of_nat i) (of_nat i + 1) =
    (if expired budget clock (Suc i)
     then Inl (of_nat (Suc i), (case budget of None \<Rightarrow> 0 | Some b \<Rightarrow> rb_limit_millis b)) else Inr ())"
proof -
  have u: "unat (of_nat i :: u64) = i" "unat (1 + of_nat i :: u64) = Suc i"
    using assms unat_of_nat [of "Suc i", where 'a = 64] by (simp_all add: unat_of_nat)
  have "(of_nat i :: u64) div 256 = (1 + of_nat i) div 256 \<longleftrightarrow> i div 256 = Suc i div 256"
    unfolding word_unat_eq_iff unat_div by (simp add: u)
  moreover have "i div 256 = Suc i div 256 \<longleftrightarrow> Suc i mod 256 \<noteq> 0" by (simp add: div_Suc)
  moreover have "(1 + of_nat i :: u64) \<noteq> 0" using u(2) by (metis unat_0 nat.distinct(1))
  ultimately show ?thesis
    by (auto simp: check_progress_def expired_def READ_BUDGET_CHECK_INTERVAL_def add.commute split: option.split)
qed

lemma replay_event_index:
  "replay_event env scope stream budget clock ev st = Inr st' \<Longrightarrow> rp_index st' = Suc (rp_index st)"
  by (auto simp: replay_event_def Let_def split: sum.splits if_splits prod.splits)

lemma replay_fold_index:
  "foldE (replay_event env scope stream budget clock) evs st = Inr st' \<Longrightarrow>
    rp_index st' = rp_index st + length evs"
  by (induction evs arbitrary: st) (auto dest!: replay_event_index)

lemma replay_event_budget:
  assumes "Suc (rp_index st) < 2 ^ 64"
  shows "replay_event env scope stream budget clock ev st =
    (if expired budget clock (Suc (rp_index st))
     then Inl (BudgetExceeded (of_nat (Suc (rp_index st))) (case budget of None \<Rightarrow> 0 | Some b \<Rightarrow> rb_limit_millis b))
     else replay_event env scope stream unbounded clock' ev st)"
proof -
  have "check_progress clock' unbounded i j = Inr ()" for i j by (simp add: check_progress_def unbounded_def)
  then show ?thesis unfolding replay_event_def check_progress_exact [OF assms, of clock budget] by simp
qed

lemma replay_fold_budget:
  assumes "length evs < 2 ^ 64"
  shows "let bounded = foldE (replay_event env scope stream budget clock) evs replay_start;
             free = foldE (replay_event env scope stream unbounded clock') evs replay_start in
    (if in_time budget clock (length evs) then bounded = free
     else \<not> isl free \<longrightarrow> (\<exists>w l. bounded = Inl (BudgetExceeded w l))) \<and>
    (bounded = free \<or> (\<exists>w l. bounded = Inl (BudgetExceeded w l)))"
  using assms
proof (induction evs rule: rev_induct)
  case (snoc ev evs)
  let ?b = "replay_event env scope stream budget clock"
  let ?f = "replay_event env scope stream unbounded clock'"
  note IH = snoc.IH [unfolded Let_def]
  show ?case
  proof (cases "foldE ?f evs replay_start")
    case (Inl e)
    then show ?thesis using IH snoc.prems by (auto simp: bindE_foldE_snoc in_time_Suc Let_def)
  next
    case (Inr st)
    have "rp_index st = length evs" using replay_fold_index [OF Inr] by (simp add: replay_start_def)
    then have step: "?b ev st = (if expired budget clock (Suc (length evs))
       then Inl (BudgetExceeded (of_nat (Suc (length evs))) (case budget of None \<Rightarrow> 0 | Some b \<Rightarrow> rb_limit_millis b))
       else ?f ev st)"
      using replay_event_budget [of st env scope stream budget clock ev clock'] snoc.prems by simp
    show ?thesis using IH snoc.prems Inr step by (auto simp: bindE_foldE_snoc in_time_Suc Let_def)
  qed
qed simp

text \<open>a read budget only refuses: a bounded replay answers exactly as the unbounded one does or is
  refused as over budget, and it returns a projection iff the unbounded one does and no check of the clock (one per 256
  events) found the deadline passed.\<close>

theorem read_budget_only_refuses:
  "(replay_within env scope stream evs budget clock = Inr p \<longleftrightarrow>
      replay env scope stream evs = Inr p \<and> in_time budget clock (length evs)) \<and>
   (replay_within env scope stream evs budget clock = replay env scope stream evs \<or>
      (\<exists>w l. replay_within env scope stream evs budget clock = Inl (BudgetExceeded w l)))"
proof (cases "\<not> is_opaque_id stream \<or> length evs > MAX_READ_ALL \<or> \<not> re_schemas_load env")
  case True
  then show ?thesis by (auto simp: replay_def replay_within_def)
next
  case False
  then have "length evs < 2 ^ 64" by (simp add: MAX_READ_ALL_def)
  from replay_fold_budget [OF this, of env scope stream budget clock "\<lambda>_. 0"] False show ?thesis
    by (cases "foldE (replay_event env scope stream unbounded (\<lambda>_. 0)) evs replay_start")
      (auto simp: replay_def replay_within_def Let_def split: if_splits)
qed

end
