(* ===== verification/Store.thy ===== *)
theory Store
  imports Append Replay_Soundness
begin

text \<open>
  The local event store (\<open>core/events/src/local.rs\<close>, \<open>local/segments.rs\<close>, \<open>jsonl.rs\<close>): a journal of batches
  cut into sealed segments and one active segment, and a directory of evidence blobs. \<open>load_state\<close> verifies the
  active segment batch by batch from the state the last seal recorded; \<open>append_locked\<close> seals a full
  segment, checks a request against the loaded state, builds its envelopes, and writes the blobs and one batch.

  A segment is a list of parsed batches, a blob is the sealed evidence it holds, and a seal is the state
  it records: reading back what was written (JSON, hexadecimal, files, the digests of the seal chain) is the
  identity. Not modelled here: file handles, locks, fsync, failpoints and torn tails, the verified-prefix cache (a
  load always walks the whole active segment), the line index of a sealed segment, active markers, and the read budget of a handle.
\<close>

section \<open>State\<close>

definition FORMAT_VERSION :: string where "FORMAT_VERSION = ''1.0.0''"
definition MAX_LOAD_WORK_UNITS :: nat where "MAX_LOAD_WORK_UNITS = 2000000"
definition MAX_REPOSITORY_METADATA_BYTES :: nat where "MAX_REPOSITORY_METADATA_BYTES = 1024 * 1024 * 1024"

record physical_batch =
  pb_format_version :: string
  pb_request_digest :: string
  pb_scope :: repository_scope
  pb_stream_id :: string
  pb_expected_next_sequence :: u64
  pb_checksum :: string
  pb_evidence_ids :: "string list"
  pb_artifacts :: "stored_artifact list"
  pb_events :: "event_envelope list"

record active_version =
  av_number :: u64
  av_semantic_hash :: string
  av_sequence :: u64
  av_event_hash :: string

record loaded_state =
  ls_batches :: "physical_batch list"
  ls_next_sequence :: "(string, u64) omap"
  ls_last_hash :: "(string, string) omap"
  ls_reachable_evidence :: "string oset"
  ls_artifacts :: "(string, stored_artifact) omap"
  ls_active_versions :: "(string, active_version) omap"
  ls_seen_idempotency :: "string oset"

definition loaded_state_default :: loaded_state where
  "loaded_state_default = \<lparr>ls_batches = [], ls_next_sequence = om_empty, ls_last_hash = om_empty,
     ls_reachable_evidence = om_empty, ls_artifacts = om_empty, ls_active_versions = om_empty,
     ls_seen_idempotency = om_empty\<rparr>"

text \<open>The ten counters of a load, each with its limit.\<close>

record load_counts =
  lc_batches :: nat
  lc_events :: nat
  lc_evidence_refs :: nat
  lc_evidence_registrations :: nat
  lc_unique_evidence :: nat
  lc_artifact_refs :: nat
  lc_artifact_registrations :: nat
  lc_unique_artifacts :: nat
  lc_graph_publications :: nat
  lc_work_units :: nat

definition load_counts_zero :: load_counts where
  "load_counts_zero = \<lparr>lc_batches = 0, lc_events = 0, lc_evidence_refs = 0, lc_evidence_registrations = 0,
     lc_unique_evidence = 0, lc_artifact_refs = 0, lc_artifact_registrations = 0, lc_unique_artifacts = 0,
     lc_graph_publications = 0, lc_work_units = 0\<rparr>"

definition DEFAULT_LOAD_LIMITS :: load_counts where
  "DEFAULT_LOAD_LIMITS = \<lparr>lc_batches = MAX_READ_ALL, lc_events = MAX_READ_ALL, lc_evidence_refs = MAX_READ_ALL,
     lc_evidence_registrations = MAX_READ_ALL, lc_unique_evidence = MAX_READ_ALL, lc_artifact_refs = MAX_READ_ALL,
     lc_artifact_registrations = MAX_READ_ALL, lc_unique_artifacts = MAX_READ_ALL,
     lc_graph_publications = MAX_READ_ALL, lc_work_units = MAX_LOAD_WORK_UNITS\<rparr>"

definition budget_add :: "nat \<Rightarrow> nat \<Rightarrow> nat \<Rightarrow> repository_error + nat" where
  "budget_add current amount limit =
    bindE (ok_or (usize_add current amount) RepositoryLimitExceeded) (\<lambda>n.
      if n > limit then Inl RepositoryLimitExceeded else Inr n)"

definition budget_work :: "nat \<Rightarrow> load_counts \<Rightarrow> repository_error + load_counts" where
  "budget_work amount b =
    bindE (budget_add (lc_work_units b) amount (lc_work_units DEFAULT_LOAD_LIMITS)) (\<lambda>n.
      Inr (b\<lparr>lc_work_units := n\<rparr>))"

definition account_batch :: "nat \<Rightarrow> nat \<Rightarrow> load_counts \<Rightarrow> repository_error + load_counts" where
  "account_batch bs es b =
    bindE (budget_add (lc_batches b) bs (lc_batches DEFAULT_LOAD_LIMITS)) (\<lambda>n.
    bindE (budget_add (lc_events b) es (lc_events DEFAULT_LOAD_LIMITS)) (\<lambda>m.
    bindE (ok_or (usize_add bs es) RepositoryLimitExceeded) (\<lambda>w.
      budget_work w (b\<lparr>lc_batches := n, lc_events := m\<rparr>))))"

definition account_evidence_registrations :: "nat \<Rightarrow> load_counts \<Rightarrow> repository_error + load_counts" where
  "account_evidence_registrations amount b =
    bindE (budget_add (lc_evidence_registrations b) amount (lc_evidence_registrations DEFAULT_LOAD_LIMITS)) (\<lambda>n.
      budget_work amount (b\<lparr>lc_evidence_registrations := n\<rparr>))"

definition account_evidence_refs :: "nat \<Rightarrow> load_counts \<Rightarrow> repository_error + load_counts" where
  "account_evidence_refs amount b =
    bindE (budget_add (lc_evidence_refs b) amount (lc_evidence_refs DEFAULT_LOAD_LIMITS)) (\<lambda>n.
      budget_work amount (b\<lparr>lc_evidence_refs := n\<rparr>))"

definition account_unique_evidence :: "load_counts \<Rightarrow> repository_error + load_counts" where
  "account_unique_evidence b =
    bindE (budget_add (lc_unique_evidence b) 1 (lc_unique_evidence DEFAULT_LOAD_LIMITS)) (\<lambda>n.
      budget_work 1 (b\<lparr>lc_unique_evidence := n\<rparr>))"

definition account_artifacts :: "nat \<Rightarrow> nat \<Rightarrow> load_counts \<Rightarrow> repository_error + load_counts" where
  "account_artifacts refs regs b =
    bindE (budget_add (lc_artifact_refs b) refs (lc_artifact_refs DEFAULT_LOAD_LIMITS)) (\<lambda>n.
    bindE (budget_add (lc_artifact_registrations b) regs (lc_artifact_registrations DEFAULT_LOAD_LIMITS)) (\<lambda>m.
    bindE (ok_or (usize_add refs regs) RepositoryLimitExceeded) (\<lambda>w.
      budget_work w (b\<lparr>lc_artifact_refs := n, lc_artifact_registrations := m\<rparr>))))"

definition account_unique_artifact :: "load_counts \<Rightarrow> repository_error + load_counts" where
  "account_unique_artifact b =
    bindE (budget_add (lc_unique_artifacts b) 1 (lc_unique_artifacts DEFAULT_LOAD_LIMITS)) (\<lambda>n.
      budget_work 1 (b\<lparr>lc_unique_artifacts := n\<rparr>))"

definition account_graph_publication :: "load_counts \<Rightarrow> repository_error + load_counts" where
  "account_graph_publication b =
    bindE (budget_add (lc_graph_publications b) 1 (lc_graph_publications DEFAULT_LOAD_LIMITS)) (\<lambda>n.
      budget_work 1 (b\<lparr>lc_graph_publications := n\<rparr>))"

lemmas account_defs = budget_add_def budget_work_def account_batch_def account_evidence_registrations_def
  account_evidence_refs_def account_unique_evidence_def account_artifacts_def account_unique_artifact_def
  account_graph_publication_def

record verify_ctx =
  vc_state :: loaded_state
  vc_budget :: load_counts
  vc_counted_evidence :: "string oset"
  vc_counted_artifacts :: "string oset"
  vc_verified_evidence :: "(string, evidence_digest) omap"
  vc_metadata_bytes :: u64

definition verify_ctx_fresh :: verify_ctx where
  "verify_ctx_fresh = \<lparr>vc_state = loaded_state_default, vc_budget = load_counts_zero,
     vc_counted_evidence = om_empty, vc_counted_artifacts = om_empty, vc_verified_evidence = om_empty,
     vc_metadata_bytes = 0\<rparr>"

text \<open>A sealed segment: its batches, and the verifier's state at its end without the batch bodies.\<close>

record sealed_segment =
  seg_batches :: "physical_batch list"
  seg_state :: loaded_state

record event_store =
  evs_sealed :: "sealed_segment list"
  evs_active :: "physical_batch list"
  evs_blobs :: "(string, sealed_evidence) omap"

definition event_store_empty :: event_store where
  "event_store_empty = \<lparr>evs_sealed = [], evs_active = [], evs_blobs = om_empty\<rparr>"

datatype schema_attempt = SchemaRan bool | SchemaTooComplex | SchemaUnregistered

text \<open>What the store calls outside the model: the canonical bytes of a scope and of a batch without its
  checksum, the lengths of what it serialises (a batch, its line, a digest, a seal and its state), and the schema check of a batch line.\<close>

record store_env =
  ste_append :: append_env
  ste_canonical_scope :: "repository_scope \<Rightarrow> string"
  ste_checksum_bytes :: "physical_batch \<Rightarrow> string"
  ste_batch_json_len :: "physical_batch \<Rightarrow> nat option"
  ste_line_len :: "physical_batch \<Rightarrow> nat"
  ste_schema_attempt :: "physical_batch \<Rightarrow> schema_attempt"
  ste_digest_len :: "evidence_digest \<Rightarrow> nat option"
  ste_seal_state_len :: "event_store \<Rightarrow> loaded_state \<Rightarrow> nat"
  ste_seal_len :: "event_store \<Rightarrow> loaded_state \<Rightarrow> nat"

abbreviation ste_replay :: "store_env \<Rightarrow> replay_env" where
  "ste_replay env \<equiv> ape_replay (ste_append env)"

abbreviation ste_sha :: "store_env \<Rightarrow> string \<Rightarrow> string" where
  "ste_sha env \<equiv> ape_sha (ste_append env)"

definition object_key :: "store_env \<Rightarrow> repository_scope \<Rightarrow> string \<Rightarrow> string" where
  "object_key env scope ident = ste_sha env (ste_canonical_scope env scope @ [char_of (0::nat)] @ ident)"

definition batch_checksum :: "store_env \<Rightarrow> physical_batch \<Rightarrow> string" where
  "batch_checksum env b = ''sha256:'' @ ste_sha env (ste_checksum_bytes env (b\<lparr>pb_checksum := []\<rparr>))"

definition stream_key :: "store_env \<Rightarrow> repository_scope \<Rightarrow> string \<Rightarrow> string" where
  "stream_key env scope stream_id = object_key env scope stream_id"

definition artifact_key :: "store_env \<Rightarrow> repository_scope \<Rightarrow> string \<Rightarrow> string" where
  "artifact_key env scope artifact_id = object_key env scope artifact_id"

text \<open>A blob's path is named by its object key.\<close>

definition blob_name :: "store_env \<Rightarrow> repository_scope \<Rightarrow> string \<Rightarrow> string" where
  "blob_name env scope evidence_id = object_key env scope evidence_id"

definition ensure_inclusive_limit :: "nat \<Rightarrow> nat \<Rightarrow> repository_error + unit" where
  "ensure_inclusive_limit n limit = (if n > limit then Inl RepositoryLimitExceeded else Inr ())"


section \<open>Blobs\<close>

definition read_verified_blob ::
  "store_env \<Rightarrow> (string, sealed_evidence) omap \<Rightarrow> string \<Rightarrow> repository_scope \<Rightarrow> evidence_reference
   \<Rightarrow> repository_error + sealed_evidence" where
  "read_verified_blob env blobs path scope reference =
    (case om_get blobs path of
       None \<Rightarrow> Inl Integrity
     | Some stored \<Rightarrow>
         if sev_scope stored \<noteq> scope \<or> sev_reference stored \<noteq> reference then Inl Integrity
         else if isl (validate_sealed_metadata (ste_sha env) stored) then Inl Integrity
         else Inr stored)"

definition verify_blob ::
  "store_env \<Rightarrow> (string, sealed_evidence) omap \<Rightarrow> string \<Rightarrow> repository_scope \<Rightarrow> evidence_reference
   \<Rightarrow> repository_error + bool" where
  "verify_blob env blobs path scope reference =
    (case om_get blobs path of
       None \<Rightarrow> Inl Integrity
     | Some stored \<Rightarrow>
         if sev_scope stored \<noteq> scope \<or> sev_reference stored \<noteq> reference then Inr False
         else if isl (validate_sealed_metadata (ste_sha env) stored) then Inl Integrity
         else Inr True)"

definition stage_evidence :: "store_env \<Rightarrow> sealed_evidence list \<Rightarrow> repository_error + (string \<times> sealed_evidence) list" where
  "stage_evidence env evidence =
    (if list_ex (\<lambda>e. ste_sha env (sev_ciphertext e) \<noteq> er_ciphertext_sha256 (sev_reference e)) evidence
     then Inl RepositoryInvalid
     else Inr (map (\<lambda>e. (blob_name env (sev_scope e) (er_evidence_id (sev_reference e)), e)) evidence))"

text \<open>Publishing links a blob under its name, and never overwrites: a name already taken must hold the same bytes.\<close>

definition publish_blob ::
  "string \<times> sealed_evidence \<Rightarrow> (string, sealed_evidence) omap \<Rightarrow> repository_error + (string, sealed_evidence) omap" where
  "publish_blob item blobs =
    (case om_get blobs (fst item) of
       None \<Rightarrow> Inr (om_insert (fst item) (snd item) blobs)
     | Some existing \<Rightarrow> if existing \<noteq> snd item then Inl IdempotencyConflict else Inr blobs)"

fun publish_staged ::
  "(string \<times> sealed_evidence) list \<Rightarrow> (string, sealed_evidence) omap
   \<Rightarrow> (repository_error + unit) \<times> (string, sealed_evidence) omap" where
  "publish_staged [] blobs = (Inr (), blobs)"
| "publish_staged (item # items) blobs =
    (case publish_blob item blobs of
       Inl e \<Rightarrow> (Inl e, blobs)
     | Inr blobs' \<Rightarrow> publish_staged items blobs')"


section \<open>Verifying a batch\<close>

definition parse_physical_batch :: "store_env \<Rightarrow> physical_batch \<Rightarrow> repository_error + unit" where
  "parse_physical_batch env b =
    (case ste_schema_attempt env b of
       SchemaTooComplex \<Rightarrow> Inl RepositoryLimitExceeded
     | SchemaUnregistered \<Rightarrow> Inl Integrity
     | SchemaRan valid \<Rightarrow> if valid then Inr () else Inl Integrity)"

definition verify_shape :: "store_env \<Rightarrow> physical_batch \<Rightarrow> repository_error + unit" where
  "verify_shape env b =
    bindE (ensure_inclusive_limit (ste_line_len env b) MAX_BATCH_BYTES) (\<lambda>_.
    bindE (parse_physical_batch env b) (\<lambda>_.
      if pb_checksum b \<noteq> batch_checksum env b then Inl CorruptBatch
      else if pb_format_version b \<noteq> FORMAT_VERSION then Inl Integrity
      else if pb_events b = [] \<or> env_sequence (hd (pb_events b)) \<noteq> pb_expected_next_sequence b then Inl Integrity
      else Inr ()))"

definition is_publication :: "event_kind \<Rightarrow> bool" where
  "is_publication k = (case k of GraphVersionPublished _ \<Rightarrow> True | _ \<Rightarrow> False)"

definition artifact_ref_count :: "physical_batch \<Rightarrow> repository_error + nat" where
  "artifact_ref_count b =
    ok_or (usize_sum (map (\<lambda>ev. length (env_artifact_refs ev)) (pb_events b)) 0) RepositoryLimitExceeded"

definition account_line :: "physical_batch \<Rightarrow> load_counts \<Rightarrow> repository_error + load_counts" where
  "account_line b budget =
    bindE (account_batch 1 (length (pb_events b)) budget) (\<lambda>budget.
    bindE (account_evidence_registrations (length (pb_evidence_ids b)) budget) (\<lambda>budget.
    bindE (artifact_ref_count b) (\<lambda>refs.
    bindE (account_artifacts refs (length (pb_artifacts b)) budget) (\<lambda>budget.
    bindE (ok_or (usize_sum (map (\<lambda>ev. length (env_evidence_refs ev)) (pb_events b)) 0)
             RepositoryLimitExceeded) (\<lambda>refs.
    bindE (account_evidence_refs refs budget) (\<lambda>budget.
      foldE (\<lambda>ev budget. if is_publication (env_kind ev) then account_graph_publication budget else Inr budget)
        (pb_events b) budget))))))"

definition batch_artifacts :: "physical_batch \<Rightarrow> (string, stored_artifact) omap" where
  "batch_artifacts b = om_collect (map (\<lambda>a. (ar_artifact_id (sar_reference a), a)) (pb_artifacts b))"

definition batch_producer_artifacts :: "physical_batch \<Rightarrow> ((string \<times> string) \<times> artifact_reference) list" where
  "batch_producer_artifacts b =
    concat (map (\<lambda>ev. map (\<lambda>ref. ((env_idempotency_key ev, ar_artifact_id ref), ref)) (env_artifact_refs ev))
      (pb_events b))"

definition verify_artifacts :: "store_env \<Rightarrow> physical_batch \<Rightarrow> loaded_state \<Rightarrow> repository_error + unit" where
  "verify_artifacts env b st =
    (let producers = om_collect (batch_producer_artifacts b) in
     bindE (artifact_ref_count b) (\<lambda>count.
     if om_len (batch_artifacts b) \<noteq> length (pb_artifacts b) \<or> om_len producers \<noteq> count
        \<or> list_ex (\<lambda>a. sar_producer_stream_id a \<noteq> pb_stream_id b
             \<or> om_get producers (sar_producer_idempotency_key a, ar_artifact_id (sar_reference a))
                 \<noteq> Some (sar_reference a)) (pb_artifacts b)
     then Inl Integrity
     else if list_ex (\<lambda>a. case om_get (ls_artifacts st) (artifact_key env (pb_scope b) (ar_artifact_id (sar_reference a)))
                of None \<Rightarrow> False | Some existing \<Rightarrow> existing \<noteq> a) (pb_artifacts b)
     then Inl Integrity
     else Inr ()))"

definition batch_ref_step ::
  "evidence_reference \<Rightarrow> (string, evidence_reference) omap \<Rightarrow> repository_error + (string, evidence_reference) omap" where
  "batch_ref_step ref m =
    (case om_get m (er_evidence_id ref) of
       Some existing \<Rightarrow> if existing \<noteq> ref then Inl Integrity else Inr (om_insert (er_evidence_id ref) ref m)
     | None \<Rightarrow> Inr (om_insert (er_evidence_id ref) ref m))"

definition batch_evidence_refs :: "physical_batch \<Rightarrow> repository_error + (string, evidence_reference) omap" where
  "batch_evidence_refs b = foldE batch_ref_step (concat (map env_evidence_refs (pb_events b))) om_empty"

definition verify_declared_evidence ::
  "physical_batch \<Rightarrow> (string, evidence_reference) omap \<Rightarrow> repository_error + unit" where
  "verify_declared_evidence b refs =
    (if om_len (os_of_list (pb_evidence_ids b)) \<noteq> length (pb_evidence_ids b)
        \<or> list_ex (\<lambda>i. \<not> om_contains refs i) (pb_evidence_ids b)
     then Inl Integrity else Inr ())"

definition count_evidence :: "string \<Rightarrow> verify_ctx \<Rightarrow> repository_error + verify_ctx" where
  "count_evidence ident c =
    (if os_member (vc_counted_evidence c) ident then Inr c
     else bindE (account_unique_evidence (vc_budget c)) (\<lambda>budget.
       Inr (c\<lparr>vc_budget := budget, vc_counted_evidence := os_insert ident (vc_counted_evidence c)\<rparr>)))"

definition count_artifact :: "string \<Rightarrow> verify_ctx \<Rightarrow> repository_error + verify_ctx" where
  "count_artifact ident c =
    (if os_member (vc_counted_artifacts c) ident then Inr c
     else bindE (account_unique_artifact (vc_budget c)) (\<lambda>budget.
       Inr (c\<lparr>vc_budget := budget, vc_counted_artifacts := os_insert ident (vc_counted_artifacts c)\<rparr>)))"

text \<open>The digest of one declared evidence: the one already verified, or that of its blob.\<close>

definition declared_digest ::
  "store_env \<Rightarrow> (string, sealed_evidence) omap \<Rightarrow> physical_batch \<Rightarrow> (string, evidence_reference) omap \<Rightarrow> string
   \<Rightarrow> evidence_digest list \<times> verify_ctx \<Rightarrow> repository_error + evidence_digest list \<times> verify_ctx" where
  "declared_digest env blobs b refs i acc =
    (case acc of (digests, c) \<Rightarrow>
      bindE (ok_or (om_get refs i) Integrity) (\<lambda>ref.
      let ident = object_key env (pb_scope b) (er_evidence_id ref) in
      bindE (count_evidence ident c) (\<lambda>c.
      case om_get (vc_verified_evidence c) ident of
        Some existing \<Rightarrow>
          if evd_scope existing \<noteq> pb_scope b \<or> evd_reference existing \<noteq> ref then Inl Integrity
          else Inr (digests @ [existing], c)
      | None \<Rightarrow>
          bindE (read_verified_blob env blobs (blob_name env (pb_scope b) (er_evidence_id ref)) (pb_scope b) ref) (\<lambda>sealed.
          let d = evidence_digest_of (ste_sha env) sealed in
          bindE (bounded_len (ste_digest_len env d) MAX_EVENT_BYTES) (\<lambda>n.
          bindE (ok_or (checked_add (vc_metadata_bytes c) (of_nat n)) RepositoryLimitExceeded) (\<lambda>total_bytes.
          bindE (ensure_inclusive_limit (unat total_bytes) MAX_REPOSITORY_METADATA_BYTES) (\<lambda>_.
            Inr (digests @ [d], c\<lparr>vc_metadata_bytes := total_bytes,
              vc_verified_evidence := om_insert ident d (vc_verified_evidence c)\<rparr>))))))))"

definition request_of_envelope :: "event_envelope \<Rightarrow> new_event" where
  "request_of_envelope ev =
    \<lparr>nev_idempotency_key = env_idempotency_key ev, nev_actor = env_actor ev, nev_sensitivity = env_sensitivity ev,
     nev_kind = env_kind ev, nev_evidence_refs = env_evidence_refs ev, nev_artifact_refs = env_artifact_refs ev\<rparr>"

definition verify_request_digest ::
  "store_env \<Rightarrow> physical_batch \<Rightarrow> evidence_digest list \<Rightarrow> repository_error + unit" where
  "verify_request_digest env b digests =
    (if \<not> is_opaque_id (pb_stream_id b) then Inl Integrity
     else bindE (digest_of_input (ste_append env)
        \<lparr>rdi_scope = pb_scope b, rdi_stream_id = pb_stream_id b,
         rdi_expected_next_sequence = pb_expected_next_sequence b,
         rdi_events = map request_of_envelope (pb_events b),
         rdi_evidence = sort_key evidence_id_of_digest digests, rdi_artifacts = pb_artifacts b\<rparr>) (\<lambda>d.
       if d \<noteq> pb_request_digest b then Inl Integrity else Inr ()))"

definition verify_publication ::
  "store_env \<Rightarrow> string \<Rightarrow> event_envelope \<Rightarrow> loaded_state \<Rightarrow> repository_error + loaded_state" where
  "verify_publication env key ev st = (case env_kind ev of
      GraphVersionPublished pl \<Rightarrow>
        let v = gvp_version pl in
        if \<not> fe_validate_persisted_projection (re_fold (ste_replay env)) v then Inl Integrity
        else if (case om_get (ls_active_versions st) key of
              Some a \<Rightarrow> \<not> is_graph_successor v (av_number a) (av_semantic_hash a)
            | None \<Rightarrow> pgv_number v \<noteq> 1 \<or> pgv_predecessor v \<noteq> None)
        then Inl Integrity
        else Inr (st\<lparr>ls_active_versions := om_insert key
               \<lparr>av_number = pgv_number v, av_semantic_hash = pgv_semantic_hash v,
                av_sequence = env_sequence ev, av_event_hash = env_event_hash ev\<rparr> (ls_active_versions st)\<rparr>)
    | _ \<Rightarrow> Inr st)"

definition idempotency_identity :: "string \<Rightarrow> string \<Rightarrow> string" where
  "idempotency_identity key idem = key @ '':'' @ idem"

text \<open>One evidence reference of an event: evidence a sealed segment registered is verified here, once; the
  reference must agree with the verified digest.\<close>

definition verify_evidence_reference ::
  "store_env \<Rightarrow> (string, sealed_evidence) omap \<Rightarrow> repository_scope \<Rightarrow> evidence_reference
   \<Rightarrow> verify_ctx \<Rightarrow> repository_error + verify_ctx" where
  "verify_evidence_reference env blobs scope ref c =
    (let ident = object_key env scope (er_evidence_id ref);
         path = blob_name env scope (er_evidence_id ref) in
     bindE (count_evidence ident c) (\<lambda>c.
     bindE (if \<not> om_contains (vc_verified_evidence c) ident \<and> os_member (ls_reachable_evidence (vc_state c)) path
            then bindE (read_verified_blob env blobs path scope ref) (\<lambda>sealed.
              Inr (c\<lparr>vc_verified_evidence :=
                om_insert ident (evidence_digest_of (ste_sha env) sealed) (vc_verified_evidence c)\<rparr>))
            else Inr c) (\<lambda>c.
     if (case om_get (vc_verified_evidence c) ident of None \<Rightarrow> True
         | Some d \<Rightarrow> evd_scope d \<noteq> scope \<or> evd_reference d \<noteq> ref)
     then Inl Integrity
     else Inr (c\<lparr>vc_state := (vc_state c)\<lparr>ls_reachable_evidence :=
            os_insert path (ls_reachable_evidence (vc_state c))\<rparr>\<rparr>))))"

definition verify_artifact_reference ::
  "store_env \<Rightarrow> physical_batch \<Rightarrow> event_envelope \<Rightarrow> artifact_reference \<Rightarrow> verify_ctx \<Rightarrow> repository_error + verify_ctx" where
  "verify_artifact_reference env b ev ref c =
    (let ident = artifact_key env (env_scope ev) (ar_artifact_id ref) in
     bindE (count_artifact ident c) (\<lambda>c.
     if (case om_get (ls_artifacts (vc_state c)) ident of None \<Rightarrow> True
         | Some a \<Rightarrow> sar_producer_stream_id a \<noteq> env_stream_id ev \<or> sar_reference a \<noteq> ref)
        \<and> (case om_get (batch_artifacts b) (ar_artifact_id ref) of None \<Rightarrow> True
           | Some a \<Rightarrow> sar_producer_stream_id a \<noteq> env_stream_id ev \<or> sar_reference a \<noteq> ref)
     then Inl Integrity
     else Inr c))"

definition verify_event ::
  "store_env \<Rightarrow> (string, sealed_evidence) omap \<Rightarrow> physical_batch \<Rightarrow> string \<Rightarrow> u64 \<Rightarrow> nat \<times> event_envelope
   \<Rightarrow> string \<times> verify_ctx \<Rightarrow> repository_error + string \<times> verify_ctx" where
  "verify_event env blobs b key expected oev acc =
    (case oev of (offset, ev) \<Rightarrow> case acc of (previous, c) \<Rightarrow>
      if isl (validate_envelope (ste_replay env) ev) then Inl Integrity
      else bindE (verify_publication env key ev (vc_state c)) (\<lambda>st.
      if env_scope ev \<noteq> pb_scope b \<or> env_stream_id ev \<noteq> pb_stream_id b
         \<or> checked_add expected (of_nat offset) \<noteq> Some (env_sequence ev)
         \<or> env_previous_hash ev \<noteq> previous
      then Inl Integrity
      else bindE (event_hash (ste_replay env) ev previous) (\<lambda>h.
      let ident = idempotency_identity key (env_idempotency_key ev) in
      if h \<noteq> env_event_hash ev \<or> os_member (ls_seen_idempotency st) ident then Inl Integrity
      else
        bindE (foldE (verify_evidence_reference env blobs (env_scope ev)) (env_evidence_refs ev)
          (c\<lparr>vc_state := st\<lparr>ls_seen_idempotency := os_insert ident (ls_seen_idempotency st)\<rparr>\<rparr>)) (\<lambda>c.
        bindE (foldE (verify_artifact_reference env b ev) (env_artifact_refs ev) c) (\<lambda>c.
          Inr (env_event_hash ev, c))))))"

definition register_artifact ::
  "store_env \<Rightarrow> physical_batch \<Rightarrow> stored_artifact \<Rightarrow> verify_ctx \<Rightarrow> repository_error + verify_ctx" where
  "register_artifact env b a c =
    (let ident = artifact_key env (pb_scope b) (ar_artifact_id (sar_reference a)) in
     bindE (count_artifact ident c) (\<lambda>c.
     case om_get (ls_artifacts (vc_state c)) ident of
       Some existing \<Rightarrow> if existing \<noteq> a then Inl Integrity else Inr c
     | None \<Rightarrow> Inr (c\<lparr>vc_state := (vc_state c)\<lparr>ls_artifacts := om_insert ident a (ls_artifacts (vc_state c))\<rparr>\<rparr>)))"

definition next_sequence_of :: "loaded_state \<Rightarrow> string \<Rightarrow> u64" where
  "next_sequence_of st key = (case om_get (ls_next_sequence st) key of None \<Rightarrow> 1 | Some n \<Rightarrow> n)"

definition last_hash_of :: "loaded_state \<Rightarrow> string \<Rightarrow> string" where
  "last_hash_of st key = (case om_get (ls_last_hash st) key of None \<Rightarrow> GENESIS_HASH | Some h \<Rightarrow> h)"

definition verify_batch ::
  "store_env \<Rightarrow> (string, sealed_evidence) omap \<Rightarrow> physical_batch \<Rightarrow> verify_ctx \<Rightarrow> repository_error + verify_ctx" where
  "verify_batch env blobs b c =
    bindE (verify_shape env b) (\<lambda>_.
    bindE (account_line b (vc_budget c)) (\<lambda>budget.
    let c = c\<lparr>vc_budget := budget\<rparr>; key = stream_key env (pb_scope b) (pb_stream_id b);
        expected = next_sequence_of (vc_state c) key in
    if expected \<noteq> pb_expected_next_sequence b then Inl Integrity
    else bindE (verify_artifacts env b (vc_state c)) (\<lambda>_.
    bindE (batch_evidence_refs b) (\<lambda>refs.
    bindE (verify_declared_evidence b refs) (\<lambda>_.
    bindE (foldE (declared_digest env blobs b refs) (pb_evidence_ids b) ([], c)) (\<lambda>(digests, c).
    bindE (verify_request_digest env b digests) (\<lambda>_.
    bindE (foldE (verify_event env blobs b key expected) (enumerate 0 (pb_events b))
             (last_hash_of (vc_state c) key, c)) (\<lambda>(previous, c).
    bindE (ok_or (checked_add expected (of_nat (length (pb_events b)))) Integrity) (\<lambda>n.
    bindE (foldE (register_artifact env b) (pb_artifacts b)
       (c\<lparr>vc_state := (vc_state c)\<lparr>ls_next_sequence := om_insert key n (ls_next_sequence (vc_state c)),
                                   ls_last_hash := om_insert key previous (ls_last_hash (vc_state c))\<rparr>\<rparr>)) (\<lambda>c.
      Inr (c\<lparr>vc_state := (vc_state c)\<lparr>ls_batches := ls_batches (vc_state c) @ [b]\<rparr>\<rparr>)))))))))))"

definition segment_len :: "store_env \<Rightarrow> physical_batch list \<Rightarrow> nat" where
  "segment_len env bs = (\<Sum>b\<leftarrow>bs. ste_line_len env b + 1)"

definition seeded_ctx :: "event_store \<Rightarrow> verify_ctx" where
  "seeded_ctx store =
    (if evs_sealed store = [] then verify_ctx_fresh
     else verify_ctx_fresh\<lparr>vc_state := seg_state (last (evs_sealed store))\<rparr>)"

definition load_ctx :: "store_env \<Rightarrow> event_store \<Rightarrow> repository_error + verify_ctx" where
  "load_ctx env store =
    bindE (ensure_inclusive_limit (segment_len env (evs_active store)) (unat MAX_JOURNAL_BYTES)) (\<lambda>_.
      foldE (verify_batch env (evs_blobs store)) (evs_active store) (seeded_ctx store))"

definition load_state :: "store_env \<Rightarrow> event_store \<Rightarrow> repository_error + loaded_state" where
  "load_state env store = bindE (load_ctx env store) (\<lambda>c. Inr (vc_state c))"


section \<open>Segments and reads\<close>

definition SEGMENT_ROTATE_BYTES :: nat where "SEGMENT_ROTATE_BYTES = unat MAX_JOURNAL_BYTES div 2"
definition SEGMENT_ROTATE_EVENTS :: nat where "SEGMENT_ROTATE_EVENTS = 100000"
definition MAX_SEAL_BYTES :: nat where "MAX_SEAL_BYTES = 16 * 1024 * 1024"
definition MAX_SEAL_STATE_BYTES :: nat where "MAX_SEAL_STATE_BYTES = 512 * 1024 * 1024"
definition MAX_CURSOR_BYTES :: nat where "MAX_CURSOR_BYTES = 4 * 1024"

definition event_total :: "physical_batch list \<Rightarrow> nat" where
  "event_total bs = (\<Sum>b\<leftarrow>bs. length (pb_events b))"

definition should_rotate :: "store_env \<Rightarrow> event_store \<Rightarrow> loaded_state \<Rightarrow> bool" where
  "should_rotate env store st =
    (ls_batches st \<noteq> [] \<and>
     (segment_len env (evs_active store) \<ge> SEGMENT_ROTATE_BYTES \<or> event_total (ls_batches st) \<ge> SEGMENT_ROTATE_EVENTS))"

definition rotate_segment :: "store_env \<Rightarrow> loaded_state \<Rightarrow> event_store \<Rightarrow> repository_error + event_store" where
  "rotate_segment env st store =
    bindE (ensure_inclusive_limit (segment_len env (evs_active store)) (unat MAX_JOURNAL_BYTES)) (\<lambda>_.
    bindE (ensure_inclusive_limit (ste_seal_state_len env store st) MAX_SEAL_STATE_BYTES) (\<lambda>_.
    bindE (ensure_inclusive_limit (ste_seal_len env store st) MAX_SEAL_BYTES) (\<lambda>_.
      Inr (store\<lparr>evs_sealed := evs_sealed store @
                   [\<lparr>seg_batches = evs_active store, seg_state = st\<lparr>ls_batches := []\<rparr>\<rparr>],
                 evs_active := []\<rparr>))))"

text \<open>The sealed segments a reader of one stream opens: those whose seal, against the previous one, says
  they hold a sequence of the stream past \<open>after\<close>. Of such a segment it reads the stream's batches that end past \<open>after\<close>.\<close>

fun visit_sealed :: "store_env \<Rightarrow> string \<Rightarrow> u64 \<Rightarrow> u64 \<Rightarrow> sealed_segment list \<Rightarrow> physical_batch list" where
  "visit_sealed env key after start [] = []"
| "visit_sealed env key after start (g # gs) =
    (let stop = next_sequence_of (seg_state g) key in
     (if stop \<le> start \<or> stop \<le> saturating_add after 1 then []
      else filter (\<lambda>b. stream_key env (pb_scope b) (pb_stream_id b) = key \<and>
             (if pb_events b = [] then 0 else env_sequence (last (pb_events b))) > after) (seg_batches g))
     @ visit_sealed env key after stop gs)"

definition visit_history :: "store_env \<Rightarrow> event_store \<Rightarrow> loaded_state \<Rightarrow> string \<Rightarrow> u64 \<Rightarrow> physical_batch list" where
  "visit_history env store st key after = visit_sealed env key after 1 (evs_sealed store) @ ls_batches st"

definition own_batch :: "repository_scope \<Rightarrow> string \<Rightarrow> physical_batch \<Rightarrow> bool" where
  "own_batch scope stream_id b = (pb_scope b = scope \<and> pb_stream_id b = stream_id)"

definition stream_events_after ::
  "store_env \<Rightarrow> event_store \<Rightarrow> loaded_state \<Rightarrow> repository_scope \<Rightarrow> string \<Rightarrow> u64 \<Rightarrow> nat \<Rightarrow> event_envelope list" where
  "stream_events_after env store st scope stream_id after limit =
    take limit (filter (\<lambda>ev. env_sequence ev > after)
      (concat (map pb_events (filter (own_batch scope stream_id)
        (visit_history env store st (stream_key env scope stream_id) after)))))"

definition batch_holding_keys ::
  "store_env \<Rightarrow> event_store \<Rightarrow> loaded_state \<Rightarrow> repository_scope \<Rightarrow> string \<Rightarrow> string list \<Rightarrow> physical_batch option" where
  "batch_holding_keys env store st scope stream_id keys =
    (let key = stream_key env scope stream_id in
     if \<not> list_ex (\<lambda>i. os_member (ls_seen_idempotency st) (idempotency_identity key i)) keys then None
     else List.find (\<lambda>b. own_batch scope stream_id b \<and> list_ex (\<lambda>ev. env_idempotency_key ev \<in> set keys) (pb_events b))
            (visit_history env store st key 0))"

definition read_replay_stream ::
  "store_env \<Rightarrow> event_store \<Rightarrow> repository_scope \<Rightarrow> string \<Rightarrow> repository_error + event_envelope list" where
  "read_replay_stream env store scope stream_id =
    (if \<not> is_opaque_id stream_id then Inl RepositoryInvalid
     else bindE (load_state env store) (\<lambda>st.
       let evs = stream_events_after env store st scope stream_id 0 (MAX_READ_ALL + 1) in
       if length evs > MAX_READ_ALL then Inl RepositoryLimitExceeded else Inr evs))"

definition next_sequence ::
  "store_env \<Rightarrow> event_store \<Rightarrow> repository_scope \<Rightarrow> string \<Rightarrow> repository_error + u64" where
  "next_sequence env store scope stream_id =
    (if \<not> is_opaque_id stream_id then Inl RepositoryInvalid
     else bindE (load_state env store) (\<lambda>st. Inr (next_sequence_of st (stream_key env scope stream_id))))"

definition evidence_exists ::
  "store_env \<Rightarrow> event_store \<Rightarrow> repository_scope \<Rightarrow> string \<Rightarrow> repository_error + bool" where
  "evidence_exists env store scope evidence_id =
    bindE (load_state env store) (\<lambda>st. Inr (os_member (ls_reachable_evidence st) (blob_name env scope evidence_id)))"

definition artifact_exists ::
  "store_env \<Rightarrow> event_store \<Rightarrow> repository_scope \<Rightarrow> string \<Rightarrow> repository_error + bool" where
  "artifact_exists env store scope artifact_id =
    bindE (load_state env store) (\<lambda>st. Inr (om_contains (ls_artifacts st) (artifact_key env scope artifact_id)))"

definition active_version_of ::
  "store_env \<Rightarrow> event_store \<Rightarrow> repository_scope \<Rightarrow> string \<Rightarrow> repository_error + active_version option" where
  "active_version_of env store scope stream_id =
    bindE (load_state env store) (\<lambda>st. Inr (om_get (ls_active_versions st) (stream_key env scope stream_id)))"

definition committed_events_for_idempotency ::
  "store_env \<Rightarrow> event_store \<Rightarrow> repository_scope \<Rightarrow> string \<Rightarrow> string \<Rightarrow> repository_error + event_envelope list option" where
  "committed_events_for_idempotency env store scope stream_id idem =
    bindE (load_state env store) (\<lambda>st.
      Inr (map_option pb_events (batch_holding_keys env store st scope stream_id [idem])))"

text \<open>The page cursor \<open>v1:<stream key>:<sequence>\<close>; the decimal conversions are those of the standard library.\<close>

definition parse_decimal :: "string \<Rightarrow> u64 option" where
  "parse_decimal s =
    (let ds = (case s of c # cs \<Rightarrow> if c = CHR ''+'' then cs else s | [] \<Rightarrow> []) in
     if ds = [] \<or> \<not> list_all is_ascii_digit ds then None
     else let n = fold (\<lambda>c acc. acc * 10 + (of_char c - 48)) ds (0::nat) in
       if n < 2 ^ 64 then Some (of_nat n) else None)"

definition encode_cursor :: "store_env \<Rightarrow> repository_scope \<Rightarrow> string \<Rightarrow> u64 \<Rightarrow> repository_error + string" where
  "encode_cursor env scope stream_id seq =
    (let v = ''v1:'' @ stream_key env scope stream_id @ '':'' @ show_decimal (unat seq) in
     if length v > MAX_CURSOR_BYTES then Inl RepositoryLimitExceeded else Inr v)"

definition cursor_start ::
  "store_env \<Rightarrow> string option \<Rightarrow> repository_scope \<Rightarrow> string \<Rightarrow> repository_error + u64" where
  "cursor_start env cursor scope stream_id =
    (case cursor of None \<Rightarrow> Inr 0
     | Some cur \<Rightarrow>
         if length cur > MAX_CURSOR_BYTES then Inl RepositoryLimitExceeded
         else bindE (ok_or (strip_prefix (''v1:'' @ stream_key env scope stream_id @ '':'') cur) RepositoryInvalid) (\<lambda>rest.
           bindE (ok_or (parse_decimal rest) RepositoryInvalid) (\<lambda>seq.
             if seq = 0 \<or> seq > MAX_SAFE_INTEGER then Inl RepositoryInvalid else Inr seq)))"

record stream_head =
  sh_next_sequence :: u64
  sh_last_event_hash :: string

record event_page =
  epg_events :: "event_envelope list"
  epg_next_cursor :: "string option"
  epg_head :: "stream_head option"

definition read_stream ::
  "store_env \<Rightarrow> event_store \<Rightarrow> repository_scope \<Rightarrow> string \<Rightarrow> nat \<Rightarrow> string option \<Rightarrow> repository_error + event_page" where
  "read_stream env store scope stream_id limit cursor =
    (if limit = 0 \<or> limit > MAX_READ_PAGE then Inl RepositoryLimitExceeded
     else if \<not> is_opaque_id stream_id then Inl RepositoryInvalid
     else bindE (load_state env store) (\<lambda>st.
       let key = stream_key env scope stream_id in
       bindE (case om_get (ls_next_sequence st) key of
                None \<Rightarrow> Inr None
              | Some n \<Rightarrow> if \<not> is_wire_hash (last_hash_of st key) then Inl Integrity
                          else Inr (Some \<lparr>sh_next_sequence = n, sh_last_event_hash = last_hash_of st key\<rparr>)) (\<lambda>head.
       bindE (cursor_start env cursor scope stream_id) (\<lambda>start.
       let matching = stream_events_after env store st scope stream_id start (limit + 1);
           evs = take limit matching in
       bindE (if length matching > limit \<and> evs \<noteq> []
              then bindE (encode_cursor env scope stream_id (env_sequence (last evs))) (\<lambda>cur. Inr (Some cur))
              else Inr None) (\<lambda>next_cursor.
         Inr \<lparr>epg_events = evs, epg_next_cursor = next_cursor, epg_head = head\<rparr>)))))"


section \<open>Appending\<close>

text \<open>\<open>committed\<close>: what the loaded state knows of the artifacts a request names.\<close>

definition committed_artifacts :: "store_env \<Rightarrow> prepared_append \<Rightarrow> loaded_state \<Rightarrow> (string, stored_artifact) omap" where
  "committed_artifacts env r st =
    fold (\<lambda>i m. case om_get (ls_artifacts st) (artifact_key env (pap_scope r) i) of
            None \<Rightarrow> m | Some a \<Rightarrow> om_insert i a m)
      (map (\<lambda>a. ar_artifact_id (arg_reference a)) (pap_artifacts r) @
       map ar_artifact_id (concat (map nev_artifact_refs (pap_events r)))) om_empty"

definition validate_request_preflight ::
  "store_env \<Rightarrow> prepared_append \<Rightarrow> loaded_state \<Rightarrow> repository_error + unit" where
  "validate_request_preflight env r st =
    bindE (validate_prepared_append (ste_append env) r) (\<lambda>_.
      validate_artifact_relations r (committed_artifacts env r st))"

definition validate_graph_successors ::
  "store_env \<Rightarrow> prepared_append \<Rightarrow> loaded_state \<Rightarrow> repository_error + unit" where
  "validate_graph_successors env r st =
    bindE (case om_get (ls_active_versions st) (stream_key env (pap_scope r) (pap_stream_id r)) of
             None \<Rightarrow> Inr None
           | Some a \<Rightarrow> bindE (active_graph_identity_new (av_number a) (av_semantic_hash a)) (\<lambda>i. Inr (Some i)))
      (validate_graph_lineage r)"

definition validate_reference_availability ::
  "store_env \<Rightarrow> (string, sealed_evidence) omap \<Rightarrow> prepared_append \<Rightarrow> loaded_state \<Rightarrow> repository_error + unit" where
  "validate_reference_availability env blobs r st =
    bindE (validate_evidence_references (pap_events r) (prepared_evidence_map r) (\<lambda>ref.
        let path = blob_name env (pap_scope r) (er_evidence_id ref) in
        if os_member (ls_reachable_evidence st) path then verify_blob env blobs path (pap_scope r) ref
        else Inr False)) (\<lambda>_.
    let prepared = om_collect (map (\<lambda>a. (ar_artifact_id (arg_reference a), a)) (pap_artifacts r)) in
    if list_ex (\<lambda>ref.
        \<not> (case om_get prepared (ar_artifact_id ref) of None \<Rightarrow> False | Some a \<Rightarrow> arg_reference a = ref) \<and>
        \<not> (case om_get (ls_artifacts st) (artifact_key env (pap_scope r) (ar_artifact_id ref)) of None \<Rightarrow> False
           | Some a \<Rightarrow> sar_producer_stream_id a = pap_stream_id r \<and> sar_reference a = ref))
      (concat (map nev_artifact_refs (pap_events r)))
    then Inl RepositoryInvalid else Inr ())"

definition ensure_load_room :: "nat \<Rightarrow> nat \<Rightarrow> nat \<Rightarrow> load_counts \<Rightarrow> repository_error + unit" where
  "ensure_load_room batches evs new_events limits =
    bindE (ok_or (usize_add batches 1) RepositoryLimitExceeded) (\<lambda>n.
    bindE (ok_or (usize_add evs new_events) RepositoryLimitExceeded) (\<lambda>m.
      if n > lc_batches limits \<or> m > lc_events limits then Inl RepositoryLimitExceeded else Inr ()))"

definition ensure_journal_room :: "nat \<Rightarrow> nat \<Rightarrow> repository_error + unit" where
  "ensure_journal_room current_len line_len =
    bindE (ok_or (usize_add current_len line_len) RepositoryLimitExceeded) (\<lambda>n.
      ensure_inclusive_limit n (unat MAX_JOURNAL_BYTES))"

text \<open>The store's clock and identifier source: \<open>at\<close> is the persisted form of the instant read (none when it
  is out of range), and the \<open>i\<close>-th event of the request draws \<open>ids i\<close>.\<close>

definition build_envelope ::
  "store_env \<Rightarrow> timestamp \<Rightarrow> (nat \<Rightarrow> string) \<Rightarrow> prepared_append \<Rightarrow> nat \<times> new_event
   \<Rightarrow> string \<times> event_envelope list \<Rightarrow> repository_error + string \<times> event_envelope list" where
  "build_envelope env at ids r oev acc =
    (case oev of (offset, ev) \<Rightarrow> case acc of (previous, done) \<Rightarrow>
      bindE (ok_or (checked_add (pap_expected_next_sequence r) (of_nat offset)) RepositoryLimitExceeded) (\<lambda>seq.
      if seq > MAX_SAFE_INTEGER then Inl RepositoryLimitExceeded
      else if \<not> is_opaque_id (ids offset) then Inl RepositoryInvalid
      else if \<not> is_wire_hash previous then Inl Integrity
      else
        let e0 = event_envelope_new (ids offset) (pap_scope r) (pap_stream_id r) seq at ev previous GENESIS_HASH in
        bindE (validate_envelope_content (ste_replay env) e0) (\<lambda>_.
        bindE (event_hash (ste_replay env) e0 previous) (\<lambda>h.
        if \<not> is_wire_hash h then Inl Integrity
        else
          let e = e0\<lparr>env_event_hash := h\<rparr> in
          bindE (validate_envelope (ste_replay env) e) (\<lambda>_. Inr (h, done @ [e]))))))"

definition build_envelopes ::
  "store_env \<Rightarrow> timestamp option \<Rightarrow> (nat \<Rightarrow> string) \<Rightarrow> prepared_append \<Rightarrow> loaded_state
   \<Rightarrow> repository_error + event_envelope list" where
  "build_envelopes env at ids r st =
    bindE (ok_or at RepositoryInvalid) (\<lambda>at.
    bindE (foldE (build_envelope env at ids r) (enumerate 0 (pap_events r))
        (last_hash_of st (stream_key env (pap_scope r) (pap_stream_id r)), [])) (\<lambda>(_, evs). Inr evs))"

datatype append_plan = Committed "event_envelope list" | NewBatch physical_batch

definition new_batch :: "store_env \<Rightarrow> prepared_append \<Rightarrow> string \<Rightarrow> event_envelope list \<Rightarrow> physical_batch" where
  "new_batch env r digest evs =
    (let b = \<lparr>pb_format_version = FORMAT_VERSION, pb_request_digest = digest, pb_scope = pap_scope r,
              pb_stream_id = pap_stream_id r, pb_expected_next_sequence = pap_expected_next_sequence r,
              pb_checksum = [],
              pb_evidence_ids = sort (map (\<lambda>e. er_evidence_id (sev_reference e)) (pap_evidence r)),
              pb_artifacts = stored_artifacts r, pb_events = evs\<rparr> in
     b\<lparr>pb_checksum := batch_checksum env b\<rparr>)"

definition readable_back :: "store_env \<Rightarrow> physical_batch \<Rightarrow> repository_error + unit" where
  "readable_back env b =
    bindE (bounded_len (ste_batch_json_len env b) MAX_BATCH_BYTES) (\<lambda>_.
      case ste_schema_attempt env b of
        SchemaTooComplex \<Rightarrow> Inl RepositoryLimitExceeded
      | SchemaRan valid \<Rightarrow> if valid then ensure_inclusive_limit (ste_line_len env b + 1) MAX_BATCH_BYTES
                           else Inl RepositoryInvalid
      | SchemaUnregistered \<Rightarrow> ensure_inclusive_limit (ste_line_len env b + 1) MAX_BATCH_BYTES)"

text \<open>What \<open>append_locked\<close> decides from the loaded state, before any write.\<close>

definition plan_append ::
  "store_env \<Rightarrow> timestamp option \<Rightarrow> (nat \<Rightarrow> string) \<Rightarrow> prepared_append \<Rightarrow> event_store \<Rightarrow> loaded_state
   \<Rightarrow> repository_error + append_plan" where
  "plan_append env at ids r store st =
    bindE (validate_request_preflight env r st) (\<lambda>_.
    bindE (validate_reference_availability env (evs_blobs store) r st) (\<lambda>_.
    bindE (request_digest (ste_append env) r) (\<lambda>digest.
    let keys = map nev_idempotency_key (pap_events r) in
    case batch_holding_keys env store st (pap_scope r) (pap_stream_id r) keys of
      Some b \<Rightarrow>
        if pb_request_digest b = digest \<and> set (map env_idempotency_key (pb_events b)) = set keys
        then Inr (Committed (pb_events b)) else Inl IdempotencyConflict
    | None \<Rightarrow>
        bindE (validate_graph_successors env r st) (\<lambda>_.
        bindE (ensure_load_room (length (ls_batches st)) (event_total (ls_batches st)) (length (pap_events r))
                 DEFAULT_LOAD_LIMITS) (\<lambda>_.
        if next_sequence_of st (stream_key env (pap_scope r) (pap_stream_id r)) \<noteq> pap_expected_next_sequence r
        then Inl SequenceConflict
        else bindE (build_envelopes env at ids r st) (\<lambda>evs.
          let b = new_batch env r digest evs in
          bindE (readable_back env b) (\<lambda>_. Inr (NewBatch b))))))))"

text \<open>The writes: blobs first, then the line. A failure part way leaves the blobs already linked.\<close>

definition commit_batch ::
  "store_env \<Rightarrow> prepared_append \<Rightarrow> physical_batch \<Rightarrow> event_store
   \<Rightarrow> (repository_error + event_envelope list) \<times> event_store" where
  "commit_batch env r b store =
    (case stage_evidence env (pap_evidence r) of
       Inl e \<Rightarrow> (Inl e, store)
     | Inr staged \<Rightarrow>
         (case publish_staged staged (evs_blobs store) of (published, blobs) \<Rightarrow>
           let store = store\<lparr>evs_blobs := blobs\<rparr> in
           case published of
             Inl e \<Rightarrow> (Inl e, store)
           | Inr _ \<Rightarrow>
               (case ensure_journal_room (segment_len env (evs_active store)) (ste_line_len env b + 1) of
                  Inl e \<Rightarrow> (Inl e, store)
                | Inr _ \<Rightarrow> (Inr (pb_events b), store\<lparr>evs_active := evs_active store @ [b]\<rparr>))))"

definition rotated :: "store_env \<Rightarrow> event_store \<Rightarrow> repository_error + event_store" where
  "rotated env store =
    bindE (load_state env store) (\<lambda>st.
      if should_rotate env store st then rotate_segment env st store else Inr store)"

definition append_locked ::
  "store_env \<Rightarrow> timestamp option \<Rightarrow> (nat \<Rightarrow> string) \<Rightarrow> prepared_append \<Rightarrow> event_store
   \<Rightarrow> (repository_error + event_envelope list) \<times> event_store" where
  "append_locked env at ids r store =
    (case rotated env store of
       Inl e \<Rightarrow> (Inl e, store)
     | Inr store \<Rightarrow>
         (case bindE (load_state env store) (plan_append env at ids r store) of
            Inl e \<Rightarrow> (Inl e, store)
          | Inr (Committed evs) \<Rightarrow> (Inr evs, store)
          | Inr (NewBatch b) \<Rightarrow> commit_batch env r b store))"

end
