(* ===== verification/Store_Soundness.thy ===== *)
theory Store_Soundness
  imports Store
begin

text \<open>
  What a load of the store proves about its history. \<open>tracks\<close> says what a verified state knows of the batches
  walked so far: per stream the next sequence, the last hash and a sound journal, and the idempotency keys
  seen. Verifying a batch keeps it, sealing a segment keeps it, so every stream a reader is handed is a sound
  journal, whole and in order, whatever segments it is cut into.
\<close>

section \<open>Frames\<close>

text \<open>What each step of a walk leaves alone. \<open>same_heads\<close>: every field but the evidence, artifact and
  version tables.\<close>

definition same_heads :: "loaded_state \<Rightarrow> loaded_state \<Rightarrow> bool" where
  "same_heads s t \<longleftrightarrow> ls_batches t = ls_batches s \<and> ls_next_sequence t = ls_next_sequence s \<and>
     ls_last_hash t = ls_last_hash s \<and> ls_seen_idempotency t = ls_seen_idempotency s"

lemma same_heads_refl [simp]: "same_heads s s"
  by (simp add: same_heads_def)

lemma same_heads_trans: "same_heads s t \<Longrightarrow> same_heads t u \<Longrightarrow> same_heads s u"
  by (simp add: same_heads_def)

lemma foldE_frame:
  assumes step: "\<And>x s t. f x s = Inr t \<Longrightarrow> R s t" and refl: "\<And>s. R s s"
    and trans: "\<And>s t u. R s t \<Longrightarrow> R t u \<Longrightarrow> R s u" and run: "foldE f xs s = Inr t"
  shows "R s t"
  using run by (induction xs arbitrary: s) (auto simp: refl intro: trans step)

lemma count_evidence_state: "count_evidence i c = Inr c' \<Longrightarrow>
    vc_state c' = vc_state c \<and> vc_verified_evidence c' = vc_verified_evidence c"
  by (auto simp: count_evidence_def split: if_splits)

lemma count_artifact_state: "count_artifact i c = Inr c' \<Longrightarrow>
    vc_state c' = vc_state c \<and> vc_verified_evidence c' = vc_verified_evidence c"
  by (auto simp: count_artifact_def split: if_splits)

lemma declared_digest_state: "declared_digest env blobs b refs i (ds, c) = Inr (ds', c') \<Longrightarrow> vc_state c' = vc_state c"
  by (auto simp: declared_digest_def Let_def dest!: count_evidence_state split: option.splits if_splits)

lemma declared_digests_state:
  assumes "foldE (declared_digest env blobs b refs) ids (ds, c) = Inr (ds', c')"
  shows "vc_state c' = vc_state c"
proof -
  have "vc_state (snd (ds', c')) = vc_state (snd (ds, c))"
    by (rule foldE_frame [OF _ _ _ assms, where R = "\<lambda>s t. vc_state (snd t) = vc_state (snd s)"])
      (auto dest: declared_digest_state)
  then show ?thesis by simp
qed

lemma verify_publication_heads: "verify_publication env key ev st = Inr st' \<Longrightarrow> same_heads st st'"
  by (cases "env_kind ev") (auto simp: verify_publication_def same_heads_def Let_def split: if_splits)

text \<open>The verified evidence a reference is judged against, and the state it leaves.\<close>

lemma verify_evidence_reference_Inr:
  assumes "verify_evidence_reference env blobs scope ref c = Inr c'"
  obtains d where
    "vc_state c' = (vc_state c)\<lparr>ls_reachable_evidence :=
       os_insert (blob_name env scope (er_evidence_id ref)) (ls_reachable_evidence (vc_state c))\<rparr>"
    "om_get (vc_verified_evidence c') (object_key env scope (er_evidence_id ref)) = Some d"
    "evd_scope d = scope" "evd_reference d = ref"
    "vc_verified_evidence c' = vc_verified_evidence c \<or>
     (\<exists>sealed. read_verified_blob env blobs (blob_name env scope (er_evidence_id ref)) scope ref = Inr sealed \<and>
       vc_verified_evidence c' = om_insert (object_key env scope (er_evidence_id ref))
          (evidence_digest_of (ste_sha env) sealed) (vc_verified_evidence c))"
proof -
  let ?i = "object_key env scope (er_evidence_id ref)" and ?p = "blob_name env scope (er_evidence_id ref)"
  from assms obtain c1 c2 where c1: "count_evidence ?i c = Inr c1"
    and c2: "(if \<not> om_contains (vc_verified_evidence c1) ?i \<and> os_member (ls_reachable_evidence (vc_state c1)) ?p
            then bindE (read_verified_blob env blobs ?p scope ref) (\<lambda>sealed.
              Inr (c1\<lparr>vc_verified_evidence :=
                om_insert ?i (evidence_digest_of (ste_sha env) sealed) (vc_verified_evidence c1)\<rparr>))
            else Inr c1) = Inr c2"
    and chk: "\<not> (case om_get (vc_verified_evidence c2) ?i of None \<Rightarrow> True
         | Some d \<Rightarrow> evd_scope d \<noteq> scope \<or> evd_reference d \<noteq> ref)"
    and c': "c' = c2\<lparr>vc_state := (vc_state c2)\<lparr>ls_reachable_evidence := os_insert ?p (ls_reachable_evidence (vc_state c2))\<rparr>\<rparr>"
    unfolding verify_evidence_reference_def Let_def bindE_eq_Inr by (metis (no_types, lifting) Inl_Inr_False Inr_inject)
  note count = count_evidence_state [OF c1]
  have st: "vc_state c2 = vc_state c1" using c2 by (auto split: if_splits)
  have ve: "vc_verified_evidence c2 = vc_verified_evidence c1 \<or>
     (\<exists>sealed. read_verified_blob env blobs ?p scope ref = Inr sealed \<and>
       vc_verified_evidence c2 = om_insert ?i (evidence_digest_of (ste_sha env) sealed) (vc_verified_evidence c1))"
    using c2 by (auto split: if_splits)
  from chk obtain d where "om_get (vc_verified_evidence c2) ?i = Some d" "evd_scope d = scope" "evd_reference d = ref"
    by (auto split: option.splits)
  then show thesis using that [of d] st ve count unfolding c' by simp
qed

lemma verify_evidence_reference_heads:
  "verify_evidence_reference env blobs scope ref c = Inr c' \<Longrightarrow> same_heads (vc_state c) (vc_state c')"
  by (erule verify_evidence_reference_Inr) (simp add: same_heads_def)

lemma verify_artifact_reference_heads:
  "verify_artifact_reference env b ev ref c = Inr c' \<Longrightarrow> same_heads (vc_state c) (vc_state c')"
  by (auto simp: verify_artifact_reference_def Let_def dest!: count_artifact_state split: if_splits)

lemma register_artifact_heads:
  "register_artifact env b a c = Inr c' \<Longrightarrow> same_heads (vc_state c) (vc_state c')"
  by (auto simp: register_artifact_def Let_def same_heads_def dest!: count_artifact_state split: if_splits option.splits)

lemma heads_fold:
  assumes "\<And>x c c'. f x c = Inr c' \<Longrightarrow> same_heads (vc_state c) (vc_state c')" and "foldE f xs c = Inr c'"
  shows "same_heads (vc_state c) (vc_state c')"
  by (rule foldE_frame [where R = "\<lambda>c c'. same_heads (vc_state c) (vc_state c')", OF _ _ _ assms(2)])
    (auto intro: assms(1) same_heads_trans)

lemma reference_heads:
  "foldE (verify_evidence_reference env blobs scope) refs c = Inr c' \<Longrightarrow> same_heads (vc_state c) (vc_state c')"
  "foldE (verify_artifact_reference env b ev) arefs c = Inr c' \<Longrightarrow> same_heads (vc_state c) (vc_state c')"
  "foldE (register_artifact env b) arts c = Inr c' \<Longrightarrow> same_heads (vc_state c) (vc_state c')"
  by (erule heads_fold [rotated], erule verify_evidence_reference_heads,
      erule heads_fold [rotated], erule verify_artifact_reference_heads,
      erule heads_fold [rotated], erule register_artifact_heads)

text \<open>One event: what its checks establish, and the only head it changes.\<close>

lemma verify_event_Inr:
  assumes "verify_event env blobs b key expected (n, ev) (prev, c) = Inr (prev', c')"
  shows "validate_envelope (ste_replay env) ev = Inr ()" "env_scope ev = pb_scope b" "env_stream_id ev = pb_stream_id b"
    "checked_add expected (of_nat n) = Some (env_sequence ev)" "env_previous_hash ev = prev"
    "event_hash (ste_replay env) ev prev = Inr (env_event_hash ev)" "prev' = env_event_hash ev"
    "\<not> os_member (ls_seen_idempotency (vc_state c)) (idempotency_identity key (env_idempotency_key ev))"
    "ls_seen_idempotency (vc_state c') =
       os_insert (idempotency_identity key (env_idempotency_key ev)) (ls_seen_idempotency (vc_state c))"
    "ls_batches (vc_state c') = ls_batches (vc_state c)" "ls_next_sequence (vc_state c') = ls_next_sequence (vc_state c)"
    "ls_last_hash (vc_state c') = ls_last_hash (vc_state c)"
proof -
  from assms obtain st c1 where *: "\<not> isl (validate_envelope (ste_replay env) ev)"
    "verify_publication env key ev (vc_state c) = Inr st"
    "env_scope ev = pb_scope b" "env_stream_id ev = pb_stream_id b" "checked_add expected (of_nat n) = Some (env_sequence ev)"
    "env_previous_hash ev = prev" "event_hash (ste_replay env) ev prev = Inr (env_event_hash ev)" "prev' = env_event_hash ev"
    "\<not> os_member (ls_seen_idempotency st) (idempotency_identity key (env_idempotency_key ev))"
    "foldE (verify_evidence_reference env blobs (env_scope ev)) (env_evidence_refs ev)
       (c\<lparr>vc_state := st\<lparr>ls_seen_idempotency :=
          os_insert (idempotency_identity key (env_idempotency_key ev)) (ls_seen_idempotency st)\<rparr>\<rparr>) = Inr c1"
    "foldE (verify_artifact_reference env b ev) (env_artifact_refs ev) c1 = Inr c'"
    by (auto simp: verify_event_def Let_def split: if_splits)
  note heads = verify_publication_heads [OF *(2)] reference_heads(1) [OF *(10)] reference_heads(2) [OF *(11)]
  show "validate_envelope (ste_replay env) ev = Inr ()" using *(1) by (simp add: isl_unit)
  show "\<not> os_member (ls_seen_idempotency (vc_state c)) (idempotency_identity key (env_idempotency_key ev))"
    using *(9) heads(1) by (simp add: same_heads_def)
  show "ls_seen_idempotency (vc_state c') =
       os_insert (idempotency_identity key (env_idempotency_key ev)) (ls_seen_idempotency (vc_state c))"
    "ls_batches (vc_state c') = ls_batches (vc_state c)" "ls_next_sequence (vc_state c') = ls_next_sequence (vc_state c)"
    "ls_last_hash (vc_state c') = ls_last_hash (vc_state c)"
    using heads by (simp_all add: same_heads_def)
  show "env_scope ev = pb_scope b" "env_stream_id ev = pb_stream_id b" "env_previous_hash ev = prev"
    "checked_add expected (of_nat n) = Some (env_sequence ev)" "prev' = env_event_hash ev"
    "event_hash (ste_replay env) ev prev = Inr (env_event_hash ev)"
    using * by simp_all
qed


section \<open>What a verified state tracks\<close>

text \<open>The events of one stream in a list of batches, and the streams that occur there.\<close>

definition stream_of :: "repository_scope \<Rightarrow> string \<Rightarrow> physical_batch list \<Rightarrow> event_envelope list" where
  "stream_of scope stream bs = concat (map pb_events (filter (own_batch scope stream) bs))"

definition streams :: "physical_batch list \<Rightarrow> (repository_scope \<times> string) set" where
  "streams bs = (\<lambda>b. (pb_scope b, pb_stream_id b)) ` set bs"

text \<open>No two of the given streams share a key: no SHA-256 collision among them.\<close>

definition keys_distinct :: "store_env \<Rightarrow> (repository_scope \<times> string) set \<Rightarrow> bool" where
  "keys_distinct env ss \<longleftrightarrow> inj_on (\<lambda>(scope, stream). stream_key env scope stream) ss"

definition tracks :: "store_env \<Rightarrow> physical_batch list \<Rightarrow> loaded_state \<Rightarrow> bool" where
  "tracks env bs st \<longleftrightarrow>
    (\<forall>key. key \<notin> (\<lambda>(scope, stream). stream_key env scope stream) ` streams bs \<longrightarrow>
       om_get (ls_next_sequence st) key = None \<and> om_get (ls_last_hash st) key = None) \<and>
    (\<forall>(scope, stream) \<in> streams bs.
       let evs = stream_of scope stream bs; key = stream_key env scope stream in
       om_get (ls_next_sequence st) key = Some (of_nat (Suc (length evs))) \<and> Suc (length evs) < 2 ^ 64 \<and>
       om_get (ls_last_hash st) key = Some (chain_hash evs) \<and>
       sound_journal (ste_replay env) scope stream evs) \<and>
    (\<forall>i. os_member (ls_seen_idempotency st) i \<longleftrightarrow>
       (\<exists>b\<in>set bs. \<exists>ev\<in>set (pb_events b).
          i = idempotency_identity (stream_key env (pb_scope b) (pb_stream_id b)) (env_idempotency_key ev)))"

lemma stream_of_simps [simp]:
  "stream_of scope stream [] = []"
  "stream_of scope stream (xs @ ys) = stream_of scope stream xs @ stream_of scope stream ys"
  "stream_of scope stream [b] = (if own_batch scope stream b then pb_events b else [])"
  by (simp_all add: stream_of_def)

lemma streams_simps [simp]:
  "streams [] = {}" "streams (xs @ ys) = streams xs \<union> streams ys" "streams [b] = {(pb_scope b, pb_stream_id b)}"
  by (auto simp: streams_def)

lemma stream_of_foreign: "(scope, stream) \<notin> streams bs \<Longrightarrow> stream_of scope stream bs = []"
  by (induction bs) (auto simp: stream_of_def streams_def own_batch_def)

lemma keys_distinct_mono: "keys_distinct env ss \<Longrightarrow> ts \<subseteq> ss \<Longrightarrow> keys_distinct env ts"
  by (auto simp: keys_distinct_def intro: inj_on_subset)

lemma keys_distinctD:
  "keys_distinct env ss \<Longrightarrow> (s, i) \<in> ss \<Longrightarrow> (t, j) \<in> ss \<Longrightarrow> stream_key env s i = stream_key env t j \<longleftrightarrow> s = t \<and> i = j"
  by (auto simp: keys_distinct_def inj_on_def)

lemma tracks_seen:
  "tracks env bs st \<Longrightarrow> os_member (ls_seen_idempotency st) i \<longleftrightarrow>
    (\<exists>b\<in>set bs. \<exists>ev\<in>set (pb_events b).
       i = idempotency_identity (stream_key env (pb_scope b) (pb_stream_id b)) (env_idempotency_key ev))"
  by (simp add: tracks_def)

lemma tracks_default: "tracks env [] loaded_state_default"
  by (simp add: tracks_def loaded_state_default_def)

lemma tracksD:
  assumes "tracks env bs st" and "keys_distinct env (insert (scope, stream) (streams bs))"
  shows "next_sequence_of st (stream_key env scope stream) = of_nat (Suc (length (stream_of scope stream bs)))"
    "Suc (length (stream_of scope stream bs)) < 2 ^ 64"
    "last_hash_of st (stream_key env scope stream) = chain_hash (stream_of scope stream bs)"
    "sound_journal (ste_replay env) scope stream (stream_of scope stream bs)"
proof -
  have "next_sequence_of st (stream_key env scope stream) = of_nat (Suc (length (stream_of scope stream bs))) \<and>
    Suc (length (stream_of scope stream bs)) < 2 ^ 64 \<and>
    last_hash_of st (stream_key env scope stream) = chain_hash (stream_of scope stream bs) \<and>
    sound_journal (ste_replay env) scope stream (stream_of scope stream bs)"
  proof (cases "(scope, stream) \<in> streams bs")
    case True
    then show ?thesis using assms(1) by (auto simp: tracks_def Let_def next_sequence_of_def last_hash_of_def)
  next
    case False
    then have "stream_key env scope stream \<notin> (\<lambda>(scope, stream). stream_key env scope stream) ` streams bs"
      using assms(2) by (auto simp: keys_distinctD [OF assms(2)])
    then show ?thesis using assms(1) stream_of_foreign [OF False]
      by (auto simp: tracks_def next_sequence_of_def last_hash_of_def sound_journal_def)
  qed
  then show "next_sequence_of st (stream_key env scope stream) = of_nat (Suc (length (stream_of scope stream bs)))"
    "Suc (length (stream_of scope stream bs)) < 2 ^ 64"
    "last_hash_of st (stream_key env scope stream) = chain_hash (stream_of scope stream bs)"
    "sound_journal (ste_replay env) scope stream (stream_of scope stream bs)" by blast+
qed

text \<open>The events of a batch, verified after a sound journal, extend it soundly.\<close>

lemma verify_events_sound:
  assumes "foldE (verify_event env blobs b key expected) (enumerate n evs) (prev, c) = Inr (prev', c')"
    and "unat expected + n = Suc (length pre)" and "n + length evs < 2 ^ 64"
    and "prev = chain_hash pre" and "sound_journal (ste_replay env) (pb_scope b) (pb_stream_id b) pre"
    and "\<forall>ev\<in>set pre. os_member (ls_seen_idempotency (vc_state c)) (idempotency_identity key (env_idempotency_key ev))"
  shows "sound_journal (ste_replay env) (pb_scope b) (pb_stream_id b) (pre @ evs) \<and> prev' = chain_hash (pre @ evs) \<and>
    ls_batches (vc_state c') = ls_batches (vc_state c) \<and> ls_next_sequence (vc_state c') = ls_next_sequence (vc_state c) \<and>
    ls_last_hash (vc_state c') = ls_last_hash (vc_state c) \<and>
    (\<forall>i. os_member (ls_seen_idempotency (vc_state c')) i \<longleftrightarrow> os_member (ls_seen_idempotency (vc_state c)) i \<or>
       (\<exists>ev\<in>set evs. i = idempotency_identity key (env_idempotency_key ev)))"
  using assms
proof (induction evs arbitrary: n pre prev c)
  case Nil
  then show ?case by simp
next
  case (Cons ev evs)
  then obtain prev1 c1 where step: "verify_event env blobs b key expected (n, ev) (prev, c) = Inr (prev1, c1)"
    and rest: "foldE (verify_event env blobs b key expected) (enumerate (Suc n) evs) (prev1, c1) = Inr (prev', c')"
    by auto
  note v = verify_event_Inr [OF step]
  have n64: "unat (of_nat n :: u64) = n" using Cons.prems(3) by (simp add: unat_of_nat)
  have "unat (env_sequence ev) = Suc (length pre)" using checked_add_Some [OF v(4)] n64 Cons.prems(2) by simp
  then have "of_nat (unat (env_sequence ev)) = (of_nat (Suc (length pre)) :: u64)" by (rule arg_cong)
  then have seq: "env_sequence ev = of_nat (Suc (length pre))" by (simp add: ucast_id)
  have "linked (ste_replay env) pre ev" using v seq Cons.prems(4) by (simp add: linked_def)
  moreover have "admissible (ste_replay env) (pb_scope b) (pb_stream_id b) ev"
    using v by (auto simp: admissible_def validate_envelope_def split: if_splits)
  moreover have "env_idempotency_key ev \<notin> env_idempotency_key ` set pre" using v(8) Cons.prems(6) by auto
  ultimately have snoc: "sound_journal (ste_replay env) (pb_scope b) (pb_stream_id b) (pre @ [ev])"
    using Cons.prems(5) by (simp add: sound_journal_snoc)
  have seen: "\<forall>e\<in>set (pre @ [ev]). os_member (ls_seen_idempotency (vc_state c1)) (idempotency_identity key (env_idempotency_key e))"
    using Cons.prems(6) v(9) by simp
  have "unat expected + Suc n = Suc (length (pre @ [ev]))" using Cons.prems(2) by simp
  moreover have "Suc n + length evs < 2 ^ 64" using Cons.prems(3) by simp
  moreover have "prev1 = chain_hash (pre @ [ev])" using v by simp
  ultimately have "sound_journal (ste_replay env) (pb_scope b) (pb_stream_id b) ((pre @ [ev]) @ evs) \<and>
      prev' = chain_hash ((pre @ [ev]) @ evs) \<and>
      ls_batches (vc_state c') = ls_batches (vc_state c1) \<and> ls_next_sequence (vc_state c') = ls_next_sequence (vc_state c1) \<and>
      ls_last_hash (vc_state c') = ls_last_hash (vc_state c1) \<and>
      (\<forall>i. os_member (ls_seen_idempotency (vc_state c')) i \<longleftrightarrow> os_member (ls_seen_idempotency (vc_state c1)) i \<or>
         (\<exists>ev\<in>set evs. i = idempotency_identity key (env_idempotency_key ev)))"
    using Cons.IH [OF rest _ _ _ snoc seen] by blast
  then show ?case using v by auto
qed

text \<open>The phases of a verified batch, with the context between them.\<close>

lemma verify_batch_Inr:
  assumes "verify_batch env blobs b c = Inr c'"
  obtains budget refs digests c1 previous c2 n c3 where
    "verify_shape env b = Inr ()" "account_line b (vc_budget c) = Inr budget"
    "next_sequence_of (vc_state c) (stream_key env (pb_scope b) (pb_stream_id b)) = pb_expected_next_sequence b"
    "verify_artifacts env b (vc_state c) = Inr ()" "batch_evidence_refs b = Inr refs"
    "verify_declared_evidence b refs = Inr ()"
    "foldE (declared_digest env blobs b refs) (pb_evidence_ids b) ([], c\<lparr>vc_budget := budget\<rparr>) = Inr (digests, c1)"
    "verify_request_digest env b digests = Inr ()"
    "foldE (verify_event env blobs b (stream_key env (pb_scope b) (pb_stream_id b)) (pb_expected_next_sequence b))
       (enumerate 0 (pb_events b))
       (last_hash_of (vc_state c1) (stream_key env (pb_scope b) (pb_stream_id b)), c1) = Inr (previous, c2)"
    "checked_add (pb_expected_next_sequence b) (of_nat (length (pb_events b))) = Some n"
    "foldE (register_artifact env b) (pb_artifacts b)
       (c2\<lparr>vc_state := (vc_state c2)\<lparr>
          ls_next_sequence := om_insert (stream_key env (pb_scope b) (pb_stream_id b)) n (ls_next_sequence (vc_state c2)),
          ls_last_hash := om_insert (stream_key env (pb_scope b) (pb_stream_id b)) previous (ls_last_hash (vc_state c2))\<rparr>\<rparr>) = Inr c3"
    "c' = c3\<lparr>vc_state := (vc_state c3)\<lparr>ls_batches := ls_batches (vc_state c3) @ [b]\<rparr>\<rparr>"
  using assms unfolding verify_batch_def Let_def
  by (auto split: if_splits)

lemma account_line_bounds: "account_line b budget = Inr budget' \<Longrightarrow> length (pb_events b) \<le> MAX_READ_ALL"
  by (auto simp: account_line_def account_batch_def budget_add_def usize_add_def DEFAULT_LOAD_LIMITS_def split: if_splits)

lemma verify_batch_tracks:
  assumes run: "verify_batch env blobs b c = Inr c'" and tr: "tracks env bs (vc_state c)"
    and kd: "keys_distinct env (streams (bs @ [b]))"
  shows "tracks env (bs @ [b]) (vc_state c')" "ls_batches (vc_state c') = ls_batches (vc_state c) @ [b]"
proof -
  let ?k = "stream_key env (pb_scope b) (pb_stream_id b)" and ?e = "pb_expected_next_sequence b"
  let ?pre = "stream_of (pb_scope b) (pb_stream_id b) bs"
  obtain budget refs digests c1 previous c2 n c3 where v: "account_line b (vc_budget c) = Inr budget"
    "next_sequence_of (vc_state c) ?k = ?e"
    "foldE (declared_digest env blobs b refs) (pb_evidence_ids b) ([], c\<lparr>vc_budget := budget\<rparr>) = Inr (digests, c1)"
    "foldE (verify_event env blobs b ?k ?e) (enumerate 0 (pb_events b)) (last_hash_of (vc_state c1) ?k, c1) = Inr (previous, c2)"
    "checked_add ?e (of_nat (length (pb_events b))) = Some n"
    "foldE (register_artifact env b) (pb_artifacts b)
       (c2\<lparr>vc_state := (vc_state c2)\<lparr>ls_next_sequence := om_insert ?k n (ls_next_sequence (vc_state c2)),
          ls_last_hash := om_insert ?k previous (ls_last_hash (vc_state c2))\<rparr>\<rparr>) = Inr c3"
    "c' = c3\<lparr>vc_state := (vc_state c3)\<lparr>ls_batches := ls_batches (vc_state c3) @ [b]\<rparr>\<rparr>"
    by (rule verify_batch_Inr [OF run])
  have c1: "vc_state c1 = vc_state c" using declared_digests_state [OF v(3)] by simp
  have kd': "keys_distinct env (insert (pb_scope b, pb_stream_id b) (streams bs))" using kd by simp
  note t = tracksD [OF tr kd']
  have small: "0 + length (pb_events b) < 2 ^ 64" using account_line_bounds [OF v(1)] by (simp add: MAX_READ_ALL_def)
  have e: "unat ?e = Suc (length ?pre)" unfolding v(2) [symmetric] t(1) using t(2) by (simp add: unat_of_nat del: of_nat_Suc)
  have seen: "\<forall>ev\<in>set ?pre. os_member (ls_seen_idempotency (vc_state c1)) (idempotency_identity ?k (env_idempotency_key ev))"
  proof
    fix ev assume "ev \<in> set ?pre"
    then obtain y where "y \<in> set bs" "ev \<in> set (pb_events y)" "pb_scope y = pb_scope b" "pb_stream_id y = pb_stream_id b"
      by (auto simp: stream_of_def own_batch_def)
    then show "os_member (ls_seen_idempotency (vc_state c1)) (idempotency_identity ?k (env_idempotency_key ev))"
      unfolding c1 tracks_seen [OF tr] by metis
  qed
  have "unat ?e + 0 = Suc (length ?pre)" using e by simp
  note s = verify_events_sound [OF v(4) this small t(3) [folded c1] t(4) seen]
  have heads: "same_heads ((vc_state c2)\<lparr>ls_next_sequence := om_insert ?k n (ls_next_sequence (vc_state c2)),
          ls_last_hash := om_insert ?k previous (ls_last_hash (vc_state c2))\<rparr>) (vc_state c3)"
    using reference_heads(3) [OF v(6)] by simp
  have fields: "ls_batches (vc_state c') = ls_batches (vc_state c) @ [b]"
    "ls_next_sequence (vc_state c') = om_insert ?k n (ls_next_sequence (vc_state c))"
    "ls_last_hash (vc_state c') = om_insert ?k (chain_hash (?pre @ pb_events b)) (ls_last_hash (vc_state c))"
    "ls_seen_idempotency (vc_state c') = ls_seen_idempotency (vc_state c2)"
    using heads s c1 v(7) by (simp_all add: same_heads_def)
  show "ls_batches (vc_state c') = ls_batches (vc_state c) @ [b]" by (rule fields(1))
  have un: "unat n = Suc (length (?pre @ pb_events b))"
    using checked_add_Some [OF v(5)] e small by (simp add: unat_of_nat)
  then have "of_nat (unat n) = (of_nat (Suc (length (?pre @ pb_events b))) :: u64)" by (rule arg_cong)
  then have n: "n = of_nat (Suc (length (?pre @ pb_events b)))" by (simp add: ucast_id)
  have "unat n < 2 ^ LENGTH(64)" by (rule unsigned_less)
  then have bound: "Suc (length (?pre @ pb_events b)) < 2 ^ 64" using un by simp
  show "tracks env (bs @ [b]) (vc_state c')"
    unfolding tracks_def
  proof (intro conjI allI ballI impI)
    fix key assume "key \<notin> (\<lambda>(scope, stream). stream_key env scope stream) ` streams (bs @ [b])"
    then show "om_get (ls_next_sequence (vc_state c')) key = None" "om_get (ls_last_hash (vc_state c')) key = None"
      using tr by (auto simp: tracks_def fields)
  next
    fix x assume x: "x \<in> streams (bs @ [b])"
    obtain scope stream where sx: "x = (scope, stream)" by (cases x)
    show "case x of (scope, stream) \<Rightarrow> let evs = stream_of scope stream (bs @ [b]); key = stream_key env scope stream in
       om_get (ls_next_sequence (vc_state c')) key = Some (of_nat (Suc (length evs))) \<and> Suc (length evs) < 2 ^ 64 \<and>
       om_get (ls_last_hash (vc_state c')) key = Some (chain_hash evs) \<and>
       sound_journal (ste_replay env) scope stream evs"
    proof (cases "own_batch scope stream b")
      case True
      then have eqs: "scope = pb_scope b" "stream = pb_stream_id b" by (simp_all add: own_batch_def)
      show ?thesis unfolding sx eqs using s n bound True by (simp add: fields eqs)
    next
      case False
      then have "stream_key env scope stream \<noteq> ?k"
        using keys_distinctD [OF kd, of scope stream "pb_scope b" "pb_stream_id b"] x sx by (auto simp: own_batch_def)
      moreover have "(scope, stream) \<in> streams bs" using x sx False by (auto simp: own_batch_def)
      ultimately show ?thesis using tr False by (auto simp: tracks_def sx fields Let_def)
    qed
  next
    fix i
    show "os_member (ls_seen_idempotency (vc_state c')) i \<longleftrightarrow> (\<exists>b'\<in>set (bs @ [b]). \<exists>ev\<in>set (pb_events b').
          i = idempotency_identity (stream_key env (pb_scope b') (pb_stream_id b')) (env_idempotency_key ev))"
      using s tr c1 by (auto simp: fields tracks_def)
  qed
qed

lemma load_tracks:
  assumes "foldE (verify_batch env blobs) bs c = Inr c'" and "tracks env pre (vc_state c)"
    and "keys_distinct env (streams (pre @ bs))"
  shows "tracks env (pre @ bs) (vc_state c')" "ls_batches (vc_state c') = ls_batches (vc_state c) @ bs"
proof -
  have "tracks env (pre @ bs) (vc_state c') \<and> ls_batches (vc_state c') = ls_batches (vc_state c) @ bs"
    using assms
  proof (induction bs arbitrary: c pre)
    case (Cons b bs)
    then obtain c1 where c1: "verify_batch env blobs b c = Inr c1" "foldE (verify_batch env blobs) bs c1 = Inr c'" by auto
    have kd: "keys_distinct env (streams (pre @ [b]))" by (rule keys_distinct_mono [OF Cons.prems(3)]) (auto simp: streams_def)
    note v = verify_batch_tracks [OF c1(1) Cons.prems(2) kd]
    show ?case using Cons.IH [OF c1(2) v(1)] Cons.prems(3) v(2) by simp
  qed simp
  then show "tracks env (pre @ bs) (vc_state c')" "ls_batches (vc_state c') = ls_batches (vc_state c) @ bs" by auto
qed


section \<open>Reading across segments\<close>

text \<open>The whole history of a store, sealed and active; and what every seal of a chain tracks.\<close>

definition sealed_history :: "event_store \<Rightarrow> physical_batch list" where
  "sealed_history store = concat (map seg_batches (evs_sealed store))"

definition history :: "event_store \<Rightarrow> physical_batch list" where
  "history store = sealed_history store @ evs_active store"

fun seals_track :: "store_env \<Rightarrow> physical_batch list \<Rightarrow> sealed_segment list \<Rightarrow> bool" where
  "seals_track env pre [] \<longleftrightarrow> True"
| "seals_track env pre (g # gs) \<longleftrightarrow>
    tracks env (pre @ seg_batches g) (seg_state g) \<and> ls_batches (seg_state g) = [] \<and>
    seals_track env (pre @ seg_batches g) gs"

lemma seals_track_snoc:
  "seals_track env pre (gs @ [g]) \<longleftrightarrow>
    seals_track env pre gs \<and> tracks env (pre @ concat (map seg_batches gs) @ seg_batches g) (seg_state g) \<and>
    ls_batches (seg_state g) = []"
  by (induction gs arbitrary: pre) auto

lemma seeded_tracks:
  assumes "seals_track env [] (evs_sealed store)"
  shows "tracks env (sealed_history store) (vc_state (seeded_ctx store))" "ls_batches (vc_state (seeded_ctx store)) = []"
proof -
  have "tracks env (sealed_history store) (vc_state (seeded_ctx store)) \<and> ls_batches (vc_state (seeded_ctx store)) = []"
  proof (cases "evs_sealed store" rule: rev_cases)
    case Nil
    then show ?thesis
      using tracks_default [of env]
      by (simp add: sealed_history_def seeded_ctx_def verify_ctx_fresh_def loaded_state_default_def)
  next
    case (snoc gs g)
    then show ?thesis using assms by (simp add: sealed_history_def seeded_ctx_def seals_track_snoc)
  qed
  then show "tracks env (sealed_history store) (vc_state (seeded_ctx store))" "ls_batches (vc_state (seeded_ctx store)) = []"
    by auto
qed

lemma sound_journal_sequence:
  assumes "sound_journal env scope stream evs" and "Suc (length evs) < 2 ^ 64" and "i < length evs"
  shows "unat (env_sequence (evs ! i)) = Suc i"
proof -
  have "env_sequence (evs ! i) = of_nat (Suc (length (take i evs)))"
    using assms(1,3) by (auto simp: sound_journal_def linked_def)
  then show ?thesis using assms(2,3) by (simp add: unat_of_nat min_def del: of_nat_Suc)
qed

lemma filter_sequence_drop:
  assumes "\<And>i. i < length evs \<Longrightarrow> unat (env_sequence (evs ! i)) = Suc (k + i)"
  shows "filter (\<lambda>ev. env_sequence ev > after) evs = drop (unat after - k) evs"
  using assms
proof (induction evs arbitrary: k)
  case (Cons ev evs)
  have ev: "unat (env_sequence ev) = Suc k" using Cons.prems [of 0] by simp
  have IH: "filter (\<lambda>ev. env_sequence ev > after) evs = drop (unat after - Suc k) evs"
    by (rule Cons.IH) (use Cons.prems [of "Suc _"] in simp)
  show ?case
  proof (cases "unat after \<le> k")
    case True
    then have "env_sequence ev > after" using ev by (simp add: word_less_nat_alt)
    then show ?thesis using True IH by simp
  next
    case False
    then have "\<not> env_sequence ev > after" using ev by (simp add: word_less_nat_alt)
    then show ?thesis using False IH by (simp add: Suc_diff_Suc [symmetric])
  qed
qed simp

lemma sound_journal_filter:
  assumes "sound_journal env scope stream evs" and "Suc (length evs) < 2 ^ 64"
  shows "filter (\<lambda>ev. env_sequence ev > after) evs = drop (unat after) evs"
  using filter_sequence_drop [of evs 0 after] sound_journal_sequence [OF assms] by simp

lemma filter_concat_skip:
  assumes "\<And>b. b \<in> set bs \<Longrightarrow> own b \<Longrightarrow> \<not> Q b \<Longrightarrow> filter P (f b) = []"
  shows "filter P (concat (map f (filter own (filter Q bs)))) = filter P (concat (map f (filter own bs)))"
  using assms by (induction bs) auto

text \<open>Within a stream's slice of a sound journal, the batches that end at or before a position hold nothing past it.\<close>

lemma slice_skip:
  assumes seqs: "\<And>i. i < length (stream_of scope stream bs) \<Longrightarrow>
      unat (env_sequence (stream_of scope stream bs ! i)) = Suc (k + i)"
    and b: "b \<in> set bs" "own_batch scope stream b"
    and old: "\<not> (if pb_events b = [] then 0 else env_sequence (last (pb_events b))) > after"
  shows "filter (\<lambda>ev. env_sequence ev > after) (pb_events b) = []"
proof (cases "pb_events b = []")
  case False
  obtain xs ys where split: "bs = xs @ b # ys" using split_list [OF b(1)] by blast
  let ?x = "stream_of scope stream xs"
  have whole: "stream_of scope stream bs = ?x @ pb_events b @ stream_of scope stream ys"
    using b(2) by (simp add: split stream_of_def)
  have seq: "unat (env_sequence (pb_events b ! i)) = Suc (k + length ?x + i)" if "i < length (pb_events b)" for i
    using seqs [of "length ?x + i"] that unfolding whole by (simp add: nth_append)
  have "filter (\<lambda>ev. env_sequence ev > after) (pb_events b) = drop (unat after - (k + length ?x)) (pb_events b)"
    by (rule filter_sequence_drop) (simp add: seq)
  moreover have "unat (env_sequence (last (pb_events b))) = k + length ?x + length (pb_events b)"
    using seq [of "length (pb_events b) - 1"] False by (simp add: last_conv_nth)
  then have "k + length ?x + length (pb_events b) \<le> unat after" using old False by (simp add: word_less_nat_alt)
  ultimately show ?thesis by simp
qed simp

lemma visit_sealed_exact:
  assumes "seals_track env pre gs" and "keys_distinct env (insert (scope, stream) (streams (pre @ concat (map seg_batches gs))))"
    and "start = of_nat (Suc (length (stream_of scope stream pre)))" and "Suc (length (stream_of scope stream pre)) < 2 ^ 64"
  shows "filter (\<lambda>ev. env_sequence ev > after)
      (stream_of scope stream (visit_sealed env (stream_key env scope stream) after start gs)) =
    filter (\<lambda>ev. env_sequence ev > after) (stream_of scope stream (concat (map seg_batches gs)))"
  using assms
proof (induction gs arbitrary: pre start)
  case (Cons g gs)
  let ?P = "stream_of scope stream pre" and ?E = "stream_of scope stream (seg_batches g)"
  let ?key = "stream_key env scope stream" and ?new = "\<lambda>ev. env_sequence ev > after"
  have tr: "tracks env (pre @ seg_batches g) (seg_state g)" and rest: "seals_track env (pre @ seg_batches g) gs"
    using Cons.prems(1) by auto
  have "keys_distinct env (insert (scope, stream) (streams (pre @ seg_batches g)))"
    by (rule keys_distinct_mono [OF Cons.prems(2)]) (auto simp: streams_def)
  note t = tracksD [OF tr this]
  have len: "Suc (length ?P + length ?E) < 2 ^ 64" using t(2) by simp
  have seqs: "unat (env_sequence (?E ! i)) = Suc (length ?P + i)" if "i < length ?E" for i
    using sound_journal_sequence [OF t(4,2), of "length ?P + i"] that by (simp add: nth_append)
  let ?stop = "next_sequence_of (seg_state g) ?key"
  have stop: "unat ?stop = Suc (length ?P + length ?E)" unfolding t(1) using len by (simp add: unat_of_nat del: of_nat_Suc)
  have start: "unat start = Suc (length ?P)" unfolding Cons.prems(3) using Cons.prems(4) by (simp add: unat_of_nat del: of_nat_Suc)
  let ?keep = "\<lambda>b. stream_key env (pb_scope b) (pb_stream_id b) = ?key \<and>
             (if pb_events b = [] then 0 else env_sequence (last (pb_events b))) > after"
  have "filter ?new (stream_of scope stream (if ?stop \<le> start \<or> ?stop \<le> saturating_add after 1 then []
          else filter ?keep (seg_batches g))) = filter ?new ?E"
  proof (cases "?stop \<le> start \<or> ?stop \<le> saturating_add after 1")
    case True
    have "unat (saturating_add after 1) \<le> Suc (unat after)"
      by (simp add: unat_saturating_add)
    then have "length ?E = 0 \<or> length ?P + length ?E \<le> unat after"
      using True stop start by (auto simp: word_le_nat_alt)
    then have "filter ?new ?E = []" using filter_sequence_drop [OF seqs, of after] by auto
    then show ?thesis using True by simp
  next
    case False
    have "filter ?new (concat (map pb_events (filter (own_batch scope stream) (filter ?keep (seg_batches g))))) =
        filter ?new (concat (map pb_events (filter (own_batch scope stream) (seg_batches g))))"
    proof (rule filter_concat_skip)
      fix b assume b: "b \<in> set (seg_batches g)" "own_batch scope stream b" "\<not> ?keep b"
      then have "\<not> (if pb_events b = [] then 0 else env_sequence (last (pb_events b))) > after" by (auto simp: own_batch_def)
      from slice_skip [OF _ b(1,2) this] seqs show "filter ?new (pb_events b) = []" by blast
    qed
    then show ?thesis using False by (simp add: stream_of_def)
  qed
  moreover have "filter ?new (stream_of scope stream (visit_sealed env ?key after ?stop gs)) =
      filter ?new (stream_of scope stream (concat (map seg_batches gs)))"
    by (rule Cons.IH [OF rest]) (use Cons.prems(2) t(1,2) in simp_all)
  ultimately show ?case by (simp add: Let_def)
qed simp


section \<open>The stores appends build\<close>

text \<open>A request as its constructor makes it: a parsed stream name and the bounds of \<open>PreparedAppend::new\<close>.\<close>

definition is_prepared :: "prepared_append \<Rightarrow> bool" where
  "is_prepared r \<longleftrightarrow> is_opaque_id (pap_stream_id r) \<and>
    prepared_append_new (pap_scope r) (pap_stream_id r) (pap_expected_next_sequence r) (pap_events r)
      (pap_evidence r) (pap_artifacts r) = Inr r"

inductive store_reachable :: "store_env \<Rightarrow> event_store \<Rightarrow> bool" for env where
  reach_empty: "store_reachable env event_store_empty"
| reach_append: "store_reachable env store \<Longrightarrow> is_prepared r \<Longrightarrow>
    store_reachable env (snd (append_locked env at ids r store))"

lemma load_state_Inr:
  "load_state env store = Inr st \<longleftrightarrow> segment_len env (evs_active store) \<le> unat MAX_JOURNAL_BYTES \<and>
    (\<exists>c. foldE (verify_batch env (evs_blobs store)) (evs_active store) (seeded_ctx store) = Inr c \<and> st = vc_state c)"
  by (auto simp: load_state_def load_ctx_def ensure_inclusive_limit_def)

lemma tracks_batches [simp]: "tracks env bs (st\<lparr>ls_batches := x\<rparr>) \<longleftrightarrow> tracks env bs st"
  by (simp add: tracks_def)

lemma load_state_tracks:
  assumes "load_state env store = Inr st" and "seals_track env [] (evs_sealed store)"
    and "keys_distinct env (streams (history store))"
  shows "tracks env (history store) st" "ls_batches st = evs_active store"
proof -
  from assms(1) obtain c where c: "foldE (verify_batch env (evs_blobs store)) (evs_active store) (seeded_ctx store) = Inr c"
    "st = vc_state c" by (auto simp: load_state_Inr)
  note l = load_tracks [OF c(1) seeded_tracks(1) [OF assms(2)]]
  show "tracks env (history store) st" "ls_batches st = evs_active store"
    using l assms(3) seeded_tracks(2) [OF assms(2)] by (simp_all add: c(2) history_def)
qed

lemma rotated_Inr:
  assumes "rotated env store = Inr store'"
  obtains "store' = store"
  | st where "load_state env store = Inr st"
      "store' = store\<lparr>evs_sealed := evs_sealed store @ [\<lparr>seg_batches = evs_active store, seg_state = st\<lparr>ls_batches := []\<rparr>\<rparr>],
                      evs_active := []\<rparr>"
  using assms by (auto simp: rotated_def rotate_segment_def split: if_splits)

lemma commit_batch_store:
  obtains blobs where "snd (commit_batch env r b store) = store\<lparr>evs_blobs := blobs\<rparr>" "isl (fst (commit_batch env r b store))"
  | blobs where "snd (commit_batch env r b store) = store\<lparr>evs_blobs := blobs, evs_active := evs_active store @ [b]\<rparr>"
      "fst (commit_batch env r b store) = Inr (pb_events b)"
proof -
  obtain res st' where "commit_batch env r b store = (res, st')" by (cases "commit_batch env r b store")
  then consider (a) blobs where "st' = store\<lparr>evs_blobs := blobs\<rparr>" "isl res"
    | (b) blobs where "st' = store\<lparr>evs_blobs := blobs, evs_active := evs_active store @ [b]\<rparr>" "res = Inr (pb_events b)"
    unfolding commit_batch_def
    by (auto simp: Let_def split: sum.splits prod.splits) (metis event_store.surjective event_store.update_convs(3))+
  then show thesis using that \<open>commit_batch env r b store = (res, st')\<close> by cases auto
qed

text \<open>What an append does to the history: nothing, or one batch at its end; and it keeps the seals.\<close>

lemma append_locked_history:
  obtains "history (snd (append_locked env at ids r store)) = history store"
  | b where "history (snd (append_locked env at ids r store)) = history store @ [b]"
      "fst (append_locked env at ids r store) = Inr (pb_events b)"
proof (cases "rotated env store")
  case (Inl e)
  then show thesis using that(1) by (simp add: append_locked_def)
next
  case (Inr store1)
  have h: "history store1 = history store"
    using Inr by (elim rotated_Inr) (auto simp: history_def sealed_history_def)
  show thesis
  proof (cases "bindE (load_state env store1) (plan_append env at ids r store1)")
    case (Inl e)
    then show thesis using that(1) Inr h by (simp add: append_locked_def)
  next
    case plan: (Inr plan)
    show thesis
    proof (cases plan)
      case (Committed evs)
      then show thesis using that(1) Inr h plan by (simp add: append_locked_def)
    next
      case (NewBatch b)
      then have a: "append_locked env at ids r store = commit_batch env r b store1"
        using plan unfolding append_locked_def Inr by (simp del: bindE_eq_Inr)
      show thesis
        by (rule commit_batch_store [of env r b store1])
          (use that h a in \<open>auto simp: history_def sealed_history_def\<close>)
    qed
  qed
qed

lemma append_locked_seals:
  assumes "seals_track env [] (evs_sealed store)" and "keys_distinct env (streams (history store))"
  shows "seals_track env [] (evs_sealed (snd (append_locked env at ids r store)))"
proof (cases "rotated env store")
  case (Inl e)
  then show ?thesis using assms by (simp add: append_locked_def)
next
  case (Inr store1)
  have s1: "seals_track env [] (evs_sealed store1)"
    using Inr
  proof (rule rotated_Inr)
    fix st assume l: "load_state env store = Inr st" and s: "store1 = store\<lparr>evs_sealed := evs_sealed store @
        [\<lparr>seg_batches = evs_active store, seg_state = st\<lparr>ls_batches := []\<rparr>\<rparr>], evs_active := []\<rparr>"
    show ?thesis using load_state_tracks [OF l assms] assms(1)
      by (simp add: s seals_track_snoc history_def sealed_history_def)
  qed (use assms in simp)
  have "evs_sealed (snd (commit_batch env r b store1)) = evs_sealed store1" for b
    by (rule commit_batch_store [of env r b store1]) simp_all
  then have "evs_sealed (snd (append_locked env at ids r store)) = evs_sealed store1"
    using Inr by (auto simp: append_locked_def split: sum.split append_plan.split)
  then show ?thesis using s1 by simp
qed

lemma reachable_seals:
  assumes "store_reachable env store" and "keys_distinct env (streams (history store))"
  shows "seals_track env [] (evs_sealed store)"
  using assms
proof (induction rule: store_reachable.induct)
  case reach_empty
  then show ?case by (simp add: event_store_empty_def)
next
  case (reach_append store r at ids)
  have "streams (history store) \<subseteq> streams (history (snd (append_locked env at ids r store)))"
    by (rule append_locked_history [of env at ids r store]) auto
  then have kd: "keys_distinct env (streams (history store))" using reach_append.prems keys_distinct_mono by blast
  show ?case by (rule append_locked_seals [OF reach_append.IH [OF kd] kd])
qed

text \<open>Reading one stream of a loaded store, from any position.\<close>

lemma stream_events_after_exact:
  assumes seals: "seals_track env [] (evs_sealed store)" and l: "load_state env store = Inr st"
    and kd: "keys_distinct env (insert (scope, stream) (streams (history store)))"
  shows "stream_events_after env store st scope stream after limit =
    take limit (drop (unat after) (stream_of scope stream (history store)))"
proof -
  let ?new = "\<lambda>ev. env_sequence ev > after" and ?key = "stream_key env scope stream"
  have kd': "keys_distinct env (streams (history store))" by (rule keys_distinct_mono [OF kd]) auto
  note ls = load_state_tracks [OF l seals kd']
  have "keys_distinct env (insert (scope, stream) (streams (sealed_history store)))"
    by (rule keys_distinct_mono [OF kd]) (auto simp: history_def)
  then have "filter ?new (stream_of scope stream (visit_sealed env ?key after 1 (evs_sealed store))) =
      filter ?new (stream_of scope stream (sealed_history store))"
    using visit_sealed_exact [OF seals, of scope stream 1 after] by (simp add: sealed_history_def)
  then have "filter ?new (stream_of scope stream (visit_history env store st ?key after)) =
      filter ?new (stream_of scope stream (history store))"
    by (simp add: visit_history_def history_def ls(2))
  also have "\<dots> = drop (unat after) (stream_of scope stream (history store))"
    using sound_journal_filter [OF tracksD(4,2) [OF ls(1) kd]] .
  finally show ?thesis by (simp add: stream_events_after_def stream_of_def)
qed

text \<open>C3: every stream of a store built by appends is a sound journal, and readers are handed all of it.
  Whenever a store reached by appends loads, and no two of its streams share a SHA-256 key, the
  stream's events across all sealed segments and the active one form a sound journal (valid, numbered from 1,
  hash-linked, no key twice); \<open>read_replay_stream\<close> returns exactly them or refuses above \<open>MAX_READ_ALL\<close>,
  \<open>next_sequence\<close> is their number plus one, and replaying what was read can only fail on a limit
  or because the fold refuses an event.\<close>

theorem stored_streams_sound:
  assumes "store_reachable env store" and "load_state env store = Inr st" and "is_opaque_id stream"
    and "keys_distinct env (insert (scope, stream) (streams (history store)))"
  shows "let evs = stream_of scope stream (history store) in
    sound_journal (ste_replay env) scope stream evs \<and>
    read_replay_stream env store scope stream =
      (if length evs > MAX_READ_ALL then Inl RepositoryLimitExceeded else Inr evs) \<and>
    next_sequence env store scope stream = Inr (of_nat (Suc (length evs))) \<and>
    (length evs \<le> MAX_READ_ALL \<and> re_schemas_load (ste_replay env) \<and> within_totals (ste_replay env) evs \<longrightarrow>
      (\<forall>p. replay (ste_replay env) scope stream evs = Inr p \<longleftrightarrow>
         (\<exists>a. from_genesis (re_fold (ste_replay env)) evs = Inr (p, a))))"
proof -
  have kd: "keys_distinct env (streams (history store))" by (rule keys_distinct_mono [OF assms(4)]) auto
  note seals = reachable_seals [OF assms(1) kd]
  note t = tracksD [OF load_state_tracks(1) [OF assms(2) seals kd] assms(4)]
  show ?thesis
    using t(1,4) assms(2,3) replay_Inr [of "ste_replay env" scope stream]
    by (auto simp: Let_def read_replay_stream_def next_sequence_def
        stream_events_after_exact [OF seals assms(2) assms(4)])
qed

end
