(* ===== verification/Store_Append.thy ===== *)
theory Store_Append
  imports Store_Soundness
begin

text \<open>
  The checks of an append against the checks of a load. \<open>only_limits\<close> says that a computation can only fail on a
  limit; the lemmas go through the phases of \<open>verify_batch\<close> one by one and show, from what the preflight of an append
  established, that the batch it built passes each of them or meets a limit.
\<close>

section \<open>Only limits\<close>

definition only_limits :: "repository_error + 'a \<Rightarrow> ('a \<Rightarrow> bool) \<Rightarrow> bool" where
  "only_limits res P = (case res of Inl e \<Rightarrow> e = RepositoryLimitExceeded | Inr x \<Rightarrow> P x)"

lemma only_limits_simps [simp]:
  "only_limits (Inl e) P \<longleftrightarrow> e = RepositoryLimitExceeded"
  "only_limits (Inr x) P \<longleftrightarrow> P x"
  "only_limits (ok_or opt RepositoryLimitExceeded) P \<longleftrightarrow> (\<forall>x. opt = Some x \<longrightarrow> P x)"
  by (simp_all add: only_limits_def) (cases opt; simp)

lemma only_limits_bind: "only_limits (bindE res f) P \<longleftrightarrow> only_limits res (\<lambda>x. only_limits (f x) P)"
  by (cases res) (simp_all)

lemma only_limits_mono:
  "only_limits res P \<Longrightarrow> (\<And>x. res = Inr x \<Longrightarrow> P x \<Longrightarrow> Q x) \<Longrightarrow> only_limits res Q"
  by (cases res) auto

lemma only_limits_fold:
  assumes "I s" and "\<And>x s. x \<in> set xs \<Longrightarrow> I s \<Longrightarrow> only_limits (f x s) I"
  shows "only_limits (foldE f xs s) I"
  using assms
proof (induction xs arbitrary: s)
  case (Cons x xs)
  have "only_limits (f x s) I" using Cons.prems by simp
  then show ?case unfolding foldE.simps only_limits_bind
    by (rule only_limits_mono) (rule Cons.IH, assumption, simp add: Cons.prems(2))
qed simp

lemma only_limits_bounds:
  "only_limits (ensure_inclusive_limit n m) (\<lambda>_. True)" "only_limits (bounded_len l m) (\<lambda>_. True)"
  "only_limits (budget_add n m k) (\<lambda>_. True)" "only_limits (budget_work n budget) (\<lambda>_. True)"
  by (auto simp: ensure_inclusive_limit_def bounded_len_def budget_add_def budget_work_def usize_add_def
      split: option.split)

lemma only_limits_accounts:
  "only_limits (account_batch n m budget) (\<lambda>_. True)" "only_limits (account_evidence_registrations n budget) (\<lambda>_. True)"
  "only_limits (account_artifacts n m budget) (\<lambda>_. True)" "only_limits (account_evidence_refs n budget) (\<lambda>_. True)"
  "only_limits (account_graph_publication budget) (\<lambda>_. True)" "only_limits (account_unique_evidence budget) (\<lambda>_. True)"
  "only_limits (account_unique_artifact budget) (\<lambda>_. True)"
  by (auto simp: account_defs usize_add_def only_limits_bind split: option.split)

lemma only_limits_account_line: "only_limits (account_line b budget) (\<lambda>_. True)"
proof -
  have "only_limits (foldE (\<lambda>ev budget. if is_publication (env_kind ev) then account_graph_publication budget else Inr budget)
      (pb_events b) c) (\<lambda>_. True)" for c
    by (rule only_limits_fold) (simp_all add: only_limits_accounts)
  moreover have "only_limits res P" if "only_limits res (\<lambda>_. True)" "\<And>x. P x" for res :: "repository_error + 'x" and P
    using only_limits_mono [OF that(1)] that(2) by blast
  ultimately show ?thesis
    unfolding account_line_def only_limits_bind artifact_ref_count_def
    by (simp add: only_limits_accounts)
qed

lemma only_limits_count:
  "only_limits (count_evidence i c) (\<lambda>c'. vc_state c' = vc_state c \<and> vc_verified_evidence c' = vc_verified_evidence c)"
  "only_limits (count_artifact i c) (\<lambda>c'. vc_state c' = vc_state c \<and> vc_verified_evidence c' = vc_verified_evidence c)"
  using only_limits_accounts(6,7) [of "vc_budget c"]
  by (auto simp: count_evidence_def count_artifact_def only_limits_bind elim: only_limits_mono)


section \<open>Collecting into maps\<close>

lemma om_get_collect: "om_get (om_collect kvs) k = map_of (rev kvs) k"
proof -
  have "om_get (fold (\<lambda>(k, v). om_insert k v) kvs m) k = (case map_of (rev kvs) k of None \<Rightarrow> om_get m k | Some v \<Rightarrow> Some v)" for m
    by (induction kvs arbitrary: m) (auto simp: map_add_def split: option.split)
  then show ?thesis by (simp add: om_collect_def split: option.split)
qed

lemma om_len_collect: "om_len (om_collect kvs) = card (fst ` set kvs)"
proof -
  have "om_contains (om_collect kvs) k \<longleftrightarrow> k \<in> fst ` set kvs" for k
    by (simp add: om_contains_def om_get_collect map_of_eq_None_iff)
  then have "set (om_keys (om_collect kvs)) = fst ` set kvs" by auto
  then show ?thesis by (metis distinct_card distinct_om_keys length_om_keys)
qed

lemma om_collect_distinct: "om_len (om_collect kvs) = length kvs \<longleftrightarrow> distinct (map fst kvs)"
  by (metis card_distinct distinct_card length_map om_len_collect set_map)

lemma om_get_collect_distinct:
  "distinct (map fst kvs) \<Longrightarrow> om_get (om_collect kvs) k = Some v \<longleftrightarrow> (k, v) \<in> set kvs"
  by (simp add: om_get_collect map_of_eq_Some_iff rev_map [symmetric])

lemma os_of_list_distinct: "om_len (os_of_list ks) = length ks \<longleftrightarrow> distinct ks"
  by (metis card_distinct distinct_card os_of_list_len)


section \<open>What the checks of an append establish\<close>

abbreviation request_refs :: "prepared_append \<Rightarrow> evidence_reference list" where
  "request_refs r \<equiv> concat (map nev_evidence_refs (pap_events r))"

abbreviation request_artifact_refs :: "prepared_append \<Rightarrow> artifact_reference list" where
  "request_artifact_refs r \<equiv> concat (map nev_artifact_refs (pap_events r))"

abbreviation sealed_id :: "sealed_evidence \<Rightarrow> string" where
  "sealed_id e \<equiv> er_evidence_id (sev_reference e)"

abbreviation artifact_id_of :: "stored_artifact \<Rightarrow> string" where
  "artifact_id_of a \<equiv> ar_artifact_id (sar_reference a)"

lemma foldE_all:
  assumes "foldE f xs s = Inr t" and "x \<in> set xs"
  shows "\<exists>u v. f x u = Inr v"
  using assms by (induction xs arbitrary: s) auto

lemma foldE_unit_all:
  assumes "foldE (\<lambda>x (_::unit). f x) xs () = Inr ()" and "x \<in> set xs"
  shows "f x = Inr ()"
  using assms by (induction xs) auto

lemma prepared_append_facts:
  assumes "validate_prepared_append env r = Inr ()"
  shows "distinct (map nev_idempotency_key (pap_events r))" "distinct (map sealed_id (pap_evidence r))"
    "\<And>e. e \<in> set (pap_evidence r) \<Longrightarrow> sev_scope e = pap_scope r"
    "\<And>e. e \<in> set (pap_evidence r) \<Longrightarrow> validate_sealed_metadata (ape_sha env) e = Inr ()"
    "\<And>e. e \<in> set (pap_evidence r) \<Longrightarrow> sealed_id e \<in> er_evidence_id ` set (request_refs r)"
    "artifact_registrations_ok r"
    "usize_sum (map (\<lambda>ev. length (nev_artifact_refs ev)) (pap_events r)) 0 \<noteq> None"
    "\<And>ev pl. ev \<in> set (pap_events r) \<Longrightarrow> nev_kind ev = GraphVersionPublished pl \<Longrightarrow>
       fe_validate_persisted_projection (re_fold (ape_replay env)) (gvp_version pl)"
proof -
  let ?prep = "prepared_evidence_map r"
  have f: "om_len (os_of_list (map nev_idempotency_key (pap_events r))) = length (pap_events r)"
    "om_len ?prep = length (pap_evidence r)"
    "\<not> list_ex (\<lambda>e. sev_scope e \<noteq> pap_scope r \<or> isl (validate_sealed_metadata (ape_sha env) e)) (pap_evidence r)"
    "list_all (os_member (os_of_list (map er_evidence_id (request_refs r)))) (om_keys ?prep)"
    "artifact_registrations_ok r" "usize_sum (map (\<lambda>ev. length (nev_artifact_refs ev)) (pap_events r)) 0 \<noteq> None"
    using assms unfolding validate_prepared_append_def Let_def by (auto split: if_splits)
  obtain bytes where pre: "foldE (preflight_event env (pap_scope r)) (pap_events r) 0 = Inr bytes"
    using assms unfolding validate_prepared_append_def by (auto split: if_splits)
  show "distinct (map nev_idempotency_key (pap_events r))"
    using f(1) os_of_list_distinct [of "map nev_idempotency_key (pap_events r)"] by simp
  show d: "distinct (map sealed_id (pap_evidence r))"
    using f(2) om_collect_distinct [of "map (\<lambda>e. (sealed_id e, sev_reference e)) (pap_evidence r)"]
    by (simp add: prepared_evidence_map_def comp_def)
  show "sev_scope e = pap_scope r" "validate_sealed_metadata (ape_sha env) e = Inr ()" if "e \<in> set (pap_evidence r)" for e
    using f(3) that by (auto simp: list_ex_iff isl_unit)
  show "sealed_id e \<in> er_evidence_id ` set (request_refs r)" if "e \<in> set (pap_evidence r)" for e
  proof -
    have "om_contains ?prep (sealed_id e)"
      using that by (force simp: prepared_evidence_map_def om_contains_def om_get_collect map_of_eq_None_iff)
    then show ?thesis using f(4) by (auto simp: list_all_iff)
  qed
  show "artifact_registrations_ok r" "usize_sum (map (\<lambda>ev. length (nev_artifact_refs ev)) (pap_events r)) 0 \<noteq> None"
    using f by auto
  show "fe_validate_persisted_projection (re_fold (ape_replay env)) (gvp_version pl)"
    if ev: "ev \<in> set (pap_events r)" and k: "nev_kind ev = GraphVersionPublished pl" for ev pl
    using foldE_all [OF pre ev] k by (auto simp: preflight_event_def Let_def split: if_splits)
qed

lemma evidence_reference_fold:
  assumes "foldE (evidence_reference_step prepared vc) refs m = Inr m'"
    and "\<And>i x. om_get m i = Some x \<Longrightarrow> vc x = Inr True"
  shows "(\<forall>ref\<in>set refs. case om_get prepared (er_evidence_id ref) of
       Some p \<Rightarrow> p = ref | None \<Rightarrow> om_get m' (er_evidence_id ref) = Some ref \<and> vc ref = Inr True) \<and>
    (\<forall>i x. om_get m i = Some x \<longrightarrow> om_get m' i = Some x)"
  using assms
proof (induction refs arbitrary: m)
  case (Cons ref refs)
  then obtain m1 where m1: "evidence_reference_step prepared vc ref m = Inr m1"
    "foldE (evidence_reference_step prepared vc) refs m1 = Inr m'" by auto
  have inv: "vc x = Inr True" if "om_get m1 i = Some x" for i x
    using m1(1) that Cons.prems(2) by (auto simp: evidence_reference_step_def split: option.splits if_splits)
  have "case om_get prepared (er_evidence_id ref) of Some p \<Rightarrow> p = ref
      | None \<Rightarrow> om_get m1 (er_evidence_id ref) = Some ref \<and> vc ref = Inr True"
    using m1(1) Cons.prems(2) by (auto simp: evidence_reference_step_def split: option.splits if_splits)
  moreover have "om_get m1 i = Some x" if "om_get m i = Some x" for i x
    using m1(1) that by (auto simp: evidence_reference_step_def split: option.splits if_splits)
  ultimately show ?case using Cons.IH [OF m1(2) inv] by (auto split: option.splits)
qed simp

text \<open>References that agree with the prepared evidence or with what is committed, and with each other.\<close>

lemma evidence_references_facts:
  assumes "validate_evidence_references evs prepared vc = Inr ()"
  shows "\<And>ref. ref \<in> set (concat (map nev_evidence_refs evs)) \<Longrightarrow>
      (case om_get prepared (er_evidence_id ref) of Some p \<Rightarrow> p = ref | None \<Rightarrow> vc ref = Inr True)"
    "inj_on er_evidence_id (set (concat (map nev_evidence_refs evs)))"
proof -
  obtain m' where m': "foldE (evidence_reference_step prepared vc) (concat (map nev_evidence_refs evs)) om_empty = Inr m'"
    using assms by (auto simp: validate_evidence_references_def)
  have all: "case om_get prepared (er_evidence_id ref) of
       Some p \<Rightarrow> p = ref | None \<Rightarrow> om_get m' (er_evidence_id ref) = Some ref \<and> vc ref = Inr True"
    if "ref \<in> set (concat (map nev_evidence_refs evs))" for ref
    using conjunct1 [OF evidence_reference_fold [OF m']] that by (simp only: om_get_empty) blast
  show "case om_get prepared (er_evidence_id ref) of Some p \<Rightarrow> p = ref | None \<Rightarrow> vc ref = Inr True"
    if "ref \<in> set (concat (map nev_evidence_refs evs))" for ref
    using all [OF that] by (simp split: option.splits)
  show "inj_on er_evidence_id (set (concat (map nev_evidence_refs evs)))"
  proof (rule inj_onI)
    fix ref ref' assume r: "ref \<in> set (concat (map nev_evidence_refs evs))" "ref' \<in> set (concat (map nev_evidence_refs evs))"
      "er_evidence_id ref = er_evidence_id ref'"
    show "ref = ref'" using all [OF r(1)] all [OF r(2), folded r(3)]
      by (cases "om_get prepared (er_evidence_id ref)") (simp_all only: option.case option.inject)
  qed
qed

text \<open>The envelopes built for a request, one by one: the hash each carries is the hash of the next one's predecessor.\<close>

fun chained :: "store_env \<Rightarrow> prepared_append \<Rightarrow> nat \<Rightarrow> string \<Rightarrow> event_envelope list \<Rightarrow> bool" where
  "chained env r n prev [] \<longleftrightarrow> True"
| "chained env r n prev (e # es) \<longleftrightarrow>
    validate_envelope (ste_replay env) e = Inr () \<and> env_scope e = pap_scope r \<and> env_stream_id e = pap_stream_id r \<and>
    checked_add (pap_expected_next_sequence r) (of_nat n) = Some (env_sequence e) \<and> env_sequence e \<le> MAX_SAFE_INTEGER \<and>
    env_previous_hash e = prev \<and> event_hash (ste_replay env) e prev = Inr (env_event_hash e) \<and>
    chained env r (Suc n) (env_event_hash e) es"

lemma event_hash_unhashed: "event_hash env (ev\<lparr>env_event_hash := h\<rparr>) prev = event_hash env ev prev"
  by (simp add: event_hash_def)

lemma build_envelope_Inr:
  assumes "build_envelope env at ids r (n, nev) (prev, sofar) = Inr (prev1, sofar1)"
  obtains e where "sofar1 = sofar @ [e]" "prev1 = env_event_hash e" "request_of_envelope e = nev" "chained env r n prev [e]"
proof -
  let ?e0 = "\<lambda>seq. event_envelope_new (ids n) (pap_scope r) (pap_stream_id r) seq at nev prev GENESIS_HASH"
  from assms obtain seq h where seq: "checked_add (pap_expected_next_sequence r) (of_nat n) = Some seq" "\<not> seq > MAX_SAFE_INTEGER"
    and h: "event_hash (ste_replay env) (?e0 seq) prev = Inr h"
    and v: "validate_envelope (ste_replay env) ((?e0 seq)\<lparr>env_event_hash := h\<rparr>) = Inr ()"
    and out: "prev1 = h" "sofar1 = sofar @ [(?e0 seq)\<lparr>env_event_hash := h\<rparr>]"
    unfolding build_envelope_def Let_def by (auto split: if_splits)
  show thesis
  proof (rule that [OF out(2)])
    show "prev1 = env_event_hash ((?e0 seq)\<lparr>env_event_hash := h\<rparr>)" using out(1) by simp
    show "request_of_envelope ((?e0 seq)\<lparr>env_event_hash := h\<rparr>) = nev"
      by (simp add: request_of_envelope_def event_envelope_new_def)
    show "chained env r n prev [(?e0 seq)\<lparr>env_event_hash := h\<rparr>]"
      using seq h v by (simp add: event_hash_unhashed) (simp add: event_envelope_new_def)
  qed
qed

lemma build_fold:
  assumes "foldE (build_envelope env at ids r) (enumerate n nevs) (prev, sofar) = Inr (prev', evs)"
  shows "\<exists>es. evs = sofar @ es \<and> map request_of_envelope es = nevs \<and> chained env r n prev es"
  using assms
proof (induction nevs arbitrary: n prev sofar)
  case (Cons nev nevs)
  then obtain sofar1 prev1 where step: "build_envelope env at ids r (n, nev) (prev, sofar) = Inr (prev1, sofar1)"
    and rest: "foldE (build_envelope env at ids r) (enumerate (Suc n) nevs) (prev1, sofar1) = Inr (prev', evs)" by auto
  from build_envelope_Inr [OF step] obtain e where e: "sofar1 = sofar @ [e]" "prev1 = env_event_hash e"
    "request_of_envelope e = nev" "chained env r n prev [e]" .
  from Cons.IH [OF rest] obtain es where "evs = sofar1 @ es" "map request_of_envelope es = nevs" "chained env r (Suc n) prev1 es"
    by blast
  then show ?case using e by (intro exI [of _ "e # es"]) simp
qed simp

lemma build_envelopes_facts:
  assumes "build_envelopes env at ids r st = Inr evs"
  shows "map request_of_envelope evs = pap_events r"
    "chained env r 0 (last_hash_of st (stream_key env (pap_scope r) (pap_stream_id r))) evs"
  using assms build_fold [of env _ ids r 0 "pap_events r"] by (fastforce simp: build_envelopes_def)+


section \<open>Blobs under a growing store\<close>

definition extends :: "('k::linorder, 'v) omap \<Rightarrow> ('k, 'v) omap \<Rightarrow> bool" where
  "extends m m' \<longleftrightarrow> (\<forall>k v. om_get m k = Some v \<longrightarrow> om_get m' k = Some v)"

lemma publish_staged_ok:
  assumes "publish_staged items blobs = (Inr (), blobs')"
  shows "extends blobs blobs'" "\<And>k v. (k, v) \<in> set items \<Longrightarrow> om_get blobs' k = Some v"
proof -
  have "extends blobs blobs' \<and> (\<forall>(k, v) \<in> set items. om_get blobs' k = Some v)"
    using assms
  proof (induction items arbitrary: blobs)
    case (Cons item items)
    then obtain blobs1 where b1: "publish_blob item blobs = Inr blobs1" "publish_staged items blobs1 = (Inr (), blobs')"
      by (auto split: sum.splits)
    have "extends blobs blobs1 \<and> om_get blobs1 (fst item) = Some (snd item)"
      using b1(1) by (auto simp: publish_blob_def extends_def split: option.splits if_splits)
    then show ?case using Cons.IH [OF b1(2)] by (auto simp: extends_def)
  qed (simp add: extends_def)
  then show "extends blobs blobs'" "\<And>k v. (k, v) \<in> set items \<Longrightarrow> om_get blobs' k = Some v" by auto
qed

lemma read_verified_blob_mono:
  "read_verified_blob env blobs path scope ref = Inr x \<Longrightarrow> extends blobs blobs' \<Longrightarrow>
    read_verified_blob env blobs' path scope ref = Inr x"
  by (auto simp: read_verified_blob_def extends_def split: option.splits)

lemma foldE_sub:
  assumes "\<And>x s t. f x s = Inr t \<Longrightarrow> g x s = Inr t" and "foldE f xs s = Inr t"
  shows "foldE g xs s = Inr t"
  using assms(2) by (induction xs arbitrary: s) (auto dest: assms(1))

lemma declared_digest_mono:
  assumes "extends blobs blobs'" and "declared_digest env blobs b refs i acc = Inr acc'"
  shows "declared_digest env blobs' b refs i acc = Inr acc'"
proof -
  obtain ds c where acc: "acc = (ds, c)" by (cases acc)
  from assms(2) obtain ref c1 where ref: "om_get refs i = Some ref"
    and c1: "count_evidence (object_key env (pb_scope b) (er_evidence_id ref)) c = Inr c1"
    unfolding declared_digest_def acc prod.case Let_def bindE_eq_Inr ok_or_eq_Inr by blast
  show ?thesis
  proof (cases "om_get (vc_verified_evidence c1) (object_key env (pb_scope b) (er_evidence_id ref))")
    case None
    let ?r = "\<lambda>blobs. read_verified_blob env blobs (blob_name env (pb_scope b) (er_evidence_id ref)) (pb_scope b) ref"
    have "?r blobs = ?r blobs'"
      using assms(2) read_verified_blob_mono [OF _ assms(1)]
      by (cases "?r blobs") (auto simp: declared_digest_def acc Let_def ref c1 None)
    then show ?thesis using assms(2) by (simp add: declared_digest_def acc Let_def ref c1 None del: bindE_eq_Inr)
  next
    case (Some d)
    then show ?thesis using assms(2) by (simp add: declared_digest_def acc Let_def ref c1 del: bindE_eq_Inr)
  qed
qed

lemma verify_evidence_reference_mono:
  assumes "extends blobs blobs'" and "verify_evidence_reference env blobs scope ref c = Inr c'"
  shows "verify_evidence_reference env blobs' scope ref c = Inr c'"
proof -
  let ?i = "object_key env scope (er_evidence_id ref)" and ?p = "blob_name env scope (er_evidence_id ref)"
  let ?step = "\<lambda>blobs c1. if \<not> om_contains (vc_verified_evidence c1) ?i \<and> os_member (ls_reachable_evidence (vc_state c1)) ?p
            then bindE (read_verified_blob env blobs ?p scope ref) (\<lambda>sealed.
              Inr (c1\<lparr>vc_verified_evidence :=
                om_insert ?i (evidence_digest_of (ste_sha env) sealed) (vc_verified_evidence c1)\<rparr>))
            else Inr c1"
  have "?step blobs' c1 = Inr c2" if "?step blobs c1 = Inr c2" for c1 c2
    using that read_verified_blob_mono [OF _ assms(1)] by (auto split: if_splits)
  then show ?thesis using assms(2) unfolding verify_evidence_reference_def Let_def bindE_eq_Inr by blast
qed

lemma verify_event_mono:
  assumes "extends blobs blobs'" and "verify_event env blobs b key expected oev acc = Inr acc'"
  shows "verify_event env blobs' b key expected oev acc = Inr acc'"
  using assms(2) foldE_sub [where f = "verify_evidence_reference env blobs (env_scope (snd oev))"
      and g = "verify_evidence_reference env blobs' (env_scope (snd oev))", OF verify_evidence_reference_mono [OF assms(1)]]
  unfolding verify_event_def Let_def by (cases oev, cases acc) (auto split: if_splits)

lemma verify_batch_mono:
  assumes ext: "extends blobs blobs'" and run: "verify_batch env blobs b c = Inr c'"
  shows "verify_batch env blobs' b c = Inr c'"
  by (rule verify_batch_Inr [OF run],
      drule foldE_sub [where g = "declared_digest env blobs' b refs" for refs, OF declared_digest_mono [OF ext], rotated], assumption,
      drule foldE_sub [where g = "verify_event env blobs' b (stream_key env (pb_scope b) (pb_stream_id b)) (pb_expected_next_sequence b)",
        OF verify_event_mono [OF ext], rotated], assumption)
    (simp add: verify_batch_def Let_def)


section \<open>Verified evidence\<close>

text \<open>What a walk has verified is the digest of a blob that is there.\<close>

definition evidence_ok :: "store_env \<Rightarrow> (string, sealed_evidence) omap \<Rightarrow> (string, evidence_digest) omap \<Rightarrow> bool" where
  "evidence_ok env blobs ve \<longleftrightarrow>
    (\<forall>i d. om_get ve i = Some d \<longrightarrow>
       (\<exists>sealed. om_get blobs i = Some sealed \<and> d = evidence_digest_of (ste_sha env) sealed))"

lemma evidence_ok_insert:
  "evidence_ok env blobs ve \<Longrightarrow> om_get blobs i = Some sealed \<Longrightarrow>
    evidence_ok env blobs (om_insert i (evidence_digest_of (ste_sha env) sealed) ve)"
  by (simp add: evidence_ok_def)

lemma read_verified_blob_Inr:
  "read_verified_blob env blobs path scope ref = Inr sealed \<longleftrightarrow>
    om_get blobs path = Some sealed \<and> sev_scope sealed = scope \<and> sev_reference sealed = ref \<and>
    validate_sealed_metadata (ste_sha env) sealed = Inr ()"
  by (auto simp: read_verified_blob_def isl_unit split: option.splits)

lemma foldE_keeps:
  assumes "\<And>x s t. f x s = Inr t \<Longrightarrow> P s \<Longrightarrow> P t" and "P s" and "foldE f xs s = Inr t"
  shows "P t"
  using assms(2,3) by (induction xs arbitrary: s) (auto dest: assms(1))

lemma declared_digest_ok:
  assumes "declared_digest env blobs b refs i (ds, c) = Inr (ds', c')" and "evidence_ok env blobs (vc_verified_evidence c)"
  shows "evidence_ok env blobs (vc_verified_evidence c')"
proof -
  from assms(1) obtain ref c1 where ref: "om_get refs i = Some ref"
    and c1: "count_evidence (object_key env (pb_scope b) (er_evidence_id ref)) c = Inr c1"
    unfolding declared_digest_def prod.case Let_def bindE_eq_Inr ok_or_eq_Inr by blast
  have ok: "evidence_ok env blobs (vc_verified_evidence c1)" using assms(2) count_evidence_state [OF c1] by simp
  show ?thesis
  proof (cases "om_get (vc_verified_evidence c1) (object_key env (pb_scope b) (er_evidence_id ref))")
    case None
    then show ?thesis
      using assms(1) evidence_ok_insert [OF ok]
      by (auto simp: declared_digest_def Let_def ref c1 read_verified_blob_Inr blob_name_def)
  next
    case (Some d)
    then show ?thesis using assms(1) ok by (auto simp: declared_digest_def Let_def ref c1 split: if_splits)
  qed
qed

lemma verify_evidence_reference_ok:
  assumes "verify_evidence_reference env blobs scope ref c = Inr c'" and "evidence_ok env blobs (vc_verified_evidence c)"
  shows "evidence_ok env blobs (vc_verified_evidence c')"
  by (rule verify_evidence_reference_Inr [OF assms(1)])
    (use assms(2) evidence_ok_insert [OF assms(2)] in \<open>auto simp: read_verified_blob_Inr blob_name_def\<close>)

lemma artifact_steps_evidence:
  "verify_artifact_reference env b ev ref c = Inr c' \<Longrightarrow> vc_verified_evidence c' = vc_verified_evidence c"
  "register_artifact env b a c = Inr c' \<Longrightarrow> vc_verified_evidence c' = vc_verified_evidence c"
  by (auto simp: verify_artifact_reference_def register_artifact_def Let_def dest!: count_artifact_state
      split: if_splits option.splits)

lemma evidence_folds_ok:
  "foldE (declared_digest env blobs b refs) ids (ds, c) = Inr (ds', c') \<Longrightarrow>
    evidence_ok env blobs (vc_verified_evidence c) \<Longrightarrow> evidence_ok env blobs (vc_verified_evidence c')"
  "foldE (verify_evidence_reference env blobs scope) erefs c = Inr c' \<Longrightarrow>
    evidence_ok env blobs (vc_verified_evidence c) \<Longrightarrow> evidence_ok env blobs (vc_verified_evidence c')"
  "foldE (verify_artifact_reference env b ev) arefs c = Inr c' \<Longrightarrow> vc_verified_evidence c' = vc_verified_evidence c"
  "foldE (register_artifact env b) arts c = Inr c' \<Longrightarrow> vc_verified_evidence c' = vc_verified_evidence c"
proof -
  let ?ok = "\<lambda>c. evidence_ok env blobs (vc_verified_evidence c)"
  show "?ok c'" if "foldE (declared_digest env blobs b refs) ids (ds, c) = Inr (ds', c')" "?ok c"
    using foldE_keeps [where P = "\<lambda>s. ?ok (snd s)", OF _ _ that(1)] that(2) declared_digest_ok by fastforce
  show "?ok c'" if "foldE (verify_evidence_reference env blobs scope) erefs c = Inr c'" "?ok c"
    using foldE_keeps [where P = ?ok, OF _ that(2,1)] verify_evidence_reference_ok by blast
  show "vc_verified_evidence c' = vc_verified_evidence c" if "foldE (verify_artifact_reference env b ev) arefs c = Inr c'"
    by (rule foldE_frame [where R = "\<lambda>s t. vc_verified_evidence t = vc_verified_evidence s", OF _ _ _ that])
      (auto dest: artifact_steps_evidence)
  show "vc_verified_evidence c' = vc_verified_evidence c" if "foldE (register_artifact env b) arts c = Inr c'"
    by (rule foldE_frame [where R = "\<lambda>s t. vc_verified_evidence t = vc_verified_evidence s", OF _ _ _ that])
      (auto dest: artifact_steps_evidence)
qed

lemma verify_event_ok:
  assumes "verify_event env blobs b key expected (n, ev) (prev, c) = Inr (prev', c')"
    and "evidence_ok env blobs (vc_verified_evidence c)"
  shows "evidence_ok env blobs (vc_verified_evidence c')"
proof -
  from assms(1) obtain st c1 where
    "foldE (verify_evidence_reference env blobs (env_scope ev)) (env_evidence_refs ev) (c\<lparr>vc_state := st\<rparr>) = Inr c1"
    "foldE (verify_artifact_reference env b ev) (env_artifact_refs ev) c1 = Inr c'"
    unfolding verify_event_def Let_def by (auto split: if_splits)
  then show ?thesis using evidence_folds_ok(2,3) assms(2) by fastforce
qed

lemma verify_batch_ok:
  assumes run: "verify_batch env blobs b c = Inr c'" and ok: "evidence_ok env blobs (vc_verified_evidence c)"
  shows "evidence_ok env blobs (vc_verified_evidence c')"
proof -
  let ?k = "stream_key env (pb_scope b) (pb_stream_id b)" and ?e = "pb_expected_next_sequence b"
  let ?ok = "\<lambda>c. evidence_ok env blobs (vc_verified_evidence c)"
  obtain budget refs digests c1 previous c2 st3 c3 where v:
    "foldE (declared_digest env blobs b refs) (pb_evidence_ids b) ([], c\<lparr>vc_budget := budget\<rparr>) = Inr (digests, c1)"
    "foldE (verify_event env blobs b ?k ?e) (enumerate 0 (pb_events b)) (last_hash_of (vc_state c1) ?k, c1) = Inr (previous, c2)"
    "foldE (register_artifact env b) (pb_artifacts b) (c2\<lparr>vc_state := st3\<rparr>) = Inr c3"
    "vc_verified_evidence c' = vc_verified_evidence c3"
    by (rule verify_batch_Inr [OF run]) auto
  have "?ok c1" using evidence_folds_ok(1) [OF v(1)] ok by simp
  then have "?ok c2" using foldE_keeps [where P = "\<lambda>s. ?ok (snd s)", OF _ _ v(2)] verify_event_ok by fastforce
  then show ?thesis using evidence_folds_ok(4) [OF v(3)] v(4) by simp
qed

lemma load_evidence_ok:
  assumes "foldE (verify_batch env blobs) bs c = Inr c'" and "evidence_ok env blobs (vc_verified_evidence c)"
  shows "evidence_ok env blobs (vc_verified_evidence c')"
  using foldE_keeps [where P = "\<lambda>c. evidence_ok env blobs (vc_verified_evidence c)", OF _ assms(2,1)] verify_batch_ok by blast

lemma seeded_evidence_ok: "evidence_ok env blobs (vc_verified_evidence (seeded_ctx store))"
  by (simp add: evidence_ok_def seeded_ctx_def verify_ctx_fresh_def)


section \<open>The new batch, check by check\<close>

lemma new_batch_fields [simp]:
  "pb_format_version (new_batch env r digest evs) = FORMAT_VERSION" "pb_request_digest (new_batch env r digest evs) = digest"
  "pb_scope (new_batch env r digest evs) = pap_scope r" "pb_stream_id (new_batch env r digest evs) = pap_stream_id r"
  "pb_expected_next_sequence (new_batch env r digest evs) = pap_expected_next_sequence r"
  "pb_evidence_ids (new_batch env r digest evs) = sort (map sealed_id (pap_evidence r))"
  "pb_artifacts (new_batch env r digest evs) = stored_artifacts r" "pb_events (new_batch env r digest evs) = evs"
  by (simp_all add: new_batch_def Let_def)

lemma new_batch_checksum: "pb_checksum (new_batch env r digest evs) = batch_checksum env (new_batch env r digest evs)"
  by (simp add: new_batch_def Let_def batch_checksum_def)

lemma new_batch_shape:
  assumes "readable_back env (new_batch env r digest evs) = Inr ()"
    and "ste_schema_attempt env (new_batch env r digest evs) \<noteq> SchemaUnregistered"
    and "evs \<noteq> []" and "chained env r 0 prev evs"
  shows "verify_shape env (new_batch env r digest evs) = Inr ()"
proof -
  have "env_sequence (hd evs) = pap_expected_next_sequence r"
    using assms(3,4) by (cases evs) (auto simp: checked_add_def split: if_splits)
  then show ?thesis using assms(1-3) new_batch_checksum [of env r digest evs]
    by (auto simp: verify_shape_def readable_back_def parse_physical_batch_def ensure_inclusive_limit_def
        split: schema_attempt.splits if_splits)
qed

lemma usize_sum_Some: "usize_sum ns t = Some k \<Longrightarrow> k = t + sum_list ns"
  by (induction ns arbitrary: t) (fastforce simp: usize_add_def split: bind_splits if_splits)+

lemma request_lists:
  assumes "map request_of_envelope evs = pap_events r"
  shows "map env_evidence_refs evs = map nev_evidence_refs (pap_events r)"
    "map env_artifact_refs evs = map nev_artifact_refs (pap_events r)"
    "map env_idempotency_key evs = map nev_idempotency_key (pap_events r)"
    "map env_kind evs = map nev_kind (pap_events r)"
  unfolding assms [symmetric] by (simp_all add: request_of_envelope_def comp_def)

lemma batch_producers_request:
  assumes "map request_of_envelope evs = pap_events r"
  shows "batch_producer_artifacts (new_batch env r digest evs) = producer_artifacts (pap_events r)"
  unfolding assms [symmetric] by (simp add: batch_producer_artifacts_def producer_artifacts_def request_of_envelope_def comp_def)

lemma length_producer_artifacts:
  "length (producer_artifacts evs) = sum_list (map (\<lambda>ev. length (nev_artifact_refs ev)) evs)"
  by (simp add: producer_artifacts_def length_concat comp_def)

lemma artifact_table:
  assumes "artifact_registrations_ok r"
  shows "distinct (map artifact_id_of (stored_artifacts r))"
    "om_len (om_collect (producer_artifacts (pap_events r))) = length (producer_artifacts (pap_events r))"
    "\<And>a. a \<in> set (stored_artifacts r) \<Longrightarrow> sar_producer_stream_id a = pap_stream_id r \<and>
      om_get (om_collect (producer_artifacts (pap_events r))) (sar_producer_idempotency_key a, artifact_id_of a) = Some (sar_reference a)"
proof -
  have "om_len (om_collect (map (\<lambda>a. (ar_artifact_id (arg_reference a), a)) (pap_artifacts r))) = length (pap_artifacts r)"
    using assms by (simp add: artifact_registrations_ok_def Let_def)
  then show "distinct (map artifact_id_of (stored_artifacts r))"
    using om_collect_distinct [of "map (\<lambda>a. (ar_artifact_id (arg_reference a), a)) (pap_artifacts r)"]
    by (simp add: stored_artifacts_def comp_def)
  show "om_len (om_collect (producer_artifacts (pap_events r))) = length (producer_artifacts (pap_events r))"
    using assms by (simp add: artifact_registrations_ok_def Let_def)
  show "sar_producer_stream_id a = pap_stream_id r \<and>
      om_get (om_collect (producer_artifacts (pap_events r))) (sar_producer_idempotency_key a, artifact_id_of a) = Some (sar_reference a)"
    if "a \<in> set (stored_artifacts r)" for a
    using assms that by (auto simp: artifact_registrations_ok_def Let_def stored_artifacts_def list_all_iff)
qed

text \<open>What the loaded state holds of an artifact the request names is what the preflight compared.\<close>

lemma committed_artifacts_get:
  assumes "i \<in> set (map (\<lambda>a. ar_artifact_id (arg_reference a)) (pap_artifacts r) @ map ar_artifact_id (request_artifact_refs r))"
  shows "om_get (committed_artifacts env r st) i = om_get (ls_artifacts st) (artifact_key env (pap_scope r) i)"
proof -
  let ?f = "\<lambda>i m. case om_get (ls_artifacts st) (artifact_key env (pap_scope r) i) of None \<Rightarrow> m | Some a \<Rightarrow> om_insert i a m"
  have *: "om_get (fold ?f ids m) i = (if i \<in> set ids \<and> om_get (ls_artifacts st) (artifact_key env (pap_scope r) i) \<noteq> None
      then om_get (ls_artifacts st) (artifact_key env (pap_scope r) i) else om_get m i)" for ids m
    by (induction ids arbitrary: m) (auto split: option.splits)
  show ?thesis unfolding committed_artifacts_def * using assms by auto
qed

lemma stored_artifact_committed:
  assumes "validate_artifact_relations r (committed_artifacts env r st) = Inr ()" and "a \<in> set (stored_artifacts r)"
  shows "om_get (ls_artifacts st) (artifact_key env (pap_scope r) (artifact_id_of a)) \<in> {None, Some a}"
proof -
  have "artifact_id_of a \<in> set (map (\<lambda>a. ar_artifact_id (arg_reference a)) (pap_artifacts r) @ map ar_artifact_id (request_artifact_refs r))"
    using assms(2) by (auto simp: stored_artifacts_def)
  note g = committed_artifacts_get [OF this, of env st]
  have "\<not> list_ex (\<lambda>sa. case om_get (committed_artifacts env r st) (artifact_id_of sa) of None \<Rightarrow> False
      | Some existing \<Rightarrow> existing \<noteq> sa) (stored_artifacts r)"
    using assms(1) by (simp add: validate_artifact_relations_def Let_def split: if_splits)
  then show ?thesis using assms(2) unfolding g [symmetric]
    by (cases "om_get (committed_artifacts env r st) (artifact_id_of a)") (auto simp: list_ex_iff)
qed

lemma new_batch_artifacts:
  assumes "artifact_registrations_ok r" and "map request_of_envelope evs = pap_events r"
    and "validate_artifact_relations r (committed_artifacts env r st) = Inr ()" and "ls_artifacts st' = ls_artifacts st"
  shows "only_limits (verify_artifacts env (new_batch env r digest evs) st') (\<lambda>_. True)"
proof -
  note t = artifact_table [OF assms(1)]
  have tab: "om_len (batch_artifacts (new_batch env r digest evs)) = length (stored_artifacts r)"
    using t(1) om_collect_distinct [of "map (\<lambda>a. (artifact_id_of a, a)) (stored_artifacts r)"]
    by (simp add: batch_artifacts_def comp_def)
  have cnt: "k = length (producer_artifacts (pap_events r))"
    if "usize_sum (map (\<lambda>ev. length (env_artifact_refs ev)) evs) 0 = Some k" for k
  proof -
    have "map (\<lambda>ev. length (env_artifact_refs ev)) evs = map length (map env_artifact_refs evs)" by (simp add: comp_def)
    also have "\<dots> = map (\<lambda>ev. length (nev_artifact_refs ev)) (pap_events r)"
      unfolding request_lists(2) [OF assms(2)] by (simp add: comp_def)
    finally show ?thesis using usize_sum_Some [OF that] by (simp add: length_producer_artifacts)
  qed
  have own: "\<not> list_ex (\<lambda>a. sar_producer_stream_id a \<noteq> pap_stream_id r \<or>
      om_get (om_collect (producer_artifacts (pap_events r))) (sar_producer_idempotency_key a, artifact_id_of a)
        \<noteq> Some (sar_reference a)) (stored_artifacts r)"
    using t(3) by (auto simp: list_ex_iff)
  have com: "\<not> list_ex (\<lambda>a. case om_get (ls_artifacts st) (artifact_key env (pap_scope r) (artifact_id_of a)) of
      None \<Rightarrow> False | Some existing \<Rightarrow> existing \<noteq> a) (stored_artifacts r)"
    using stored_artifact_committed [OF assms(3)] by (fastforce simp: list_ex_iff split: option.splits)
  show ?thesis
    using own com t(2) tab cnt unfolding verify_artifacts_def Let_def only_limits_bind artifact_ref_count_def
      batch_producers_request [OF assms(2)] new_batch_fields only_limits_simps assms(4)
    by auto
qed

definition consistent :: "evidence_reference set \<Rightarrow> bool" where
  "consistent S \<longleftrightarrow> inj_on er_evidence_id S"

lemma batch_refs_fold:
  assumes "consistent S" and "set refs \<subseteq> S" and "\<forall>i x. om_get m i = Some x \<longrightarrow> x \<in> S \<and> er_evidence_id x = i"
  shows "\<exists>m'. foldE batch_ref_step refs m = Inr m' \<and> (\<forall>i x. om_get m i = Some x \<longrightarrow> om_get m' i = Some x) \<and>
    (\<forall>ref\<in>set refs. om_get m' (er_evidence_id ref) = Some ref)"
  using assms(2,3)
proof (induction refs arbitrary: m)
  case (Cons ref refs)
  let ?m = "om_insert (er_evidence_id ref) ref m"
  have ok: "om_get m (er_evidence_id ref) \<in> {None, Some ref}"
  proof (cases "om_get m (er_evidence_id ref)")
    case (Some x)
    then have "x \<in> S" "er_evidence_id x = er_evidence_id ref" "ref \<in> S" using Cons.prems by auto
    then show ?thesis using assms(1) Some by (auto simp: consistent_def inj_on_def)
  qed simp
  then have step: "batch_ref_step ref m = Inr ?m" by (auto simp: batch_ref_step_def)
  have "set refs \<subseteq> S" "\<forall>i x. om_get ?m i = Some x \<longrightarrow> x \<in> S \<and> er_evidence_id x = i" using Cons.prems by simp_all
  from Cons.IH [OF this] obtain m' where m': "foldE batch_ref_step refs ?m = Inr m'"
    "\<forall>i x. om_get ?m i = Some x \<longrightarrow> om_get m' i = Some x" "\<forall>ref\<in>set refs. om_get m' (er_evidence_id ref) = Some ref" by blast
  have "om_get m' i = Some x" if "om_get m i = Some x" for i x
    using m'(2) that ok by (metis insertE om_get_insert option.distinct(1) option.inject singletonD)
  then show ?case using m' step by auto
qed simp

lemma new_batch_refs:
  assumes "map request_of_envelope evs = pap_events r" and "consistent (set (request_refs r))"
  obtains m where "batch_evidence_refs (new_batch env r digest evs) = Inr m"
    "\<forall>ref\<in>set (request_refs r). om_get m (er_evidence_id ref) = Some ref"
proof -
  have refs: "concat (map env_evidence_refs (pb_events (new_batch env r digest evs))) = request_refs r"
    using request_lists(1) [OF assms(1)] by simp
  from batch_refs_fold [OF assms(2) order_refl, of om_empty] show thesis
    using that unfolding batch_evidence_refs_def refs om_get_empty by blast
qed

text \<open>\<open>held\<close>: the blob of an evidence item is there, under its own name, and valid.\<close>

definition held :: "store_env \<Rightarrow> (string, sealed_evidence) omap \<Rightarrow> repository_scope \<Rightarrow> evidence_reference \<Rightarrow> sealed_evidence \<Rightarrow> bool" where
  "held env blobs scope ref e \<longleftrightarrow> om_get blobs (object_key env scope (er_evidence_id ref)) = Some e \<and>
     sev_scope e = scope \<and> sev_reference e = ref \<and> validate_sealed_metadata (ste_sha env) e = Inr ()"

lemma held_read: "held env blobs scope ref e \<Longrightarrow>
    read_verified_blob env blobs (blob_name env scope (er_evidence_id ref)) scope ref = Inr e"
  by (simp add: held_def read_verified_blob_Inr blob_name_def)

lemma held_digest:
  assumes "held env blobs scope ref e" and "evidence_ok env blobs ve"
    and "om_get ve (object_key env scope (er_evidence_id ref)) = Some d"
  shows "d = evidence_digest_of (ste_sha env) e" "evd_scope d = scope" "evd_reference d = ref"
proof -
  show d: "d = evidence_digest_of (ste_sha env) e" using assms by (metis held_def evidence_ok_def option.inject)
  show "evd_scope d = scope" "evd_reference d = ref"
    using assms(1) by (simp_all add: d evidence_digest_of_def Let_def held_def)
qed

definition digests_verified ::
  "store_env \<Rightarrow> (string, sealed_evidence) omap \<Rightarrow> repository_scope \<Rightarrow> string list \<Rightarrow> verify_ctx \<Rightarrow> verify_ctx \<Rightarrow> bool" where
  "digests_verified env blobs scope ids c c' \<longleftrightarrow> vc_state c' = vc_state c \<and>
    evidence_ok env blobs (vc_verified_evidence c') \<and>
    (\<forall>i\<in>set ids. om_contains (vc_verified_evidence c') (object_key env scope i)) \<and>
    (\<forall>k. om_contains (vc_verified_evidence c) k \<longrightarrow> om_contains (vc_verified_evidence c') k)"

lemma declared_digest_held:
  assumes "om_get refs i = Some ref" and "held env blobs (pb_scope b) ref e" and "er_evidence_id ref = i"
    and "evidence_ok env blobs (vc_verified_evidence c)"
  shows "only_limits (declared_digest env blobs b refs i (ds, c)) (\<lambda>(ds', c').
    ds' = ds @ [evidence_digest_of (ste_sha env) e] \<and> digests_verified env blobs (pb_scope b) [i] c c')"
    (is "only_limits _ ?P")
proof -
  let ?i = "object_key env (pb_scope b) i"
  let ?rest = "\<lambda>c1. case om_get (vc_verified_evidence c1) ?i of
        Some existing \<Rightarrow>
          if evd_scope existing \<noteq> pb_scope b \<or> evd_reference existing \<noteq> ref then Inl Integrity
          else Inr (ds @ [existing], c1)
      | None \<Rightarrow>
          bindE (read_verified_blob env blobs (blob_name env (pb_scope b) i) (pb_scope b) ref) (\<lambda>sealed.
          bindE (bounded_len (ste_digest_len env (evidence_digest_of (ste_sha env) sealed)) MAX_EVENT_BYTES) (\<lambda>n.
          bindE (ok_or (checked_add (vc_metadata_bytes c1) (of_nat n)) RepositoryLimitExceeded) (\<lambda>total_bytes.
          bindE (ensure_inclusive_limit (unat total_bytes) MAX_REPOSITORY_METADATA_BYTES) (\<lambda>_.
            Inr (ds @ [evidence_digest_of (ste_sha env) sealed], c1\<lparr>vc_metadata_bytes := total_bytes,
              vc_verified_evidence := om_insert ?i (evidence_digest_of (ste_sha env) sealed) (vc_verified_evidence c1)\<rparr>)))))"
  have step: "only_limits (?rest c1) ?P"
    if c1: "vc_state c1 = vc_state c" "vc_verified_evidence c1 = vc_verified_evidence c" for c1
  proof (cases "om_get (vc_verified_evidence c1) ?i")
    case None
    have "om_get blobs ?i = Some e" using assms(2,3) by (simp add: held_def)
    then show ?thesis
      using None c1 held_read [OF assms(2)] evidence_ok_insert [OF assms(4)]
      by (auto simp: assms(3) only_limits_bind digests_verified_def intro!: only_limits_mono [OF only_limits_bounds(1)]
          only_limits_mono [OF only_limits_bounds(2)])
  next
    case (Some d)
    have "om_get (vc_verified_evidence c) (object_key env (pb_scope b) (er_evidence_id ref)) = Some d"
      using Some c1(2) assms(3) by simp
    note h = held_digest [OF assms(2,4) this]
    show ?thesis using Some c1 h assms(4) by (simp add: om_contains_def digests_verified_def)
  qed
  have "only_limits (bindE (count_evidence ?i c) ?rest) ?P"
    unfolding only_limits_bind by (rule only_limits_mono [OF only_limits_count(1)]) (rule step; simp)
  then show ?thesis
    unfolding declared_digest_def prod.case assms(1) ok_or.simps bindE.simps Let_def assms(3) .
qed

lemma declared_digests_held:
  assumes "\<And>i. i \<in> set ids \<Longrightarrow> om_get refs i = Some (sev_reference (item i)) \<and> sealed_id (item i) = i \<and>
      held env blobs (pb_scope b) (sev_reference (item i)) (item i)"
    and "evidence_ok env blobs (vc_verified_evidence c)"
  shows "only_limits (foldE (declared_digest env blobs b refs) ids (ds, c)) (\<lambda>(ds', c').
    ds' = ds @ map (\<lambda>i. evidence_digest_of (ste_sha env) (item i)) ids \<and> digests_verified env blobs (pb_scope b) ids c c')"
  using assms
proof (induction ids arbitrary: ds c)
  case (Cons i ids)
  let ?d = "\<lambda>i. evidence_digest_of (ste_sha env) (item i)"
  have h: "om_get refs i = Some (sev_reference (item i))" "sealed_id (item i) = i"
    "held env blobs (pb_scope b) (sev_reference (item i)) (item i)" using Cons.prems(1) by auto
  show ?case unfolding foldE.simps only_limits_bind
  proof (rule only_limits_mono [OF declared_digest_held [OF h(1,3,2) Cons.prems(2)]])
    fix x assume "case x of (ds', c1) \<Rightarrow> ds' = ds @ [?d i] \<and> digests_verified env blobs (pb_scope b) [i] c c1"
    then obtain c1 where x: "x = (ds @ [?d i], c1)" "digests_verified env blobs (pb_scope b) [i] c c1" by (cases x) auto
    have "only_limits (foldE (declared_digest env blobs b refs) ids (ds @ [?d i], c1)) (\<lambda>(ds', c').
        ds' = (ds @ [?d i]) @ map ?d ids \<and> digests_verified env blobs (pb_scope b) ids c1 c')"
      by (rule Cons.IH) (use Cons.prems(1) x(2) in \<open>simp_all add: digests_verified_def\<close>)
    then show "only_limits (foldE (declared_digest env blobs b refs) ids x) (\<lambda>(ds', c').
        ds' = ds @ map ?d (i # ids) \<and> digests_verified env blobs (pb_scope b) (i # ids) c c')"
      unfolding x(1) by (rule only_limits_mono) (use x(2) in \<open>auto simp: digests_verified_def split: prod.splits\<close>)
  qed
qed (simp add: digests_verified_def)

lemma sort_key_unique:
  assumes "set xs = set ys" and "distinct (map f xs)" and "distinct (map f ys)"
  shows "sort_key f xs = sort_key f ys"
proof (rule map_inj_on)
  have d: "distinct xs" "distinct ys" "inj_on f (set xs)" "inj_on f (set ys)" using assms by (auto simp: distinct_map)
  show "map f (sort_key f xs) = map f (sort_key f ys)"
    by (rule sorted_distinct_set_unique) (use assms d in \<open>simp_all add: distinct_map\<close>)
  show "inj_on f (set (sort_key f xs) \<union> set (sort_key f ys))" using assms(1) d by simp
qed

text \<open>The digest recomputed from the blobs is the digest the request was given.\<close>

lemma new_batch_digest:
  assumes digest: "request_digest (ste_append env) r = Inr digest" and stream: "is_opaque_id (pap_stream_id r)"
    and evs: "map request_of_envelope evs = pap_events r" and ids: "distinct (map sealed_id (pap_evidence r))"
    and item: "\<And>e. e \<in> set (pap_evidence r) \<Longrightarrow> item (sealed_id e) = e"
  shows "verify_request_digest env (new_batch env r digest evs)
    (map (\<lambda>i. evidence_digest_of (ste_sha env) (item i)) (sort (map sealed_id (pap_evidence r)))) = Inr ()"
proof -
  let ?d = "evidence_digest_of (ste_sha env)"
  let ?ids = "map sealed_id (pap_evidence r)"
  have eq: "map (\<lambda>i. ?d (item i)) ?ids = map ?d (pap_evidence r)" using item by simp
  have key: "evidence_id_of_digest (?d e) = sealed_id e" for e by (simp add: evidence_id_of_digest_def evidence_digest_of_def Let_def)
  have sets: "set (map (\<lambda>i. ?d (item i)) (sort ?ids)) = set (map ?d (pap_evidence r))" using arg_cong [OF eq, of set] by (simp add: image_image)
  have "map evidence_id_of_digest (map (\<lambda>i. ?d (item i)) (sort ?ids)) = sort ?ids"
    unfolding map_map by (rule map_idI) (auto simp: key item)
  then have d1: "distinct (map evidence_id_of_digest (map (\<lambda>i. ?d (item i)) (sort ?ids)))" using ids by simp
  have d2: "distinct (map evidence_id_of_digest (map ?d (pap_evidence r)))" using ids by (simp add: comp_def key)
  show ?thesis
    using digest stream sort_key_unique [OF sets d1 d2]
    by (simp add: verify_request_digest_def request_digest_def evs)
qed

text \<open>How a context grows along the events of a batch.\<close>

definition grows :: "verify_ctx \<Rightarrow> verify_ctx \<Rightarrow> bool" where
  "grows c c' \<longleftrightarrow>
    (\<forall>k. om_contains (vc_verified_evidence c) k \<longrightarrow> om_contains (vc_verified_evidence c') k) \<and>
    (\<forall>p. os_member (ls_reachable_evidence (vc_state c)) p \<longrightarrow> os_member (ls_reachable_evidence (vc_state c')) p) \<and>
    ls_artifacts (vc_state c') = ls_artifacts (vc_state c) \<and>
    ls_active_versions (vc_state c') = ls_active_versions (vc_state c) \<and>
    ls_seen_idempotency (vc_state c') = ls_seen_idempotency (vc_state c)"

lemma grows_trans: "grows a b \<Longrightarrow> grows b c \<Longrightarrow> grows a c"
  by (simp add: grows_def)

lemma grows_refl [simp]: "grows c c"
  by (simp add: grows_def)

definition available :: "store_env \<Rightarrow> (string, sealed_evidence) omap \<Rightarrow> repository_scope \<Rightarrow> verify_ctx \<Rightarrow> evidence_reference \<Rightarrow> bool" where
  "available env blobs scope c ref \<longleftrightarrow> (\<exists>e. held env blobs scope ref e) \<and>
    (om_contains (vc_verified_evidence c) (object_key env scope (er_evidence_id ref)) \<or>
     os_member (ls_reachable_evidence (vc_state c)) (blob_name env scope (er_evidence_id ref)))"

lemma verify_evidence_reference_held:
  assumes "available env blobs scope c ref" and "evidence_ok env blobs (vc_verified_evidence c)"
  shows "only_limits (verify_evidence_reference env blobs scope ref c)
    (\<lambda>c'. evidence_ok env blobs (vc_verified_evidence c') \<and> grows c c')"
proof -
  let ?i = "object_key env scope (er_evidence_id ref)" and ?p = "blob_name env scope (er_evidence_id ref)"
  obtain e where e: "held env blobs scope ref e" using assms(1) by (auto simp: available_def)
  let ?out = "\<lambda>c. c\<lparr>vc_state := (vc_state c)\<lparr>ls_reachable_evidence := os_insert ?p (ls_reachable_evidence (vc_state c))\<rparr>\<rparr>"
  let ?P = "\<lambda>c'. evidence_ok env blobs (vc_verified_evidence c') \<and> grows c c'"
  have rest: "only_limits (bindE (if \<not> om_contains (vc_verified_evidence c1) ?i \<and> os_member (ls_reachable_evidence (vc_state c1)) ?p
            then bindE (read_verified_blob env blobs ?p scope ref) (\<lambda>sealed.
              Inr (c1\<lparr>vc_verified_evidence := om_insert ?i (evidence_digest_of (ste_sha env) sealed) (vc_verified_evidence c1)\<rparr>))
            else Inr c1) (\<lambda>c. if (case om_get (vc_verified_evidence c) ?i of None \<Rightarrow> True
         | Some d \<Rightarrow> evd_scope d \<noteq> scope \<or> evd_reference d \<noteq> ref) then Inl Integrity else Inr (?out c))) ?P"
    if c1: "vc_state c1 = vc_state c" "vc_verified_evidence c1 = vc_verified_evidence c" for c1
  proof (cases "om_get (vc_verified_evidence c) ?i")
    case None
    have b: "om_get blobs ?i = Some e" using e by (simp add: held_def)
    have r: "os_member (ls_reachable_evidence (vc_state c)) ?p" using assms(1) None by (simp add: available_def om_contains_def)
    have d: "evd_scope (evidence_digest_of (ste_sha env) e) = scope" "evd_reference (evidence_digest_of (ste_sha env) e) = ref"
      using e by (simp_all add: held_def evidence_digest_of_def Let_def)
    show ?thesis using c1 None r d held_read [OF e] evidence_ok_insert [OF assms(2) b]
      by (simp add: om_contains_def) (simp add: grows_def om_contains_def)
  next
    case (Some d)
    note h = held_digest [OF e assms(2) Some]
    show ?thesis using c1 Some h assms(2) by (simp add: om_contains_def) (simp add: grows_def)
  qed
  have "only_limits (bindE (count_evidence ?i c) (\<lambda>c1. bindE (if \<not> om_contains (vc_verified_evidence c1) ?i \<and> os_member (ls_reachable_evidence (vc_state c1)) ?p
            then bindE (read_verified_blob env blobs ?p scope ref) (\<lambda>sealed.
              Inr (c1\<lparr>vc_verified_evidence := om_insert ?i (evidence_digest_of (ste_sha env) sealed) (vc_verified_evidence c1)\<rparr>))
            else Inr c1) (\<lambda>c. if (case om_get (vc_verified_evidence c) ?i of None \<Rightarrow> True
         | Some d \<Rightarrow> evd_scope d \<noteq> scope \<or> evd_reference d \<noteq> ref) then Inl Integrity else Inr (?out c)))) ?P"
    unfolding only_limits_bind [of "count_evidence ?i c"]
    by (rule only_limits_mono [OF only_limits_count(1)]) (rule rest; simp)
  then show ?thesis unfolding verify_evidence_reference_def Let_def .
qed

text \<open>An artifact an event names is registered by its batch or committed for its stream.\<close>

definition artifact_known :: "store_env \<Rightarrow> physical_batch \<Rightarrow> (string, stored_artifact) omap \<Rightarrow> event_envelope \<Rightarrow> artifact_reference \<Rightarrow> bool" where
  "artifact_known env b arts ev ref \<longleftrightarrow>
    (\<exists>a. sar_producer_stream_id a = env_stream_id ev \<and> sar_reference a = ref \<and>
      (om_get arts (artifact_key env (env_scope ev) (ar_artifact_id ref)) = Some a \<or>
       om_get (batch_artifacts b) (ar_artifact_id ref) = Some a))"

lemma verify_artifact_reference_known:
  assumes "artifact_known env b (ls_artifacts (vc_state c)) ev ref"
  shows "only_limits (verify_artifact_reference env b ev ref c)
    (\<lambda>c'. vc_state c' = vc_state c \<and> vc_verified_evidence c' = vc_verified_evidence c)"
  unfolding verify_artifact_reference_def Let_def only_limits_bind
  by (rule only_limits_mono [OF only_limits_count(2)]) (use assms in \<open>auto simp: artifact_known_def\<close>)

lemma event_references_held:
  assumes "\<forall>ref\<in>set (env_evidence_refs ev). available env blobs (env_scope ev) c ref"
    and "evidence_ok env blobs (vc_verified_evidence c)"
    and "\<forall>ref\<in>set (env_artifact_refs ev). artifact_known env b (ls_artifacts (vc_state c)) ev ref"
  shows "only_limits (bindE (foldE (verify_evidence_reference env blobs (env_scope ev)) (env_evidence_refs ev) c) (\<lambda>c.
        bindE (foldE (verify_artifact_reference env b ev) (env_artifact_refs ev) c) (\<lambda>c. Inr (env_event_hash ev, c))))
    (\<lambda>(h, c'). h = env_event_hash ev \<and> evidence_ok env blobs (vc_verified_evidence c') \<and> grows c c')"
proof -
  let ?I = "\<lambda>c'. evidence_ok env blobs (vc_verified_evidence c') \<and> grows c c'"
  have ev: "only_limits (foldE (verify_evidence_reference env blobs (env_scope ev)) (env_evidence_refs ev) c) ?I"
  proof (rule only_limits_fold)
    show "?I c" using assms(2) by simp
    fix ref d assume "ref \<in> set (env_evidence_refs ev)" and d: "?I d"
    then have "available env blobs (env_scope ev) d ref" using assms(1) by (auto simp: available_def grows_def)
    from verify_evidence_reference_held [OF this] d
    show "only_limits (verify_evidence_reference env blobs (env_scope ev) ref d) ?I"
      by (auto elim!: only_limits_mono intro: grows_trans)
  qed
  have art: "only_limits (foldE (verify_artifact_reference env b ev) (env_artifact_refs ev) d) ?I" if d: "?I d" for d
  proof (rule only_limits_fold [where I = ?I, OF d])
    fix ref x assume "ref \<in> set (env_artifact_refs ev)" and x: "?I x"
    then have "artifact_known env b (ls_artifacts (vc_state x)) ev ref" using assms(3) by (simp add: grows_def)
    from verify_artifact_reference_known [OF this] show "only_limits (verify_artifact_reference env b ev ref x) ?I"
      by (rule only_limits_mono) (use x in \<open>simp add: grows_def\<close>)
  qed
  show ?thesis unfolding only_limits_bind
    by (rule only_limits_mono [OF ev], rule only_limits_mono [OF art]) simp_all
qed

text \<open>The version the store has active is the identity the request's lineage was checked from.\<close>

definition active_matches :: "string \<Rightarrow> loaded_state \<Rightarrow> active_graph_identity option \<Rightarrow> bool" where
  "active_matches key st cur \<longleftrightarrow>
    map_option (\<lambda>a. (av_number a, av_semantic_hash a)) (om_get (ls_active_versions st) key) =
    map_option (\<lambda>i. (agi_number i, agi_semantic_hash i)) cur"

lemma publication_follows:
  assumes "lineage_step (request_of_envelope ev) cur = Inr cur'" and "active_matches key st cur"
    and "\<And>pl. env_kind ev = GraphVersionPublished pl \<Longrightarrow>
      fe_validate_persisted_projection (re_fold (ste_replay env)) (gvp_version pl)"
  obtains st' x where "verify_publication env key ev st = Inr st'" "active_matches key st' cur'"
    "st' = st\<lparr>ls_active_versions := x\<rparr>"
proof (cases "is_publication (env_kind ev)")
  case False
  then have "verify_publication env key ev st = Inr st" "cur' = cur"
    using assms(1) by (cases "env_kind ev"; simp add: verify_publication_def lineage_step_def request_of_envelope_def is_publication_def)+
  then show thesis using that [of st "ls_active_versions st"] assms(2) by simp
next
  case True
  then obtain pl where k: "env_kind ev = GraphVersionPublished pl" by (cases "env_kind ev") (simp_all add: is_publication_def)
  show thesis
    using assms(1,2) assms(3) [OF k] that
    by (cases cur; cases "om_get (ls_active_versions st) key")
      (auto simp: active_matches_def lineage_step_def request_of_envelope_def verify_publication_def k Let_def split: if_splits)
qed

lemma verify_event_ready:
  assumes "chained env r n prev [ev]" and "pb_scope b = pap_scope r" and "pb_stream_id b = pap_stream_id r"
    and "verify_publication env key ev (vc_state c) = Inr st" and "st = (vc_state c)\<lparr>ls_active_versions := x\<rparr>"
    and "\<not> os_member (ls_seen_idempotency (vc_state c)) (idempotency_identity key (env_idempotency_key ev))"
    and "\<forall>ref\<in>set (env_evidence_refs ev). available env blobs (pap_scope r) c ref"
    and "evidence_ok env blobs (vc_verified_evidence c)"
    and "\<forall>ref\<in>set (env_artifact_refs ev). artifact_known env b (ls_artifacts (vc_state c)) ev ref"
  shows "only_limits (verify_event env blobs b key (pap_expected_next_sequence r) (n, ev) (prev, c))
    (\<lambda>(h, c'). h = env_event_hash ev \<and> evidence_ok env blobs (vc_verified_evidence c') \<and>
       grows (c\<lparr>vc_state := st\<lparr>ls_seen_idempotency :=
         os_insert (idempotency_identity key (env_idempotency_key ev)) (ls_seen_idempotency st)\<rparr>\<rparr>) c')"
proof -
  have c: "validate_envelope (ste_replay env) ev = Inr ()" "env_scope ev = pap_scope r" "env_stream_id ev = pap_stream_id r"
    "checked_add (pap_expected_next_sequence r) (of_nat n) = Some (env_sequence ev)" "env_previous_hash ev = prev"
    "event_hash (ste_replay env) ev prev = Inr (env_event_hash ev)" using assms(1) by simp_all
  let ?c = "c\<lparr>vc_state := st\<lparr>ls_seen_idempotency :=
         os_insert (idempotency_identity key (env_idempotency_key ev)) (ls_seen_idempotency st)\<rparr>\<rparr>"
  have "\<forall>ref\<in>set (env_evidence_refs ev). available env blobs (env_scope ev) ?c ref"
    using assms(7) c(2) by (simp add: available_def assms(5))
  moreover have "\<forall>ref\<in>set (env_artifact_refs ev). artifact_known env b (ls_artifacts (vc_state ?c)) ev ref"
    using assms(9) by (simp add: assms(5))
  moreover have "evidence_ok env blobs (vc_verified_evidence ?c)" using assms(8) by simp
  ultimately have "only_limits (bindE (foldE (verify_evidence_reference env blobs (env_scope ev)) (env_evidence_refs ev) ?c) (\<lambda>c.
        bindE (foldE (verify_artifact_reference env b ev) (env_artifact_refs ev) c) (\<lambda>c. Inr (env_event_hash ev, c))))
    (\<lambda>(h, c'). h = env_event_hash ev \<and> evidence_ok env blobs (vc_verified_evidence c') \<and> grows ?c c')"
    by (intro event_references_held)
  then show ?thesis
    using assms(6) c assms(2,3) unfolding verify_event_def prod.case Let_def assms(4) bindE.simps
    by (simp add: assms(5))
qed

end
