(* ===== verification/Store_Commit.thy ===== *)
theory Store_Commit
  imports Store_Append
begin

text \<open>
  What an append promises. The batch \<open>append_locked\<close> writes is the batch the next load verifies: of the
  thirty-odd refusals of a walk only a limit can still apply to it.
\<close>

section \<open>The events of the new batch\<close>

lemma idempotency_identity_inj [simp]: "idempotency_identity key i = idempotency_identity key j \<longleftrightarrow> i = j"
  by (simp add: idempotency_identity_def)

lemma distinct_head_differs: "distinct (map f (x # xs)) \<Longrightarrow> y \<in> set xs \<Longrightarrow> f y \<noteq> f x"
  by (induction xs) auto

lemma available_grows:
  assumes "grows d c'" and "vc_verified_evidence d = vc_verified_evidence c"
    and "ls_reachable_evidence (vc_state d) = ls_reachable_evidence (vc_state c)" and "available env blobs scope c ref"
  shows "available env blobs scope c' ref"
  using assms unfolding available_def grows_def by metis

lemma new_batch_events:
  assumes "chained env r n prev evs" and "pb_scope b = pap_scope r" and "pb_stream_id b = pap_stream_id r"
    and "foldE lineage_step (map request_of_envelope evs) cur = Inr cur'" and "active_matches key (vc_state c) cur"
    and "\<And>ev pl. ev \<in> set evs \<Longrightarrow> env_kind ev = GraphVersionPublished pl \<Longrightarrow>
      fe_validate_persisted_projection (re_fold (ste_replay env)) (gvp_version pl)"
    and "\<forall>ev\<in>set evs. \<not> os_member (ls_seen_idempotency (vc_state c)) (idempotency_identity key (env_idempotency_key ev))"
    and "distinct (map env_idempotency_key evs)"
    and "\<forall>ev\<in>set evs. \<forall>ref\<in>set (env_evidence_refs ev). available env blobs (pap_scope r) c ref"
    and "evidence_ok env blobs (vc_verified_evidence c)"
    and "\<forall>ev\<in>set evs. \<forall>ref\<in>set (env_artifact_refs ev). artifact_known env b (ls_artifacts (vc_state c)) ev ref"
  shows "only_limits (foldE (verify_event env blobs b key (pap_expected_next_sequence r)) (enumerate n evs) (prev, c))
    (\<lambda>(_, c'). ls_artifacts (vc_state c') = ls_artifacts (vc_state c))"
  using assms
proof (induction evs arbitrary: n prev c cur)
  case (Cons ev evs)
  note prems = Cons.prems
  obtain cur1 where l: "lineage_step (request_of_envelope ev) cur = Inr cur1"
    "foldE lineage_step (map request_of_envelope evs) cur1 = Inr cur'" using prems(4) by auto
  have proj: "fe_validate_persisted_projection (re_fold (ste_replay env)) (gvp_version pl)"
    if "env_kind ev = GraphVersionPublished pl" for pl using prems(6) that by (meson list.set_intros(1))
  obtain st x where st: "verify_publication env key ev (vc_state c) = Inr st" "active_matches key st cur1"
    "st = (vc_state c)\<lparr>ls_active_versions := x\<rparr>"
    by (rule publication_follows [OF l(1) prems(5), where env = env]) (use proj in auto)
  let ?c = "c\<lparr>vc_state := st\<lparr>ls_seen_idempotency :=
         os_insert (idempotency_identity key (env_idempotency_key ev)) (ls_seen_idempotency st)\<rparr>\<rparr>"
  have ch: "chained env r n prev [ev]" "chained env r (Suc n) (env_event_hash ev) evs" using prems(1) by simp_all
  have head: "\<not> os_member (ls_seen_idempotency (vc_state c)) (idempotency_identity key (env_idempotency_key ev))"
    "\<forall>ref\<in>set (env_evidence_refs ev). available env blobs (pap_scope r) c ref"
    "\<forall>ref\<in>set (env_artifact_refs ev). artifact_known env b (ls_artifacts (vc_state c)) ev ref"
    using prems(7,9,11) by simp_all
  show ?case
    unfolding enumerate_simps foldE.simps only_limits_bind
  proof (rule only_limits_mono [OF verify_event_ready [OF ch(1) prems(2,3) st(1,3) head(1,2) prems(10) head(3)]])
    fix y assume "case y of (h, c') \<Rightarrow> h = env_event_hash ev \<and> evidence_ok env blobs (vc_verified_evidence c') \<and> grows ?c c'"
    then obtain c' where y: "y = (env_event_hash ev, c')" "evidence_ok env blobs (vc_verified_evidence c')" "grows ?c c'"
      by (cases y) auto
    have arts: "ls_artifacts (vc_state c') = ls_artifacts (vc_state c)" using y(3) by (simp add: grows_def st(3))
    have "only_limits (foldE (verify_event env blobs b key (pap_expected_next_sequence r)) (enumerate (Suc n) evs) (env_event_hash ev, c'))
      (\<lambda>(_, d). ls_artifacts (vc_state d) = ls_artifacts (vc_state c'))"
    proof (rule Cons.IH [OF ch(2) prems(2,3) l(2) _ _ _ _ _ y(2)])
      show "active_matches key (vc_state c') cur1" using st(2) y(3) by (simp add: active_matches_def grows_def)
      show "fe_validate_persisted_projection (re_fold (ste_replay env)) (gvp_version pl)"
        if "e \<in> set evs" "env_kind e = GraphVersionPublished pl" for e pl using prems(6) that by (meson list.set_intros(2))
      show "\<forall>e\<in>set evs. \<not> os_member (ls_seen_idempotency (vc_state c')) (idempotency_identity key (env_idempotency_key e))"
      proof
        fix e assume e: "e \<in> set evs"
        have seen: "ls_seen_idempotency (vc_state c') =
            os_insert (idempotency_identity key (env_idempotency_key ev)) (ls_seen_idempotency (vc_state c))"
          using y(3) by (simp add: grows_def st(3))
        have "\<not> os_member (ls_seen_idempotency (vc_state c)) (idempotency_identity key (env_idempotency_key e))"
          using prems(7) e by simp
        then show "\<not> os_member (ls_seen_idempotency (vc_state c')) (idempotency_identity key (env_idempotency_key e))"
          using distinct_head_differs [OF prems(8) e] by (simp add: seen)
      qed
      show "distinct (map env_idempotency_key evs)" using prems(8) by simp
      show "\<forall>e\<in>set evs. \<forall>ref\<in>set (env_evidence_refs e). available env blobs (pap_scope r) c' ref"
        using prems(9) available_grows [OF y(3)] by (simp add: st(3))
      show "\<forall>e\<in>set evs. \<forall>ref\<in>set (env_artifact_refs e). artifact_known env b (ls_artifacts (vc_state c')) e ref"
        using prems(11) arts by simp
    qed
    then show "only_limits (foldE (verify_event env blobs b key (pap_expected_next_sequence r)) (enumerate (Suc n) evs) y)
      (\<lambda>(_, d). ls_artifacts (vc_state d) = ls_artifacts (vc_state c))"
      unfolding y(1) by (rule only_limits_mono) (auto simp: arts)
  qed
qed simp

text \<open>Registering artifacts under distinct keys, each new or already the same.\<close>

lemma register_artifacts_ready:
  assumes "inj_on (artifact_key env (pb_scope b)) (artifact_id_of ` set as)" and "distinct (map artifact_id_of as)"
    and "\<forall>a\<in>set as. om_get (ls_artifacts (vc_state c)) (artifact_key env (pb_scope b) (artifact_id_of a)) \<in> {None, Some a}"
  shows "only_limits (foldE (register_artifact env b) as c) (\<lambda>_. True)"
  using assms
proof (induction as arbitrary: c)
  case (Cons a as)
  let ?k = "\<lambda>a. artifact_key env (pb_scope b) (artifact_id_of a)"
  have "only_limits (register_artifact env b a c) (\<lambda>c'. \<forall>x\<in>set as. om_get (ls_artifacts (vc_state c')) (?k x) \<in> {None, Some x})"
    unfolding register_artifact_def Let_def only_limits_bind
  proof (rule only_limits_mono [OF only_limits_count(2)])
    fix c1 assume c1: "vc_state c1 = vc_state c \<and> vc_verified_evidence c1 = vc_verified_evidence c"
    have other: "?k x \<noteq> ?k a" if "x \<in> set as" for x
    proof -
      have "artifact_id_of x \<noteq> artifact_id_of a" by (rule distinct_head_differs [OF Cons.prems(2) that])
      moreover have "artifact_id_of x \<in> artifact_id_of ` set (a # as)" "artifact_id_of a \<in> artifact_id_of ` set (a # as)"
        using that by simp_all
      ultimately show ?thesis using inj_on_eq_iff [OF Cons.prems(1)] by blast
    qed
    show "only_limits (case om_get (ls_artifacts (vc_state c1)) (?k a) of
        Some existing \<Rightarrow> if existing \<noteq> a then Inl Integrity else Inr c1
      | None \<Rightarrow> Inr (c1\<lparr>vc_state := (vc_state c1)\<lparr>ls_artifacts := om_insert (?k a) a (ls_artifacts (vc_state c1))\<rparr>\<rparr>))
      (\<lambda>c'. \<forall>x\<in>set as. om_get (ls_artifacts (vc_state c')) (?k x) \<in> {None, Some x})"
      using Cons.prems(3) c1 other by auto
  qed
  then show ?case unfolding foldE.simps only_limits_bind
    by (rule only_limits_mono) (rule Cons.IH [OF inj_on_subset [OF Cons.prems(1)]], use Cons.prems(2) in auto)
qed simp


section \<open>What a plan has checked\<close>

definition checked ::
  "store_env \<Rightarrow> timestamp option \<Rightarrow> (nat \<Rightarrow> string) \<Rightarrow> prepared_append \<Rightarrow> event_store \<Rightarrow> loaded_state \<Rightarrow> string
   \<Rightarrow> event_envelope list \<Rightarrow> bool" where
  "checked env at ids r store st digest evs \<longleftrightarrow>
    validate_prepared_append (ste_append env) r = Inr () \<and>
    validate_artifact_relations r (committed_artifacts env r st) = Inr () \<and>
    validate_reference_availability env (evs_blobs store) r st = Inr () \<and>
    request_digest (ste_append env) r = Inr digest \<and>
    batch_holding_keys env store st (pap_scope r) (pap_stream_id r) (map nev_idempotency_key (pap_events r)) = None \<and>
    validate_graph_successors env r st = Inr () \<and>
    next_sequence_of st (stream_key env (pap_scope r) (pap_stream_id r)) = pap_expected_next_sequence r \<and>
    build_envelopes env at ids r st = Inr evs \<and> readable_back env (new_batch env r digest evs) = Inr ()"

lemma plan_append_new:
  assumes "plan_append env at ids r store st = Inr (NewBatch b)"
  obtains digest evs where "b = new_batch env r digest evs" "checked env at ids r store st digest evs"
proof (cases "batch_holding_keys env store st (pap_scope r) (pap_stream_id r) (map nev_idempotency_key (pap_events r))")
  case None
  then show thesis
    using assms that unfolding plan_append_def validate_request_preflight_def Let_def checked_def by (auto split: if_splits)
next
  case (Some b')
  then show thesis using assms unfolding plan_append_def Let_def by (auto split: if_splits)
qed

lemma plan_append_committed:
  assumes "plan_append env at ids r store st = Inr (Committed evs)"
  obtains b digest where "validate_request_preflight env r st = Inr ()"
    "validate_reference_availability env (evs_blobs store) r st = Inr ()" "request_digest (ste_append env) r = Inr digest"
    "batch_holding_keys env store st (pap_scope r) (pap_stream_id r) (map nev_idempotency_key (pap_events r)) = Some b"
    "pb_request_digest b = digest" "set (map env_idempotency_key (pb_events b)) = set (map nev_idempotency_key (pap_events r))"
    "evs = pb_events b"
proof (cases "batch_holding_keys env store st (pap_scope r) (pap_stream_id r) (map nev_idempotency_key (pap_events r))")
  case None
  then show thesis using assms unfolding plan_append_def Let_def by (auto split: if_splits)
next
  case (Some b)
  then show thesis using assms that unfolding plan_append_def Let_def by (auto split: if_splits)
qed

lemma batch_holding_keys_Some:
  assumes "batch_holding_keys env store st scope stream keys = Some b"
  shows "b \<in> set (visit_history env store st (stream_key env scope stream) 0)" "own_batch scope stream b"
  using assms by (auto simp: batch_holding_keys_def Let_def find_Some_iff split: if_splits)

lemma successors_lineage:
  assumes "validate_graph_successors env r st = Inr ()"
  obtains cur cur' where "active_matches (stream_key env (pap_scope r) (pap_stream_id r)) st cur"
    "foldE lineage_step (pap_events r) cur = Inr cur'"
proof (cases "om_get (ls_active_versions st) (stream_key env (pap_scope r) (pap_stream_id r))")
  case None
  then show thesis using assms that [of None]
    by (auto simp: validate_graph_successors_def validate_graph_lineage_def active_matches_def)
next
  case (Some a)
  then show thesis using assms that [of "Some \<lparr>agi_number = av_number a, agi_semantic_hash = av_semantic_hash a\<rparr>"]
    by (auto simp: validate_graph_successors_def validate_graph_lineage_def active_matches_def
        active_graph_identity_new_def split: if_splits)
qed

lemma prepared_map_get:
  assumes "distinct (map sealed_id (pap_evidence r))"
  shows "om_get (prepared_evidence_map r) i = Some p \<longleftrightarrow> (\<exists>e\<in>set (pap_evidence r). sealed_id e = i \<and> sev_reference e = p)"
proof -
  have "distinct (map fst (map (\<lambda>e. (sealed_id e, sev_reference e)) (pap_evidence r)))" using assms by (simp add: comp_def)
  from om_get_collect_distinct [OF this] show ?thesis by (auto simp: prepared_evidence_map_def)
qed

text \<open>Every reference of a request that is about to be written is held: by its own evidence, or by a committed blob.\<close>

lemma request_refs_held:
  assumes avail: "validate_reference_availability env blobs r st = Inr ()" and ext: "extends blobs blobs'"
    and ids: "distinct (map sealed_id (pap_evidence r))"
    and pub: "\<And>e. e \<in> set (pap_evidence r) \<Longrightarrow> held env blobs' (pap_scope r) (sev_reference e) e"
    and ref: "ref \<in> set (request_refs r)"
  shows "(\<exists>e. held env blobs' (pap_scope r) ref e) \<and>
    (er_evidence_id ref \<in> sealed_id ` set (pap_evidence r) \<or>
     os_member (ls_reachable_evidence st) (blob_name env (pap_scope r) (er_evidence_id ref)))"
proof -
  let ?vc = "\<lambda>ref. let path = blob_name env (pap_scope r) (er_evidence_id ref) in
        if os_member (ls_reachable_evidence st) path then verify_blob env blobs path (pap_scope r) ref else Inr False"
  have "validate_evidence_references (pap_events r) (prepared_evidence_map r) ?vc = Inr ()"
    using avail unfolding validate_reference_availability_def by auto
  note f = evidence_references_facts(1) [OF this ref]
  show ?thesis
  proof (cases "om_get (prepared_evidence_map r) (er_evidence_id ref)")
    case None
    then have v: "os_member (ls_reachable_evidence st) (blob_name env (pap_scope r) (er_evidence_id ref))"
      "verify_blob env blobs (blob_name env (pap_scope r) (er_evidence_id ref)) (pap_scope r) ref = Inr True"
      using f by (auto simp: Let_def split: if_splits)
    from v(2) obtain e where "held env blobs (pap_scope r) ref e"
      by (auto simp: verify_blob_def held_def blob_name_def isl_unit split: option.splits if_splits)
    then have "held env blobs' (pap_scope r) ref e" using ext by (simp add: held_def extends_def)
    then show ?thesis using v(1) by blast
  next
    case (Some p)
    then have "om_get (prepared_evidence_map r) (er_evidence_id ref) = Some ref" using f by simp
    then obtain e where "e \<in> set (pap_evidence r)" "sealed_id e = er_evidence_id ref" "sev_reference e = ref"
      using prepared_map_get [OF ids] by blast
    then show ?thesis using pub by force
  qed
qed

lemma request_artifacts_known:
  assumes avail: "validate_reference_availability env blobs r st = Inr ()" and ok: "artifact_registrations_ok r"
    and ref: "ref \<in> set (request_artifact_refs r)"
    and ev: "env_scope ev = pap_scope r" "env_stream_id ev = pap_stream_id r"
  shows "artifact_known env (new_batch env r digest evs) (ls_artifacts st) ev ref"
proof -
  let ?prep = "om_collect (map (\<lambda>a. (ar_artifact_id (arg_reference a), a)) (pap_artifacts r))"
  have "(case om_get ?prep (ar_artifact_id ref) of None \<Rightarrow> False | Some a \<Rightarrow> arg_reference a = ref) \<or>
        (case om_get (ls_artifacts st) (artifact_key env (pap_scope r) (ar_artifact_id ref)) of None \<Rightarrow> False
           | Some a \<Rightarrow> sar_producer_stream_id a = pap_stream_id r \<and> sar_reference a = ref)"
    using avail ref unfolding validate_reference_availability_def Let_def
    by (simp add: list_ex_iff split: if_splits) blast
  then show ?thesis
  proof
    assume "case om_get (ls_artifacts st) (artifact_key env (pap_scope r) (ar_artifact_id ref)) of None \<Rightarrow> False
           | Some a \<Rightarrow> sar_producer_stream_id a = pap_stream_id r \<and> sar_reference a = ref"
    then show ?thesis using ev by (auto simp: artifact_known_def split: option.splits)
  next
    assume "case om_get ?prep (ar_artifact_id ref) of None \<Rightarrow> False | Some a \<Rightarrow> arg_reference a = ref"
    then obtain a where a: "om_get ?prep (ar_artifact_id ref) = Some a" "arg_reference a = ref" by (auto split: option.splits)
    have d: "distinct (map artifact_id_of (stored_artifacts r))" by (rule artifact_table(1) [OF ok])
    have "distinct (map fst (map (\<lambda>a. (ar_artifact_id (arg_reference a), a)) (pap_artifacts r)))"
      using d by (simp add: stored_artifacts_def comp_def)
    then have "a \<in> set (pap_artifacts r)" using a(1) om_get_collect_distinct by fastforce
    then have mem: "\<lparr>sar_reference = ref, sar_producer_stream_id = pap_stream_id r,
        sar_producer_idempotency_key = arg_producer_idempotency_key a\<rparr> \<in> set (stored_artifacts r)" (is "?sa \<in> _")
      using a(2) by (auto simp: stored_artifacts_def)
    have "distinct (map fst (map (\<lambda>a. (artifact_id_of a, a)) (stored_artifacts r)))" using d by (simp add: comp_def)
    then have "om_get (batch_artifacts (new_batch env r digest evs)) (ar_artifact_id ref) = Some ?sa"
      using om_get_collect_distinct mem by (force simp: batch_artifacts_def)
    then show ?thesis using ev unfolding artifact_known_def by (intro exI [of _ ?sa]) simp
  qed
qed

text \<open>A key the state has not seen, or a stream whose key batch was not found: nothing of the request was seen.\<close>

definition digest_width :: "store_env \<Rightarrow> bool" where
  "digest_width env \<longleftrightarrow> (\<forall>s. length (ste_sha env s) = 64)"

lemma idempotency_identity_eq:
  "length k = length k' \<Longrightarrow> idempotency_identity k i = idempotency_identity k' j \<longleftrightarrow> k = k' \<and> i = j"
  by (auto simp: idempotency_identity_def)

lemma stream_of_visit:
  assumes seals: "seals_track env [] (evs_sealed store)" and l: "load_state env store = Inr st"
    and kd: "keys_distinct env (insert (scope, stream) (streams (history store)))"
  shows "set (stream_of scope stream (history store)) \<subseteq>
    set (stream_of scope stream (visit_history env store st (stream_key env scope stream) 0))"
proof -
  let ?n = "length (stream_of scope stream (history store))"
  have "stream_events_after env store st scope stream 0 ?n = stream_of scope stream (history store)"
    using stream_events_after_exact [OF seals l kd, of 0 ?n] by simp
  then show ?thesis unfolding stream_events_after_def stream_of_def [symmetric]
    by (metis (no_types, lifting) filter_is_subset set_take_subset subset_trans)
qed

lemma keys_unseen:
  assumes none: "batch_holding_keys env store st scope stream keys = None"
    and seals: "seals_track env [] (evs_sealed store)" and l: "load_state env store = Inr st"
    and kd: "keys_distinct env (insert (scope, stream) (streams (history store)))" and w: "digest_width env"
    and i: "i \<in> set keys"
  shows "\<not> os_member (ls_seen_idempotency st) (idempotency_identity (stream_key env scope stream) i)"
proof
  let ?key = "stream_key env scope stream"
  assume seen: "os_member (ls_seen_idempotency st) (idempotency_identity ?key i)"
  have kd': "keys_distinct env (streams (history store))" by (rule keys_distinct_mono [OF kd]) auto
  obtain b ev where b: "b \<in> set (history store)" "ev \<in> set (pb_events b)"
    "idempotency_identity ?key i = idempotency_identity (stream_key env (pb_scope b) (pb_stream_id b)) (env_idempotency_key ev)"
    using seen tracks_seen [OF load_state_tracks(1) [OF l seals kd']] by blast
  have "?key = stream_key env (pb_scope b) (pb_stream_id b)" "env_idempotency_key ev = i"
    using b(3) w by (auto simp: idempotency_identity_eq digest_width_def stream_key_def object_key_def)
  moreover have "(pb_scope b, pb_stream_id b) \<in> streams (history store)" using b(1) by (auto simp: streams_def)
  ultimately have "own_batch scope stream b" using keys_distinctD [OF kd] by (auto simp: own_batch_def)
  then have "ev \<in> set (stream_of scope stream (history store))" using b by (auto simp: stream_of_def)
  then have "ev \<in> set (stream_of scope stream (visit_history env store st ?key 0))" using stream_of_visit [OF seals l kd] by blast
  then obtain b' where "b' \<in> set (visit_history env store st ?key 0)" "own_batch scope stream b'" "ev \<in> set (pb_events b')"
    by (auto simp: stream_of_def)
  moreover have "List.find (\<lambda>b. own_batch scope stream b \<and> list_ex (\<lambda>ev. env_idempotency_key ev \<in> set keys) (pb_events b))
      (visit_history env store st ?key 0) = None"
    using none seen i by (auto simp: batch_holding_keys_def Let_def list_ex_iff split: if_splits)
  ultimately show False using i \<open>env_idempotency_key ev = i\<close> by (auto simp: find_None_iff list_ex_iff)
qed


section \<open>The new batch verifies\<close>

text \<open>What an append assumes of SHA-256: digests have 64 hexadecimal digits, and neither the streams of the store and
  of the request nor the artifacts of the request collide.\<close>

definition no_collision :: "store_env \<Rightarrow> event_store \<Rightarrow> prepared_append \<Rightarrow> bool" where
  "no_collision env store r \<longleftrightarrow> digest_width env \<and>
    keys_distinct env (insert (pap_scope r, pap_stream_id r) (streams (history store))) \<and>
    inj_on (artifact_key env (pap_scope r)) (artifact_id_of ` set (stored_artifacts r))"

text \<open>Both the schema of a batch line and its check are in the binary.\<close>

definition schemas_registered :: "store_env \<Rightarrow> bool" where
  "schemas_registered env \<longleftrightarrow> (\<forall>b. ste_schema_attempt env b \<noteq> SchemaUnregistered)"

lemma chained_in: "chained env r n prev evs \<Longrightarrow> ev \<in> set evs \<Longrightarrow> env_scope ev = pap_scope r \<and> env_stream_id ev = pap_stream_id r"
  by (induction evs arbitrary: n prev) auto

lemma chained_last:
  "chained env r n prev evs \<Longrightarrow> evs \<noteq> [] \<Longrightarrow> \<exists>seq. checked_add (pap_expected_next_sequence r) (of_nat (n + length evs - 1)) = Some seq \<and> seq \<le> MAX_SAFE_INTEGER"
proof (induction evs arbitrary: n prev)
  case (Cons e es)
  then show ?case by (cases "es = []") fastforce+
qed simp

lemma stage_evidence_Inr:
  "stage_evidence env evidence = Inr staged \<Longrightarrow>
    staged = map (\<lambda>e. (blob_name env (sev_scope e) (sealed_id e), e)) evidence"
  by (auto simp: stage_evidence_def split: if_splits)

lemma published_held:
  assumes "stage_evidence env (pap_evidence r) = Inr staged" and "publish_staged staged blobs = (Inr (), blobs')"
    and "validate_prepared_append (ste_append env) r = Inr ()" and "e \<in> set (pap_evidence r)"
  shows "held env blobs' (pap_scope r) (sev_reference e) e"
proof -
  note f = prepared_append_facts(3,4) [OF assms(3,4)]
  have "(blob_name env (pap_scope r) (sealed_id e), e) \<in> set staged"
    using assms(4) f(1) unfolding stage_evidence_Inr [OF assms(1)] by force
  then show ?thesis using publish_staged_ok(2) [OF assms(2)] f by (simp add: held_def blob_name_def)
qed

lemma prepared_bounds:
  assumes "is_prepared r"
  shows "pap_events r \<noteq> []" "length (pap_events r) \<le> MAX_BATCH_EVENTS" "is_opaque_id (pap_stream_id r)"
  using assms by (auto simp: is_prepared_def prepared_append_new_def split: if_splits)

text \<open>Sequences end at \<open>MAX_SAFE_INTEGER\<close>, so the head after the batch does not overflow.\<close>

lemma new_batch_head:
  assumes ch: "chained env r 0 prev evs" and ne: "evs \<noteq> []" and len: "length evs \<le> MAX_BATCH_EVENTS"
  shows "checked_add (pap_expected_next_sequence r) (of_nat (length evs)) \<noteq> None"
proof -
  obtain seq where seq: "checked_add (pap_expected_next_sequence r) (of_nat (length evs - 1)) = Some seq" "seq \<le> MAX_SAFE_INTEGER"
    using chained_last [OF ch ne] by auto
  have len': "length evs \<le> 10000" using len by (simp add: MAX_BATCH_EVENTS_def)
  have small: "unat (of_nat (length evs - 1) :: u64) = length evs - 1" "unat (of_nat (length evs) :: u64) = length evs"
    using len' by (simp_all add: unat_of_nat)
  have "unat seq = unat (pap_expected_next_sequence r) + (length evs - 1)" using checked_add_Some [OF seq(1)] small by simp
  moreover have "unat seq \<le> unat (MAX_SAFE_INTEGER :: u64)" using seq(2) by (simp add: word_le_nat_alt)
  ultimately have "unat (pap_expected_next_sequence r) + length evs < 2 ^ 64"
    using ne by (cases evs) (simp_all add: MAX_SAFE_INTEGER_def)
  then show ?thesis by (simp add: checked_add_None_iff small)
qed

text \<open>The facts of a checked request, by name.\<close>

lemma checked_facts:
  assumes "checked env at ids r store st digest evs"
  shows "distinct (map sealed_id (pap_evidence r))" "artifact_registrations_ok r"
    "map request_of_envelope evs = pap_events r"
    "chained env r 0 (last_hash_of st (stream_key env (pap_scope r) (pap_stream_id r))) evs"
    "inj_on er_evidence_id (set (request_refs r))"
    "\<And>e. e \<in> set (pap_evidence r) \<Longrightarrow> sev_reference e \<in> set (request_refs r)"
proof -
  note c = assms [unfolded checked_def]
  show ids: "distinct (map sealed_id (pap_evidence r))" and "artifact_registrations_ok r"
    using c prepared_append_facts by blast+
  show "map request_of_envelope evs = pap_events r"
    "chained env r 0 (last_hash_of st (stream_key env (pap_scope r) (pap_stream_id r))) evs"
    using c build_envelopes_facts by blast+
  obtain vc where vc: "validate_evidence_references (pap_events r) (prepared_evidence_map r) vc = Inr ()"
    using c unfolding validate_reference_availability_def by auto
  then show "inj_on er_evidence_id (set (request_refs r))" by (rule evidence_references_facts(2))
  fix e assume e: "e \<in> set (pap_evidence r)"
  obtain ref where ref: "ref \<in> set (request_refs r)" "er_evidence_id ref = sealed_id e"
    using prepared_append_facts(5) [of "ste_append env" r e] c e by fastforce
  have "om_get (prepared_evidence_map r) (er_evidence_id ref) = Some (sev_reference e)"
    using prepared_map_get [OF ids] e ref(2) by metis
  then show "sev_reference e \<in> set (request_refs r)" using evidence_references_facts(1) [OF vc ref(1)] ref(1) by simp
qed

definition published :: "store_env \<Rightarrow> prepared_append \<Rightarrow> (string, sealed_evidence) omap \<Rightarrow> (string, sealed_evidence) omap \<Rightarrow> bool" where
  "published env r blobs blobs' \<longleftrightarrow>
    (\<exists>staged. stage_evidence env (pap_evidence r) = Inr staged \<and> publish_staged staged blobs = (Inr (), blobs'))"

lemma published_facts:
  assumes "published env r (evs_blobs store) blobs'" and "checked env at ids r store st digest evs"
  shows "extends (evs_blobs store) blobs'" "\<And>e. e \<in> set (pap_evidence r) \<Longrightarrow> held env blobs' (pap_scope r) (sev_reference e) e"
  using assms publish_staged_ok(1) published_held unfolding published_def checked_def by blast+

lemma evidence_item:
  assumes "distinct (map sealed_id (pap_evidence r))"
  obtains item where "\<And>e. e \<in> set (pap_evidence r) \<Longrightarrow> item (sealed_id e) = e"
proof (rule that [of "\<lambda>i. the (map_of (map (\<lambda>e. (sealed_id e, e)) (pap_evidence r)) i)"])
  fix e assume "e \<in> set (pap_evidence r)"
  then have "map_of (map (\<lambda>e. (sealed_id e, e)) (pap_evidence r)) (sealed_id e) = Some e"
    by (intro map_of_is_SomeI) (use assms in \<open>simp_all add: comp_def\<close>)
  then show "the (map_of (map (\<lambda>e. (sealed_id e, e)) (pap_evidence r)) (sealed_id e)) = e" by simp
qed

lemma checked_declared:
  assumes ch: "checked env at ids r store st digest evs"
  obtains m where "batch_evidence_refs (new_batch env r digest evs) = Inr m"
    "verify_declared_evidence (new_batch env r digest evs) m = Inr ()"
    "\<And>e. e \<in> set (pap_evidence r) \<Longrightarrow> om_get m (sealed_id e) = Some (sev_reference e)"
proof -
  note f = checked_facts [OF ch]
  obtain m where m: "batch_evidence_refs (new_batch env r digest evs) = Inr m"
    "\<forall>ref\<in>set (request_refs r). om_get m (er_evidence_id ref) = Some ref"
    by (rule new_batch_refs [OF f(3), of env digest]) (use f(5) in \<open>simp_all add: consistent_def\<close>)
  have get: "om_get m (sealed_id e) = Some (sev_reference e)" if "e \<in> set (pap_evidence r)" for e
    using m(2) f(6) [OF that] by blast
  have "verify_declared_evidence (new_batch env r digest evs) m = Inr ()"
    using f(1) get os_of_list_distinct [of "sort (map sealed_id (pap_evidence r))"]
    by (simp add: verify_declared_evidence_def list_ex_iff om_contains_def)
  then show thesis using that m(1) get by blast
qed

text \<open>The context after the declared evidence: nothing changed but what is verified.\<close>

definition evidence_verified :: "store_env \<Rightarrow> (string, sealed_evidence) omap \<Rightarrow> prepared_append \<Rightarrow> loaded_state \<Rightarrow> verify_ctx \<Rightarrow> bool" where
  "evidence_verified env blobs r st c \<longleftrightarrow> vc_state c = st \<and> evidence_ok env blobs (vc_verified_evidence c) \<and>
    (\<forall>i\<in>sealed_id ` set (pap_evidence r). om_contains (vc_verified_evidence c) (object_key env (pap_scope r) i))"

lemma checked_digests:
  assumes "checked env at ids r store (vc_state c) digest evs" and "published env r (evs_blobs store) blobs'"
    and "evidence_ok env blobs' (vc_verified_evidence c)"
    and m: "\<And>e. e \<in> set (pap_evidence r) \<Longrightarrow> om_get m (sealed_id e) = Some (sev_reference e)"
    and item: "\<And>e. e \<in> set (pap_evidence r) \<Longrightarrow> item (sealed_id e) = e"
  shows "only_limits (foldE (declared_digest env blobs' (new_batch env r digest evs) m) (sort (map sealed_id (pap_evidence r)))
      ([], c)) (\<lambda>(ds, c1). ds = map (\<lambda>i. evidence_digest_of (ste_sha env) (item i)) (sort (map sealed_id (pap_evidence r))) \<and>
      evidence_verified env blobs' r (vc_state c) c1)"
proof -
  have it: "om_get m i = Some (sev_reference (item i)) \<and> sealed_id (item i) = i \<and>
      held env blobs' (pb_scope (new_batch env r digest evs)) (sev_reference (item i)) (item i)"
    if "i \<in> set (sort (map sealed_id (pap_evidence r)))" for i
    using that item m published_facts(2) [OF assms(2,1)] by auto
  show ?thesis
    by (rule only_limits_mono [OF declared_digests_held [where item = item and ds = "[]", OF it]])
      (use assms(3) in \<open>auto simp: digests_verified_def evidence_verified_def\<close>)
qed

lemma checked_events:
  assumes ch: "checked env at ids r store st digest evs" and pub: "published env r (evs_blobs store) blobs'"
    and l: "load_state env store = Inr st" and seals: "seals_track env [] (evs_sealed store)"
    and nc: "no_collision env store r" and ev: "evidence_verified env blobs' r st c"
  shows "only_limits (foldE (verify_event env blobs' (new_batch env r digest evs) (stream_key env (pap_scope r) (pap_stream_id r))
      (pap_expected_next_sequence r)) (enumerate 0 evs) (last_hash_of st (stream_key env (pap_scope r) (pap_stream_id r)), c))
    (\<lambda>(_, c2). ls_artifacts (vc_state c2) = ls_artifacts (vc_state c))"
proof -
  let ?key = "stream_key env (pap_scope r) (pap_stream_id r)"
  note f = checked_facts [OF ch] and c = ch [unfolded checked_def]
  have pre: "validate_prepared_append (ste_append env) r = Inr ()" using c by blast
  have av: "validate_reference_availability env (evs_blobs store) r st = Inr ()" using c by blast
  have st: "vc_state c = st" using ev by (simp add: evidence_verified_def)
  obtain cur cur' where cur: "active_matches ?key st cur" "foldE lineage_step (pap_events r) cur = Inr cur'"
    using successors_lineage c by blast
  show ?thesis
  proof (rule new_batch_events [OF f(4), where cur = cur])
    show "foldE lineage_step (map request_of_envelope evs) cur = Inr cur'" using cur(2) f(3) by simp
    show "active_matches ?key (vc_state c) cur" using cur(1) st by simp
    show "fe_validate_persisted_projection (re_fold (ste_replay env)) (gvp_version pl)"
      if e: "e \<in> set evs" "env_kind e = GraphVersionPublished pl" for e pl
    proof (rule prepared_append_facts(8) [OF pre, of "request_of_envelope e" pl, simplified])
      show "request_of_envelope e \<in> set (pap_events r)" unfolding f(3) [symmetric] using e(1) by simp
      show "nev_kind (request_of_envelope e) = GraphVersionPublished pl" using e(2) by (simp add: request_of_envelope_def)
    qed
    show "distinct (map env_idempotency_key evs)"
      using prepared_append_facts(1) [OF pre] request_lists(3) [OF f(3)] by simp
    show "evidence_ok env blobs' (vc_verified_evidence c)" using ev by (simp add: evidence_verified_def)
    show "\<forall>e\<in>set evs. \<not> os_member (ls_seen_idempotency (vc_state c)) (idempotency_identity ?key (env_idempotency_key e))"
    proof
      fix e assume "e \<in> set evs"
      then have "env_idempotency_key e \<in> set (map env_idempotency_key evs)" by simp
      then have "env_idempotency_key e \<in> set (map nev_idempotency_key (pap_events r))" unfolding request_lists(3) [OF f(3)] .
      then show "\<not> os_member (ls_seen_idempotency (vc_state c)) (idempotency_identity ?key (env_idempotency_key e))"
        unfolding st using c nc by (intro keys_unseen [OF _ seals l]) (auto simp: no_collision_def)
    qed
    show "\<forall>e\<in>set evs. \<forall>ref\<in>set (env_evidence_refs e). available env blobs' (pap_scope r) c ref"
    proof (intro ballI)
      fix e ref assume "e \<in> set evs" "ref \<in> set (env_evidence_refs e)"
      then have "ref \<in> set (concat (map env_evidence_refs evs))" by auto
      then have "ref \<in> set (request_refs r)" unfolding request_lists(1) [OF f(3)] .
      from request_refs_held [OF av published_facts(1) [OF pub ch] f(1) published_facts(2) [OF pub ch] this] ev
      show "available env blobs' (pap_scope r) c ref" by (auto simp: available_def evidence_verified_def)
    qed
    show "\<forall>e\<in>set evs. \<forall>ref\<in>set (env_artifact_refs e). artifact_known env (new_batch env r digest evs) (ls_artifacts (vc_state c)) e ref"
    proof (intro ballI)
      fix e ref assume e: "e \<in> set evs" "ref \<in> set (env_artifact_refs e)"
      then have "ref \<in> set (concat (map env_artifact_refs evs))" by auto
      then have "ref \<in> set (request_artifact_refs r)" unfolding request_lists(2) [OF f(3)] .
      then show "artifact_known env (new_batch env r digest evs) (ls_artifacts (vc_state c)) e ref"
        unfolding st using chained_in [OF f(4) e(1)] by (intro request_artifacts_known [OF av f(2)]) auto
    qed
  qed simp_all
qed

lemma checked_register:
  assumes "checked env at ids r store st digest evs" and "no_collision env store r" and "ls_artifacts (vc_state c) = ls_artifacts st"
  shows "only_limits (foldE (register_artifact env (new_batch env r digest evs)) (stored_artifacts r) c) (\<lambda>_. True)"
proof (rule register_artifacts_ready)
  show "inj_on (artifact_key env (pb_scope (new_batch env r digest evs))) (artifact_id_of ` set (stored_artifacts r))"
    using assms(2) by (simp add: no_collision_def)
  show "distinct (map artifact_id_of (stored_artifacts r))" by (rule artifact_table(1) [OF checked_facts(2) [OF assms(1)]])
  show "\<forall>a\<in>set (stored_artifacts r). om_get (ls_artifacts (vc_state c))
      (artifact_key env (pb_scope (new_batch env r digest evs)) (artifact_id_of a)) \<in> {None, Some a}"
    using assms(1,3) stored_artifact_committed by (simp add: checked_def)
qed

text \<open>The last part of a batch's verification, from the request digest on.\<close>

lemma checked_tail:
  assumes ch: "checked env at ids r store st digest evs" and pub: "published env r (evs_blobs store) blobs'"
    and l: "load_state env store = Inr st" and seals: "seals_track env [] (evs_sealed store)"
    and nc: "no_collision env store r" and prep: "is_prepared r" and ev: "evidence_verified env blobs' r st c"
    and item: "\<And>e. e \<in> set (pap_evidence r) \<Longrightarrow> item (sealed_id e) = e"
  shows "only_limits (bindE (verify_request_digest env (new_batch env r digest evs)
        (map (\<lambda>i. evidence_digest_of (ste_sha env) (item i)) (sort (map sealed_id (pap_evidence r))))) (\<lambda>_.
      bindE (foldE (verify_event env blobs' (new_batch env r digest evs) (stream_key env (pap_scope r) (pap_stream_id r)) (pap_expected_next_sequence r)) (enumerate 0 evs) (last_hash_of (vc_state c) (stream_key env (pap_scope r) (pap_stream_id r)), c)) (\<lambda>(previous, c).
      bindE (ok_or (checked_add (pap_expected_next_sequence r) (of_nat (length evs))) Integrity) (\<lambda>n.
      bindE (foldE (register_artifact env (new_batch env r digest evs)) (stored_artifacts r)
       (c\<lparr>vc_state := (vc_state c)\<lparr>ls_next_sequence := om_insert (stream_key env (pap_scope r) (pap_stream_id r)) n (ls_next_sequence (vc_state c)),
                                   ls_last_hash := om_insert (stream_key env (pap_scope r) (pap_stream_id r)) previous (ls_last_hash (vc_state c))\<rparr>\<rparr>)) (\<lambda>c.
      Inr (c\<lparr>vc_state := (vc_state c)\<lparr>ls_batches := ls_batches (vc_state c) @ [new_batch env r digest evs]\<rparr>\<rparr>)))))) (\<lambda>_. True)"
proof -
  note f = checked_facts [OF ch] and bounds = prepared_bounds [OF prep]
  have st: "vc_state c = st" using ev by (simp add: evidence_verified_def)
  have dg: "verify_request_digest env (new_batch env r digest evs)
      (map (\<lambda>i. evidence_digest_of (ste_sha env) (item i)) (sort (map sealed_id (pap_evidence r)))) = Inr ()"
    by (rule new_batch_digest [OF _ bounds(3) f(3,1) item]) (use ch in \<open>simp add: checked_def\<close>)
  have "length evs = length (pap_events r)" using f(3) by (metis length_map)
  then have "evs \<noteq> []" "length evs \<le> MAX_BATCH_EVENTS" using bounds(1,2) by auto
  from new_batch_head [OF f(4) this] obtain n where head: "checked_add (pap_expected_next_sequence r) (of_nat (length evs)) = Some n" by auto
  show ?thesis
    unfolding dg head bindE.simps ok_or.simps st
      only_limits_bind [of "foldE (verify_event env blobs' (new_batch env r digest evs) (stream_key env (pap_scope r) (pap_stream_id r)) (pap_expected_next_sequence r)) (enumerate 0 evs) (last_hash_of st (stream_key env (pap_scope r) (pap_stream_id r)), c)"]
    by (rule only_limits_mono [OF checked_events [OF ch pub l seals nc ev]], elim case_prodE, simp only: prod.case,
        subst only_limits_bind, rule only_limits_mono [OF checked_register [OF ch nc]])
      (simp_all add: st)
qed

lemma new_batch_verifies:
  assumes ch: "checked env at ids r store (vc_state c) digest evs" and pub: "published env r (evs_blobs store) blobs'"
    and l: "load_state env store = Inr (vc_state c)" and seals: "seals_track env [] (evs_sealed store)"
    and ok: "evidence_ok env blobs' (vc_verified_evidence c)"
    and prep: "is_prepared r" and reg: "schemas_registered env" and nc: "no_collision env store r"
  shows "only_limits (verify_batch env blobs' (new_batch env r digest evs) c) (\<lambda>_. True)"
proof -
  let ?b = "new_batch env r digest evs" and ?key = "stream_key env (pap_scope r) (pap_stream_id r)"
  note f = checked_facts [OF ch] and bounds = prepared_bounds [OF prep]
  obtain item where item: "\<And>e. e \<in> set (pap_evidence r) \<Longrightarrow> item (sealed_id e) = e" using evidence_item [OF f(1)] by blast
  obtain m where m: "batch_evidence_refs ?b = Inr m" "verify_declared_evidence ?b m = Inr ()"
    "\<And>e. e \<in> set (pap_evidence r) \<Longrightarrow> om_get m (sealed_id e) = Some (sev_reference e)" using checked_declared [OF ch] by blast
  have "evs \<noteq> []" using bounds(1) f(3) by auto
  then have shape: "verify_shape env ?b = Inr ()"
    using ch reg f(4) by (intro new_batch_shape) (auto simp: checked_def schemas_registered_def)
  have arts: "only_limits (verify_artifacts env ?b (vc_state c)) (\<lambda>_. True)"
    using ch by (intro new_batch_artifacts [OF f(2,3)]) (simp_all add: checked_def)
  have expected: "next_sequence_of (vc_state c) ?key = pap_expected_next_sequence r" using ch by (simp add: checked_def)
  show ?thesis
    unfolding verify_batch_def shape bindE.simps only_limits_bind [of "account_line ?b (vc_budget c)"]
  proof (rule only_limits_mono [OF only_limits_account_line])
    fix budget :: load_counts
    let ?c = "c\<lparr>vc_budget := budget\<rparr>"
    have ch': "checked env at ids r store (vc_state ?c) digest evs" and ok': "evidence_ok env blobs' (vc_verified_evidence ?c)"
      and l': "load_state env store = Inr (vc_state ?c)" using ch ok l by simp_all
    have arts': "only_limits (verify_artifacts env ?b (vc_state ?c)) (\<lambda>_. True)"
      and expected': "next_sequence_of (vc_state ?c) ?key = pap_expected_next_sequence r" using arts expected by simp_all
    note tail = checked_tail [OF ch' pub l' seals nc prep _ item]
    have digests: "only_limits (foldE (declared_digest env blobs' ?b m) (sort (map sealed_id (pap_evidence r))) ([], ?c))
      (\<lambda>(ds, c1). ds = map (\<lambda>i. evidence_digest_of (ste_sha env) (item i)) (sort (map sealed_id (pap_evidence r))) \<and>
        evidence_verified env blobs' r (vc_state ?c) c1)"
      by (rule checked_digests [OF ch' pub ok' m(3) item])
    show "only_limits (let c = ?c; key = stream_key env (pb_scope ?b) (pb_stream_id ?b);
        expected = next_sequence_of (vc_state c) key in
      if expected \<noteq> pb_expected_next_sequence ?b then Inl Integrity
      else bindE (verify_artifacts env ?b (vc_state c)) (\<lambda>_.
      bindE (batch_evidence_refs ?b) (\<lambda>refs.
      bindE (verify_declared_evidence ?b refs) (\<lambda>_.
      bindE (foldE (declared_digest env blobs' ?b refs) (pb_evidence_ids ?b) ([], c)) (\<lambda>(digests, c).
      bindE (verify_request_digest env ?b digests) (\<lambda>_.
      bindE (foldE (verify_event env blobs' ?b key expected) (enumerate 0 (pb_events ?b)) (last_hash_of (vc_state c) key, c)) (\<lambda>(previous, c).
      bindE (ok_or (checked_add expected (of_nat (length (pb_events ?b)))) Integrity) (\<lambda>n.
      bindE (foldE (register_artifact env ?b) (pb_artifacts ?b)
         (c\<lparr>vc_state := (vc_state c)\<lparr>ls_next_sequence := om_insert key n (ls_next_sequence (vc_state c)),
                                     ls_last_hash := om_insert key previous (ls_last_hash (vc_state c))\<rparr>\<rparr>)) (\<lambda>c.
        Inr (c\<lparr>vc_state := (vc_state c)\<lparr>ls_batches := ls_batches (vc_state c) @ [?b]\<rparr>\<rparr>)))))))))) (\<lambda>_. True)"
      unfolding Let_def new_batch_fields m(1,2) bindE.simps
      using expected'
      by (simp only: not_True_eq_False if_False simp_thms, subst only_limits_bind, intro only_limits_mono [OF arts'],
          subst only_limits_bind, intro only_limits_mono [OF digests])
        (elim case_prodE conjE, simp only: prod.case, rule tail, assumption+)
  qed
qed


section \<open>A written batch loads\<close>

lemma commit_batch_Inr:
  assumes "commit_batch env r b store = (Inr evs, store')"
  obtains blobs' where "published env r (evs_blobs store) blobs'" "evs = pb_events b"
    "store' = store\<lparr>evs_blobs := blobs', evs_active := evs_active store @ [b]\<rparr>"
    "segment_len env (evs_active store @ [b]) \<le> unat MAX_JOURNAL_BYTES"
  using assms unfolding commit_batch_def published_def
  by (auto simp: Let_def ensure_journal_room_def ensure_inclusive_limit_def usize_add_def segment_len_def
      split: sum.splits prod.splits if_splits)

lemma append_locked_Inr:
  assumes "append_locked env at ids r store = (Inr evs, store')"
  obtains (committed) store1 st where "rotated env store = Inr store1" "load_state env store1 = Inr st"
      "plan_append env at ids r store1 st = Inr (Committed evs)" "store' = store1"
  | (written) store1 st digest blobs' where "rotated env store = Inr store1" "load_state env store1 = Inr st"
      "checked env at ids r store1 st digest evs" "published env r (evs_blobs store1) blobs'"
      "store' = store1\<lparr>evs_blobs := blobs', evs_active := evs_active store1 @ [new_batch env r digest evs]\<rparr>"
      "segment_len env (evs_active store1 @ [new_batch env r digest evs]) \<le> unat MAX_JOURNAL_BYTES"
proof -
  from assms obtain store1 where r: "rotated env store = Inr store1" by (auto simp: append_locked_def split: sum.splits)
  have a: "(Inr evs, store') = (case bindE (load_state env store1) (plan_append env at ids r store1) of
      Inl e \<Rightarrow> (Inl e, store1) | Inr (Committed es) \<Rightarrow> (Inr es, store1) | Inr (NewBatch b) \<Rightarrow> commit_batch env r b store1)"
    using assms unfolding append_locked_def r by (simp del: bindE_eq_Inr)
  then obtain plan where p: "bindE (load_state env store1) (plan_append env at ids r store1) = Inr plan"
    by (cases "bindE (load_state env store1) (plan_append env at ids r store1)") simp_all
  then obtain st where st: "load_state env store1 = Inr st" "plan_append env at ids r store1 st = Inr plan"
    unfolding bindE_eq_Inr by blast
  show thesis
  proof (cases plan)
    case (Committed es)
    then show thesis using a committed [OF r st(1)] st(2) unfolding p by simp
  next
    case (NewBatch b)
    obtain digest es where b: "b = new_batch env r digest es" "checked env at ids r store1 st digest es"
      using plan_append_new st(2) NewBatch by blast
    have "commit_batch env r b store1 = (Inr evs, store')" using a NewBatch unfolding p by simp
    then show thesis by (rule commit_batch_Inr) (use written [OF r st(1)] b in simp)
  qed
qed

lemma visit_sealed_subset: "set (visit_sealed env key after start gs) \<subseteq> set (concat (map seg_batches gs))"
  by (induction gs arbitrary: start) (auto simp: Let_def split: if_splits)

lemma rotated_keeps:
  assumes "rotated env store = Inr store1"
  shows "history store1 = history store" "evs_blobs store1 = evs_blobs store"
  using assms by (auto elim!: rotated_Inr simp: history_def sealed_history_def)

lemma rotated_seals:
  assumes "rotated env store = Inr store1" and "seals_track env [] (evs_sealed store)" and "keys_distinct env (streams (history store))"
  shows "seals_track env [] (evs_sealed store1)"
  using assms(1)
proof (rule rotated_Inr)
  fix st assume l: "load_state env store = Inr st" and s: "store1 = store\<lparr>evs_sealed := evs_sealed store @
      [\<lparr>seg_batches = evs_active store, seg_state = st\<lparr>ls_batches := []\<rparr>\<rparr>], evs_active := []\<rparr>"
  show ?thesis using load_state_tracks [OF l assms(2,3)] assms(2)
    by (simp add: s seals_track_snoc history_def sealed_history_def)
qed (use assms in simp)

text \<open>Loading after a write: the batches before it verify as they did, and it verifies or meets a limit.\<close>

lemma written_loads:
  assumes l: "load_state env store = Inr st" and seals: "seals_track env [] (evs_sealed store)"
    and ch: "checked env at ids r store st digest evs" and pub: "published env r (evs_blobs store) blobs'"
    and len: "segment_len env (evs_active store @ [new_batch env r digest evs]) \<le> unat MAX_JOURNAL_BYTES"
    and prep: "is_prepared r" and reg: "schemas_registered env" and nc: "no_collision env store r"
  obtains c where "vc_state c = st"
    "load_ctx env (store\<lparr>evs_blobs := blobs', evs_active := evs_active store @ [new_batch env r digest evs]\<rparr>) =
       verify_batch env blobs' (new_batch env r digest evs) c"
    "only_limits (verify_batch env blobs' (new_batch env r digest evs) c) (\<lambda>_. True)"
proof -
  obtain c where c: "foldE (verify_batch env (evs_blobs store)) (evs_active store) (seeded_ctx store) = Inr c" "st = vc_state c"
    using l by (auto simp: load_state_Inr)
  have ext: "extends (evs_blobs store) blobs'" by (rule published_facts(1) [OF pub ch])
  have c': "foldE (verify_batch env blobs') (evs_active store) (seeded_ctx store) = Inr c"
    by (rule foldE_sub [OF verify_batch_mono [OF ext] c(1)])
  have ok: "evidence_ok env blobs' (vc_verified_evidence c)" by (rule load_evidence_ok [OF c' seeded_evidence_ok])
  have seed: "seeded_ctx (store\<lparr>evs_blobs := blobs', evs_active := x\<rparr>) = seeded_ctx store" for x by (simp add: seeded_ctx_def)
  show thesis
  proof (rule that [of c])
    show "vc_state c = st" using c(2) by simp
    show "load_ctx env (store\<lparr>evs_blobs := blobs', evs_active := evs_active store @ [new_batch env r digest evs]\<rparr>) =
       verify_batch env blobs' (new_batch env r digest evs) c"
      using len c' by (simp add: load_ctx_def seed bindE_foldE_snoc ensure_inclusive_limit_def)
    show "only_limits (verify_batch env blobs' (new_batch env r digest evs) c) (\<lambda>_. True)"
      using ch pub l seals ok prep reg nc unfolding c(2) by (rule new_batch_verifies)
  qed
qed

text \<open>C1: an append never writes what a load refuses. When \<open>append_locked\<close> succeeds on a store built by appends,
  the events it returns are those of a batch of that stream in the history, which holds nothing else new, and
  the next load succeeds or reports a limit: never a corrupt batch, a broken hash or any other integrity failure.
  The hypotheses: SHA-256 collides on none of the names involved, and the batch schema is registered in the binary.\<close>

theorem append_stays_loadable:
  assumes "store_reachable env store" and "is_prepared r" and "schemas_registered env" and "no_collision env store r"
    and "append_locked env at ids r store = (Inr evs, store')"
  shows "(\<exists>b. own_batch (pap_scope r) (pap_stream_id r) b \<and> pb_events b = evs \<and>
      (history store' = history store \<and> b \<in> set (history store) \<or> history store' = history store @ [b])) \<and>
    (load_state env store' = Inl RepositoryLimitExceeded \<or> (\<exists>st. load_state env store' = Inr st))"
proof -
  have kd: "keys_distinct env (streams (history store))"
    using assms(4) by (auto simp: no_collision_def elim: keys_distinct_mono)
  note seals = reachable_seals [OF assms(1) kd]
  from assms(5) show ?thesis
  proof (cases rule: append_locked_Inr)
    case (committed store1 st)
    have "ls_batches st = evs_active store1"
      using load_state_tracks(2) [OF committed(2) rotated_seals [OF committed(1) seals kd]] kd rotated_keeps(1) [OF committed(1)] by simp
    then have sub: "set (visit_history env store1 st key 0) \<subseteq> set (history store1)" for key
      using visit_sealed_subset [of env key 0 1 "evs_sealed store1"] by (auto simp: visit_history_def history_def sealed_history_def)
    obtain b digest where b: "batch_holding_keys env store1 st (pap_scope r) (pap_stream_id r) (map nev_idempotency_key (pap_events r)) = Some b"
      "evs = pb_events b" by (rule plan_append_committed [OF committed(3)])
    note h = batch_holding_keys_Some [OF b(1)]
    have "b \<in> set (history store1)" using h(1) sub by blast
    then show ?thesis using h(2) b(2) committed(2) rotated_keeps(1) [OF committed(1)] unfolding committed(4) by auto
  next
    case (written store1 st digest blobs')
    note k = rotated_keeps [OF written(1)]
    have nc: "no_collision env store1 r" using assms(4) k(1) by (simp add: no_collision_def)
    obtain c where "load_ctx env store' = verify_batch env blobs' (new_batch env r digest evs) c"
      "only_limits (verify_batch env blobs' (new_batch env r digest evs) c) (\<lambda>_. True)"
      using written_loads [OF written(2) rotated_seals [OF written(1) seals kd] written(3,4,6) assms(2,3) nc] written(5) by metis
    then have "load_state env store' = Inl RepositoryLimitExceeded \<or> (\<exists>st. load_state env store' = Inr st)"
      by (cases "verify_batch env blobs' (new_batch env r digest evs) c") (simp_all add: load_state_def)
    moreover have "history store' = history store @ [new_batch env r digest evs]"
      using k(1) by (simp add: written(5) history_def sealed_history_def)
    ultimately show ?thesis by (intro conjI exI [of _ "new_batch env r digest evs"]) (simp_all add: own_batch_def)
  qed
qed

end
