(* ===== verification/Store_Retry.thy ===== *)
theory Store_Retry
  imports Store_Commit
begin

text \<open>
  Appending is exactly-once per idempotency key: a committed request sent again returns the committed events and
  writes nothing, a request that reuses a committed key for something else is a conflict, and a
  refused request leaves the history as it was.
\<close>

section \<open>Sending a request again\<close>

text \<open>The history batch that holds a key of the request, whichever segment it is in.\<close>

definition holds_keys :: "repository_scope \<Rightarrow> string \<Rightarrow> string list \<Rightarrow> physical_batch \<Rightarrow> bool" where
  "holds_keys scope stream keys b \<longleftrightarrow> own_batch scope stream b \<and> list_ex (\<lambda>ev. env_idempotency_key ev \<in> set keys) (pb_events b)"

lemma find_filter_eq: "filter P xs = filter P ys \<Longrightarrow> List.find P xs = List.find P ys"
proof -
  have "List.find P zs = (case filter P zs of [] \<Rightarrow> None | z # _ \<Rightarrow> Some z)" for zs by (induction zs) auto
  then show "filter P xs = filter P ys \<Longrightarrow> List.find P xs = List.find P ys" by metis
qed

lemma visit_sealed_holds:
  assumes "seals_track env pre gs" and "keys_distinct env (insert (scope, stream) (streams (pre @ concat (map seg_batches gs))))"
    and "start = of_nat (Suc (length (stream_of scope stream pre)))" and "Suc (length (stream_of scope stream pre)) < 2 ^ 64"
  shows "filter (holds_keys scope stream keys) (visit_sealed env (stream_key env scope stream) 0 start gs) =
    filter (holds_keys scope stream keys) (concat (map seg_batches gs))"
  using assms
proof (induction gs arbitrary: pre start)
  case (Cons g gs)
  let ?P = "stream_of scope stream pre" and ?E = "stream_of scope stream (seg_batches g)" and ?key = "stream_key env scope stream"
  have tr: "tracks env (pre @ seg_batches g) (seg_state g)" and rest: "seals_track env (pre @ seg_batches g) gs"
    using Cons.prems(1) by auto
  have "keys_distinct env (insert (scope, stream) (streams (pre @ seg_batches g)))"
    by (rule keys_distinct_mono [OF Cons.prems(2)]) (auto simp: streams_def)
  note t = tracksD [OF tr this]
  let ?stop = "next_sequence_of (seg_state g) ?key"
  have stop: "unat ?stop = Suc (length ?P + length ?E)" unfolding t(1) using t(2) by (simp add: unat_of_nat del: of_nat_Suc)
  have start: "unat start = Suc (length ?P)" unfolding Cons.prems(3) using Cons.prems(4) by (simp add: unat_of_nat del: of_nat_Suc)
  have pos: "unat (env_sequence ev) > 0" if "ev \<in> set ?E" for ev
  proof -
    have "ev \<in> set (stream_of scope stream (pre @ seg_batches g))" using that by simp
    then obtain i where "i < length (stream_of scope stream (pre @ seg_batches g))" "ev = stream_of scope stream (pre @ seg_batches g) ! i"
      by (metis in_set_conv_nth)
    then show ?thesis using sound_journal_sequence [OF t(4,2)] by simp
  qed
  have keep: "\<not> holds_keys scope stream keys b" if b: "b \<in> set (seg_batches g)" and "pb_events b = [] \<or> ?stop \<le> start \<or> ?stop \<le> saturating_add 0 1" for b
  proof -
    have "length ?E = 0 \<or> pb_events b = []"
      using that(2) stop start by (auto simp: word_le_nat_alt unat_saturating_add)
    then show ?thesis using b by (auto simp: holds_keys_def stream_of_def list_ex_iff)
  qed
  have last: "(if pb_events b = [] then 0 else env_sequence (last (pb_events b))) > 0"
    if "b \<in> set (seg_batches g)" "own_batch scope stream b" "pb_events b \<noteq> []" for b
  proof -
    have "last (pb_events b) \<in> set ?E" using that by (auto simp: stream_of_def)
    then show ?thesis using pos that(3) by (simp add: word_less_nat_alt)
  qed
  have seg: "filter (holds_keys scope stream keys) (if ?stop \<le> start \<or> ?stop \<le> saturating_add 0 1 then []
      else filter (\<lambda>b. stream_key env (pb_scope b) (pb_stream_id b) = ?key \<and>
             (if pb_events b = [] then 0 else env_sequence (last (pb_events b))) > 0) (seg_batches g)) =
      filter (holds_keys scope stream keys) (seg_batches g)"
  proof (cases "?stop \<le> start \<or> ?stop \<le> saturating_add 0 1")
    case True
    then show ?thesis using keep by (auto simp: filter_empty_conv)
  next
    case False
    have "(stream_key env (pb_scope b) (pb_stream_id b) = ?key \<and>
        (if pb_events b = [] then 0 else env_sequence (last (pb_events b))) > 0) \<and> holds_keys scope stream keys b \<longleftrightarrow>
        holds_keys scope stream keys b"
      if "b \<in> set (seg_batches g)" for b
      using last [OF that] by (cases "pb_events b = []") (auto simp: holds_keys_def own_batch_def)
    then show ?thesis unfolding if_not_P [OF False] filter_filter by (intro filter_cong [OF refl])
  qed
  have "filter (holds_keys scope stream keys) (visit_sealed env ?key 0 ?stop gs) = filter (holds_keys scope stream keys) (concat (map seg_batches gs))"
    by (rule Cons.IH [OF rest]) (use Cons.prems(2) t(1,2) in simp_all)
  then show ?case using seg by (simp add: Let_def)
qed simp

lemma batch_holding_keys_history:
  assumes seals: "seals_track env [] (evs_sealed store)" and l: "load_state env store = Inr st"
    and kd: "keys_distinct env (insert (scope, stream) (streams (history store)))"
    and seen: "b \<in> set (history store)" "holds_keys scope stream keys b"
  shows "batch_holding_keys env store st scope stream keys = List.find (holds_keys scope stream keys) (history store)"
proof -
  have kd': "keys_distinct env (streams (history store))" by (rule keys_distinct_mono [OF kd]) auto
  note ls = load_state_tracks [OF l seals kd']
  have sub: "keys_distinct env (insert (scope, stream) (streams (sealed_history store)))"
    by (rule keys_distinct_mono [OF kd]) (auto simp: history_def)
  have "filter (holds_keys scope stream keys) (visit_history env store st (stream_key env scope stream) 0) =
      filter (holds_keys scope stream keys) (history store)"
    using visit_sealed_holds [OF seals, of scope stream 1 keys] sub by (simp add: visit_history_def history_def ls(2) sealed_history_def)
  then have find: "List.find (holds_keys scope stream keys) (visit_history env store st (stream_key env scope stream) 0) =
      List.find (holds_keys scope stream keys) (history store)" by (rule find_filter_eq)
  obtain ev where ev: "ev \<in> set (pb_events b)" "env_idempotency_key ev \<in> set keys" "pb_scope b = scope" "pb_stream_id b = stream"
    using seen(2) by (auto simp: holds_keys_def list_ex_iff own_batch_def)
  have "os_member (ls_seen_idempotency st) (idempotency_identity (stream_key env scope stream) (env_idempotency_key ev))"
    unfolding tracks_seen [OF ls(1)] using seen(1) ev by metis
  then have "list_ex (\<lambda>i. os_member (ls_seen_idempotency st) (idempotency_identity (stream_key env scope stream) i)) keys"
    using ev(2) by (auto simp: list_ex_iff)
  then show ?thesis using find by (simp add: batch_holding_keys_def Let_def holds_keys_def [abs_def])
qed

text \<open>What the tables of a state keep along a walk.\<close>

definition tables_grow :: "loaded_state \<Rightarrow> loaded_state \<Rightarrow> bool" where
  "tables_grow s t \<longleftrightarrow> extends (ls_artifacts s) (ls_artifacts t) \<and>
    (\<forall>p. os_member (ls_reachable_evidence s) p \<longrightarrow> os_member (ls_reachable_evidence t) p)"

lemma tables_grow_refl [simp]: "tables_grow s s"
  by (simp add: tables_grow_def extends_def)

lemma tables_grow_trans: "tables_grow s t \<Longrightarrow> tables_grow t u \<Longrightarrow> tables_grow s u"
  by (simp add: tables_grow_def extends_def)

lemma register_artifact_Inr:
  assumes "register_artifact env b a c = Inr c'"
  shows "tables_grow (vc_state c) (vc_state c')"
    "om_get (ls_artifacts (vc_state c')) (artifact_key env (pb_scope b) (artifact_id_of a)) = Some a"
proof -
  obtain c1 where c1: "count_artifact (artifact_key env (pb_scope b) (artifact_id_of a)) c = Inr c1"
    using assms by (auto simp: register_artifact_def Let_def)
  note st = count_artifact_state [OF c1]
  show "tables_grow (vc_state c) (vc_state c')"
    "om_get (ls_artifacts (vc_state c')) (artifact_key env (pb_scope b) (artifact_id_of a)) = Some a"
    using assms st by (auto simp: register_artifact_def Let_def c1 tables_grow_def extends_def split: option.splits if_splits)
qed

lemma tables_grow_fold:
  assumes "\<And>x c c'. f x c = Inr c' \<Longrightarrow> tables_grow (vc_state (g c)) (vc_state (g c'))" and "foldE f xs c = Inr c'"
  shows "tables_grow (vc_state (g c)) (vc_state (g c'))"
  by (rule foldE_frame [where R = "\<lambda>c c'. tables_grow (vc_state (g c)) (vc_state (g c'))", OF _ _ _ assms(2)])
    (auto intro: assms(1) tables_grow_trans)

lemma register_artifacts_Inr:
  assumes "foldE (register_artifact env b) as c = Inr c'"
  shows "\<forall>a\<in>set as. om_get (ls_artifacts (vc_state c')) (artifact_key env (pb_scope b) (artifact_id_of a)) = Some a"
  using assms
proof (induction as arbitrary: c)
  case (Cons a as)
  then obtain c1 where c1: "register_artifact env b a c = Inr c1" "foldE (register_artifact env b) as c1 = Inr c'" by auto
  have "tables_grow (vc_state c1) (vc_state c')"
    using tables_grow_fold [where g = id, OF _ c1(2)] register_artifact_Inr(1) by auto
  then show ?case using Cons.IH [OF c1(2)] register_artifact_Inr(2) [OF c1(1)] by (simp add: tables_grow_def extends_def)
qed simp

lemma verify_event_grows:
  assumes "verify_event env blobs b key expected oev acc = Inr acc'"
  shows "tables_grow (vc_state (snd acc)) (vc_state (snd acc'))"
proof -
  obtain n ev where oev: "oev = (n, ev)" by (cases oev)
  obtain prev c where acc: "acc = (prev, c)" by (cases acc)
  from assms obtain st c1 where st: "verify_publication env key ev (vc_state c) = Inr st"
    and c1: "foldE (verify_evidence_reference env blobs (env_scope ev)) (env_evidence_refs ev) (c\<lparr>vc_state := st\<lparr>ls_seen_idempotency :=
        os_insert (idempotency_identity key (env_idempotency_key ev)) (ls_seen_idempotency st)\<rparr>\<rparr>) = Inr c1"
    and c': "foldE (verify_artifact_reference env b ev) (env_artifact_refs ev) c1 = Inr (snd acc')"
    unfolding verify_event_def oev acc Let_def by (auto split: if_splits)
  have "tables_grow (vc_state c) st"
    using st by (cases "env_kind ev") (auto simp: verify_publication_def tables_grow_def extends_def Let_def split: if_splits)
  moreover have "tables_grow (vc_state d) (vc_state d')" if "verify_evidence_reference env blobs (env_scope ev) ref d = Inr d'" for ref d d'
    by (rule verify_evidence_reference_Inr [OF that]) (simp add: tables_grow_def extends_def)
  then have "tables_grow st (vc_state c1)"
    using tables_grow_fold [where g = id, OF _ c1] by (simp add: tables_grow_def)
  moreover have "tables_grow (vc_state c1) (vc_state (snd acc'))"
    using tables_grow_fold [where g = id, OF _ c'] count_artifact_state
    by (fastforce simp: verify_artifact_reference_def Let_def split: if_splits)
  ultimately show ?thesis using tables_grow_trans unfolding acc snd_conv by blast
qed

lemma verify_batch_tables:
  assumes "verify_batch env blobs b c = Inr c'"
  shows "tables_grow (vc_state c) (vc_state c')"
    "\<forall>a\<in>set (pb_artifacts b). om_get (ls_artifacts (vc_state c')) (artifact_key env (pb_scope b) (artifact_id_of a)) = Some a"
proof -
  let ?k = "stream_key env (pb_scope b) (pb_stream_id b)" and ?e = "pb_expected_next_sequence b"
  obtain budget refs digests c1 previous c2 n c3 where v:
    "foldE (declared_digest env blobs b refs) (pb_evidence_ids b) ([], c\<lparr>vc_budget := budget\<rparr>) = Inr (digests, c1)"
    "foldE (verify_event env blobs b ?k ?e) (enumerate 0 (pb_events b)) (last_hash_of (vc_state c1) ?k, c1) = Inr (previous, c2)"
    "foldE (register_artifact env b) (pb_artifacts b) (c2\<lparr>vc_state := (vc_state c2)\<lparr>ls_next_sequence := om_insert ?k n (ls_next_sequence (vc_state c2)),
          ls_last_hash := om_insert ?k previous (ls_last_hash (vc_state c2))\<rparr>\<rparr>) = Inr c3"
    "c' = c3\<lparr>vc_state := (vc_state c3)\<lparr>ls_batches := ls_batches (vc_state c3) @ [b]\<rparr>\<rparr>"
    by (rule verify_batch_Inr [OF assms])
  have "vc_state c1 = vc_state c" using declared_digests_state [OF v(1)] by simp
  moreover have "tables_grow (vc_state c1) (vc_state c2)"
    using tables_grow_fold [where g = snd, OF _ v(2)] verify_event_grows by auto
  moreover have "tables_grow (vc_state c2) (vc_state c3)"
    using tables_grow_fold [where g = id, OF _ v(3)] register_artifact_Inr(1) by (auto simp: tables_grow_def)
  ultimately have "tables_grow (vc_state c) (vc_state c3)" using tables_grow_trans by metis
  then show "tables_grow (vc_state c) (vc_state c')" by (simp add: v(4) tables_grow_def)
  show "\<forall>a\<in>set (pb_artifacts b). om_get (ls_artifacts (vc_state c')) (artifact_key env (pb_scope b) (artifact_id_of a)) = Some a"
    using register_artifacts_Inr [OF v(3)] by (simp add: v(4))
qed

lemma evidence_references_mono:
  assumes "validate_evidence_references evs prepared vc = Inr ()" and "\<And>ref. vc ref = Inr True \<Longrightarrow> vc' ref = Inr True"
  shows "validate_evidence_references evs prepared vc' = Inr ()"
proof -
  obtain m where run: "foldE (evidence_reference_step prepared vc) (concat (map nev_evidence_refs evs)) om_empty = Inr m"
    using assms(1) by (auto simp: validate_evidence_references_def)
  have step: "evidence_reference_step prepared vc' ref m = Inr m'" if "evidence_reference_step prepared vc ref m = Inr m'" for ref m m'
    using that assms(2) by (auto simp: evidence_reference_step_def split: option.splits if_splits)
  have "foldE (evidence_reference_step prepared vc') (concat (map nev_evidence_refs evs)) om_empty = Inr m"
    by (rule foldE_sub [OF step run])
  then show ?thesis by (simp add: validate_evidence_references_def)
qed

lemma availability_mono:
  assumes "validate_reference_availability env blobs r st = Inr ()" and "tables_grow st st'" and "extends blobs blobs'"
  shows "validate_reference_availability env blobs' r st' = Inr ()"
proof -
  let ?vc = "\<lambda>blobs st ref. let path = blob_name env (pap_scope r) (er_evidence_id ref) in
        if os_member (ls_reachable_evidence st) path then verify_blob env blobs path (pap_scope r) ref else Inr False"
  let ?bad = "\<lambda>st ref. \<not> (case om_get (om_collect (map (\<lambda>a. (ar_artifact_id (arg_reference a), a)) (pap_artifacts r))) (ar_artifact_id ref) of
            None \<Rightarrow> False | Some a \<Rightarrow> arg_reference a = ref) \<and>
        \<not> (case om_get (ls_artifacts st) (artifact_key env (pap_scope r) (ar_artifact_id ref)) of None \<Rightarrow> False
           | Some a \<Rightarrow> sar_producer_stream_id a = pap_stream_id r \<and> sar_reference a = ref)"
  have v: "validate_evidence_references (pap_events r) (prepared_evidence_map r) (?vc blobs st) = Inr ()"
    and a: "\<not> list_ex (?bad st) (request_artifact_refs r)"
    using assms(1) unfolding validate_reference_availability_def bindE_eq_Inr Let_def by (simp_all split: if_splits)
  have "validate_evidence_references (pap_events r) (prepared_evidence_map r) (?vc blobs' st') = Inr ()"
  proof (rule evidence_references_mono [OF v])
    fix ref assume "?vc blobs st ref = Inr True"
    then show "?vc blobs' st' ref = Inr True"
      using assms(2,3) by (auto simp: Let_def tables_grow_def extends_def verify_blob_def split: if_splits option.splits)
  qed
  moreover have "?bad st ref" if "?bad st' ref" for ref
    using that assms(2) by (auto simp: tables_grow_def extends_def split: option.splits)
  then have "\<not> list_ex (?bad st') (request_artifact_refs r)" using a by (auto simp: list_ex_iff)
  ultimately show ?thesis unfolding validate_reference_availability_def Let_def by simp
qed

lemma artifact_relations_mono:
  assumes "validate_artifact_relations r (committed_artifacts env r st) = Inr ()" and "tables_grow st st'"
    and own: "\<forall>a\<in>set (stored_artifacts r). om_get (ls_artifacts st') (artifact_key env (pap_scope r) (artifact_id_of a)) \<in> {None, Some a}"
  shows "validate_artifact_relations r (committed_artifacts env r st') = Inr ()"
proof -
  let ?prep = "om_collect (map (\<lambda>a. (ar_artifact_id (arg_reference a), a)) (pap_artifacts r))"
  let ?bad = "\<lambda>st ref. \<not> om_contains ?prep (ar_artifact_id ref) \<and>
      \<not> (case om_get (committed_artifacts env r st) (ar_artifact_id ref) of None \<Rightarrow> False
         | Some existing \<Rightarrow> sar_producer_stream_id existing = pap_stream_id r \<and> sar_reference existing = ref)"
  have "\<not> list_ex (\<lambda>sa. case om_get (committed_artifacts env r st') (artifact_id_of sa) of None \<Rightarrow> False
      | Some existing \<Rightarrow> existing \<noteq> sa) (stored_artifacts r)"
  proof -
    have "om_get (committed_artifacts env r st') (artifact_id_of a) \<in> {None, Some a}" if a: "a \<in> set (stored_artifacts r)" for a
    proof -
      have "artifact_id_of a \<in> set (map (\<lambda>a. ar_artifact_id (arg_reference a)) (pap_artifacts r) @ map ar_artifact_id (request_artifact_refs r))"
        using a by (auto simp: stored_artifacts_def)
      then show ?thesis using own a by (simp add: committed_artifacts_get)
    qed
    then show ?thesis by (fastforce simp: list_ex_iff split: option.splits)
  qed
  moreover have "\<not> list_ex (?bad st') (request_artifact_refs r)"
  proof -
    have old: "\<not> list_ex (?bad st) (request_artifact_refs r)"
      using assms(1) unfolding validate_artifact_relations_def Let_def by (simp split: if_splits)
    have "?bad st ref" if "?bad st' ref" and ref: "ref \<in> set (request_artifact_refs r)" for ref
    proof -
      have "ar_artifact_id ref \<in> set (map (\<lambda>a. ar_artifact_id (arg_reference a)) (pap_artifacts r) @ map ar_artifact_id (request_artifact_refs r))"
        using imageI [OF ref, of ar_artifact_id] by simp
      note g = committed_artifacts_get [OF this, of env]
      show ?thesis using that(1) assms(2) unfolding g by (auto simp: tables_grow_def extends_def split: option.splits)
    qed
    then show ?thesis using old unfolding list_ex_iff by blast
  qed
  ultimately show ?thesis unfolding validate_artifact_relations_def Let_def by simp
qed

text \<open>A request whose keys one committed batch holds, with its digest, is answered from that batch.\<close>

lemma replan:
  assumes "validate_request_preflight env r st = Inr ()" and "validate_reference_availability env blobs r st = Inr ()"
    and "request_digest (ste_append env) r = Inr (pb_request_digest b)"
    and "tables_grow st st'" and "extends blobs (evs_blobs store')"
    and "\<forall>a\<in>set (stored_artifacts r). om_get (ls_artifacts st') (artifact_key env (pap_scope r) (artifact_id_of a)) \<in> {None, Some a}"
    and "batch_holding_keys env store' st' (pap_scope r) (pap_stream_id r) (map nev_idempotency_key (pap_events r)) = Some b"
    and "set (map env_idempotency_key (pb_events b)) = set (map nev_idempotency_key (pap_events r))"
  shows "plan_append env at ids r store' st' = Inr (Committed (pb_events b))"
proof -
  have "validate_request_preflight env r st' = Inr ()"
    using assms(1) artifact_relations_mono [OF _ assms(4,6)] by (auto simp: validate_request_preflight_def)
  moreover have "validate_reference_availability env (evs_blobs store') r st' = Inr ()" by (rule availability_mono [OF assms(2,4,5)])
  ultimately show ?thesis using assms(3,7,8) by (simp add: plan_append_def Let_def del: bindE_eq_Inr)
qed

text \<open>Sealing a segment changes neither what is known of artifacts and evidence nor whether the store loads.\<close>

lemma rotated_loads:
  assumes "rotated env store = Inr store'" and "load_state env store = Inr st"
  obtains st' where "load_state env store' = Inr st'" "ls_artifacts st' = ls_artifacts st"
    "ls_reachable_evidence st' = ls_reachable_evidence st"
  using assms(1)
proof (rule rotated_Inr)
  assume "store' = store" then show thesis using that assms(2) by blast
next
  fix st1 assume s: "load_state env store = Inr st1" "store' = store\<lparr>evs_sealed := evs_sealed store @
      [\<lparr>seg_batches = evs_active store, seg_state = st1\<lparr>ls_batches := []\<rparr>\<rparr>], evs_active := []\<rparr>"
  have "st1 = st" using s(1) assms(2) by simp
  then have "load_state env store' = Inr (st\<lparr>ls_batches := []\<rparr>)"
    by (simp add: s(2) load_state_def load_ctx_def ensure_inclusive_limit_def segment_len_def seeded_ctx_def)
  then show thesis using that [of "st\<lparr>ls_batches := []\<rparr>"] by simp
qed

lemma rotated_only_limits: "load_state env store = Inr st \<Longrightarrow> only_limits (rotated env store) (\<lambda>_. True)"
  by (simp add: rotated_def rotate_segment_def only_limits_bind ensure_inclusive_limit_def)

lemma append_committed_again:
  assumes l: "load_state env store = Inr st"
    and plan: "\<And>store' st'. rotated env store = Inr store' \<Longrightarrow> load_state env store' = Inr st' \<Longrightarrow>
      ls_artifacts st' = ls_artifacts st \<Longrightarrow> ls_reachable_evidence st' = ls_reachable_evidence st \<Longrightarrow>
      plan_append env at ids r store' st' = Inr (Committed evs)"
  shows "fst (append_locked env at ids r store) \<in> {Inr evs, Inl RepositoryLimitExceeded} \<and>
    history (snd (append_locked env at ids r store)) = history store"
proof (cases "rotated env store")
  case (Inl e)
  then show ?thesis using rotated_only_limits [OF l] by (simp add: append_locked_def)
next
  case (Inr store')
  obtain st' where st': "load_state env store' = Inr st'" "ls_artifacts st' = ls_artifacts st"
    "ls_reachable_evidence st' = ls_reachable_evidence st" using rotated_loads [OF Inr l] by blast
  then show ?thesis using plan [OF Inr st'] rotated_keeps(1) [OF Inr] Inr by (simp add: append_locked_def)
qed

lemma find_only: "(\<And>x. x \<in> set xs \<Longrightarrow> \<not> P x) \<Longrightarrow> P y \<Longrightarrow> List.find P (xs @ [y]) = Some y"
  by (induction xs) auto

lemma holding_after_rotation:
  assumes "rotated env store = Inr store'" and "load_state env store' = Inr st'"
    and "seals_track env [] (evs_sealed store)" and "keys_distinct env (insert (scope, stream) (streams (history store)))"
    and "List.find (holds_keys scope stream keys) (history store) = Some b"
  shows "batch_holding_keys env store' st' scope stream keys = Some b"
proof -
  have kd: "keys_distinct env (streams (history store))" by (rule keys_distinct_mono [OF assms(4)]) auto
  have b: "b \<in> set (history store')" "holds_keys scope stream keys b"
    using assms(5) rotated_keeps(1) [OF assms(1)] by (auto simp: find_Some_iff)
  show ?thesis
    using batch_holding_keys_history [OF rotated_seals [OF assms(1,3) kd] assms(2) _ b] assms(4,5) rotated_keeps(1) [OF assms(1)] by simp
qed

lemma visit_history_subset:
  assumes "load_state env store = Inr st" and "seals_track env [] (evs_sealed store)" and "keys_distinct env (streams (history store))"
  shows "set (visit_history env store st key after) \<subseteq> set (history store)"
  using visit_sealed_subset [of env key after 1 "evs_sealed store"] load_state_tracks(2) [OF assms]
  by (auto simp: visit_history_def history_def sealed_history_def)

lemma holding_Some_find:
  assumes "load_state env store = Inr st" and "seals_track env [] (evs_sealed store)"
    and kd: "keys_distinct env (insert (scope, stream) (streams (history store)))"
    and h: "batch_holding_keys env store st scope stream keys = Some b"
  shows "List.find (holds_keys scope stream keys) (history store) = Some b"
proof -
  have kd': "keys_distinct env (streams (history store))" by (rule keys_distinct_mono [OF kd]) auto
  have "b \<in> set (history store)" using batch_holding_keys_Some(1) [OF h] visit_history_subset [OF assms(1,2) kd'] by blast
  moreover have "holds_keys scope stream keys b"
    using h by (auto simp: batch_holding_keys_def Let_def find_Some_iff holds_keys_def split: if_splits)
  ultimately show ?thesis using batch_holding_keys_history [OF assms(2,1) kd] h by simp
qed

lemma holding_None_find:
  assumes "load_state env store = Inr st" and "seals_track env [] (evs_sealed store)"
    and kd: "keys_distinct env (insert (scope, stream) (streams (history store)))"
    and h: "batch_holding_keys env store st scope stream keys = None" and b: "b \<in> set (history store)"
  shows "\<not> holds_keys scope stream keys b"
  using batch_holding_keys_history [OF assms(2,1) kd b] h b by (auto simp: find_None_iff)

text \<open>C2: appending is exactly once. A request the store has answered with events, sent again unchanged (at any
  later time, with any identifiers), is answered with the same events or refused on a limit, and nothing is
  added to the history.\<close>

theorem append_exactly_once:
  assumes "store_reachable env store" and "is_prepared r" and "schemas_registered env" and "no_collision env store r"
    and first: "append_locked env at ids r store = (Inr evs, store1)"
    and again: "append_locked env at' ids' r store1 = (res, store2)"
  shows "res \<in> {Inr evs, Inl RepositoryLimitExceeded} \<and> history store2 = history store1"
proof -
  let ?keys = "map nev_idempotency_key (pap_events r)"
  have kdr: "keys_distinct env (insert (pap_scope r, pap_stream_id r) (streams (history store)))"
    using assms(4) by (simp add: no_collision_def)
  then have kd: "keys_distinct env (streams (history store))" by (rule keys_distinct_mono) auto
  note seals = reachable_seals [OF assms(1) kd]
  have goal: "fst (append_locked env at' ids' r store1) \<in> {Inr evs, Inl RepositoryLimitExceeded} \<and>
      history (snd (append_locked env at' ids' r store1)) = history store1"
    using first
  proof (cases rule: append_locked_Inr)
    case (committed store0 st)
    note k = rotated_keeps [OF committed(1)] and sl = rotated_seals [OF committed(1) seals kd]
    obtain b digest where b: "validate_request_preflight env r st = Inr ()"
      "validate_reference_availability env (evs_blobs store0) r st = Inr ()" "request_digest (ste_append env) r = Inr digest"
      "batch_holding_keys env store0 st (pap_scope r) (pap_stream_id r) ?keys = Some b" "pb_request_digest b = digest"
      "set (map env_idempotency_key (pb_events b)) = set ?keys" "evs = pb_events b"
      by (rule plan_append_committed [OF committed(3)])
    note find = holding_Some_find [OF committed(2) sl kdr [folded k(1)] b(4)]
    show ?thesis unfolding committed(4)
    proof (rule append_committed_again [OF committed(2)])
      fix store' st' assume s: "rotated env store0 = Inr store'" "load_state env store' = Inr st'"
        "ls_artifacts st' = ls_artifacts st" "ls_reachable_evidence st' = ls_reachable_evidence st"
      have "tables_grow st st'" "extends (evs_blobs store0) (evs_blobs store')"
        using s(3,4) rotated_keeps(2) [OF s(1)] by (simp_all add: tables_grow_def extends_def)
      moreover have "\<forall>a\<in>set (stored_artifacts r). om_get (ls_artifacts st') (artifact_key env (pap_scope r) (artifact_id_of a)) \<in> {None, Some a}"
        using stored_artifact_committed b(1) s(3) by (auto simp: validate_request_preflight_def)
      moreover note holding_after_rotation [OF s(1,2) sl kdr [folded k(1)] find]
      ultimately show "plan_append env at' ids' r store' st' = Inr (Committed evs)"
        using replan [OF b(1,2)] b(3,5,6,7) by blast
    qed
  next
    case (written store0 st digest blobs')
    let ?b = "new_batch env r digest evs"
    note k = rotated_keeps [OF written(1)] and sl = rotated_seals [OF written(1) seals kd] and ch = written(3) [unfolded checked_def]
    have nc: "no_collision env store0 r" using assms(4) k(1) by (simp add: no_collision_def)
    obtain c where c: "vc_state c = st" "load_ctx env store1 = verify_batch env blobs' ?b c"
      "only_limits (verify_batch env blobs' ?b c) (\<lambda>_. True)"
      using written_loads [OF written(2) sl written(3,4,6) assms(2,3) nc] written(5) by metis
    have hist: "history store1 = history store0 @ [?b]" by (simp add: written(5) history_def sealed_history_def)
    have sets: "set (map env_idempotency_key evs) = set ?keys" using request_lists(3) [OF checked_facts(3) [OF written(3)]] by simp
    have "evs \<noteq> []" using checked_facts(3) [OF written(3)] prepared_bounds(1) [OF assms(2)] by auto
    then have "hd evs \<in> set evs" by simp
    then have hb: "holds_keys (pap_scope r) (pap_stream_id r) ?keys ?b"
      using imageI [of "hd evs" "set evs" env_idempotency_key] sets
      by (simp add: holds_keys_def own_batch_def list_ex_iff) blast
    have "batch_holding_keys env store0 st (pap_scope r) (pap_stream_id r) ?keys = None" using ch by blast
    then have find: "List.find (holds_keys (pap_scope r) (pap_stream_id r) ?keys) (history store1) = Some ?b"
      unfolding hist by (intro find_only holding_None_find [OF written(2) sl kdr [folded k(1)]] hb)
    have sl1: "seals_track env [] (evs_sealed store1)" using sl by (simp add: written(5))
    have "streams (history store1) \<subseteq> insert (pap_scope r, pap_stream_id r) (streams (history store))"
      using k(1) by (auto simp: hist)
    then have kd1: "keys_distinct env (insert (pap_scope r, pap_stream_id r) (streams (history store1)))"
      using keys_distinct_mono [OF kdr] by blast
    show ?thesis
    proof (cases "verify_batch env blobs' ?b c")
      case (Inl e)
      then show ?thesis using c(2,3) by (simp add: append_locked_def rotated_def load_state_def)
    next
      case (Inr c')
      note t = verify_batch_tables [OF Inr]
      have l1: "load_state env store1 = Inr (vc_state c')" using c(2) Inr by (simp add: load_state_def)
      show ?thesis
      proof (rule append_committed_again [OF l1])
        fix store' st' assume s: "rotated env store1 = Inr store'" "load_state env store' = Inr st'"
          "ls_artifacts st' = ls_artifacts (vc_state c')" "ls_reachable_evidence st' = ls_reachable_evidence (vc_state c')"
        have "tables_grow st st'" using t(1) c(1) s(3,4) by (simp add: tables_grow_def)
        moreover have "extends (evs_blobs store0) (evs_blobs store')"
          using published_facts(1) [OF written(4,3)] rotated_keeps(2) [OF s(1)] by (simp add: written(5))
        moreover have "\<forall>a\<in>set (stored_artifacts r). om_get (ls_artifacts st') (artifact_key env (pap_scope r) (artifact_id_of a)) \<in> {None, Some a}"
          using t(2) s(3) by simp
        moreover note holding_after_rotation [OF s(1,2) sl1 kd1 find]
        ultimately show "plan_append env at' ids' r store' st' = Inr (Committed evs)"
          using replan [of env r st "evs_blobs store0" ?b st' store'] ch sets by (simp add: validate_request_preflight_def)
      qed
    qed
  qed
  then show ?thesis using again by simp
qed


section \<open>Optimistic concurrency\<close>

text \<open>What a successful append did: it found its batch already there, or it extended its stream at the head.\<close>

lemma append_locked_grows:
  assumes "store_reachable env store" and "no_collision env store r"
    and first: "append_locked env at ids r store = (Inr evs, store')" and grown: "history store' \<noteq> history store"
  obtains "pap_expected_next_sequence r = of_nat (Suc (length (stream_of (pap_scope r) (pap_stream_id r) (history store))))"
    "Suc (length (stream_of (pap_scope r) (pap_stream_id r) (history store))) < 2 ^ 64"
    "\<And>ev. ev \<in> set (stream_of (pap_scope r) (pap_stream_id r) (history store)) \<Longrightarrow>
       env_idempotency_key ev \<notin> nev_idempotency_key ` set (pap_events r)"
    "map request_of_envelope evs = pap_events r" "evs \<noteq> [] \<Longrightarrow> env_sequence (hd evs) = pap_expected_next_sequence r"
    "\<And>scope stream. stream_of scope stream (history store') =
       stream_of scope stream (history store) @ (if (scope, stream) = (pap_scope r, pap_stream_id r) then evs else [])"
proof -
  let ?h = "stream_of (pap_scope r) (pap_stream_id r) (history store)"
  have kdr: "keys_distinct env (insert (pap_scope r, pap_stream_id r) (streams (history store)))"
    using assms(2) by (simp add: no_collision_def)
  then have kd: "keys_distinct env (streams (history store))" by (rule keys_distinct_mono) auto
  note seals = reachable_seals [OF assms(1) kd]
  from first show thesis
  proof (cases rule: append_locked_Inr)
    case (committed store0 st)
    then show thesis using rotated_keeps(1) [OF committed(1)] grown by simp
  next
    case (written store0 st digest blobs')
    note k = rotated_keeps [OF written(1)] and sl = rotated_seals [OF written(1) seals kd] and ch = written(3) [unfolded checked_def]
    have hist: "history store' = history store @ [new_batch env r digest evs]"
      using k(1) by (simp add: written(5) history_def sealed_history_def)
    have kd0: "keys_distinct env (streams (history store0))" using kd k(1) by simp
    note t = tracksD [OF load_state_tracks(1) [OF written(2) sl kd0] kdr [folded k(1)], unfolded k(1)]
    have seq: "pap_expected_next_sequence r = of_nat (Suc (length ?h))" using ch t(1) by simp
    have none: "batch_holding_keys env store0 st (pap_scope r) (pap_stream_id r) (map nev_idempotency_key (pap_events r)) = None"
      using ch by blast
    have fresh: "env_idempotency_key ev \<notin> nev_idempotency_key ` set (pap_events r)" if ev: "ev \<in> set ?h" for ev
    proof -
      obtain b where b: "b \<in> set (history store0)" "own_batch (pap_scope r) (pap_stream_id r) b" "ev \<in> set (pb_events b)"
        using ev k(1) by (auto simp: stream_of_def)
      have "\<not> holds_keys (pap_scope r) (pap_stream_id r) (map nev_idempotency_key (pap_events r)) b"
        by (rule holding_None_find [OF written(2) sl kdr [folded k(1)] none b(1)])
      then show ?thesis using b(2,3) by (simp add: holds_keys_def list_ex_iff)
    qed
    have own: "own_batch scope stream (new_batch env r digest evs) \<longleftrightarrow> (scope, stream) = (pap_scope r, pap_stream_id r)" for scope stream
      by (auto simp: own_batch_def)
    have hd: "env_sequence (hd evs) = pap_expected_next_sequence r" if "evs \<noteq> []"
      using checked_facts(4) [OF written(3)] that by (cases evs) (auto simp: checked_add_def split: if_splits)
    show thesis
      using seq t(2) fresh checked_facts(3) [OF written(3)] hd by (rule that) (simp_all add: hist own)
  qed
qed

text \<open>C4: an append extends exactly one stream, at its head. When the history grows, the caller named the
  stream's true next sequence, none of the request's idempotency keys occurs in the stream, and the stream grows by the
  request's events in order, while every other stream is unchanged; when the append is refused nothing grows.\<close>

theorem append_extends_head:
  assumes "store_reachable env store" and "no_collision env store r"
    and "append_locked env at ids r store = (res, store')"
  shows "case res of
      Inl e \<Rightarrow> history store' = history store
    | Inr evs \<Rightarrow> history store' = history store \<or>
        pap_expected_next_sequence r = of_nat (Suc (length (stream_of (pap_scope r) (pap_stream_id r) (history store)))) \<and>
        (\<forall>ev\<in>set (stream_of (pap_scope r) (pap_stream_id r) (history store)).
           env_idempotency_key ev \<notin> nev_idempotency_key ` set (pap_events r)) \<and>
        map request_of_envelope evs = pap_events r \<and>
        (\<forall>scope stream. stream_of scope stream (history store') =
           stream_of scope stream (history store) @ (if (scope, stream) = (pap_scope r, pap_stream_id r) then evs else []))"
proof (cases res)
  case (Inl e)
  have "history (snd (append_locked env at ids r store)) = history store"
    by (rule append_locked_history [of env at ids r store]) (use assms(3) Inl in auto)
  then show ?thesis using assms(3) Inl by simp
next
  case (Inr evs)
  show ?thesis
  proof (cases "history store' = history store")
    case False
    from assms(3) have "append_locked env at ids r store = (Inr evs, store')" unfolding Inr .
    then show ?thesis
    proof (rule append_locked_grows [OF assms(1,2) _ False])
      assume "pap_expected_next_sequence r = of_nat (Suc (length (stream_of (pap_scope r) (pap_stream_id r) (history store))))"
        "\<And>ev. ev \<in> set (stream_of (pap_scope r) (pap_stream_id r) (history store)) \<Longrightarrow>
           env_idempotency_key ev \<notin> nev_idempotency_key ` set (pap_events r)"
        "map request_of_envelope evs = pap_events r"
        "\<And>scope stream. stream_of scope stream (history store') =
           stream_of scope stream (history store) @ (if (scope, stream) = (pap_scope r, pap_stream_id r) then evs else [])"
      then show ?thesis unfolding Inr sum.case by (intro disjI2 conjI ballI allI)
    qed
  qed (simp add: Inr)
qed

end
