(* ===== verification/Store_Samples.thy ===== *)
theory Store_Samples
  imports Store_Retry
begin

text \<open>
  A concrete store: one request with one event, appended to an empty store. The digest parameter returns 64 zeros;
  with one stream and no artifact nothing collides.
\<close>

definition sample_append_env :: append_env where
  "sample_append_env = \<lparr>ape_replay = sample_replay_env, ape_event_len = (\<lambda>_. Some 600), ape_scan_scope = (\<lambda>_ _. Inr ()),
     ape_scan_event = (\<lambda>_. Inr ()), ape_scan_evidence = (\<lambda>_. Inr ()), ape_scan_artifact = (\<lambda>_. Inr ()),
     ape_digest_len = (\<lambda>_. Some 900), ape_digest_bytes = (\<lambda>_. Some [])\<rparr>"

definition sample_store_env :: store_env where
  "sample_store_env = \<lparr>ste_append = sample_append_env, ste_canonical_scope = (\<lambda>_. []), ste_checksum_bytes = (\<lambda>_. []),
     ste_batch_json_len = (\<lambda>_. Some 1200), ste_line_len = (\<lambda>_. 1200), ste_schema_attempt = (\<lambda>_. SchemaRan True),
     ste_digest_len = (\<lambda>_. Some 300), ste_seal_state_len = (\<lambda>_ _. 400), ste_seal_len = (\<lambda>_ _. 400)\<rparr>"

definition sample_new_event :: new_event where
  "sample_new_event = \<lparr>nev_idempotency_key = ''k1'', nev_actor = sample_actor, nev_sensitivity = Internal,
     nev_kind = started_kind, nev_evidence_refs = [], nev_artifact_refs = []\<rparr>"

definition sample_append :: prepared_append where
  "sample_append = \<lparr>pap_scope = sample_scope, pap_stream_id = ''stream'', pap_expected_next_sequence = 1,
     pap_events = [sample_new_event], pap_evidence = [], pap_artifacts = []\<rparr>"

definition sample_written :: event_envelope where
  "sample_written = (event_envelope_new ''e1'' sample_scope ''stream'' 1 0 sample_new_event GENESIS_HASH sample_hash)"

definition sample_batch :: physical_batch where
  "sample_batch = new_batch sample_store_env sample_append sample_hash [sample_written]"

definition sample_store :: event_store where
  "sample_store = event_store_empty\<lparr>evs_active := [sample_batch]\<rparr>"

lemma sample_prepared: "is_prepared sample_append"
proof -
  have "is_opaque_id ''stream''" by code_simp
  then show ?thesis
    by (simp add: is_prepared_def sample_append_def prepared_append_new_def MAX_SAFE_INTEGER_def MAX_BATCH_EVENTS_def
        MAX_EVIDENCE_ITEMS_def MAX_ARTIFACTS_def MAX_EVIDENCE_BATCH_BYTES_def word_less_nat_alt)
qed

lemma sample_registered: "schemas_registered sample_store_env"
  by (simp add: schemas_registered_def sample_store_env_def)

lemma sample_sha [simp]: "ste_sha sample_store_env s = replicate 64 CHR ''0''"
  by (simp add: sample_store_env_def sample_append_env_def sample_replay_env_def sample_env_def)

lemma sample_no_collision: "streams (history store) \<subseteq> {(sample_scope, ''stream'')} \<Longrightarrow> no_collision sample_store_env store sample_append"
  by (auto simp: no_collision_def digest_width_def keys_distinct_def inj_on_def sample_append_def stored_artifacts_def)

lemma sample_validate: "validate_envelope sample_replay_env ev = Inr ()"
  if "env_kind ev = started_kind" "env_scope ev = sample_scope"
  using that by (simp add: validate_envelope_def validate_envelope_content_def serialized_len_bounded_def sample_replay_env_def
      MAX_EVENT_BYTES_def level_mismatch_def is_project_level_def retention_evidence_scope_def publication_consistent_def
      sample_defs)

lemma sample_digest: "request_digest sample_append_env sample_append = Inr sample_hash"
  by (simp add: request_digest_def digest_of_input_def bounded_len_def sample_append_env_def MAX_BATCH_BYTES_def
      sample_replay_env_def sample_env_def sample_hash_def)

lemma sample_preflight: "validate_prepared_append sample_append_env sample_append = Inr ()"
proof -
  have "foldE (preflight_event sample_append_env sample_scope) [sample_new_event] 0 = Inr 600"
    by (simp add: preflight_event_def sample_append_env_def bounded_len_def MAX_EVENT_BYTES_def usize_add_def MAX_BATCH_BYTES_def
        sample_new_event_def started_kind_def is_project_level_def sample_scope_def)
  then show ?thesis using sample_digest
    by (simp add: validate_prepared_append_def sample_append_def sample_append_env_def os_of_list_len prepared_evidence_map_def
        om_collect_def validate_evidence_references_def sample_new_event_def artifact_registrations_ok_def producer_artifacts_def
        usize_add_def Let_def)
qed

lemma sample_built: "build_envelopes sample_store_env (Some 0) (\<lambda>_. ''e1'') sample_append loaded_state_default = Inr [sample_written]"
proof -
  have ids: "is_opaque_id ''e1''" "is_wire_hash GENESIS_HASH" "is_wire_hash sample_hash" by code_simp+
  have re: "ste_replay sample_store_env = sample_replay_env" by (simp add: sample_store_env_def sample_append_env_def)
  have hash: "event_hash sample_replay_env ev prev = Inr sample_hash" for ev prev
    by (simp add: event_hash_def sample_replay_env_def sample_env_def sample_hash_def)
  have content: "validate_envelope_content sample_replay_env ev = Inr ()" for ev
    by (simp add: validate_envelope_content_def serialized_len_bounded_def sample_replay_env_def MAX_EVENT_BYTES_def)
  show ?thesis
    using ids by (simp add: build_envelopes_def build_envelope_def sample_append_def re hash content sample_validate
        sample_new_event_def event_envelope_new_def sample_written_def last_hash_of_def loaded_state_default_def checked_add_def
        Let_def MAX_SAFE_INTEGER_def word_less_nat_alt)
qed

lemma sample_readable: "readable_back sample_store_env b = Inr ()"
  by (simp add: readable_back_def sample_store_env_def bounded_len_def ensure_inclusive_limit_def MAX_BATCH_BYTES_def)

lemma sample_plan:
  "plan_append sample_store_env (Some 0) (\<lambda>_. ''e1'') sample_append event_store_empty loaded_state_default = Inr (NewBatch sample_batch)"
proof -
  have env: "ste_append sample_store_env = sample_append_env" by (simp add: sample_store_env_def)
  have "validate_request_preflight sample_store_env sample_append loaded_state_default = Inr ()"
    using sample_preflight by (simp add: validate_request_preflight_def env validate_artifact_relations_def committed_artifacts_def
        sample_append_def sample_new_event_def stored_artifacts_def)
  moreover have "validate_reference_availability sample_store_env (evs_blobs event_store_empty) sample_append loaded_state_default = Inr ()"
    by (simp add: validate_reference_availability_def validate_evidence_references_def sample_append_def sample_new_event_def Let_def)
  moreover have "batch_holding_keys sample_store_env event_store_empty loaded_state_default (pap_scope sample_append)
      (pap_stream_id sample_append) (map nev_idempotency_key (pap_events sample_append)) = None"
    by (simp add: batch_holding_keys_def sample_append_def loaded_state_default_def)
  moreover have "validate_graph_successors sample_store_env sample_append loaded_state_default = Inr ()"
    by (simp add: validate_graph_successors_def loaded_state_default_def validate_graph_lineage_def sample_append_def
        lineage_step_def sample_new_event_def started_kind_def)
  moreover have "ensure_load_room (length (ls_batches loaded_state_default)) (event_total (ls_batches loaded_state_default))
      (length (pap_events sample_append)) DEFAULT_LOAD_LIMITS = Inr ()"
    by (simp add: ensure_load_room_def usize_add_def loaded_state_default_def event_total_def sample_append_def
        DEFAULT_LOAD_LIMITS_def MAX_READ_ALL_def)
  moreover have "next_sequence_of loaded_state_default key = pap_expected_next_sequence sample_append" for key
    by (simp add: next_sequence_of_def loaded_state_default_def sample_append_def)
  ultimately show ?thesis using sample_built sample_digest sample_readable
    by (simp add: plan_append_def env sample_batch_def del: bindE_eq_Inr)
qed

lemma sample_empty_loads:
  "load_state sample_store_env event_store_empty = Inr loaded_state_default"
  by (simp add: load_state_def load_ctx_def event_store_empty_def ensure_inclusive_limit_def segment_len_def seeded_ctx_def
      verify_ctx_fresh_def)

lemma sample_appends:
  "append_locked sample_store_env (Some 0) (\<lambda>_. ''e1'') sample_append event_store_empty = (Inr [sample_written], sample_store)"
proof -
  have "rotated sample_store_env event_store_empty = Inr event_store_empty"
    by (simp add: rotated_def sample_empty_loads should_rotate_def loaded_state_default_def)
  moreover have "commit_batch sample_store_env sample_append sample_batch event_store_empty = (Inr [sample_written], sample_store)"
    by (simp add: commit_batch_def stage_evidence_def sample_append_def ensure_journal_room_def usize_add_def event_store_empty_def
        segment_len_def sample_store_env_def ensure_inclusive_limit_def sample_store_def sample_batch_def)
  ultimately show ?thesis by (simp add: append_locked_def sample_empty_loads sample_plan del: bindE_eq_Inr)
qed

lemma sample_reachable: "store_reachable sample_store_env sample_store"
  using reach_append [OF reach_empty sample_prepared, of sample_store_env "Some 0" "\<lambda>_. ''e1''"] sample_appends by simp

lemma sample_history: "history sample_store = [sample_batch]" "history event_store_empty = []"
  by (simp_all add: history_def sealed_history_def sample_store_def event_store_empty_def)

lemma sample_request: "map request_of_envelope [sample_written] = [sample_new_event]"
  by (simp add: request_of_envelope_def sample_written_def event_envelope_new_def sample_new_event_def)

lemma sample_checked:
  "checked sample_store_env (Some 0) (\<lambda>_. ''e1'') sample_append event_store_empty loaded_state_default sample_hash [sample_written]"
  using plan_append_new [OF sample_plan] sample_batch_def
  by (metis new_batch_fields(2,8))

lemma sample_fields:
  "pb_scope sample_batch = sample_scope" "pb_stream_id sample_batch = ''stream''" "pb_expected_next_sequence sample_batch = 1"
  "pb_evidence_ids sample_batch = []" "pb_artifacts sample_batch = []" "pb_events sample_batch = [sample_written]"
  "pb_request_digest sample_batch = sample_hash"
  by (simp_all add: sample_batch_def sample_append_def stored_artifacts_def)

lemma sample_written_fields:
  "env_scope sample_written = sample_scope" "env_stream_id sample_written = ''stream''" "env_sequence sample_written = 1"
  "env_kind sample_written = started_kind" "env_evidence_refs sample_written = []" "env_artifact_refs sample_written = []"
  "env_previous_hash sample_written = GENESIS_HASH" "env_event_hash sample_written = sample_hash"
  by (simp_all add: sample_written_def event_envelope_new_def sample_new_event_def)

lemma sample_event_verifies:
  assumes "vc_state c = loaded_state_default"
  shows "\<exists>c'. verify_event sample_store_env blobs sample_batch key 1 (0, sample_written) (GENESIS_HASH, c) = Inr (sample_hash, c')"
proof -
  have re: "ste_replay sample_store_env = sample_replay_env" by (simp add: sample_store_env_def sample_append_env_def)
  have "event_hash sample_replay_env ev prev = Inr sample_hash" for ev prev
    by (simp add: event_hash_def sample_replay_env_def sample_env_def sample_hash_def)
  then show ?thesis using assms
    by (simp add: verify_event_def re sample_validate sample_fields sample_written_fields verify_publication_def started_kind_def
        checked_add_def Let_def loaded_state_default_def)
qed

lemma sample_loads: "\<exists>st. load_state sample_store_env sample_store = Inr st"
proof -
  obtain budget where acc: "account_line sample_batch load_counts_zero = Inr budget"
    by (simp add: account_line_def account_defs artifact_ref_count_def sample_fields sample_written_fields usize_add_def load_counts_zero_def
        DEFAULT_LOAD_LIMITS_def MAX_READ_ALL_def MAX_LOAD_WORK_UNITS_def is_publication_def started_kind_def)
  have shape: "verify_shape sample_store_env sample_batch = Inr ()"
    unfolding sample_batch_def by (rule new_batch_shape [OF sample_readable])
      (use checked_facts(4) [OF sample_checked] in \<open>auto simp: sample_store_env_def\<close>)
  have stream: "is_opaque_id ''stream''" by code_simp
  have digest: "verify_request_digest sample_store_env sample_batch [] = Inr ()"
    using stream by (simp add: verify_request_digest_def sample_fields digest_of_input_def bounded_len_def sample_store_env_def
        sample_append_env_def MAX_BATCH_BYTES_def sample_replay_env_def sample_env_def sample_hash_def)
  have arts: "verify_artifacts sample_store_env sample_batch st = Inr ()" for st
    by (simp add: verify_artifacts_def artifact_ref_count_def sample_fields sample_written_fields usize_add_def Let_def
        batch_artifacts_def om_collect_def batch_producer_artifacts_def)
  have refs: "batch_evidence_refs sample_batch = Inr om_empty" "verify_declared_evidence sample_batch om_empty = Inr ()"
    by (simp_all add: batch_evidence_refs_def verify_declared_evidence_def sample_fields sample_written_fields os_of_list_def)
  obtain c where ev: "verify_event sample_store_env om_empty sample_batch (stream_key sample_store_env sample_scope ''stream'') 1
      (0, sample_written) (GENESIS_HASH, verify_ctx_fresh\<lparr>vc_budget := budget\<rparr>) = Inr (sample_hash, c)"
    using sample_event_verifies [of "verify_ctx_fresh\<lparr>vc_budget := budget\<rparr>"] by (auto simp: verify_ctx_fresh_def)
  have st: "vc_state verify_ctx_fresh = loaded_state_default" "vc_budget verify_ctx_fresh = load_counts_zero"
    by (simp_all add: verify_ctx_fresh_def)
  have fresh: "next_sequence_of loaded_state_default key = 1" "last_hash_of loaded_state_default key = GENESIS_HASH" for key
    by (simp_all add: next_sequence_of_def last_hash_of_def loaded_state_default_def)
  have "\<exists>c. verify_batch sample_store_env om_empty sample_batch verify_ctx_fresh = Inr c"
    using ev by (simp add: verify_batch_def shape acc st fresh arts refs digest sample_fields Let_def checked_add_def)
  then show ?thesis
    by (simp add: load_state_def load_ctx_def sample_store_def event_store_empty_def seeded_ctx_def ensure_inclusive_limit_def
        segment_len_def sample_store_env_def)
qed


section \<open>Witnesses\<close>

theorem stored_streams_sound_witness:
  "sound_journal (ste_replay sample_store_env) sample_scope ''stream'' [sample_written] \<and>
   read_replay_stream sample_store_env sample_store sample_scope ''stream'' = Inr [sample_written] \<and>
   next_sequence sample_store_env sample_store sample_scope ''stream'' = Inr 2"
proof -
  obtain st where "load_state sample_store_env sample_store = Inr st" using sample_loads ..
  moreover have "is_opaque_id ''stream''" by code_simp
  moreover have "keys_distinct sample_store_env (insert (sample_scope, ''stream'') (streams (history sample_store)))"
    by (simp add: sample_history sample_fields keys_distinct_def)
  moreover have "stream_of sample_scope ''stream'' (history sample_store) = [sample_written]"
    by (simp add: sample_history sample_fields own_batch_def)
  ultimately show ?thesis
    using stored_streams_sound [OF sample_reachable, of st "''stream''" sample_scope] by (simp add: MAX_READ_ALL_def Let_def)
qed

theorem append_stays_loadable_witness:
  "(\<exists>b. own_batch sample_scope ''stream'' b \<and> pb_events b = [sample_written] \<and> history sample_store = [b]) \<and>
   (load_state sample_store_env sample_store = Inl RepositoryLimitExceeded \<or>
    (\<exists>st. load_state sample_store_env sample_store = Inr st))"
  using append_stays_loadable [OF reach_empty sample_prepared sample_registered sample_no_collision sample_appends]
  by (auto simp: sample_history sample_append_def)

theorem append_exactly_once_witness:
  "\<exists>res store. append_locked sample_store_env (Some 1) (\<lambda>_. ''e2'') sample_append sample_store = (res, store) \<and>
     res \<in> {Inr [sample_written], Inl RepositoryLimitExceeded} \<and> history store = [sample_batch]"
proof -
  obtain res store where again: "append_locked sample_store_env (Some 1) (\<lambda>_. ''e2'') sample_append sample_store = (res, store)"
    by (cases "append_locked sample_store_env (Some 1) (\<lambda>_. ''e2'') sample_append sample_store")
  show ?thesis
    using append_exactly_once [OF reach_empty sample_prepared sample_registered sample_no_collision sample_appends again] again
    by (simp add: sample_history)
qed

theorem append_extends_head_witness:
  "pap_expected_next_sequence sample_append = of_nat (Suc (length (stream_of sample_scope ''stream'' (history event_store_empty)))) \<and>
   stream_of sample_scope ''stream'' (history sample_store) = [sample_written]"
  using append_extends_head [OF reach_empty sample_no_collision sample_appends]
  by (simp add: sample_history sample_append_def sample_fields own_batch_def)

end
