(* ===== verification/Store_Paging.thy ===== *)
theory Store_Paging
  imports Store_Samples
begin

text \<open>
  Reading a stream in pages. A cursor names the stream's key and the last sequence delivered; it round-trips
  through its text, so following the cursors from the start delivers the stream exactly once and in order.
\<close>

section \<open>Decimal text\<close>

declare show_decimal.simps [simp del]

lemma digit_char: "n < 10 \<Longrightarrow> is_ascii_digit (char_of (48 + n)) \<and> of_char (char_of (48 + n :: nat)) - 48 = n"
  by (simp add: is_ascii_digit_def byte_def)

lemma show_decimal_digits: "list_all is_ascii_digit (show_decimal n)" "show_decimal n \<noteq> []"
proof -
  have "list_all is_ascii_digit (show_decimal n) \<and> show_decimal n \<noteq> []"
  proof (induction n rule: show_decimal.induct)
    case (1 n)
    then show ?case by (subst (1 2) show_decimal.simps) (simp add: digit_char)
  qed
  then show "list_all is_ascii_digit (show_decimal n)" "show_decimal n \<noteq> []" by auto
qed

lemma show_decimal_value: "fold (\<lambda>c acc. acc * 10 + (of_char c - 48)) (show_decimal n) (0::nat) = n"
proof (induction n rule: show_decimal.induct)
  case (1 n)
  then show ?case by (subst show_decimal.simps) (auto simp: digit_char)
qed

lemma parse_show_decimal: "n < 2 ^ 64 \<Longrightarrow> parse_decimal (show_decimal n) = Some (of_nat n)"
proof -
  assume n: "n < 2 ^ 64"
  obtain c cs where c: "show_decimal n = c # cs" using show_decimal_digits(2) by (cases "show_decimal n") auto
  then have "is_ascii_digit c" using show_decimal_digits(1) [of n] by simp
  then have "c \<noteq> CHR ''+''" by (auto simp: is_ascii_digit_def byte_def)
  then have "(case show_decimal n of c # cs \<Rightarrow> if c = CHR ''+'' then cs else show_decimal n | [] \<Rightarrow> []) = show_decimal n"
    by (simp add: c)
  then show ?thesis using n show_decimal_digits [of n] show_decimal_value [of n] by (simp add: parse_decimal_def Let_def)
qed

lemma show_decimal_length: "n < 10 ^ k \<Longrightarrow> 0 < k \<Longrightarrow> length (show_decimal n) \<le> k"
proof (induction k arbitrary: n)
  case (Suc k)
  show ?case
  proof (cases "n < 10")
    case True
    then show ?thesis by (subst show_decimal.simps) simp
  next
    case False
    then have "0 < k" using Suc.prems(1) by (cases k) auto
    moreover have "n div 10 < 10 ^ k" using Suc.prems(1) by (simp add: less_mult_imp_div_less mult.commute)
    ultimately have "length (show_decimal (n div 10)) \<le> k" by (intro Suc.IH)
    then show ?thesis using False by (subst show_decimal.simps) simp
  qed
qed simp

lemma length_stream_key: "digest_width env \<Longrightarrow> length (stream_key env scope stream) = 64"
  by (simp add: digest_width_def stream_key_def object_key_def)

lemma cursor_round_trip:
  assumes "digest_width env" and "0 < k" and "k \<le> 9007199254740991"
  obtains cur where "encode_cursor env scope stream (of_nat k) = Inr cur" "cursor_start env (Some cur) scope stream = Inr (of_nat k)"
proof -
  have u: "unat (of_nat k :: u64) = k" using assms(3) by (simp add: unat_of_nat)
  let ?v = "''v1:'' @ stream_key env scope stream @ '':'' @ show_decimal k"
  have "k < 10 ^ 16" using assms(3) by simp
  then have "length (show_decimal k) \<le> 16" by (rule show_decimal_length) simp
  then have len: "length ?v \<le> MAX_CURSOR_BYTES" using length_stream_key [OF assms(1)] by (simp add: MAX_CURSOR_BYTES_def)
  have enc: "encode_cursor env scope stream (of_nat k) = Inr ?v" using len by (simp add: encode_cursor_def Let_def u)
  have "strip_prefix (''v1:'' @ stream_key env scope stream @ '':'') ?v = Some (show_decimal k)"
    using strip_prefix_append [of "''v1:'' @ stream_key env scope stream @ '':''" "show_decimal k"] by simp
  moreover have "parse_decimal (show_decimal k) = Some (of_nat k)" using assms(3) by (simp add: parse_show_decimal)
  moreover have "(of_nat k :: u64) \<noteq> 0" "\<not> (of_nat k :: u64) > MAX_SAFE_INTEGER"
    using u assms(2,3) by (auto simp: word_less_nat_alt MAX_SAFE_INTEGER_def simp flip: word_unat_eq_iff [of _ 0])
  ultimately have "cursor_start env (Some ?v) scope stream = Inr (of_nat k)"
    using len by (simp add: cursor_start_def)
  then show thesis using that enc by blast
qed


section \<open>Pages\<close>

text \<open>SHA-256 in hexadecimal is what the wire form of a hash asks for.\<close>

definition digest_hex :: "store_env \<Rightarrow> bool" where
  "digest_hex env \<longleftrightarrow> (\<forall>s. is_wire_hash (''sha256:'' @ ste_sha env s)) \<and> digest_width env"

lemma chain_hash_wire:
  assumes "digest_hex env" and "sound_journal (ste_replay env) scope stream evs"
  shows "is_wire_hash (chain_hash evs)"
proof (cases evs rule: rev_cases)
  case Nil
  have "is_wire_hash GENESIS_HASH" by code_simp
  then show ?thesis using Nil by simp
next
  case (snoc es e)
  then have "linked (ste_replay env) es e" using assms(2) by (simp add: sound_journal_snoc)
  then have h: "event_hash (ste_replay env) e (chain_hash es) = Inr (env_event_hash e)" by (simp add: linked_def)
  show ?thesis
  proof (cases "re_canonical_unhashed (ste_replay env) (e\<lparr>env_event_hash := []\<rparr>)")
    case (Some bytes)
    then have "env_event_hash e = ''sha256:'' @ ste_sha env (''graphhelm-event-hash-v1'' @ [char_of (0::nat)] @ chain_hash es @ [char_of (0::nat)] @ bytes)"
      using h by (simp add: event_hash_def)
    then show ?thesis using assms(1) snoc unfolding digest_hex_def by simp
  qed (use h in \<open>simp add: event_hash_def\<close>)
qed

definition cursor_at :: "store_env \<Rightarrow> repository_scope \<Rightarrow> string \<Rightarrow> nat \<Rightarrow> string option \<Rightarrow> bool" where
  "cursor_at env scope stream k cursor \<longleftrightarrow>
    (if k = 0 then cursor = None else \<exists>cur. cursor = Some cur \<and> encode_cursor env scope stream (of_nat k) = Inr cur)"

text \<open>C33: following cursors reads a stream exactly once. On a store built by appends that loads, a page read from the
  cursor that stands after \<open>k\<close> events holds the next \<open>limit\<close> events of the stream, and hands out the cursor that
  stands after them, or none at the end; its head is the stream's next sequence and last hash.\<close>

theorem pages_follow_stream:
  assumes "store_reachable env store" and l: "load_state env store = Inr st" and "is_opaque_id stream"
    and kd: "keys_distinct env (insert (scope, stream) (streams (history store)))" and hex: "digest_hex env"
    and limit: "0 < limit" "limit \<le> MAX_READ_PAGE"
    and "evs = stream_of scope stream (history store)" and len: "length evs \<le> 9007199254740991" and k: "k \<le> length evs"
    and cur: "cursor_at env scope stream k cursor"
  shows "\<exists>next_cursor head. read_stream env store scope stream limit cursor =
      Inr \<lparr>epg_events = take limit (drop k evs), epg_next_cursor = next_cursor, epg_head = head\<rparr> \<and>
    (if k + limit < length evs then cursor_at env scope stream (k + limit) next_cursor else next_cursor = None) \<and>
    (evs \<noteq> [] \<longrightarrow> head = Some \<lparr>sh_next_sequence = of_nat (Suc (length evs)), sh_last_event_hash = env_event_hash (last evs)\<rparr>)"
proof -
  have kd': "keys_distinct env (streams (history store))" by (rule keys_distinct_mono [OF kd]) auto
  note seals = reachable_seals [OF assms(1) kd']
  note tr = load_state_tracks(1) [OF l seals kd']
  note t = tracksD [OF tr kd, folded assms(8)] and ev = stream_events_after_exact [OF seals l kd, folded assms(8)]
  let ?key = "stream_key env scope stream"
  have w: "digest_width env" using hex by (simp add: digest_hex_def)
  have wire: "is_wire_hash (last_hash_of st ?key)" unfolding t(3) by (rule chain_hash_wire [OF hex t(4)])
  define head where "head = (case om_get (ls_next_sequence st) ?key of None \<Rightarrow> None
      | Some n \<Rightarrow> Some \<lparr>sh_next_sequence = n, sh_last_event_hash = last_hash_of st ?key\<rparr>)"
  have head: "evs \<noteq> [] \<longrightarrow> head = Some \<lparr>sh_next_sequence = of_nat (Suc (length evs)), sh_last_event_hash = env_event_hash (last evs)\<rparr>"
  proof
    assume ne: "evs \<noteq> []"
    then have "(scope, stream) \<in> streams (history store)" using stream_of_foreign assms(8) by blast
    then have "om_get (ls_next_sequence st) ?key = Some (of_nat (Suc (length evs)))"
      using tr assms(8) by (auto simp: tracks_def Let_def)
    then show "head = Some \<lparr>sh_next_sequence = of_nat (Suc (length evs)), sh_last_event_hash = env_event_hash (last evs)\<rparr>"
      using ne t(3) by (simp add: head_def chain_hash_def)
  qed
  have start: "cursor_start env cursor scope stream = Inr (of_nat k)"
  proof (cases "k = 0")
    case False
    obtain c where c: "encode_cursor env scope stream (of_nat k) = Inr c" "cursor_start env (Some c) scope stream = Inr (of_nat k)"
      by (rule cursor_round_trip [OF w, of k scope stream]) (use False k len in auto)
    then show ?thesis using cur False by (simp add: cursor_at_def)
  qed (use cur in \<open>simp add: cursor_at_def cursor_start_def\<close>)
  have uk: "unat (of_nat k :: u64) = k" using k len by (simp add: unat_of_nat)
  let ?page = "take limit (drop k evs)"
  have matching: "stream_events_after env store st scope stream (of_nat k) (Suc limit) = take (Suc limit) (drop k evs)"
    using ev [of "of_nat k" "Suc limit"] by (simp add: uk)
  have page: "take limit (take (Suc limit) (drop k evs)) = ?page" by (simp add: min_def)
  obtain nc where nc: "(if length (take (Suc limit) (drop k evs)) > limit \<and> ?page \<noteq> []
      then bindE (encode_cursor env scope stream (env_sequence (last ?page))) (\<lambda>cur. Inr (Some cur)) else Inr None) = Inr nc"
    "if k + limit < length evs then cursor_at env scope stream (k + limit) nc else nc = None"
  proof (cases "k + limit < length evs")
    case True
    have ne: "?page \<noteq> []" using True limit(1) by simp
    have "last ?page = evs ! (k + limit - 1)" using True limit(1) ne by (simp add: last_conv_nth min_def)
    then have "unat (env_sequence (last ?page)) = k + limit"
      using sound_journal_sequence [OF t(4,2), of "k + limit - 1"] True limit(1) by simp
    then have "of_nat (unat (env_sequence (last ?page))) = (of_nat (k + limit) :: u64)" by (rule arg_cong)
    then have seq: "env_sequence (last ?page) = of_nat (k + limit)" by (simp add: ucast_id)
    obtain c where "encode_cursor env scope stream (of_nat (k + limit)) = Inr c"
      using cursor_round_trip [OF w, of "k + limit" scope stream] limit(1) True len by (metis add_gr_0 less_imp_le order_trans)
    then show thesis using that [of "Some c"] True ne limit(1) unfolding seq by (simp add: cursor_at_def)
  next
    case False
    then have "\<not> length (take (Suc limit) (drop k evs)) > limit" by simp
    then show thesis using that [of None] False by simp
  qed
  have "read_stream env store scope stream limit cursor = Inr \<lparr>epg_events = ?page, epg_next_cursor = nc, epg_head = head\<rparr>"
    using limit assms(3) l wire start nc(1)
    by (cases "encode_cursor env scope stream (env_sequence (last ?page))")
      (simp_all add: read_stream_def Let_def matching page head_def split: option.split if_splits del: bindE_eq_Inr)
  then show ?thesis using nc(2) head by blast
qed

theorem pages_follow_stream_witness:
  "\<exists>head. read_stream sample_store_env sample_store sample_scope ''stream'' 10 None =
     Inr \<lparr>epg_events = [sample_written], epg_next_cursor = None, epg_head = head\<rparr>"
proof -
  obtain st where l: "load_state sample_store_env sample_store = Inr st" using sample_loads ..
  have op: "is_opaque_id ''stream''" by code_simp
  have wire: "is_wire_hash (''sha256:'' @ replicate 64 CHR ''0'')" by code_simp
  have kd: "keys_distinct sample_store_env (insert (sample_scope, ''stream'') (streams (history sample_store)))"
    by (simp add: sample_history sample_fields keys_distinct_def)
  have evs: "[sample_written] = stream_of sample_scope ''stream'' (history sample_store)"
    by (simp add: sample_history sample_fields own_batch_def)
  have hex: "digest_hex sample_store_env" using wire by (simp add: digest_hex_def digest_width_def)
  show ?thesis
    using pages_follow_stream [OF sample_reachable l op kd hex _ _ evs, of 10 0 None]
    by (simp add: MAX_READ_PAGE_def cursor_at_def)
qed

end
