(* ===== verification/Traversal.thy ===== *)
theory Traversal
  imports Graph_Model
begin

text \<open>
  The graph walks of the linter and the simulator: adjacency lists, the breadth-first closure of
  \<open>core/graph/src/lint/reachability.rs\<close>, the depth-first one of \<open>core/simulation/src/engine.rs\<close>, and the two passes of
  \<open>components\<close> in \<open>core/graph/src/lint/cycle.rs\<close> (Kosaraju's algorithm on explicit stacks). A stack is a list with its
  top first; the finishing order, pushed and popped at one end, is kept the same way.
\<close>

section \<open>Adjacency\<close>

definition links :: "('a::linorder, 'a list) omap \<Rightarrow> 'a \<Rightarrow> 'a list" where
  "links m n = (case om_get m n of None \<Rightarrow> [] | Some ns \<Rightarrow> ns)"

definition add_link :: "'a::linorder \<times> 'a \<Rightarrow> ('a, 'a list) omap \<Rightarrow> ('a, 'a list) omap" where
  "add_link e m = om_insert (fst e) (links m (fst e) @ [snd e]) m"

definition adjacency :: "('a::linorder \<times> 'a) list \<Rightarrow> ('a, 'a list) omap" where
  "adjacency es = fold add_link es om_empty"

definition targets :: "('a::linorder, 'a list) omap \<Rightarrow> 'a set" where
  "targets m = \<Union> (set ` set (om_values m))"

lemma finite_targets [simp]: "finite (targets m)"
  by (simp add: targets_def)

lemma links_targets: "set (links m n) \<subseteq> targets m"
proof (cases "om_get m n")
  case (Some ns)
  then have "ns \<in> set (om_values m)"
    using om_in_entries [of n ns m] by (force simp: om_values_def)
  then show ?thesis using Some by (auto simp: links_def targets_def)
qed (simp add: links_def)

lemma links_fold: "links (fold add_link es m) n = links m n @ map snd (filter (\<lambda>e. fst e = n) es)"
  by (induction es arbitrary: m) (auto simp: add_link_def links_def)

lemma links_adjacency [simp]: "links (adjacency es) n = map snd (filter (\<lambda>e. fst e = n) es)"
  by (simp add: adjacency_def links_fold) (simp add: links_def)

lemma set_links_adjacency: "set (links (adjacency es) n) = {t. (n, t) \<in> set es}"
  by force


section \<open>Closures\<close>

definition os_set :: "'a::linorder oset \<Rightarrow> 'a set" where
  "os_set s = {k. os_member s k}"

lemma os_set_simps [simp]: "os_set om_empty = {}" "os_set (os_insert n s) = insert n (os_set s)" "n \<in> os_set s \<longleftrightarrow> os_member s n"
  by (auto simp: os_set_def)

lemma finite_os_set [simp]: "finite (os_set s)"
  using List.finite_set [of "om_keys s"] by (simp only: set_os_list os_set_def)

lemma walk_measure:
  assumes "finite T" "n \<in> A" "finite A" "\<not> os_member visited n" "B \<subseteq> A \<union> T"
  shows "card ((B \<union> T) - insert n (os_set visited)) < card ((A \<union> T) - os_set visited)"
  using assms by (intro psubset_card_mono) auto

function traverse_from :: "('a::linorder, 'a list) omap \<Rightarrow> 'a list \<Rightarrow> 'a oset \<Rightarrow> 'a oset" where
  "traverse_from m [] visited = visited"
| "traverse_from m (n # queue) visited =
    (if os_member visited n then traverse_from m queue visited
     else traverse_from m (queue @ links m n) (os_insert n visited))"
  by pat_completeness auto
termination
proof (relation "measures [\<lambda>(m, queue, visited). card ((set queue \<union> targets m) - os_set visited), \<lambda>(m, queue, visited). length queue]",
    goal_cases)
  case (2 m n queue visited)
  have "card ((set queue \<union> targets m) - os_set visited) \<le> card ((set (n # queue) \<union> targets m) - os_set visited)"
    by (rule card_mono) auto
  then show ?case by (auto simp: less_le)
next
  case (3 m n queue visited)
  then have "card ((set (queue @ links m n) \<union> targets m) - insert n (os_set visited))
      < card ((set (n # queue) \<union> targets m) - os_set visited)"
    using links_targets [of m n] by (intro walk_measure [where n = n]) auto
  then show ?case by simp
qed simp

function reach_from :: "('a::linorder \<times> 'a) list \<Rightarrow> 'a list \<Rightarrow> 'a oset \<Rightarrow> 'a oset" where
  "reach_from es [] visited = visited"
| "reach_from es (n # stack) visited =
    (if os_member visited n then reach_from es stack visited
     else reach_from es (rev (map snd (filter (\<lambda>e. fst e = n) es)) @ stack) (os_insert n visited))"
  by pat_completeness auto
termination
proof (relation "measures [\<lambda>(es, stack, visited). card ((set stack \<union> snd ` set es) - os_set visited), \<lambda>(es, stack, visited). length stack]",
    goal_cases)
  case (2 es n stack visited)
  have "card ((set stack \<union> snd ` set es) - os_set visited) \<le> card ((set (n # stack) \<union> snd ` set es) - os_set visited)"
    by (rule card_mono) auto
  then show ?case by (auto simp: less_le)
next
  case (3 es n stack visited)
  then have "card ((set (rev (map snd (filter (\<lambda>e. fst e = n) es)) @ stack) \<union> snd ` set es) - insert n (os_set visited))
      < card ((set (n # stack) \<union> snd ` set es) - os_set visited)"
    by (intro walk_measure [where n = n]) auto
  then show ?case by simp
qed simp

text \<open>Both closures hold the same thing, whatever order they visit in.\<close>

lemma closed_image: "(\<And>a b. a \<in> V \<Longrightarrow> (a, b) \<in> r \<Longrightarrow> b \<in> V) \<Longrightarrow> r\<^sup>* `` V = V"
proof
  assume closed: "\<And>a b. a \<in> V \<Longrightarrow> (a, b) \<in> r \<Longrightarrow> b \<in> V"
  have "x \<in> V" if "(s, x) \<in> r\<^sup>*" "s \<in> V" for s x
    using that by (induction rule: rtrancl_induct) (auto intro: closed)
  then show "r\<^sup>* `` V \<subseteq> V" by auto
qed auto

lemma traverse_from_exact:
  assumes "\<And>a b. os_member visited a \<Longrightarrow> b \<in> set (links m a) \<Longrightarrow> os_member visited b \<or> b \<in> set queue"
  shows "os_set (traverse_from m queue visited) =
    {(a, b). b \<in> set (links m a)}\<^sup>* `` (os_set visited \<union> set queue)"
  using assms
proof (induction m queue visited rule: traverse_from.induct)
  case (1 m visited)
  then have "{(a, b). b \<in> set (links m a)}\<^sup>* `` os_set visited = os_set visited" by (intro closed_image) auto
  then show ?case by simp
next
  case (2 m n queue visited)
  let ?r = "{(a, b). b \<in> set (links m a)}"
  show ?case
  proof (cases "os_member visited n")
    case True
    then have "os_set visited \<union> set (n # queue) = os_set visited \<union> set queue" by auto
    moreover have "\<And>a b. os_member visited a \<Longrightarrow> b \<in> set (links m a) \<Longrightarrow> os_member visited b \<or> b \<in> set queue"
      using 2(3) True by auto
    ultimately show ?thesis using 2(1) [OF True] True by simp
  next
    case False
    have "\<And>a b. os_member (os_insert n visited) a \<Longrightarrow> b \<in> set (links m a) \<Longrightarrow>
        os_member (os_insert n visited) b \<or> b \<in> set (queue @ links m n)"
      using 2(3) by auto
    from 2(2) [OF False this] have "os_set (traverse_from m (n # queue) visited) =
        ?r\<^sup>* `` (os_set (os_insert n visited) \<union> set (queue @ links m n))"
      using False by simp
    also have "\<dots> = ?r\<^sup>* `` (os_set visited \<union> set (n # queue))"
      by (auto intro: converse_rtrancl_into_rtrancl)
    finally show ?thesis .
  qed
qed

lemma reach_from_exact:
  assumes "\<And>a b. os_member visited a \<Longrightarrow> (a, b) \<in> set es \<Longrightarrow> os_member visited b \<or> b \<in> set stack"
  shows "os_set (reach_from es stack visited) = (set es)\<^sup>* `` (os_set visited \<union> set stack)"
  using assms
proof (induction es stack visited rule: reach_from.induct)
  case (1 es visited)
  then have "(set es)\<^sup>* `` os_set visited = os_set visited" by (intro closed_image) auto
  then show ?case by simp
next
  case (2 es n stack visited)
  show ?case
  proof (cases "os_member visited n")
    case True
    then have "os_set visited \<union> set (n # stack) = os_set visited \<union> set stack" by auto
    moreover have "\<And>a b. os_member visited a \<Longrightarrow> (a, b) \<in> set es \<Longrightarrow> os_member visited b \<or> b \<in> set stack"
      using 2(3) True by auto
    ultimately show ?thesis using 2(1) [OF True] True by simp
  next
    case False
    let ?next = "rev (map snd (filter (\<lambda>e. fst e = n) es))"
    have nxt: "set ?next = {b. (n, b) \<in> set es}" by force
    have "\<And>a b. os_member (os_insert n visited) a \<Longrightarrow> (a, b) \<in> set es \<Longrightarrow> os_member (os_insert n visited) b \<or> b \<in> set (?next @ stack)"
      using 2(3) unfolding set_append nxt by auto
    from 2(2) [OF False this] have "os_set (reach_from es (n # stack) visited) =
        (set es)\<^sup>* `` (os_set (os_insert n visited) \<union> set (?next @ stack))"
      using False by simp
    also have "\<dots> = (set es)\<^sup>* `` (os_set visited \<union> set (n # stack))"
      unfolding set_append nxt by (auto intro: converse_rtrancl_into_rtrancl)
    finally show ?thesis .
  qed
qed


section \<open>Strongly connected components\<close>

function finish_order :: "('a::linorder, 'a list) omap \<Rightarrow> ('a \<times> bool) list \<Rightarrow> 'a oset \<Rightarrow> 'a list \<Rightarrow> 'a oset \<times> 'a list" where
  "finish_order m [] visited order = (visited, order)"
| "finish_order m ((n, expanded) # stack) visited order =
    (if expanded then finish_order m stack visited (n # order)
     else if os_member visited n then finish_order m stack visited order
     else let visited' = os_insert n visited in
       finish_order m (map (\<lambda>t. (t, False)) (filter (\<lambda>t. \<not> os_member visited' t) (links m n)) @ (n, True) # stack) visited' order)"
  by pat_completeness auto
termination
proof (relation "measures [\<lambda>(m, stack, visited, order). card ((fst ` set stack \<union> targets m) - os_set visited), \<lambda>(m, stack, visited, order). length stack]",
    goal_cases)
  case (2 m n expanded stack visited order)
  have "card ((fst ` set stack \<union> targets m) - os_set visited) \<le> card ((fst ` set ((n, expanded) # stack) \<union> targets m) - os_set visited)"
    by (rule card_mono) auto
  then show ?case by (auto simp: less_le)
next
  case (3 m n expanded stack visited order)
  have "card ((fst ` set stack \<union> targets m) - os_set visited) \<le> card ((fst ` set ((n, expanded) # stack) \<union> targets m) - os_set visited)"
    by (rule card_mono) auto
  then show ?case by (auto simp: less_le)
next
  case (4 m n expanded stack visited order visited')
  then have "card ((fst ` set (map (\<lambda>t. (t, False)) (filter (\<lambda>t. \<not> os_member visited' t) (links m n)) @ (n, True) # stack) \<union> targets m)
        - insert n (os_set visited)) < card ((fst ` set ((n, expanded) # stack) \<union> targets m) - os_set visited)"
    using links_targets [of m n] by (intro walk_measure [where n = n]) auto
  then show ?case using 4 by simp
qed simp

text \<open>One component of the second pass: everything that reaches \<open>start\<close> and is not visited yet, in the order it is found.\<close>

function collect :: "('a::linorder, 'a list) omap \<Rightarrow> 'a list \<Rightarrow> 'a oset \<Rightarrow> 'a list \<Rightarrow> 'a oset \<times> 'a list" where
  "collect m [] visited found = (visited, found)"
| "collect m (n # stack) visited found =
    (if os_member visited n then collect m stack visited found
     else collect m (rev (links m n) @ stack) (os_insert n visited) (found @ [n]))"
  by pat_completeness auto
termination
proof (relation "measures [\<lambda>(m, stack, visited, found). card ((set stack \<union> targets m) - os_set visited), \<lambda>(m, stack, visited, found). length stack]",
    goal_cases)
  case (2 m n stack visited found)
  have "card ((set stack \<union> targets m) - os_set visited) \<le> card ((set (n # stack) \<union> targets m) - os_set visited)"
    by (rule card_mono) auto
  then show ?case by (auto simp: less_le)
next
  case (3 m n stack visited found)
  then have "card ((set (rev (links m n) @ stack) \<union> targets m) - insert n (os_set visited))
      < card ((set (n # stack) \<union> targets m) - os_set visited)"
    using links_targets [of m n] by (intro walk_measure [where n = n]) auto
  then show ?case by simp
qed simp

fun start_order :: "('a::linorder, 'a list) omap \<Rightarrow> 'a list \<Rightarrow> 'a oset \<Rightarrow> 'a list \<Rightarrow> 'a oset \<times> 'a list" where
  "start_order m [] visited order = (visited, order)"
| "start_order m (n # starts) visited order =
    (if os_member visited n then start_order m starts visited order
     else case finish_order m [(n, False)] visited order of (visited, order) \<Rightarrow> start_order m starts visited order)"

fun gather :: "('a::linorder, 'a list) omap \<Rightarrow> 'a list \<Rightarrow> 'a oset \<Rightarrow> 'a list list" where
  "gather m [] visited = []"
| "gather m (n # order) visited =
    (if os_member visited n then gather m order visited
     else case collect m [n] visited [] of (visited, found) \<Rightarrow> sort found # gather m order visited)"

definition components_of :: "'a::linorder list \<Rightarrow> ('a \<times> 'a) list \<Rightarrow> 'a list list" where
  "components_of nodes es =
    sort_key hd (gather (adjacency (map prod.swap es)) (snd (start_order (adjacency es) nodes om_empty [])) om_empty)"

end
