(* ===== verification/Components.thy ===== *)
theory Components
  imports Traversal
begin

text \<open>
  The two passes of \<open>components\<close> compute the strongly connected components. The first pass finishes a node only
  when all it leads to is visited; so a component that is finished as a whole before another node cannot reach that node, and
  the second pass, starting from the last finished node, collects one component at a time.
\<close>

abbreviation edge_of :: "('a::linorder, 'a list) omap \<Rightarrow> ('a \<times> 'a) set" where
  "edge_of m \<equiv> {(a, b). b \<in> set (links m a)}"

definition scc :: "('a \<times> 'a) set \<Rightarrow> 'a \<Rightarrow> 'a set" where
  "scc r n = {x. (n, x) \<in> r\<^sup>* \<and> (x, n) \<in> r\<^sup>*}"

lemma scc_refl [simp]: "n \<in> scc r n"
  by (simp add: scc_def)

lemma scc_sym: "x \<in> scc r n \<Longrightarrow> n \<in> scc r x"
  by (simp add: scc_def)

lemma scc_trans: "x \<in> scc r n \<Longrightarrow> y \<in> scc r x \<Longrightarrow> y \<in> scc r n"
  by (auto simp: scc_def intro: rtrancl_trans)

lemma scc_eq: "x \<in> scc r n \<Longrightarrow> scc r x = scc r n"
  by (rule set_eqI) (metis scc_sym scc_trans)


section \<open>The first pass\<close>

text \<open>Below each entry stands what led to it: an expanded node reaches everything that stands over it, and each node it leads to is
  visited or waits over it.\<close>

fun stack_ok :: "('a::linorder, 'a list) omap \<Rightarrow> 'a set \<Rightarrow> 'a set \<Rightarrow> ('a \<times> bool) list \<Rightarrow> bool" where
  "stack_ok m V A [] \<longleftrightarrow> True"
| "stack_ok m V A ((n, expanded) # stack) \<longleftrightarrow>
    (expanded \<longrightarrow> (\<forall>x\<in>A. (n, x) \<in> (edge_of m)\<^sup>*) \<and> set (links m n) \<subseteq> V \<union> A) \<and>
    stack_ok m V (insert n A) stack"

lemma stack_ok_mono: "stack_ok m V A stack \<Longrightarrow> V \<subseteq> W \<Longrightarrow> stack_ok m W A stack"
  by (induction stack arbitrary: A) fastforce+

lemma stack_ok_drop: "stack_ok m V (insert n A) stack \<Longrightarrow> n \<in> V \<Longrightarrow> stack_ok m V A stack"
proof (induction stack arbitrary: A)
  case (Cons e stack)
  then show ?case by (cases e) (auto simp: insert_commute)
qed simp

lemma stack_ok_reaches: "stack_ok m V A stack \<Longrightarrow> (g, True) \<in> set stack \<Longrightarrow> x \<in> A \<Longrightarrow> (g, x) \<in> (edge_of m)\<^sup>*"
  by (induction stack arbitrary: A) auto

lemma stack_ok_lead:
  "stack_ok m V A stack \<Longrightarrow> n \<in> A \<Longrightarrow> W \<subseteq> set (links m n) \<Longrightarrow> stack_ok m V (A \<union> W) stack"
proof (induction stack arbitrary: A)
  case (Cons e stack)
  obtain g ex where e: "e = (g, ex)" by (cases e)
  have "(g, x) \<in> (edge_of m)\<^sup>*" if "(g, n) \<in> (edge_of m)\<^sup>*" "x \<in> W" for x
    using that Cons.prems(3) by (auto intro: rtrancl_into_rtrancl)
  moreover have "insert g (A \<union> W) = insert g A \<union> W" by auto
  ultimately show ?case using Cons.prems Cons.IH [of "insert g A"] by (auto simp: e)
qed simp

abbreviation gray :: "('a \<times> bool) list \<Rightarrow> 'a set" where
  "gray stack \<equiv> {n. (n, True) \<in> set stack}"

definition dfs_inv :: "('a::linorder, 'a list) omap \<Rightarrow> ('a \<times> bool) list \<Rightarrow> 'a oset \<Rightarrow> 'a list \<Rightarrow> bool" where
  "dfs_inv m stack visited order \<longleftrightarrow>
    os_set visited = set order \<union> gray stack \<and> gray stack \<inter> set order = {} \<and>
    distinct (map fst (filter snd stack)) \<and> distinct order \<and> stack_ok m (os_set visited) {} stack \<and>
    (\<forall>a\<in>set order. set (links m a) \<subseteq> os_set visited) \<and>
    (\<forall>a\<in>set order. (edge_of m)\<^sup>* `` {a} \<subseteq> set order \<or> gray stack \<inter> scc (edge_of m) a \<noteq> {}) \<and>
    (\<forall>xs v ys u. order = xs @ v # ys \<longrightarrow> (u, v) \<in> (edge_of m)\<^sup>* \<longrightarrow> \<not> scc (edge_of m) u \<subseteq> set ys)"

lemma dfs_invD:
  assumes "dfs_inv m stack visited order"
  shows "os_set visited = set order \<union> gray stack" "gray stack \<inter> set order = {}"
    "distinct (map fst (filter snd stack))" "distinct order" "stack_ok m (os_set visited) {} stack"
    "\<And>a. a \<in> set order \<Longrightarrow> set (links m a) \<subseteq> os_set visited"
    "\<And>a. a \<in> set order \<Longrightarrow> (edge_of m)\<^sup>* `` {a} \<subseteq> set order \<or> gray stack \<inter> scc (edge_of m) a \<noteq> {}"
    "\<And>xs v ys u. order = xs @ v # ys \<Longrightarrow> (u, v) \<in> (edge_of m)\<^sup>* \<Longrightarrow> \<not> scc (edge_of m) u \<subseteq> set ys"
  using assms unfolding dfs_inv_def by blast+

text \<open>A path out of a set in which every node's successors are visited leaves it through a node still open.\<close>

lemma path_leaves:
  assumes "(a, w) \<in> r\<^sup>*" "a \<in> S" "w \<notin> S"
  obtains p c where "p \<in> S" "c \<notin> S" "(a, p) \<in> r\<^sup>*" "(p, c) \<in> r"
proof -
  have "w \<notin> S \<Longrightarrow> \<exists>p c. p \<in> S \<and> c \<notin> S \<and> (a, p) \<in> r\<^sup>* \<and> (p, c) \<in> r" using assms(1)
  proof (induction rule: rtrancl_induct)
    case base
    then show ?case using assms(2) by simp
  next
    case (step y z)
    then show ?case by (cases "y \<in> S") auto
  qed
  then show thesis using assms(3) that by blast
qed

lemma finish_closed:
  assumes inv: "dfs_inv m ((n, True) # stack) visited order"
  shows "(edge_of m)\<^sup>* `` {n} \<subseteq> insert n (set order) \<or> gray stack \<inter> scc (edge_of m) n \<noteq> {}"
proof (rule disjCI)
  let ?r = "edge_of m"
  note i = dfs_invD [OF inv]
  assume open_: "\<not> gray stack \<inter> scc ?r n \<noteq> {}"
  show "?r\<^sup>* `` {n} \<subseteq> insert n (set order)"
  proof (rule ccontr)
    assume "\<not> ?r\<^sup>* `` {n} \<subseteq> insert n (set order)"
    then obtain w where w: "(n, w) \<in> ?r\<^sup>*" "w \<notin> insert n (set order)" by auto
    obtain p c where p: "p \<in> insert n (set order)" "c \<notin> insert n (set order)" "(n, p) \<in> ?r\<^sup>*" "(p, c) \<in> ?r"
      by (rule path_leaves [OF w(1) _ w(2)]) auto
    have "c \<in> os_set visited" using p(1,4) i(5) i(6) [of p] by (auto simp del: os_set_simps)
    then have c: "(c, True) \<in> set stack" using p(2) i(1) by auto
    have "(n, c) \<in> ?r\<^sup>*" using p(3,4) by (rule rtrancl_into_rtrancl)
    moreover have "(c, n) \<in> ?r\<^sup>*" using i(5) c by (auto intro: stack_ok_reaches)
    ultimately show False using open_ c by (auto simp: scc_def)
  qed
qed

lemma dfs_finish:
  assumes inv: "dfs_inv m ((n, True) # stack) visited order"
  shows "dfs_inv m stack visited (n # order)"
proof -
  let ?r = "edge_of m"
  note i = dfs_invD [OF inv]
  have n: "(n, True) \<notin> set stack" "n \<notin> set order" using i(2,3) by force+
  have vis: "os_set visited = set (n # order) \<union> gray stack" using i(1) by auto
  have G: "?r\<^sup>* `` {a} \<subseteq> set (n # order) \<or> gray stack \<inter> scc ?r a \<noteq> {}" if a: "a \<in> set (n # order)" for a
  proof (cases "n \<in> scc ?r a")
    case True
    then have "scc ?r a = scc ?r n" "?r\<^sup>* `` {a} = ?r\<^sup>* `` {n}"
      using scc_eq by (fast, auto simp: scc_def intro: rtrancl_trans)
    then show ?thesis using finish_closed [OF inv] by simp
  next
    case False
    then have "a \<in> set order" using a by auto
    then show ?thesis using i(7) [of a] False by auto
  qed
  have K: "\<not> scc ?r u \<subseteq> set ys" if "n # order = xs @ v # ys" "(u, v) \<in> ?r\<^sup>*" for xs v ys u
  proof (cases xs)
    case Nil
    then have v: "v = n" "ys = order" using that(1) by auto
    show ?thesis
    proof
      assume sub: "scc ?r u \<subseteq> set ys"
      then have "u \<in> set order" using v by auto
      from i(7) [OF this] show False using that(2) n(2) sub i(2) v by (auto simp: scc_def)
    qed
  next
    case (Cons x xs')
    then show ?thesis using that i(8) by auto
  qed
  have "stack_ok m (os_set visited) {} stack" using i(5) i(1) by (auto intro: stack_ok_drop)
  moreover have "set (links m a) \<subseteq> os_set visited" if "a \<in> set (n # order)" for a
    using that i(5,6) by (auto simp del: os_set_simps)
  ultimately show ?thesis unfolding dfs_inv_def using vis n i(2,3,4) G K by auto
qed

lemma dfs_visit:
  assumes inv: "dfs_inv m ((n, False) # stack) visited order" and "\<not> os_member visited n"
  defines "visited' \<equiv> os_insert n visited"
  defines "ws \<equiv> filter (\<lambda>t. \<not> os_member visited' t) (links m n)"
  shows "dfs_inv m (map (\<lambda>t. (t, False)) ws @ (n, True) # stack) visited' order"
proof -
  note i = dfs_invD [OF inv]
  let ?stack = "map (\<lambda>t. (t, False)) ws @ (n, True) # stack"
  have g: "gray ?stack = insert n (gray stack)" by auto
  have n: "n \<notin> set order" "(n, True) \<notin> set stack" using assms(2) i(1) by (auto simp flip: os_set_simps(3))
  have ok: "stack_ok m V A (map (\<lambda>t. (t, False)) ts @ st) = stack_ok m V (set ts \<union> A) st" for V A ts st
    by (induction ts arbitrary: A) auto
  have "stack_ok m (os_set visited) {n} stack" using i(5) by simp
  then have "stack_ok m (os_set visited') {n} stack" by (rule stack_ok_mono) (auto simp: visited'_def)
  then have "stack_ok m (os_set visited') ({n} \<union> set ws) stack" by (rule stack_ok_lead) (auto simp: ws_def)
  then have "stack_ok m (os_set visited') {} ?stack" unfolding ok by (auto simp: ws_def visited'_def)
  moreover have "distinct (map fst (filter snd ?stack))" using i(3) n(2) by force
  moreover have "os_set visited' = set order \<union> gray ?stack" using i(1) unfolding g by (simp add: visited'_def)
  moreover have "\<forall>a\<in>set order. set (links m a) \<subseteq> os_set visited'" using i(6) by (auto simp: visited'_def)
  moreover have "\<forall>a\<in>set order. (edge_of m)\<^sup>* `` {a} \<subseteq> set order \<or> gray ?stack \<inter> scc (edge_of m) a \<noteq> {}"
    using i(7) unfolding g by auto
  ultimately show ?thesis unfolding dfs_inv_def using i(2,4,8) n unfolding g by auto
qed

lemma os_mono: "os_member visited n \<Longrightarrow> os_set visited \<subseteq> os_set visited' \<Longrightarrow> os_member visited' n"
  by (auto simp flip: os_set_simps(3))

lemma dfs_skip:
  assumes inv: "dfs_inv m ((n, False) # stack) visited order" and "os_member visited n"
  shows "dfs_inv m stack visited order"
proof -
  note i = dfs_invD [OF inv]
  have "stack_ok m (os_set visited) {} stack" using i(5) assms(2) by (auto intro: stack_ok_drop)
  then show ?thesis using inv unfolding dfs_inv_def by (simp cong: conj_cong)
qed

lemma finish_order_inv:
  assumes "dfs_inv m stack visited order" "finish_order m stack visited order = (visited', order')"
    "os_set visited \<union> fst ` set stack \<subseteq> N" "\<And>a. set (links m a) \<subseteq> N"
  shows "dfs_inv m [] visited' order' \<and> os_set visited \<union> fst ` set stack \<subseteq> os_set visited' \<and> os_set visited' \<subseteq> N"
  using assms
proof (induction m stack visited order rule: finish_order.induct)
  case (1 m visited order)
  then show ?case by simp
next
  case (2 m n expanded stack visited order)
  consider "expanded" | "\<not> expanded" "os_member visited n" | "\<not> expanded" "\<not> os_member visited n" by blast
  then show ?case
  proof cases
    case 1
    then have "n \<in> os_set visited" using dfs_invD(1) [OF 2(4)] by auto
    then show ?thesis using 1 2(1) [OF 1 dfs_finish _ _ 2(7)] 2(4-6) by auto
  next
    case 2
    have "dfs_inv m ((n, False) # stack) visited order" using "2.prems"(1) 2(1) by simp
    note s = dfs_skip [OF this 2(2)]
    have "finish_order m stack visited order = (visited', order')" "os_set visited \<union> fst ` set stack \<subseteq> N"
      using "2.prems"(2,3) 2 by auto
    note h = "2.IH"(2) [OF 2 s this "2.prems"(4)]
    then show ?thesis using os_mono [OF 2(2), of visited'] by simp
  next
    case 3
    have "dfs_inv m ((n, False) # stack) visited order" using "2.prems"(1) 3(1) by simp
    note v = dfs_visit [OF this 3(2)]
    let ?stack = "map (\<lambda>t. (t, False)) (filter (\<lambda>t. \<not> os_member (os_insert n visited) t) (links m n)) @ (n, True) # stack"
    have "finish_order m ?stack (os_insert n visited) order = (visited', order')" using "2.prems"(2) 3 by (simp add: Let_def)
    moreover have "os_set (os_insert n visited) \<union> fst ` set ?stack \<subseteq> N" using "2.prems"(3) "2.prems"(4) [of n] by auto
    ultimately show ?thesis using "2.IH"(3) [OF 3 refl v _ _ "2.prems"(4)] by auto
  qed
qed

lemma start_order_inv:
  assumes "dfs_inv m [] visited order" "start_order m starts visited order = (visited', order')"
    "os_set visited \<union> set starts \<subseteq> N" "\<And>a. set (links m a) \<subseteq> N"
  shows "dfs_inv m [] visited' order' \<and> os_set visited \<union> set starts \<subseteq> os_set visited' \<and> os_set visited' \<subseteq> N"
  using assms(1-3)
proof (induction starts arbitrary: visited order)
  case (Cons n starts)
  show ?case
  proof (cases "os_member visited n")
    case True
    then have "dfs_inv m [] visited' order' \<and> os_set visited \<union> set starts \<subseteq> os_set visited' \<and> os_set visited' \<subseteq> N"
      using Cons by simp
    then show ?thesis using os_mono [OF True, of visited'] by simp
  next
    case False
    obtain v o' where fo: "finish_order m [(n, False)] visited order = (v, o')" by (cases "finish_order m [(n, False)] visited order")
    have "dfs_inv m [(n, False)] visited order" using Cons.prems(1) unfolding dfs_inv_def by (simp cong: conj_cong)
    then have v: "dfs_inv m [] v o'" "os_set visited \<union> {n} \<subseteq> os_set v" "os_set v \<subseteq> N"
      using finish_order_inv [OF _ fo, of N] assms(4) Cons.prems(3) by auto
    have "start_order m starts v o' = (visited', order')" "os_set v \<union> set starts \<subseteq> N"
      using Cons.prems(2,3) False v(3) by (auto simp: fo simp del: finish_order.simps)
    from Cons.IH [OF v(1) this] show ?thesis using v(2) by auto
  qed
qed simp

text \<open>After the first pass every node that leads to \<open>v\<close> shares its component with \<open>v\<close> or with a node that stands before \<open>v\<close>.\<close>

lemma start_order_finishing:
  assumes e: "edge_of m = r" and r: "r \<subseteq> set nodes \<times> set nodes"
  defines "order \<equiv> snd (start_order m nodes om_empty [])"
  shows "set order = set nodes" "distinct order"
    "order = xs @ v # ys \<Longrightarrow> (u, v) \<in> r\<^sup>* \<Longrightarrow> \<exists>x\<in>insert v (set xs). x \<in> scc r u"
proof -
  obtain vis where so: "start_order m nodes om_empty [] = (vis, order)" by (metis order_def prod.collapse)
  have "dfs_inv m [] om_empty []" by (simp add: dfs_inv_def)
  moreover have "set (links m a) \<subseteq> set nodes" for a using e r by auto
  ultimately have i: "dfs_inv m [] vis order" "set nodes \<subseteq> os_set vis" "os_set vis \<subseteq> set nodes"
    using start_order_inv [OF _ so, of "set nodes"] by (auto simp del: os_set_simps(3))
  then show o: "set order = set nodes" "distinct order" using dfs_invD [OF i(1)] by auto
  have closed: "b \<in> set nodes" if "(a, b) \<in> r\<^sup>*" "a \<in> set nodes" for a b
    using that r by (induction rule: rtrancl_induct) auto
  assume ord: "order = xs @ v # ys" "(u, v) \<in> r\<^sup>*"
  obtain x where x: "x \<in> scc r u" "x \<notin> set ys" using dfs_invD(8) [OF i(1) ord(1)] ord(2) unfolding e by auto
  have "u \<in> set nodes" using ord(2)
  proof (cases rule: converse_rtranclE)
    case base
    then show ?thesis using ord(1) o(1) by auto
  next
    case (step y)
    then show ?thesis using r by auto
  qed
  then have "x \<in> set order" using x(1) closed o(1) by (auto simp: scc_def)
  then show "\<exists>x\<in>insert v (set xs). x \<in> scc r u" using x ord(1) by auto
qed


section \<open>The second pass\<close>

lemma collect_exact:
  assumes "\<And>a b. os_member visited a \<Longrightarrow> b \<in> set (links m a) \<Longrightarrow> os_member visited b \<or> b \<in> set stack"
    "collect m stack visited found = (visited', found')"
  shows "os_set visited' = (edge_of m)\<^sup>* `` (os_set visited \<union> set stack) \<and>
    (\<exists>new. found' = found @ new \<and> distinct new \<and> set new = os_set visited' - os_set visited)"
  using assms
proof (induction m stack visited found rule: collect.induct)
  case (1 m visited found)
  then have "(edge_of m)\<^sup>* `` os_set visited = os_set visited" by (intro closed_image) auto
  then show ?case using 1 by simp
next
  case (2 m n stack visited found)
  show ?case
  proof (cases "os_member visited n")
    case True
    then have "os_set visited \<union> set (n # stack) = os_set visited \<union> set stack" by auto
    moreover have "\<And>a b. os_member visited a \<Longrightarrow> b \<in> set (links m a) \<Longrightarrow> os_member visited b \<or> b \<in> set stack"
      using 2(3) True by auto
    ultimately show ?thesis using 2(1) [OF True] 2(4) True by auto
  next
    case False
    let ?visited = "os_insert n visited"
    have "os_set visited' = (edge_of m)\<^sup>* `` (os_set ?visited \<union> set (rev (links m n) @ stack)) \<and>
      (\<exists>new. found' = (found @ [n]) @ new \<and> distinct new \<and> set new = os_set visited' - os_set ?visited)"
    proof (rule 2(2) [OF False])
      show "collect m (rev (links m n) @ stack) ?visited (found @ [n]) = (visited', found')" using 2(4) False by simp
    qed (use 2(3) in auto)
    then obtain new where new: "os_set visited' = (edge_of m)\<^sup>* `` (os_set ?visited \<union> set (rev (links m n) @ stack))"
        "found' = found @ n # new" "distinct new" "set new = os_set visited' - os_set ?visited"
      by auto
    have "os_set visited' = (edge_of m)\<^sup>* `` (os_set visited \<union> set (n # stack))"
      unfolding new(1) by (auto intro: converse_rtrancl_into_rtrancl)
    moreover have n: "n \<in> os_set visited'" unfolding new(1) by auto
    have "distinct (n # new)" using new(3,4) by simp
    moreover have "set (n # new) = os_set visited' - os_set visited"
      using n False unfolding list.set new(4) os_set_simps(2) by (auto simp del: os_set_simps(2))
    ultimately show ?thesis using new(2) by blast
  qed
qed

abbreviation component_list :: "('a::linorder \<times> 'a) set \<Rightarrow> 'a \<Rightarrow> 'a list" where
  "component_list r n \<equiv> sorted_list_of_set (scc r n)"

lemma gather_exact:
  assumes m: "edge_of m = (r\<inverse>)" and order: "order = xs @ ys"
    and scc: "\<And>n. n \<in> set order \<Longrightarrow> finite (scc r n)" and preds: "\<And>a b. (a, b) \<in> r \<Longrightarrow> b \<in> set order"
    and finishing: "\<And>xs v ys u. order = xs @ v # ys \<Longrightarrow> (u, v) \<in> r\<^sup>* \<Longrightarrow> \<exists>x\<in>insert v (set xs). x \<in> scc r u"
    and visited: "os_set visited = \<Union> (scc r ` set xs)"
  shows "distinct (gather m ys visited) \<and> set (gather m ys visited) = component_list r ` {n \<in> set ys. \<not> os_member visited n}"
  using order visited
proof (induction ys arbitrary: xs visited)
  case (Cons v ys)
  have in_scc: "os_member visited u \<longleftrightarrow> (\<exists>x\<in>set xs. u \<in> scc r x)" for u
    using Cons.prems(2) by (simp flip: os_set_simps(3))
  have before: "os_member visited u \<or> u \<in> scc r v" if uv: "(u, v) \<in> r\<^sup>*" for u
  proof -
    from finishing [OF Cons.prems(1) uv] obtain x where "x \<in> insert v (set xs)" "x \<in> scc r u" ..
    then show ?thesis using in_scc scc_sym [of x r u] by auto
  qed
  show ?case
  proof (cases "os_member visited v")
    case True
    then have "scc r v \<subseteq> os_set visited" using scc_trans [of v r] by (fastforce simp: in_scc)
    then have "os_set visited = \<Union> (scc r ` set (xs @ [v]))" using Cons.prems(2) by auto
    moreover have "{n \<in> set (v # ys). \<not> os_member visited n} = {n \<in> set ys. \<not> os_member visited n}" using True by auto
    ultimately show ?thesis using Cons.IH [of "xs @ [v]" visited] Cons.prems(1) True by simp
  next
    case False
    obtain vis found where c: "collect m [v] visited [] = (vis, found)" by (cases "collect m [v] visited []")
    have closed: "os_member visited b" if old: "os_member visited a" "(b, a) \<in> r" for a b
    proof -
      from old(1) obtain x where x: "x \<in> set xs" "a \<in> scc r x" unfolding in_scc by auto
      obtain as bs where "xs = as @ x # bs" using x(1) by (meson split_list)
      then have "\<exists>y\<in>insert x (set as). y \<in> scc r b"
        using finishing [of as x "bs @ v # ys" b] Cons.prems(1) x(2) old(2) by (auto simp: scc_def intro: converse_rtrancl_into_rtrancl)
      then obtain y where "y \<in> set xs" "y \<in> scc r b" using \<open>xs = _\<close> by auto
      then show ?thesis using in_scc scc_sym [of y r b] by auto
    qed
    have links: "b \<in> set (links m a) \<longleftrightarrow> (b, a) \<in> r" for a b using m by blast
    have vis: "os_set vis = (r\<inverse>)\<^sup>* `` (os_set visited \<union> {v})" "distinct found" "set found = os_set vis - os_set visited"
    proof -
      have "os_member visited b \<or> b \<in> set [v]" if "os_member visited a" "b \<in> set (links m a)" for a b
        using that closed by (simp add: links)
      from collect_exact [OF this c] show "os_set vis = (r\<inverse>)\<^sup>* `` (os_set visited \<union> {v})" "distinct found"
          "set found = os_set vis - os_set visited"
        unfolding m by auto
    qed
    have old: "(r\<inverse>)\<^sup>* `` os_set visited = os_set visited" using closed by (intro closed_image) auto
    have visv: "os_set vis = os_set visited \<union> {u. (u, v) \<in> r\<^sup>*}"
      unfolding vis(1) Image_Un old by (auto simp: rtrancl_converse)
    have disj: "\<not> os_member visited u" if "u \<in> scc r v" for u
      using that False in_scc scc_sym [OF that] scc_trans [of u r _ v] by auto
    have "set found = scc r v" unfolding vis(3) visv
    proof (intro set_eqI iffI)
      fix u assume "u \<in> os_set visited \<union> {u. (u, v) \<in> r\<^sup>*} - os_set visited"
      then show "u \<in> scc r v" using before [of u] by auto
    next
      fix u assume "u \<in> scc r v"
      then show "u \<in> os_set visited \<union> {u. (u, v) \<in> r\<^sup>*} - os_set visited" using disj [of u] by (simp add: scc_def)
    qed
    then have found: "sort found = component_list r v" using vis(2) by (simp add: sorted_list_of_set_sort_remdups distinct_remdups_id flip: \<open>set found = scc r v\<close>)
    have visu: "os_set vis = \<Union> (scc r ` set (xs @ [v]))"
    proof -
      have "scc r v \<subseteq> {u. (u, v) \<in> r\<^sup>*}" by (auto simp: scc_def)
      then have "os_set visited \<union> {u. (u, v) \<in> r\<^sup>*} = os_set visited \<union> scc r v" using before by fastforce
      then show ?thesis unfolding visv by (simp add: Cons.prems(2) Un_commute)
    qed
    then have IH: "distinct (gather m ys vis)" "set (gather m ys vis) = component_list r ` {n \<in> set ys. \<not> os_member vis n}"
      using Cons.IH [of "xs @ [v]" vis] Cons.prems(1) by auto
    have split: "{n \<in> set (v # ys). \<not> os_member visited n} = insert v {n \<in> set ys. \<not> os_member visited n}" using False by auto
    have same: "component_list r n = component_list r v" if "n \<in> scc r v" for n using scc_eq [OF that] by simp
    have vis_iff: "os_member vis n \<longleftrightarrow> os_member visited n \<or> n \<in> scc r v" for n
      unfolding os_set_simps(3) [symmetric] visu Cons.prems(2) by auto
    have gather: "gather m (v # ys) visited = component_list r v # gather m ys vis" using False by (simp add: c found del: collect.simps)
    have "component_list r v \<notin> set (gather m ys vis)"
    proof
      assume "component_list r v \<in> set (gather m ys vis)"
      then obtain n where n: "n \<in> set ys" "\<not> os_member vis n" "component_list r v = component_list r n" unfolding IH(2) by auto
      have "set (component_list r v) = set (component_list r n)" by (simp only: n(3))
      then have "scc r v = scc r n" using scc [of v] scc [of n] Cons.prems(1) n(1) by simp
      then show False using n(2) by (simp add: vis_iff)
    qed
    moreover have "set (gather m (v # ys) visited) = component_list r ` {n \<in> set (v # ys). \<not> os_member visited n}"
      
    proof -
      have "component_list r n \<in> insert (component_list r v) (component_list r ` {n \<in> set ys. \<not> os_member vis n})"
        if "n \<in> set ys" "\<not> os_member visited n" for n
        using that same [of n] by (cases "n \<in> scc r v") (auto simp: vis_iff)
      then have "insert (component_list r v) (component_list r ` {n \<in> set ys. \<not> os_member vis n}) =
          insert (component_list r v) (component_list r ` {n \<in> set ys. \<not> os_member visited n})"
        by (auto simp: vis_iff)
      then show ?thesis unfolding split unfolding image_insert gather list.set IH(2) .
    qed
    ultimately show ?thesis unfolding gather using IH(1) by simp
  qed
qed simp


section \<open>Components\<close>

lemma hd_component:
  assumes "finite (scc r n)"
  shows "hd (component_list r n) = Min (scc r n)"
  using assms sorted_list_of_set_nonempty [of "scc r n"] scc_refl [of n r] by fastforce

lemma least_of_component: "finite (scc r n) \<Longrightarrow> component_list r (Min (scc r n)) = component_list r n \<and> Min (scc r n) \<in> scc r n"
  using Min_in [of "scc r n"] scc_refl [of n r] scc_eq by fastforce

lemma scc_within:
  assumes "r \<subseteq> N \<times> N" "n \<in> N"
  shows "scc r n \<subseteq> N"
proof -
  have "b \<in> N" if "(a, b) \<in> r\<^sup>*" "a \<in> N" for a b
    using that assms(1) by (induction rule: rtrancl_induct) auto
  then show ?thesis using assms(2) by (auto simp: scc_def)
qed

text \<open>Both passes over any adjacency maps of a relation and its converse.\<close>

lemma two_passes_exact:
  assumes m: "edge_of m = r" "edge_of m' = r\<inverse>" and r: "r \<subseteq> set nodes \<times> set nodes"
  defines "found \<equiv> gather m' (snd (start_order m nodes om_empty [])) om_empty"
  shows "distinct found" "set found = component_list r ` set nodes"
proof -
  let ?order = "snd (start_order m nodes om_empty [])"
  have fin: "finite (scc r n)" if "n \<in> set nodes" for n using scc_within [OF r that] finite_subset by blast
  note fo = start_order_finishing [OF m(1) r]
  have "distinct found \<and> set found = component_list r ` {n \<in> set ?order. \<not> os_member om_empty n}"
    unfolding found_def
  proof (rule gather_exact [where order = ?order and xs = "[]"])
    show "b \<in> set ?order" if "(a, b) \<in> r" for a b using that r fo(1) by auto
  qed (use m(2) fin fo in auto)
  then show "distinct found" "set found = component_list r ` set nodes" using fo(1) by auto
qed

text \<open>The reference: one list per strongly connected component, each listed in order, the lists ordered by their least members.\<close>

lemma components_reference:
  assumes nodes: "sorted nodes" "distinct nodes" and es: "set es \<subseteq> set nodes \<times> set nodes"
  shows "components_of nodes es = map (component_list (set es)) (filter (\<lambda>n. n = Min (scc (set es) n)) nodes)"
    (is "?left = ?right")
proof -
  let ?r = "set es"
  let ?order = "snd (start_order (adjacency es) nodes om_empty [])"
  let ?found = "gather (adjacency (map prod.swap es)) ?order om_empty"
  have sub: "scc ?r n \<subseteq> set nodes" if "n \<in> set nodes" for n using scc_within [OF es that] .
  have fin: "finite (scc ?r n)" if "n \<in> set nodes" for n using sub [OF that] finite_subset by blast
  have "edge_of (adjacency es) = ?r" "edge_of (adjacency (map prod.swap es)) = ?r\<inverse>"
    by (auto simp: set_links_adjacency simp del: links_adjacency)
  from two_passes_exact [OF this es] have found: "distinct ?found" "set ?found = component_list ?r ` set nodes" by auto
  have inj: "inj_on hd (component_list ?r ` set nodes)"
  proof (rule inj_onI, elim imageE)
    fix x y a b assume h: "hd x = hd y" "x = component_list ?r a" "y = component_list ?r b" "a \<in> set nodes" "b \<in> set nodes"
    then have "Min (scc ?r a) = Min (scc ?r b)" by (simp add: hd_component fin)
    then show "x = y" using h(2-5) least_of_component fin by metis
  qed
  have image: "set ?right = component_list ?r ` set nodes"
  proof
    show "component_list ?r ` set nodes \<subseteq> set ?right"
    proof
      fix c assume "c \<in> component_list ?r ` set nodes"
      then obtain n where n: "n \<in> set nodes" "c = component_list ?r n" by auto
      let ?k = "Min (scc ?r n)"
      have k: "component_list ?r ?k = c" "?k \<in> scc ?r n" using least_of_component [OF fin [OF n(1)]] n(2) by auto
      then have "?k = Min (scc ?r ?k)" "?k \<in> set nodes" using scc_eq sub [OF n(1)] by (metis, auto)
      then show "c \<in> set ?right" using k(1) by force
    qed
  qed auto
  have heads: "map hd ?right = filter (\<lambda>n. n = Min (scc ?r n)) nodes"
    by (auto simp: hd_component fin comp_def intro!: map_idI)
  show ?thesis
  proof (rule map_sorted_distinct_set_unique [where f = hd])
    show "set ?left = set ?right" using found(2) image by (simp add: components_of_def)
    then show "inj_on hd (set ?left \<union> set ?right)" using inj image by simp
    show "sorted (map hd ?left)" by (simp add: components_of_def)
    show "distinct (map hd ?left)"
      using found inj by (simp add: components_of_def distinct_map)
    show "sorted (map hd ?right)" "distinct (map hd ?right)" unfolding heads using nodes sorted_filter [of id nodes] by simp_all
  qed
qed

section \<open>Cycles\<close>

lemma trancl_scc:
  assumes "v \<in> scc r k" "(v, v) \<in> r\<^sup>+"
  shows "(k, k) \<in> r\<^sup>+"
proof -
  have "(k, v) \<in> r\<^sup>*" "(v, k) \<in> r\<^sup>*" using assms(1) by (simp_all add: scc_def)
  then show ?thesis using assms(2) by (meson rtrancl_trancl_trancl trancl_rtrancl_trancl)
qed

lemma cyclic_component:
  assumes "finite (scc r k)"
  shows "(k, k) \<in> r\<^sup>+ \<longleftrightarrow> 1 < card (scc r k) \<or> (k, k) \<in> r"
proof
  assume "(k, k) \<in> r\<^sup>+"
  then obtain y where y: "(k, y) \<in> r" "(y, k) \<in> r\<^sup>*" by (meson tranclD)
  then have "y \<in> scc r k" by (auto simp: scc_def)
  then have "{k, y} \<subseteq> scc r k" by simp
  then have "card {k, y} \<le> card (scc r k)" by (rule card_mono [OF assms])
  then show "1 < card (scc r k) \<or> (k, k) \<in> r" using y(1) by (cases "y = k") auto
next
  assume "1 < card (scc r k) \<or> (k, k) \<in> r"
  then show "(k, k) \<in> r\<^sup>+"
  proof
    assume "1 < card (scc r k)"
    then have "\<not> scc r k \<subseteq> {k}" using card_mono [of "{k}" "scc r k"] by auto
    then obtain x where x: "x \<in> scc r k" "x \<noteq> k" by auto
    then have "(k, x) \<in> r\<^sup>+" "(x, k) \<in> r\<^sup>*" by (auto simp: scc_def rtrancl_eq_or_trancl)
    then show ?thesis by (rule trancl_rtrancl_trancl)
  qed auto
qed

end
