(* ===== verification/Depth.thy ===== *)
theory Depth
  imports Components
begin

text \<open>
  The depth of a graph: \<open>longest_acyclic_depth\<close> of \<open>core/graph/src/lint/budget.rs\<close> works on the graph of the components, numbered by
  their positions, and removes the components without incoming edge one after the other. The loop has one unit of fuel per
  component, and \<open>indegree[target] -= 1\<close> has no result on zero; the theorem shows that neither is ever exhausted.
\<close>

section \<open>The queue\<close>

fun relax :: "nat \<Rightarrow> nat list \<Rightarrow> nat list \<Rightarrow> nat list \<Rightarrow> nat list \<Rightarrow> (nat list \<times> nat list \<times> nat list) option" where
  "relax depth [] depths indegree queue = Some (depths, indegree, queue)"
| "relax depth (t # ts) depths indegree queue =
    (case indegree ! t of
       0 \<Rightarrow> None
     | Suc k \<Rightarrow> relax depth ts (depths[t := max (depths ! t) (depth + 1)]) (indegree[t := k]) (if k = 0 then queue @ [t] else queue))"

fun depth_loop :: "nat oset list \<Rightarrow> nat \<Rightarrow> nat list \<Rightarrow> nat list \<Rightarrow> nat list \<Rightarrow> nat \<Rightarrow> nat option" where
  "depth_loop outgoing fuel [] indegree depths maximum = Some maximum"
| "depth_loop outgoing 0 (c # queue) indegree depths maximum = None"
| "depth_loop outgoing (Suc fuel) (c # queue) indegree depths maximum =
    (case relax (depths ! c) (om_keys (outgoing ! c)) depths indegree queue of
       None \<Rightarrow> None
     | Some (depths', indegree', queue') \<Rightarrow> depth_loop outgoing fuel queue' indegree' depths' (max maximum (depths ! c)))"

lemma relax_spec:
  assumes "distinct ts" "\<And>t. t \<in> set ts \<Longrightarrow> t < length indegree \<and> 0 < indegree ! t" "length depths = length indegree"
  shows "\<exists>depths' indegree'. relax depth ts depths indegree queue =
      Some (depths', indegree', queue @ filter (\<lambda>t. indegree ! t = 1) ts) \<and>
    length depths' = length depths \<and> length indegree' = length indegree \<and>
    (\<forall>t<length indegree. depths' ! t = (if t \<in> set ts then max (depths ! t) (depth + 1) else depths ! t) \<and>
       indegree' ! t = (if t \<in> set ts then indegree ! t - 1 else indegree ! t))"
  using assms
proof (induction ts arbitrary: depths indegree queue)
  case (Cons t ts)
  obtain k where k: "indegree ! t = Suc k" using Cons.prems(2) [of t] by (cases "indegree ! t") auto
  let ?d = "depths[t := max (depths ! t) (depth + 1)]" and ?i = "indegree[t := k]" and ?q = "if k = 0 then queue @ [t] else queue"
  have nt: "t \<notin> set ts" using Cons.prems(1) by simp
  have pos: "\<And>u. u \<in> set ts \<Longrightarrow> u < length ?i \<and> 0 < ?i ! u"
  proof -
    fix u assume "u \<in> set ts"
    then show "u < length ?i \<and> 0 < ?i ! u" using Cons.prems(2) [of u] nt by (cases "u = t") auto
  qed
  from Cons.IH [of ?i ?d ?q, OF _ pos] obtain d' i' where ih:
      "relax depth ts ?d ?i ?q = Some (d', i', ?q @ filter (\<lambda>t. ?i ! t = 1) ts)" "length d' = length depths" "length i' = length indegree"
      "\<forall>u<length indegree. d' ! u = (if u \<in> set ts then max (?d ! u) (depth + 1) else ?d ! u) \<and>
         i' ! u = (if u \<in> set ts then ?i ! u - 1 else ?i ! u)"
    using Cons.prems(1,3) by auto
  have "filter (\<lambda>u. ?i ! u = 1) ts = filter (\<lambda>u. indegree ! u = 1) ts"
  proof (rule filter_cong [OF refl])
    fix u assume "u \<in> set ts"
    then show "(?i ! u = 1) = (indegree ! u = 1)" using nt by (cases "u = t") auto
  qed
  then have "relax depth (t # ts) depths indegree queue = Some (d', i', queue @ filter (\<lambda>u. indegree ! u = 1) (t # ts))"
    using ih(1) k by simp
  moreover have "d' ! u = (if u \<in> set (t # ts) then max (depths ! u) (depth + 1) else depths ! u) \<and>
      i' ! u = (if u \<in> set (t # ts) then indegree ! u - 1 else indegree ! u)" if "u < length indegree" for u
    using ih(4) that nt k Cons.prems(3) by (cases "u = t") auto
  ultimately show ?case using ih(2,3) by blast
qed simp


section \<open>Longest chains\<close>

abbreviation chain :: "('a \<times> 'a) set \<Rightarrow> 'a list \<Rightarrow> bool" where
  "chain r p \<equiv> successively (\<lambda>a b. (a, b) \<in> r) p"

abbreviation waits :: "('a \<times> 'a) set \<Rightarrow> 'a set \<Rightarrow> 'a \<Rightarrow> 'a set" where
  "waits E P t \<equiv> {c. (c, t) \<in> E \<and> c \<notin> P}"

text \<open>With the components of \<open>P\<close> taken from the queue: every component counts the edges it still waits for, those without
  any are taken or queued, depths witness chains and grow along the edges out of \<open>P\<close>.\<close>

definition depth_inv :: "(nat \<times> nat) set \<Rightarrow> nat \<Rightarrow> nat \<Rightarrow> nat set \<Rightarrow> nat list \<Rightarrow> nat list \<Rightarrow> nat list \<Rightarrow> nat \<Rightarrow> bool" where
  "depth_inv E n m P queue indegree depths maximum \<longleftrightarrow>
    distinct queue \<and> set queue \<inter> P = {} \<and> set queue \<union> P \<subseteq> {..<n} \<and> length indegree = n \<and> length depths = n \<and>
    (\<forall>t<n. indegree ! t = card (waits E P t)) \<and> (\<forall>t<n. indegree ! t = 0 \<longleftrightarrow> t \<in> P \<union> set queue) \<and>
    (\<forall>c t. (c, t) \<in> E \<longrightarrow> c \<in> P \<longrightarrow> depths ! c < depths ! t) \<and>
    (\<forall>t<n. \<exists>p. p \<noteq> [] \<and> set p \<subseteq> {..<n} \<and> chain E p \<and> last p = t \<and> length p = depths ! t) \<and>
    (\<forall>c\<in>P. depths ! c \<le> maximum) \<and> m \<le> maximum \<and> (maximum = m \<or> (\<exists>c\<in>P. maximum = depths ! c))"

lemma depth_invD:
  assumes "depth_inv E n m P queue indegree depths maximum"
  shows "distinct queue" "set queue \<inter> P = {}" "set queue \<union> P \<subseteq> {..<n}" "length indegree = n" "length depths = n"
    "\<And>t. t < n \<Longrightarrow> indegree ! t = card (waits E P t)" "\<And>t. t < n \<Longrightarrow> indegree ! t = 0 \<longleftrightarrow> t \<in> P \<union> set queue"
    "\<And>c t. (c, t) \<in> E \<Longrightarrow> c \<in> P \<Longrightarrow> depths ! c < depths ! t"
    "\<And>t. t < n \<Longrightarrow> \<exists>p. p \<noteq> [] \<and> set p \<subseteq> {..<n} \<and> chain E p \<and> last p = t \<and> length p = depths ! t"
    "\<And>c. c \<in> P \<Longrightarrow> depths ! c \<le> maximum" "m \<le> maximum" "maximum = m \<or> (\<exists>c\<in>P. maximum = depths ! c)"
  using assms unfolding depth_inv_def by blast+

lemma depth_step:
  assumes inv: "depth_inv E n m P (c # queue) indegree depths maximum" and E: "E \<subseteq> {..<n} \<times> {..<n}"
    and ts: "distinct ts" "set ts = {t. (c, t) \<in> E}"
  obtains depths' indegree' queue' where "relax (depths ! c) ts depths indegree queue = Some (depths', indegree', queue')"
    "depth_inv E n m (insert c P) queue' indegree' depths' (max maximum (depths ! c))" "c < n" "c \<notin> P"
proof -
  note i = depth_invD [OF inv]
  have c: "c < n" "c \<notin> P" "c \<notin> set queue" "indegree ! c = 0" using i(1,2,3) i(7) [of c] by auto
  have fin: "finite (waits E A t)" for A t using E by (auto intro: finite_subset [of _ "{..<n}"])
  have succ: "t < n \<and> 0 < indegree ! t" if "t \<in> set ts" for t
  proof -
    have "t < n" "c \<in> waits E P t" using that ts(2) E c(2) by auto
    then show ?thesis using i(6) [of t] fin by (metis card_gt_0_iff empty_iff)
  qed
  have done_: "t \<notin> set ts" if "t \<in> insert c P" for t using succ [of t] i(3) i(7) [of t] that by force
  obtain depths' indegree' where r: "relax (depths ! c) ts depths indegree queue =
        Some (depths', indegree', queue @ filter (\<lambda>t. indegree ! t = 1) ts)" "length depths' = n" "length indegree' = n"
      "\<And>t. t < n \<Longrightarrow> depths' ! t = (if t \<in> set ts then max (depths ! t) (depths ! c + 1) else depths ! t)"
      "\<And>t. t < n \<Longrightarrow> indegree' ! t = (if t \<in> set ts then indegree ! t - 1 else indegree ! t)"
    using relax_spec [OF ts(1), of indegree depths "depths ! c" queue] succ i(4,5) by auto
  let ?queue = "queue @ filter (\<lambda>t. indegree ! t = 1) ts" and ?P = "insert c P"
  have ind: "indegree' ! t = card (waits E ?P t)" if "t < n" for t
  proof (cases "t \<in> set ts")
    case True
    then have "waits E P t = insert c (waits E ?P t)" using ts(2) c(2) by auto
    then have "card (waits E P t) = Suc (card (waits E ?P t))" using fin [where A = ?P and t = t] by simp
    then show ?thesis using r(5) [OF that] i(6) [OF that] True by simp
  next
    case False
    then have "waits E P t = waits E ?P t" using ts(2) by auto
    then show ?thesis using r(5) [OF that] i(6) [OF that] False by simp
  qed
  have zero: "indegree' ! t = 0 \<longleftrightarrow> t \<in> ?P \<union> set ?queue" if "t < n" for t
    using r(5) [OF that] i(7) [OF that] succ [of t] done_ [of t] by (cases "t \<in> set ts") auto
  have keep: "depths' ! t = depths ! t" if "t \<in> ?P" for t using r(4) [of t] done_ [OF that] that c(1) i(3) by auto
  have grow: "depths' ! a < depths' ! t" if "(a, t) \<in> E" "a \<in> ?P" for a t
  proof -
    have "t < n" using that(1) E by auto
    then show ?thesis using that keep [OF that(2)] r(4) [of t] i(8) [OF that(1)] ts(2) by (cases "a = c") auto
  qed
  have wit: "\<exists>p. p \<noteq> [] \<and> set p \<subseteq> {..<n} \<and> chain E p \<and> last p = t \<and> length p = depths' ! t" if t: "t < n" for t
  proof (cases "depths' ! t = depths ! t")
    case True
    then show ?thesis using i(9) [OF t] by simp
  next
    case False
    then have h: "t \<in> set ts" "depths' ! t = Suc (depths ! c)" using r(4) [OF t] by (auto simp: max_def split: if_splits)
    obtain p where p: "p \<noteq> []" "set p \<subseteq> {..<n}" "chain E p" "last p = c" "length p = depths ! c" using i(9) [OF c(1)] by blast
    have "chain E (p @ [t])" using p h(1) ts(2) by (simp add: successively_append_iff)
    then show ?thesis using p h(2) t by (intro exI [of _ "p @ [t]"]) auto
  qed
  have fresh: "t \<notin> set queue" if "t \<in> set ts" for t using succ [OF that] i(7) [of t] by auto
  have dist: "distinct ?queue" "set ?queue \<inter> ?P = {}" "set ?queue \<union> ?P \<subseteq> {..<n}"
    using i(1,2,3) ts(1) succ done_ c(1-3) fresh by (auto simp: disjoint_iff)
  have "\<forall>a\<in>?P. depths' ! a \<le> max maximum (depths ! c)" using keep i(10) by fastforce
  moreover have "max maximum (depths ! c) = m \<or> (\<exists>a\<in>?P. max maximum (depths ! c) = depths' ! a)"
    using i(12) keep by (auto simp: max_def)
  ultimately have "depth_inv E n m ?P ?queue indegree' depths' (max maximum (depths ! c))"
    unfolding depth_inv_def using dist r(2,3) ind zero grow wit i(11) by auto
  then show thesis using that r(1) c(1,2) by blast
qed

lemma depth_loop_total:
  assumes "depth_inv E n m P queue indegree depths maximum" "E \<subseteq> {..<n} \<times> {..<n}"
    "\<And>c. c < n \<Longrightarrow> os_set (outgoing ! c) = {t. (c, t) \<in> E}" "n - card P \<le> fuel"
  shows "\<exists>P' indegree' depths' d. depth_loop outgoing fuel queue indegree depths maximum = Some d \<and> depth_inv E n m P' [] indegree' depths' d"
  using assms(1,4)
proof (induction fuel arbitrary: P queue indegree depths maximum)
  case 0
  have "queue = []"
  proof (rule ccontr)
    assume "queue \<noteq> []"
    then obtain c where "c \<in> set queue" by (cases queue) auto
    then have "P \<subset> {..<n}" using depth_invD(2,3) [OF 0(1)] by auto
    then show False using psubset_card_mono [of "{..<n}" P] 0(2) by simp
  qed
  then show ?case using 0(1) by auto
next
  case (Suc fuel)
  show ?case
  proof (cases queue)
    case Nil
    then show ?thesis using Suc.prems(1) by auto
  next
    case (Cons c rest)
    have c: "c < n" using depth_invD(3) [OF Suc.prems(1)] Cons by auto
    have keys: "distinct (om_keys (outgoing ! c))" "set (om_keys (outgoing ! c)) = {t. (c, t) \<in> E}"
      using assms(3) [OF c] by (auto simp only: os_set_def set_os_list distinct_om_keys)
    obtain d i q where s: "relax (depths ! c) (om_keys (outgoing ! c)) depths indegree rest = Some (d, i, q)"
        "depth_inv E n m (insert c P) q i d (max maximum (depths ! c))" "c \<notin> P"
      using depth_step [OF _ assms(2) keys, of m P rest indegree depths maximum] Suc.prems(1) unfolding Cons by blast
    have "finite P" using depth_invD(3) [OF Suc.prems(1)] finite_subset [of P "{..<n}"] by auto
    then have "n - card (insert c P) \<le> fuel" using Suc.prems(2) s(3) by simp
    from Suc.IH [OF s(2) this] show ?thesis by (simp add: Cons s(1))
  qed
qed

lemma depth_inv_all:
  assumes inv: "depth_inv E n m P [] indegree depths d" and E: "E \<subseteq> {..<n} \<times> {..<n}" "acyclic E"
  shows "P = {..<n}"
proof (rule ccontr)
  note i = depth_invD [OF inv]
  assume "P \<noteq> {..<n}"
  then have ne: "{..<n} - P \<noteq> {}" using i(3) by auto
  have "finite E" using E(1) by (rule finite_subset) simp
  then have "wf E" using E(2) by (rule finite_acyclic_wf)
  then obtain t where t: "t \<in> {..<n} - P" "\<And>c. (c, t) \<in> E \<Longrightarrow> c \<notin> {..<n} - P" using ne by (metis wf_eq_minimal ex_in_conv)
  then have "waits E P t = {}" using E(1) by auto
  then have "card (waits E P t) = 0" by (simp only: card.empty)
  then have "indegree ! t = 0" using i(6) [of t] t(1) by (simp only: Diff_iff lessThan_iff)
  then show False using i(7) [of t] t(1) by simp
qed

lemma depth_bounds_chain:
  assumes "\<And>a b. (a, b) \<in> E \<Longrightarrow> depths ! a < depths ! b" "\<And>t. t < n \<Longrightarrow> 0 < depths ! t"
    "chain (E\<^sup>+) p" "p \<noteq> []" "set p \<subseteq> {..<n}"
  shows "length p \<le> depths ! last p"
  using assms(3-5)
proof (induction p rule: rev_induct)
  case (snoc t p)
  have up: "depths ! a < depths ! b" if "(a, b) \<in> E\<^sup>+" for a b
    using that by (induction rule: trancl_induct) (auto dest: assms(1))
  show ?case
  proof (cases "p = []")
    case True
    then show ?thesis using assms(2) [of t] snoc.prems by auto
  next
    case False
    then have "chain (E\<^sup>+) p" "(last p, t) \<in> E\<^sup>+" using snoc.prems(1) by (auto simp: successively_append_iff)
    then show ?thesis using snoc.IH False snoc.prems(3) up [of "last p" t] by auto
  qed
qed simp

lemma depth_loop_exact:
  assumes E: "E \<subseteq> {..<n} \<times> {..<n}" "acyclic E" and out: "\<And>c. c < n \<Longrightarrow> os_set (outgoing ! c) = {t. (c, t) \<in> E}"
    and ind: "length indegree = n" "\<And>t. t < n \<Longrightarrow> indegree ! t = card {c. (c, t) \<in> E}"
  obtains d where "depth_loop outgoing n (filter (\<lambda>c. indegree ! c = 0) [0..<n]) indegree (replicate n 1) m = Some d"
    "m \<le> d" "\<forall>p. p \<noteq> [] \<and> set p \<subseteq> {..<n} \<and> chain (E\<^sup>+) p \<longrightarrow> length p \<le> d"
    "d = m \<or> (\<exists>p. p \<noteq> [] \<and> set p \<subseteq> {..<n} \<and> chain E p \<and> length p = d)"
proof -
  have "\<exists>p. p \<noteq> [] \<and> set p \<subseteq> {..<n} \<and> chain E p \<and> last p = t \<and> length p = 1" if "t < n" for t
    using that by (intro exI [of _ "[t]"]) auto
  then have "depth_inv E n m {} (filter (\<lambda>c. indegree ! c = 0) [0..<n]) indegree (replicate n 1) m"
    unfolding depth_inv_def using ind by auto
  from depth_loop_total [OF this E(1) out, of n] obtain P i ds d where
    d: "depth_loop outgoing n (filter (\<lambda>c. indegree ! c = 0) [0..<n]) indegree (replicate n 1) m = Some d"
      "depth_inv E n m P [] i ds d"
    by auto
  note f = depth_invD [OF d(2)]
  have P: "P = {..<n}" by (rule depth_inv_all [OF d(2) E])
  have pos: "0 < ds ! t" if "t < n" for t using f(9) [OF that] by (metis length_greater_0_conv)
  have up: "ds ! a < ds ! b" if "(a, b) \<in> E" for a b using f(8) [OF that] E(1) P that by auto
  have "length p \<le> d" if p: "p \<noteq> []" "set p \<subseteq> {..<n}" "chain (E\<^sup>+) p" for p
  proof -
    have "last p \<in> P" using p(2) last_in_set [OF p(1)] unfolding P by (rule subsetD)
    then show ?thesis using depth_bounds_chain [of E ds n p] up pos p f(10) [of "last p"] by force
  qed
  moreover have "d = m \<or> (\<exists>p. p \<noteq> [] \<and> set p \<subseteq> {..<n} \<and> chain E p \<and> length p = d)"
  proof (cases "d = m")
    case False
    then obtain c where "c < n" "d = ds ! c" using f(12) P by auto
    then show ?thesis using f(9) [of c] by metis
  qed simp
  ultimately show thesis using that d(1) f(11) by blast
qed


section \<open>The graph of the components\<close>

definition component_by_node :: "'a::linorder list list \<Rightarrow> ('a, nat) omap" where
  "component_by_node cs = fold (\<lambda>(index, component). fold (\<lambda>n. om_insert n index) component) (List.enumerate 0 cs) om_empty"

definition condense_edge :: "('a::linorder, nat) omap \<Rightarrow> 'a \<times> 'a \<Rightarrow> nat list \<times> nat oset list \<Rightarrow> nat list \<times> nat oset list" where
  "condense_edge by_node e = (\<lambda>(indegree, outgoing).
    case (om_get by_node (fst e), om_get by_node (snd e)) of
      (Some src, Some dst) \<Rightarrow>
        if src \<noteq> dst \<and> \<not> os_member (outgoing ! src) dst
        then (indegree[dst := Suc (indegree ! dst)], outgoing[src := os_insert dst (outgoing ! src)])
        else (indegree, outgoing)
    | _ \<Rightarrow> (indegree, outgoing))"

definition longest_depth :: "'a::linorder list list \<Rightarrow> ('a \<times> 'a) list \<Rightarrow> bool \<Rightarrow> nat option" where
  "longest_depth cs es no_nodes =
    (let n = length cs; (indegree, outgoing) = fold (condense_edge (component_by_node cs)) es (replicate n 0, replicate n om_empty) in
     depth_loop outgoing n (filter (\<lambda>c. indegree ! c = 0) [0..<n]) indegree (replicate n 1) (if no_nodes then 0 else 1))"

lemma get_fold_insert: "om_get (fold (\<lambda>n. om_insert n i) c m) k = (if k \<in> set c then Some i else om_get m k)"
  by (induction c arbitrary: m) auto

lemma component_by_node_get:
  "distinct (concat cs) \<Longrightarrow> om_get (component_by_node cs) v = Some i \<longleftrightarrow> i < length cs \<and> v \<in> set (cs ! i)"
proof (induction cs rule: rev_induct)
  case Nil
  then show ?case by (simp add: component_by_node_def)
next
  case (snoc c cs)
  then have "om_get (component_by_node (cs @ [c])) v = (if v \<in> set c then Some (length cs) else om_get (component_by_node cs) v)"
    by (simp add: component_by_node_def enumerate_append_eq get_fold_insert)
  moreover have "v \<notin> set (cs ! j)" if "v \<in> set c" "j < length cs" for j
  proof
    assume "v \<in> set (cs ! j)"
    then have "v \<in> \<Union> (set ` set cs)" using nth_mem [OF that(2)] by blast
    then show False using snoc.prems that(1) by auto
  qed
  ultimately show ?case using snoc by (auto simp: nth_append less_Suc_eq)
qed

abbreviation joins :: "('a::linorder, nat) omap \<Rightarrow> ('a \<times> 'a) list \<Rightarrow> (nat \<times> nat) set" where
  "joins by_node es \<equiv> {(i, j). i \<noteq> j \<and> (\<exists>e\<in>set es. om_get by_node (fst e) = Some i \<and> om_get by_node (snd e) = Some j)}"

definition condensed :: "(nat \<times> nat) set \<Rightarrow> nat \<Rightarrow> nat list \<times> nat oset list \<Rightarrow> bool" where
  "condensed E n st \<longleftrightarrow> length (fst st) = n \<and> length (snd st) = n \<and> (\<forall>i<n. os_set (snd st ! i) = {j. (i, j) \<in> E}) \<and>
    (\<forall>j<n. fst st ! j = card {i. (i, j) \<in> E})"

lemma condensedD:
  assumes "condensed E n (indegree, outgoing)"
  shows "length indegree = n" "i < n \<Longrightarrow> os_set (outgoing ! i) = {j. (i, j) \<in> E}" "j < n \<Longrightarrow> indegree ! j = card {i. (i, j) \<in> E}"
  using assms by (simp_all add: condensed_def)

lemma condense_edge_step:
  assumes st: "condensed E n st" and E: "E \<subseteq> {..<n} \<times> {..<n}"
    and bound: "\<And>v i. om_get by_node v = Some i \<Longrightarrow> i < n"
  shows "condensed (E \<union> joins by_node [e]) n (condense_edge by_node e st)"
proof -
  obtain ind out where s: "st = (ind, out)" by (cases st)
  note h = st [unfolded condensed_def s fst_conv snd_conv]
  show ?thesis
  proof (cases "\<exists>i j. om_get by_node (fst e) = Some i \<and> om_get by_node (snd e) = Some j \<and> i \<noteq> j \<and> (i, j) \<notin> E")
    case False
    have "joins by_node [e] \<subseteq> E" using False by auto
    then have same: "E \<union> joins by_node [e] = E" by blast
    have "\<not> (src \<noteq> dst \<and> \<not> os_member (out ! src) dst)"
      if "om_get by_node (fst e) = Some src" "om_get by_node (snd e) = Some dst" for src dst
    proof -
      have "src < n" using bound that(1) .
      then have "os_member (out ! src) dst \<longleftrightarrow> (src, dst) \<in> E" using h by (simp flip: os_set_simps(3))
      then show ?thesis using False that by auto
    qed
    then have "condense_edge by_node e (ind, out) = (ind, out)"
      by (auto simp: condense_edge_def split: option.splits)
    then show ?thesis unfolding same s using st s by simp
  next
    case True
    then obtain i j where ij: "om_get by_node (fst e) = Some i" "om_get by_node (snd e) = Some j" "i \<noteq> j" "(i, j) \<notin> E" by blast
    have lt: "i < n" "j < n" using bound ij by auto
    have new: "\<not> os_member (out ! i) j" using h lt ij(4) by (simp flip: os_set_simps(3))
    have joins: "E \<union> joins by_node [e] = insert (i, j) E" using ij by auto
    have step: "condense_edge by_node e (ind, out) = (ind[j := Suc (ind ! j)], out[i := os_insert j (out ! i)])"
      using ij new by (simp add: condense_edge_def)
    have fin: "finite {a. (a, b) \<in> E}" for b using E by (auto intro: finite_subset [of _ "{..<n}"])
    have outs: "os_set (out[i := os_insert j (out ! i)] ! a) = {b. (a, b) \<in> insert (i, j) E}" if "a < n" for a
      using h lt that by (cases "a = i") auto
    have "ind[j := Suc (ind ! j)] ! b = card {a. (a, b) \<in> insert (i, j) E}" if "b < n" for b
    proof (cases "b = j")
      case True
      have "{a. (a, j) \<in> insert (i, j) E} = insert i {a. (a, j) \<in> E}" by auto
      then show ?thesis using True h lt ij(4) fin by simp
    next
      case False
      then have "{a. (a, b) \<in> insert (i, j) E} = {a. (a, b) \<in> E}" by auto
      then show ?thesis using False h that by simp
    qed
    then show ?thesis unfolding joins s step condensed_def using h outs by simp
  qed
qed

lemma condense_exact:
  assumes "\<And>v i. om_get by_node v = Some i \<Longrightarrow> i < n"
  shows "condensed (joins by_node es) n (fold (condense_edge by_node) es (replicate n 0, replicate n om_empty))"
proof (induction es rule: rev_induct)
  case Nil
  then show ?case by (simp add: condensed_def)
next
  case (snoc e es)
  have "joins by_node es \<subseteq> {..<n} \<times> {..<n}" using assms by auto
  note step = condense_edge_step [OF snoc this assms, where e = e]
  have "joins by_node (es @ [e]) = joins by_node es \<union> joins by_node [e]" by auto
  then show ?case using step by (simp only: fold_append fold_simps comp_def)
qed


section \<open>Depth of a graph\<close>

text \<open>A step that cannot be walked back: the second node is reached from the first and the first not from the second.\<close>

definition strictly_before :: "('a \<times> 'a) set \<Rightarrow> ('a \<times> 'a) set" where
  "strictly_before r = {(a, b). (a, b) \<in> r\<^sup>* \<and> (b, a) \<notin> r\<^sup>*}"

lemma strictly_before_trans: "(a, b) \<in> strictly_before r \<Longrightarrow> (b, c) \<in> strictly_before r \<Longrightarrow> (a, c) \<in> strictly_before r"
  by (auto simp: strictly_before_def intro: rtrancl_trans)

text \<open>The components in any order: one per representative, its least member.\<close>

locale condensation =
  fixes r :: "('a::linorder \<times> 'a) set" and nodes reps :: "'a list" and es :: "('a \<times> 'a) list"
  assumes r: "r = {e \<in> set es. fst e \<in> set nodes \<and> snd e \<in> set nodes}"
    and reps: "set reps = {n \<in> set nodes. n = Min (scc r n)}" and distinct_reps: "distinct reps"
begin

abbreviation comps :: "'a list list" where
  "comps \<equiv> map (component_list r) reps"

lemma closed: "(a, b) \<in> r\<^sup>* \<Longrightarrow> a \<in> set nodes \<longleftrightarrow> b \<in> set nodes"
  by (induction rule: rtrancl_induct) (auto simp: r)

lemma scc_nodes: "n \<in> set nodes \<Longrightarrow> x \<in> scc r n \<Longrightarrow> x \<in> set nodes"
  using closed [of n x] by (simp add: scc_def)

lemma finite_scc: "n \<in> set nodes \<Longrightarrow> finite (scc r n)"
  by (rule finite_subset [of _ "set nodes"]) (auto intro: scc_nodes)

lemma rep_of:
  assumes "v \<in> set nodes"
  obtains i where "i < length reps" "v \<in> scc r (reps ! i)"
proof -
  let ?k = "Min (scc r v)"
  have k: "?k \<in> scc r v" using Min_in [OF finite_scc [OF assms]] scc_refl [of v r] by blast
  then have "?k \<in> set nodes" "?k = Min (scc r ?k)" using scc_nodes [OF assms k] scc_eq [OF k] by simp_all
  then have "?k \<in> set reps" by (simp add: reps)
  then show thesis using that scc_sym [OF k] by (metis in_set_conv_nth)
qed

lemma rep_nth: "i < length reps \<Longrightarrow> reps ! i \<in> set nodes \<and> reps ! i = Min (scc r (reps ! i))"
  using nth_mem [of i reps] reps by auto

lemma rep_unique:
  assumes "i < length reps" "j < length reps" "reps ! j \<in> scc r (reps ! i)"
  shows "i = j"
proof -
  have "scc r (reps ! j) = scc r (reps ! i)" by (rule scc_eq [OF assms(3)])
  then have "reps ! j = reps ! i" using rep_nth assms(1,2) by metis
  then show ?thesis using distinct_reps assms(1,2) by (simp add: nth_eq_iff_index_eq)
qed

lemma in_comps: "i < length reps \<Longrightarrow> v \<in> set (comps ! i) \<longleftrightarrow> v \<in> scc r (reps ! i)"
  using finite_scc rep_nth by simp

lemma same_comp:
  assumes "i < length reps" "j < length reps" "v \<in> scc r (reps ! i)" "v \<in> scc r (reps ! j)"
  shows "i = j"
  using rep_unique [OF assms(1,2)] scc_trans [OF assms(3) scc_sym [OF assms(4)]] by blast

lemma distinct_comps: "distinct (concat comps)"
proof (rule distinct_concat)
  have "inj_on (component_list r) (set reps)"
  proof (rule inj_onI)
    fix a b assume h: "a \<in> set reps" "b \<in> set reps" "component_list r a = component_list r b"
    then have "set (component_list r a) = set (component_list r b)" by simp
    then have "scc r a = scc r b" using h(1,2) finite_scc by (simp add: reps)
    moreover have "a = Min (scc r a)" "b = Min (scc r b)" using h(1,2) by (simp_all add: reps)
    ultimately show "a = b" by simp
  qed
  then show "distinct comps" using distinct_reps by (simp add: distinct_map)
next
  fix ys zs assume h: "ys \<in> set comps" "zs \<in> set comps" "ys \<noteq> zs"
  then obtain i j where ij: "i < length reps" "j < length reps" "ys = comps ! i" "zs = comps ! j" by (metis in_set_conv_nth length_map)
  show "set ys \<inter> set zs = {}"
  proof (rule ccontr)
    assume "set ys \<inter> set zs \<noteq> {}"
    then obtain v where v: "v \<in> set ys" "v \<in> set zs" by auto
    have "i = j" using same_comp [OF ij(1,2)] v ij in_comps by blast
    then show False using h(3) ij(3,4) by simp
  qed
qed auto

abbreviation joined :: "(nat \<times> nat) set" where
  "joined \<equiv> joins (component_by_node comps) es"

lemma by_node: "om_get (component_by_node comps) v = Some i \<longleftrightarrow> i < length reps \<and> v \<in> scc r (reps ! i)"
  using component_by_node_get [OF distinct_comps, of v i] in_comps [of i v] by auto

lemma edge_iff: "(a, b) \<in> r \<longleftrightarrow> (a, b) \<in> set es \<and> a \<in> set nodes \<and> b \<in> set nodes"
  by (simp add: r)

lemma joinedI:
  assumes "(a, b) \<in> r" "i < length reps" "j < length reps" "a \<in> scc r (reps ! i)" "b \<in> scc r (reps ! j)" "i \<noteq> j"
  shows "(i, j) \<in> joined"
proof -
  have "(a, b) \<in> set es" using assms(1) by (simp add: edge_iff)
  moreover have "om_get (component_by_node comps) a = Some i" "om_get (component_by_node comps) b = Some j"
    using assms by (simp_all add: by_node)
  ultimately show ?thesis using assms(6) by force
qed

lemma joinedE:
  assumes "(i, j) \<in> joined"
  obtains a b where "i \<noteq> j" "i < length reps" "j < length reps" "(a, b) \<in> r" "a \<in> scc r (reps ! i)" "b \<in> scc r (reps ! j)"
proof -
  from assms obtain a b where h: "i \<noteq> j" "(a, b) \<in> set es" "om_get (component_by_node comps) a = Some i"
      "om_get (component_by_node comps) b = Some j"
    by auto
  have s: "i < length reps" "j < length reps" "a \<in> scc r (reps ! i)" "b \<in> scc r (reps ! j)" using h(3,4) by (simp_all add: by_node)
  then have "a \<in> set nodes" "b \<in> set nodes" using scc_nodes rep_nth by auto
  then show thesis using that [OF h(1) s(1,2) _ s(3,4)] h(2) by (simp add: edge_iff)
qed

lemma joined_step: "(i, j) \<in> joined \<Longrightarrow> (reps ! i, reps ! j) \<in> strictly_before r"
proof (elim joinedE)
  fix a b assume h: "i \<noteq> j" "i < length reps" "j < length reps" "(a, b) \<in> r" "a \<in> scc r (reps ! i)" "b \<in> scc r (reps ! j)"
  have "(reps ! i, a) \<in> r\<^sup>*" "(b, reps ! j) \<in> r\<^sup>*" using h(5,6) by (simp_all add: scc_def)
  then have "(reps ! i, reps ! j) \<in> r\<^sup>*" using h(4) by (meson converse_rtrancl_into_rtrancl rtrancl_trans)
  then show ?thesis using rep_unique [OF h(2,3)] h(1) by (auto simp: strictly_before_def scc_def)
qed

lemma joined_strict: "(i, j) \<in> joined\<^sup>+ \<Longrightarrow> (reps ! i, reps ! j) \<in> strictly_before r"
proof (induction rule: trancl_induct)
  case (step j k)
  then show ?case using joined_step [of j k] strictly_before_trans [of "reps ! i" "reps ! j" r] by blast
qed (rule joined_step)

lemma acyclic_joined: "acyclic joined"
  unfolding acyclic_def
proof (intro allI notI)
  fix i assume "(i, i) \<in> joined\<^sup>+"
  from joined_strict [OF this] show False by (simp add: strictly_before_def)
qed

lemma joined_lift:
  assumes "(a, b) \<in> r\<^sup>*" "i < length reps" "a \<in> scc r (reps ! i)" "j < length reps" "b \<in> scc r (reps ! j)"
  shows "(i, j) \<in> joined\<^sup>*"
  using assms(1,4,5)
proof (induction arbitrary: j rule: rtrancl_induct)
  case base
  then show ?case using same_comp [OF assms(2)] assms(3) by blast
next
  case (step b c)
  have "b \<in> set nodes" using step(2) by (simp add: edge_iff)
  then obtain k where k: "k < length reps" "b \<in> scc r (reps ! k)" by (rule rep_of)
  have "k = j \<or> (k, j) \<in> joined" using joinedI [OF step(2) k(1) step(4) k(2) step(5)] by blast
  then show ?case using step.IH [OF k] by (auto intro: rtrancl_into_rtrancl)
qed

lemma joined_chain:
  assumes "set ns \<subseteq> set nodes" "chain (strictly_before r) ns"
  obtains p where "length p = length ns" "set p \<subseteq> {..<length reps}" "chain (joined\<^sup>+) p"
proof -
  have "\<forall>v\<in>set nodes. \<exists>i. i < length reps \<and> v \<in> scc r (reps ! i)" using rep_of by metis
  then obtain f where f: "\<And>v. v \<in> set nodes \<Longrightarrow> f v < length reps \<and> v \<in> scc r (reps ! f v)" by metis
  have step: "(f a, f b) \<in> joined\<^sup>+" if "a \<in> set nodes" "b \<in> set nodes" "(a, b) \<in> strictly_before r" for a b
  proof -
    have fa: "f a < length reps" "a \<in> scc r (reps ! f a)" and fb: "f b < length reps" "b \<in> scc r (reps ! f b)" using f that(1,2) by auto
    have "(a, b) \<in> r\<^sup>*" "(b, a) \<notin> r\<^sup>*" using that(3) by (simp_all add: strictly_before_def)
    then have "(f a, f b) \<in> joined\<^sup>*" using joined_lift fa fb by blast
    moreover have "f a \<noteq> f b"
    proof
      assume eq: "f a = f b"
      have "a \<in> scc r b" using scc_trans [OF scc_sym [OF fb(2)]] fa(2) unfolding eq .
      then show False using \<open>(b, a) \<notin> r\<^sup>*\<close> by (simp add: scc_def)
    qed
    ultimately show ?thesis by (simp add: rtrancl_eq_or_trancl)
  qed
  have "chain (joined\<^sup>+) (map f ns)"
    unfolding successively_map using assms(2) by (rule successively_mono) (use assms(1) step in auto)
  then show thesis using that [of "map f ns"] f assms(1) by auto
qed

lemma longest_depth_exact:
  obtains d where "longest_depth comps es (nodes = []) = Some d"
    "\<And>ns. set ns \<subseteq> set nodes \<Longrightarrow> chain (strictly_before r) ns \<Longrightarrow> length ns \<le> d"
    "\<exists>ns. set ns \<subseteq> set nodes \<and> chain (strictly_before r) ns \<and> length ns = d"
proof -
  let ?n = "length reps"
  obtain ind out where fo: "fold (condense_edge (component_by_node comps)) es (replicate ?n 0, replicate ?n om_empty) = (ind, out)"
    by fastforce
  have "condensed joined ?n (ind, out)" unfolding fo [symmetric] by (rule condense_exact) (simp add: by_node)
  note c = condensedD [OF this]
  have sub: "joined \<subseteq> {..<?n} \<times> {..<?n}" by (auto simp: by_node)
  let ?m = "if nodes = [] then 0 else 1 :: nat"
  obtain d where d: "depth_loop out ?n (filter (\<lambda>c. ind ! c = 0) [0..<?n]) ind (replicate ?n 1) ?m = Some d"
      "?m \<le> d" "\<forall>p. p \<noteq> [] \<and> set p \<subseteq> {..<?n} \<and> chain (joined\<^sup>+) p \<longrightarrow> length p \<le> d"
      "d = ?m \<or> (\<exists>p. p \<noteq> [] \<and> set p \<subseteq> {..<?n} \<and> chain joined p \<and> length p = d)"
    by (rule depth_loop_exact [OF sub acyclic_joined c(2) c(1) c(3), where m = ?m])
  have "longest_depth comps es (nodes = []) = Some d"
    unfolding longest_depth_def length_map Let_def fo prod.case using d(1) .
  moreover have "length ns \<le> d" if ns: "set ns \<subseteq> set nodes" "chain (strictly_before r) ns" for ns
  proof (cases "ns = []")
    case False
    obtain p where "length p = length ns" "set p \<subseteq> {..<?n}" "chain (joined\<^sup>+) p" by (rule joined_chain [OF ns])
    then show ?thesis using spec [OF d(3), of p] False by auto
  qed simp
  moreover have "\<exists>ns. set ns \<subseteq> set nodes \<and> chain (strictly_before r) ns \<and> length ns = d"
  proof (cases "d = ?m")
    case True
    then show ?thesis by (intro exI [of _ "take 1 nodes"]) (cases nodes; simp)
  next
    case False
    then obtain p where p: "set p \<subseteq> {..<?n}" "chain joined p" "length p = d" using d(4) by blast
    have "chain (strictly_before r) (map ((!) reps) p)"
      unfolding successively_map using p(2) by (rule successively_mono) (use joined_step in blast)
    moreover have "set (map ((!) reps) p) \<subseteq> set nodes" using p(1) rep_nth by auto
    ultimately show ?thesis using p(3) by (intro exI [of _ "map ((!) reps) p"]) simp
  qed
  ultimately show thesis using that by blast
qed

end

end
