(* ===== verification/Lint.thy ===== *)
theory Lint
  imports Depth Graph_Payloads "HOL-Library.Product_Lexorder"
begin

text \<open>
  The semantic linter (\<open>core/graph/src/lint\<close>): the checks of \<open>mod.rs\<close>, \<open>reachability.rs\<close>, \<open>cycle.rs\<close>, \<open>binding.rs\<close>,
  \<open>security.rs\<close>, \<open>deployment.rs\<close> and \<open>budget.rs\<close>, composed and sorted as \<open>lint\<close> does. The inspection of inline secrets walks
  the JSON document that \<open>serde_json::to_value\<close> produces for the graph; that conversion is the parameter \<open>to_value\<close>.
\<close>

section \<open>Diagnostics\<close>

record diagnostic =
  dg_code :: string
  dg_severity :: severity
  dg_message :: string
  dg_path :: string
  dg_source :: string

definition diagnostic_error :: "string \<Rightarrow> string \<Rightarrow> string \<Rightarrow> string \<Rightarrow> diagnostic" where
  "diagnostic_error code message path source =
    \<lparr>dg_code = code, dg_severity = SeverityError, dg_message = message, dg_path = path, dg_source = source\<rparr>"

definition diagnostic_warning :: "string \<Rightarrow> string \<Rightarrow> string \<Rightarrow> string \<Rightarrow> diagnostic" where
  "diagnostic_warning code message path source =
    \<lparr>dg_code = code, dg_severity = SeverityWarning, dg_message = message, dg_path = path, dg_source = source\<rparr>"

definition escape :: "string \<Rightarrow> string" where
  "escape segment = concat (map (\<lambda>c. if c = CHR ''/'' then ''~1'' else [c])
    (concat (map (\<lambda>c. if c = CHR ''~'' then ''~0'' else [c]) segment)))"

definition sort_diagnostics :: "diagnostic list \<Rightarrow> diagnostic list" where
  "sort_diagnostics ds = sort_key (\<lambda>d. (dg_path d, dg_code d, dg_message d)) ds"

definition has_node :: "execution_graph \<Rightarrow> string \<Rightarrow> bool" where
  "has_node g n_id = om_contains (gs_nodes (eg_spec g)) n_id"

definition node_entries :: "execution_graph \<Rightarrow> (string \<times> graph_node) list" where
  "node_entries g = om_entries (gs_nodes (eg_spec g))"

definition node_keys :: "execution_graph \<Rightarrow> string list" where
  "node_keys g = om_keys (gs_nodes (eg_spec g))"

definition graph_edges :: "execution_graph \<Rightarrow> graph_edge list" where
  "graph_edges g = gs_edges (eg_spec g)"

definition prop_path :: "graph_node \<Rightarrow> string \<Rightarrow> string \<Rightarrow> json option" where
  "prop_path n k1 k2 = Option.bind (om_get (gn_properties n) k1) (\<lambda>v. json_get v k2)"


section \<open>Reachability\<close>

definition known_links :: "execution_graph \<Rightarrow> (string \<times> string) list" where
  "known_links g = map (\<lambda>e. (ge_from e, ge_to e)) (filter (\<lambda>e. has_node g (ge_from e) \<and> has_node g (ge_to e)) (graph_edges g))"

definition terminals :: "execution_graph \<Rightarrow> string list" where
  "terminals g = (case Option.bind (json_get (gs_completion (eg_spec g)) ''terminalNodes'') as_array of
      Some values \<Rightarrow> List.map_filter as_str values
    | None \<Rightarrow> filter (\<lambda>n_id. links (adjacency (known_links g)) n_id = []) (node_keys g))"

definition reachability_check :: "execution_graph \<Rightarrow> string \<Rightarrow> diagnostic list" where
  "reachability_check g source =
    (let outgoing = adjacency (known_links g); incoming = adjacency (map prod.swap (known_links g));
       reachable = traverse_from outgoing (filter (has_node g) (gs_entrypoints (eg_spec g))) om_empty;
       can_finish = traverse_from incoming (terminals g) om_empty in
     map (\<lambda>n_id. diagnostic_error ''GHG005_NO_TERMINAL_PATH'' ''reachable node has no path to a terminal node''
         (''/spec/nodes/'' @ escape n_id) source)
       (filter (\<lambda>n_id. \<not> os_member can_finish n_id) (om_keys reachable)))"


section \<open>Cycles\<close>

definition components :: "execution_graph \<Rightarrow> string list list" where
  "components g = components_of (node_keys g) (known_links g)"

definition loop_controlled :: "execution_graph \<Rightarrow> string \<Rightarrow> bool" where
  "loop_controlled g n_id = (case om_get (gs_nodes (eg_spec g)) n_id of
      None \<Rightarrow> False
    | Some n \<Rightarrow> (case Option.bind (prop_path n ''loop'' ''maxIterations'') as_u64 of Some limit \<Rightarrow> limit > 0 | None \<Rightarrow> False))"

definition cycle_check :: "execution_graph \<Rightarrow> string \<Rightarrow> diagnostic list" where
  "cycle_check g source = concat (map (\<lambda>component.
    let node = hd component; self_loop = list_ex (\<lambda>e. ge_from e = node \<and> ge_to e = node) (graph_edges g) in
    if (length component > 1 \<or> self_loop) \<and> \<not> list_ex (loop_controlled g) component
    then map (\<lambda>n_id. diagnostic_error ''GHG006_UNCONTROLLED_CYCLE'' ''cyclic component requires a positive loop.maxIterations''
        (''/spec/nodes/'' @ escape n_id @ ''/loop'') source) component
    else []) (components g))"


section \<open>Bindings\<close>

definition binding_source :: "string \<Rightarrow> string option" where
  "binding_source binding =
    (case Option.bind (strip_prefix ''outputs.'' binding) (\<lambda>rest. map_option fst (split_once ''.'' rest)) of
       Some n \<Rightarrow> Some n
     | None \<Rightarrow> Option.bind (strip_prefix ''nodes.'' binding) (\<lambda>rest. map_option fst (split_once ''.output'' rest)))"

definition check_binding :: "execution_graph \<Rightarrow> string \<Rightarrow> string \<Rightarrow> string \<Rightarrow> diagnostic list" where
  "check_binding g binding path source = (case binding_source binding of
      Some n \<Rightarrow> if has_node g n then [] else
        [diagnostic_error ''GHG007_BINDING_SOURCE_UNKNOWN'' ''binding references an unknown source node'' path source]
    | None \<Rightarrow> [])"

definition node_bindings :: "graph_node \<Rightarrow> (string \<times> json) list" where
  "node_bindings n = (case Option.bind (prop_path n ''input'' ''bindings'') as_object of Some bs \<Rightarrow> bs | None \<Rightarrow> [])"

definition binding_check :: "execution_graph \<Rightarrow> string \<Rightarrow> diagnostic list" where
  "binding_check g source =
    concat (map (\<lambda>(index, e). concat (map (\<lambda>(target, binding).
        check_binding g binding (''/spec/edges/'' @ show_decimal index @ ''/map/'' @ escape target) source)
      (om_entries (ge_bindings e)))) (List.enumerate 0 (graph_edges g)))
    @ concat (map (\<lambda>(n_id, n). concat (map (\<lambda>(target, binding). case as_str binding of
          Some b \<Rightarrow> check_binding g b (''/spec/nodes/'' @ escape n_id @ ''/input/bindings/'' @ escape target) source
        | None \<Rightarrow> []) (node_bindings n))) (node_entries g))"


section \<open>Inline secrets\<close>

definition is_secret_key :: "string \<Rightarrow> bool" where
  "is_secret_key key = (map to_ascii_lowercase key \<in>
    {''password'', ''secret'', ''token'', ''api_key'', ''apikey'', ''private_key'', ''privatekey''})"

definition is_reference :: "string \<Rightarrow> json \<Rightarrow> bool" where
  "is_reference key v = (ends_with key ''Ref'' \<or> ends_with key ''_ref'' \<or> (case as_str v of
      Some text \<Rightarrow> list_ex (starts_with text) [''secret://'', ''environment://'', ''env://'']
    | None \<Rightarrow> False))"

definition secret_here :: "string \<Rightarrow> json \<Rightarrow> string \<Rightarrow> string \<Rightarrow> diagnostic list" where
  "secret_here key v path source = (if is_secret_key key \<and> \<not> is_reference key v then
      [diagnostic_error ''GHG008_INLINE_SECRET'' ''secret-shaped value must use an external reference'' path source] else [])"

fun inspect :: "string \<Rightarrow> json \<Rightarrow> string \<Rightarrow> string \<Rightarrow> diagnostic list"
  and inspect_fields :: "(string \<times> json) list \<Rightarrow> string \<Rightarrow> string \<Rightarrow> diagnostic list"
  and inspect_items :: "string \<Rightarrow> nat \<Rightarrow> json list \<Rightarrow> string \<Rightarrow> string \<Rightarrow> diagnostic list" where
  "inspect key (JObject fs) path source = secret_here key (JObject fs) path source @ inspect_fields fs path source"
| "inspect key (JArray xs) path source = secret_here key (JArray xs) path source @ inspect_items key 0 xs path source"
| "inspect key v path source = secret_here key v path source"
| "inspect_fields [] path source = []"
| "inspect_fields ((k, v) # fs) path source = inspect k v (path @ ''/'' @ escape k) source @ inspect_fields fs path source"
| "inspect_items key i [] path source = []"
| "inspect_items key i (v # vs) path source =
    inspect key v (path @ ''/'' @ show_decimal i) source @ inspect_items key (Suc i) vs path source"

definition security_check :: "(execution_graph \<Rightarrow> json option) \<Rightarrow> execution_graph \<Rightarrow> string \<Rightarrow> diagnostic list" where
  "security_check to_value g source =
    (case to_value g of Some (JObject root) \<Rightarrow> inspect_fields root [] source | _ \<Rightarrow> [])"


section \<open>Deployments\<close>

definition deploy_target_ok :: "graph_node \<Rightarrow> bool" where
  "deploy_target_ok n = (case Option.bind (om_get (gn_properties n) ''targetRef'') as_str of
     Some v \<Rightarrow> \<not> trim_is_empty v | None \<Rightarrow> False)"

definition flag :: "(string \<times> json) list \<Rightarrow> string \<Rightarrow> bool" where
  "flag fs k = (case Option.bind (map_of fs k) as_bool of Some b \<Rightarrow> b | None \<Rightarrow> False)"

definition compensated :: "execution_graph \<Rightarrow> (string \<times> json) list \<Rightarrow> bool" where
  "compensated g effects = (case Option.bind (map_of effects ''compensationNode'') as_str of
      None \<Rightarrow> False
    | Some target \<Rightarrow> (case om_get (gs_nodes (eg_spec g)) target of Some n \<Rightarrow> gn_node_type n = Rollback | None \<Rightarrow> False))"

definition deployment_check :: "execution_graph \<Rightarrow> string \<Rightarrow> diagnostic list" where
  "deployment_check g source = concat (map (\<lambda>(n_id, n).
    let base = ''/spec/nodes/'' @ escape n_id in
    (if gn_node_type n = Deploy \<and> \<not> deploy_target_ok n then
       [diagnostic_error ''GHG009_DEPLOY_TARGET_MISSING'' ''deploy node requires a non-empty targetRef'' (base @ ''/targetRef'') source]
     else []) @
    (case Option.bind (om_get (gn_properties n) ''effects'') as_object of
       None \<Rightarrow> []
     | Some effects \<Rightarrow>
         if (flag effects ''reversible'' \<or> flag effects ''compensationRequired'') \<and> \<not> compensated g effects then
           [diagnostic_error ''GHG010_COMPENSATION_MISSING''
             ''reversible effect requires an existing rollback compensation node'' (base @ ''/effects/compensationNode'') source]
         else [])) (node_entries g))"


section \<open>Budgets\<close>

text \<open>\<open>longest_acyclic_depth\<close> always returns (see below), so its missing result stands for no input. The source adds one to the
  retry budget in \<open>u64\<close>; in a release build the sum wraps.\<close>

definition edge_pairs :: "execution_graph \<Rightarrow> (string \<times> string) list" where
  "edge_pairs g = map (\<lambda>e. (ge_from e, ge_to e)) (graph_edges g)"

definition longest_acyclic_depth :: "execution_graph \<Rightarrow> nat option" where
  "longest_acyclic_depth g = longest_depth (components g) (edge_pairs g) (node_keys g = [])"

definition over_depth :: "execution_graph \<Rightarrow> u64 \<Rightarrow> bool" where
  "over_depth g limit = (case longest_acyclic_depth g of Some d \<Rightarrow> unat limit < d | None \<Rightarrow> False)"

definition over_retries :: "u64 \<Rightarrow> graph_node \<Rightarrow> bool" where
  "over_retries retries n = (case Option.bind (prop_path n ''retry'' ''maxAttempts'') as_u64 of
     Some attempts \<Rightarrow> retries + 1 < attempts | None \<Rightarrow> False)"

definition budget_check :: "execution_graph \<Rightarrow> string \<Rightarrow> diagnostic list" where
  "budget_check g source =
    (let budgets = gs_budgets (eg_spec g) in
     (case gb_max_nodes budgets of
        Some limit \<Rightarrow> if unat limit < om_len (gs_nodes (eg_spec g)) then
          [diagnostic_error ''GHG011_NODE_BUDGET_EXCEEDED'' ''graph node count exceeds maxNodes'' ''/spec/budgets/maxNodes'' source] else []
      | None \<Rightarrow> []) @
     (case gb_max_depth budgets of
        Some limit \<Rightarrow> if over_depth g limit then
          [diagnostic_error ''GHG012_DEPTH_BUDGET_EXCEEDED'' ''graph depth exceeds maxDepth'' ''/spec/budgets/maxDepth'' source] else []
      | None \<Rightarrow> []) @
     (case gb_max_retries_per_node budgets of
        Some retries \<Rightarrow> concat (map (\<lambda>(n_id, n). if over_retries retries n then
          [diagnostic_error ''GHG013_RETRY_BUDGET_EXCEEDED'' ''node attempts exceed the graph retry budget''
            (''/spec/nodes/'' @ escape n_id @ ''/retry/maxAttempts'') source] else []) (node_entries g))
      | None \<Rightarrow> []))"


section \<open>The report\<close>

definition entrypoint_check :: "execution_graph \<Rightarrow> string \<Rightarrow> diagnostic list" where
  "entrypoint_check g source = concat (map (\<lambda>(index, entrypoint). if has_node g entrypoint then [] else
    [diagnostic_error ''GHG001_ENTRYPOINT_UNKNOWN'' ''entrypoint does not name a graph node''
      (''/spec/entrypoints/'' @ show_decimal index) source]) (List.enumerate 0 (gs_entrypoints (eg_spec g))))"

fun edge_check :: "execution_graph \<Rightarrow> string \<Rightarrow> nat \<Rightarrow> string oset \<Rightarrow> graph_edge list \<Rightarrow> diagnostic list" where
  "edge_check g source index edge_ids [] = []"
| "edge_check g source index edge_ids (e # es) =
    (let at = ''/spec/edges/'' @ show_decimal index in
     (if has_node g (ge_from e) then [] else
       [diagnostic_error ''GHG002_EDGE_SOURCE_UNKNOWN'' ''edge source does not name a graph node'' (at @ ''/from'') source]) @
     (if has_node g (ge_to e) then [] else
       [diagnostic_error ''GHG003_EDGE_TARGET_UNKNOWN'' ''edge target does not name a graph node'' (at @ ''/to'') source]) @
     (if os_member edge_ids (ge_id e) then
       [diagnostic_error ''GHG004_EDGE_ID_DUPLICATE'' ''edge ID is duplicated'' (at @ ''/id'') source] else []) @
     edge_check g source (Suc index) (os_insert (ge_id e) edge_ids) es)"

definition denied_action :: "json \<Rightarrow> string option" where
  "denied_action policy = (case Option.bind (as_str policy) (strip_prefix ''deny:'') of
     Some d \<Rightarrow> Some d
   | None \<Rightarrow> Option.bind (json_get policy ''deny'') as_str)"

definition policy_denies :: "execution_graph \<Rightarrow> diagnostic list \<Rightarrow> json \<Rightarrow> bool" where
  "policy_denies g secret_errors policy = (case denied_action policy of
      None \<Rightarrow> False
    | Some d \<Rightarrow>
        if d = ''deploy'' \<or> d = ''production.deploy'' then list_ex (\<lambda>n. gn_node_type n = Deploy) (om_values (gs_nodes (eg_spec g)))
        else if d = ''secret.inline'' then secret_errors \<noteq> [] else False)"

definition check_hard_policies :: "execution_graph \<Rightarrow> diagnostic list \<Rightarrow> string \<Rightarrow> diagnostic list" where
  "check_hard_policies g secret_errors source = concat (map (\<lambda>(index, policy). if policy_denies g secret_errors policy then
    [diagnostic_error ''GHG014_HARD_POLICY_DENIED'' ''graph conflicts with an inline hard deny policy''
      (''/spec/policies/'' @ show_decimal index) source] else []) (List.enumerate 0 (gs_policies (eg_spec g))))"

definition timeout_warnings :: "execution_graph \<Rightarrow> string \<Rightarrow> diagnostic list" where
  "timeout_warnings g source = concat (map (\<lambda>(n_id, n).
    if gn_node_type n \<in> {Agent, Tool, Deploy, Rollback, ArtifactTransform} \<and> \<not> om_contains (gn_properties n) ''timeoutSeconds''
    then [diagnostic_warning ''GHG101_DEFAULT_TIMEOUT'' ''executable node relies on the runtime default timeout''
      (''/spec/nodes/'' @ escape n_id @ ''/timeoutSeconds'') source] else []) (node_entries g))"

fun can_park_for_input :: "node_type \<Rightarrow> bool" where
  "can_park_for_input Agent = True" | "can_park_for_input Planner = True" | "can_park_for_input Classifier = True"
| "can_park_for_input Evaluator = True" | "can_park_for_input Tool = True" | "can_park_for_input HumanDecision = True"
| "can_park_for_input Deploy = True" | "can_park_for_input Rollback = True" | "can_park_for_input ArtifactTransform = True"
| "can_park_for_input Gate = False" | "can_park_for_input Fork = False" | "can_park_for_input Join = False"
| "can_park_for_input Timer = False" | "can_park_for_input Trigger = False" | "can_park_for_input Subgraph = False"
| "can_park_for_input Materializer = False" | "can_park_for_input DeadLetter = False"

definition customs_warnings :: "execution_graph \<Rightarrow> string \<Rightarrow> diagnostic list" where
  "customs_warnings g source = concat (map (\<lambda>(n_id, n).
    if can_park_for_input (gn_node_type n) \<and> prop_path n ''completion'' ''customs'' = None
    then [diagnostic_warning ''GHG102_UNBOUNDED_CUSTOMS''
      ''node can park for input but declares no customs budgets, so no stage of it can ever go overdue''
      (''/spec/nodes/'' @ escape n_id @ ''/completion/customs'') source] else []) (node_entries g))"

record lint_report =
  lr_errors :: "diagnostic list"
  lr_warnings :: "diagnostic list"

definition lint :: "(execution_graph \<Rightarrow> json option) \<Rightarrow> execution_graph \<Rightarrow> string \<Rightarrow> lint_report" where
  "lint to_value g source =
    (let secret_errors = security_check to_value g source in
     \<lparr>lr_errors = sort_diagnostics (entrypoint_check g source @ edge_check g source 0 om_empty (graph_edges g) @
        reachability_check g source @ cycle_check g source @ binding_check g source @ secret_errors @
        deployment_check g source @ budget_check g source @ check_hard_policies g secret_errors source),
      lr_warnings = sort_diagnostics (timeout_warnings g source @ customs_warnings g source)\<rparr>)"


section \<open>What the checks report\<close>

lemma node_keys_simps [simp]: "sorted (node_keys g)" "distinct (node_keys g)" "v \<in> set (node_keys g) \<longleftrightarrow> has_node g v"
  by (simp_all add: node_keys_def has_node_def strict_sorted_imp_sorted [OF sorted_om_keys])

lemma known_links_iff: "(a, b) \<in> set (known_links g) \<longleftrightarrow> has_node g a \<and> has_node g b \<and> (\<exists>e\<in>set (graph_edges g). ge_from e = a \<and> ge_to e = b)"
  by (auto simp: known_links_def)

lemma known_links_nodes: "set (known_links g) \<subseteq> set (node_keys g) \<times> set (node_keys g)"
  by (auto simp: known_links_iff)

lemma components_exact:
  "components g = map (component_list (set (known_links g))) (filter (\<lambda>n. n = Min (scc (set (known_links g)) n)) (node_keys g))"
  unfolding components_def by (rule components_reference [OF node_keys_simps(1,2) known_links_nodes])

interpretation depth_graph: condensation "set (known_links g)" "node_keys g"
  "filter (\<lambda>n. n = Min (scc (set (known_links g)) n)) (node_keys g)" "edge_pairs g" for g
  by unfold_locales (auto simp: known_links_iff edge_pairs_def)

end
