(* ===== verification/Lint_Soundness.thy ===== *)
theory Lint_Soundness
  imports Lint
begin

text \<open>
  What the linter's graph checks mean: a cycle is reported exactly when no node of its component bounds it, a node exactly when
  it is reached from an entrypoint and reaches no terminal, the depth is the length of the longest chain of nodes that cannot be
  walked back, and a graph without errors is a well-formed graph.
\<close>

abbreviation known :: "execution_graph \<Rightarrow> (string \<times> string) set" where
  "known g \<equiv> set (known_links g)"

section \<open>Cycles\<close>

definition cycle_error :: "string \<Rightarrow> string \<Rightarrow> diagnostic" where
  "cycle_error source v = diagnostic_error ''GHG006_UNCONTROLLED_CYCLE'' ''cyclic component requires a positive loop.maxIterations''
    (''/spec/nodes/'' @ escape v @ ''/loop'') source"

lemma component_report:
  assumes "has_node g k" "k = Min (scc (known g) k)"
  defines "component \<equiv> component_list (known g) k"
  shows "set (let node = hd component; self_loop = list_ex (\<lambda>e. ge_from e = node \<and> ge_to e = node) (graph_edges g) in
      if (length component > 1 \<or> self_loop) \<and> \<not> list_ex (loop_controlled g) component
      then map (cycle_error source) component else []) =
    cycle_error source ` {v \<in> scc (known g) k. (v, v) \<in> (known g)\<^sup>+ \<and> (\<forall>u\<in>scc (known g) v. \<not> loop_controlled g u)}"
proof -
  have fin: "finite (scc (known g) k)" using depth_graph.finite_scc [of k g] assms(1) by simp
  have c: "set component = scc (known g) k" "length component = card (scc (known g) k)" "hd component = k"
    using fin hd_component [OF fin] assms(2) by (simp_all add: component_def)
  have self: "list_ex (\<lambda>e. ge_from e = k \<and> ge_to e = k) (graph_edges g) \<longleftrightarrow> (k, k) \<in> known g"
    using assms(1) by (auto simp: known_links_iff list_ex_iff)
  have v: "(v, v) \<in> (known g)\<^sup>+ \<longleftrightarrow> (k, k) \<in> (known g)\<^sup>+" "scc (known g) v = scc (known g) k" if "v \<in> scc (known g) k" for v
    using trancl_scc [OF that] trancl_scc [OF scc_sym [OF that]] scc_eq [OF that] by blast+
  have "{v \<in> scc (known g) k. (v, v) \<in> (known g)\<^sup>+ \<and> (\<forall>u\<in>scc (known g) v. \<not> loop_controlled g u)} =
      (if (k, k) \<in> (known g)\<^sup>+ \<and> (\<forall>u\<in>scc (known g) k. \<not> loop_controlled g u) then scc (known g) k else {})"
    (is "?L = ?R")
  proof (rule set_eqI)
    fix x show "x \<in> ?L \<longleftrightarrow> x \<in> ?R"
    proof (cases "x \<in> scc (known g) k")
      case True
      then show ?thesis by (simp add: v(1) [OF True] v(2) [OF True])
    qed simp
  qed
  then show ?thesis unfolding Let_def c self by (simp add: cyclic_component [OF fin] c(1) list_ex_iff)
qed

lemma cycle_reports:
  "set (cycle_check g source) = cycle_error source `
    {v. has_node g v \<and> (v, v) \<in> (known g)\<^sup>+ \<and> \<not> (\<exists>u\<in>scc (known g) v. loop_controlled g u)}"
proof -
  let ?reps = "filter (\<lambda>n. n = Min (scc (known g) n)) (node_keys g)"
  let ?bad = "\<lambda>k. {v \<in> scc (known g) k. (v, v) \<in> (known g)\<^sup>+ \<and> (\<forall>u\<in>scc (known g) v. \<not> loop_controlled g u)}"
  have "set (cycle_check g source) = (\<Union>k\<in>set ?reps. cycle_error source ` ?bad k)"
    unfolding cycle_check_def components_exact set_concat set_map image_image cycle_error_def [symmetric]
    by (rule SUP_cong [OF refl], rule component_report) auto
  also have "\<dots> = cycle_error source ` {v. has_node g v \<and> (v, v) \<in> (known g)\<^sup>+ \<and> (\<forall>u\<in>scc (known g) v. \<not> loop_controlled g u)}"
  proof -
    have "(\<Union>k\<in>set ?reps. ?bad k) = {v. has_node g v \<and> (v, v) \<in> (known g)\<^sup>+ \<and> (\<forall>u\<in>scc (known g) v. \<not> loop_controlled g u)}"
    proof (intro set_eqI iffI; elim UN_E CollectE conjE)
      fix v k assume "k \<in> set ?reps" "v \<in> scc (known g) k" "(v, v) \<in> (known g)\<^sup>+" "\<forall>u\<in>scc (known g) v. \<not> loop_controlled g u"
      then show "v \<in> {v. has_node g v \<and> (v, v) \<in> (known g)\<^sup>+ \<and> (\<forall>u\<in>scc (known g) v. \<not> loop_controlled g u)}"
        using depth_graph.scc_nodes [of k g v] by simp
    next
      fix v assume h: "has_node g v" "(v, v) \<in> (known g)\<^sup>+" "\<forall>u\<in>scc (known g) v. \<not> loop_controlled g u"
      from h(1) obtain i where "i < length ?reps" "v \<in> scc (known g) (?reps ! i)" using depth_graph.rep_of [of v g] by auto
      then show "v \<in> (\<Union>k\<in>set ?reps. ?bad k)" using h(2,3) nth_mem [of i ?reps] by blast
    qed
    then show ?thesis by (metis image_UN)
  qed
  finally show ?thesis by simp
qed

lemma cycle_clean:
  "cycle_check g source = [] \<longleftrightarrow> (\<forall>v. has_node g v \<longrightarrow> (v, v) \<in> (known g)\<^sup>+ \<longrightarrow> (\<exists>u\<in>scc (known g) v. loop_controlled g u))"
  unfolding set_empty [symmetric] cycle_reports by auto

text \<open>C18: The linter reports an uncontrolled cycle (\<open>GHG006\<close>) for exactly the nodes that lie on a cycle of the edges between known
  nodes and whose strongly connected component holds no node with a positive \<open>loop.maxIterations\<close>: the two depth-first passes find
  the components exactly, so no uncontrolled cycle escapes and no other node is reported.\<close>

theorem cycle_check_exact:
  "set (cycle_check g source) = cycle_error source `
    {v. has_node g v \<and> (v, v) \<in> (known g)\<^sup>+ \<and> \<not> (\<exists>u\<in>scc (known g) v. loop_controlled g u)}"
  by (rule cycle_reports)


section \<open>Terminal paths\<close>

definition terminal_error :: "string \<Rightarrow> string \<Rightarrow> diagnostic" where
  "terminal_error source v = diagnostic_error ''GHG005_NO_TERMINAL_PATH'' ''reachable node has no path to a terminal node''
    (''/spec/nodes/'' @ escape v) source"

lemma traverse_links: "os_set (traverse_from (adjacency es) starts om_empty) = (set es)\<^sup>* `` set starts"
proof -
  have "{(a, b). b \<in> set (links (adjacency es) a)} = set es" by (auto simp: set_links_adjacency simp del: links_adjacency)
  then show ?thesis using traverse_from_exact [of om_empty "adjacency es" starts] by (simp del: links_adjacency)
qed

lemma reachability_reports:
  "set (reachability_check g source) = terminal_error source `
    {v. (\<exists>e\<in>set (gs_entrypoints (eg_spec g)). has_node g e \<and> (e, v) \<in> (known g)\<^sup>*) \<and>
        \<not> (\<exists>t\<in>set (terminals g). (v, t) \<in> (known g)\<^sup>*)}"
proof -
  let ?reach = "traverse_from (adjacency (known_links g)) (filter (has_node g) (gs_entrypoints (eg_spec g))) om_empty"
  let ?finish = "traverse_from (adjacency (map prod.swap (known_links g))) (terminals g) om_empty"
  have "set (map prod.swap (known_links g)) = (known g)\<inverse>" by auto
  then have f: "os_member ?finish v \<longleftrightarrow> (\<exists>t\<in>set (terminals g). (v, t) \<in> (known g)\<^sup>*)" for v
    unfolding os_set_simps(3) [symmetric] traverse_links by (auto simp: rtrancl_converse)
  have r: "os_member ?reach v \<longleftrightarrow> (\<exists>e\<in>set (gs_entrypoints (eg_spec g)). has_node g e \<and> (e, v) \<in> (known g)\<^sup>*)" for v
    unfolding os_set_simps(3) [symmetric] traverse_links by auto
  show ?thesis unfolding reachability_check_def Let_def terminal_error_def [symmetric] set_map set_filter set_os_list mem_Collect_eq r f ..
qed

lemma reachability_clean:
  "reachability_check g source = [] \<longleftrightarrow> (\<forall>e\<in>set (gs_entrypoints (eg_spec g)). has_node g e \<longrightarrow>
     (\<forall>v. (e, v) \<in> (known g)\<^sup>* \<longrightarrow> (\<exists>t\<in>set (terminals g). (v, t) \<in> (known g)\<^sup>*)))"
  unfolding set_empty [symmetric] reachability_reports by auto

text \<open>The linter reports a missing terminal path (\<open>GHG005\<close>) for exactly the nodes that some known entrypoint reaches and from
  which no terminal is reached, the terminals being those the completion declares or, when it declares none, the nodes
  without outgoing edge.\<close>

theorem reachability_check_exact:
  "set (reachability_check g source) = terminal_error source `
    {v. (\<exists>e\<in>set (gs_entrypoints (eg_spec g)). has_node g e \<and> (e, v) \<in> (known g)\<^sup>*) \<and>
        \<not> (\<exists>t\<in>set (terminals g). (v, t) \<in> (known g)\<^sup>*)}"
  by (rule reachability_reports)


section \<open>Depth\<close>

text \<open>C19: The depth the linter compares with \<open>maxDepth\<close> always exists (the removal of components ends and no in-degree is
  decremented below zero), and it is the greatest length of a chain of nodes each of which reaches the next and is not
  reached back from it: cycles count once.\<close>

theorem longest_acyclic_depth_exact:
  "longest_acyclic_depth g =
    Some (Max (length ` {ns. set ns \<subseteq> set (node_keys g) \<and> chain (strictly_before (known g)) ns}))"
proof (rule depth_graph.longest_depth_exact [of g])
  let ?chains = "{ns. set ns \<subseteq> set (node_keys g) \<and> chain (strictly_before (known g)) ns}"
  fix d assume d: "longest_depth (map (component_list (known g)) (filter (\<lambda>n. n = Min (scc (known g) n)) (node_keys g)))
        (edge_pairs g) (node_keys g = []) = Some d"
      "\<And>ns. set ns \<subseteq> set (node_keys g) \<Longrightarrow> chain (strictly_before (known g)) ns \<Longrightarrow> length ns \<le> d"
      "\<exists>ns. set ns \<subseteq> set (node_keys g) \<and> chain (strictly_before (known g)) ns \<and> length ns = d"
  have bound: "l \<le> d" if "l \<in> length ` ?chains" for l using that d(2) by blast
  then have "finite (length ` ?chains)" by (auto intro: finite_subset [of _ "{..d}"])
  moreover have "d \<in> length ` ?chains" using d(3) by auto
  ultimately have "Max (length ` ?chains) = d" using bound by (intro Max_eqI) auto
  then show ?thesis by (simp only: longest_acyclic_depth_def components_exact d(1))
qed


section \<open>Graphs without errors\<close>

fun secret_free :: "string \<Rightarrow> json \<Rightarrow> bool" where
  "secret_free key (JObject fs) \<longleftrightarrow> (is_secret_key key \<longrightarrow> is_reference key (JObject fs)) \<and> (\<forall>(k, v)\<in>set fs. secret_free k v)"
| "secret_free key (JArray vs) \<longleftrightarrow> (is_secret_key key \<longrightarrow> is_reference key (JArray vs)) \<and> (\<forall>v\<in>set vs. secret_free key v)"
| "secret_free key v \<longleftrightarrow> (is_secret_key key \<longrightarrow> is_reference key v)"

definition bound_source :: "execution_graph \<Rightarrow> string \<Rightarrow> bool" where
  "bound_source g b \<longleftrightarrow> (\<forall>n. binding_source b = Some n \<longrightarrow> has_node g n)"

definition deployment_ok :: "execution_graph \<Rightarrow> graph_node \<Rightarrow> bool" where
  "deployment_ok g n \<longleftrightarrow> (gn_node_type n = Deploy \<longrightarrow> deploy_target_ok n) \<and>
    (\<forall>effects. om_get (gn_properties n) ''effects'' = Some (JObject effects) \<longrightarrow>
       flag effects ''reversible'' \<or> flag effects ''compensationRequired'' \<longrightarrow> compensated g effects)"

definition graph_ok :: "(execution_graph \<Rightarrow> json option) \<Rightarrow> execution_graph \<Rightarrow> bool" where
  "graph_ok to_value g \<longleftrightarrow>
    (\<forall>e\<in>set (gs_entrypoints (eg_spec g)). has_node g e) \<and>
    (\<forall>e\<in>set (graph_edges g). has_node g (ge_from e) \<and> has_node g (ge_to e)) \<and>
    distinct (map ge_id (graph_edges g)) \<and>
    (\<forall>e\<in>set (gs_entrypoints (eg_spec g)). \<forall>v. (e, v) \<in> (known g)\<^sup>* \<longrightarrow> (\<exists>t\<in>set (terminals g). (v, t) \<in> (known g)\<^sup>*)) \<and>
    (\<forall>v. has_node g v \<longrightarrow> (v, v) \<in> (known g)\<^sup>+ \<longrightarrow> (\<exists>u\<in>scc (known g) v. loop_controlled g u)) \<and>
    (\<forall>e\<in>set (graph_edges g). \<forall>b\<in>set (om_values (ge_bindings e)). bound_source g b) \<and>
    (\<forall>n\<in>set (om_values (gs_nodes (eg_spec g))). \<forall>(target, b)\<in>set (node_bindings n). \<forall>t. b = JString t \<longrightarrow> bound_source g t) \<and>
    (\<forall>root. to_value g = Some (JObject root) \<longrightarrow> (\<forall>(k, v)\<in>set root. secret_free k v)) \<and>
    (\<forall>n\<in>set (om_values (gs_nodes (eg_spec g))). deployment_ok g n) \<and>
    (\<forall>limit. gb_max_nodes (gs_budgets (eg_spec g)) = Some limit \<longrightarrow> om_len (gs_nodes (eg_spec g)) \<le> unat limit) \<and>
    (\<forall>limit. gb_max_depth (gs_budgets (eg_spec g)) = Some limit \<longrightarrow>
       (\<forall>ns. set ns \<subseteq> set (node_keys g) \<longrightarrow> chain (strictly_before (known g)) ns \<longrightarrow> length ns \<le> unat limit)) \<and>
    (\<forall>retries. gb_max_retries_per_node (gs_budgets (eg_spec g)) = Some retries \<longrightarrow>
       (\<forall>n\<in>set (om_values (gs_nodes (eg_spec g))). \<not> over_retries retries n)) \<and>
    (\<forall>policy\<in>set (gs_policies (eg_spec g)). denied_action policy \<in> {Some ''deploy'', Some ''production.deploy''} \<longrightarrow>
       (\<forall>n\<in>set (om_values (gs_nodes (eg_spec g))). gn_node_type n \<noteq> Deploy))"

lemma enumerate_clean:
  "(\<And>i e. f i e = [] \<longleftrightarrow> P e) \<Longrightarrow> concat (map (\<lambda>(i, e). f i e) (List.enumerate k xs)) = [] \<longleftrightarrow> (\<forall>e\<in>set xs. P e)"
  by (induction xs arbitrary: k) auto

lemma pairs_clean:
  "(\<And>i e. f i e = [] \<longleftrightarrow> P e) \<Longrightarrow> concat (map (\<lambda>(i, e). f i e) ps) = [] \<longleftrightarrow> (\<forall>(i, e)\<in>set ps. P e)"
  by (induction ps) auto

lemma entries_clean:
  "(\<And>i e. f i e = [] \<longleftrightarrow> P e) \<Longrightarrow> concat (map (\<lambda>(i, e). f i e) (om_entries m)) = [] \<longleftrightarrow> (\<forall>e\<in>set (om_values m). P e)"
  by (auto simp: om_values_def)

lemma secret_free_inspect:
  "inspect key v path source = [] \<longleftrightarrow> secret_free key v"
  "inspect_fields fs path source = [] \<longleftrightarrow> (\<forall>(k, v)\<in>set fs. secret_free k v)"
  "inspect_items key i vs path source = [] \<longleftrightarrow> (\<forall>v\<in>set vs. secret_free key v)"
  by (induction key v path source and fs path source and key i vs path source
      rule: inspect_inspect_fields_inspect_items.induct) (auto simp: secret_here_def)

lemma edge_check_clean:
  "edge_check g source index edge_ids es = [] \<longleftrightarrow> (\<forall>e\<in>set es. has_node g (ge_from e) \<and> has_node g (ge_to e)) \<and>
    distinct (map ge_id es) \<and> (\<forall>e\<in>set es. \<not> os_member edge_ids (ge_id e))"
  by (induction es arbitrary: index edge_ids) (auto simp: Let_def intro: rev_image_eqI)

lemma check_binding_clean: "check_binding g b path source = [] \<longleftrightarrow> bound_source g b"
  by (auto simp: check_binding_def bound_source_def split: option.splits)

lemma binding_check_clean:
  "binding_check g source = [] \<longleftrightarrow> (\<forall>e\<in>set (graph_edges g). \<forall>b\<in>set (om_values (ge_bindings e)). bound_source g b) \<and>
    (\<forall>n\<in>set (om_values (gs_nodes (eg_spec g))). \<forall>(target, b)\<in>set (node_bindings n). \<forall>t. b = JString t \<longrightarrow> bound_source g t)"
proof -
  have "(case as_str b of Some b \<Rightarrow> check_binding g b path source | None \<Rightarrow> []) = [] \<longleftrightarrow> (\<forall>t. b = JString t \<longrightarrow> bound_source g t)" for b path
    by (cases b) (simp_all add: check_binding_clean)
  then have "concat (map (\<lambda>(target, binding). case as_str binding of
          Some b \<Rightarrow> check_binding g b (''/spec/nodes/'' @ escape n_id @ ''/input/bindings/'' @ escape target) source
        | None \<Rightarrow> []) (node_bindings n)) = [] \<longleftrightarrow> (\<forall>(target, b)\<in>set (node_bindings n). \<forall>t. b = JString t \<longrightarrow> bound_source g t)" for n_id n
    by (intro pairs_clean)
  note nodes = entries_clean [OF this]
  have "concat (map (\<lambda>(target, binding). check_binding g binding (''/spec/edges/'' @ show_decimal index @ ''/map/'' @ escape target) source)
      (om_entries (ge_bindings e))) = [] \<longleftrightarrow> (\<forall>b\<in>set (om_values (ge_bindings e)). bound_source g b)" for index e
    by (rule entries_clean) (rule check_binding_clean)
  note edges = enumerate_clean [OF this]
  show ?thesis unfolding binding_check_def append_is_Nil_conv node_entries_def nodes edges ..
qed

lemma deployment_check_clean:
  "deployment_check g source = [] \<longleftrightarrow> (\<forall>n\<in>set (om_values (gs_nodes (eg_spec g))). deployment_ok g n)"
  unfolding deployment_check_def node_entries_def deployment_ok_def
proof (rule entries_clean, goal_cases)
  case (1 n_id n)
  then show ?case
  proof (cases "om_get (gn_properties n) ''effects''")
    case (Some v)
    then show ?thesis by (cases v) (auto simp: Let_def)
  qed (simp add: Let_def)
qed

lemma retry_check_clean:
  "concat (map (\<lambda>(n_id, n). if over_retries retries n then [d n_id] else []) (node_entries g)) = [] \<longleftrightarrow>
    (\<forall>n\<in>set (om_values (gs_nodes (eg_spec g))). \<not> over_retries retries n)"
  unfolding node_entries_def by (rule entries_clean) simp

lemma over_depth_iff:
  "over_depth g limit \<longleftrightarrow> \<not> (\<forall>ns. set ns \<subseteq> set (node_keys g) \<longrightarrow> chain (strictly_before (known g)) ns \<longrightarrow> length ns \<le> unat limit)"
proof (rule depth_graph.longest_depth_exact [of g])
  fix d assume d: "longest_depth (map (component_list (known g)) (filter (\<lambda>n. n = Min (scc (known g) n)) (node_keys g)))
        (edge_pairs g) (node_keys g = []) = Some d"
      "\<And>ns. set ns \<subseteq> set (node_keys g) \<Longrightarrow> chain (strictly_before (known g)) ns \<Longrightarrow> length ns \<le> d"
      "\<exists>ns. set ns \<subseteq> set (node_keys g) \<and> chain (strictly_before (known g)) ns \<and> length ns = d"
  have "over_depth g limit \<longleftrightarrow> unat limit < d" by (simp only: over_depth_def longest_acyclic_depth_def components_exact d(1) option.case)
  then show ?thesis using d(2,3) by (meson le_trans not_le)
qed

lemma budget_check_clean:
  "budget_check g source = [] \<longleftrightarrow>
    (\<forall>limit. gb_max_nodes (gs_budgets (eg_spec g)) = Some limit \<longrightarrow> om_len (gs_nodes (eg_spec g)) \<le> unat limit) \<and>
    (\<forall>limit. gb_max_depth (gs_budgets (eg_spec g)) = Some limit \<longrightarrow> \<not> over_depth g limit) \<and>
    (\<forall>retries. gb_max_retries_per_node (gs_budgets (eg_spec g)) = Some retries \<longrightarrow>
      (\<forall>n\<in>set (om_values (gs_nodes (eg_spec g))). \<not> over_retries retries n))"
  unfolding budget_check_def Let_def append_is_Nil_conv
  by (intro arg_cong2 [where f = "(\<and>)"]; split option.split; simp add: retry_check_clean not_less del: concat_eq_Nil_conv)

lemma check_hard_policies_clean:
  "check_hard_policies g [] source = [] \<longleftrightarrow>
    (\<forall>policy\<in>set (gs_policies (eg_spec g)). denied_action policy \<in> {Some ''deploy'', Some ''production.deploy''} \<longrightarrow>
       (\<forall>n\<in>set (om_values (gs_nodes (eg_spec g))). gn_node_type n \<noteq> Deploy))"
  unfolding check_hard_policies_def
proof (rule enumerate_clean, goal_cases)
  case (1 index policy)
  have "gn_node_type n \<noteq> Deploy \<longleftrightarrow> \<not> gn_node_type n = Deploy" for n by simp
  then show ?case by (cases "denied_action policy") (simp_all add: policy_denies_def list_ex_iff)
qed

lemma entrypoint_check_clean: "entrypoint_check g source = [] \<longleftrightarrow> (\<forall>e\<in>set (gs_entrypoints (eg_spec g)). has_node g e)"
  unfolding entrypoint_check_def by (rule enumerate_clean) simp

lemma security_check_clean:
  "security_check to_value g source = [] \<longleftrightarrow> (\<forall>root. to_value g = Some (JObject root) \<longrightarrow> (\<forall>(k, v)\<in>set root. secret_free k v))"
  by (auto simp: security_check_def secret_free_inspect split: option.splits json.splits)

lemma sort_diagnostics_clean [simp]: "sort_diagnostics ds = [] \<longleftrightarrow> ds = []"
  unfolding sort_diagnostics_def by (metis length_0_conv length_sort)

lemma lint_clean: "lr_errors (lint to_value g source) = [] \<longleftrightarrow> graph_ok to_value g"
proof -
  have ball: "\<forall>x\<in>A. P x \<Longrightarrow> (\<forall>x\<in>A. P x \<longrightarrow> Q x) \<longleftrightarrow> (\<forall>x\<in>A. Q x)" for A :: "string set" and P Q by blast
  note clean = entrypoint_check_clean edge_check_clean reachability_clean cycle_clean binding_check_clean security_check_clean
    deployment_check_clean budget_check_clean over_depth_iff
  show ?thesis
  proof (cases "security_check to_value g source = []")
    case False
    then have "lr_errors (lint to_value g source) \<noteq> []" by (simp add: lint_def Let_def)
    moreover have "\<not> graph_ok to_value g" using False unfolding security_check_clean graph_ok_def by blast
    ultimately show ?thesis by blast
  next
    case True
    have "lr_errors (lint to_value g source) = [] \<longleftrightarrow> entrypoint_check g source = [] \<and> edge_check g source 0 om_empty (graph_edges g) = [] \<and>
        reachability_check g source = [] \<and> cycle_check g source = [] \<and> binding_check g source = [] \<and>
        security_check to_value g source = [] \<and> deployment_check g source = [] \<and> budget_check g source = [] \<and>
        check_hard_policies g [] source = []"
      by (simp add: lint_def Let_def True)
    also have "\<dots> \<longleftrightarrow> graph_ok to_value g"
      unfolding clean check_hard_policies_clean graph_ok_def os_member_empty not_not conj_assoc
      by (rule conj_cong [OF refl]) (simp only: ball simp_thms ball_triv)
    finally show ?thesis .
  qed
qed

text \<open>C20: The linter reports no error exactly for the graphs that are well formed: entrypoints, edges and bindings name
  known nodes, edge ids are distinct, what is reached from an entrypoint reaches a terminal, every cycle has a node that bounds
  it, no secret is inline, deployments and reversible effects have their targets and rollbacks, the budgets for nodes, depth and
  retries hold, and no inline policy denies a deployment of the graph.\<close>

theorem lint_accepts_exact: "lr_errors (lint to_value g source) = [] \<longleftrightarrow> graph_ok to_value g"
  by (rule lint_clean)

end
