(* ===== verification/Policy.thy ===== *)
theory Policy
  imports Lint_Soundness Operations_Payloads
begin

text \<open>
  The deterministic policy crate: the limits on adoption decisions (\<open>core/policy/src/adoption.rs\<close>), the choice of a subagent
  (\<open>delegation.rs\<close>) and the evaluation of a graph transition (\<open>evaluator.rs\<close>) with the decision types of
  \<open>core/protocols/src/policy.rs\<close>. The base version enters through its graph alone.
\<close>

section \<open>Adoption\<close>

datatype decision = KeepRule | DisableRule | ReplaceRule | UnresolvedRule

definition adoption_verified :: "bool list \<Rightarrow> bool" where
  "adoption_verified required = (required \<noteq> [] \<and> list_all (\<lambda>observed. observed) required)"

definition decision_allowed :: "bool \<Rightarrow> decision \<Rightarrow> bool" where
  "decision_allowed protected decision = (\<not> protected \<or> decision = KeepRule \<or> decision = UnresolvedRule)"

definition approval_matches :: "string \<Rightarrow> string \<Rightarrow> bool" where
  "approval_matches actual accepted = (actual \<noteq> [] \<and> actual = accepted)"

definition restore_value :: "json option \<Rightarrow> json option \<Rightarrow> json option \<Rightarrow> string + json option" where
  "restore_value base installed current =
    (if current = installed \<or> current = base then Inr base
     else if base = installed then Inr current
     else Inl ''restore_conflict'')"

lemma restore_keeps_later_edit:
  "restore_value base installed current = Inr v \<Longrightarrow> current \<noteq> installed \<Longrightarrow> v = current"
  "restore_value base installed current = Inl e \<longleftrightarrow>
    e = ''restore_conflict'' \<and> base \<noteq> installed \<and> current \<noteq> installed \<and> current \<noteq> base"
  by (auto simp: restore_value_def split: if_splits)


section \<open>Delegation\<close>

fun tier_index :: "delegation_tier \<Rightarrow> u32" where
  "tier_index TierSmall = 0" | "tier_index TierStandard = 1" | "tier_index TierLarge = 2"

definition raised :: "delegation_tier \<Rightarrow> u32 \<Rightarrow> delegation_tier" where
  "raised tier steps =
    (let i = min (saturating_add (tier_index tier) steps) 2 in
     if i = 0 then TierSmall else if i = 1 then TierStandard else TierLarge)"

record delegation_rule =
  dr_tier :: delegation_tier
  dr_effort :: delegation_effort

record delegation_policy =
  dp_id :: delegation_policy_id
  dp_explorer :: delegation_rule
  dp_implementer :: delegation_rule
  dp_reviewer :: delegation_rule
  dp_verifier :: delegation_rule
  dp_escalate_on_red_check :: bool

definition routed :: delegation_policy where
  "routed = \<lparr>dp_id = Routed,
     dp_explorer = \<lparr>dr_tier = TierSmall, dr_effort = DelegateLow\<rparr>,
     dp_implementer = \<lparr>dr_tier = TierStandard, dr_effort = DelegateMedium\<rparr>,
     dp_reviewer = \<lparr>dr_tier = TierStandard, dr_effort = DelegateHigh\<rparr>,
     dp_verifier = \<lparr>dr_tier = TierSmall, dr_effort = DelegateMedium\<rparr>,
     dp_escalate_on_red_check = True\<rparr>"

fun policy_rule :: "delegation_policy \<Rightarrow> subagent_kind \<Rightarrow> delegation_rule" where
  "policy_rule p Explorer = dp_explorer p"
| "policy_rule p Implementer = dp_implementer p"
| "policy_rule p Reviewer = dp_reviewer p"
| "policy_rule p Verifier = dp_verifier p"

record delegation_choice =
  dc_kind :: subagent_kind
  dc_tier :: delegation_tier
  dc_effort :: delegation_effort
  dc_escalated :: bool

definition choose_delegation :: "delegation_policy \<Rightarrow> subagent_kind \<Rightarrow> u32 \<Rightarrow> delegation_choice" where
  "choose_delegation policy kind red_checks =
    (let rule = policy_rule policy kind in
     if \<not> dp_escalate_on_red_check policy \<or> red_checks = 0
     then \<lparr>dc_kind = kind, dc_tier = dr_tier rule, dc_effort = dr_effort rule, dc_escalated = False\<rparr>
     else let tier = raised (dr_tier rule) red_checks in
       \<lparr>dc_kind = kind, dc_tier = tier, dc_effort = DelegateHigh,
        dc_escalated = (tier \<noteq> dr_tier rule \<or> DelegateHigh \<noteq> dr_effort rule)\<rparr>)"


section \<open>Decisions\<close>

datatype actor_type = OwnerType | HumanType | AgentType | SystemType

record actor =
  act_type :: actor_type
  act_id :: string

definition is_owner :: "actor \<Rightarrow> bool" where
  "is_owner a = (act_type a = OwnerType \<and> \<not> trim_is_empty (act_id a))"

record manual_override =
  mo_actor :: actor
  mo_reason :: string
  mo_waived_requirements :: "string list"
  mo_acknowledged_risks :: "string list"
  mo_scope :: waiver_scope

datatype obligation_status = Satisfied | Unsatisfied | Waived | Impossible

record policy_obligation =
  po_requirement :: string
  po_status :: obligation_status
  po_evidence :: "string list"
  po_reason :: string
  po_overrideable :: bool

record policy_report =
  pr_obligations :: "policy_obligation list"
  pr_diagnostics :: "diagnostic list"
  pr_result_status :: string

definition report_requirement :: "policy_report \<Rightarrow> string \<Rightarrow> policy_obligation option" where
  "report_requirement r name = List.find (\<lambda>o'. po_requirement o' = name) (pr_obligations r)"

definition allows_transition :: "policy_report \<Rightarrow> bool" where
  "allows_transition r = list_all (\<lambda>o'. po_status o' = Satisfied \<or> po_status o' = Waived) (pr_obligations r)"


section \<open>Evaluation of a transition\<close>

definition validate_manual_override_limits :: "manual_override \<Rightarrow> diagnostic + unit" where
  "validate_manual_override_limits request =
    (let path =
       (if length (mo_waived_requirements request) > 64 then Some ''/manualOverride/waivedRequirements''
        else if length (mo_acknowledged_risks request) > 64 then Some ''/manualOverride/acknowledgedRisks''
        else if chars_count (act_id (mo_actor request)) > 256 then Some ''/manualOverride/actor/id''
        else if chars_count (mo_reason request) > 2048 then Some ''/manualOverride/reason''
        else if list_ex (\<lambda>v. chars_count v > 128) (mo_waived_requirements request) then Some ''/manualOverride/waivedRequirements''
        else if list_ex (\<lambda>v. chars_count v > 512) (mo_acknowledged_risks request) then Some ''/manualOverride/acknowledgedRisks''
        else None) in
     case path of
       Some p \<Rightarrow> Inl (diagnostic_error ''GHP001_OVERRIDE_LIMIT_EXCEEDED''
         ''manual override exceeds the supported collection or text limit'' p ''manualOverride'')
     | None \<Rightarrow> Inr ())"

definition complete_owner_override :: "manual_override \<Rightarrow> bool" where
  "complete_owner_override request =
    (is_owner (mo_actor request) \<and> \<not> trim_is_empty (mo_reason request) \<and> mo_waived_requirements request \<noteq> [] \<and>
     mo_acknowledged_risks request \<noteq> [])"

definition structural_requirement :: "string \<Rightarrow> string" where
  "structural_requirement code =
    (if code = ''GHG009_DEPLOY_TARGET_MISSING'' then ''deploy_target''
     else if code = ''GHG006_UNCONTROLLED_CYCLE'' then ''controlled_cycle''
     else if code = ''GHG010_COMPENSATION_MISSING'' then ''compensation''
     else if code = ''GHG008_INLINE_SECRET'' then ''inline_secret''
     else if code = ''GHG014_HARD_POLICY_DENIED'' then ''hard_policy''
     else map to_ascii_lowercase code)"

definition declared_bypasses :: "(string \<times> json) list \<Rightarrow> string list" where
  "declared_bypasses fs = (case Option.bind (map_of fs ''bypassedRequirements'') as_array of
     Some vs \<Rightarrow> List.map_filter as_str vs | None \<Rightarrow> [])"

fun collect_bypassed :: "json \<Rightarrow> string oset \<Rightarrow> string oset"
  and collect_fields :: "(string \<times> json) list \<Rightarrow> string oset \<Rightarrow> string oset"
  and collect_items :: "json list \<Rightarrow> string oset \<Rightarrow> string oset" where
  "collect_bypassed (JObject fs) out = collect_fields fs (fold os_insert (declared_bypasses fs) out)"
| "collect_bypassed (JArray vs) out = collect_items vs out"
| "collect_bypassed v out = out"
| "collect_fields [] out = out"
| "collect_fields ((k, v) # fs) out = collect_fields fs (collect_bypassed v out)"
| "collect_items [] out = out"
| "collect_items (v # vs) out = collect_items vs (collect_bypassed v out)"

definition bypassed_requirements :: "execution_graph \<Rightarrow> string oset" where
  "bypassed_requirements g = fold collect_bypassed (gs_policies (eg_spec g)) om_empty"

definition label_applies :: "policy_obligation list \<Rightarrow> json list \<Rightarrow> bool" where
  "label_applies obligations requirements =
    (requirements \<noteq> [] \<and> list_all (\<lambda>v. case as_str v of
       Some name \<Rightarrow> name \<noteq> [] \<and> list_ex (\<lambda>o'. po_requirement o' = name \<and> po_status o' = Waived) obligations
     | None \<Rightarrow> False) requirements)"

fun find_label :: "policy_obligation list \<Rightarrow> json \<Rightarrow> string option"
  and find_label_fields :: "policy_obligation list \<Rightarrow> (string \<times> json) list \<Rightarrow> string option"
  and find_label_items :: "policy_obligation list \<Rightarrow> json list \<Rightarrow> string option" where
  "find_label os (JObject fs) =
    (case Option.bind (map_of fs ''manualOverride'') as_object of
       None \<Rightarrow> find_label_fields os fs
     | Some override_policy \<Rightarrow>
         (case Option.bind (map_of override_policy ''bypassedRequirements'') as_array of
            None \<Rightarrow> None
          | Some requirements \<Rightarrow>
              if label_applies os requirements then Option.bind (map_of override_policy ''resultLabel'') as_str
              else find_label_fields os fs))"
| "find_label os (JArray vs) = find_label_items os vs"
| "find_label os v = None"
| "find_label_fields os [] = None"
| "find_label_fields os ((k, v) # fs) = (case find_label os v of Some l \<Rightarrow> Some l | None \<Rightarrow> find_label_fields os fs)"
| "find_label_items os [] = None"
| "find_label_items os (v # vs) = (case find_label os v of Some l \<Rightarrow> Some l | None \<Rightarrow> find_label_items os vs)"

definition result_label :: "execution_graph \<Rightarrow> policy_obligation list \<Rightarrow> string option" where
  "result_label g os = find_label_items os (gs_policies (eg_spec g))"

type_synonym obligations = "(string, policy_obligation) omap"

definition or_insert :: "string \<Rightarrow> policy_obligation \<Rightarrow> obligations \<Rightarrow> obligations" where
  "or_insert k o' m = (if om_contains m k then m else om_insert k o' m)"

definition required_node :: "graph_node \<Rightarrow> bool" where
  "required_node n = (gn_node_type n = Gate \<or> gn_optionality n = Required)"

definition preserved_obligation :: "execution_graph \<Rightarrow> string \<Rightarrow> policy_obligation" where
  "preserved_obligation candidate n_id =
    (let present = has_node candidate n_id in
     \<lparr>po_requirement = n_id, po_status = (if present then Satisfied else Unsatisfied), po_evidence = [''graph-node:'' @ n_id],
      po_reason = (if present then ''required predecessor obligation is preserved'' else ''required predecessor obligation was removed''),
      po_overrideable = True\<rparr>)"

definition bypassed_obligation :: "string \<Rightarrow> policy_obligation" where
  "bypassed_obligation r =
    \<lparr>po_requirement = r, po_status = Unsatisfied, po_evidence = [''candidate-policy:bypassedRequirements''],
     po_reason = ''candidate declares this quality requirement bypassed'', po_overrideable = True\<rparr>"

definition structural_obligation :: "diagnostic \<Rightarrow> policy_obligation" where
  "structural_obligation d =
    \<lparr>po_requirement = structural_requirement (dg_code d), po_status = Impossible,
     po_evidence = [''diagnostic:'' @ dg_code d @ '':'' @ dg_path d], po_reason = dg_message d, po_overrideable = False\<rparr>"

definition unknown_obligation :: "string \<Rightarrow> policy_obligation" where
  "unknown_obligation r =
    \<lparr>po_requirement = r, po_status = Unsatisfied, po_evidence = [''owner-override:unknown-requirement''],
     po_reason = ''override names no discovered policy obligation'', po_overrideable = False\<rparr>"

definition waive :: "manual_override \<Rightarrow> policy_obligation \<Rightarrow> policy_obligation" where
  "waive request o' =
    (if po_overrideable o' \<and> po_status o' = Unsatisfied \<and> po_requirement o' \<in> set (mo_waived_requirements request)
     then o'\<lparr>po_status := Waived, po_reason := mo_reason request,
       po_evidence := po_evidence o' @ (''owner-override:'' @ act_id (mo_actor request)) #
         map (\<lambda>risk. ''owner-override-acknowledged-risk:'' @ risk) (mo_acknowledged_risks request)\<rparr>
     else o')"

definition discovered :: "execution_graph \<Rightarrow> execution_graph \<Rightarrow> obligations" where
  "discovered base candidate =
    fold (\<lambda>r m. or_insert r (bypassed_obligation r) m) (om_keys (bypassed_requirements candidate))
      (fold (\<lambda>(n_id, n) m. if required_node n then om_insert n_id (preserved_obligation candidate n_id) m else m)
        (node_entries base) om_empty)"

definition with_structure :: "diagnostic list \<Rightarrow> obligations \<Rightarrow> obligations" where
  "with_structure errors m = fold (\<lambda>d. om_insert (structural_requirement (dg_code d)) (structural_obligation d)) errors m"

definition with_override :: "manual_override option \<Rightarrow> obligations \<Rightarrow> obligations" where
  "with_override manual_override m = (case manual_override of
      None \<Rightarrow> m
    | Some request \<Rightarrow>
        if complete_owner_override request
        then om_map (waive request) (fold (\<lambda>r m. or_insert r (unknown_obligation r) m) (mo_waived_requirements request) m)
        else m)"

definition report_status :: "execution_graph \<Rightarrow> policy_obligation list \<Rightarrow> string" where
  "report_status candidate os =
    (if list_ex (\<lambda>o'. po_status o' = Unsatisfied \<or> po_status o' = Impossible) os then ''blocked''
     else if list_ex (\<lambda>o'. po_status o' = Waived) os then
       (case result_label candidate os of Some l \<Rightarrow> l | None \<Rightarrow> ''completed_with_waivers'')
     else ''ready'')"

definition evaluate_transition ::
  "(execution_graph \<Rightarrow> json option) \<Rightarrow> execution_graph \<Rightarrow> execution_graph \<Rightarrow> manual_override option \<Rightarrow> policy_report" where
  "evaluate_transition to_value base candidate manual_override =
    (case map_option validate_manual_override_limits manual_override of
       Some (Inl d) \<Rightarrow>
         \<lparr>pr_obligations = [\<lparr>po_requirement = ''manual_override_limits'', po_status = Impossible,
            po_evidence = [''diagnostic:'' @ dg_code d @ '':'' @ dg_path d], po_reason = dg_message d, po_overrideable = False\<rparr>],
          pr_diagnostics = [d], pr_result_status = ''blocked''\<rparr>
     | _ \<Rightarrow>
         let errors = lr_errors (lint to_value candidate ''candidate'');
             os = om_values (with_override manual_override (with_structure errors (discovered base candidate))) in
         \<lparr>pr_obligations = os, pr_diagnostics = errors, pr_result_status = report_status candidate os\<rparr>)"


section \<open>What a transition needs\<close>

definition required_in :: "execution_graph \<Rightarrow> string \<Rightarrow> bool" where
  "required_in g k = (case om_get (gs_nodes (eg_spec g)) k of Some n \<Rightarrow> required_node n | None \<Rightarrow> False)"

definition excused :: "manual_override option \<Rightarrow> string \<Rightarrow> bool" where
  "excused manual_override k = (case manual_override of
     Some request \<Rightarrow> complete_owner_override request \<and> k \<in> set (mo_waived_requirements request) | None \<Rightarrow> False)"

lemma fold_or_insert_get:
  "om_get (fold (\<lambda>r m. or_insert r (f r) m) rs m) k =
    (case om_get m k of Some o' \<Rightarrow> Some o' | None \<Rightarrow> if k \<in> set rs then Some (f k) else None)"
  by (induction rs arbitrary: m) (auto simp: or_insert_def om_contains_def split: option.splits)

lemma fold_required_get:
  "om_get (fold (\<lambda>(n_id, n) m. if required_node n then om_insert n_id (f n_id) m else m) ps m) k =
    (if \<exists>n. (k, n) \<in> set ps \<and> required_node n then Some (f k) else om_get m k)"
  by (induction ps arbitrary: m) auto

lemma discovered_get:
  "om_get (discovered base candidate) k =
    (if required_in base k then Some (preserved_obligation candidate k)
     else if os_member (bypassed_requirements candidate) k then Some (bypassed_obligation k) else None)"
proof -
  have "(\<exists>n. (k, n) \<in> set (node_entries base) \<and> required_node n) \<longleftrightarrow> required_in base k"
    by (auto simp: node_entries_def required_in_def om_in_entries split: option.splits)
  then show ?thesis by (simp add: discovered_def fold_or_insert_get fold_required_get set_os_list del: set_om_keys)
qed

lemma allows_values: "list_all P (om_values m) \<longleftrightarrow> (\<forall>k o'. om_get m k = Some o' \<longrightarrow> P o')"
  by (force simp: list_all_iff om_values_def simp flip: om_in_entries)

definition admitted :: "policy_obligation \<Rightarrow> bool" where
  "admitted o' \<longleftrightarrow> po_status o' = Satisfied \<or> po_status o' = Waived"

lemma structure_blocks:
  assumes "om_get m k = Some o'" "po_status o' = Impossible"
  shows "\<exists>o'. om_get (with_override manual_override m) k = Some o' \<and> \<not> admitted o'"
  using assms by (auto simp: with_override_def admitted_def waive_def fold_or_insert_get split: option.splits)

lemma with_structure_impossible: "errors \<noteq> [] \<Longrightarrow> \<exists>k o'. om_get (with_structure errors m) k = Some o' \<and> po_status o' = Impossible"
proof (induction errors rule: rev_induct)
  case (snoc d errors)
  then show ?case
    by (intro exI [of _ "structural_requirement (dg_code d)"] exI [of _ "structural_obligation d"])
       (simp add: with_structure_def structural_obligation_def)
qed simp

lemma override_get:
  "om_get (with_override manual_override m) k =
    (case manual_override of
       Some request \<Rightarrow>
         if complete_owner_override request
         then map_option (waive request) (case om_get m k of Some o' \<Rightarrow> Some o' | None \<Rightarrow>
           if k \<in> set (mo_waived_requirements request) then Some (unknown_obligation k) else None)
         else om_get m k
     | None \<Rightarrow> om_get m k)"
  by (simp add: with_override_def fold_or_insert_get split: option.splits)

definition transition_permitted ::
  "(execution_graph \<Rightarrow> json option) \<Rightarrow> execution_graph \<Rightarrow> execution_graph \<Rightarrow> manual_override option \<Rightarrow> bool" where
  "transition_permitted to_value base candidate manual_override \<longleftrightarrow>
    (\<forall>request. manual_override = Some request \<longrightarrow> validate_manual_override_limits request = Inr ()) \<and>
    graph_ok to_value candidate \<and>
    (\<forall>k. required_in base k \<longrightarrow> has_node candidate k \<or> excused manual_override k) \<and>
    (\<forall>k. os_member (bypassed_requirements candidate) k \<longrightarrow> required_in base k \<or> excused manual_override k) \<and>
    (\<forall>k. excused manual_override k \<longrightarrow> required_in base k \<or> os_member (bypassed_requirements candidate) k)"

lemma obligation_admitted:
  "(\<forall>o'. om_get (with_override manual_override (discovered base candidate)) k = Some o' \<longrightarrow> admitted o') \<longleftrightarrow>
    (required_in base k \<longrightarrow> has_node candidate k \<or> excused manual_override k) \<and>
    (os_member (bypassed_requirements candidate) k \<longrightarrow> required_in base k \<or> excused manual_override k) \<and>
    (excused manual_override k \<longrightarrow> required_in base k \<or> os_member (bypassed_requirements candidate) k)"
  by (auto simp: override_get discovered_get excused_def admitted_def waive_def preserved_obligation_def bypassed_obligation_def
      unknown_obligation_def Let_def split: option.splits if_splits)

text \<open>C23: A candidate graph is let through exactly when the override stays within its limits, the linter finds no error in the
  candidate, every gate and every required node of the base graph is kept or waived, everything the candidate declares bypassed
  is such a node or waived, and the override names nothing else; only a complete override of the owner waives, and no
  override waives what the linter refuses.\<close>

theorem evaluate_transition_exact:
  "allows_transition (evaluate_transition to_value base candidate manual_override) \<longleftrightarrow>
    transition_permitted to_value base candidate manual_override"
proof (cases "\<exists>request d. manual_override = Some request \<and> validate_manual_override_limits request = Inl d")
  case True
  then show ?thesis by (auto simp: evaluate_transition_def transition_permitted_def allows_transition_def)
next
  case False
  then have limits: "\<forall>request. manual_override = Some request \<longrightarrow> validate_manual_override_limits request = Inr ()"
    by (metis sum.exhaust unit.exhaust)
  let ?errors = "lr_errors (lint to_value candidate ''candidate'')"
  let ?m = "with_override manual_override (with_structure ?errors (discovered base candidate))"
  have "pr_obligations (evaluate_transition to_value base candidate manual_override) = om_values ?m"
    using limits by (auto simp: evaluate_transition_def Let_def split: option.splits)
  then have "allows_transition (evaluate_transition to_value base candidate manual_override) \<longleftrightarrow>
      (\<forall>k o'. om_get ?m k = Some o' \<longrightarrow> admitted o')"
    by (simp add: allows_transition_def allows_values admitted_def)
  also have "\<dots> \<longleftrightarrow> transition_permitted to_value base candidate manual_override"
  proof (cases "?errors = []")
    case True
    then have "with_structure ?errors (discovered base candidate) = discovered base candidate" by (simp add: with_structure_def)
    moreover have "graph_ok to_value candidate" using True lint_clean by blast
    ultimately show ?thesis using limits by (simp add: transition_permitted_def obligation_admitted) blast
  next
    case False
    then obtain k o' where "om_get (with_structure ?errors (discovered base candidate)) k = Some o'" "po_status o' = Impossible"
      using with_structure_impossible by blast
    then have "\<not> (\<forall>k o'. om_get ?m k = Some o' \<longrightarrow> admitted o')" using structure_blocks by blast
    moreover have "\<not> graph_ok to_value candidate" using False lint_clean by blast
    ultimately show ?thesis by (simp add: transition_permitted_def)
  qed
  finally show ?thesis .
qed

lemma obligation_key: "om_get (with_structure errors (discovered base candidate)) k = Some o' \<Longrightarrow> po_requirement o' = k"
proof (induction errors arbitrary: o' rule: rev_induct)
  case Nil
  then show ?case by (auto simp: with_structure_def discovered_get preserved_obligation_def bypassed_obligation_def Let_def split: if_splits)
next
  case (snoc d errors)
  then show ?case by (auto simp: with_structure_def structural_obligation_def split: if_splits)
qed

lemma undecided_before_override:
  assumes "om_get (with_structure errors (discovered base candidate)) k = Some o'"
  shows "po_status o' \<noteq> Waived" "po_overrideable o' \<Longrightarrow> po_status o' = Unsatisfied \<Longrightarrow>
    required_in base k \<and> \<not> has_node candidate k \<or> os_member (bypassed_requirements candidate) k"
  using assms
  by (induction errors arbitrary: o' rule: rev_induct)
     (auto simp: with_structure_def structural_obligation_def discovered_get preserved_obligation_def bypassed_obligation_def Let_def
       split: if_splits)

text \<open>C24: Every waived obligation of a report answers to a complete override of the owner that names it: it concerns a required
  node the candidate removed or a requirement the candidate declares bypassed, its reason is the override's, and its evidence
  ends with the owner and with every risk the owner acknowledged.\<close>

theorem waiver_recorded:
  assumes "o' \<in> set (pr_obligations (evaluate_transition to_value base candidate manual_override))" "po_status o' = Waived"
  shows "\<exists>request evidence. manual_override = Some request \<and> complete_owner_override request \<and>
    po_requirement o' \<in> set (mo_waived_requirements request) \<and> po_reason o' = mo_reason request \<and>
    po_evidence o' = evidence @ (''owner-override:'' @ act_id (mo_actor request)) #
      map (\<lambda>risk. ''owner-override-acknowledged-risk:'' @ risk) (mo_acknowledged_risks request) \<and>
    (required_in base (po_requirement o') \<and> \<not> has_node candidate (po_requirement o') \<or>
     os_member (bypassed_requirements candidate) (po_requirement o'))"
proof -
  let ?m = "with_structure (lr_errors (lint to_value candidate ''candidate'')) (discovered base candidate)"
  have "o' \<in> set (om_values (with_override manual_override ?m))"
    using assms by (auto simp: evaluate_transition_def Let_def split: option.splits sum.splits)
  then obtain k where k: "om_get (with_override manual_override ?m) k = Some o'" by (auto simp: om_values_def om_in_entries)
  obtain request where q: "manual_override = Some request" "complete_owner_override request"
    using k assms(2) undecided_before_override(1) by (auto simp: override_get split: option.splits if_splits)
  then obtain b where b: "o' = waive request b" "om_get ?m k = Some b \<or> b = unknown_obligation k"
    using k by (auto simp: override_get split: option.splits if_splits)
  have w: "po_overrideable b" "po_status b = Unsatisfied" "po_requirement b \<in> set (mo_waived_requirements request)"
    using assms(2) b undecided_before_override(1) by (auto simp: waive_def unknown_obligation_def split: if_splits)
  then have m: "om_get ?m k = Some b" using b(2) by (auto simp: unknown_obligation_def)
  then have "po_requirement b = k" by (rule obligation_key)
  then show ?thesis using q b(1) w undecided_before_override(2) [OF m w(1,2)]
    by (intro exI [of _ request] exI [of _ "po_evidence b"]) (simp add: waive_def)
qed

end
