(* ===== verification/Policy_Samples.thy ===== *)
theory Policy_Samples
  imports Policy
begin

text \<open>
  A transition that removes a required node of its base graph, with the override of an owner who accepts the risk.
\<close>

definition empty_graph :: execution_graph where
  "empty_graph = \<lparr>eg_api_version = ''v1'', eg_kind = ''ExecutionGraph'',
     eg_metadata = \<lparr>gm_id = ''g'', gm_name = ''g'', gm_execution_id = ''e'', gm_version = 1, gm_based_on = None,
       gm_labels = om_empty, gm_properties = om_empty\<rparr>,
     eg_spec = \<lparr>gs_entrypoints = [], gs_nodes = om_empty, gs_edges = [], gs_budgets = default_budgets, gs_policies = [],
       gs_completion = JNull\<rparr>\<rparr>"

definition reviewed_graph :: execution_graph where
  "reviewed_graph = empty_graph\<lparr>eg_spec := (eg_spec empty_graph)\<lparr>gs_nodes := om_insert ''review''
     \<lparr>gn_node_type = Gate, gn_name = ''review'', gn_objective = ''review'', gn_optionality = Required, gn_properties = om_empty\<rparr>
     om_empty\<rparr>\<rparr>"

definition owner_request :: manual_override where
  "owner_request = \<lparr>mo_actor = \<lparr>act_type = OwnerType, act_id = ''owner''\<rparr>, mo_reason = ''urgent'',
     mo_waived_requirements = [''review''], mo_acknowledged_risks = [''unreviewed''], mo_scope = WaiveExecution\<rparr>"

definition review_waived :: policy_obligation where
  "review_waived = \<lparr>po_requirement = ''review'', po_status = Waived,
     po_evidence = [''graph-node:review'', ''owner-override:owner'', ''owner-override-acknowledged-risk:unreviewed''],
     po_reason = ''urgent'', po_overrideable = True\<rparr>"

lemma waived_sample:
  "pr_obligations (evaluate_transition (\<lambda>g. None) reviewed_graph empty_graph (Some owner_request)) = [review_waived]"
  by code_simp

theorem waiver_recorded_witness:
  "review_waived \<in> set (pr_obligations (evaluate_transition (\<lambda>g. None) reviewed_graph empty_graph (Some owner_request))) \<and>
   (\<exists>request evidence. Some owner_request = Some request \<and> complete_owner_override request \<and>
     po_evidence review_waived = evidence @ (''owner-override:'' @ act_id (mo_actor request)) #
       map (\<lambda>risk. ''owner-override-acknowledged-risk:'' @ risk) (mo_acknowledged_risks request))"
proof -
  have "review_waived \<in> set (pr_obligations (evaluate_transition (\<lambda>g. None) reviewed_graph empty_graph (Some owner_request)))"
    by (simp add: waived_sample)
  moreover have "po_status review_waived = Waived" by (simp add: review_waived_def)
  ultimately show ?thesis using waiver_recorded [of review_waived] by blast
qed

end
