(* ===== verification/Code_Contract.thy ===== *)
theory Code_Contract
  imports Traversal
begin

text \<open>
  The resolution of layered code rules (\<open>core/policy/src/code_contract.rs\<close>). The resolver reads three fields of each source
  envelope: its id, its kind and its \<open>spec\<close>. Reading a rule out of the \<open>spec\<close> and writing a selector as JSON are the work of
  \<open>serde_json\<close>: the parameters \<open>decode\<close> and \<open>to_value\<close>.
\<close>

datatype development_kind =
    CodeRule | ResolvedCodeContract | RetrievalPlan | MemoryCandidate | MemoryRecord | AdvisoryDecisionResult
  | OwnerTaskResult | OwnerPresentationPlan | OwnerPresentation

record development_envelope =
  de_id :: string
  de_kind :: development_kind
  de_spec :: json

record code_rule_spec =
  crs_conflict_key :: string
  crs_minimum :: u32
  crs_operator :: string
  crs_enforcement :: string
  crs_selector :: "(string, string) omap"
  crs_waiver :: "json option"
  crs_valid_until :: "timestamp option"

definition REQUIRED_WAIVER_FIELDS :: "string list" where
  "REQUIRED_WAIVER_FIELDS =
    [''actor'', ''reason'', ''acknowledgedRisks'', ''affectedContractVersion'', ''affectedGraphVersion'', ''resultStatus'']"


section \<open>Comparing rules\<close>

datatype dominance = Dominates | DominatedBy | EqualSelectors | Incomparable

definition predicates :: "json \<Rightarrow> (string, string) omap" where
  "predicates v = (case as_object v of
     Some fs \<Rightarrow> fold (\<lambda>(k, v) m. case as_str v of Some t \<Rightarrow> om_insert k t m | None \<Rightarrow> m) fs om_empty
   | None \<Rightarrow> om_empty)"

definition selects_within :: "(string, string) omap \<Rightarrow> (string, string) omap \<Rightarrow> bool" where
  "selects_within inner outer = list_all (\<lambda>(k, v). om_get inner k = Some v) (om_entries outer)"

definition dominance :: "json \<Rightarrow> json \<Rightarrow> dominance" where
  "dominance left right =
    (case (selects_within (predicates left) (predicates right), selects_within (predicates right) (predicates left)) of
       (True, True) \<Rightarrow> EqualSelectors
     | (True, False) \<Rightarrow> Dominates
     | (False, True) \<Rightarrow> DominatedBy
     | (False, False) \<Rightarrow> Incomparable)"

datatype strengthening = Stronger | Weaker | NotComparable

definition compare_rules :: "code_rule_spec \<Rightarrow> code_rule_spec \<Rightarrow> strengthening" where
  "compare_rules candidate incumbent =
    (if crs_operator candidate = ''minimum'' \<and> crs_operator incumbent = ''minimum'' then
       (if crs_minimum incumbent \<le> crs_minimum candidate then Stronger else Weaker)
     else NotComparable)"

datatype resolution_refusal =
    SourceUnavailable string
  | RuleConflict string "string list"
  | PrecedenceUnresolved string "string list"
  | WaiverInvalid string string

record rule_record =
  rr_included :: "string list"
  rr_shadowed :: "string list"
  rr_waived :: "string list"
  rr_expired :: "string list"
  rr_denied :: "string list"

record resolved_code_contract =
  rcc_requirements :: "(string, u32) omap"
  rcc_record :: rule_record


section \<open>Resolution\<close>

type_synonym rule = "string \<times> code_rule_spec"
type_synonym selector_value = "(string, string) omap \<Rightarrow> json option"

fun read_sources ::
  "(json \<Rightarrow> 'err + code_rule_spec) \<Rightarrow> development_envelope list \<Rightarrow> string oset \<Rightarrow> rule list \<Rightarrow>
    resolution_refusal + string oset \<times> rule list" where
  "read_sources decode [] denied readable = Inr (denied, readable)"
| "read_sources decode (source # sources) denied readable =
    (if de_kind source \<noteq> CodeRule then read_sources decode sources (os_insert (de_id source) denied) readable
     else case decode (de_spec source) of
       Inl _ \<Rightarrow> Inl (SourceUnavailable (de_id source))
     | Inr spec \<Rightarrow> read_sources decode sources denied (readable @ [(de_id source, spec)]))"

definition expired_at :: "timestamp \<Rightarrow> code_rule_spec \<Rightarrow> bool" where
  "expired_at now spec = (case crs_valid_until spec of Some until \<Rightarrow> until < now | None \<Rightarrow> False)"

definition missing_field :: "json \<Rightarrow> string option" where
  "missing_field waiver = List.find (\<lambda>field. json_get waiver field \<in> {None, Some JNull}) REQUIRED_WAIVER_FIELDS"

fun screen :: "timestamp \<Rightarrow> rule list \<Rightarrow> string oset \<Rightarrow> string oset \<Rightarrow> rule list \<Rightarrow>
    resolution_refusal + string oset \<times> string oset \<times> rule list" where
  "screen now [] expired waived live = Inr (expired, waived, live)"
| "screen now ((rule_id, spec) # rules) expired waived live =
    (if expired_at now spec then screen now rules (os_insert rule_id expired) waived live
     else case crs_waiver spec of
       None \<Rightarrow> screen now rules expired waived (live @ [(rule_id, spec)])
     | Some waiver \<Rightarrow>
         if crs_enforcement spec = ''structural'' then Inl (WaiverInvalid rule_id ''<structural rules cannot be waived>'')
         else (case missing_field waiver of
           Some missing \<Rightarrow> Inl (WaiverInvalid rule_id missing)
         | None \<Rightarrow> screen now rules expired (os_insert rule_id waived) live))"

definition add_rule :: "rule \<Rightarrow> (string, rule list) omap \<Rightarrow> (string, rule list) omap" where
  "add_rule r m =
    (let key = crs_conflict_key (snd r) in om_insert key ((case om_get m key of None \<Rightarrow> [] | Some rules \<Rightarrow> rules) @ [r]) m)"

definition relates :: "selector_value \<Rightarrow> code_rule_spec \<Rightarrow> code_rule_spec \<Rightarrow> dominance" where
  "relates to_value a b =
    (let value = (\<lambda>s. case to_value (crs_selector s) of Some v \<Rightarrow> v | None \<Rightarrow> JNull) in dominance (value a) (value b))"

fun first_incomparable :: "selector_value \<Rightarrow> rule list \<Rightarrow> (string \<times> string) option" where
  "first_incomparable to_value [] = None"
| "first_incomparable to_value (l # rules) =
    (case List.find (\<lambda>r. relates to_value (snd l) (snd r) = Incomparable) rules of
       Some r \<Rightarrow> Some (fst l, fst r)
     | None \<Rightarrow> first_incomparable to_value rules)"

definition contest ::
  "selector_value \<Rightarrow> string \<Rightarrow> rule \<Rightarrow> rule \<Rightarrow> resolution_refusal + rule \<times> string" where
  "contest to_value key held r =
    (let named = sort [fst held, fst r]; new_wins = Inr (r, fst held); held_wins = Inr (held, fst r) in
     case relates to_value (snd r) (snd held) of
       Incomparable \<Rightarrow> Inl (PrecedenceUnresolved key named)
     | Dominates \<Rightarrow> (case compare_rules (snd r) (snd held) of Stronger \<Rightarrow> new_wins | _ \<Rightarrow> Inl (RuleConflict key named))
     | DominatedBy \<Rightarrow> (case compare_rules (snd held) (snd r) of Stronger \<Rightarrow> held_wins | _ \<Rightarrow> Inl (RuleConflict key named))
     | EqualSelectors \<Rightarrow> (case compare_rules (snd r) (snd held) of
         Stronger \<Rightarrow> new_wins | Weaker \<Rightarrow> held_wins | NotComparable \<Rightarrow> Inl (RuleConflict key named)))"

fun settle ::
  "selector_value \<Rightarrow> string \<Rightarrow> rule \<Rightarrow> rule list \<Rightarrow> string oset \<Rightarrow> string oset \<Rightarrow>
    resolution_refusal + rule \<times> string oset \<times> string oset" where
  "settle to_value key held [] seen shadowed = Inr (held, seen, shadowed)"
| "settle to_value key held (r # rules) seen shadowed =
    bindE (contest to_value key held r) (\<lambda>(winner, loser).
      settle to_value key winner rules (os_insert (fst r) seen) (os_insert loser shadowed))"

definition resolve_group ::
  "selector_value \<Rightarrow> string \<times> rule list \<Rightarrow> (string, u32) omap \<times> string oset \<times> string oset \<Rightarrow>
    resolution_refusal + (string, u32) omap \<times> string oset \<times> string oset" where
  "resolve_group to_value entry st = (case (entry, st) of ((key, unsorted), (requirements, seen, shadowed)) \<Rightarrow>
    let group = sort_key fst unsorted in
    case first_incomparable to_value group of
      Some (l, r) \<Rightarrow> Inl (PrecedenceUnresolved key (sort [l, r]))
    | None \<Rightarrow>
        (case group of
           [] \<Rightarrow> Inr (requirements, seen, shadowed)
         | r # rules \<Rightarrow>
             bindE (settle to_value key r rules (os_insert (fst r) seen) shadowed) (\<lambda>(winner, seen, shadowed).
               Inr (om_insert key (crs_minimum (snd winner)) requirements, seen, shadowed))))"

definition resolve_code_contract ::
  "(json \<Rightarrow> 'err + code_rule_spec) \<Rightarrow> selector_value \<Rightarrow> development_envelope list \<Rightarrow> timestamp \<Rightarrow>
    resolution_refusal + resolved_code_contract" where
  "resolve_code_contract decode to_value sources now =
    bindE (read_sources decode sources om_empty []) (\<lambda>(denied, readable).
    bindE (screen now readable om_empty om_empty []) (\<lambda>(expired, waived, live).
    bindE (foldE (resolve_group to_value) (om_entries (fold add_rule live om_empty)) (om_empty, om_empty, om_empty))
      (\<lambda>(requirements, seen, shadowed).
      Inr \<lparr>rcc_requirements = requirements,
        rcc_record = \<lparr>rr_included = filter (\<lambda>r. \<not> os_member shadowed r) (om_keys seen), rr_shadowed = om_keys shadowed,
          rr_waived = om_keys waived, rr_expired = om_keys expired, rr_denied = om_keys denied\<rparr>\<rparr>)))"


section \<open>The rules that reach the comparison\<close>

definition rule_of :: "(json \<Rightarrow> 'err + code_rule_spec) \<Rightarrow> development_envelope \<Rightarrow> rule option" where
  "rule_of decode s = (if de_kind s = CodeRule then (case decode (de_spec s) of Inr spec \<Rightarrow> Some (de_id s, spec) | Inl _ \<Rightarrow> None) else None)"

definition is_live :: "timestamp \<Rightarrow> rule \<Rightarrow> bool" where
  "is_live now r \<longleftrightarrow> \<not> expired_at now (snd r) \<and> crs_waiver (snd r) = None"

definition is_waived :: "timestamp \<Rightarrow> rule \<Rightarrow> bool" where
  "is_waived now r \<longleftrightarrow> \<not> expired_at now (snd r) \<and> crs_waiver (snd r) \<noteq> None"

definition waiver_ok :: "timestamp \<Rightarrow> rule \<Rightarrow> bool" where
  "waiver_ok now r \<longleftrightarrow> (is_waived now r \<longrightarrow> crs_enforcement (snd r) \<noteq> ''structural'' \<and> missing_field (the (crs_waiver (snd r))) = None)"

lemma read_sources_ok:
  "read_sources decode sources denied readable = Inr x \<longleftrightarrow>
    (\<forall>s\<in>set sources. de_kind s = CodeRule \<longrightarrow> rule_of decode s \<noteq> None) \<and>
    x = (fold os_insert (map de_id (filter (\<lambda>s. de_kind s \<noteq> CodeRule) sources)) denied, readable @ List.map_filter (rule_of decode) sources)"
  by (induction sources arbitrary: denied readable)
     (auto simp: rule_of_def List.map_filter_def split: sum.splits)

lemma screen_ok:
  "screen now rules expired waived live = Inr x \<longleftrightarrow> (\<forall>r\<in>set rules. waiver_ok now r) \<and>
    x = (fold os_insert (map fst (filter (\<lambda>r. expired_at now (snd r)) rules)) expired,
         fold os_insert (map fst (filter (is_waived now) rules)) waived, live @ filter (is_live now) rules)"
proof (induction rules arbitrary: expired waived live)
  case (Cons r rules)
  obtain i spec where r: "r = (i, spec)" by (cases r)
  consider "expired_at now spec" | "\<not> expired_at now spec" "crs_waiver spec = None"
    | waiver where "\<not> expired_at now spec" "crs_waiver spec = Some waiver" by blast
  then show ?case
  proof cases
    case 1
    then have "waiver_ok now r" "\<not> is_waived now r" "\<not> is_live now r" by (simp_all add: r waiver_ok_def is_waived_def is_live_def)
    then show ?thesis using 1 by (simp add: r Cons.IH)
  next
    case 2
    then have "waiver_ok now r" "\<not> is_waived now r" "is_live now r" by (simp_all add: r waiver_ok_def is_waived_def is_live_def)
    then show ?thesis using 2 by (simp add: r Cons.IH)
  next
    case 3
    then have "waiver_ok now r \<longleftrightarrow> crs_enforcement spec \<noteq> ''structural'' \<and> missing_field waiver = None" "is_waived now r" "\<not> is_live now r"
      by (simp_all add: r waiver_ok_def is_waived_def is_live_def)
    then show ?thesis using 3 by (auto simp: r Cons.IH split: option.splits)
  qed
qed auto

lemma fold_add_rule_get:
  "om_get (fold add_rule rules m) k =
    (let g = filter (\<lambda>r. crs_conflict_key (snd r) = k) rules in
     if g = [] then om_get m k else Some ((case om_get m k of None \<Rightarrow> [] | Some old \<Rightarrow> old) @ g))"
  by (induction rules arbitrary: m) (auto simp: add_rule_def Let_def split: option.splits)


section \<open>One key\<close>

lemma contest_wins:
  assumes "contest to_value key held r = Inr (w, loser)"
  shows "w = held \<and> loser = fst r \<or> w = r \<and> loser = fst held"
    "crs_minimum (snd held) \<le> crs_minimum (snd w)" "crs_minimum (snd r) \<le> crs_minimum (snd w)"
  using assms by (auto simp: contest_def compare_rules_def Let_def split: dominance.splits strengthening.splits if_splits)

lemma settle_wins:
  assumes "settle to_value key held rules seen shadowed = Inr (w, seen', shadowed')" "distinct (map fst (held # rules))"
  shows "w \<in> set (held # rules) \<and> (\<forall>r\<in>set (held # rules). crs_minimum (snd r) \<le> crs_minimum (snd w)) \<and>
    os_set seen' = os_set seen \<union> fst ` set rules \<and> os_set shadowed' = os_set shadowed \<union> (fst ` set (held # rules) - {fst w})"
  using assms
proof (induction rules arbitrary: held seen shadowed)
  case (Cons r rules)
  obtain v loser where c: "contest to_value key held r = Inr (v, loser)"
      "settle to_value key v rules (os_insert (fst r) seen) (os_insert loser shadowed) = Inr (w, seen', shadowed')"
    using Cons.prems(1) by (auto split: prod.splits)
  note v = contest_wins [OF c(1)]
  have d: "distinct (map fst (v # rules))" using v(1) Cons.prems(2) by auto
  note ih = Cons.IH [OF c(2) d]
  have "fst w \<in> fst ` set (v # rules)" using ih by blast
  moreover have "loser \<notin> fst ` set (v # rules)" using v(1) Cons.prems(2) by auto
  ultimately have w: "fst w \<noteq> loser" by metis
  have ids: "fst ` set (held # r # rules) = insert loser (fst ` set (v # rules))" using v(1) by auto
  have "os_set shadowed' = os_set shadowed \<union> (fst ` set (held # r # rules) - {fst w})" unfolding ids using ih w by auto
  moreover have "crs_minimum (snd x) \<le> crs_minimum (snd w)" if "x \<in> set (held # r # rules)" for x
    using that ih v(2,3) by (auto intro: order_trans)
  moreover have "w \<in> set (held # r # rules)" using ih v(1) by auto
  moreover have "os_set seen' = os_set seen \<union> fst ` set (r # rules)" using ih by auto
  ultimately show ?case by blast
qed simp

lemma resolve_group_sorted: "resolve_group to_value (k, sort_key fst g) st = resolve_group to_value (k, g) st"
proof -
  have "sort_key fst (sort_key fst g) = sort_key fst g" by (rule sort_key_id_if_sorted) simp
  then show ?thesis by (simp add: resolve_group_def)
qed


section \<open>All keys\<close>

definition ids_of :: "(string \<times> rule list) list \<Rightarrow> string set" where
  "ids_of es = fst ` \<Union> (set ` snd ` set es)"

lemma resolve_group_result:
  assumes "resolve_group to_value (k, g) (q, s, h) = Inr (q', s', h')" "distinct (map fst g)" "g \<noteq> []"
  obtains w where "w \<in> set g" "\<forall>r\<in>set g. crs_minimum (snd r) \<le> crs_minimum (snd w)" "q' = om_insert k (crs_minimum (snd w)) q"
    "os_set s' = os_set s \<union> fst ` set g" "os_set h' = os_set h \<union> (fst ` set g - {fst w})"
proof -
  obtain r rules where g: "sort_key fst g = r # rules" using assms(3) by (metis list.exhaust set_empty set_sort)
  have d: "distinct (map fst (r # rules))" using assms(2) by (metis distinct_map distinct_sort g set_sort)
  have set: "set g = set (r # rules)" by (metis g set_sort)
  obtain w where w: "settle to_value k r rules (os_insert (fst r) s) h = Inr (w, s', h')" "q' = om_insert k (crs_minimum (snd w)) q"
    using assms(1) by (auto simp: resolve_group_def Let_def g split: option.splits prod.splits)
  show thesis using settle_wins [OF w(1) d] w(2) that [of w] unfolding set by auto
qed

lemma resolve_groups_result:
  assumes "foldE (resolve_group to_value) es (q, s, h) = Inr (q', s', h')" "distinct (map fst es)" "\<forall>e\<in>set es. snd e \<noteq> []"
    "distinct (concat (map (\<lambda>e. map fst (snd e)) es))" "os_set h \<inter> ids_of es = {}"
  shows "os_set s' = os_set s \<union> ids_of es \<and> os_set h \<subseteq> os_set h' \<and> os_set h' \<subseteq> os_set h \<union> ids_of es \<and>
    (\<forall>k. k \<notin> fst ` set es \<longrightarrow> om_get q' k = om_get q k) \<and>
    (\<forall>(k, g)\<in>set es. \<exists>w\<in>set g. om_get q' k = Some (crs_minimum (snd w)) \<and> (\<forall>r\<in>set g. crs_minimum (snd r) \<le> crs_minimum (snd w)) \<and>
       (\<forall>r\<in>set g. fst r \<in> os_set h' \<longleftrightarrow> fst r \<noteq> fst w))"
  using assms
proof (induction es arbitrary: q s h)
  case Nil
  then show ?case by (simp add: ids_of_def)
next
  case (Cons e es)
  obtain k g where e: "e = (k, g)" by (cases e)
  obtain q1 s1 h1 where step: "resolve_group to_value (k, g) (q, s, h) = Inr (q1, s1, h1)"
      "foldE (resolve_group to_value) es (q1, s1, h1) = Inr (q', s', h')"
    using Cons.prems(1) by (auto simp: e)
  have g: "distinct (map fst g)" "g \<noteq> []" using Cons.prems(3,4) by (auto simp: e)
  obtain w where w: "w \<in> set g" "\<forall>r\<in>set g. crs_minimum (snd r) \<le> crs_minimum (snd w)" "q1 = om_insert k (crs_minimum (snd w)) q"
      "os_set s1 = os_set s \<union> fst ` set g" "os_set h1 = os_set h \<union> (fst ` set g - {fst w})"
    by (rule resolve_group_result [OF step(1) g])
  have ids: "ids_of (e # es) = fst ` set g \<union> ids_of es" by (auto simp: ids_of_def e)
  have apart: "fst ` set g \<inter> ids_of es = {}" using Cons.prems(4) by (auto simp: e ids_of_def)
  have rest: "distinct (map fst es)" "\<forall>e\<in>set es. snd e \<noteq> []" "distinct (concat (map (\<lambda>e. map fst (snd e)) es))"
      "os_set h1 \<inter> ids_of es = {}"
    using Cons.prems(2-4) Cons.prems(5) apart by (auto simp: ids w(5))
  note ih = Cons.IH [OF step(2) rest]
  have k: "k \<notin> fst ` set es" using Cons.prems(2) by (simp add: e)
  have own: "om_get q' k = Some (crs_minimum (snd w))" using ih k w(3) by simp
  have shadows: "fst r \<in> os_set h' \<longleftrightarrow> fst r \<noteq> fst w" if "r \<in> set g" for r
  proof -
    have "fst r \<in> os_set h' \<longleftrightarrow> fst r \<in> os_set h1" using ih apart that by (auto simp del: os_set_simps(3))
    moreover have "fst r \<notin> os_set h" using Cons.prems(5) that unfolding ids by (auto simp del: os_set_simps(3))
    ultimately show ?thesis unfolding w(5) using that by (auto simp del: os_set_simps(3))
  qed
  have "\<exists>w\<in>set g. om_get q' k = Some (crs_minimum (snd w)) \<and> (\<forall>r\<in>set g. crs_minimum (snd r) \<le> crs_minimum (snd w)) \<and>
       (\<forall>r\<in>set g. fst r \<in> os_set h' \<longleftrightarrow> fst r \<noteq> fst w)"
    using w(1,2) own shadows by blast
  moreover have "os_set s' = os_set s \<union> ids_of (e # es)" using ih w(4) by (simp add: ids Un_assoc)
  moreover have "os_set h \<subseteq> os_set h'" "os_set h' \<subseteq> os_set h \<union> ids_of (e # es)" using ih w(5) by (auto simp: ids simp del: os_set_simps(3))
  moreover have "om_get q' k' = om_get q k'" if "k' \<notin> fst ` set (e # es)" for k' using ih that w(3) by (simp add: e)
  ultimately show ?case using ih by (auto simp: e simp del: os_set_simps(3))
qed


section \<open>The contract\<close>

definition rules_of :: "(json \<Rightarrow> 'err + code_rule_spec) \<Rightarrow> development_envelope list \<Rightarrow> rule list" where
  "rules_of decode sources = List.map_filter (rule_of decode) sources"

definition live_rules :: "(json \<Rightarrow> 'err + code_rule_spec) \<Rightarrow> timestamp \<Rightarrow> development_envelope list \<Rightarrow> rule list" where
  "live_rules decode now sources = filter (is_live now) (rules_of decode sources)"

abbreviation groups :: "rule list \<Rightarrow> (string \<times> rule list) list" where
  "groups live \<equiv> om_entries (fold add_rule live om_empty)"

definition contract_of :: "(json \<Rightarrow> 'err + code_rule_spec) \<Rightarrow> timestamp \<Rightarrow> development_envelope list \<Rightarrow>
    (string, u32) omap \<times> string oset \<times> string oset \<Rightarrow> resolved_code_contract" where
  "contract_of decode now sources st = (case st of (requirements, seen, shadowed) \<Rightarrow>
    \<lparr>rcc_requirements = requirements,
     rcc_record = \<lparr>rr_included = filter (\<lambda>r. \<not> os_member shadowed r) (om_keys seen), rr_shadowed = om_keys shadowed,
       rr_waived = om_keys (os_of_list (map fst (filter (is_waived now) (rules_of decode sources)))),
       rr_expired = om_keys (os_of_list (map fst (filter (\<lambda>r. expired_at now (snd r)) (rules_of decode sources)))),
       rr_denied = om_keys (os_of_list (map de_id (filter (\<lambda>s. de_kind s \<noteq> CodeRule) sources)))\<rparr>\<rparr>)"

lemma resolve_Inr:
  "resolve_code_contract decode to_value sources now = Inr c \<longleftrightarrow>
    (\<forall>s\<in>set sources. de_kind s = CodeRule \<longrightarrow> rule_of decode s \<noteq> None) \<and> (\<forall>r\<in>set (rules_of decode sources). waiver_ok now r) \<and>
    (\<exists>st. foldE (resolve_group to_value) (groups (live_rules decode now sources)) (om_empty, om_empty, om_empty) = Inr st \<and>
      c = contract_of decode now sources st)"
  unfolding resolve_code_contract_def bindE_eq_Inr split_paired_Ex prod.case read_sources_ok screen_ok append_Nil
  by (auto simp: rules_of_def [symmetric] live_rules_def contract_of_def os_of_list_def)

lemma rules_of_ids:
  "distinct (map de_id sources) \<Longrightarrow> distinct (map fst (rules_of decode sources))"
  "fst ` set (rules_of decode sources) \<subseteq> de_id ` {s \<in> set sources. de_kind s = CodeRule}"
  by (induction sources) (auto simp: rules_of_def List.map_filter_def rule_of_def split: sum.splits if_splits)

lemma rules_of_all:
  "(\<forall>s\<in>set sources. de_kind s = CodeRule \<longrightarrow> rule_of decode s \<noteq> None) \<Longrightarrow>
    fst ` set (rules_of decode sources) = de_id ` {s \<in> set sources. de_kind s = CodeRule}"
  by (induction sources) (auto simp: rules_of_def List.map_filter_def rule_of_def split: sum.splits if_splits)

lemma groups_entry: "(k, g) \<in> set (groups live) \<longleftrightarrow> g = filter (\<lambda>r. crs_conflict_key (snd r) = k) live \<and> g \<noteq> []"
  by (auto simp: om_in_entries fold_add_rule_get Let_def)

lemma distinct_concat_map:
  assumes "distinct (map fst es)" "\<forall>e\<in>set es. distinct (f e)"
    "\<forall>a\<in>set es. \<forall>b\<in>set es. fst a \<noteq> fst b \<longrightarrow> set (f a) \<inter> set (f b) = {}"
  shows "distinct (concat (map f es))"
  using assms by (induction es) (auto simp: disjoint_iff)

lemma groups_ok:
  assumes "distinct (map fst live)"
  shows "distinct (map fst (groups live))" "\<forall>e\<in>set (groups live). snd e \<noteq> []"
    "distinct (concat (map (\<lambda>e. map fst (snd e)) (groups live)))" "ids_of (groups live) = fst ` set live"
proof -
  show k: "distinct (map fst (groups live))" using distinct_om_keys by (simp only: om_keys_def)
  have g: "snd e = filter (\<lambda>r. crs_conflict_key (snd r) = fst e) live \<and> snd e \<noteq> []" if "e \<in> set (groups live)" for e
    using that groups_entry [of "fst e" "snd e" live] by auto
  then show "\<forall>e\<in>set (groups live). snd e \<noteq> []" by blast
  have inj: "r = r'" if "r \<in> set live" "r' \<in> set live" "fst r = fst r'" for r r'
    using assms that by (auto simp: distinct_map dest: inj_onD)
  show "distinct (concat (map (\<lambda>e. map fst (snd e)) (groups live)))"
  proof (rule distinct_concat_map [OF k])
    show "\<forall>e\<in>set (groups live). distinct (map fst (snd e))" using g assms by (simp add: distinct_map_filter)
    show "\<forall>a\<in>set (groups live). \<forall>b\<in>set (groups live). fst a \<noteq> fst b \<longrightarrow> set (map fst (snd a)) \<inter> set (map fst (snd b)) = {}"
    proof (intro ballI impI)
      fix a b assume h: "a \<in> set (groups live)" "b \<in> set (groups live)" "fst a \<noteq> fst b"
      have "False" if "r \<in> set (snd a)" "r' \<in> set (snd b)" "fst r = fst r'" for r r'
        using that h(3) inj [of r r'] g [OF h(1)] g [OF h(2)] by auto
      then show "set (map fst (snd a)) \<inter> set (map fst (snd b)) = {}" by auto
    qed
  qed
  have "\<Union> (set ` snd ` set (groups live)) = set live"
  proof (intro set_eqI iffI)
    fix r assume "r \<in> \<Union> (set ` snd ` set (groups live))"
    then show "r \<in> set live" using g by auto
  next
    fix r assume "r \<in> set live"
    then have "(crs_conflict_key (snd r), filter (\<lambda>x. crs_conflict_key (snd x) = crs_conflict_key (snd r)) live) \<in> set (groups live)"
      "r \<in> set (filter (\<lambda>x. crs_conflict_key (snd x) = crs_conflict_key (snd r)) live)"
      by (auto simp: groups_entry filter_empty_conv)
    then show "r \<in> \<Union> (set ` snd ` set (groups live))" by (metis UN_I imageI snd_conv)
  qed
  then show "ids_of (groups live) = fst ` set live" by (simp add: ids_of_def)
qed

definition rules_on :: "string \<Rightarrow> rule list \<Rightarrow> rule list" where
  "rules_on key live = filter (\<lambda>r. crs_conflict_key (snd r) = key) live"

lemma set_om_oset: "set (om_keys s) = os_set s"
  by (simp only: set_os_list os_set_def)

lemma os_set_of_list: "os_set (os_of_list ks) = set ks"
  by (simp add: os_set_def os_of_list_def os_member_fold_insert)

lemma contract_settled:
  assumes "foldE (resolve_group to_value) (groups live) (om_empty, om_empty, om_empty) = Inr (q, s, h)" "distinct (map fst live)"
  shows "os_set s = fst ` set live" "os_set h \<subseteq> fst ` set live"
    "rules_on key live = [] \<Longrightarrow> om_get q key = None"
    "rules_on key live \<noteq> [] \<Longrightarrow> \<exists>w\<in>set (rules_on key live). om_get q key = Some (crs_minimum (snd w)) \<and>
       (\<forall>r\<in>set (rules_on key live). crs_minimum (snd r) \<le> crs_minimum (snd w)) \<and>
       (\<forall>r\<in>set (rules_on key live). fst r \<in> os_set h \<longleftrightarrow> fst r \<noteq> fst w)"
proof -
  note g = groups_ok [OF assms(2)]
  note r = resolve_groups_result [OF assms(1) g(1,2,3)]
  have r: "os_set s = fst ` set live" "os_set h \<subseteq> fst ` set live" "\<forall>k. k \<notin> fst ` set (groups live) \<longrightarrow> om_get q k = None"
    "\<forall>(k, g)\<in>set (groups live). \<exists>w\<in>set g. om_get q k = Some (crs_minimum (snd w)) \<and> (\<forall>r\<in>set g. crs_minimum (snd r) \<le> crs_minimum (snd w)) \<and>
       (\<forall>r\<in>set g. fst r \<in> os_set h \<longleftrightarrow> fst r \<noteq> fst w)"
    using r by (simp_all add: g(4) del: os_set_simps(3))
  show "os_set s = fst ` set live" "os_set h \<subseteq> fst ` set live" by (rule r(1), rule r(2))
  have "(key, rules_on key live) \<in> set (groups live)" if "rules_on key live \<noteq> []"
    using that groups_entry [of key "rules_on key live" live] by (simp add: rules_on_def)
  then show "rules_on key live \<noteq> [] \<Longrightarrow> \<exists>w\<in>set (rules_on key live). om_get q key = Some (crs_minimum (snd w)) \<and>
       (\<forall>r\<in>set (rules_on key live). crs_minimum (snd r) \<le> crs_minimum (snd w)) \<and>
       (\<forall>r\<in>set (rules_on key live). fst r \<in> os_set h \<longleftrightarrow> fst r \<noteq> fst w)"
    using r(4) by blast
  have "key \<notin> fst ` set (groups live)" if "rules_on key live = []"
  proof
    assume "key \<in> fst ` set (groups live)"
    then obtain g where "(key, g) \<in> set (groups live)" by auto
    then show False using that groups_entry [of key g live] by (simp add: rules_on_def)
  qed
  then show "rules_on key live = [] \<Longrightarrow> om_get q key = None" using r(3) by blast
qed

lemma record_partition:
  assumes "resolve_code_contract decode to_value sources now = Inr c" "distinct (map de_id sources)"
  defines "r \<equiv> rcc_record c"
  shows "distinct (rr_included r @ rr_shadowed r @ rr_waived r @ rr_expired r @ rr_denied r)"
    "set (rr_included r @ rr_shadowed r @ rr_waived r @ rr_expired r @ rr_denied r) = de_id ` set sources"
proof -
  let ?rules = "rules_of decode sources" and ?live = "live_rules decode now sources"
  from assms(1) obtain q s h where ok: "\<forall>s\<in>set sources. de_kind s = CodeRule \<longrightarrow> rule_of decode s \<noteq> None"
      "foldE (resolve_group to_value) (groups ?live) (om_empty, om_empty, om_empty) = Inr (q, s, h)" "c = contract_of decode now sources (q, s, h)"
    unfolding resolve_Inr by auto
  have dr: "distinct (map fst ?rules)" using rules_of_ids(1) [OF assms(2)] .
  then have dl: "distinct (map fst ?live)" unfolding live_rules_def by (rule distinct_map_filter)
  note st = contract_settled [OF ok(2) dl]
  have inj: "fst ` {x \<in> set ?rules. P x} \<inter> fst ` {x \<in> set ?rules. Q x} = {}" if "\<And>x. \<not> (P x \<and> Q x)" for P Q
    using dr that by (auto simp: distinct_map dest: inj_onD)
  have live: "os_set s = fst ` {x \<in> set ?rules. is_live now x}" using st(1) by (simp only: live_rules_def set_filter)
  have kinds: "is_live now x \<or> is_waived now x \<or> expired_at now (snd x)" "\<not> (is_live now x \<and> is_waived now x)"
      "\<not> (is_live now x \<and> expired_at now (snd x))" "\<not> (is_waived now x \<and> expired_at now (snd x))" for x
    by (auto simp: is_live_def is_waived_def)
  have set: "set (rr_included r) = os_set s - os_set h" "set (rr_shadowed r) = os_set h" "os_set h \<subseteq> os_set s"
      "set (rr_waived r) = fst ` {x \<in> set ?rules. is_waived now x}" "set (rr_expired r) = fst ` {x \<in> set ?rules. expired_at now (snd x)}"
      "set (rr_denied r) = de_id ` {s \<in> set sources. de_kind s \<noteq> CodeRule}"
    using st(1,2) by (auto simp: r_def ok(3) contract_of_def set_om_oset os_set_of_list set_os_list simp del: set_om_keys)
  have rules: "fst ` set ?rules = de_id ` {s \<in> set sources. de_kind s = CodeRule}" by (rule rules_of_all [OF ok(1)])
  have apart: "de_id ` {s \<in> set sources. de_kind s \<noteq> CodeRule} \<inter> fst ` set ?rules = {}"
    unfolding rules using assms(2) by (auto simp: distinct_map dest: inj_onD)
  show "set (rr_included r @ rr_shadowed r @ rr_waived r @ rr_expired r @ rr_denied r) = de_id ` set sources"
  proof -
    have "de_id ` set sources = fst ` set ?rules \<union> de_id ` {s \<in> set sources. de_kind s \<noteq> CodeRule}" unfolding rules by auto
    moreover have "fst ` set ?rules = os_set s \<union> fst ` {x \<in> set ?rules. is_waived now x} \<union> fst ` {x \<in> set ?rules. expired_at now (snd x)}"
    proof -
      have "set ?rules = {x \<in> set ?rules. is_live now x} \<union> {x \<in> set ?rules. is_waived now x} \<union> {x \<in> set ?rules. expired_at now (snd x)}"
        using kinds(1) by auto
      then show ?thesis unfolding live by (metis image_Un)
    qed
    ultimately show ?thesis using set by auto
  qed
  show "distinct (rr_included r @ rr_shadowed r @ rr_waived r @ rr_expired r @ rr_denied r)"
  proof -
    have sub: "fst ` {x \<in> set ?rules. P x} \<subseteq> fst ` set ?rules" for P by auto
    have "set (rr_waived r) \<inter> set (rr_expired r) = {}" "os_set s \<inter> set (rr_waived r) = {}" "os_set s \<inter> set (rr_expired r) = {}"
      unfolding set live by (intro inj kinds)+
    moreover have "set (rr_denied r) \<inter> (os_set s \<union> set (rr_waived r) \<union> set (rr_expired r)) = {}"
      unfolding set live using apart sub by blast
    moreover have "distinct (rr_included r)" "distinct (rr_shadowed r)" "distinct (rr_waived r)" "distinct (rr_expired r)" "distinct (rr_denied r)"
      by (simp_all add: r_def ok(3) contract_of_def)
    ultimately show ?thesis using set(1-3) by (auto simp del: os_set_simps(3))
  qed
qed

text \<open>C25: When the rules resolve, the contract requires on each key the greatest minimum of the live rules on that key and
  nothing on other keys; exactly one live rule of each such key is included and the others are shadowed; and every declared
  source stands in exactly one of the five lists of the record.\<close>

theorem contract_strongest:
  assumes "resolve_code_contract decode to_value sources now = Inr c" "distinct (map de_id sources)"
  shows "let live = rules_on key (live_rules decode now sources); r = rcc_record c;
      lists = rr_included r @ rr_shadowed r @ rr_waived r @ rr_expired r @ rr_denied r in
    om_get (rcc_requirements c) key = (if live = [] then None else Some (Max (set (map (crs_minimum \<circ> snd) live)))) \<and>
    (live \<noteq> [] \<longrightarrow> (\<exists>!w. w \<in> set live \<and> fst w \<in> set (rr_included r))) \<and>
    distinct lists \<and> set lists = de_id ` set sources"
proof -
  let ?live = "live_rules decode now sources" and ?r = "rcc_record c"
  let ?on = "rules_on key ?live"
  from assms(1) obtain q s h where ok: "foldE (resolve_group to_value) (groups ?live) (om_empty, om_empty, om_empty) = Inr (q, s, h)"
      "c = contract_of decode now sources (q, s, h)"
    unfolding resolve_Inr by auto
  have dl: "distinct (map fst ?live)" unfolding live_rules_def by (rule distinct_map_filter) (rule rules_of_ids(1) [OF assms(2)])
  note st = contract_settled(1,2) [OF ok(1) dl] contract_settled(3,4) [OF ok(1) dl, where key = key]
  have q: "rcc_requirements c = q" and inc: "set (rr_included ?r) = fst ` set ?live - os_set h"
    using st(1) by (auto simp: ok(2) contract_of_def set_om_oset simp del: set_om_keys)
  have "om_get q key = (if ?on = [] then None else Some (Max (set (map (crs_minimum \<circ> snd) ?on)))) \<and>
      (?on \<noteq> [] \<longrightarrow> (\<exists>!w. w \<in> set ?on \<and> fst w \<in> set (rr_included ?r)))"
  proof (cases "?on = []")
    case False
    then obtain w where w: "w \<in> set ?on" "om_get q key = Some (crs_minimum (snd w))" "\<forall>r\<in>set ?on. crs_minimum (snd r) \<le> crs_minimum (snd w)"
        "\<forall>r\<in>set ?on. fst r \<in> os_set h \<longleftrightarrow> fst r \<noteq> fst w"
      using st(4) by blast
    have "Max (set (map (crs_minimum \<circ> snd) ?on)) = crs_minimum (snd w)" using w(1,3) by (intro Max_eqI) auto
    moreover have sub: "set ?on \<subseteq> set ?live" by (auto simp: rules_on_def)
    have "x = w" if "x \<in> set ?on" "fst x = fst w" for x using that w(1) sub dl by (auto simp: distinct_map dest: inj_onD)
    then have "\<exists>!w. w \<in> set ?on \<and> fst w \<in> set (rr_included ?r)"
      using w(1,4) sub unfolding inc by (intro ex1I [of _ w]) (auto simp del: os_set_simps(3))
    ultimately show ?thesis using False w(2) by simp
  qed (simp add: st(3))
  then show ?thesis using record_partition [OF assms] unfolding Let_def q by blast
qed


section \<open>Order of the sources\<close>

lemma groups_order:
  assumes "set live = set live'" "distinct (map fst live)" "distinct (map fst live')"
  shows "om_map (sort_key fst) (fold add_rule live om_empty) = om_map (sort_key fst) (fold add_rule live' om_empty)"
proof (rule om_ext)
  fix k
  let ?g = "\<lambda>live. filter (\<lambda>r. crs_conflict_key (snd r) = k) live"
  have "sort_key fst (?g live) = sort_key fst (?g live')"
  proof (rule map_sorted_distinct_set_unique [where f = fst])
    show "inj_on fst (set (sort_key fst (?g live)) \<union> set (sort_key fst (?g live')))"
      using assms by (auto simp: distinct_map intro: inj_on_subset)
    have "distinct (map fst (?g live))" "distinct (map fst (?g live'))" using assms(2,3) by (simp_all add: distinct_map_filter)
    then show "distinct (map fst (sort_key fst (?g live)))" "distinct (map fst (sort_key fst (?g live')))" by (simp_all add: distinct_map)
  qed (use assms(1) in auto)
  moreover have "?g live = [] \<longleftrightarrow> ?g live' = []" using assms(1) by (simp add: filter_empty_conv)
  ultimately show "om_get (om_map (sort_key fst) (fold add_rule live om_empty)) k = om_get (om_map (sort_key fst) (fold add_rule live' om_empty)) k"
    by (simp add: fold_add_rule_get Let_def)
qed

lemma foldE_cong: "(\<And>x s. x \<in> set xs \<Longrightarrow> f (g x) s = f x s) \<Longrightarrow> foldE f (map g xs) s = foldE f xs s"
  by (induction xs arbitrary: s) (auto intro: arg_cong2 [where f = bindE])

lemma foldE_groups:
  "foldE (resolve_group to_value) (om_entries (om_map (sort_key fst) m)) st = foldE (resolve_group to_value) (om_entries m) st"
  unfolding om_entries_map by (rule foldE_cong) (auto simp: resolve_group_sorted)

lemma os_of_list_cong: "set xs = set ys \<Longrightarrow> os_of_list xs = os_of_list ys"
  by (rule om_ext) (metis (full_types) mem_Collect_eq not_None_eq old.unit.exhaust om_contains_def os_member_def os_set_def os_set_of_list)

text \<open>Three ways to go: a source that cannot be read, a waiver that is not valid, or the groups decide.\<close>

definition readable_sources :: "(json \<Rightarrow> 'err + code_rule_spec) \<Rightarrow> development_envelope list \<Rightarrow> bool" where
  "readable_sources decode sources \<longleftrightarrow> (\<forall>s\<in>set sources. de_kind s = CodeRule \<longrightarrow> rule_of decode s \<noteq> None)"

definition valid_waivers :: "(json \<Rightarrow> 'err + code_rule_spec) \<Rightarrow> timestamp \<Rightarrow> development_envelope list \<Rightarrow> bool" where
  "valid_waivers decode now sources \<longleftrightarrow> (\<forall>r\<in>set (rules_of decode sources). waiver_ok now r)"

lemma rule_of_unread: "decode (de_spec s) = Inl x \<Longrightarrow> rule_of decode s = None"
  by (simp add: rule_of_def)

lemma waiver_not_ok:
  assumes "\<not> expired_at now spec" "crs_waiver spec = Some w" "crs_enforcement spec = ''structural'' \<or> missing_field w \<noteq> None"
  shows "\<not> waiver_ok now (i, spec)"
  using assms by (auto simp: waiver_ok_def is_waived_def)

lemma read_sources_refused:
  "read_sources decode sources denied readable = Inl e \<Longrightarrow>
    \<exists>s\<in>set sources. e = SourceUnavailable (de_id s) \<and> de_kind s = CodeRule \<and> rule_of decode s = None"
  by (induction sources arbitrary: denied readable) (auto simp: rule_of_unread split: if_splits sum.splits)

lemma screen_refused:
  "screen now rules expired waived live = Inl e \<Longrightarrow> \<exists>r\<in>set rules. (\<exists>f. e = WaiverInvalid (fst r) f) \<and> \<not> waiver_ok now r"
proof (induction rules arbitrary: expired waived live)
  case (Cons r rules)
  obtain i spec where r: "r = (i, spec)" by (cases r)
  show ?case
  proof (cases "waiver_ok now r")
    case True
    then have "\<exists>expired waived live. screen now rules expired waived live = Inl e"
      using Cons.prems by (auto simp: r waiver_not_ok split: if_splits option.splits)
    then show ?thesis using Cons.IH by auto
  next
    case False
    then have "\<exists>f. e = WaiverInvalid (fst r) f"
      using Cons.prems by (auto simp: r waiver_ok_def is_waived_def split: if_splits option.splits)
    then show ?thesis using False by auto
  qed
qed simp

lemma readable_read:
  "readable_sources decode sources \<Longrightarrow> read_sources decode sources om_empty [] =
    Inr (os_of_list (map de_id (filter (\<lambda>s. de_kind s \<noteq> CodeRule) sources)), rules_of decode sources)"
  by (simp add: read_sources_ok readable_sources_def rules_of_def os_of_list_def)

lemma resolve_unreadable:
  assumes "\<not> readable_sources decode sources"
  obtains s where "resolve_code_contract decode to_value sources now = Inl (SourceUnavailable (de_id s))"
    "s \<in> set sources" "de_kind s = CodeRule" "rule_of decode s = None"
proof (cases "read_sources decode sources om_empty []")
  case (Inl e)
  then show ?thesis using that read_sources_refused [OF Inl] by (auto simp: resolve_code_contract_def)
qed (use assms in \<open>simp add: read_sources_ok readable_sources_def\<close>)

lemma resolve_bad_waiver:
  assumes "readable_sources decode sources" "\<not> valid_waivers decode now sources"
  obtains r f where "resolve_code_contract decode to_value sources now = Inl (WaiverInvalid (fst r) f)"
    "r \<in> set (rules_of decode sources)" "\<not> waiver_ok now r"
proof (cases "screen now (rules_of decode sources) om_empty om_empty []")
  case (Inl e)
  then show ?thesis using that screen_refused [OF Inl] by (auto simp: resolve_code_contract_def readable_read [OF assms(1)])
qed (use assms(2) in \<open>simp add: screen_ok valid_waivers_def\<close>)

lemma resolve_screened:
  assumes "readable_sources decode sources" "valid_waivers decode now sources"
  shows "resolve_code_contract decode to_value sources now =
    bindE (foldE (resolve_group to_value) (groups (live_rules decode now sources)) (om_empty, om_empty, om_empty))
      (\<lambda>st. Inr (contract_of decode now sources st))"
proof -
  have "screen now (rules_of decode sources) om_empty om_empty [] =
      Inr (os_of_list (map fst (filter (\<lambda>r. expired_at now (snd r)) (rules_of decode sources))),
        os_of_list (map fst (filter (is_waived now) (rules_of decode sources))), live_rules decode now sources)"
    using assms(2) by (simp add: screen_ok valid_waivers_def os_of_list_def live_rules_def)
  then show ?thesis by (simp add: resolve_code_contract_def readable_read [OF assms(1)] contract_of_def case_prod_unfold)
qed

lemma rules_of_cong: "set sources' = set sources \<Longrightarrow> set (rules_of decode sources') = set (rules_of decode sources)"
  by (simp add: rules_of_def map_filter_def)

lemma screened_order:
  assumes "set sources' = set sources" "distinct (map de_id sources)" "distinct (map de_id sources')"
  shows "foldE (resolve_group to_value) (groups (live_rules decode now sources')) st =
      foldE (resolve_group to_value) (groups (live_rules decode now sources)) st"
    "contract_of decode now sources' = contract_of decode now sources"
proof -
  note rules = rules_of_cong [OF assms(1)]
  have live: "set (live_rules decode now sources') = set (live_rules decode now sources)" by (simp add: live_rules_def rules)
  have dl: "distinct (map fst (live_rules decode now sources))" if "distinct (map de_id sources)" for sources
    unfolding live_rules_def by (rule distinct_map_filter) (rule rules_of_ids(1) [OF that])
  show "foldE (resolve_group to_value) (groups (live_rules decode now sources')) st =
      foldE (resolve_group to_value) (groups (live_rules decode now sources)) st"
    using groups_order [OF live dl [OF assms(3)] dl [OF assms(2)]] foldE_groups by metis
  show "contract_of decode now sources' = contract_of decode now sources"
    unfolding contract_of_def
    by (simp add: os_of_list_cong [of "map fst (filter P (rules_of decode sources'))" "map fst (filter P (rules_of decode sources))" for P]
        os_of_list_cong [of "map de_id (filter P sources')" "map de_id (filter P sources)" for P] rules assms(1))
qed

text \<open>Which bad source or waiver a refusal names follows the order of the input. Two outcomes agree when they differ in
  nothing else, and both blame something that is bad.\<close>

definition blames_bad :: "(json \<Rightarrow> 'err + code_rule_spec) \<Rightarrow> timestamp \<Rightarrow> development_envelope list \<Rightarrow> resolution_refusal \<Rightarrow> bool" where
  "blames_bad decode now sources e = (case e of
      SourceUnavailable i \<Rightarrow> \<exists>s\<in>set sources. de_id s = i \<and> de_kind s = CodeRule \<and> rule_of decode s = None
    | WaiverInvalid i _ \<Rightarrow> \<exists>r\<in>set (rules_of decode sources). fst r = i \<and> \<not> waiver_ok now r
    | _ \<Rightarrow> False)"

definition same_outcome :: "(json \<Rightarrow> 'err + code_rule_spec) \<Rightarrow> timestamp \<Rightarrow> development_envelope list \<Rightarrow>
    resolution_refusal + 'c \<Rightarrow> resolution_refusal + 'c \<Rightarrow> bool" where
  "same_outcome decode now sources x y \<longleftrightarrow> x = y \<or>
    (case (x, y) of
       (Inl (SourceUnavailable i), Inl (SourceUnavailable j)) \<Rightarrow>
         blames_bad decode now sources (SourceUnavailable i) \<and> blames_bad decode now sources (SourceUnavailable j)
     | (Inl (WaiverInvalid i f), Inl (WaiverInvalid j g)) \<Rightarrow>
         blames_bad decode now sources (WaiverInvalid i f) \<and> blames_bad decode now sources (WaiverInvalid j g)
     | _ \<Rightarrow> False)"

text \<open>C26: For sources with distinct ids the outcome does not depend on the order in which they are supplied: in any order they
  resolve to the same contract, or are refused with the same conflict, or are refused because of an unreadable source, or
  because of an invalid waiver; only which of several unreadable sources, or of several invalid waivers, such a refusal names
  follows the order.\<close>

theorem contract_order_independent:
  assumes "set sources' = set sources" "distinct (map de_id sources)" "distinct (map de_id sources')"
  shows "same_outcome decode now sources
    (resolve_code_contract decode to_value sources' now) (resolve_code_contract decode to_value sources now)"
proof -
  have r: "readable_sources decode sources' \<longleftrightarrow> readable_sources decode sources" by (simp add: readable_sources_def assms(1))
  have v: "valid_waivers decode now sources' \<longleftrightarrow> valid_waivers decode now sources"
    by (simp add: valid_waivers_def rules_of_cong [OF assms(1)])
  consider "\<not> readable_sources decode sources" | "readable_sources decode sources" "\<not> valid_waivers decode now sources"
    | "readable_sources decode sources" "valid_waivers decode now sources" by blast
  then show ?thesis
  proof cases
    case 1
    from 1 [folded r] obtain s where "resolve_code_contract decode to_value sources' now = Inl (SourceUnavailable (de_id s))"
      "s \<in> set sources'" "de_kind s = CodeRule" "rule_of decode s = None" by (rule resolve_unreadable)
    moreover from 1 obtain s' where "resolve_code_contract decode to_value sources now = Inl (SourceUnavailable (de_id s'))"
      "s' \<in> set sources" "de_kind s' = CodeRule" "rule_of decode s' = None" by (rule resolve_unreadable)
    ultimately show ?thesis by (auto simp: same_outcome_def blames_bad_def assms(1))
  next
    case 2
    from 2 [folded r v] obtain s f where "resolve_code_contract decode to_value sources' now = Inl (WaiverInvalid (fst s) f)"
      "s \<in> set (rules_of decode sources')" "\<not> waiver_ok now s" by (rule resolve_bad_waiver)
    moreover from 2 obtain s' f' where "resolve_code_contract decode to_value sources now = Inl (WaiverInvalid (fst s') f')"
      "s' \<in> set (rules_of decode sources)" "\<not> waiver_ok now s'" by (rule resolve_bad_waiver)
    ultimately show ?thesis by (auto simp: same_outcome_def blames_bad_def rules_of_cong [OF assms(1)])
  next
    case 3
    then have "resolve_code_contract decode to_value sources' now = resolve_code_contract decode to_value sources now"
      using resolve_screened [of decode sources now to_value] resolve_screened [of decode sources' now to_value] r v
        screened_order(1) [OF assms, of to_value decode now] screened_order(2) [OF assms, of decode now] by simp
    then show ?thesis by (simp add: same_outcome_def)
  qed
qed


section \<open>Samples\<close>

definition sample_rule :: "u32 \<Rightarrow> (string \<times> string) list \<Rightarrow> code_rule_spec" where
  "sample_rule minimum selector = \<lparr>crs_conflict_key = ''reviewers'', crs_minimum = minimum, crs_operator = ''minimum'',
     crs_enforcement = ''quality'', crs_selector = fold (\<lambda>(k, v). om_insert k v) selector om_empty, crs_waiver = None, crs_valid_until = None\<rparr>"

definition sample_decode :: "json \<Rightarrow> unit + code_rule_spec" where
  "sample_decode v = (case v of
      JString ''broad'' \<Rightarrow> Inr (sample_rule 5 [])
    | JString ''middle'' \<Rightarrow> Inr (sample_rule 3 [(''language'', ''rust'')])
    | JString ''narrow'' \<Rightarrow> Inr (sample_rule 6 [(''language'', ''rust''), (''layer'', ''core'')])
    | _ \<Rightarrow> Inl ())"

definition sample_selector :: selector_value where
  "sample_selector m = Some (JObject (map (\<lambda>(k, v). (k, JString v)) (om_entries m)))"

definition sample_source :: "string \<Rightarrow> string \<Rightarrow> development_envelope" where
  "sample_source rule_id rule = \<lparr>de_id = rule_id, de_kind = CodeRule, de_spec = JString rule\<rparr>"

definition sample_sources :: "string \<Rightarrow> development_envelope list" where
  "sample_sources middle = [sample_source ''a'' ''broad'', sample_source middle ''middle'', sample_source ''c'' ''narrow'']"

definition sample_contract :: resolved_code_contract where
  "sample_contract = \<lparr>rcc_requirements = om_insert ''reviewers'' 6 om_empty,
     rcc_record = \<lparr>rr_included = [''c''], rr_shadowed = [''a'', ''d''], rr_waived = [], rr_expired = [], rr_denied = []\<rparr>\<rparr>"

lemma sample_resolves: "resolve_code_contract sample_decode sample_selector (sample_sources ''d'') 0 = Inr sample_contract"
  by code_simp

text \<open>Whether a rule that weakens the broader rule it refines is refused depends on rule names: of three rules, each
  refining the previous one, the middle one asks less than the broad one; named between the two others it is refused as a
  conflict, and with a name that sorts last the same rules resolve, because the fold then compares it with the strongest rule
  alone.\<close>

lemma weakening_decided_by_name:
  "resolve_code_contract sample_decode sample_selector (sample_sources ''b'') 0 = Inl (RuleConflict ''reviewers'' [''a'', ''b'']) \<and>
   resolve_code_contract sample_decode sample_selector (sample_sources ''d'') 0 = Inr sample_contract"
proof
  show "resolve_code_contract sample_decode sample_selector (sample_sources ''b'') 0 = Inl (RuleConflict ''reviewers'' [''a'', ''b''])"
    by code_simp
qed (rule sample_resolves)

theorem contract_strongest_witness:
  "om_get (rcc_requirements sample_contract) ''reviewers'' = Some 6 \<and>
   set (rr_included (rcc_record sample_contract) @ rr_shadowed (rcc_record sample_contract) @ rr_waived (rcc_record sample_contract) @
     rr_expired (rcc_record sample_contract) @ rr_denied (rcc_record sample_contract)) = {''a'', ''c'', ''d''}"
proof -
  have "distinct (map de_id (sample_sources ''d''))" by (simp add: sample_sources_def sample_source_def)
  from contract_strongest [OF sample_resolves this, of "''reviewers''"]
  have "set (rr_included (rcc_record sample_contract) @ rr_shadowed (rcc_record sample_contract) @ rr_waived (rcc_record sample_contract) @
     rr_expired (rcc_record sample_contract) @ rr_denied (rcc_record sample_contract)) = de_id ` set (sample_sources ''d'')"
    unfolding Let_def by blast
  then show ?thesis by (auto simp: sample_sources_def sample_source_def sample_contract_def)
qed

theorem contract_order_independent_witness:
  "resolve_code_contract sample_decode sample_selector (rev (sample_sources ''d'')) 0 = Inr sample_contract"
proof -
  have "same_outcome sample_decode 0 (sample_sources ''d'')
      (resolve_code_contract sample_decode sample_selector (rev (sample_sources ''d'')) 0)
      (resolve_code_contract sample_decode sample_selector (sample_sources ''d'') 0)"
    by (rule contract_order_independent) (auto simp: sample_sources_def sample_source_def)
  then show ?thesis unfolding sample_resolves same_outcome_def by (auto split: sum.splits resolution_refusal.splits)
qed

text \<open>Without distinct ids the order of the input decides: the sort of a group is stable, so two rules of one id are compared in
  the order in which they were supplied, and the same three sources are refused as a conflict in one order and resolve in the
  other.\<close>

lemma duplicate_ids_follow_order:
  "resolve_code_contract sample_decode sample_selector (sample_sources ''c'') 0 = Inl (RuleConflict ''reviewers'' [''a'', ''c'']) \<and>
   (\<exists>c. resolve_code_contract sample_decode sample_selector (rev (sample_sources ''c'')) 0 = Inr c)"
proof
  show "resolve_code_contract sample_decode sample_selector (sample_sources ''c'') 0 = Inl (RuleConflict ''reviewers'' [''a'', ''c''])"
    by code_simp
  have "\<not> isl (resolve_code_contract sample_decode sample_selector (rev (sample_sources ''c'')) 0)" by code_simp
  then show "\<exists>c. resolve_code_contract sample_decode sample_selector (rev (sample_sources ''c'')) 0 = Inr c"
    by (cases "resolve_code_contract sample_decode sample_selector (rev (sample_sources ''c'')) 0") simp_all
qed

end
