(* ===== verification/Event_Log.thy ===== *)
theory Event_Log
  imports Store "HOL-Library.Sublist"
begin

text \<open>
  The repository interface the verbs are written against (\<open>EventRepository\<close> in \<open>core/events/src/repository.rs\<close>): what a
  client may rely on when it reads a stream, decides, and appends at the sequence its reading implies. The contract
  is that of an append-only log with optimistic concurrency; its lemmas hold for every repository that keeps it.
\<close>

record 's event_repository =
  rep_read_replay_stream :: "'s \<Rightarrow> repository_scope \<Rightarrow> string \<Rightarrow> repository_error + event_envelope list"
  rep_next_sequence :: "'s \<Rightarrow> repository_scope \<Rightarrow> string \<Rightarrow> repository_error + u64"
  rep_append_atomic :: "prepared_append \<Rightarrow> 's \<Rightarrow> (repository_error + event_envelope list) \<times> 's"

lemma prepared_append_new_Inr:
  "prepared_append_new scope stream at evs evidence artifacts = Inr r \<Longrightarrow>
    pap_scope r = scope \<and> pap_stream_id r = stream \<and> pap_expected_next_sequence r = at \<and> pap_events r = evs \<and>
    pap_evidence r = evidence \<and> pap_artifacts r = artifacts"
  by (auto simp: prepared_append_new_def split: if_splits)

lemma requested_kinds: "map request_of_envelope evs = news \<Longrightarrow> map env_kind evs = map nev_kind news"
  by (auto simp: request_of_envelope_def)

text \<open>\<open>log_of\<close> is the log of each stream, \<open>later\<close> what other handles may do in between, and \<open>distinguished\<close> says that
  the repository tells the stream from the others it holds.\<close>

locale event_log =
  fixes repo :: "'s event_repository"
    and valid :: "'s \<Rightarrow> bool"
    and log_of :: "'s \<Rightarrow> repository_scope \<Rightarrow> string \<Rightarrow> event_envelope list"
    and distinguished :: "'s \<Rightarrow> repository_scope \<Rightarrow> string \<Rightarrow> bool"
    and later :: "'s \<Rightarrow> 's \<Rightarrow> bool"
  assumes read_exact: "valid s \<Longrightarrow> distinguished s scope stream \<Longrightarrow> rep_read_replay_stream repo s scope stream = Inr evs \<Longrightarrow>
      evs = log_of s scope stream \<and> Suc (length evs) < 2 ^ 64 \<and> (\<forall>i<length evs. unat (env_sequence (evs ! i)) = Suc i)"
    and next_exact: "valid s \<Longrightarrow> distinguished s scope stream \<Longrightarrow> rep_next_sequence repo s scope stream = Inr n \<Longrightarrow>
      unat n = Suc (length (log_of s scope stream))"
    and append_exact: "valid s \<Longrightarrow> distinguished s (pap_scope r) (pap_stream_id r) \<Longrightarrow> pap_artifacts r = [] \<Longrightarrow>
      rep_append_atomic repo r s = (res, s') \<Longrightarrow>
      log_of s' = log_of s \<or>
      (\<exists>evs. res = Inr evs \<and> unat (pap_expected_next_sequence r) = Suc (length (log_of s (pap_scope r) (pap_stream_id r))) \<and>
         map request_of_envelope evs = pap_events r \<and> (evs \<noteq> [] \<longrightarrow> env_sequence (hd evs) = pap_expected_next_sequence r) \<and>
         (\<forall>scope stream. log_of s' scope stream =
            log_of s scope stream @ (if (scope, stream) = (pap_scope r, pap_stream_id r) then evs else [])))"
    and later_exact: "valid s \<Longrightarrow> later s s' \<Longrightarrow> valid s' \<and> prefix (log_of s scope stream) (log_of s' scope stream)"
    and later_distinguished: "later s s' \<Longrightarrow> distinguished s' scope stream \<Longrightarrow> distinguished s scope stream"
begin

text \<open>An append whose sequence comes from a reading lands only where that reading still is the log.\<close>

lemma lands_where_read:
  assumes "valid s" "later s s'" "distinguished s' (pap_scope r) (pap_stream_id r)" "pap_artifacts r = []"
    and seq: "unat (pap_expected_next_sequence r) = Suc (length (log_of s (pap_scope r) (pap_stream_id r)))"
    and app: "rep_append_atomic repo r s' = (Inr evs, s'')"
  shows "log_of s'' = log_of s' \<or>
    log_of s' (pap_scope r) (pap_stream_id r) = log_of s (pap_scope r) (pap_stream_id r) \<and>
    log_of s'' (pap_scope r) (pap_stream_id r) = log_of s (pap_scope r) (pap_stream_id r) @ evs \<and>
    map request_of_envelope evs = pap_events r \<and> (evs \<noteq> [] \<longrightarrow> env_sequence (hd evs) = pap_expected_next_sequence r)"
proof -
  note l = later_exact [OF assms(1,2), of "pap_scope r" "pap_stream_id r"]
  let ?h = "log_of s (pap_scope r) (pap_stream_id r)" and ?h' = "log_of s' (pap_scope r) (pap_stream_id r)"
  from append_exact [OF conjunct1 [OF l] assms(3,4) app] show ?thesis
  proof (elim disjE exE conjE)
    fix es
    assume es: "Inr evs = (Inr es :: repository_error + event_envelope list)" "map request_of_envelope es = pap_events r"
      "es \<noteq> [] \<longrightarrow> env_sequence (hd es) = pap_expected_next_sequence r"
      and "unat (pap_expected_next_sequence r) = Suc (length ?h')"
      and grown: "\<forall>scope stream. log_of s'' scope stream =
        log_of s' scope stream @ (if (scope, stream) = (pap_scope r, pap_stream_id r) then es else [])"
    then have "length ?h' = length ?h" using seq by simp
    then have eq: "?h' = ?h" using l by (auto simp: prefix_def)
    have "log_of s'' (pap_scope r) (pap_stream_id r) = ?h' @ es" using grown by simp
    then show ?thesis using eq es by auto
  qed simp
qed

lemma read_numbered:
  assumes "valid s" "distinguished s scope stream" "rep_read_replay_stream repo s scope stream = Inr h"
  shows "h = log_of s scope stream" "Suc (length h) < 2 ^ 64" "h \<noteq> [] \<Longrightarrow> unat (env_sequence (last h)) = length h"
  using read_exact [OF assms] by (auto simp: last_conv_nth)

end

end
