(* ===== verification/Store_Log.thy ===== *)
theory Store_Log
  imports Event_Log Store_Retry
begin

text \<open>
  The local store keeps the contract of an event repository: its log of a stream is the stream's events across all
  segments, and what happens in between is any sequence of appends by other handles.
\<close>

definition local_repository :: "store_env \<Rightarrow> timestamp option \<Rightarrow> (nat \<Rightarrow> string) \<Rightarrow> event_store event_repository" where
  "local_repository env at ids =
    \<lparr>rep_read_replay_stream = read_replay_stream env, rep_next_sequence = next_sequence env,
     rep_append_atomic = append_locked env at ids\<rparr>"

inductive store_later :: "store_env \<Rightarrow> event_store \<Rightarrow> event_store \<Rightarrow> bool" for env where
  later_refl: "store_later env store store"
| later_append: "store_later env store store1 \<Longrightarrow> is_prepared r \<Longrightarrow>
    store_later env store (snd (append_locked env at ids r store1))"

definition stream_log :: "event_store \<Rightarrow> repository_scope \<Rightarrow> string \<Rightarrow> event_envelope list" where
  "stream_log store scope stream = stream_of scope stream (history store)"

text \<open>SHA-256 tells the stream from every stream of the store.\<close>

definition stream_distinguished :: "store_env \<Rightarrow> event_store \<Rightarrow> repository_scope \<Rightarrow> string \<Rightarrow> bool" where
  "stream_distinguished env store scope stream \<longleftrightarrow>
    digest_width env \<and> keys_distinct env (insert (scope, stream) (streams (history store)))"

lemma append_history_prefix: "prefix (history store) (history (snd (append_locked env at ids r store)))"
  by (rule append_locked_history [of env at ids r store]) auto

lemma later_history: "store_later env store store1 \<Longrightarrow> prefix (history store) (history store1)"
proof (induction rule: store_later.induct)
  case (later_append store store1 r at ids)
  then show ?case using append_history_prefix prefix_order.trans by blast
qed simp

lemma later_reachable: "store_later env store store1 \<Longrightarrow> store_reachable env store \<Longrightarrow> store_reachable env store1"
  by (induction rule: store_later.induct) (auto intro: reach_append)

lemma stream_of_prefix: "prefix bs cs \<Longrightarrow> prefix (stream_of scope stream bs) (stream_of scope stream cs)"
  by (auto simp: prefix_def stream_of_def)

lemma streams_prefix: "prefix bs cs \<Longrightarrow> streams bs \<subseteq> streams cs"
  by (auto simp: prefix_def streams_simps)

lemma read_replay_stream_Inr:
  assumes "store_reachable env store" "stream_distinguished env store scope stream"
    and "read_replay_stream env store scope stream = Inr evs"
  shows "evs = stream_log store scope stream" "Suc (length evs) < 2 ^ 64" "sound_journal (ste_replay env) scope stream evs"
    "i < length evs \<Longrightarrow> unat (env_sequence (evs ! i)) = Suc i"
proof -
  have kd: "keys_distinct env (insert (scope, stream) (streams (history store)))"
    using assms(2) by (simp add: stream_distinguished_def)
  then have kd': "keys_distinct env (streams (history store))" by (rule keys_distinct_mono) auto
  note seals = reachable_seals [OF assms(1) kd']
  obtain st where l: "load_state env store = Inr st"
    and evs: "evs = stream_events_after env store st scope stream 0 (MAX_READ_ALL + 1)" "\<not> length evs > MAX_READ_ALL"
    using assms(3) by (auto simp: read_replay_stream_def Let_def split: if_splits)
  note t = tracksD [OF load_state_tracks(1) [OF l seals kd'] kd]
  have "evs = take (MAX_READ_ALL + 1) (stream_log store scope stream)"
    using stream_events_after_exact [OF seals l kd, of 0 "MAX_READ_ALL + 1"] evs(1) by (simp add: stream_log_def)
  then show eq: "evs = stream_log store scope stream" using evs(2) by (simp add: min_def split: if_splits)
  show "Suc (length evs) < 2 ^ 64" "sound_journal (ste_replay env) scope stream evs"
    using t(2,4) by (simp_all add: eq stream_log_def)
  then show "unat (env_sequence (evs ! i)) = Suc i" if "i < length evs"
    using sound_journal_sequence [OF t(4,2), of i] that by (simp add: eq stream_log_def)
qed

lemma next_sequence_Inr:
  assumes "store_reachable env store" "stream_distinguished env store scope stream" "next_sequence env store scope stream = Inr n"
  shows "unat n = Suc (length (stream_log store scope stream))"
proof -
  have kd: "keys_distinct env (insert (scope, stream) (streams (history store)))"
    using assms(2) by (simp add: stream_distinguished_def)
  then have kd': "keys_distinct env (streams (history store))" by (rule keys_distinct_mono) auto
  obtain st where l: "load_state env store = Inr st" and n: "n = next_sequence_of st (stream_key env scope stream)"
    using assms(3) by (auto simp: next_sequence_def split: if_splits)
  note t = tracksD [OF load_state_tracks(1) [OF l reachable_seals [OF assms(1) kd'] kd'] kd]
  show ?thesis unfolding n t(1) stream_log_def using t(2) by (simp only: unat_of_nat) simp
qed

lemma append_locked_exact:
  assumes "store_reachable env store" "stream_distinguished env store (pap_scope r) (pap_stream_id r)" "pap_artifacts r = []"
    and "append_locked env at ids r store = (res, store')"
  shows "stream_log store' = stream_log store \<or>
      (\<exists>evs. res = Inr evs \<and> unat (pap_expected_next_sequence r) = Suc (length (stream_log store (pap_scope r) (pap_stream_id r))) \<and>
         map request_of_envelope evs = pap_events r \<and> (evs \<noteq> [] \<longrightarrow> env_sequence (hd evs) = pap_expected_next_sequence r) \<and>
         (\<forall>scope stream. stream_log store' scope stream =
            stream_log store scope stream @ (if (scope, stream) = (pap_scope r, pap_stream_id r) then evs else [])))"
proof (cases "history store' = history store")
  case False
  obtain evs where res: "res = Inr evs"
    by (rule append_locked_history [of env at ids r store]) (use assms(4) False in auto)
  have nc: "no_collision env store r"
    using assms(2,3) by (simp add: no_collision_def stream_distinguished_def stored_artifacts_def)
  show ?thesis
  proof (rule append_locked_grows [OF assms(1) nc assms(4) [unfolded res] False])
    assume g: "pap_expected_next_sequence r = of_nat (Suc (length (stream_of (pap_scope r) (pap_stream_id r) (history store))))"
      "Suc (length (stream_of (pap_scope r) (pap_stream_id r) (history store))) < 2 ^ 64"
      and rest: "map request_of_envelope evs = pap_events r" "evs \<noteq> [] \<Longrightarrow> env_sequence (hd evs) = pap_expected_next_sequence r"
      "\<And>scope stream. stream_of scope stream (history store') =
         stream_of scope stream (history store) @ (if (scope, stream) = (pap_scope r, pap_stream_id r) then evs else [])"
    have "unat (pap_expected_next_sequence r) = Suc (length (stream_log store (pap_scope r) (pap_stream_id r)))"
      using g(2) unfolding g(1) stream_log_def by (simp only: unat_of_nat) simp
    then show ?thesis using res rest by (auto simp: stream_log_def)
  qed
qed (simp add: stream_log_def fun_eq_iff)

interpretation store_log: event_log "local_repository env at ids" "store_reachable env" stream_log
  "stream_distinguished env" "store_later env" for env at ids
proof
  fix s s' :: event_store and scope stream and evs n r res
  show "rep_read_replay_stream (local_repository env at ids) s scope stream = Inr evs \<Longrightarrow>
      evs = stream_log s scope stream \<and> Suc (length evs) < 2 ^ 64 \<and> (\<forall>i<length evs. unat (env_sequence (evs ! i)) = Suc i)"
    if "store_reachable env s" "stream_distinguished env s scope stream"
    using read_replay_stream_Inr [OF that] by (simp add: local_repository_def)
  show "rep_next_sequence (local_repository env at ids) s scope stream = Inr n \<Longrightarrow> unat n = Suc (length (stream_log s scope stream))"
    if "store_reachable env s" "stream_distinguished env s scope stream"
    using next_sequence_Inr [OF that] by (simp add: local_repository_def)
  show "rep_append_atomic (local_repository env at ids) r s = (res, s') \<Longrightarrow>
      stream_log s' = stream_log s \<or>
      (\<exists>evs. res = Inr evs \<and> unat (pap_expected_next_sequence r) = Suc (length (stream_log s (pap_scope r) (pap_stream_id r))) \<and>
         map request_of_envelope evs = pap_events r \<and> (evs \<noteq> [] \<longrightarrow> env_sequence (hd evs) = pap_expected_next_sequence r) \<and>
         (\<forall>scope stream. stream_log s' scope stream =
            stream_log s scope stream @ (if (scope, stream) = (pap_scope r, pap_stream_id r) then evs else [])))"
    if "store_reachable env s" "stream_distinguished env s (pap_scope r) (pap_stream_id r)" "pap_artifacts r = []"
    using append_locked_exact [OF that] by (simp add: local_repository_def)
  show "store_reachable env s' \<and> prefix (stream_log s scope stream) (stream_log s' scope stream)"
    if "store_reachable env s" "store_later env s s'"
    using later_reachable [OF that(2,1)] stream_of_prefix [OF later_history [OF that(2)]] by (simp add: stream_log_def)
  show "stream_distinguished env s scope stream" if "store_later env s s'" "stream_distinguished env s' scope stream"
    using that(2) streams_prefix [OF later_history [OF that(1)]]
    by (auto simp: stream_distinguished_def elim: keys_distinct_mono)
qed

end
