(* ===== verification/Simulation.thy ===== *)
theory Simulation
  imports Lint Store_Log
begin

text \<open>
  The effect-free simulator (\<open>core/simulation/src/engine.rs\<close>, \<open>executor.rs\<close>, \<open>fixtures.rs\<close>): a graph is driven by a table of
  outcomes, and the whole run is journalled as one batch. The main loop is a function whose termination is proved: each round
  starts a further iteration of a controlled loop, takes a node from the pending set, or queues one. \<open>usize\<close> is 64 bits wide. The
  SHA-256 of the idempotency keys, the generated id and the clock are parameters.
\<close>

section \<open>Fixtures\<close>

datatype fixture_outcome = FixtureSuccess | FixtureFailure | FixtureUnknown

record simulation_fixtures =
  sf_node_outcomes :: "(string, fixture_outcome) omap"
  sf_conditions :: "(string, bool) omap"

definition fixture_execute :: "simulation_fixtures \<Rightarrow> string \<Rightarrow> u32 \<Rightarrow> node_outcome" where
  "fixture_execute fixtures node_id attempt = (case om_get (sf_node_outcomes fixtures) node_id of
      Some FixtureSuccess \<Rightarrow> O_Succeeded
    | Some FixtureFailure \<Rightarrow> O_RetryableFailure
    | Some FixtureUnknown \<Rightarrow> O_NeedsInput
    | None \<Rightarrow> O_NeedsInput)"


section \<open>Controlled loops\<close>

definition MAX_LOOP_ITERATIONS :: u64 where "MAX_LOOP_ITERATIONS = 100"

definition MAX_SIMULATION_TRANSITIONS :: nat where "MAX_SIMULATION_TRANSITIONS = 5000"

record controlled_loop =
  cl_nodes :: "string oset"
  cl_limit :: u64
  cl_completed :: u64

definition reachable :: "execution_graph \<Rightarrow> string \<Rightarrow> bool \<Rightarrow> string oset" where
  "reachable g start reverse = reach_from (if reverse then map prod.swap (edge_pairs g) else edge_pairs g) [start] om_empty"

definition loop_limit :: "graph_node \<Rightarrow> u64 option" where
  "loop_limit n = (case Option.bind (prop_path n ''loop'' ''maxIterations'') as_u64 of
     Some limit \<Rightarrow> if 0 < limit then Some limit else None | None \<Rightarrow> None)"

fun join_loop :: "string oset \<Rightarrow> u64 \<Rightarrow> controlled_loop list \<Rightarrow> controlled_loop list" where
  "join_loop nodes limit [] = [\<lparr>cl_nodes = nodes, cl_limit = limit, cl_completed = 0\<rparr>]"
| "join_loop nodes limit (l # ls) =
    (if cl_nodes l = nodes then l\<lparr>cl_limit := max (cl_limit l) limit\<rparr> # ls else l # join_loop nodes limit ls)"

definition add_loop :: "execution_graph \<Rightarrow> string \<times> graph_node \<Rightarrow> controlled_loop list \<Rightarrow> controlled_loop list" where
  "add_loop g entry loops = (case entry of (controller, n) \<Rightarrow>
    (case loop_limit n of
       None \<Rightarrow> loops
     | Some limit \<Rightarrow>
         let forward = reachable g controller False; reverse = reachable g controller True;
             nodes = os_of_list (filter (os_member reverse) (om_keys forward));
             self_loop = list_ex (\<lambda>e. ge_from e = controller \<and> ge_to e = controller) (graph_edges g) in
         if om_len nodes = 1 \<and> \<not> self_loop then loops else join_loop nodes limit loops))"

definition controlled_loops :: "execution_graph \<Rightarrow> controlled_loop list" where
  "controlled_loops g = sort_key (\<lambda>l. take 1 (om_keys (cl_nodes l))) (fold (add_loop g) (node_entries g) [])"

definition checked_usize :: "nat \<Rightarrow> nat option" where
  "checked_usize n = (if n < 2 ^ 64 then Some n else None)"

fun estimated_steps :: "controlled_loop list \<Rightarrow> nat \<Rightarrow> nat option" where
  "estimated_steps [] acc = Some acc"
| "estimated_steps (l # ls) acc =
    Option.bind (checked_usize (om_len (cl_nodes l) * unat (cl_limit l))) (\<lambda>steps.
    Option.bind (checked_usize (steps * 3)) (\<lambda>steps.
    Option.bind (checked_usize (acc + steps)) (estimated_steps ls)))"


section \<open>Conditions and readiness\<close>

datatype readiness = ReadinessReady | ReadinessWaiting | ReadinessUnknown nat | ReadinessFailed

definition compare_passed :: "(string, node_state) omap \<Rightarrow> string \<Rightarrow> bool option" where
  "compare_passed states text =
    Option.bind (split_once '' == '' text) (\<lambda>(left, expected).
    Option.bind (strip_prefix ''nodes.'' left) (\<lambda>rest.
    Option.bind (strip_suffix ''.output.passed'' rest) (\<lambda>node.
      let passed = om_get states node = Some S_Succeeded in
      if expected = ''true'' then Some passed else if expected = ''false'' then Some (\<not> passed) else None)))"

definition evaluate_condition :: "graph_edge \<Rightarrow> (string, node_state) omap \<Rightarrow> simulation_fixtures \<Rightarrow> bool option" where
  "evaluate_condition e states fixtures = (case ge_condition e of
      None \<Rightarrow> Some True
    | Some condition \<Rightarrow>
        (case as_bool condition of
           Some b \<Rightarrow> Some b
         | None \<Rightarrow>
             Option.bind (as_str condition) (\<lambda>text.
               if text = ''true'' then Some True else if text = ''false'' then Some False
               else case om_get (sf_conditions fixtures) text of Some b \<Rightarrow> Some b | None \<Rightarrow> compare_passed states text)))"

fun readiness_of :: "(string, node_state) omap \<Rightarrow> simulation_fixtures \<Rightarrow> (nat \<times> graph_edge) list \<Rightarrow> readiness" where
  "readiness_of states fixtures [] = ReadinessReady"
| "readiness_of states fixtures ((index, e) # incoming) =
    (if om_get states (ge_from e) \<noteq> Some S_Succeeded then ReadinessWaiting
     else case evaluate_condition e states fixtures of
       Some True \<Rightarrow> readiness_of states fixtures incoming
     | Some False \<Rightarrow> ReadinessWaiting
     | None \<Rightarrow>
         (case ge_on_unknown e of
            Some FailOnUnknown \<Rightarrow> ReadinessFailed
          | Some SkipOnUnknown \<Rightarrow> ReadinessWaiting
          | _ \<Rightarrow> ReadinessUnknown index))"

definition node_readiness :: "execution_graph \<Rightarrow> string \<Rightarrow> (string, node_state) omap \<Rightarrow> simulation_fixtures \<Rightarrow> readiness" where
  "node_readiness g node_id states fixtures =
    (let incoming = filter (\<lambda>(index, e). ge_to e = node_id) (List.enumerate 0 (graph_edges g)) in
     if incoming = [] then ReadinessWaiting else readiness_of states fixtures incoming)"

definition terminals_succeeded :: "execution_graph \<Rightarrow> (string, node_state) omap \<Rightarrow> bool" where
  "terminals_succeeded g states = (case Option.bind (json_get (gs_completion (eg_spec g)) ''terminalNodes'') as_array of
      None \<Rightarrow> False
    | Some items \<Rightarrow> items \<noteq> [] \<and> list_all (\<lambda>n_id. om_get states n_id = Some S_Succeeded) (List.map_filter as_str items))"


section \<open>Transitions\<close>

record simulation_services =
  ssv_sha_hex :: "string \<Rightarrow> string"
  ssv_scope :: repository_scope
  ssv_stream_id :: string
  ssv_actor :: persisted_actor

definition push_part :: "string \<Rightarrow> string \<Rightarrow> repository_error + string" where
  "push_part part material =
    (if length part < 2 ^ 32 then Inr (material @ be_bytes 4 (length part) @ part) else Inl RepositoryLimitExceeded)"

definition simulation_key_material :: "string \<Rightarrow> string \<Rightarrow> string option \<Rightarrow> u64 \<Rightarrow> repository_error + string" where
  "simulation_key_material phase simulation_id node_id ordinal =
    bindE (push_part ''graphhelm-simulation-idempotency-v1'' []) (\<lambda>m.
    bindE (push_part phase m) (\<lambda>m.
    bindE (push_part simulation_id m) (\<lambda>m.
    bindE (push_part (case node_id of Some n \<Rightarrow> n | None \<Rightarrow> []) m) (\<lambda>m. Inr (m @ be64 ordinal)))))"

definition simulation_idempotency_key ::
  "simulation_services \<Rightarrow> string \<Rightarrow> string \<Rightarrow> string option \<Rightarrow> u64 \<Rightarrow> repository_error + string" where
  "simulation_idempotency_key services phase simulation_id node_id ordinal =
    bindE (simulation_key_material phase simulation_id node_id ordinal) (\<lambda>material.
      let digest = ssv_sha_hex services material in
      if \<not> is_raw_sha256 digest \<or> \<not> is_opaque_id (''ev-'' @ digest) then Inl RepositoryInvalid else Inr (''ev-'' @ digest))"

definition simulation_event :: "simulation_services \<Rightarrow> string \<Rightarrow> event_kind \<Rightarrow> new_event" where
  "simulation_event services key kind = \<lparr>nev_idempotency_key = key, nev_actor = ssv_actor services,
     nev_sensitivity = Internal, nev_kind = kind, nev_evidence_refs = [], nev_artifact_refs = []\<rparr>"

record sim_state =
  ss_pending :: "string oset"
  ss_queue :: "string list"
  ss_states :: "(string, node_state) omap"
  ss_transitions :: "(string \<times> node_state) list"
  ss_diagnostics :: "diagnostic list"
  ss_status :: simulation_status
  ss_events :: "new_event list"
  ss_loops :: "controlled_loop list"

definition ordinal_of :: "nat \<Rightarrow> repository_error + u64" where
  "ordinal_of n = (if n < 2 ^ 64 then Inr (of_nat n) else Inl RepositoryLimitExceeded)"

definition sim_transition :: "simulation_services \<Rightarrow> string \<Rightarrow> string \<Rightarrow> node_state \<Rightarrow> sim_state \<Rightarrow> repository_error + sim_state" where
  "sim_transition services simulation_id node_id nxt st =
    (let previous = om_get (ss_states st) node_id; transitions = ss_transitions st @ [(node_id, nxt)] in
     bindE (ordinal_of (length transitions)) (\<lambda>ordinal.
     bindE (simulation_idempotency_key services ''transition'' simulation_id (Some node_id) ordinal) (\<lambda>key.
       if \<not> is_opaque_id node_id then Inl RepositoryInvalid
       else Inr (st\<lparr>ss_states := om_insert node_id nxt (ss_states st), ss_transitions := transitions,
         ss_events := ss_events st @ [simulation_event services key (NodeStateChanged
           \<lparr>nsc_simulation_id = simulation_id, nsc_node_id = node_id, nsc_previous_state = previous, nsc_next_state = nxt\<rparr>)]\<rparr>))))"


section \<open>Rounds\<close>

text \<open>One node taken from the queue. The source leaves its inner loop exactly where it sets a status other than \<open>Running\<close>.\<close>

definition run_node ::
  "simulation_services \<Rightarrow> execution_graph \<Rightarrow> simulation_fixtures \<Rightarrow> nat \<Rightarrow> string \<Rightarrow> string \<Rightarrow> sim_state \<Rightarrow> repository_error + sim_state" where
  "run_node services g fixtures limit sid node_id st =
    bindE (sim_transition services sid node_id S_Queued st) (\<lambda>st.
    bindE (sim_transition services sid node_id S_Running st) (\<lambda>st.
    case (case om_get (sf_node_outcomes fixtures) node_id of Some outcome \<Rightarrow> outcome | None \<Rightarrow> FixtureSuccess) of
      FixtureSuccess \<Rightarrow>
        bindE (sim_transition services sid node_id S_Succeeded st) (\<lambda>st.
          if limit < length (ss_transitions st)
          then Inr (st\<lparr>ss_status := SimBlocked, ss_diagnostics := ss_diagnostics st @ [diagnostic_error ''GHSIM002_STEP_LIMIT_EXCEEDED''
            ''simulation exceeded its deterministic transition limit'' ''/spec/nodes'' (gm_id (eg_metadata g))]\<rparr>)
          else Inr st)
    | FixtureFailure \<Rightarrow>
        bindE (sim_transition services sid node_id S_Failed st) (\<lambda>st. Inr (st\<lparr>ss_status := SimFailed\<rparr>))
    | FixtureUnknown \<Rightarrow>
        bindE (sim_transition services sid node_id S_Paused st) (\<lambda>st.
          Inr (st\<lparr>ss_status := SimPaused, ss_diagnostics := ss_diagnostics st @ [diagnostic_error ''GHSIM001_UNKNOWN_CONDITION''
            ''fixture outcome is unknown'' (''/spec/nodes/'' @ node_id) (gm_id (eg_metadata g))]\<rparr>))))"

fun drain ::
  "simulation_services \<Rightarrow> execution_graph \<Rightarrow> simulation_fixtures \<Rightarrow> nat \<Rightarrow> string \<Rightarrow> string list \<Rightarrow> sim_state
   \<Rightarrow> repository_error + sim_state" where
  "drain services g fixtures limit sid [] st = Inr (st\<lparr>ss_queue := []\<rparr>)"
| "drain services g fixtures limit sid (node_id # queue) st =
    (if \<not> os_member (ss_pending st) node_id then drain services g fixtures limit sid queue st
     else case run_node services g fixtures limit sid node_id (st\<lparr>ss_pending := om_remove node_id (ss_pending st)\<rparr>) of
       Inl e \<Rightarrow> Inl e
     | Inr st \<Rightarrow>
         if ss_status st \<noteq> SimRunning then Inr (st\<lparr>ss_queue := queue\<rparr>) else drain services g fixtures limit sid queue st)"

fun discover :: "execution_graph \<Rightarrow> simulation_fixtures \<Rightarrow> string list \<Rightarrow> string list \<Rightarrow> sim_state \<Rightarrow> string list \<times> sim_state" where
  "discover g fixtures [] found st = (found, st)"
| "discover g fixtures (node_id # nodes) found st =
    (case node_readiness g node_id (ss_states st) fixtures of
       ReadinessReady \<Rightarrow> discover g fixtures nodes (found @ [node_id]) st
     | ReadinessWaiting \<Rightarrow> discover g fixtures nodes found st
     | ReadinessUnknown edge_index \<Rightarrow>
         (found, st\<lparr>ss_status := SimPaused,
            ss_diagnostics := ss_diagnostics st @ [diagnostic_error ''GHSIM001_UNKNOWN_CONDITION''
              ''condition is outside the deterministic simulation subset'' (''/spec/edges/'' @ show_decimal edge_index @ ''/condition'')
              (gm_id (eg_metadata g))]\<rparr>)
     | ReadinessFailed \<Rightarrow> (found, st\<lparr>ss_status := SimFailed\<rparr>))"

definition untouched :: "(string, node_state) omap \<Rightarrow> controlled_loop \<Rightarrow> bool" where
  "untouched states l = (cl_completed l = 0 \<and> list_all (\<lambda>n. \<not> om_contains states n) (om_keys (cl_nodes l)))"

definition count_first_pass :: "(string, node_state) omap \<Rightarrow> controlled_loop \<Rightarrow> controlled_loop" where
  "count_first_pass states l =
    (if cl_completed l = 0 \<and> list_all (\<lambda>n. om_get states n = Some S_Succeeded) (om_keys (cl_nodes l))
     then l\<lparr>cl_completed := 1\<rparr> else l)"

fun first_loop :: "(controlled_loop \<Rightarrow> bool) \<Rightarrow> (controlled_loop \<Rightarrow> controlled_loop) \<Rightarrow> controlled_loop list
   \<Rightarrow> (controlled_loop \<times> controlled_loop list) option" where
  "first_loop P f [] = None"
| "first_loop P f (l # ls) = (if P l then Some (l, f l # ls) else map_option (\<lambda>(x, ls). (x, l # ls)) (first_loop P f ls))"

definition advance :: "execution_graph \<Rightarrow> sim_state \<Rightarrow> sim_state" where
  "advance g st =
    (case first_loop (untouched (ss_states st)) (\<lambda>l. l\<lparr>cl_completed := 1\<rparr>) (ss_loops st) of
       Some (l, loops) \<Rightarrow> st\<lparr>ss_queue := ss_queue st @ take 1 (om_keys (cl_nodes l)), ss_loops := loops, ss_status := SimRunning\<rparr>
     | None \<Rightarrow>
         if terminals_succeeded g (ss_states st) then
           let loops = map (count_first_pass (ss_states st)) (ss_loops st) in
           (case first_loop (\<lambda>l. cl_completed l < cl_limit l) (\<lambda>l. l\<lparr>cl_completed := cl_completed l + 1\<rparr>) loops of
              Some (l, loops) \<Rightarrow>
                st\<lparr>ss_pending := fold os_insert (om_keys (cl_nodes l)) (ss_pending st),
                  ss_queue := ss_queue st @ take 1 (om_keys (cl_nodes l)), ss_loops := loops, ss_status := SimRunning\<rparr>
            | None \<Rightarrow> st\<lparr>ss_loops := loops, ss_status := SimCompleted\<rparr>)
         else st\<lparr>ss_status := SimBlocked\<rparr>)"

definition sim_round ::
  "simulation_services \<Rightarrow> execution_graph \<Rightarrow> simulation_fixtures \<Rightarrow> nat \<Rightarrow> string \<Rightarrow> sim_state \<Rightarrow> repository_error + sim_state" where
  "sim_round services g fixtures limit sid st =
    bindE (drain services g fixtures limit sid (ss_queue st) st) (\<lambda>st.
      if ss_status st \<noteq> SimRunning then Inr st
      else case discover g fixtures (om_keys (ss_pending st)) [] st of (found, st) \<Rightarrow>
        if ss_status st \<noteq> SimRunning then Inr st
        else if found = [] then Inr (advance g st)
        else Inr (st\<lparr>ss_queue := ss_queue st @ found\<rparr>))"


section \<open>Termination\<close>

text \<open>What is left to do: iterations of controlled loops, then pending nodes, then a queue that holds none of them.\<close>

definition loop_work :: "controlled_loop \<Rightarrow> nat" where
  "loop_work l = (if cl_completed l = 0 then 1 else 0) + (unat (cl_limit l) - unat (cl_completed l))"

definition running :: "sim_state \<Rightarrow> nat" where
  "running st = (if ss_status st = SimRunning then 1 else 0)"

definition idle :: "sim_state \<Rightarrow> nat" where
  "idle st = (if set (ss_queue st) \<inter> os_set (ss_pending st) = {} then 1 else 0)"

definition work :: "sim_state \<Rightarrow> nat" where
  "work st = sum_list (map loop_work (ss_loops st))"

lemma first_loop_Some:
  assumes "first_loop P f ls = Some (l, ls')"
  shows "\<exists>as bs. ls = as @ l # bs \<and> ls' = as @ f l # bs \<and> P l"
  using assms
proof (induction ls arbitrary: ls')
  case (Cons a ls)
  show ?case
  proof (cases "P a")
    case False
    then obtain ls1 where "first_loop P f ls = Some (l, ls1)" "ls' = a # ls1" using Cons.prems by auto
    then show ?thesis using Cons.IH by (metis append_Cons)
  qed (use Cons.prems in \<open>force intro: exI [of _ "[]"]\<close>)
qed simp

lemma sim_transition_frame:
  assumes "sim_transition services sid n nxt st = Inr st'"
  obtains key where "is_opaque_id n" "st' = st\<lparr>ss_states := om_insert n nxt (ss_states st), ss_transitions := ss_transitions st @ [(n, nxt)],
    ss_events := ss_events st @ [simulation_event services key (NodeStateChanged
      \<lparr>nsc_simulation_id = sid, nsc_node_id = n, nsc_previous_state = om_get (ss_states st) n, nsc_next_state = nxt\<rparr>)]\<rparr>"
  using assms by (auto simp: sim_transition_def Let_def split: if_splits)

lemma sim_transition_fields:
  assumes "sim_transition services sid n nxt st = Inr st'"
  shows "ss_pending st' = ss_pending st" "ss_queue st' = ss_queue st" "ss_loops st' = ss_loops st" "ss_status st' = ss_status st" "ss_diagnostics st' = ss_diagnostics st"
    "ss_transitions st' = ss_transitions st @ [(n, nxt)]" "ss_states st' = om_insert n nxt (ss_states st)"
  using assms by (auto elim!: sim_transition_frame)

lemma run_node_cases:
  assumes "run_node services g fixtures limit sid n st = Inr st'"
  obtains a b c fin where "sim_transition services sid n S_Queued st = Inr a" "sim_transition services sid n S_Running a = Inr b"
    "sim_transition services sid n fin b = Inr c"
    "st' = c \<and> fin = S_Succeeded \<and> length (ss_transitions c) \<le> limit \<or>
     (\<exists>s d. s \<in> {SimBlocked, SimFailed, SimPaused} \<and> st' = c\<lparr>ss_status := s, ss_diagnostics := d\<rparr>)"
proof -
  let ?outcome = "case om_get (sf_node_outcomes fixtures) n of Some outcome \<Rightarrow> outcome | None \<Rightarrow> FixtureSuccess"
  let ?stop = "\<lambda>c. \<exists>s d. s \<in> {SimBlocked, SimFailed, SimPaused} \<and> st' = c\<lparr>ss_status := s, ss_diagnostics := d\<rparr>"
  obtain a where a: "sim_transition services sid n S_Queued st = Inr a" using assms by (auto simp: run_node_def)
  obtain b where b: "sim_transition services sid n S_Running a = Inr b" using assms a by (auto simp: run_node_def)
  show thesis
  proof (cases ?outcome)
    case FixtureSuccess
    then obtain c where c: "sim_transition services sid n S_Succeeded b = Inr c" using assms a b by (auto simp: run_node_def)
    have "st' = c \<and> length (ss_transitions c) \<le> limit \<or> ?stop c"
    proof (cases "limit < length (ss_transitions c)")
      case True
      then have "st' = c\<lparr>ss_status := SimBlocked, ss_diagnostics := ss_diagnostics st'\<rparr>"
        using assms a b c FixtureSuccess by (auto simp: run_node_def)
      then show ?thesis by blast
    next
      case False
      then show ?thesis using assms a b c FixtureSuccess by (simp add: run_node_def)
    qed
    then show thesis using that [OF a b c] by blast
  next
    case FixtureFailure
    then obtain c where c: "sim_transition services sid n S_Failed b = Inr c" using assms a b by (auto simp: run_node_def)
    then have "st' = c\<lparr>ss_status := SimFailed, ss_diagnostics := ss_diagnostics c\<rparr>"
      using assms a b FixtureFailure by (auto simp: run_node_def)
    then show thesis using that [OF a b c] by blast
  next
    case FixtureUnknown
    then obtain c where c: "sim_transition services sid n S_Paused b = Inr c" using assms a b by (auto simp: run_node_def)
    then have "st' = c\<lparr>ss_status := SimPaused, ss_diagnostics := ss_diagnostics st'\<rparr>"
      using assms a b FixtureUnknown by (auto simp: run_node_def)
    then show thesis using that [OF a b c] by blast
  qed
qed

lemma run_node_frame:
  assumes "run_node services g fixtures limit sid n st = Inr st'"
  shows "ss_pending st' = ss_pending st" "ss_loops st' = ss_loops st" "ss_status st' = ss_status st \<or> ss_status st' \<in> {SimBlocked, SimFailed, SimPaused}"
    "length (ss_transitions st') = length (ss_transitions st) + 3" "ss_status st' = SimRunning \<Longrightarrow> length (ss_transitions st') \<le> limit"
proof -
  obtain a b c fin where t: "sim_transition services sid n S_Queued st = Inr a" "sim_transition services sid n S_Running a = Inr b"
      "sim_transition services sid n fin b = Inr c"
    and e: "st' = c \<and> fin = S_Succeeded \<and> length (ss_transitions c) \<le> limit \<or>
     (\<exists>s d. s \<in> {SimBlocked, SimFailed, SimPaused} \<and> st' = c\<lparr>ss_status := s, ss_diagnostics := d\<rparr>)"
    by (rule run_node_cases [OF assms])
  note f = sim_transition_fields [OF t(1)] sim_transition_fields [OF t(2)] sim_transition_fields [OF t(3)]
  show "ss_pending st' = ss_pending st" "ss_loops st' = ss_loops st" "ss_status st' = ss_status st \<or> ss_status st' \<in> {SimBlocked, SimFailed, SimPaused}"
    "length (ss_transitions st') = length (ss_transitions st) + 3" "ss_status st' = SimRunning \<Longrightarrow> length (ss_transitions st') \<le> limit"
    using e f by auto
qed

lemma drain_pending:
  assumes "drain services g fixtures limit sid queue st = Inr st'" "ss_status st = SimRunning"
  shows "os_set (ss_pending st') \<subseteq> os_set (ss_pending st) \<and> ss_loops st' = ss_loops st \<and>
    (set queue \<inter> os_set (ss_pending st) \<noteq> {} \<longrightarrow> os_set (ss_pending st') \<subset> os_set (ss_pending st)) \<and>
    (ss_status st' = SimRunning \<longrightarrow> ss_queue st' = [])"
  using assms
proof (induction services g fixtures limit sid queue st rule: drain.induct)
  case (2 services g fixtures limit sid n queue st)
  show ?case
  proof (cases "os_member (ss_pending st) n")
    case False
    then show ?thesis using 2 by auto
  next
    case True
    have sub: "os_set (om_remove n (ss_pending st)) \<subset> os_set (ss_pending st)" using True by (auto simp: os_set_def os_member_def)
    obtain u where u: "run_node services g fixtures limit sid n (st\<lparr>ss_pending := om_remove n (ss_pending st)\<rparr>) = Inr u"
      using "2.prems"(1) True by (auto split: sum.splits)
    note f = run_node_frame [OF u]
    show ?thesis
    proof (cases "ss_status u = SimRunning")
      case False
      then show ?thesis using "2.prems"(1) True u f sub by auto
    next
      case run: True
      then have "drain services g fixtures limit sid queue u = Inr st'" using "2.prems"(1) True u by simp
      then have "os_set (ss_pending st') \<subseteq> os_set (ss_pending u) \<and> ss_loops st' = ss_loops u \<and> (ss_status st' = SimRunning \<longrightarrow> ss_queue st' = [])"
        using "2.IH"(2) [OF _ u] True run by blast
      then show ?thesis using f sub by auto
    qed
  qed
qed auto

lemma discover_frame:
  assumes "discover g fixtures nodes found st = (found', st')"
  shows "set found' \<subseteq> set found \<union> set nodes" "st' = st \<or> (\<exists>s d. s \<in> {SimFailed, SimPaused} \<and> st' = st\<lparr>ss_status := s, ss_diagnostics := d\<rparr>)"
proof -
  have "set found' \<subseteq> set found \<union> set nodes \<and> (st' = st \<or> (\<exists>s d. s \<in> {SimFailed, SimPaused} \<and> st' = st\<lparr>ss_status := s, ss_diagnostics := d\<rparr>))"
    using assms
  proof (induction g fixtures nodes found st rule: discover.induct)
    case (2 g fixtures n nodes found st)
    show ?case
    proof (cases "node_readiness g n (ss_states st) fixtures")
      case ReadinessFailed
      then have "st' = st\<lparr>ss_status := SimFailed, ss_diagnostics := ss_diagnostics st\<rparr>" "found' = found" using "2.prems" by auto
      then show ?thesis by blast
    next
      case (ReadinessUnknown i)
      then have "st' = st\<lparr>ss_status := SimPaused, ss_diagnostics := ss_diagnostics st'\<rparr>" "found' = found" using "2.prems" by auto
      then show ?thesis by blast
    qed (use 2 in auto)
  qed simp
  then show "set found' \<subseteq> set found \<union> set nodes" "st' = st \<or> (\<exists>s d. s \<in> {SimFailed, SimPaused} \<and> st' = st\<lparr>ss_status := s, ss_diagnostics := d\<rparr>)" by blast+
qed

lemma count_first_pass_work: "loop_work (count_first_pass states l) \<le> loop_work l"
  by (auto simp: loop_work_def count_first_pass_def)

lemma next_pass:
  assumes "(a :: u64) < b"
  shows "unat (a + 1) = unat a + 1" "unat a < unat b"
proof -
  show lt: "unat a < unat b" using assms by (simp add: word_less_nat_alt)
  have "unat b < 2 ^ 64" using unsigned_less [where w = b and 'a = nat] by simp
  then show "unat (a + 1) = unat a + 1" using lt by (simp add: unat_word_ariths)
qed

lemma advance_works:
  assumes "ss_status (advance g st) = SimRunning"
  shows "work (advance g st) < work st"
proof (cases "first_loop (untouched (ss_states st)) (\<lambda>l. l\<lparr>cl_completed := 1\<rparr>) (ss_loops st)")
  case (Some x)
  obtain l loops where x: "x = (l, loops)" by (cases x)
  obtain as bs where s: "ss_loops st = as @ l # bs" "loops = as @ l\<lparr>cl_completed := 1\<rparr> # bs" "untouched (ss_states st) l"
    using first_loop_Some [OF Some [unfolded x]] by blast
  have "loop_work (l\<lparr>cl_completed := 1\<rparr>) < loop_work l" using s(3) by (simp add: loop_work_def untouched_def)
  then have "sum_list (map loop_work loops) < work st" unfolding work_def s(1,2) by simp
  moreover have "ss_loops (advance g st) = loops" by (simp add: advance_def Some x)
  ultimately show ?thesis by (simp add: work_def)
next
  case None
  let ?loops = "map (count_first_pass (ss_states st)) (ss_loops st)"
  have t: "terminals_succeeded g (ss_states st)" using assms None by (auto simp: advance_def split: if_splits)
  obtain l loops where f: "first_loop (\<lambda>l. cl_completed l < cl_limit l) (\<lambda>l. l\<lparr>cl_completed := cl_completed l + 1\<rparr>) ?loops = Some (l, loops)"
    using assms None t by (auto simp: advance_def Let_def split: option.splits)
  obtain as bs where s: "?loops = as @ l # bs" "loops = as @ l\<lparr>cl_completed := cl_completed l + 1\<rparr> # bs" "cl_completed l < cl_limit l"
    using first_loop_Some [OF f] by blast
  have "unat (cl_completed l + 1) = unat (cl_completed l) + 1" "unat (cl_completed l) < unat (cl_limit l)" by (rule next_pass [OF s(3)])+
  moreover from this have "cl_completed l + 1 \<noteq> 0" by auto
  ultimately have "loop_work (l\<lparr>cl_completed := cl_completed l + 1\<rparr>) < loop_work l" by (auto simp: loop_work_def)
  then have "sum_list (map loop_work loops) < sum_list (map loop_work ?loops)" unfolding s(1,2) by simp
  also have "\<dots> \<le> work st" unfolding work_def map_map comp_def by (intro sum_list_mono count_first_pass_work)
  finally show ?thesis by (simp add: advance_def None t f work_def Let_def)
qed

lemma round_decreases:
  assumes "sim_round services g fixtures limit sid st = Inr st'" "ss_status st = SimRunning"
  shows "(st', st) \<in> measures [running, work, \<lambda>st. card (os_set (ss_pending st)), idle]"
proof (cases "ss_status st' = SimRunning")
  case False
  then show ?thesis using assms(2) by (simp add: running_def)
next
  case True
  obtain u where u: "drain services g fixtures limit sid (ss_queue st) st = Inr u" using assms(1) by (auto simp: sim_round_def)
  obtain found v where v: "discover g fixtures (om_keys (ss_pending u)) [] u = (found, v)" by fastforce
  have run: "ss_status u = SimRunning" "ss_status v = SimRunning" using assms(1) True u v by (auto simp: sim_round_def split: if_splits)
  note d = drain_pending [OF u assms(2)]
  note fr = discover_frame [OF v]
  have vu: "v = u" using fr(2) run(2) by auto
  have same: "running st' = running st" using True assms(2) by (simp add: running_def)
  show ?thesis
  proof (cases "found = []")
    case f: True
    then have st': "st' = advance g u" using assms(1) u v run vu by (simp add: sim_round_def)
    have "work st' < work u" using advance_works [of g u] True unfolding st' by blast
    then show ?thesis using same d by (simp add: work_def)
  next
    case False
    then have st': "st' = u\<lparr>ss_queue := found\<rparr>" using assms(1) u v run vu d by (auto simp: sim_round_def)
    have "work st' = work st" using d by (simp add: st' work_def)
    have sub: "set found \<subseteq> os_set (ss_pending u)" using fr(1) by (auto simp: set_os_list simp del: set_om_keys)
    then have id: "idle st' = 0" using False by (cases found) (auto simp: idle_def st')
    have le: "os_set (ss_pending st') \<subseteq> os_set (ss_pending st)" using d by (simp add: st')
    show ?thesis
    proof (cases "os_set (ss_pending st') = os_set (ss_pending st)")
      case True
      then have "idle st = 1" using d by (auto simp: idle_def st')
      then show ?thesis using same \<open>work st' = work st\<close> id True by simp
    next
      case False
      then have "card (os_set (ss_pending st')) < card (os_set (ss_pending st))" using le by (intro psubset_card_mono) auto
      then show ?thesis using same \<open>work st' = work st\<close> by simp
    qed
  qed
qed

function sim_loop ::
  "simulation_services \<Rightarrow> execution_graph \<Rightarrow> simulation_fixtures \<Rightarrow> nat \<Rightarrow> string \<Rightarrow> sim_state \<Rightarrow> repository_error + sim_state" where
  "sim_loop services g fixtures limit sid st =
    (if ss_status st \<noteq> SimRunning then Inr st
     else case sim_round services g fixtures limit sid st of
       Inl e \<Rightarrow> Inl e
     | Inr st \<Rightarrow> sim_loop services g fixtures limit sid st)"
  by pat_completeness auto
termination
proof (relation "inv_image (measures [running, work, \<lambda>st. card (os_set (ss_pending st)), idle]) (\<lambda>(services, g, fixtures, limit, sid, st). st)",
    goal_cases)
  case (2 services g fixtures limit sid st st')
  then show ?case using round_decreases [of services g fixtures limit sid st st'] by (simp only: in_inv_image prod.case simp_thms)
qed simp

declare sim_loop.simps [simp del]


section \<open>A simulation\<close>

record graph_version =
  gv_graph :: execution_graph
  gv_content_hash :: string

record simulation_result =
  sr_simulation_id :: string
  sr_started_at :: timestamp
  sr_status :: simulation_status
  sr_node_states :: "(string, node_state) omap"
  sr_diagnostics :: "diagnostic list"
  sr_events :: "event_envelope list"
  sr_transitions :: "(string \<times> node_state) list"

definition estimate :: "execution_graph \<Rightarrow> nat option" where
  "estimate g = estimated_steps (controlled_loops g) (min (om_len (gs_nodes (eg_spec g)) * 3) (2 ^ 64 - 1))"

definition within_step_limit :: "execution_graph \<Rightarrow> bool" where
  "within_step_limit g = (\<not> list_ex (\<lambda>l. MAX_LOOP_ITERATIONS < cl_limit l) (controlled_loops g) \<and>
     (case estimate g of Some steps \<Rightarrow> steps \<le> MAX_SIMULATION_TRANSITIONS | None \<Rightarrow> False))"

definition transition_limit :: "execution_graph \<Rightarrow> nat" where
  "transition_limit g = min (case estimate g of Some steps \<Rightarrow> steps | None \<Rightarrow> MAX_SIMULATION_TRANSITIONS) MAX_SIMULATION_TRANSITIONS"

definition initial_state :: "execution_graph \<Rightarrow> new_event \<Rightarrow> sim_state" where
  "initial_state g started =
    \<lparr>ss_pending = os_of_list (node_keys g), ss_queue = gs_entrypoints (eg_spec g), ss_states = om_empty, ss_transitions = [],
     ss_diagnostics = (if within_step_limit g then [] else [diagnostic_error ''GHSIM002_STEP_LIMIT_EXCEEDED''
       ''controlled loop exceeds the deterministic simulation step limit'' ''/spec/nodes'' (gm_id (eg_metadata g))]),
     ss_status = (if within_step_limit g then SimRunning else SimBlocked), ss_events = [started], ss_loops = controlled_loops g\<rparr>"

definition simulation_run ::
  "simulation_services \<Rightarrow> graph_version \<Rightarrow> simulation_fixtures \<Rightarrow> string \<Rightarrow> repository_error + sim_state" where
  "simulation_run services gv fixtures sid =
    (let g = gv_graph gv in
     if \<not> is_opaque_id sid \<or> \<not> is_wire_hash (gv_content_hash gv) then Inl RepositoryInvalid
     else
       bindE (simulation_idempotency_key services ''started'' sid None 0) (\<lambda>key.
       bindE (sim_loop services g fixtures (transition_limit g) sid (initial_state g (simulation_event services key (SimulationStarted
           \<lparr>sst_simulation_id = sid, sst_graph_version = gm_version (eg_metadata g), sst_graph_hash = gv_content_hash gv\<rparr>)))) (\<lambda>st.
       bindE (ordinal_of (length (ss_transitions st))) (\<lambda>ordinal.
       bindE (simulation_idempotency_key services ''completed'' sid None ordinal) (\<lambda>key.
         Inr (st\<lparr>ss_events := ss_events st @ [simulation_event services key (SimulationCompleted
           \<lparr>scm_simulation_id = sid, scm_status = ss_status st\<rparr>)]\<rparr>))))))"

definition simulation_request ::
  "simulation_services \<Rightarrow> 's event_repository \<Rightarrow> sim_state \<Rightarrow> 's \<Rightarrow> repository_error + prepared_append" where
  "simulation_request services repo st s =
    bindE (rep_next_sequence repo s (ssv_scope services) (ssv_stream_id services)) (\<lambda>n.
      prepared_append_new (ssv_scope services) (ssv_stream_id services) n (ss_events st) [] [])"

definition simulate ::
  "simulation_services \<Rightarrow> 's event_repository \<Rightarrow> ('s \<Rightarrow> 's) \<Rightarrow> graph_version \<Rightarrow> simulation_fixtures \<Rightarrow> string \<Rightarrow> timestamp \<Rightarrow> 's
   \<Rightarrow> (repository_error + simulation_result) \<times> 's" where
  "simulate services repo meanwhile gv fixtures next_id now s =
    (case simulation_run services gv fixtures next_id of
       Inl e \<Rightarrow> (Inl e, s)
     | Inr st \<Rightarrow>
         (case simulation_request services repo st s of
            Inl e \<Rightarrow> (Inl e, s)
          | Inr request \<Rightarrow>
              (case rep_append_atomic repo request (meanwhile s) of
                 (Inl e, s') \<Rightarrow> (Inl e, s')
               | (Inr evs, s') \<Rightarrow>
                   (Inr \<lparr>sr_simulation_id = next_id, sr_started_at = now, sr_status = ss_status st, sr_node_states = ss_states st,
                      sr_diagnostics = ss_diagnostics st, sr_events = evs, sr_transitions = ss_transitions st\<rparr>, s'))))"

end
