(* ===== verification/Simulation_Soundness.thy ===== *)
theory Simulation_Soundness
  imports Simulation Fold_Invariants
begin

text \<open>
  What a simulation run is worth: it stops within the number of transitions estimated beforehand, a completed run has taken
  every terminal to success and every controlled loop to its limit, and its journal tells the run: the events are the
  transitions in order, each with the state it left, and folding them gives the states the run returns.
\<close>

section \<open>The estimate is enough\<close>

definition loop_visits :: "controlled_loop \<Rightarrow> nat" where
  "loop_visits l = om_len (cl_nodes l) * (unat (cl_limit l) - unat (cl_completed l))"

definition foreseen :: "sim_state \<Rightarrow> nat" where
  "foreseen st = 3 * (card (os_set (ss_pending st)) + sum_list (map loop_visits (ss_loops st))) + length (ss_transitions st)"

definition no_step_limit :: "diagnostic list \<Rightarrow> bool" where
  "no_step_limit ds = list_all (\<lambda>d. dg_code d \<noteq> ''GHSIM002_STEP_LIMIT_EXCEEDED'') ds"

lemma run_node_diagnostics:
  assumes run: "run_node services g fixtures limit sid n st = Inr st'" and len: "length (ss_transitions st) + 3 \<le> limit"
    and "no_step_limit (ss_diagnostics st)"
  shows "no_step_limit (ss_diagnostics st')"
proof -
  obtain a b where a: "sim_transition services sid n S_Queued st = Inr a" and b: "sim_transition services sid n S_Running a = Inr b"
    using run by (auto simp: run_node_def)
  note f = sim_transition_fields [OF a] sim_transition_fields [OF b]
  have db: "no_step_limit (ss_diagnostics b)" using f assms(3) by simp
  have c: "no_step_limit (ss_diagnostics c)" "length (ss_transitions c) \<le> limit" if "sim_transition services sid n fin b = Inr c" for fin c
    using sim_transition_fields [OF that] f db len by simp_all
  show ?thesis
    using run a b c by (auto simp: run_node_def no_step_limit_def diagnostic_error_def not_less [symmetric]
        split: fixture_outcome.splits option.splits if_splits)
qed

lemma drain_foreseen:
  assumes "drain services g fixtures limit sid queue st = Inr st'" "foreseen st \<le> limit" "no_step_limit (ss_diagnostics st)"
    "ss_status st = SimRunning"
  shows "foreseen st' \<le> limit \<and> no_step_limit (ss_diagnostics st') \<and> ss_status st' \<noteq> SimCompleted"
  using assms
proof (induction services g fixtures limit sid queue st rule: drain.induct)
  case (1 services g fixtures limit sid st)
  then show ?case by (auto simp: foreseen_def)
next
  case (2 services g fixtures limit sid n queue st)
  show ?case
  proof (cases "os_member (ss_pending st) n")
    case False
    then show ?thesis using 2 by simp
  next
    case True
    let ?st = "st\<lparr>ss_pending := om_remove n (ss_pending st)\<rparr>"
    obtain u where u: "run_node services g fixtures limit sid n ?st = Inr u" using "2.prems"(1) True by (auto split: sum.splits)
    note f = run_node_frame [OF u]
    have "os_set (ss_pending st) = insert n (os_set (om_remove n (ss_pending st)))" "n \<notin> os_set (om_remove n (ss_pending st))"
      using True by (auto simp: os_set_def os_member_def)
    then have card: "card (os_set (ss_pending st)) = Suc (card (os_set (om_remove n (ss_pending st))))" by simp
    then have same: "foreseen u = foreseen st" using f by (simp add: foreseen_def)
    have len: "length (ss_transitions ?st) + 3 \<le> limit" using "2.prems"(2) card by (simp add: foreseen_def)
    have diag: "no_step_limit (ss_diagnostics u)" using run_node_diagnostics [OF u len] "2.prems"(3) by simp
    show ?thesis
    proof (cases "ss_status u = SimRunning")
      case False
      then have "st' = u\<lparr>ss_queue := queue\<rparr>" using "2.prems"(1) True u by simp
      then show ?thesis using same diag "2.prems"(2,4) f(3) False by (auto simp: foreseen_def)
    next
      case run: True
      then have "drain services g fixtures limit sid queue u = Inr st'" using "2.prems"(1) True u by simp
      then show ?thesis using "2.IH"(2) [OF _ u] True run same diag "2.prems"(2) by simp
    qed
  qed
qed

lemma count_first_pass_visits: "loop_visits (count_first_pass states l) \<le> loop_visits l"
  by (auto simp: loop_visits_def count_first_pass_def)

lemma om_len_card: "om_len s = card (os_set s)" for s :: "'a::linorder oset"
  by (metis distinct_card distinct_om_keys length_om_keys os_set_def set_os_list)

lemma fold_insert_card: "card (os_set (fold os_insert ks s)) \<le> card (os_set s) + length ks"
proof (induction ks arbitrary: s)
  case (Cons k ks)
  have "card (os_set (os_insert k s)) \<le> Suc (card (os_set s))" by (simp add: card_insert_le_m1 card_insert_if)
  then show ?case using Cons [of "os_insert k s"] by simp
qed simp

lemma advance_foreseen: "foreseen (advance g st) \<le> foreseen st" "ss_diagnostics (advance g st) = ss_diagnostics st"
proof -
  have "foreseen (advance g st) \<le> foreseen st \<and> ss_diagnostics (advance g st) = ss_diagnostics st"
  proof (cases "first_loop (untouched (ss_states st)) (\<lambda>l. l\<lparr>cl_completed := 1\<rparr>) (ss_loops st)")
    case (Some x)
    obtain l loops where x: "x = (l, loops)" by (cases x)
    obtain as bs where s: "ss_loops st = as @ l # bs" "loops = as @ l\<lparr>cl_completed := 1\<rparr> # bs" "untouched (ss_states st) l"
      using first_loop_Some [OF Some [unfolded x]] by blast
    have "loop_visits (l\<lparr>cl_completed := 1\<rparr>) \<le> loop_visits l" using s(3) by (simp add: loop_visits_def untouched_def)
    then have "sum_list (map loop_visits loops) \<le> sum_list (map loop_visits (ss_loops st))" by (simp add: s(1,2))
    then show ?thesis by (simp add: advance_def Some x foreseen_def)
  next
    case None
    let ?loops = "map (count_first_pass (ss_states st)) (ss_loops st)"
    have le: "sum_list (map loop_visits ?loops) \<le> sum_list (map loop_visits (ss_loops st))"
      unfolding map_map comp_def by (intro sum_list_mono count_first_pass_visits)
    show ?thesis
    proof (cases "terminals_succeeded g (ss_states st)")
      case False
      then show ?thesis by (simp add: advance_def None foreseen_def)
    next
      case t: True
      show ?thesis
      proof (cases "first_loop (\<lambda>l. cl_completed l < cl_limit l) (\<lambda>l. l\<lparr>cl_completed := cl_completed l + 1\<rparr>) ?loops")
        case f: None
        then show ?thesis using le by (simp add: advance_def None t foreseen_def Let_def)
      next
        case f: (Some x)
        obtain l loops where x: "x = (l, loops)" by (cases x)
        obtain as bs where s: "?loops = as @ l # bs" "loops = as @ l\<lparr>cl_completed := cl_completed l + 1\<rparr> # bs" "cl_completed l < cl_limit l"
          using first_loop_Some [OF f [unfolded x]] by blast
        have u: "unat (cl_completed l + 1) = unat (cl_completed l) + 1" "unat (cl_completed l) < unat (cl_limit l)" by (rule next_pass [OF s(3)])+
        then have "om_len (cl_nodes l) + loop_visits (l\<lparr>cl_completed := cl_completed l + 1\<rparr>) = loop_visits l"
          by (simp add: loop_visits_def flip: mult_Suc_right) (simp add: Suc_diff_Suc)
        then have "om_len (cl_nodes l) + sum_list (map loop_visits loops) = sum_list (map loop_visits ?loops)" unfolding s(1,2) by simp
        moreover have "card (os_set (fold os_insert (om_keys (cl_nodes l)) (ss_pending st))) \<le> card (os_set (ss_pending st)) + om_len (cl_nodes l)"
          using fold_insert_card [of "om_keys (cl_nodes l)"] by (simp add: length_om_keys)
        ultimately show ?thesis using le by (simp add: advance_def None t f x foreseen_def Let_def)
      qed
    qed
  qed
  then show "foreseen (advance g st) \<le> foreseen st" "ss_diagnostics (advance g st) = ss_diagnostics st" by blast+
qed

lemma discover_diagnostics:
  "discover g fixtures nodes found st = (found', st') \<Longrightarrow> no_step_limit (ss_diagnostics st) \<Longrightarrow> no_step_limit (ss_diagnostics st')"
  by (induction g fixtures nodes found st rule: discover.induct)
     (auto simp: no_step_limit_def diagnostic_error_def split: readiness.splits)

definition finished :: "execution_graph \<Rightarrow> sim_state \<Rightarrow> bool" where
  "finished g st \<longleftrightarrow> (ss_status st = SimCompleted \<longrightarrow>
    terminals_succeeded g (ss_states st) \<and> \<not> (\<exists>l\<in>set (ss_loops st). cl_completed l < cl_limit l))"

lemma first_loop_None: "first_loop P f ls = None \<longleftrightarrow> \<not> (\<exists>l\<in>set ls. P l)"
  by (induction ls) auto

lemma advance_finished: "ss_status st = SimRunning \<Longrightarrow> finished g (advance g st)"
  by (auto simp: finished_def advance_def Let_def first_loop_None split: option.splits)

lemma round_foreseen:
  assumes "sim_round services g fixtures limit sid st = Inr st'" "ss_status st = SimRunning"
    "foreseen st \<le> limit" "no_step_limit (ss_diagnostics st)"
  shows "foreseen st' \<le> limit \<and> no_step_limit (ss_diagnostics st') \<and> finished g st'"
proof -
  obtain u where u: "drain services g fixtures limit sid (ss_queue st) st = Inr u" using assms(1) by (auto simp: sim_round_def)
  note d = drain_foreseen [OF u assms(3,4,2)]
  show ?thesis
  proof (cases "ss_status u = SimRunning")
    case False
    then have "st' = u" using assms(1) u by (simp add: sim_round_def)
    then show ?thesis using d by (simp add: finished_def)
  next
    case run: True
    obtain found v where v: "discover g fixtures (om_keys (ss_pending u)) [] u = (found, v)" by fastforce
    have dv: "no_step_limit (ss_diagnostics v)" using discover_diagnostics [OF v] d by blast
    have fv: "foreseen v = foreseen u" "ss_status v \<noteq> SimCompleted" using discover_frame(2) [OF v] run by (auto simp: foreseen_def)
    have st': "st' = (if ss_status v \<noteq> SimRunning then v else if found = [] then advance g v else v\<lparr>ss_queue := ss_queue v @ found\<rparr>)"
      using assms(1) u v run by (simp add: sim_round_def split: if_splits)
    show ?thesis
    proof (cases "ss_status v = SimRunning \<and> found = []")
      case True
      then show ?thesis using st' d dv fv advance_foreseen [of g v] advance_finished [of v g] by simp
    next
      case False
      then show ?thesis using st' d dv fv by (auto simp: foreseen_def finished_def)
    qed
  qed
qed

lemma loop_foreseen:
  assumes "sim_loop services g fixtures limit sid st = Inr st'" "foreseen st \<le> limit" "no_step_limit (ss_diagnostics st)" "finished g st"
  shows "ss_status st' \<noteq> SimRunning \<and> foreseen st' \<le> limit \<and> no_step_limit (ss_diagnostics st') \<and> finished g st'"
  using assms
proof (induction services g fixtures limit sid st rule: sim_loop.induct)
  case (1 services g fixtures limit sid st)
  show ?case
  proof (cases "ss_status st = SimRunning")
    case False
    then show ?thesis using 1 by (simp add: sim_loop.simps)
  next
    case True
    obtain u where u: "sim_round services g fixtures limit sid st = Inr u" "sim_loop services g fixtures limit sid u = Inr st'"
      using "1.prems"(1) True by (subst (asm) sim_loop.simps) (auto split: sum.splits)
    then show ?thesis using "1.IH" [OF _ u(1) u(2)] round_foreseen [OF u(1) True "1.prems"(2,3)] True by simp
  qed
qed

lemma estimated_steps_Some:
  "estimated_steps ls acc = Some n \<Longrightarrow> n = acc + 3 * sum_list (map (\<lambda>l. om_len (cl_nodes l) * unat (cl_limit l)) ls)"
proof (induction ls arbitrary: acc)
  case (Cons l ls)
  have "estimated_steps ls (acc + om_len (cl_nodes l) * unat (cl_limit l) * 3) = Some n"
    using Cons.prems by (auto simp: checked_usize_def bind_eq_Some_conv split: if_splits)
  from Cons.IH [OF this] show ?case by simp
qed simp

lemma join_loop_fresh: "\<forall>l\<in>set ls. cl_completed l = 0 \<Longrightarrow> \<forall>l\<in>set (join_loop ns lim ls). cl_completed l = 0"
  by (induction ns lim ls rule: join_loop.induct) auto

lemma controlled_loops_fresh: "l \<in> set (controlled_loops g) \<Longrightarrow> cl_completed l = 0"
proof -
  have "\<forall>l\<in>set (fold (add_loop g) es ls). cl_completed l = 0" if "\<forall>l\<in>set ls. cl_completed l = 0" for es ls
    using that
  proof (induction es arbitrary: ls)
    case (Cons e es)
    have "\<forall>l\<in>set (add_loop g e ls). cl_completed l = 0"
      using Cons.prems join_loop_fresh by (auto simp: add_loop_def Let_def split: prod.splits option.splits if_splits)
    then show ?case using Cons.IH by simp
  qed simp
  from this [of "[]" "node_entries g"] show "l \<in> set (controlled_loops g) \<Longrightarrow> cl_completed l = 0" by (simp add: controlled_loops_def)
qed

lemma initial_foreseen:
  assumes "within_step_limit g"
  shows "foreseen (initial_state g started) = transition_limit g"
proof -
  obtain n where n: "estimate g = Some n" "n \<le> MAX_SIMULATION_TRANSITIONS" using assms by (auto simp: within_step_limit_def split: option.splits)
  let ?len = "om_len (gs_nodes (eg_spec g))"
  let ?visits = "sum_list (map (\<lambda>l. om_len (cl_nodes l) * unat (cl_limit l)) (controlled_loops g))"
  have e: "n = min (?len * 3) (2 ^ 64 - 1) + 3 * ?visits" using estimated_steps_Some [OF n(1) [unfolded estimate_def]] .
  then have "min (?len * 3) (2 ^ 64 - 1) \<le> 5000" using n(2) by (simp add: MAX_SIMULATION_TRANSITIONS_def)
  then have "n = 3 * (?len + ?visits)" using e by (simp add: min_def split: if_splits)
  moreover have "sum_list (map loop_visits (controlled_loops g)) = ?visits"
    using controlled_loops_fresh by (intro arg_cong [where f = sum_list] map_cong) (auto simp: loop_visits_def)
  moreover have "card (os_set (os_of_list (node_keys g))) = ?len"
  proof -
    have "os_set (os_of_list (node_keys g)) = set (om_keys (gs_nodes (eg_spec g)))"
      by (simp add: os_set_def os_of_list_def os_member_fold_insert node_keys_def)
    then show ?thesis by (simp add: distinct_card length_om_keys del: set_om_keys)
  qed
  ultimately show ?thesis using n by (simp add: foreseen_def initial_state_def transition_limit_def)
qed


section \<open>The journal of a run\<close>

fun trace_kinds :: "string \<Rightarrow> (string, node_state) omap \<Rightarrow> (string \<times> node_state) list \<Rightarrow> event_kind list" where
  "trace_kinds sid states [] = []"
| "trace_kinds sid states ((n, s) # ts) = NodeStateChanged \<lparr>nsc_simulation_id = sid, nsc_node_id = n,
    nsc_previous_state = om_get states n, nsc_next_state = s\<rparr> # trace_kinds sid (om_insert n s states) ts"

definition trace_states :: "(string \<times> node_state) list \<Rightarrow> (string, node_state) omap \<Rightarrow> (string, node_state) omap" where
  "trace_states ts states = fold (\<lambda>(n, s). om_insert n s) ts states"

lemma trace_kinds_snoc:
  "trace_kinds sid m (ts @ [(n, s)]) = trace_kinds sid m ts @ [NodeStateChanged \<lparr>nsc_simulation_id = sid, nsc_node_id = n,
    nsc_previous_state = om_get (trace_states ts m) n, nsc_next_state = s\<rparr>]"
  by (induction ts arbitrary: m) (auto simp: trace_states_def)

lemma length_trace_kinds [simp]: "length (trace_kinds sid m ts) = length ts"
  by (induction sid m ts rule: trace_kinds.induct) auto

definition traced :: "string \<Rightarrow> event_kind \<Rightarrow> sim_state \<Rightarrow> bool" where
  "traced sid started st \<longleftrightarrow> map nev_kind (ss_events st) = started # trace_kinds sid om_empty (ss_transitions st) \<and>
    ss_states st = trace_states (ss_transitions st) om_empty"

lemma traced_cong:
  "ss_events st' = ss_events st \<Longrightarrow> ss_transitions st' = ss_transitions st \<Longrightarrow> ss_states st' = ss_states st \<Longrightarrow>
    traced sid started st' = traced sid started st"
  by (simp add: traced_def)

lemma sim_transition_traced:
  assumes "sim_transition services sid n nxt st = Inr st'" "traced sid started st"
  shows "traced sid started st'"
  using assms
  by (auto elim!: sim_transition_frame simp: traced_def trace_kinds_snoc simulation_event_def) (simp_all add: trace_states_def)

lemma run_node_traced:
  assumes "run_node services g fixtures limit sid n st = Inr st'" "traced sid started st"
  shows "traced sid started st'"
proof -
  obtain a b c fin where t: "sim_transition services sid n S_Queued st = Inr a" "sim_transition services sid n S_Running a = Inr b"
      "sim_transition services sid n fin b = Inr c"
    and e: "st' = c \<and> fin = S_Succeeded \<and> length (ss_transitions c) \<le> limit \<or>
     (\<exists>s d. s \<in> {SimBlocked, SimFailed, SimPaused} \<and> st' = c\<lparr>ss_status := s, ss_diagnostics := d\<rparr>)"
    by (rule run_node_cases [OF assms(1)])
  have "traced sid started c" using t assms(2) sim_transition_traced by metis
  then show ?thesis using e by (auto simp: traced_def)
qed

lemma drain_traced:
  assumes "drain services g fixtures limit sid queue st = Inr st'" "traced sid started st"
  shows "traced sid started st'"
  using assms
proof (induction services g fixtures limit sid queue st rule: drain.induct)
  case (2 services g fixtures limit sid n queue st)
  show ?case
  proof (cases "os_member (ss_pending st) n")
    case True
    let ?st = "st\<lparr>ss_pending := om_remove n (ss_pending st)\<rparr>"
    obtain u where u: "run_node services g fixtures limit sid n ?st = Inr u" using "2.prems"(1) True by (auto split: sum.splits)
    have tu: "traced sid started u" using run_node_traced [OF u] "2.prems"(2) by (simp add: traced_def)
    show ?thesis
    proof (cases "ss_status u = SimRunning")
      case run: True
      then have "drain services g fixtures limit sid queue u = Inr st'" using "2.prems"(1) True u by simp
      then show ?thesis using "2.IH"(2) [OF _ u] True run tu by simp
    next
      case False
      then have "st' = u\<lparr>ss_queue := queue\<rparr>" using "2.prems"(1) True u by simp
      then show ?thesis using tu by (simp add: traced_def)
    qed
  qed (use 2 in simp)
qed (auto simp: traced_def)

lemma advance_traced: "traced sid started (advance g st) = traced sid started st"
  by (rule traced_cong) (auto simp: advance_def Let_def split: option.splits)

lemma round_traced:
  assumes "sim_round services g fixtures limit sid st = Inr st'" "traced sid started st"
  shows "traced sid started st'"
proof -
  obtain u where u: "drain services g fixtures limit sid (ss_queue st) st = Inr u" using assms(1) by (auto simp: sim_round_def)
  have tu: "traced sid started u" by (rule drain_traced [OF u assms(2)])
  obtain found v where v: "discover g fixtures (om_keys (ss_pending u)) [] u = (found, v)" by fastforce
  have tv: "traced sid started v" using discover_frame(2) [OF v] tu by (auto simp: traced_def)
  have tq: "traced sid started (v\<lparr>ss_queue := ss_queue v @ found\<rparr>)" using tv by (simp add: traced_def)
  consider "st' = u" | "st' = v" | "st' = advance g v" | "st' = v\<lparr>ss_queue := ss_queue v @ found\<rparr>"
    using assms(1) u v by (auto simp: sim_round_def split: if_splits)
  then show ?thesis using tu tv tq by cases (simp_all only: advance_traced)
qed

lemma loop_traced:
  assumes "sim_loop services g fixtures limit sid st = Inr st'" "traced sid started st"
  shows "traced sid started st' \<and> ss_status st' \<noteq> SimRunning"
  using assms
proof (induction services g fixtures limit sid st rule: sim_loop.induct)
  case (1 services g fixtures limit sid st)
  show ?case
  proof (cases "ss_status st = SimRunning")
    case False
    then show ?thesis using 1 by (simp add: sim_loop.simps)
  next
    case True
    obtain u where u: "sim_round services g fixtures limit sid st = Inr u" "sim_loop services g fixtures limit sid u = Inr st'"
      using "1.prems"(1) True by (subst (asm) sim_loop.simps) (auto split: sum.splits)
    then show ?thesis using "1.IH" [OF _ u(1) u(2)] round_traced [OF u(1) "1.prems"(2)] True by simp
  qed
qed

definition simulation_kinds :: "graph_version \<Rightarrow> string \<Rightarrow> (string \<times> node_state) list \<Rightarrow> simulation_status \<Rightarrow> event_kind list" where
  "simulation_kinds gv sid transitions status =
    SimulationStarted \<lparr>sst_simulation_id = sid, sst_graph_version = gm_version (eg_metadata (gv_graph gv)), sst_graph_hash = gv_content_hash gv\<rparr> #
    trace_kinds sid om_empty transitions @ [SimulationCompleted \<lparr>scm_simulation_id = sid, scm_status = status\<rparr>]"

lemma simulation_run_traced:
  assumes "simulation_run services gv fixtures sid = Inr st"
  shows "map nev_kind (ss_events st) = simulation_kinds gv sid (ss_transitions st) (ss_status st)"
    "ss_states st = trace_states (ss_transitions st) om_empty" "ss_status st \<noteq> SimRunning"
proof -
  let ?started = "SimulationStarted \<lparr>sst_simulation_id = sid, sst_graph_version = gm_version (eg_metadata (gv_graph gv)), sst_graph_hash = gv_content_hash gv\<rparr>"
  obtain key u key' where u: "sim_loop services (gv_graph gv) fixtures (transition_limit (gv_graph gv)) sid
        (initial_state (gv_graph gv) (simulation_event services key ?started)) = Inr u"
      "st = u\<lparr>ss_events := ss_events u @ [simulation_event services key' (SimulationCompleted \<lparr>scm_simulation_id = sid, scm_status = ss_status u\<rparr>)]\<rparr>"
    using assms by (auto simp: simulation_run_def Let_def split: if_splits)
  have "traced sid ?started (initial_state (gv_graph gv) (simulation_event services key ?started))"
    by (simp add: traced_def initial_state_def simulation_event_def trace_states_def)
  note t = loop_traced [OF u(1) this]
  then show "map nev_kind (ss_events st) = simulation_kinds gv sid (ss_transitions st) (ss_status st)"
    "ss_states st = trace_states (ss_transitions st) om_empty" "ss_status st \<noteq> SimRunning"
    by (auto simp: u(2) traced_def simulation_kinds_def simulation_event_def)
qed

text \<open>C21: A simulation always ends, and within the number of transitions estimated from the nodes and the controlled loops, at most
  5000: the step limit inside the run never trips, so the step-limit diagnostic appears exactly when the estimate itself is over
  the limit. A run reported completed has taken every declared terminal to success and every controlled loop to its limit.\<close>

theorem simulation_within_estimate:
  assumes "simulation_run services gv fixtures sid = Inr st"
  shows "ss_status st \<noteq> SimRunning \<and> length (ss_transitions st) \<le> transition_limit (gv_graph gv) \<and>
    transition_limit (gv_graph gv) \<le> 5000 \<and> length (ss_events st) = length (ss_transitions st) + 2 \<and>
    (no_step_limit (ss_diagnostics st) \<longleftrightarrow> within_step_limit (gv_graph gv)) \<and> finished (gv_graph gv) st"
proof -
  let ?g = "gv_graph gv"
  note t = simulation_run_traced [OF assms]
  have "length (map nev_kind (ss_events st)) = length (ss_transitions st) + 2" unfolding t(1) by (simp add: simulation_kinds_def)
  moreover have "transition_limit ?g \<le> 5000" by (simp add: transition_limit_def MAX_SIMULATION_TRANSITIONS_def)
  moreover have "length (ss_transitions st) \<le> transition_limit ?g \<and> (no_step_limit (ss_diagnostics st) \<longleftrightarrow> within_step_limit ?g) \<and> finished ?g st"
  proof -
    obtain started u ev where u: "sim_loop services ?g fixtures (transition_limit ?g) sid (initial_state ?g started) = Inr u"
        "st = u\<lparr>ss_events := ev\<rparr>"
      using assms by (auto simp: simulation_run_def Let_def split: if_splits)
    show ?thesis
    proof (cases "within_step_limit ?g")
      case True
      have "no_step_limit (ss_diagnostics (initial_state ?g started))" "finished ?g (initial_state ?g started)"
        using True by (simp_all add: initial_state_def no_step_limit_def finished_def)
      then have "foreseen u \<le> transition_limit ?g \<and> no_step_limit (ss_diagnostics u) \<and> finished ?g u"
        using loop_foreseen [OF u(1)] initial_foreseen [OF True, of started] by simp
      then show ?thesis using True by (simp add: u(2) foreseen_def finished_def)
    next
      case False
      then have "u = initial_state ?g started" using u(1) by (subst (asm) sim_loop.simps) (simp add: initial_state_def)
      then show ?thesis using False by (simp add: u(2) initial_state_def no_step_limit_def diagnostic_error_def finished_def)
    qed
  qed
  ultimately show ?thesis using t(3) by simp
qed


section \<open>Replaying a run\<close>

lemma trace_states_get:
  "om_get (trace_states ts m) n = (case om_get (trace_states ts om_empty) n of Some s \<Rightarrow> Some s | None \<Rightarrow> om_get m n)"
proof (induction ts rule: rev_induct)
  case (snoc t ts)
  then show ?case by (cases t) (simp add: trace_states_def)
qed (simp add: trace_states_def)

lemma fold_trace:
  assumes "map env_kind evs = trace_kinds sid states ts"
  shows "\<exists>q. fold_events env evs (p, a) = Inr (q, a) \<and> p_node_states q = trace_states ts (p_node_states p) \<and>
    p_simulation_status q = p_simulation_status p"
  using assms
proof (induction sid states ts arbitrary: evs p rule: trace_kinds.induct)
  case (1 sid states)
  then show ?case by (simp add: trace_states_def)
next
  case (2 sid states n s ts)
  then obtain ev rest where evs: "evs = ev # rest" "map env_kind rest = trace_kinds sid (om_insert n s states) ts"
      "env_kind ev = NodeStateChanged \<lparr>nsc_simulation_id = sid, nsc_node_id = n, nsc_previous_state = om_get states n, nsc_next_state = s\<rparr>"
    by (cases evs) auto
  let ?p = "(stamp_stream ev p)\<lparr>p_node_states := om_insert n s (p_node_states p)\<rparr>"
  have st: "p_node_states (stamp_stream ev p) = p_node_states p" "p_simulation_status (stamp_stream ev p) = p_simulation_status p"
    by (simp_all add: stamp_stream_def split: option.splits)
  then have step: "apply_projection_event env ev (p, a) = Inr (?p, a)"
    by (simp add: apply_projection_event_def fold_projection_def fold_node_state_changed_def evs(3) Let_def)
  obtain q where "fold_events env rest (?p, a) = Inr (q, a)" "p_node_states q = trace_states ts (p_node_states ?p)"
      "p_simulation_status q = p_simulation_status ?p"
    using 2(1) [OF evs(2), of ?p] by blast
  then show ?case using st by (simp add: fold_events_def evs(1) step trace_states_def)
qed

lemma fold_simulation:
  assumes "map env_kind evs = simulation_kinds gv sid ts status"
  shows "\<exists>q. fold_events env evs (p, a) = Inr (q, a) \<and> p_node_states q = trace_states ts (p_node_states p) \<and>
    p_simulation_status q = Some status"
proof -
  obtain ev0 mid ev1 where evs: "evs = ev0 # mid @ [ev1]" "map env_kind mid = trace_kinds sid om_empty ts"
      "env_kind ev1 = SimulationCompleted \<lparr>scm_simulation_id = sid, scm_status = status\<rparr>"
      "env_kind ev0 = SimulationStarted \<lparr>sst_simulation_id = sid, sst_graph_version = gm_version (eg_metadata (gv_graph gv)), sst_graph_hash = gv_content_hash gv\<rparr>"
    using assms unfolding simulation_kinds_def by (auto simp: map_eq_Cons_conv map_eq_append_conv)
  let ?p0 = "(stamp_stream ev0 p)\<lparr>p_simulation_status := Some SimRunning\<rparr>"
  have s0: "apply_projection_event env ev0 (p, a) = Inr (?p0, a)" "p_node_states ?p0 = p_node_states p"
    by (simp_all add: apply_projection_event_def fold_projection_def fold_simulation_started_def evs(4) Let_def stamp_stream_def split: option.splits)
  obtain q where q: "fold_events env mid (?p0, a) = Inr (q, a)" "p_node_states q = trace_states ts (p_node_states ?p0)"
    using fold_trace [OF evs(2)] by blast
  let ?q = "(stamp_stream ev1 q)\<lparr>p_simulation_status := Some status\<rparr>"
  have s1: "apply_projection_event env ev1 (q, a) = Inr (?q, a)" "p_node_states ?q = p_node_states q"
    by (simp_all add: apply_projection_event_def fold_projection_def fold_simulation_completed_def evs(3) Let_def stamp_stream_def split: option.splits)
  have "fold_events env evs (p, a) = Inr (?q, a)"
    using q(1) by (simp add: fold_events_def evs(1) s0(1) foldE_append s1(1))
  then show ?thesis using q(2) s0(2) s1(2) by (intro exI [of _ ?q]) simp
qed


section \<open>Where a run is written\<close>

lemma simulation_request_Inr:
  assumes "simulation_request services repo st s = Inr r"
  obtains n where "rep_next_sequence repo s (ssv_scope services) (ssv_stream_id services) = Inr n"
    "pap_scope r = ssv_scope services" "pap_stream_id r = ssv_stream_id services" "pap_expected_next_sequence r = n"
    "pap_events r = ss_events st" "pap_artifacts r = []"
  using assms that by (auto simp: simulation_request_def dest!: prepared_append_new_Inr)

context event_log
begin

lemma simulate_lands:
  assumes "valid s" "later s (meanwhile s)" "distinguished (meanwhile s) (ssv_scope services) (ssv_stream_id services)"
    and sim: "simulate services repo meanwhile gv fixtures next_id now s = (res, s')"
  shows "log_of s' \<in> {log_of s, log_of (meanwhile s)} \<or>
    (\<exists>st r. simulation_run services gv fixtures next_id = Inr st \<and> res = Inr r \<and> sr_status r = ss_status st \<and>
      sr_node_states r = ss_states st \<and> map env_kind (sr_events r) = map nev_kind (ss_events st) \<and>
      log_of s' (ssv_scope services) (ssv_stream_id services) =
        log_of s (ssv_scope services) (ssv_stream_id services) @ sr_events r)"
proof (cases "\<exists>st r. simulation_run services gv fixtures next_id = Inr st \<and> simulation_request services repo st s = Inr r")
  case False
  then have "s' = s" using sim by (auto simp: simulate_def split: sum.splits)
  then show ?thesis by simp
next
  case True
  then obtain st r where r: "simulation_run services gv fixtures next_id = Inr st" "simulation_request services repo st s = Inr r" by blast
  obtain n where f: "rep_next_sequence repo s (ssv_scope services) (ssv_stream_id services) = Inr n"
    "pap_scope r = ssv_scope services" "pap_stream_id r = ssv_stream_id services" "pap_expected_next_sequence r = n"
    "pap_events r = ss_events st" "pap_artifacts r = []"
    by (rule simulation_request_Inr [OF r(2)])
  have d: "distinguished (meanwhile s) (pap_scope r) (pap_stream_id r)" using assms(3) f by simp
  have seq: "unat (pap_expected_next_sequence r) = Suc (length (log_of s (pap_scope r) (pap_stream_id r)))"
    using next_exact [OF assms(1) later_distinguished [OF assms(2,3)] f(1)] f by simp
  obtain res1 s1 where a: "rep_append_atomic repo r (meanwhile s) = (res1, s1)" by fastforce
  then have s1: "s' = s1" using sim r by (auto simp: simulate_def split: sum.splits)
  show ?thesis
  proof (cases res1)
    case (Inl e)
    have "valid (meanwhile s)" using later_exact [OF assms(1,2)] by blast
    from append_exact [OF this d f(6) a] have "log_of s1 = log_of (meanwhile s)" by (simp add: Inl)
    then show ?thesis by (simp add: s1)
  next
    case (Inr evs)
    have "res = Inr \<lparr>sr_simulation_id = next_id, sr_started_at = now, sr_status = ss_status st, sr_node_states = ss_states st,
        sr_diagnostics = ss_diagnostics st, sr_events = evs, sr_transitions = ss_transitions st\<rparr>"
      using sim r a Inr by (simp add: simulate_def)
    moreover note requested_kinds [of evs "ss_events st"]
    ultimately show ?thesis
      using lands_where_read [OF assms(1,2) d f(6) seq a [unfolded Inr]] r(1) s1 f by auto
  qed
qed

end

text \<open>C22: A simulation writes its whole run at the end of the stream it read or writes nothing; replaying what it wrote leaves the
  projection with the status and the node states the run returned, and every other node as it was.\<close>

theorem simulate_journal:
  assumes "store_reachable env store" "store_later env store (meanwhile store)"
    and "stream_distinguished env (meanwhile store) (ssv_scope services) (ssv_stream_id services)"
  shows "case simulate services (local_repository env at ids) meanwhile gv fixtures next_id now store of (res, store') \<Rightarrow>
    stream_log store' \<in> {stream_log store, stream_log (meanwhile store)} \<or>
    (\<exists>r. res = Inr r \<and>
      stream_log store' (ssv_scope services) (ssv_stream_id services) =
        stream_log store (ssv_scope services) (ssv_stream_id services) @ sr_events r \<and>
      (\<exists>q. fold_events fenv (sr_events r) (p, a) = Inr (q, a) \<and> p_simulation_status q = Some (sr_status r) \<and>
        (\<forall>n. om_get (p_node_states q) n =
          (case om_get (sr_node_states r) n of Some s \<Rightarrow> Some s | None \<Rightarrow> om_get (p_node_states p) n))))"
proof (rule prod.exhaust [of "simulate services (local_repository env at ids) meanwhile gv fixtures next_id now store"])
  fix res store'
  assume sim: "simulate services (local_repository env at ids) meanwhile gv fixtures next_id now store = (res, store')"
  from store_log.simulate_lands [OF assms sim]
  show ?thesis
  proof (elim disjE exE conjE)
    fix st r
    assume st: "simulation_run services gv fixtures next_id = Inr st" and r: "res = Inr r" "sr_status r = ss_status st"
        "sr_node_states r = ss_states st" "map env_kind (sr_events r) = map nev_kind (ss_events st)"
      and l: "stream_log store' (ssv_scope services) (ssv_stream_id services) =
        stream_log store (ssv_scope services) (ssv_stream_id services) @ sr_events r"
    note t = simulation_run_traced [OF st]
    have "map env_kind (sr_events r) = simulation_kinds gv next_id (ss_transitions st) (ss_status st)" using t r(4) by simp
    from fold_simulation [OF this, of fenv p a] obtain q where q: "fold_events fenv (sr_events r) (p, a) = Inr (q, a)"
        "p_node_states q = trace_states (ss_transitions st) (p_node_states p)" "p_simulation_status q = Some (ss_status st)"
      by blast
    have "om_get (p_node_states q) n = (case om_get (sr_node_states r) n of Some s \<Rightarrow> Some s | None \<Rightarrow> om_get (p_node_states p) n)" for n
      using trace_states_get [of "ss_transitions st" "p_node_states p" n] t by (simp add: q(2) r(3))
    then show ?thesis using q l r by (auto simp: sim)
  qed (auto simp: sim)
qed

end
