(* ===== verification/Customs.thy ===== *)
theory Customs
  imports Fold_Invariants
begin

text \<open>
  The customs desk, as pure decisions over a projection: which stages are overdue (\<open>overdue_at\<close> of
  \<open>core/events/src/projection.rs\<close>), what the claim verb answers (\<open>decide_claim\<close> of
  \<open>core/events/src/customs.rs\<close>), what the status surface shows and which nodes gate their own
  completion (\<open>core/execution/src/customs.rs\<close>). The lemmas relate each decision to the fold of the
  event it leads to.
\<close>

section \<open>Overdue stages\<close>

record overdue_stage =
  ods_node :: string
  ods_episode_seq :: u64
  ods_deadline :: timestamp
  ods_claim_seq :: "u64 option"

definition overdue_at :: "execution_projection \<Rightarrow> timestamp \<Rightarrow> overdue_stage list" where
  "overdue_at p t =
    (let claimed_waits = os_of_list (map oc_completes_wait_seq (om_values (p_open_claims p)));
         waits = List.map_filter (\<lambda>(n, w).
           if os_member claimed_waits (ow_at_sequence w) \<or> os_member (p_exception_marked p) (ow_at_sequence w)
           then None
           else case ow_deadline w of None \<Rightarrow> None
             | Some d \<Rightarrow> if d \<le> t then Some \<lparr>ods_node = n, ods_episode_seq = ow_at_sequence w,
                                     ods_deadline = d, ods_claim_seq = None\<rparr> else None)
           (om_entries (p_open_waits p));
         claims = List.map_filter (\<lambda>(c, cl).
           if os_member (p_exception_marked p) (oc_stage_entered_at cl) then None
           else case oc_deadline cl of None \<Rightarrow> None
             | Some d \<Rightarrow> if d \<le> t then Some \<lparr>ods_node = oc_node cl, ods_episode_seq = oc_stage_entered_at cl,
                                     ods_deadline = d, ods_claim_seq = Some c\<rparr> else None)
           (om_entries (p_open_claims p)) in
     sort_key ods_episode_seq (waits @ claims))"


section \<open>The claim decision\<close>

definition NOT_WAITING :: string where "NOT_WAITING = ''not_waiting''"
definition STALE_RENDEZVOUS :: string where "STALE_RENDEZVOUS = ''stale_rendezvous''"
definition UNKNOWN_WAIT :: string where "UNKNOWN_WAIT = ''unknown_wait''"
definition DUPLICATE_COMPLETION :: string where "DUPLICATE_COMPLETION = ''duplicate_completion''"
definition EVIDENCE_BUDGET_UNMET :: string where "EVIDENCE_BUDGET_UNMET = ''evidence_budget_unmet''"

lemmas refusal_names = NOT_WAITING_def STALE_RENDEZVOUS_def UNKNOWN_WAIT_def DUPLICATE_COMPLETION_def
  EVIDENCE_BUDGET_UNMET_def

record claim_request =
  clr_node :: string
  clr_completes_wait_seq :: "u64 option"
  clr_evidence :: "claim_evidence list"
  clr_attestation :: claim_attestation
  clr_required_proof_kinds :: "string list"

definition parked_at :: "execution_projection \<Rightarrow> string \<Rightarrow> u64 \<Rightarrow> bool" where
  "parked_at p node named =
    (case om_get (p_customs_scans p) node of None \<Rightarrow> False
     | Some scans \<Rightarrow> list_ex (\<lambda>s. csn_stage s = Parked \<and> csn_at_sequence s = named) scans)"

definition resolve_wait ::
  "execution_projection \<Rightarrow> claim_request \<Rightarrow> (string \<times> u64 option) + u64" where
  "resolve_wait p r =
    (let opn = map_option ow_at_sequence (om_get (p_open_waits p) (clr_node r)) in
     case (clr_completes_wait_seq r, opn) of
       (None, Some w) \<Rightarrow> Inr w
     | (Some named, w) \<Rightarrow>
         if w = Some named then Inr named
         else Inl (if parked_at p (clr_node r) named then STALE_RENDEZVOUS else UNKNOWN_WAIT, Some named)
     | (None, None) \<Rightarrow> Inl (UNKNOWN_WAIT, None))"

definition decide_claim ::
  "execution_projection \<Rightarrow> claim_request \<Rightarrow> (string \<times> u64 option) + u64" where
  "decide_claim p r =
    (let node = clr_node r;
         state = (case om_get (p_node_states p) node of None \<Rightarrow> S_Draft | Some s \<Rightarrow> s) in
     if state \<noteq> S_WaitingInput then Inl (NOT_WAITING, clr_completes_wait_seq r)
     else
       bindE (resolve_wait p r) (\<lambda>wait_seq.
       if list_ex (\<lambda>c. oc_node c = node) (om_values (p_open_claims p))
       then Inl (DUPLICATE_COMPLETION, Some wait_seq)
       else
         let presented = os_of_list (map ce_kind (clr_evidence r)) in
         if list_ex (\<lambda>k. \<not> os_member presented k) (clr_required_proof_kinds r)
         then Inl (EVIDENCE_BUDGET_UNMET, Some wait_seq)
         else Inr wait_seq))"


section \<open>The status view\<close>

record open_claim_view =
  ocv_claim_seq :: u64
  ocv_completes_wait_seq :: u64
  ocv_stage_entered_at :: u64
  ocv_deadline :: "timestamp option"
  ocv_evidence_digest :: string

record node_customs_view =
  ncv_scans :: "customs_scan list"
  ncv_open_wait :: "open_wait option"
  ncv_open_claim :: "open_claim_view option"
  ncv_additional_open_claim_seqs :: "u64 list"

record customs_view =
  cuv_quarantined_nodes :: "string list"
  cuv_nodes :: "(string, node_customs_view) omap"
  cuv_clearances :: "(u64, clearance_outcome) omap"

definition open_claim_view_of :: "u64 \<times> open_claim \<Rightarrow> open_claim_view" where
  "open_claim_view_of e =
    \<lparr>ocv_claim_seq = fst e, ocv_completes_wait_seq = oc_completes_wait_seq (snd e),
     ocv_stage_entered_at = oc_stage_entered_at (snd e), ocv_deadline = oc_deadline (snd e),
     ocv_evidence_digest = oc_evidence_digest (snd e)\<rparr>"

definition node_customs_view_of :: "execution_projection \<Rightarrow> string \<Rightarrow> node_customs_view" where
  "node_customs_view_of p name =
    (let open_on_node = filter (\<lambda>(_, c). oc_node c = name) (om_entries (p_open_claims p)) in
     \<lparr>ncv_scans = (case om_get (p_customs_scans p) name of None \<Rightarrow> [] | Some s \<Rightarrow> s),
      ncv_open_wait = om_get (p_open_waits p) name,
      ncv_open_claim = (case open_on_node of [] \<Rightarrow> None | e # _ \<Rightarrow> Some (open_claim_view_of e)),
      ncv_additional_open_claim_seqs = map fst (tl open_on_node)\<rparr>)"

definition customs_view_of :: "execution_projection \<Rightarrow> customs_view" where
  "customs_view_of p =
    (let names = os_of_list (om_keys (p_customs_scans p) @ om_keys (p_open_waits p)
                   @ map oc_node (om_values (p_open_claims p))) in
     \<lparr>cuv_quarantined_nodes = remdups_adj (sort (map oc_node (om_values (p_open_claims p)))),
      cuv_nodes = fold (\<lambda>n m. om_insert n (node_customs_view_of p n) m) (om_keys names) om_empty,
      cuv_clearances = p_clearances p\<rparr>)"


section \<open>Gated completion\<close>

definition completion_is_gated :: "(json \<Rightarrow> 'err + node_customs) \<Rightarrow> graph_node \<Rightarrow> bool" where
  "completion_is_gated decode node =
    (case customs decode node of
       Inr (Some c) \<Rightarrow> nc_proof_kinds c \<noteq> []
     | Inr None \<Rightarrow> False
     | Inl _ \<Rightarrow> True)"

definition completion_is_gated_in :: "(json \<Rightarrow> 'err + node_customs) \<Rightarrow> graph_spec \<Rightarrow> string \<Rightarrow> bool" where
  "completion_is_gated_in decode spec node =
    (case om_get (gs_nodes spec) node of None \<Rightarrow> False | Some n \<Rightarrow> completion_is_gated decode n)"

definition unreadable_customs_nodes :: "(json \<Rightarrow> 'err + node_customs) \<Rightarrow> graph_spec \<Rightarrow> string list" where
  "unreadable_customs_nodes decode spec =
    map fst (filter (\<lambda>(_, n). isl (customs decode n)) (om_entries (gs_nodes spec)))"



section \<open>Lemmas on overdue stages\<close>

text \<open>The two ways a stage is overdue, as predicates on the maps.\<close>

definition overdue_wait :: "execution_projection \<Rightarrow> timestamp \<Rightarrow> overdue_stage \<Rightarrow> bool" where
  "overdue_wait p t s \<longleftrightarrow>
    (\<exists>w. om_get (p_open_waits p) (ods_node s) = Some w \<and> ow_at_sequence w = ods_episode_seq s \<and>
      ow_deadline w = Some (ods_deadline s)) \<and>
    ods_deadline s \<le> t \<and> ods_claim_seq s = None \<and>
    \<not> os_member (p_exception_marked p) (ods_episode_seq s) \<and>
    (\<nexists>c claim. om_get (p_open_claims p) c = Some claim \<and> oc_completes_wait_seq claim = ods_episode_seq s)"

definition overdue_claim :: "execution_projection \<Rightarrow> timestamp \<Rightarrow> overdue_stage \<Rightarrow> bool" where
  "overdue_claim p t s \<longleftrightarrow>
    (\<exists>c claim. om_get (p_open_claims p) c = Some claim \<and> ods_claim_seq s = Some c \<and>
      oc_node claim = ods_node s \<and> oc_stage_entered_at claim = ods_episode_seq s \<and>
      oc_deadline claim = Some (ods_deadline s)) \<and>
    ods_deadline s \<le> t \<and> \<not> os_member (p_exception_marked p) (ods_episode_seq s)"

lemma in_om_values: "v \<in> set (om_values m) \<longleftrightarrow> (\<exists>k. om_get m k = Some v)"
  by (force simp: om_values_def om_in_entries [symmetric])

lemma set_overdue_at: "s \<in> set (overdue_at p t) \<longleftrightarrow> overdue_wait p t s \<or> overdue_claim p t s"
proof -
  have w: "(\<exists>n w. om_get (p_open_waits p) n = Some w \<and>
      \<not> (\<exists>c claim. om_get (p_open_claims p) c = Some claim \<and> oc_completes_wait_seq claim = ow_at_sequence w) \<and>
      \<not> os_member (p_exception_marked p) (ow_at_sequence w) \<and>
      (\<exists>d. ow_deadline w = Some d \<and> d \<le> t \<and>
        \<lparr>ods_node = n, ods_episode_seq = ow_at_sequence w, ods_deadline = d, ods_claim_seq = None\<rparr> = s)) \<longleftrightarrow>
      overdue_wait p t s"
    unfolding overdue_wait_def by (cases s) auto
  have c: "(\<exists>c cl. om_get (p_open_claims p) c = Some cl \<and> \<not> os_member (p_exception_marked p) (oc_stage_entered_at cl) \<and>
      (\<exists>d. oc_deadline cl = Some d \<and> d \<le> t \<and>
        \<lparr>ods_node = oc_node cl, ods_episode_seq = oc_stage_entered_at cl, ods_deadline = d, ods_claim_seq = Some c\<rparr> = s)) \<longleftrightarrow>
      overdue_claim p t s"
    unfolding overdue_claim_def by (cases s) auto
  have member: "os_member (os_of_list (map oc_completes_wait_seq (om_values (p_open_claims p)))) n \<longleftrightarrow>
      (\<exists>c claim. om_get (p_open_claims p) c = Some claim \<and> oc_completes_wait_seq claim = n)" for n
    using in_om_values [of _ "p_open_claims p"] by (simp add: image_iff) blast
  have G: "(if m then None else case d of None \<Rightarrow> None | Some d \<Rightarrow> if d \<le> t then Some (f d) else None) = Some s \<longleftrightarrow>
      \<not> m \<and> (\<exists>d'. d = Some d' \<and> d' \<le> t \<and> f d' = s)" for m d and f :: "int \<Rightarrow> overdue_stage"
    by (auto split: option.splits)
  show ?thesis
    unfolding w [symmetric] c [symmetric] overdue_at_def Let_def set_sort set_append Un_iff
      set_map_filter Bex_def split_paired_Ex om_in_entries prod.case member G de_Morgan_disj conj_assoc ..
qed

lemma sorted_overdue_at: "sorted (map ods_episode_seq (overdue_at p t))"
  by (simp add: overdue_at_def Let_def)

text \<open>Marking episodes only removes their stages.\<close>

lemma map_filter_filter:
  assumes "\<And>x. g x = (case f x of None \<Rightarrow> None | Some y \<Rightarrow> if P y then Some y else None)"
  shows "List.map_filter g xs = filter P (List.map_filter f xs)"
  by (induction xs) (auto simp: List.map_filter_def assms split: option.splits if_splits)

lemma filter_sort_key: "filter P (sort_key f xs) = sort_key f (filter P xs)"
  by (rule filter_sort)

lemma overdue_at_marked:
  "overdue_at (p\<lparr>p_exception_marked := m\<rparr>) t =
    filter (\<lambda>s. \<not> os_member m (ods_episode_seq s)) (overdue_at p t)"
  if "\<And>e. os_member (p_exception_marked p) e \<Longrightarrow> os_member m e"
proof -
  have split: "a @ c = filter P b @ filter P d" if "a = filter P b" "c = filter P d" for a b c d :: "'x list" and P
    using that by simp
  have sel: "p_open_waits (p\<lparr>p_exception_marked := m\<rparr>) = p_open_waits p"
    "p_open_claims (p\<lparr>p_exception_marked := m\<rparr>) = p_open_claims p" "p_exception_marked (p\<lparr>p_exception_marked := m\<rparr>) = m"
    by simp_all
  show ?thesis
    unfolding overdue_at_def Let_def filter_sort_key filter_append sel
    by (rule arg_cong [of _ _ "sort_key ods_episode_seq"], rule split; rule map_filter_filter)
      (auto dest: that split: option.splits if_splits)
qed

text \<open>The mark of an episode is never removed, so a spent episode stays spent over any continuation.\<close>

definition marks_kept :: "execution_projection \<Rightarrow> execution_projection \<Rightarrow> bool" where
  "marks_kept p q \<longleftrightarrow> (\<forall>e. os_member (p_exception_marked p) e \<longrightarrow> os_member (p_exception_marked q) e)"

lemma fold_projection_marks: "fold_projection env ev p = Inr q \<Longrightarrow> marks_kept p q"
proof (cases "env_kind ev")
  case (OverdueException pl)
  then show "fold_projection env ev p = Inr q \<Longrightarrow> marks_kept p q"
    by (auto simp: fold_projection_def fold_overdue_exception_def marks_kept_def split: if_splits)
qed (auto simp: fold_projection_def marks_kept_def dest!: fold_frames)

lemma marks_kept_step:
  assumes "apply_projection_event env ev (p, a) = Inr (q, b)"
  shows "marks_kept p q"
proof -
  obtain x r y where r: "fold_projection env ev (p\<lparr>p_stream_id := x\<rparr>) = Inr r" "q = r\<lparr>p_legal_holds := y\<rparr>"
    using assms by (rule apply_event_arm)
  from fold_projection_marks [OF r(1)] show ?thesis by (simp add: r(2) marks_kept_def)
qed

lemma marks_kept_fold: "fold_events env evs (p, a) = Inr (q, b) \<Longrightarrow> marks_kept p q"
proof (induction evs arbitrary: p a)
  case Nil
  then show ?case by (simp add: marks_kept_def)
next
  case (Cons ev evs)
  then obtain p1 a1 where s: "apply_projection_event env ev (p, a) = Inr (p1, a1)" "fold_events env evs (p1, a1) = Inr (q, b)"
    by (auto simp: fold_events_def)
  from marks_kept_step [OF s(1)] Cons.IH [OF s(2)] show ?case by (auto simp: marks_kept_def)
qed

text \<open>The exceptions a sweep records: one per overdue stage.\<close>

definition exception_for :: "overdue_stage \<Rightarrow> event_envelope \<Rightarrow> bool" where
  "exception_for s ev \<longleftrightarrow> (\<exists>pl. env_kind ev = OverdueException pl \<and> oex_episode_sequence pl = ods_episode_seq s)"

lemma exceptions_fold:
  assumes "list_all2 exception_for ss evs" and "fold_events env evs (p, a) = Inr (q, b)"
  shows "\<exists>x. q = p\<lparr>p_stream_id := x, p_exception_marked := fold os_insert (map ods_episode_seq ss) (p_exception_marked p)\<rparr>"
  using assms
proof (induction ss evs arbitrary: p a rule: list_all2_induct)
  case Nil
  then have "q = p" by simp
  then have "q = p\<lparr>p_stream_id := p_stream_id p, p_exception_marked := fold os_insert (map ods_episode_seq []) (p_exception_marked p)\<rparr>"
    by simp
  then show ?case by blast
next
  case (Cons s ss ev evs)
  then obtain p1 a1 where f: "apply_projection_event env ev (p, a) = Inr (p1, a1)" "fold_events env evs (p1, a1) = Inr (q, b)"
    by (auto simp: fold_events_def)
  obtain pl where pl: "env_kind ev = OverdueException pl" "oex_episode_sequence pl = ods_episode_seq s"
    using Cons.hyps(1) by (auto simp: exception_for_def)
  obtain y where y: "stamp_stream ev p = p\<lparr>p_stream_id := y\<rparr>" using stamp_stream_fields by blast
  have "p1 = p\<lparr>p_stream_id := y, p_exception_marked := os_insert (ods_episode_seq s) (p_exception_marked p)\<rparr>"
    using f(1) by (auto simp: apply_projection_event_def fold_projection_def fold_overdue_exception_def pl y Let_def
        split: if_splits)
  with Cons.IH [OF f(2)] show ?case by auto
qed


section \<open>Lemmas on claims\<close>

lemma any_claim_on: "list_ex (\<lambda>c. oc_node c = node) (om_values (p_open_claims p)) \<longleftrightarrow>
    (\<exists>k c. om_get (p_open_claims p) k = Some c \<and> oc_node c = node)"
  using in_om_values [of _ "p_open_claims p"] by (simp add: list_ex_iff) blast

lemma resolve_wait_Inr: "resolve_wait p r = Inr w \<longleftrightarrow>
    map_option ow_at_sequence (om_get (p_open_waits p) (clr_node r)) = Some w \<and>
    clr_completes_wait_seq r \<in> {None, Some w}"
  by (auto simp: resolve_wait_def Let_def split: option.splits if_splits)

lemma decide_claim_Inr: "decide_claim p r = Inr w \<longleftrightarrow>
    om_get (p_node_states p) (clr_node r) = Some S_WaitingInput \<and>
    map_option ow_at_sequence (om_get (p_open_waits p) (clr_node r)) = Some w \<and>
    clr_completes_wait_seq r \<in> {None, Some w} \<and>
    (\<nexists>k c. om_get (p_open_claims p) k = Some c \<and> oc_node c = clr_node r) \<and>
    set (clr_required_proof_kinds r) \<subseteq> ce_kind ` set (clr_evidence r)"
  unfolding decide_claim_def Let_def any_claim_on bindE_ensure
  by (auto simp: resolve_wait_Inr list_ex_iff split: option.splits if_splits)

lemma decide_claim_codes: "decide_claim p r = Inl (code, w) \<Longrightarrow>
    code \<in> {NOT_WAITING, STALE_RENDEZVOUS, UNKNOWN_WAIT, DUPLICATE_COMPLETION, EVIDENCE_BUDGET_UNMET}"
  by (auto simp: decide_claim_def Let_def bindE_eq_Inl resolve_wait_def split: option.splits if_splits)

lemma refusals_registered:
  "set [NOT_WAITING, STALE_RENDEZVOUS, UNKNOWN_WAIT, DUPLICATE_COMPLETION, EVIDENCE_BUDGET_UNMET]
    \<subseteq> set REFUSAL_REASON_CODES"
  by (simp add: refusal_names REFUSAL_REASON_CODES_def)


section \<open>Properties\<close>

text \<open>The overdue query is exact. In episode order it lists the unclaimed waits and the open claims whose
  declared deadline has come (a stage is overdue at its deadline, a stage without one never is) and
  whose episode has raised no exception; a wait that an open claim answers is not listed.\<close>

theorem overdue_exact:
  "sorted (map ods_episode_seq (overdue_at p t)) \<and>
   set (overdue_at p t) = {s. overdue_wait p t s} \<union> {s. overdue_claim p t s}"
  using sorted_overdue_at [of p t] set_overdue_at [of _ p t] by blast

lemma overdue_unmarked: "s \<in> set (overdue_at r u) \<Longrightarrow> \<not> os_member (p_exception_marked r) (ods_episode_seq s)"
  by (auto simp: set_overdue_at overdue_wait_def overdue_claim_def)

lemma exceptions_spend:
  assumes "list_all2 exception_for (overdue_at p t) evs" and "fold_events env evs (p, a) = Inr (p1, a1)"
  shows "overdue_at p1 u = filter (\<lambda>s. ods_episode_seq s \<notin> ods_episode_seq ` set (overdue_at p t)) (overdue_at p u)"
    "overdue_at p1 t = []" "e \<in> ods_episode_seq ` set (overdue_at p t) \<Longrightarrow> os_member (p_exception_marked p1) e"
proof -
  let ?m = "fold os_insert (map ods_episode_seq (overdue_at p t)) (p_exception_marked p)"
  obtain x where x: "p1 = p\<lparr>p_stream_id := x, p_exception_marked := ?m\<rparr>" using exceptions_fold [OF assms] by blast
  have same: "overdue_at (r\<lparr>p_stream_id := x\<rparr>) u = overdue_at r u" for r u by (simp add: overdue_at_def)
  have m: "os_member ?m e \<longleftrightarrow> e \<in> ods_episode_seq ` set (overdue_at p t) \<or> os_member (p_exception_marked p) e" for e
    by (simp add: os_member_fold_insert)
  show eq: "overdue_at p1 u = filter (\<lambda>s. ods_episode_seq s \<notin> ods_episode_seq ` set (overdue_at p t)) (overdue_at p u)" for u
    using overdue_at_marked [of "p\<lparr>p_stream_id := x\<rparr>" ?m u] overdue_unmarked [of _ p u] unfolding x same [of p]
    by (auto simp: m intro!: filter_cong)
  show "overdue_at p1 t = []" unfolding eq by (simp add: filter_empty_conv)
  show "os_member (p_exception_marked p1) e" if "e \<in> ods_episode_seq ` set (overdue_at p t)"
    using that by (simp add: x m)
qed

text \<open>The episodes for which a journal holds an exception: exactly the marks of its projection.\<close>

definition excepted :: "event_envelope list \<Rightarrow> u64 set" where
  "excepted evs = {oex_episode_sequence pl | pl. OverdueException pl \<in> env_kind ` set evs}"

abbreviation marked_episodes :: "execution_projection \<Rightarrow> u64 set" where
  "marked_episodes p \<equiv> {e. os_member (p_exception_marked p) e}"

lemma excepted_simps [simp]:
  "excepted [] = {}" "excepted (xs @ ys) = excepted xs \<union> excepted ys"
  by (auto simp: excepted_def)

lemma excepted_Cons: "excepted (ev # evs) = excepted [ev] \<union> excepted evs"
  by (auto simp: excepted_def)

lemma excepted_single: "excepted [ev] = (case env_kind ev of OverdueException pl \<Rightarrow> {oex_episode_sequence pl} | _ \<Rightarrow> {})"
  by (auto simp: excepted_def split: event_kind.split)

lemma fold_projection_marked:
  assumes "fold_projection env ev p = Inr q"
  shows "marked_episodes q = marked_episodes p \<union> excepted [ev]"
proof (cases "env_kind ev")
  case (OverdueException pl)
  then show ?thesis using assms
    by (auto simp: fold_projection_def fold_overdue_exception_def excepted_single split: if_splits)
qed (use assms in \<open>auto simp: fold_projection_def excepted_single dest!: fold_frames\<close>)

lemma fold_events_marked:
  "fold_events env evs (p, a) = Inr (q, b) \<Longrightarrow> marked_episodes q = marked_episodes p \<union> excepted evs"
proof (induction evs arbitrary: p a)
  case (Cons ev evs)
  then obtain p1 a1 where s: "apply_projection_event env ev (p, a) = Inr (p1, a1)" "fold_events env evs (p1, a1) = Inr (q, b)"
    by (auto simp: fold_events_def)
  obtain x r y where "fold_projection env ev (p\<lparr>p_stream_id := x\<rparr>) = Inr r" "p1 = r\<lparr>p_legal_holds := y\<rparr>"
    using s(1) by (rule apply_event_arm)
  then have "marked_episodes p1 = marked_episodes p \<union> excepted [ev]"
    using fold_projection_marked [of env ev "p\<lparr>p_stream_id := x\<rparr>" r] by simp
  then show ?case using Cons.IH [OF s(2)] by (subst excepted_Cons) (simp only: Un_assoc)
qed simp

text \<open>Nothing keeps a second exception for an episode out of the journal: folding it is accepted and changes nothing.\<close>

lemma repeated_exception:
  assumes "env_kind ev = OverdueException pl" "p_execution_id p = Some (oex_execution_id pl)"
    "os_member (p_exception_marked p) (oex_episode_sequence pl)"
  shows "fold_projection env ev p = Inr p"
proof -
  have "os_insert (oex_episode_sequence pl) (p_exception_marked p) = p_exception_marked p"
    using assms(3) by (intro om_ext) (auto simp: os_member_def os_insert_def om_contains_def)
  then show ?thesis using assms
    by (simp add: fold_projection_def fold_overdue_exception_def in_execution_def full_for_def os_member_def)
qed

text \<open>C40: an exception spends its episode. In every projection of a journal the marks are exactly the episodes for which the
  journal holds an exception, and the overdue query lists none of these, at any instant; so once a sweep's exceptions, one per
  overdue stage of an instant, are in the journal, the query has lost exactly those episodes, at every instant, and no
  continuation lists one of them again. A further exception for a spent episode, as two racing sweeps can record, is accepted and
  changes nothing.\<close>

theorem sweep_spends_episodes:
  assumes "from_genesis env evs = Inr (p, a)" and "list_all2 exception_for (overdue_at p t) swept"
    and "fold_events env swept (p, a) = Inr (p1, a1)" and "fold_events env rest (p1, a1) = Inr (q, b)"
  shows "marked_episodes q = excepted (evs @ swept @ rest) \<and>
    ods_episode_seq ` set (overdue_at q t') \<inter> excepted (evs @ swept @ rest) = {} \<and>
    overdue_at p1 t' = filter (\<lambda>s. ods_episode_seq s \<notin> ods_episode_seq ` set (overdue_at p t)) (overdue_at p t') \<and>
    overdue_at p1 t = [] \<and> excepted swept = ods_episode_seq ` set (overdue_at p t) \<and>
    (env_kind ev = OverdueException pl \<and> p_execution_id q = Some (oex_execution_id pl) \<and>
      oex_episode_sequence pl \<in> excepted (evs @ swept @ rest) \<longrightarrow> fold_projection env ev q = Inr q)"
proof -
  have marks: "marked_episodes q = excepted (evs @ swept @ rest)"
    using fold_events_marked [OF assms(1)] fold_events_marked [OF assms(3)] fold_events_marked [OF assms(4)]
    by (simp only: excepted_simps Un_assoc) (auto simp: default_projection_def)
  have "ods_episode_seq ` set (overdue_at q t') \<inter> excepted (evs @ swept @ rest) = {}"
    using overdue_unmarked [of _ q t'] unfolding marks [symmetric] by blast
  moreover have "excepted swept = ods_episode_seq ` set (overdue_at p t)" using assms(2)
    by (induction rule: list_all2_induct) (simp, subst excepted_Cons, auto simp: exception_for_def excepted_single)
  ultimately show ?thesis
    using marks exceptions_spend(1,2) [OF assms(2,3)] repeated_exception [of ev pl q env] by blast
qed

text \<open>C31: a claim is answered exactly. It is accepted iff its node waits for input, the claim names the open wait (or
  none), no claim is open on the node and every declared proof kind is presented; every refusal
  carries a code of the closed registry, so building the refusal event cannot fail.\<close>

theorem claim_decided_exactly:
  "(decide_claim p r = Inr w \<longleftrightarrow>
    om_get (p_node_states p) (clr_node r) = Some S_WaitingInput \<and>
    map_option ow_at_sequence (om_get (p_open_waits p) (clr_node r)) = Some w \<and>
    clr_completes_wait_seq r \<in> {None, Some w} \<and>
    (\<nexists>k c. om_get (p_open_claims p) k = Some c \<and> oc_node c = clr_node r) \<and>
    set (clr_required_proof_kinds r) \<subseteq> ce_kind ` set (clr_evidence r)) \<and>
   (case decide_claim p r of Inr _ \<Rightarrow> True
    | Inl (code, _) \<Rightarrow> code \<in> set REFUSAL_REASON_CODES \<and> safe_code_parse code = Inr code)"
proof -
  have "code \<in> set REFUSAL_REASON_CODES \<and> safe_code_parse code = Inr code" if "decide_claim p r = Inl (code, v)" for code v
  proof
    show c: "code \<in> set REFUSAL_REASON_CODES" using decide_claim_codes [OF that] refusals_registered by auto
    then show "safe_code_parse code = Inr code" using refusal_reason_codes_valid by (simp add: list_all_iff)
  qed
  then show ?thesis unfolding decide_claim_Inr by (auto split: sum.split)
qed

lemma accepted_claim_fold:
  assumes "decide_claim p r = Inr w"
    and "fold_completion_claimed env ev \<lparr>ccl_execution_id = e, ccl_node = clr_node r, ccl_completes_wait_seq = w,
           ccl_evidence = clr_evidence r, ccl_attestation = clr_attestation r\<rparr> p = Inr q"
  obtains c y where "q = p\<lparr>p_open_claims := om_insert (env_sequence ev) c (p_open_claims p), p_customs_scans := y\<rparr>"
    "oc_node c = clr_node r" "oc_completes_wait_seq c = w" "oc_stage_entered_at c = env_sequence ev"
    "oc_evidence_digest c = claim_evidence_digest env (clr_evidence r)"
proof -
  have ans: "(case om_get (p_open_waits p) (clr_node r) of None \<Rightarrow> False | Some x \<Rightarrow> ow_at_sequence x = w)"
    using assms(1) by (auto simp: decide_claim_Inr split: option.splits)
  let ?pl = "\<lparr>ccl_execution_id = e, ccl_node = clr_node r, ccl_completes_wait_seq = w,
           ccl_evidence = clr_evidence r, ccl_attestation = clr_attestation r\<rparr>"
  have ans': "(case om_get (p_open_waits p) (ccl_node ?pl) of None \<Rightarrow> False
      | Some x \<Rightarrow> ow_at_sequence x = ccl_completes_wait_seq ?pl) = True"
    using ans by (simp split: option.splits)
  show thesis
    using assms(2) that unfolding fold_completion_claimed_def Let_def ans'
    by (auto split: if_splits dest!: record_scan_Inr)
qed

text \<open>A claim holds its node, it never releases it. When the decision accepts a claim, folding its event
  opens exactly that claim, moves no node and closes no wait; until the claim is settled every
  further claim of the node that names the wait, or no wait, is refused as a duplicate.\<close>

theorem accepted_claim_quarantines:
  assumes "decide_claim p r = Inr w"
    and "fold_completion_claimed env ev \<lparr>ccl_execution_id = e, ccl_node = clr_node r, ccl_completes_wait_seq = w,
           ccl_evidence = clr_evidence r, ccl_attestation = clr_attestation r\<rparr> p = Inr q"
    and "clr_node r' = clr_node r" and "clr_completes_wait_seq r' \<in> {None, Some w}"
  shows "p_node_states q = p_node_states p \<and> p_open_waits q = p_open_waits p \<and>
    (\<exists>c. p_open_claims q = om_insert (env_sequence ev) c (p_open_claims p) \<and> oc_node c = clr_node r \<and>
      oc_completes_wait_seq c = w \<and> oc_stage_entered_at c = env_sequence ev \<and>
      oc_evidence_digest c = claim_evidence_digest env (clr_evidence r)) \<and>
    decide_claim q r' = Inl (DUPLICATE_COMPLETION, Some w)"
proof -
  have d: "om_get (p_node_states p) (clr_node r) = Some S_WaitingInput"
    "map_option ow_at_sequence (om_get (p_open_waits p) (clr_node r)) = Some w"
    using assms(1) by (simp_all add: decide_claim_Inr)
  obtain c y where q: "q = p\<lparr>p_open_claims := om_insert (env_sequence ev) c (p_open_claims p), p_customs_scans := y\<rparr>"
    and c: "oc_node c = clr_node r" "oc_completes_wait_seq c = w" "oc_stage_entered_at c = env_sequence ev"
      "oc_evidence_digest c = claim_evidence_digest env (clr_evidence r)"
    by (rule accepted_claim_fold [OF assms(1,2)])
  have "resolve_wait q r' = Inr w" using d(2) assms(3,4) by (simp add: resolve_wait_Inr q)
  moreover have "list_ex (\<lambda>c. oc_node c = clr_node r') (om_values (p_open_claims q))"
    unfolding any_claim_on using c(1) assms(3) by (intro exI [of _ "env_sequence ev"] exI [of _ c]) (simp add: q)
  moreover have "om_get (p_node_states q) (clr_node r') = Some S_WaitingInput" using d(1) assms(3) by (simp add: q)
  ultimately have "decide_claim q r' = Inl (DUPLICATE_COMPLETION, Some w)" by (simp add: decide_claim_def)
  then show ?thesis using q c by auto
qed


section \<open>Lemmas on the view and the evidence digest\<close>

lemma om_get_fold_insert:
  "om_get (fold (\<lambda>n m. om_insert n (f n) m) ns m0) k = (if k \<in> set ns then Some (f k) else om_get m0 k)"
  by (induction ns arbitrary: m0) auto

lemma sorted_claims_of:
  "sorted_wrt (<) (map fst (filter (\<lambda>(_, c). oc_node c = n) (om_entries (p_open_claims p))))"
  using omap.ents_strict [of "p_open_claims p"] by (simp add: sorted_wrt_map sorted_wrt_filter)

text \<open>The sequences of all the open claims a node view shows.\<close>

definition shown_claims :: "node_customs_view \<Rightarrow> u64 list" where
  "shown_claims v = (case ncv_open_claim v of None \<Rightarrow> [] | Some c \<Rightarrow> [ocv_claim_seq c]) @ ncv_additional_open_claim_seqs v"

lemma shown_claims_of:
  "shown_claims (node_customs_view_of p n) = map fst (filter (\<lambda>(_, c). oc_node c = n) (om_entries (p_open_claims p)))"
  by (auto simp: shown_claims_def node_customs_view_of_def open_claim_view_of_def Let_def split: list.split)

lemma frame8_append_inj:
  assumes "frame 8 v @ r = frame 8 v' @ r'" "length v < 2 ^ 64" "length v' < 2 ^ 64"
  shows "v = v' \<and> r = r'"
  using frame_append_inj [OF assms(1)] assms(2,3) by simp

lemma claim_evidence_bytes_Cons:
  "claim_evidence_bytes (x # xs) =
    frame 8 (ce_kind x) @ frame 8 (ce_content_hash x) @ frame 8 (be64 (ce_size x)) @ claim_evidence_bytes xs"
  by (simp add: claim_evidence_bytes_def frame_def)

lemma claim_evidence_bytes_Nil [simp]: "claim_evidence_bytes [] = []"
  by (simp add: claim_evidence_bytes_def)

lemma frame8_not_Nil [simp]: "frame 8 v \<noteq> []"
  by (simp add: frame_def length_0_conv [symmetric] del: length_0_conv)

lemma claim_evidence_bytes_inj:
  assumes "claim_evidence_bytes xs = claim_evidence_bytes ys"
    and "list_all (\<lambda>e. length (ce_kind e) < 2 ^ 64 \<and> length (ce_content_hash e) < 2 ^ 64) xs"
    and "list_all (\<lambda>e. length (ce_kind e) < 2 ^ 64 \<and> length (ce_content_hash e) < 2 ^ 64) ys"
  shows "xs = ys"
  using assms
proof (induction xs arbitrary: ys)
  case Nil
  then show ?case by (cases ys) (auto simp: claim_evidence_bytes_Cons)
next
  case (Cons x xs)
  then obtain y zs where ys: "ys = y # zs" by (cases ys) (auto simp: claim_evidence_bytes_Cons)
  have a: "ce_kind x = ce_kind y \<and> frame 8 (ce_content_hash x) @ frame 8 (be64 (ce_size x)) @ claim_evidence_bytes xs =
      frame 8 (ce_content_hash y) @ frame 8 (be64 (ce_size y)) @ claim_evidence_bytes zs"
    by (rule frame8_append_inj) (use Cons.prems in \<open>simp_all add: ys claim_evidence_bytes_Cons\<close>)
  have b: "ce_content_hash x = ce_content_hash y \<and> frame 8 (be64 (ce_size x)) @ claim_evidence_bytes xs =
      frame 8 (be64 (ce_size y)) @ claim_evidence_bytes zs"
    by (rule frame8_append_inj) (use a Cons.prems in \<open>simp_all add: ys\<close>)
  have c: "be64 (ce_size x) = be64 (ce_size y) \<and> claim_evidence_bytes xs = claim_evidence_bytes zs"
    by (rule frame8_append_inj) (use b in simp_all)
  have "xs = zs" using Cons.IH [of zs] c Cons.prems by (simp add: ys)
  moreover have "x = y" using a b c by (cases x; cases y) simp
  ultimately show ?case by (simp add: ys)
qed

lemma strict_remdups_adj: "sorted xs \<Longrightarrow> sorted_wrt (<) (remdups_adj xs)" for xs :: "'a::linorder list"
  by (induction xs rule: remdups_adj.induct) (auto simp: order_less_le)


section \<open>Properties of the view and the digest\<close>

text \<open>The status view drops no claim. Its quarantine lists, without repetition, exactly the nodes that
  hold an open claim; it has an entry exactly for the nodes that any customs map names, and the claims an entry shows are, in
  ascending order, all the open claims of that node.\<close>

theorem customs_view_accounts:
  "sorted_wrt (<) (cuv_quarantined_nodes (customs_view_of p)) \<and>
   set (cuv_quarantined_nodes (customs_view_of p)) = {n. \<exists>k c. om_get (p_open_claims p) k = Some c \<and> oc_node c = n} \<and>
   om_get (cuv_nodes (customs_view_of p)) n =
     (if om_contains (p_customs_scans p) n \<or> om_contains (p_open_waits p) n \<or>
         n \<in> set (cuv_quarantined_nodes (customs_view_of p))
      then Some (node_customs_view_of p n) else None) \<and>
   sorted_wrt (<) (shown_claims (node_customs_view_of p n)) \<and>
   set (shown_claims (node_customs_view_of p n)) = {k. \<exists>c. om_get (p_open_claims p) k = Some c \<and> oc_node c = n}"
proof -
  let ?ns = "map oc_node (om_values (p_open_claims p))"
  have q: "cuv_quarantined_nodes (customs_view_of p) = remdups_adj (sort ?ns)"
    by (simp add: customs_view_of_def Let_def)
  have ns: "set ?ns = {n. \<exists>k c. om_get (p_open_claims p) k = Some c \<and> oc_node c = n}"
    unfolding set_map image_def Bex_def in_om_values by blast
  have "sorted_wrt (<) (remdups_adj (sort ?ns))"
    by (rule strict_remdups_adj) simp
  moreover have "om_get (cuv_nodes (customs_view_of p)) n =
     (if om_contains (p_customs_scans p) n \<or> om_contains (p_open_waits p) n \<or> n \<in> set ?ns
      then Some (node_customs_view_of p n) else None)"
    by (simp add: customs_view_of_def Let_def om_get_fold_insert set_os_list del: set_om_keys set_map)
       (simp add: set_om_keys)
  moreover have "set (shown_claims (node_customs_view_of p n)) = {k. \<exists>c. om_get (p_open_claims p) k = Some c \<and> oc_node c = n}"
    unfolding shown_claims_of by (force simp: om_in_entries)
  ultimately show ?thesis
    using sorted_claims_of [of n p] unfolding q shown_claims_of [symmetric] ns [symmetric] by simp
qed

text \<open>The clearance digest binds the evidence. If SHA-256 does not collide on the two encodings, two claims with
  the same evidence digest present the same evidence, item by item and in order.\<close>

theorem claim_digest_binds_evidence:
  assumes "claim_evidence_digest env xs = claim_evidence_digest env ys"
    and "fe_sha_hex env (claim_evidence_bytes xs) = fe_sha_hex env (claim_evidence_bytes ys) \<Longrightarrow>
      claim_evidence_bytes xs = claim_evidence_bytes ys"
    and "list_all (\<lambda>e. length (ce_kind e) < 2 ^ 64 \<and> length (ce_content_hash e) < 2 ^ 64) (xs @ ys)"
  shows "xs = ys"
proof (rule claim_evidence_bytes_inj)
  show "claim_evidence_bytes xs = claim_evidence_bytes ys"
    using assms(1,2) by (simp add: claim_evidence_digest_def)
qed (use assms(3) in simp_all)

section \<open>Witnesses\<close>

definition lapsed_projection :: execution_projection where
  "lapsed_projection = default_projection\<lparr>p_execution_id := Some ''e'',
     p_node_states := om_insert ''n'' S_WaitingInput om_empty,
     p_open_waits := om_insert ''n'' \<lparr>ow_at_sequence = 2, ow_deadline = Some 10\<rparr> om_empty\<rparr>"

definition sample_request :: claim_request where
  "sample_request = \<lparr>clr_node = ''n'', clr_completes_wait_seq = None,
     clr_evidence = [\<lparr>ce_kind = ''test'', ce_content_hash = ''sha256:d'', ce_size = 3\<rparr>],
     clr_attestation = \<lparr>cat_asserter = ''owner'', cat_mode = OperatorAttested\<rparr>,
     clr_required_proof_kinds = [''test'']\<rparr>"

definition budgeted_form :: execution_form_declared where
  "budgeted_form = \<lparr>efd_execution_id = ''e'', efd_node_ids = [''n''], efd_node_descriptors = om_empty, efd_topology = None,
     efd_node_timeout_seconds = om_empty, efd_name = None, efd_objective = None, efd_executor = None,
     efd_node_customs_budgets = om_insert ''n'' \<lparr>cb_wait_within_seconds = 5, cb_clearance_within_seconds = 5,
       cb_dlq_within_seconds = None\<rparr> om_empty\<rparr>"

definition parked_history :: "event_envelope list" where
  "parked_history = [sample_event 1 started_kind, sample_event 2 (ExecutionFormDeclared budgeted_form),
     sample_event 3 (outcome_kind ''n'' O_NeedsInput S_WaitingInput)]"

definition parked_payload :: overdue_exception where
  "parked_payload = \<lparr>oex_execution_id = ''e'', oex_node_id = ''n'', oex_episode_sequence = 3, oex_stage = WireParked,
     oex_deadline = 5000000000\<rparr>"

definition parked_projection :: execution_projection where
  "parked_projection = default_projection\<lparr>p_stream_id := Some ''stream'', p_execution_id := Some ''e'',
     p_mode := Some Supervised, p_started_graph_version := Some 1, p_declared_form := Some budgeted_form,
     p_node_attempts := om_insert ''n'' 0 om_empty,
     p_last_outcome := om_insert ''n'' O_NeedsInput om_empty, p_identical_outcomes := om_insert ''n'' 1 om_empty,
     p_open_waits := om_insert ''n'' \<lparr>ow_at_sequence = 3, ow_deadline = Some 5000000000\<rparr> om_empty,
     p_customs_scans := om_insert ''n'' [\<lparr>csn_at_sequence = 3, csn_stage = Parked, csn_claim_seq = None,
       csn_reason_code = None, csn_deadline = Some 5000000000\<rparr>] om_empty,
     p_node_states := om_insert ''n'' S_WaitingInput om_empty\<rparr>"

lemma parked_folds: "from_genesis sample_env parked_history = Inr (parked_projection, om_empty)"
proof -
  have "is_opaque_id ''n''" by code_simp
  then show ?thesis
    by (simp add: parked_history_def parked_projection_def sample_defs sample_fold fold_execution_form_declared_def record_scan_def
      scans_of_def stage_deadline_def horizon_def budgeted_form_def)
qed

definition parked_exception :: "u64 \<Rightarrow> event_envelope" where
  "parked_exception n = sample_event n (OverdueException parked_payload)"

lemma parked_spent:
  obtains p1 where "fold_events sample_env [parked_exception 4] (parked_projection, om_empty) = Inr (p1, om_empty)"
    "fold_events sample_env [parked_exception 5] (p1, om_empty) = Inr (p1, om_empty)" "p_execution_id p1 = Some ''e''"
proof -
  let ?p = "parked_projection\<lparr>p_exception_marked := os_insert 3 om_empty\<rparr>"
  have "fold_events sample_env [parked_exception 4] (parked_projection, om_empty) = Inr (?p, om_empty)"
    by (simp add: parked_exception_def parked_payload_def parked_projection_def sample_defs sample_fold fold_overdue_exception_def)
  moreover have "fold_projection sample_env (parked_exception 5) ?p = Inr ?p"
    by (rule repeated_exception [where pl = parked_payload])
       (simp_all add: parked_exception_def parked_payload_def parked_projection_def sample_event_def)
  then have "fold_events sample_env [parked_exception 5] (?p, om_empty) = Inr (?p, om_empty)"
    by (simp add: fold_events_def apply_projection_event_def stamp_stream_def parked_projection_def parked_exception_def
      sample_event_def)
  ultimately show ?thesis by (rule that) (simp add: parked_projection_def)
qed

theorem sweep_spends_episodes_witness:
  "\<exists>p1 q. from_genesis sample_env (parked_history @ [parked_exception 4]) = Inr (p1, om_empty) \<and>
     from_genesis sample_env (parked_history @ [parked_exception 4, parked_exception 5]) = Inr (q, om_empty) \<and>
     length (overdue_at parked_projection 5000000000) = 1 \<and> overdue_at p1 5000000000 = [] \<and>
     marked_episodes q = {3} \<and> fold_projection sample_env (parked_exception 6) q = Inr q"
proof -
  obtain p1 where p1: "fold_events sample_env [parked_exception 4] (parked_projection, om_empty) = Inr (p1, om_empty)"
      "fold_events sample_env [parked_exception 5] (p1, om_empty) = Inr (p1, om_empty)" "p_execution_id p1 = Some ''e''"
    by (rule parked_spent)
  have od: "overdue_at parked_projection 5000000000 =
      [\<lparr>ods_node = ''n'', ods_episode_seq = 3, ods_deadline = 5000000000, ods_claim_seq = None\<rparr>]"
    by (simp add: overdue_at_def parked_projection_def default_projection_def om_values_def omap_simps List.map_filter_def)
  have "list_all2 exception_for (overdue_at parked_projection 5000000000) [parked_exception 4]"
    by (simp add: od exception_for_def parked_exception_def parked_payload_def sample_event_def)
  note spent = sweep_spends_episodes [OF parked_folds this p1(1,2), where ev = "parked_exception 6" and pl = parked_payload]
  have "excepted (parked_history @ [parked_exception 4] @ [parked_exception 5]) = {3}"
    by (auto simp: excepted_def parked_history_def parked_exception_def sample_event_def started_kind_def outcome_kind_def
      parked_payload_def)
  moreover have "from_genesis sample_env (parked_history @ [parked_exception 4]) = Inr (p1, om_empty)"
      "from_genesis sample_env (parked_history @ [parked_exception 4, parked_exception 5]) = Inr (p1, om_empty)"
    using parked_folds p1(1,2) by (simp_all add: fold_events_def foldE_append)
  ultimately show ?thesis using spent p1(3)
    by (intro exI [of _ p1]) (simp add: od, simp add: parked_exception_def sample_event_def parked_payload_def)
qed

theorem accepted_claim_quarantines_witness:
  "\<exists>q. decide_claim lapsed_projection sample_request = Inr 2 \<and>
     fold_completion_claimed sample_env (sample_event 3 started_kind) \<lparr>ccl_execution_id = ''e'', ccl_node = ''n'',
       ccl_completes_wait_seq = 2, ccl_evidence = clr_evidence sample_request,
       ccl_attestation = clr_attestation sample_request\<rparr> lapsed_projection = Inr q \<and>
     om_get (p_node_states q) ''n'' = Some S_WaitingInput \<and>
     decide_claim q sample_request = Inl (DUPLICATE_COMPLETION, Some 2)"
proof -
  let ?pl = "\<lparr>ccl_execution_id = ''e'', ccl_node = clr_node sample_request,
       ccl_completes_wait_seq = 2, ccl_evidence = clr_evidence sample_request,
       ccl_attestation = clr_attestation sample_request\<rparr>"
  have d: "decide_claim lapsed_projection sample_request = Inr 2"
    by (simp add: decide_claim_Inr lapsed_projection_def sample_request_def default_projection_def)
  have "\<exists>q. fold_completion_claimed sample_env (sample_event 3 started_kind) ?pl lapsed_projection = Inr q"
    by (simp add: fold_completion_claimed_def lapsed_projection_def sample_request_def sample_fold record_scan_def
        scans_of_def default_projection_def)
  then obtain q where q: "fold_completion_claimed sample_env (sample_event 3 started_kind) ?pl lapsed_projection = Inr q" ..
  have "clr_completes_wait_seq sample_request \<in> {None, Some 2}" by (simp add: sample_request_def)
  from accepted_claim_quarantines [OF d q refl this] d q show ?thesis
    by (auto simp: lapsed_projection_def sample_request_def)
qed

theorem claim_digest_binds_evidence_witness:
  "claim_evidence_digest (sample_env\<lparr>fe_sha_hex := \<lambda>b. b\<rparr>) (clr_evidence sample_request) \<noteq>
   claim_evidence_digest (sample_env\<lparr>fe_sha_hex := \<lambda>b. b\<rparr>) []"
  using claim_digest_binds_evidence [of "sample_env\<lparr>fe_sha_hex := \<lambda>b. b\<rparr>" "clr_evidence sample_request" "[]"]
  by (auto simp: sample_request_def)

end
