(* ===== verification/Customs_Verbs.thy ===== *)
theory Customs_Verbs
  imports Customs Store_Log
begin

text \<open>
  The customs verbs (\<open>core/events/src/customs.rs\<close>, \<open>sweep.rs\<close>): each reads a stream, replays it, decides, and appends what
  it decided. Every verb reads and writes under locks of its own, so between two repository calls other handles may
  append; \<open>meanwhile\<close> is what they did.
\<close>

section \<open>The verbs\<close>

datatype claim_outcome = OutcomeClaimed (claim_seq: u64) (wait_seq: u64) | OutcomeRefused (reason_code: string) (wait_seq: u64)

datatype claim_error = ClaimNotStarted | ClaimRepository repository_error

datatype clear_error = ClearNotStarted | NotAnOpenClaim u64 | ClearRepository repository_error

definition next_after :: "event_envelope list \<Rightarrow> repository_error + u64" where
  "next_after history_events =
    (if history_events = [] then Inr 1
     else ok_or (checked_add (env_sequence (last history_events)) 1) RepositoryLimitExceeded)"

text \<open>The execution a replayed stream started, when its identifier is well formed.\<close>

definition started_execution :: "execution_projection \<Rightarrow> string option" where
  "started_execution p = (case p_execution_id p of None \<Rightarrow> None | Some i \<Rightarrow> if is_opaque_id i then Some i else None)"

definition append_one_request ::
  "repository_scope \<Rightarrow> string \<Rightarrow> u64 \<Rightarrow> string \<Rightarrow> persisted_actor \<Rightarrow> event_kind \<Rightarrow> repository_error + prepared_append" where
  "append_one_request scope stream at key actor kind =
    (if \<not> is_opaque_id stream then Inl RepositoryInvalid
     else prepared_append_new scope stream at
       [\<lparr>nev_idempotency_key = key, nev_actor = actor, nev_sensitivity = Internal, nev_kind = kind,
         nev_evidence_refs = [], nev_artifact_refs = []\<rparr>] [] [])"

definition append_request ::
  "'s event_repository \<Rightarrow> (repository_error + prepared_append) \<Rightarrow> 's \<Rightarrow> (repository_error + event_envelope list) \<times> 's" where
  "append_request repo request s = (case request of Inl e \<Rightarrow> (Inl e, s) | Inr r \<Rightarrow> rep_append_atomic repo r s)"

definition append_one ::
  "'s event_repository \<Rightarrow> repository_scope \<Rightarrow> string \<Rightarrow> u64 \<Rightarrow> string \<Rightarrow> persisted_actor \<Rightarrow> event_kind \<Rightarrow> 's
   \<Rightarrow> (repository_error + event_envelope list) \<times> 's" where
  "append_one repo scope stream at key actor kind = append_request repo (append_one_request scope stream at key actor kind)"

text \<open>A refusal that resolved to no wait names the sequence it is written at.\<close>

definition claim_decision ::
  "execution_projection \<Rightarrow> claim_request \<Rightarrow> u64 \<Rightarrow> (string \<times> u64) + u64" where
  "claim_decision p r at =
    (case decide_claim p r of
       Inl (code, w) \<Rightarrow> Inl (code, case w of None \<Rightarrow> at | Some n \<Rightarrow> n)
     | Inr w \<Rightarrow> Inr w)"

definition claim_event :: "string \<Rightarrow> claim_request \<Rightarrow> (string \<times> u64) + u64 \<Rightarrow> event_kind" where
  "claim_event execution_id r decision =
    (case decision of
       Inr w \<Rightarrow> CompletionClaimed \<lparr>ccl_execution_id = execution_id, ccl_node = clr_node r, ccl_completes_wait_seq = w,
                  ccl_evidence = clr_evidence r, ccl_attestation = clr_attestation r\<rparr>
     | Inl (code, w) \<Rightarrow> CompletionRefused \<lparr>crf_execution_id = execution_id, crf_node = clr_node r,
                  crf_claimed_wait_seq = w, crf_reason_code = code\<rparr>)"

definition claim_plan ::
  "replay_env \<Rightarrow> repository_scope \<Rightarrow> string \<Rightarrow> claim_request \<Rightarrow> event_envelope list
   \<Rightarrow> claim_error + ((string \<times> u64) + u64) \<times> u64 \<times> event_kind" where
  "claim_plan renv scope stream r history_events =
    (case replay renv scope stream history_events of
       Inl e \<Rightarrow> Inl (ClaimRepository (map_replay_error e))
     | Inr p \<Rightarrow>
         (case started_execution p of
            None \<Rightarrow> Inl ClaimNotStarted
          | Some execution_id \<Rightarrow>
              if \<not> is_opaque_id (clr_node r) then Inl (ClaimRepository RepositoryInvalid)
              else (case next_after history_events of
                  Inl e \<Rightarrow> Inl (ClaimRepository e)
                | Inr at \<Rightarrow>
                    let decision = claim_decision p r at in
                    Inr (decision, at, claim_event execution_id r decision))))"

definition claim_answer :: "event_envelope \<Rightarrow> (string \<times> u64) + u64 \<Rightarrow> claim_outcome" where
  "claim_answer ev decision =
    (case decision of
       Inr w \<Rightarrow> OutcomeClaimed (env_sequence ev) w
     | Inl (code, w) \<Rightarrow> OutcomeRefused code w)"

definition claim ::
  "replay_env \<Rightarrow> 's event_repository \<Rightarrow> ('s \<Rightarrow> 's) \<Rightarrow> repository_scope \<Rightarrow> string \<Rightarrow> persisted_actor \<Rightarrow> string
   \<Rightarrow> claim_request \<Rightarrow> 's \<Rightarrow> (claim_error + claim_outcome \<times> event_envelope list) \<times> 's" where
  "claim renv repo meanwhile scope stream actor key r s =
    (case rep_read_replay_stream repo s scope stream of
       Inl e \<Rightarrow> (Inl (ClaimRepository e), s)
     | Inr history_events \<Rightarrow>
         (case claim_plan renv scope stream r history_events of
            Inl e \<Rightarrow> (Inl e, s)
          | Inr (decision, at, kind) \<Rightarrow>
              (case append_one repo scope stream at key actor kind (meanwhile s) of
                 (Inl e, s') \<Rightarrow> (Inl (ClaimRepository e), s')
               | (Inr [], s') \<Rightarrow> (Inl (ClaimRepository RepositoryInvalid), s')
               | (Inr (ev # evs), s') \<Rightarrow>
                   (Inr (claim_answer ev decision, ev # evs), s'))))"

definition clear_plan ::
  "replay_env \<Rightarrow> repository_scope \<Rightarrow> string \<Rightarrow> u64 \<Rightarrow> string \<Rightarrow> event_envelope list \<Rightarrow> clear_error + u64 \<times> event_kind" where
  "clear_plan renv scope stream cs manifest history_events =
    (case replay renv scope stream history_events of
       Inl e \<Rightarrow> Inl (ClearRepository (map_replay_error e))
     | Inr p \<Rightarrow>
         (case started_execution p of
            None \<Rightarrow> Inl ClearNotStarted
          | Some execution_id \<Rightarrow>
              if \<not> om_contains (p_open_claims p) cs then Inl (NotAnOpenClaim cs)
              else (case next_after history_events of
                  Inl e \<Rightarrow> Inl (ClearRepository e)
                | Inr at \<Rightarrow> Inr (at, CompletionCleared \<lparr>ccd_execution_id = execution_id, ccd_claim_seq = cs,
                      ccd_verifier = MachineReplay manifest\<rparr>))))"

text \<open>The verdict is read back from the journal with the clearance in it.\<close>

definition clear_verdict ::
  "replay_env \<Rightarrow> repository_scope \<Rightarrow> string \<Rightarrow> u64 \<Rightarrow> event_envelope list \<Rightarrow> clear_error + clearance_outcome" where
  "clear_verdict renv scope stream cs full =
    (case replay renv scope stream full of
       Inl e \<Rightarrow> Inl (ClearRepository (map_replay_error e))
     | Inr after \<Rightarrow>
         (case om_get (p_clearances after) cs of
            None \<Rightarrow> Inl (ClearRepository RepositoryInvalid) | Some outcome \<Rightarrow> Inr outcome))"

definition clear ::
  "replay_env \<Rightarrow> 's event_repository \<Rightarrow> ('s \<Rightarrow> 's) \<Rightarrow> repository_scope \<Rightarrow> string \<Rightarrow> persisted_actor \<Rightarrow> string
   \<Rightarrow> u64 \<Rightarrow> string \<Rightarrow> 's \<Rightarrow> (clear_error + clearance_outcome \<times> event_envelope list) \<times> 's" where
  "clear renv repo meanwhile scope stream actor key cs manifest s =
    (case rep_read_replay_stream repo s scope stream of
       Inl e \<Rightarrow> (Inl (ClearRepository e), s)
     | Inr history_events \<Rightarrow>
         (case clear_plan renv scope stream cs manifest history_events of
            Inl e \<Rightarrow> (Inl e, s)
          | Inr (at, kind) \<Rightarrow>
              (case append_one repo scope stream at key actor kind (meanwhile s) of
                 (Inl e, s') \<Rightarrow> (Inl (ClearRepository e), s')
               | (Inr appended, s') \<Rightarrow>
                   (bindE (clear_verdict renv scope stream cs (history_events @ appended)) (\<lambda>outcome.
                      Inr (outcome, appended)), s'))))"

text \<open>The sweep. \<open>rfc_text\<close> is the instant's text, of the time library; \<open>now\<close> is the store's clock.\<close>

definition sweep_key :: "(timestamp \<Rightarrow> string) \<Rightarrow> timestamp \<Rightarrow> u64 \<Rightarrow> string" where
  "sweep_key rfc_text instant at =
    ''sweep-'' @ map (\<lambda>c. if c = CHR '':'' then CHR ''-'' else c) (rfc_text instant) @ ''-'' @ show_decimal (unat at)"

definition overdue_key :: "overdue_stage \<Rightarrow> u64 \<Rightarrow> string" where
  "overdue_key stage at = ''overdue-'' @ show_decimal (unat (ods_episode_seq stage)) @ ''-'' @ show_decimal (unat at)"

definition internal_event :: "string \<Rightarrow> persisted_actor \<Rightarrow> event_kind \<Rightarrow> repository_error + new_event" where
  "internal_event key actor kind =
    (if \<not> is_opaque_id key then Inl RepositoryInvalid
     else Inr \<lparr>nev_idempotency_key = key, nev_actor = actor, nev_sensitivity = Internal, nev_kind = kind,
               nev_evidence_refs = [], nev_artifact_refs = []\<rparr>)"

definition exception_payload :: "string \<Rightarrow> overdue_stage \<Rightarrow> overdue_exception" where
  "exception_payload execution_id stage =
    \<lparr>oex_execution_id = execution_id, oex_node_id = ods_node stage, oex_episode_sequence = ods_episode_seq stage,
     oex_stage = (if ods_claim_seq stage \<noteq> None then WireClaimed else WireParked), oex_deadline = ods_deadline stage\<rparr>"

definition sweep_exception ::
  "persisted_actor \<Rightarrow> string \<Rightarrow> u64 \<Rightarrow> overdue_stage \<Rightarrow> new_event list \<Rightarrow> repository_error + new_event list" where
  "sweep_exception actor execution_id at stage evs =
    (if \<not> is_opaque_id (ods_node stage) then Inl RepositoryInvalid
     else bindE (internal_event (overdue_key stage at) actor (OverdueException (exception_payload execution_id stage)))
       (\<lambda>ev. Inr (evs @ [ev])))"

definition sweep_events ::
  "(timestamp \<Rightarrow> string) \<Rightarrow> persisted_actor \<Rightarrow> sweep_caller \<Rightarrow> string option \<Rightarrow> string \<Rightarrow> timestamp \<Rightarrow> u64 \<Rightarrow> overdue_stage list
   \<Rightarrow> repository_error + new_event list" where
  "sweep_events rfc_text actor caller record_key execution_id instant at stages =
    bindE (internal_event (case record_key of None \<Rightarrow> sweep_key rfc_text instant at | Some k \<Rightarrow> k) actor
        (SweepPerformed \<lparr>swp_execution_id = execution_id, swp_as_of = instant, swp_caller = caller\<rparr>)) (\<lambda>ev.
      foldE (sweep_exception actor execution_id at) stages [ev])"

definition sweep ::
  "replay_env \<Rightarrow> (timestamp \<Rightarrow> string) \<Rightarrow> 's event_repository \<Rightarrow> repository_error + timestamp \<Rightarrow> ('s \<Rightarrow> 's) \<Rightarrow> ('s \<Rightarrow> 's)
   \<Rightarrow> repository_scope \<Rightarrow> string \<Rightarrow> timestamp \<Rightarrow> persisted_actor \<Rightarrow> sweep_caller \<Rightarrow> string option \<Rightarrow> 's
   \<Rightarrow> (repository_error + event_envelope list) \<times> 's" where
  "sweep renv rfc_text repo now meanwhile1 meanwhile2 scope stream instant actor caller record_key s =
    (case now of
       Inl e \<Rightarrow> (Inl e, s)
     | Inr t \<Rightarrow>
         if instant > t then (Inl RepositoryInvalid, s)
         else (case rep_read_replay_stream repo s scope stream of
             Inl e \<Rightarrow> (Inl e, s)
           | Inr history_events \<Rightarrow>
               (case replay renv scope stream history_events of
                  Inl e \<Rightarrow> (Inl RepositoryInvalid, s)
                | Inr p \<Rightarrow>
                    (case started_execution p of
                       None \<Rightarrow> (Inl RepositoryInvalid, s)
                     | Some execution_id \<Rightarrow>
                         (let s1 = meanwhile1 s in
                          case rep_next_sequence repo s1 scope stream of
                            Inl e \<Rightarrow> (Inl e, s1)
                          | Inr at \<Rightarrow>
                              append_request repo
                                (bindE (sweep_events rfc_text actor caller record_key execution_id instant at (overdue_at p instant)) (\<lambda>evs.
                                  if \<not> is_opaque_id stream then Inl RepositoryInvalid
                                  else prepared_append_new scope stream at evs [] []))
                                (meanwhile2 s1))))))"


section \<open>Where the verbs write\<close>

lemma append_request_Inr:
  "append_request repo request s = (Inr evs, s') \<longleftrightarrow> (\<exists>r. request = Inr r \<and> rep_append_atomic repo r s = (Inr evs, s'))"
  by (cases request) (simp_all add: append_request_def)

lemma next_after_length:
  assumes "next_after h = Inr at" "h \<noteq> [] \<Longrightarrow> unat (env_sequence (last h)) = length h"
  shows "unat at = Suc (length h)"
proof (cases "h = []")
  case False
  then have "checked_add (env_sequence (last h)) 1 = Some at" using assms(1) by (simp add: next_after_def)
  then show ?thesis using assms(2) False by (auto simp: checked_add_Some)
qed (use assms(1) in \<open>simp add: next_after_def\<close>)

lemma sweep_exceptions_kinds:
  "foldE (sweep_exception actor i at) stages evs = Inr news \<Longrightarrow>
    map nev_kind news = map nev_kind evs @ map (\<lambda>stage. OverdueException (exception_payload i stage)) stages"
  by (induction stages arbitrary: evs) (auto simp: sweep_exception_def internal_event_def split: if_splits)

lemma sweep_events_kinds:
  "sweep_events rfc_text actor caller record_key i instant at stages = Inr news \<Longrightarrow>
    map nev_kind news = SweepPerformed \<lparr>swp_execution_id = i, swp_as_of = instant, swp_caller = caller\<rparr> #
      map (\<lambda>stage. OverdueException (exception_payload i stage)) stages"
  by (auto simp: sweep_events_def internal_event_def dest!: sweep_exceptions_kinds split: if_splits)

context event_log
begin

lemma append_one_lands:
  assumes "valid s" "later s s'" "distinguished s' scope stream" "unat at = Suc (length (log_of s scope stream))"
    and "append_one repo scope stream at key actor kind s' = (Inr evs, s'')"
  shows "log_of s'' = log_of s' \<or>
    (\<exists>ev. evs = [ev] \<and> env_kind ev = kind \<and> env_sequence ev = at \<and> log_of s' scope stream = log_of s scope stream \<and>
      log_of s'' scope stream = log_of s scope stream @ [ev])"
proof -
  obtain r where r: "append_one_request scope stream at key actor kind = Inr r" "rep_append_atomic repo r s' = (Inr evs, s'')"
    using assms(5) by (auto simp: append_one_def append_request_Inr)
  then have f: "pap_scope r = scope" "pap_stream_id r = stream" "pap_expected_next_sequence r = at" "pap_artifacts r = []"
    "map nev_kind (pap_events r) = [kind]"
    by (auto simp: append_one_request_def split: if_splits dest!: prepared_append_new_Inr)
  have kinds: "map request_of_envelope evs = pap_events r \<Longrightarrow> map env_kind evs = [kind]" by (simp only: requested_kinds f(5))
  have "unat (pap_expected_next_sequence r) = Suc (length (log_of s (pap_scope r) (pap_stream_id r)))"
    using assms(4) by (simp add: f)
  from lands_where_read [OF assms(1,2) _ f(4) this r(2)] assms(3)
  show ?thesis using kinds unfolding f by fastforce
qed

lemma claim_lands:
  assumes "valid s" "later s s1" "distinguished s1 scope stream"
    and "claim renv repo (\<lambda>_. s1) scope stream actor key r s = (Inr (outcome, appended), s2)"
  shows "log_of s2 = log_of s1 \<or>
    (\<exists>p ev i. replay renv scope stream (log_of s scope stream) = Inr p \<and> started_execution p = Some i \<and>
      log_of s1 scope stream = log_of s scope stream \<and> appended = [ev] \<and> log_of s2 scope stream = log_of s scope stream @ [ev] \<and>
      env_kind ev = claim_event i r (claim_decision p r (env_sequence ev)) \<and>
      outcome = claim_answer ev (claim_decision p r (env_sequence ev)))"
proof -
  note d = later_distinguished [OF assms(2,3)]
  obtain h p i at where h: "rep_read_replay_stream repo s scope stream = Inr h" "replay renv scope stream h = Inr p"
    "started_execution p = Some i" "next_after h = Inr at"
    "append_one repo scope stream at key actor (claim_event i r (claim_decision p r at)) s1 = (Inr appended, s2)"
    and out: "appended \<noteq> []" "outcome = claim_answer (hd appended) (claim_decision p r at)"
    using assms(4) by (auto simp: claim_def claim_plan_def Let_def split: sum.splits prod.splits option.splits if_splits list.splits)
  note n = read_numbered [OF assms(1) d h(1)]
  have "unat at = Suc (length (log_of s scope stream))" using next_after_length [OF h(4) n(3)] by (simp add: n(1))
  from append_one_lands [OF assms(1-3) this h(5)] show ?thesis
    using h(2,3) out unfolding n(1) by auto
qed

lemma append_request_refused:
  assumes "valid s" "distinguished s scope stream" "append_request repo request s = (Inl e, s')"
    and "\<And>r. request = Inr r \<Longrightarrow> pap_scope r = scope \<and> pap_stream_id r = stream \<and> pap_artifacts r = []"
  shows "log_of s' = log_of s"
proof (cases request)
  case (Inr r)
  have "rep_append_atomic repo r s = (Inl e, s')" using assms(3) Inr by (simp add: append_request_def)
  from append_exact [OF assms(1) _ _ this] show ?thesis using assms(2,4) Inr by auto
qed (use assms(3) in \<open>simp add: append_request_def\<close>)

lemma claim_refused:
  assumes "valid s" "later s s1" "distinguished s1 scope stream"
    and "claim renv repo (\<lambda>_. s1) scope stream actor key r s = (Inl e, s2)"
  shows "log_of s2 = log_of s \<or> log_of s2 = log_of s1"
proof -
  have v1: "valid s1" using later_exact [OF assms(1,2)] by blast
  have "log_of s2 = log_of s1" if "append_one repo scope stream at key actor kind s1 = (Inl e', s2)" for at kind e'
    using that unfolding append_one_def
    by (rule append_request_refused [OF v1 assms(3)])
      (auto simp: append_one_request_def split: if_splits dest!: prepared_append_new_Inr)
  moreover have False if "append_one repo scope stream at key actor kind s1 = (Inr [], s2)"
    "log_of s2 \<noteq> log_of s1" "unat at = Suc (length (log_of s scope stream))" for at kind
    using append_one_lands [OF assms(1-3) that(3,1)] that(2) by simp
  moreover have "unat at = Suc (length (log_of s scope stream))"
    if "rep_read_replay_stream repo s scope stream = Inr h" "next_after h = Inr at" for h at
  proof -
    note n = read_numbered [OF assms(1) later_distinguished [OF assms(2,3)] that(1)]
    show ?thesis using next_after_length [OF that(2) n(3)] by (simp add: n(1))
  qed
  ultimately show ?thesis
    using assms(4) by (fastforce simp: claim_def claim_plan_def Let_def split: sum.splits prod.splits option.splits if_splits list.splits)
qed

lemma clear_lands:
  assumes "valid s" "later s s1" "distinguished s1 scope stream"
    and "clear renv repo (\<lambda>_. s1) scope stream actor key cs manifest s = (Inr (outcome, appended), s2)"
  shows "log_of s2 = log_of s1 \<or>
    (\<exists>p q ev i. replay renv scope stream (log_of s scope stream) = Inr p \<and> om_contains (p_open_claims p) cs \<and>
      log_of s1 scope stream = log_of s scope stream \<and> appended = [ev] \<and> log_of s2 scope stream = log_of s scope stream @ [ev] \<and>
      env_kind ev = CompletionCleared \<lparr>ccd_execution_id = i, ccd_claim_seq = cs, ccd_verifier = MachineReplay manifest\<rparr> \<and>
      replay renv scope stream (log_of s scope stream @ [ev]) = Inr q \<and> om_get (p_clearances q) cs = Some outcome)"
proof -
  note d = later_distinguished [OF assms(2,3)]
  obtain h p i at where h: "rep_read_replay_stream repo s scope stream = Inr h" "replay renv scope stream h = Inr p"
    "om_contains (p_open_claims p) cs" "next_after h = Inr at"
    "append_one repo scope stream at key actor
       (CompletionCleared \<lparr>ccd_execution_id = i, ccd_claim_seq = cs, ccd_verifier = MachineReplay manifest\<rparr>) s1 = (Inr appended, s2)"
    and out: "clear_verdict renv scope stream cs (h @ appended) = Inr outcome"
    using assms(4) by (auto simp: clear_def clear_plan_def split: sum.splits prod.splits option.splits if_splits)
  obtain q where q: "replay renv scope stream (h @ appended) = Inr q" "om_get (p_clearances q) cs = Some outcome"
    using out by (auto simp: clear_verdict_def split: sum.splits option.splits)
  note n = read_numbered [OF assms(1) d h(1)]
  have "unat at = Suc (length (log_of s scope stream))" using next_after_length [OF h(4) n(3)] by (simp add: n(1))
  from append_one_lands [OF assms(1-3) this h(5)] show ?thesis using h(2,3) q unfolding n(1) by auto
qed

lemma sweep_lands:
  assumes "valid s" "later s s1" "later s1 s2" "distinguished s2 scope stream"
    and "sweep renv rfc_text repo now (\<lambda>_. s1) (\<lambda>_. s2) scope stream instant actor caller record_key s = (Inr evs, s3)"
  shows "\<exists>p i t. now = Inr t \<and> instant \<le> t \<and> replay renv scope stream (log_of s scope stream) = Inr p \<and>
    started_execution p = Some i \<and>
    (log_of s3 = log_of s2 \<or>
     log_of s2 scope stream = log_of s1 scope stream \<and> log_of s3 scope stream = log_of s1 scope stream @ evs \<and>
     map env_kind evs = SweepPerformed \<lparr>swp_execution_id = i, swp_as_of = instant, swp_caller = caller\<rparr> #
       map (\<lambda>stage. OverdueException (exception_payload i stage)) (overdue_at p instant))"
proof -
  have v1: "valid s1" using later_exact [OF assms(1,2)] by blast
  have d: "distinguished s1 scope stream" "distinguished s scope stream"
    using later_distinguished assms(2,3,4) by blast+
  obtain h p i t at r news where h: "now = Inr t" "\<not> instant > t" "rep_read_replay_stream repo s scope stream = Inr h"
    "replay renv scope stream h = Inr p" "started_execution p = Some i" "rep_next_sequence repo s1 scope stream = Inr at"
    "sweep_events rfc_text actor caller record_key i instant at (overdue_at p instant) = Inr news"
    "prepared_append_new scope stream at news [] [] = Inr r" "rep_append_atomic repo r s2 = (Inr evs, s3)"
    using assms(5) by (auto simp: sweep_def Let_def append_request_Inr split: sum.splits option.splits if_splits)
  note f = prepared_append_new_Inr [OF h(8)]
  have "unat (pap_expected_next_sequence r) = Suc (length (log_of s1 (pap_scope r) (pap_stream_id r)))"
    using next_exact [OF v1 d(1) h(6)] f by simp
  from lands_where_read [OF v1 assms(3) _ _ this h(9)] assms(4) f
  have "log_of s3 = log_of s2 \<or> log_of s2 scope stream = log_of s1 scope stream \<and>
      log_of s3 scope stream = log_of s1 scope stream @ evs \<and> map request_of_envelope evs = news" by auto
  moreover note requested_kinds [of evs news]
  ultimately show ?thesis
    using h(1,2,4,5) unfolding read_numbered(1) [OF assms(1) d(2) h(3)] sweep_events_kinds [OF h(7)] by auto
qed

end

section \<open>What the written events do\<close>

lemma replay_snoc:
  assumes "replay renv scope stream h = Inr p" "replay renv scope stream (h @ [ev]) = Inr q"
  obtains a b where "apply_projection_event (re_fold renv) ev (p, a) = Inr (q, b)"
  using assms that by (auto simp: replay_Inr from_genesis_snoc)


lemma decide_claim_stream [simp]: "decide_claim (p\<lparr>p_stream_id := y\<rparr>) r = decide_claim p r"
proof -
  have "parked_at (p\<lparr>p_stream_id := y\<rparr>) = parked_at p" by (simp add: fun_eq_iff parked_at_def)
  then have "resolve_wait (p\<lparr>p_stream_id := y\<rparr>) r = resolve_wait p r"
    by (simp only: resolve_wait_def) simp
  moreover have "p_open_claims (p\<lparr>p_stream_id := y\<rparr>) = p_open_claims p" "p_node_states (p\<lparr>p_stream_id := y\<rparr>) = p_node_states p" by simp_all
  ultimately show ?thesis unfolding decide_claim_def by (simp only:)
qed

text \<open>What an accepted claim, or a refused one, does to the projection it was decided on.\<close>

definition claim_settled :: "fold_env \<Rightarrow> claim_request \<Rightarrow> event_envelope \<Rightarrow> execution_projection \<Rightarrow> execution_projection \<Rightarrow> bool" where
  "claim_settled env r ev p q \<longleftrightarrow> p_node_states q = p_node_states p \<and>
    (case decide_claim p r of
       Inl _ \<Rightarrow> p_open_claims q = p_open_claims p
     | Inr w \<Rightarrow> \<exists>c. p_open_claims q = om_insert (env_sequence ev) c (p_open_claims p) \<and> oc_node c = clr_node r \<and>
         oc_completes_wait_seq c = w \<and> oc_evidence_digest c = claim_evidence_digest env (clr_evidence r))"

lemma claim_effect:
  assumes "env_kind ev = claim_event i r (claim_decision p r n)" "apply_projection_event env ev (p, a) = Inr (q, b)"
  shows "claim_settled env r ev p q"
proof -
  obtain y where y: "stamp_stream ev p = p\<lparr>p_stream_id := y\<rparr>" using stamp_stream_fields by blast
  show ?thesis
  proof (cases "decide_claim p r")
    case (Inl cw)
    then show ?thesis using assms
      by (auto simp: claim_settled_def claim_event_def claim_decision_def apply_projection_event_def fold_projection_def fold_completion_refused_def
          y Let_def split: if_splits prod.splits dest!: record_scan_Inr)
  next
    case (Inr w)
    then have "fold_completion_claimed env ev \<lparr>ccl_execution_id = i, ccl_node = clr_node r, ccl_completes_wait_seq = w,
        ccl_evidence = clr_evidence r, ccl_attestation = clr_attestation r\<rparr> (p\<lparr>p_stream_id := y\<rparr>) = Inr q"
      using assms by (simp add: claim_event_def claim_decision_def apply_projection_event_def fold_projection_def y Let_def)
    moreover have "decide_claim (p\<lparr>p_stream_id := y\<rparr>) r = Inr w" using Inr by simp
    ultimately show ?thesis using Inr by (elim accepted_claim_fold [rotated]) (auto simp: claim_settled_def)
  qed
qed






section \<open>Properties\<close>

text \<open>C5: a claim lands in the world it was decided in. Whatever other handles append between the claim's reading and its
  write: a failed claim writes nothing; a successful one either found its own event already committed, or the
  stream it extends is exactly the stream it replayed, the one event it adds records the decision taken on that
  replay, and its effect is the decision's: an accepted claim opens one claim on its node, a refusal opens none, and
  neither moves a node.\<close>

theorem claim_lands_where_decided:
  assumes "store_reachable env store" and "store_later env store store1" and "stream_distinguished env store1 scope stream"
  shows "case claim (ste_replay env) (local_repository env at ids) (\<lambda>_. store1) scope stream actor key r store of
      (Inl e, store2) \<Rightarrow> stream_log store2 \<in> {stream_log store, stream_log store1}
    | (Inr (outcome, appended), store2) \<Rightarrow> stream_log store2 = stream_log store1 \<or>
        (\<exists>p ev. let h = stream_log store scope stream in
          replay (ste_replay env) scope stream h = Inr p \<and> stream_log store1 scope stream = h \<and>
          appended = [ev] \<and> stream_log store2 scope stream = h @ [ev] \<and>
          outcome = claim_answer ev (claim_decision p r (env_sequence ev)) \<and>
          (\<forall>q. replay (ste_replay env) scope stream (h @ [ev]) = Inr q \<longrightarrow> claim_settled (re_fold (ste_replay env)) r ev p q))"
proof -
  obtain res store2 where c: "claim (ste_replay env) (local_repository env at ids) (\<lambda>_. store1) scope stream actor key r store = (res, store2)"
    by (rule prod.exhaust)
  show ?thesis
  proof (cases res)
    case (Inl e)
    then show ?thesis using store_log.claim_refused [OF assms(1,2,3) c [unfolded Inl]] by (simp add: c)
  next
    case (Inr oa)
    obtain outcome appended where oa: "oa = (outcome, appended)" by (rule prod.exhaust)
    let ?h = "stream_log store scope stream"
    show ?thesis
    proof (cases "stream_log store2 = stream_log store1")
      case False
      then obtain p ev i where w: "replay (ste_replay env) scope stream ?h = Inr p" "stream_log store1 scope stream = ?h" "appended = [ev]"
        "stream_log store2 scope stream = ?h @ [ev]" "env_kind ev = claim_event i r (claim_decision p r (env_sequence ev))"
        "outcome = claim_answer ev (claim_decision p r (env_sequence ev))"
        using store_log.claim_lands [OF assms c [unfolded Inr oa]] by blast
      have "claim_settled (re_fold (ste_replay env)) r ev p q" if q: "replay (ste_replay env) scope stream (?h @ [ev]) = Inr q" for q
        by (rule replay_snoc [OF w(1) q]) (rule claim_effect [OF w(5)])
      then show ?thesis using w(1-4,6) by (auto simp: c Inr oa Let_def)
    qed (simp add: c Inr oa)
  qed
qed



end
