(* ===== verification/Verb_Samples.thy ===== *)
theory Verb_Samples
  imports Customs_Verbs Store_Samples
begin

text \<open>
  The customs verbs on the sample store, whose one stream holds a started execution.
\<close>

definition sample_claim_request :: claim_request where
  "sample_claim_request = \<lparr>clr_node = ''n'', clr_completes_wait_seq = None, clr_evidence = [],
     clr_attestation = \<lparr>cat_asserter = ''owner'', cat_mode = OperatorAttested\<rparr>, clr_required_proof_kinds = []\<rparr>"

lemma sample_distinguished: "stream_distinguished sample_store_env sample_store sample_scope ''stream''"
  by (simp add: stream_distinguished_def digest_width_def sample_history sample_fields keys_distinct_def)

lemma sample_log: "stream_log sample_store sample_scope ''stream'' = [sample_written]"
  by (simp add: stream_log_def sample_history sample_fields own_batch_def)

theorem claim_lands_where_decided_witness:
  "case claim (ste_replay sample_store_env) (local_repository sample_store_env (Some 1) (\<lambda>_. ''e2'')) (\<lambda>_. sample_store)
      sample_scope ''stream'' sample_actor ''k2'' sample_claim_request sample_store of
     (Inl e, store) \<Rightarrow> stream_log store sample_scope ''stream'' = [sample_written]
   | (Inr (outcome, appended), store) \<Rightarrow>
       stream_log store sample_scope ''stream'' \<in> {[sample_written], sample_written # appended}"
  using claim_lands_where_decided [OF sample_reachable later_refl sample_distinguished,
      where at = "Some 1" and ids = "\<lambda>_. ''e2''" and actor = sample_actor and key = "''k2''" and r = sample_claim_request]
  by (auto simp: sample_log Let_def split: prod.splits sum.splits)



end
