(* ===== verification/Simulation_Samples.thy ===== *)
theory Simulation_Samples
  imports Simulation_Soundness Verb_Samples "HOL-Library.Code_Target_Nat"
begin

text \<open>
  One checked node, simulated with a fixture that succeeds: three transitions, a completed run, five events.
\<close>

definition checked_graph :: execution_graph where
  "checked_graph = \<lparr>eg_api_version = ''v1'', eg_kind = ''ExecutionGraph'',
     eg_metadata = \<lparr>gm_id = ''g'', gm_name = ''g'', gm_execution_id = ''e'', gm_version = 1, gm_based_on = None,
       gm_labels = om_empty, gm_properties = om_empty\<rparr>,
     eg_spec = \<lparr>gs_entrypoints = [''check''],
       gs_nodes = om_insert ''check'' \<lparr>gn_node_type = Gate, gn_name = ''check'', gn_objective = ''check'',
         gn_optionality = Required, gn_properties = om_empty\<rparr> om_empty,
       gs_edges = [], gs_budgets = default_budgets, gs_policies = [],
       gs_completion = JObject [(''terminalNodes'', JArray [JString ''check''])]\<rparr>\<rparr>"

definition checked_version :: graph_version where
  "checked_version = \<lparr>gv_graph = checked_graph, gv_content_hash = sample_hash\<rparr>"

definition checked_services :: simulation_services where
  "checked_services = \<lparr>ssv_sha_hex = (\<lambda>_. replicate 64 CHR ''0''), ssv_scope = sample_scope, ssv_stream_id = ''stream'',
     ssv_actor = sample_actor\<rparr>"

definition checked_fixtures :: simulation_fixtures where
  "checked_fixtures = \<lparr>sf_node_outcomes = om_insert ''check'' FixtureSuccess om_empty, sf_conditions = om_empty\<rparr>"

definition checked_run :: sim_state where
  "checked_run = projr (simulation_run checked_services checked_version checked_fixtures ''sim'')"

lemma checked_outcome:
  "\<not> isl (simulation_run checked_services checked_version checked_fixtures ''sim'')"
  "ss_status checked_run = SimCompleted" "length (ss_events checked_run) = 5"
  by code_simp+

lemma checked_runs: "simulation_run checked_services checked_version checked_fixtures ''sim'' = Inr checked_run"
  using checked_outcome(1) by (simp add: checked_run_def)

theorem simulation_within_estimate_witness:
  "simulation_run checked_services checked_version checked_fixtures ''sim'' = Inr checked_run \<and>
   ss_status checked_run = SimCompleted \<and> finished checked_graph checked_run \<and>
   length (ss_transitions checked_run) = 3 \<and> within_step_limit checked_graph"
proof -
  have "no_step_limit (ss_diagnostics checked_run)" by code_simp
  then show ?thesis
    using simulation_within_estimate [OF checked_runs] checked_runs checked_outcome by (simp add: checked_version_def)
qed

theorem simulate_journal_witness:
  "case simulate checked_services (local_repository sample_store_env (Some 1) (\<lambda>_. ''e2'')) (\<lambda>store. store) checked_version
      checked_fixtures ''sim'' 3 sample_store of
     (res, store) \<Rightarrow> stream_log store sample_scope ''stream'' = [sample_written] \<or>
       (\<exists>r. res = Inr r \<and> stream_log store sample_scope ''stream'' = sample_written # sr_events r)"
proof -
  have "ssv_scope checked_services = sample_scope" "ssv_stream_id checked_services = ''stream''" by (simp_all add: checked_services_def)
  then show ?thesis
    using simulate_journal [where env = sample_store_env and store = sample_store and meanwhile = "\<lambda>store. store" and services = checked_services and at = "Some 1" and
        ids = "\<lambda>_. ''e2''" and gv = checked_version and fixtures = checked_fixtures and next_id = "''sim''" and now = 3 and
        fenv = sample_env and p = default_projection and a = om_empty]
      sample_reachable later_refl [of sample_store_env sample_store] sample_distinguished
    by (auto simp: sample_log split: prod.splits)
qed

end
