(* ===== verification/Content_Scan.thy ===== *)
theory Content_Scan
  imports Persisted_Graph
begin

text \<open>
  The gate every durable text passes (\<open>core/graph/src/persistence.rs\<close>): the accounting that bounds a JSON value before any
  recursive work, the scan for secret-shaped text, and the unpadded base64url codec. Parsing a decoded JWS header is the work of
  \<open>serde_json\<close>: the parameter \<open>parse\<close>. The operation counters of the source are read by its tests only and are left out.
\<close>

datatype durable_content_error = UnsafeContent | ContentLimitExceeded

definition MAX_CONTENT_SCAN_DEPTH :: nat where "MAX_CONTENT_SCAN_DEPTH = 64"

definition MAX_CONTENT_SCAN_VALUES :: nat where "MAX_CONTENT_SCAN_VALUES = 131072"

definition MAX_CONTENT_SCAN_BYTES :: nat where "MAX_CONTENT_SCAN_BYTES = 64 * 1024 * 1024"

definition MAX_RECORD_STRING_BYTES :: nat where "MAX_RECORD_STRING_BYTES = 16 * 1024 * 1024"

definition MAX_JWS_HEADER_SEGMENT_BYTES :: nat where "MAX_JWS_HEADER_SEGMENT_BYTES = 16 * 1024"

lemmas scan_limits = MAX_CONTENT_SCAN_DEPTH_def MAX_CONTENT_SCAN_VALUES_def MAX_CONTENT_SCAN_BYTES_def
  MAX_RECORD_STRING_BYTES_def


section \<open>Accounting\<close>

record persistence_preflight =
  ppf_value_count :: nat
  ppf_bytes :: nat

definition preflight_zero :: persistence_preflight where
  "preflight_zero = \<lparr>ppf_value_count = 0, ppf_bytes = 0\<rparr>"

definition check_persistence_usage :: "persistence_preflight \<Rightarrow> durable_content_error + persistence_preflight" where
  "check_persistence_usage u =
    (if ppf_value_count u > MAX_CONTENT_SCAN_VALUES \<or> ppf_bytes u > MAX_CONTENT_SCAN_BYTES
     then Inl ContentLimitExceeded else Inr u)"

definition account_persistence_string ::
  "string \<Rightarrow> persistence_preflight \<Rightarrow> durable_content_error + persistence_preflight" where
  "account_persistence_string v u =
    (if length v > MAX_RECORD_STRING_BYTES then Inl ContentLimitExceeded
     else bindE (ok_or (usize_add (ppf_bytes u) (length v)) ContentLimitExceeded) (\<lambda>bytes.
       bindE (ok_or (usize_add (ppf_value_count u) 1) ContentLimitExceeded) (\<lambda>count.
         check_persistence_usage \<lparr>ppf_value_count = count, ppf_bytes = bytes\<rparr>)))"

definition account_persistence_scalar :: "persistence_preflight \<Rightarrow> durable_content_error + persistence_preflight" where
  "account_persistence_scalar u =
    bindE (ok_or (usize_add (ppf_value_count u) 1) ContentLimitExceeded) (\<lambda>count.
      check_persistence_usage (u\<lparr>ppf_value_count := count\<rparr>))"

text \<open>The walk keeps the open arrays and objects on a stack, the innermost first.\<close>

datatype persistence_frame = FrameArray "json list" nat | FrameObject "(string \<times> json) list" nat

fun enter_value ::
  "json \<Rightarrow> nat \<Rightarrow> persistence_frame list \<Rightarrow> persistence_preflight
   \<Rightarrow> durable_content_error + persistence_frame list \<times> persistence_preflight" where
  "enter_value v depth frames u =
    (if depth > MAX_CONTENT_SCAN_DEPTH then Inl ContentLimitExceeded
     else case v of
       JString s \<Rightarrow> bindE (account_persistence_string s u) (\<lambda>u. Inr (frames, u))
     | JArray (x # xs) \<Rightarrow> bindE (account_persistence_scalar u) (\<lambda>u.
         if depth \<ge> MAX_CONTENT_SCAN_DEPTH then Inl ContentLimitExceeded
         else Inr (FrameArray (x # xs) (depth + 1) # frames, u))
     | JObject (f # fs) \<Rightarrow> bindE (account_persistence_scalar u) (\<lambda>u.
         if depth \<ge> MAX_CONTENT_SCAN_DEPTH then Inl ContentLimitExceeded
         else Inr (FrameObject (f # fs) (depth + 1) # frames, u))
     | _ \<Rightarrow> bindE (account_persistence_scalar u) (\<lambda>u. Inr (frames, u)))"

fun next_value ::
  "persistence_frame list \<Rightarrow> persistence_preflight
   \<Rightarrow> durable_content_error + (json \<times> nat) option \<times> persistence_frame list \<times> persistence_preflight" where
  "next_value [] u = Inr (None, [], u)"
| "next_value (FrameArray [] depth # frames) u = next_value frames u"
| "next_value (FrameArray (v # vs) depth # frames) u = Inr (Some (v, depth), FrameArray vs depth # frames, u)"
| "next_value (FrameObject [] depth # frames) u = next_value frames u"
| "next_value (FrameObject ((k, v) # fs) depth # frames) u =
    bindE (account_persistence_string k u) (\<lambda>u. Inr (Some (v, depth), FrameObject fs depth # frames, u))"

fun json_weight :: "json \<Rightarrow> nat" where
  "json_weight (JArray xs) = Suc (sum_list (map json_weight xs))"
| "json_weight (JObject fs) = Suc (sum_list (map (\<lambda>f. json_weight (snd f)) fs))"
| "json_weight v = 1"

fun frame_weight :: "persistence_frame \<Rightarrow> nat" where
  "frame_weight (FrameArray vs depth) = sum_list (map json_weight vs)"
| "frame_weight (FrameObject fs depth) = sum_list (map (\<lambda>f. json_weight (snd f)) fs)"

abbreviation frames_weight :: "persistence_frame list \<Rightarrow> nat" where
  "frames_weight frames \<equiv> sum_list (map frame_weight frames)"

lemma enter_value_weight: "enter_value v depth frames u = Inr (frames', u') \<Longrightarrow> frames_weight frames' < json_weight v + frames_weight frames"
  by (cases v rule: json_weight.cases; (cases "as_array v")?; auto split: if_splits list.splits)

lemma next_value_weight:
  "next_value frames u = Inr (Some (v, depth), frames', u') \<Longrightarrow> json_weight v + frames_weight frames' = frames_weight frames"
  by (induction frames u rule: next_value.induct) auto

function preflight_loop ::
  "json \<Rightarrow> nat \<Rightarrow> persistence_frame list \<Rightarrow> persistence_preflight \<Rightarrow> durable_content_error + persistence_preflight" where
  "preflight_loop v depth frames u =
    (case enter_value v depth frames u of
       Inl e \<Rightarrow> Inl e
     | Inr (frames, u) \<Rightarrow>
         (case next_value frames u of
            Inl e \<Rightarrow> Inl e
          | Inr (None, frames, u) \<Rightarrow> Inr u
          | Inr (Some (v, depth), frames, u) \<Rightarrow> preflight_loop v depth frames u))"
  by pat_completeness auto
termination
proof (relation "measure (\<lambda>(v, depth, frames, u). json_weight v + frames_weight frames)", goal_cases)
  case (2 v depth frames u a frames1 u1 b x frames2 u2 y v2 depth2)
  then show ?case using enter_value_weight next_value_weight by fastforce
qed simp

declare preflight_loop.simps [simp del] enter_value.simps [simp del]

definition preflight_persistence_values ::
  "json list \<Rightarrow> persistence_preflight \<Rightarrow> durable_content_error + persistence_preflight" where
  "preflight_persistence_values vs u = foldE (\<lambda>v. preflight_loop v 0 []) vs u"

definition preflight_json_structure :: "json \<Rightarrow> durable_content_error + unit" where
  "preflight_json_structure v = bindE (preflight_persistence_values [v] preflight_zero) (\<lambda>_. Inr ())"


section \<open>Unpadded base64url\<close>

text \<open>Shifts and disjunctions of bytes with disjoint bits are written as arithmetic.\<close>

definition BASE64_URL :: string where
  "BASE64_URL = ''ABCDEFGHIJKLMNOPQRSTUVWXYZabcdefghijklmnopqrstuvwxyz0123456789-_''"

definition base64_digit :: "nat \<Rightarrow> char" where
  "base64_digit i = BASE64_URL ! i"

fun encode_base64url :: "string \<Rightarrow> string" where
  "encode_base64url [] = []"
| "encode_base64url [a] = [base64_digit (byte a div 4), base64_digit (byte a mod 4 * 16)]"
| "encode_base64url [a, b] =
    [base64_digit (byte a div 4), base64_digit (byte a mod 4 * 16 + byte b div 16), base64_digit (byte b mod 16 * 4)]"
| "encode_base64url (a # b # c # bytes) =
    base64_digit (byte a div 4) # base64_digit (byte a mod 4 * 16 + byte b div 16) #
    base64_digit (byte b mod 16 * 4 + byte c div 64) # base64_digit (byte c mod 64) # encode_base64url bytes"

definition decode_sextet :: "char \<Rightarrow> graph_error + nat" where
  "decode_sextet c =
    (if is_ascii_uppercase c then Inr (byte c - 65)
     else if is_ascii_lowercase c then Inr (byte c - 97 + 26)
     else if is_ascii_digit c then Inr (byte c - 48 + 52)
     else if c = CHR ''-'' then Inr 62
     else if c = CHR ''_'' then Inr 63
     else Inl InvalidProjection)"

fun decode_chunks :: "nat list \<Rightarrow> string" where
  "decode_chunks (p # q # r # s # sextets) =
    char_of (p * 4 mod 256 + q div 16) # char_of (q * 16 mod 256 + r div 4) # char_of (r * 64 mod 256 + s) # decode_chunks sextets"
| "decode_chunks [p, q, r] = [char_of (p * 4 mod 256 + q div 16), char_of (q * 16 mod 256 + r div 4)]"
| "decode_chunks [p, q] = [char_of (p * 4 mod 256 + q div 16)]"
| "decode_chunks _ = []"

definition decode_base64url :: "string \<Rightarrow> graph_error + string" where
  "decode_base64url payload =
    bindE (foldE (\<lambda>c acc. bindE (decode_sextet c) (\<lambda>s. Inr (acc @ [s]))) payload []) (\<lambda>sextets.
      let n = length sextets mod 4 in
      if n = 2 \<and> last sextets mod 16 \<noteq> 0 \<or> n = 3 \<and> last sextets mod 4 \<noteq> 0 \<or> n = 1 then Inl InvalidProjection
      else Inr (decode_chunks sextets))"


section \<open>Secret shapes\<close>

definition is_base64url :: "char \<Rightarrow> bool" where
  "is_base64url c = (is_ascii_alphanumeric c \<or> c = CHR ''_'' \<or> c = CHR ''-'')"

definition is_ascii_whitespace :: "char \<Rightarrow> bool" where
  "is_ascii_whitespace c = (byte c \<in> {9, 10, 12, 13, 32})"

definition matches_at :: "string \<Rightarrow> nat \<Rightarrow> string \<Rightarrow> bool" where
  "matches_at text start needle = (take (length needle) (drop start text) = needle)"

definition contains_bytes :: "string \<Rightarrow> string \<Rightarrow> bool" where
  "contains_bytes text needle =
    (length needle \<le> length text \<and> list_ex (\<lambda>start. matches_at text start needle) [0..<length text - length needle + 1])"

definition has_run :: "(char \<Rightarrow> bool) \<Rightarrow> string \<Rightarrow> nat \<Rightarrow> nat \<Rightarrow> bool" where
  "has_run P text start n = (start + n \<le> length text \<and> list_all P (take n (drop start text)))"

definition contains_prefixed_secret :: "string \<Rightarrow> string \<Rightarrow> nat \<Rightarrow> bool" where
  "contains_prefixed_secret text pre minimum_tail =
    (\<not> length text < length pre + minimum_tail \<and>
     list_ex (\<lambda>start. matches_at text start pre \<and> has_run is_base64url text (start + length pre) minimum_tail)
       [0..<length text - length pre + 1])"

definition structural_jws_header :: "(string \<Rightarrow> json option) \<Rightarrow> string \<Rightarrow> bool" where
  "structural_jws_header parse segment =
    (if segment = [] then False
     else if length segment > MAX_JWS_HEADER_SEGMENT_BYTES then True
     else case decode_base64url segment of
       Inl e \<Rightarrow> False
     | Inr decoded \<Rightarrow>
         (case parse decoded of
            Some (JObject header) \<Rightarrow> (case Option.bind (map_of header ''alg'') as_str of Some alg \<Rightarrow> alg \<noteq> [] | None \<Rightarrow> False)
          | _ \<Rightarrow> False))"

function jwt_scan ::
  "(string \<Rightarrow> json option) \<Rightarrow> string \<Rightarrow> (nat \<times> bool) option \<Rightarrow> (nat \<times> bool) option \<Rightarrow> bool \<Rightarrow> bool" where
  "jwt_scan parse [] previous before_previous joined = False"
| "jwt_scan parse (c # cs) previous before_previous joined =
    (if \<not> is_base64url c then
       (if c = CHR ''.'' then jwt_scan parse cs previous before_previous True
        else jwt_scan parse cs None None False)
     else
       let segment = takeWhile is_base64url (c # cs); rest = dropWhile is_base64url (c # cs);
           jwt_start = structural_jws_header parse segment in
       if joined \<and> (case before_previous of Some (_, eligible) \<Rightarrow> eligible | None \<Rightarrow> False)
          \<and> (case previous of Some (len, _) \<Rightarrow> len \<ge> 8 | None \<Rightarrow> False) \<and> length segment \<ge> 8
       then True
       else jwt_scan parse rest (Some (length segment, jwt_start)) (if joined then previous else None)
         (case rest of [] \<Rightarrow> False | d # _ \<Rightarrow> d = CHR ''.''))"
  by pat_completeness auto
termination
  by (relation "measure (\<lambda>(parse, text, _). length text)") (auto simp: less_Suc_eq_le length_dropWhile_le)

definition contains_jwt_linear :: "(string \<Rightarrow> json option) \<Rightarrow> string \<Rightarrow> bool" where
  "contains_jwt_linear parse text = jwt_scan parse text None None False"

definition is_separator :: "char \<Rightarrow> bool" where
  "is_separator c = (is_ascii_whitespace c \<or> c \<in> set '':=_-'')"

definition skip_separators :: "string \<Rightarrow> nat \<Rightarrow> nat" where
  "skip_separators text cursor = cursor + length (takeWhile is_separator (drop cursor text))"

definition is_secret_tail :: "char \<Rightarrow> bool" where
  "is_secret_tail c = (is_ascii_alphanumeric c \<or> c \<in> set ''_-.+/'')"

definition authorization_start :: "string \<Rightarrow> nat \<Rightarrow> nat \<times> nat" where
  "authorization_start text cursor =
    (if matches_at text cursor ''authorization'' then
       (let nxt = skip_separators text (cursor + length ''authorization'') in (nxt, nxt))
     else (cursor, cursor + 1))"

definition scheme_length :: "string \<Rightarrow> nat \<Rightarrow> nat option" where
  "scheme_length text start =
    (if matches_at text start ''bearer'' then Some 6 else if matches_at text start ''basic'' then Some 5 else None)"

function authorization_scan :: "string \<Rightarrow> nat \<Rightarrow> bool" where
  "authorization_scan text cursor =
    (if cursor < length text then
       (case authorization_start text cursor of (scheme_start, nxt) \<Rightarrow>
         (case scheme_length text scheme_start of
            None \<Rightarrow> authorization_scan text nxt
          | Some n \<Rightarrow>
              let tail = skip_separators text (scheme_start + n) in
              if tail > scheme_start + n \<and> has_run is_secret_tail text tail 8 then True
              else authorization_scan text (max nxt (scheme_start + n))))
     else False)"
  by pat_completeness auto
termination
  by (relation "measure (\<lambda>(text, cursor). length text - cursor)")
     (auto simp: authorization_start_def skip_separators_def Let_def max_def split: if_splits)

declare authorization_scan.simps [simp del]

definition contains_authorization_secret :: "string \<Rightarrow> bool" where
  "contains_authorization_secret text = authorization_scan text 0"

definition SECRET_NAMES :: "string list" where
  "SECRET_NAMES = [''secret'', ''password'', ''passwd'', ''credential'', ''token'', ''privatekey'', ''accesskey'', ''apikey'',
     ''databaseurl'', ''connectionstring'']"

definition compact_contains_secret_name :: "string \<Rightarrow> bool" where
  "compact_contains_secret_name text = list_ex (contains_bytes (filter is_ascii_alphanumeric text)) SECRET_NAMES"

definition ends_uri :: "char \<Rightarrow> bool" where
  "ends_uri c = (is_ascii_whitespace c \<or> byte c \<in> {39, 34, 44, 59, 41, 93, 125})"

definition ENVIRONMENT_URI :: string where "ENVIRONMENT_URI = ''environment://''"

lemma length_ENVIRONMENT_URI [simp]: "length ENVIRONMENT_URI = 14"
  by (simp add: ENVIRONMENT_URI_def)

function environment_scan :: "string \<Rightarrow> nat \<Rightarrow> bool" where
  "environment_scan text cursor =
    (if cursor + length ENVIRONMENT_URI \<le> length text then
       if \<not> matches_at text cursor ENVIRONMENT_URI then environment_scan text (cursor + 1)
       else
         let start = cursor + length ENVIRONMENT_URI; name = takeWhile (\<lambda>c. \<not> ends_uri c) (drop start text) in
         if compact_contains_secret_name name then True
         else environment_scan text (max (start + length name) (cursor + 1))
     else False)"
  by pat_completeness auto
termination
  by (relation "measure (\<lambda>(text, cursor). length text - cursor)") (auto simp: max_def)

declare environment_scan.simps [simp del]

definition contains_environment_secret_uri :: "string \<Rightarrow> bool" where
  "contains_environment_secret_uri text = environment_scan text 0"

definition contains_reference_secret_name :: "string \<Rightarrow> bool" where
  "contains_reference_secret_name text =
    (if \<not> contains_bytes text ''://'' \<and> \<not> starts_with text ''project/'' \<and> \<not> starts_with text ''builtin/'' then False
     else compact_contains_secret_name text)"

definition PEM_MARKERS :: "string list" where
  "PEM_MARKERS = [''beginprivatekey'', ''beginrsaprivatekey'', ''beginecprivatekey'', ''beginopensshprivatekey'']"

text \<open>One matched length per marker; a marker of which every byte is matched ends the scan.\<close>

definition pem_step :: "char \<Rightarrow> string \<Rightarrow> nat \<Rightarrow> nat" where
  "pem_step c marker matched =
    (if matched < length marker \<and> c = marker ! matched then matched + 1 else if c = marker ! 0 then 1 else 0)"

fun pem_scan :: "nat list \<Rightarrow> string \<Rightarrow> bool" where
  "pem_scan matched [] = False"
| "pem_scan matched (c # cs) =
    (if \<not> is_ascii_alphanumeric c then pem_scan matched cs
     else let matched = map2 (pem_step c) PEM_MARKERS matched in
       if list_ex (\<lambda>(marker, n). n = length marker) (zip PEM_MARKERS matched) then True else pem_scan matched cs)"

definition contains_compact_pem :: "string \<Rightarrow> bool" where
  "contains_compact_pem text = pem_scan (replicate 4 0) text"

definition SECRET_PREFIXES :: "(string \<times> nat) list" where
  "SECRET_PREFIXES =
    [(''ghp_'', 16), (''ghp-'', 16), (''github_pat_'', 16), (''github-pat-'', 16), (''sk-'', 20), (''sk_'', 20),
     (''akia'', 16), (''asia'', 16), (''aida'', 16), (''aroa'', 16), (''aipa'', 16), (''anpa'', 16), (''anva'', 16),
     (''glpat-'', 16), (''glpat_'', 16), (''xoxb-'', 20), (''xoxb_'', 20), (''xoxp-'', 20), (''xoxp_'', 20),
     (''xoxa-'', 20), (''xoxa_'', 20), (''xoxr-'', 20), (''xoxr_'', 20), (''xoxs-'', 20), (''xoxs_'', 20)]"

definition SECRET_URIS :: "string list" where
  "SECRET_URIS = [''secret://'', ''env://'', ''vault://'', ''credential://'']"

definition is_secret_shaped :: "(string \<Rightarrow> json option) \<Rightarrow> string \<Rightarrow> bool" where
  "is_secret_shaped parse text =
    (contains_jwt_linear parse text \<or>
     (let lower = map to_ascii_lowercase text in
        list_ex (\<lambda>(pre, n). contains_prefixed_secret lower pre n) SECRET_PREFIXES
        \<or> contains_authorization_secret lower
        \<or> contains_environment_secret_uri lower
        \<or> contains_reference_secret_name lower
        \<or> contains_compact_pem lower
        \<or> list_ex (contains_bytes lower) SECRET_URIS))"


section \<open>The scanner\<close>

record durable_content_scanner =
  dcs_values :: nat
  dcs_bytes :: nat

definition scanner_default :: durable_content_scanner where
  "scanner_default = \<lparr>dcs_values = 0, dcs_bytes = 0\<rparr>"

definition scan_text ::
  "(string \<Rightarrow> json option) \<Rightarrow> string \<Rightarrow> durable_content_scanner \<Rightarrow> durable_content_error + durable_content_scanner" where
  "scan_text parse v s =
    bindE (ok_or (usize_add (dcs_bytes s) (length v)) ContentLimitExceeded) (\<lambda>bytes.
      if bytes > MAX_CONTENT_SCAN_BYTES then Inl ContentLimitExceeded
      else if is_secret_shaped parse v then Inl UnsafeContent
      else Inr (s\<lparr>dcs_bytes := bytes\<rparr>))"

definition count_value :: "nat \<Rightarrow> durable_content_scanner \<Rightarrow> durable_content_error + durable_content_scanner" where
  "count_value depth s =
    (if depth > MAX_CONTENT_SCAN_DEPTH then Inl ContentLimitExceeded
     else bindE (ok_or (usize_add (dcs_values s) 1) ContentLimitExceeded) (\<lambda>n.
       if n > MAX_CONTENT_SCAN_VALUES then Inl ContentLimitExceeded else Inr (s\<lparr>dcs_values := n\<rparr>)))"

fun scan_json ::
  "(string \<Rightarrow> json option) \<Rightarrow> json \<Rightarrow> nat \<Rightarrow> durable_content_scanner \<Rightarrow> durable_content_error + durable_content_scanner"
  and scan_items ::
  "(string \<Rightarrow> json option) \<Rightarrow> json list \<Rightarrow> nat \<Rightarrow> durable_content_scanner \<Rightarrow> durable_content_error + durable_content_scanner"
  and scan_fields ::
  "(string \<Rightarrow> json option) \<Rightarrow> (string \<times> json) list \<Rightarrow> nat \<Rightarrow> durable_content_scanner \<Rightarrow> durable_content_error + durable_content_scanner" where
  "scan_json parse (JString t) depth s = bindE (count_value depth s) (scan_text parse t)"
| "scan_json parse (JArray xs) depth s = bindE (count_value depth s) (scan_items parse xs (depth + 1))"
| "scan_json parse (JObject fs) depth s = bindE (count_value depth s) (scan_fields parse fs (depth + 1))"
| "scan_json parse v depth s = count_value depth s"
| "scan_items parse [] depth s = Inr s"
| "scan_items parse (x # xs) depth s = bindE (scan_json parse x depth s) (scan_items parse xs depth)"
| "scan_fields parse [] depth s = Inr s"
| "scan_fields parse ((k, v) # fs) depth s =
    bindE (scan_text parse k s) (\<lambda>s. bindE (scan_json parse v depth s) (scan_fields parse fs depth))"

definition validate_durable_content :: "(string \<Rightarrow> json option) \<Rightarrow> json \<Rightarrow> string list \<Rightarrow> durable_content_error + unit" where
  "validate_durable_content parse v additional_strings =
    bindE (preflight_json_structure v) (\<lambda>_.
    bindE (scan_json parse v 0 scanner_default) (\<lambda>s.
    bindE (foldE (scan_text parse) additional_strings s) (\<lambda>_. Inr ())))"

end
