(* ===== verification/References.thy ===== *)
theory References
  imports Content_Scan
begin

text \<open>
  The reference grammar of a persisted graph (\<open>core/graph/src/persistence.rs\<close>): the closed forms a durable reference may have,
  its canonical \<open>refv1\<close> encoding, the bindings kept inline, the family each control position is closed to, and the check of every
  reference position of a graph version. A byte string that is not UTF-8 is not ASCII, so the conversion of the decoded bytes to
  text is part of the registration check, which fails with the same error.
\<close>

section \<open>Tokens and versions\<close>

definition nominal_token :: "string \<Rightarrow> bool \<Rightarrow> bool" where
  "nominal_token v uppercase =
    (v \<noteq> [] \<and> length v \<le> 64 \<and> is_ascii_alphanumeric (hd v) \<and>
     list_all (\<lambda>c. is_ascii_digit c \<or> is_ascii_lowercase c \<or> uppercase \<and> is_ascii_uppercase c \<or> c \<in> set ''._-'') v \<and>
     \<not> contains_sub v ''..'' \<and> v \<noteq> ''.'' \<and> v \<noteq> ''..'')"

definition numeric_version :: "string \<Rightarrow> bool" where
  "numeric_version v = (v \<noteq> [] \<and> length v \<le> 10 \<and> hd v \<noteq> CHR ''0'' \<and> list_all is_ascii_digit v)"

definition split_version :: "string \<Rightarrow> string \<times> string option" where
  "split_version v =
    (case split_once ''@'' (rev v) of Some (version, token) \<Rightarrow> (rev token, Some (rev version)) | None \<Rightarrow> (v, None))"

definition slash_reference :: "string \<Rightarrow> string \<Rightarrow> nat \<Rightarrow> nat \<Rightarrow> bool" where
  "slash_reference v pre minimum maximum =
    (case strip_prefix pre v of
       None \<Rightarrow> False
     | Some tail \<Rightarrow>
         (case split_version tail of (path, version) \<Rightarrow>
            (case version of Some n \<Rightarrow> numeric_version n | None \<Rightarrow> True) \<and>
            (let segments = split_on CHR ''/'' path in
               list_all (\<lambda>s. nominal_token s True) segments \<and> minimum \<le> length segments \<and> length segments \<le> maximum)))"

definition reference_with_token :: "string \<Rightarrow> string \<Rightarrow> bool \<Rightarrow> bool" where
  "reference_with_token v pre version_optional =
    (case strip_prefix pre v of
       None \<Rightarrow> False
     | Some tail \<Rightarrow>
         (case split_version tail of (token, version) \<Rightarrow>
            nominal_token token True \<and> (case version of Some n \<Rightarrow> numeric_version n | None \<Rightarrow> version_optional)))"

definition environment_reference :: "string \<Rightarrow> bool" where
  "environment_reference v =
    (case strip_prefix ''environment://'' v of
       None \<Rightarrow> False
     | Some token \<Rightarrow> nominal_token token False \<and> CHR ''@'' \<notin> set token \<and> \<not> compact_contains_secret_name token)"

definition schema_name :: "string \<Rightarrow> bool" where
  "schema_name v =
    (case Option.bind (strip_prefix ''https://p50.dev/schemas/'' v) (strip_suffix ''.schema.json'') of
       None \<Rightarrow> False
     | Some name \<Rightarrow> nominal_token name False)"

definition SCHEMA_DIALECT :: string where
  "SCHEMA_DIALECT = ''https://json-schema.org/draft/2020-12/schema''"

definition exact_schema_identity :: "string \<Rightarrow> bool" where
  "exact_schema_identity v = (if v = SCHEMA_DIALECT then True else schema_name v)"

definition is_artifact_reference :: "string \<Rightarrow> bool" where
  "is_artifact_reference v =
    (if (case strip_prefix ''artifact://sha256/'' v of
           None \<Rightarrow> False
         | Some digest \<Rightarrow> length digest = 64 \<and> list_all (\<lambda>c. is_ascii_digit c \<or> 97 \<le> byte c \<and> byte c \<le> 102) digest)
     then True
     else case strip_prefix ''artifact://'' v of
       None \<Rightarrow> False
     | Some token \<Rightarrow> nominal_token token True \<and> CHR ''/'' \<notin> set token \<and> CHR '':'' \<notin> set token)"

definition is_ascii :: "string \<Rightarrow> bool" where
  "is_ascii v = list_all (\<lambda>c. byte c < 128) v"

definition is_registered_reference :: "string \<Rightarrow> bool" where
  "is_registered_reference v =
    (is_ascii v \<and> \<not> contains_reference_secret_name v \<and>
     (is_artifact_reference v
      \<or> exact_schema_identity v
      \<or> reference_with_token v ''schema://'' False
      \<or> reference_with_token v ''context-policy://'' True
      \<or> reference_with_token v ''contract://'' True
      \<or> reference_with_token v ''rules://'' True
      \<or> reference_with_token v ''graph-template://'' True
      \<or> reference_with_token v ''evaluator://'' True
      \<or> reference_with_token v ''deploy://'' True
      \<or> slash_reference v ''policy://'' 2 3
      \<or> slash_reference v ''project/'' 1 2
      \<or> slash_reference v ''builtin/'' 1 2
      \<or> slash_reference v ''context://'' 1 4
      \<or> slash_reference v ''document://'' 1 4
      \<or> environment_reference v))"


section \<open>The canonical encoding\<close>

definition REFERENCE_PREFIX :: string where "REFERENCE_PREFIX = ''refv1:''"

definition MAX_REFERENCE_BYTES :: nat where "MAX_REFERENCE_BYTES = 91"

definition safe_value_parse :: "string \<Rightarrow> graph_error + string" where
  "safe_value_parse v = (if is_safe_value v then Inr v else Inl InvalidProjection)"

definition encode_persisted_reference :: "string \<Rightarrow> graph_error + string" where
  "encode_persisted_reference v =
    (if length v > MAX_REFERENCE_BYTES \<or> \<not> is_registered_reference v then Inl InvalidProjection
     else safe_value_parse (REFERENCE_PREFIX @ encode_base64url v))"

definition decode_persisted_reference :: "string \<Rightarrow> graph_error + string" where
  "decode_persisted_reference encoded =
    (if length encoded > 128 then Inl InvalidProjection
     else case strip_prefix REFERENCE_PREFIX encoded of
       None \<Rightarrow> Inl InvalidProjection
     | Some payload \<Rightarrow>
         if payload = [] \<or> length payload mod 4 = 1 \<or> CHR ''='' \<in> set payload then Inl InvalidProjection
         else bindE (decode_base64url payload) (\<lambda>decoded.
           if length decoded > MAX_REFERENCE_BYTES \<or> \<not> is_registered_reference decoded then Inl InvalidProjection
           else bindE (encode_persisted_reference decoded) (\<lambda>canonical.
             if canonical \<noteq> encoded then Inl InvalidProjection else Inr decoded)))"

definition parse_persisted_nominal_identifier :: "string \<Rightarrow> graph_error + string" where
  "parse_persisted_nominal_identifier v =
    (if v = [] \<or> length v > 64 \<or> \<not> is_ascii_alphanumeric (hd v) \<or>
        \<not> list_all (\<lambda>c. is_ascii_digit c \<or> is_ascii_lowercase c \<or> c \<in> set ''_-'') v
     then Inl InvalidProjection else safe_value_parse v)"


section \<open>Bindings\<close>

definition valid_binding_token :: "string \<Rightarrow> bool" where
  "valid_binding_token v =
    (v \<noteq> [] \<and> length v \<le> 64 \<and> is_ascii_alphanumeric (hd v) \<and> list_all (\<lambda>c. is_ascii_alphanumeric c \<or> c \<in> set ''_-'') v)"

definition valid_binding_owner :: "string \<Rightarrow> bool" where
  "valid_binding_owner v = (is_opaque_id v \<and> valid_binding_token v)"

definition is_binding_reference :: "string \<Rightarrow> bool" where
  "is_binding_reference v = (is_artifact_reference v \<or> slash_reference v ''context://'' 1 4 \<or> environment_reference v)"

definition is_valid_isolation_tier :: "string \<Rightarrow> bool" where
  "is_valid_isolation_tier v = (v \<in> {''tier_0'', ''tier_1'', ''tier_2'', ''tier_3''})"

definition parse_persisted_binding_reference_node :: "string \<Rightarrow> graph_error + string option" where
  "parse_persisted_binding_reference_node v =
    (if starts_with v REFERENCE_PREFIX then
       bindE (decode_persisted_reference v) (\<lambda>decoded.
         if \<not> is_binding_reference decoded then Inl InvalidProjection else Inr None)
     else if length v > 128 then Inl InvalidProjection
     else let parts = split_on CHR ''.'' v; lower = map to_ascii_lowercase v in
       if \<not> (3 \<le> length parts \<and> length parts \<le> 8)
          \<or> parts ! 0 \<notin> {''outputs'', ''nodes''}
          \<or> \<not> valid_binding_owner (parts ! 1)
          \<or> list_ex (\<lambda>part. \<not> valid_binding_token part) (drop 2 parts)
          \<or> parts ! 0 = ''nodes'' \<and> parts ! 2 \<noteq> ''output''
          \<or> compact_contains_secret_name lower
       then Inl InvalidProjection else Inr (Some (parts ! 1)))"

definition parse_persisted_binding :: "string \<Rightarrow> graph_error + string" where
  "parse_persisted_binding v = bindE (parse_persisted_binding_reference_node v) (\<lambda>_. safe_value_parse v)"


section \<open>Reference positions\<close>

datatype persisted_reference_domain_kind =
    DomainAgent | DomainArtifact | DomainCompletionRequirement | DomainContextInclude | DomainContextPolicy | DomainContract
  | DomainDeployAdapter | DomainDirective | DomainEnvironment | DomainEvaluator | DomainGraphTemplate | DomainPolicy
  | DomainRules | DomainSchema | DomainSchemaDialect | DomainSchemaIdentity | DomainTool | DomainDocument

definition indexed_reference_key :: "string \<Rightarrow> string \<Rightarrow> bool" where
  "indexed_reference_key v pre =
    (case strip_prefix pre v of None \<Rightarrow> False | Some index \<Rightarrow> length index = 3 \<and> list_all is_ascii_digit index)"

definition persisted_reference_domain :: "string \<Rightarrow> string \<Rightarrow> persisted_reference_domain_kind option" where
  "persisted_reference_domain control_type key =
    (if control_type = ''agent_configuration'' then
       (if key = ''agentRef'' then Some DomainAgent
        else if key = ''inputSchema'' \<or> key = ''resultSchema'' then Some DomainSchema
        else if key = ''directiveRef'' then Some DomainDirective
        else None)
     else if control_type = ''node_agents'' \<and> indexed_reference_key key ''agentRef.'' then Some DomainAgent
     else if control_type = ''agent_evidence_requirements'' \<and> indexed_reference_key key ''ref.'' then Some DomainArtifact
     else if control_type = ''input_contract'' \<or> control_type = ''output_contract'' then
       (if key = ''schema'' then Some DomainSchema
        else if key = ''schemaId'' then Some DomainSchemaIdentity
        else if key = ''schemaDialect'' then Some DomainSchemaDialect
        else if key = ''publishAs'' then Some DomainArtifact
        else None)
     else if (control_type = ''agent_context_strategy'' \<or> control_type = ''node_context'') \<and> key = ''policyRef''
       then Some DomainContextPolicy
     else if control_type = ''node_context'' \<and> indexed_reference_key key ''includeRef.'' then Some DomainContextInclude
     else if (control_type = ''agent_memory_policy'' \<or> control_type = ''node_memory'') \<and> key = ''policyRef''
       then Some DomainContextPolicy
     else if control_type = ''node_configuration'' \<and> key = ''targetRef'' then Some DomainEnvironment
     else if control_type = ''edge_condition'' \<and> key = ''schema'' then Some DomainSchema
     else if control_type = ''tool_configuration'' \<and> key = ''toolRef'' then Some DomainTool
     else if control_type = ''classifier_configuration'' \<and> key = ''rulesRef'' then Some DomainRules
     else if control_type = ''gate_configuration'' \<and> indexed_reference_key key ''evaluator.'' then Some DomainEvaluator
     else if control_type = ''join_configuration'' \<and> key = ''resultSchema'' then Some DomainSchema
     else if control_type = ''subgraph_configuration'' \<and> key = ''graphRef'' then Some DomainGraphTemplate
     else if control_type = ''subgraph_configuration'' \<and> indexed_reference_key key ''parameterValue.'' then Some DomainArtifact
     else if control_type = ''materializer_configuration'' \<and> key = ''target'' then Some DomainDocument
     else if (control_type = ''deploy_configuration'' \<or> control_type = ''rollback_configuration'') \<and> key = ''adapterRef''
       then Some DomainDeployAdapter
     else if control_type = ''deploy_configuration'' \<and> indexed_reference_key key ''precondition.'' then Some DomainArtifact
     else if control_type = ''node_completion'' \<and> key = ''contractRef'' then Some DomainContract
     else if control_type = ''node_completion'' \<and>
         (indexed_reference_key key ''requiresArtifact.'' \<or> indexed_reference_key key ''forbidsArtifact.'')
       then Some DomainArtifact
     else if control_type = ''policy_control'' \<and> key = ''policyRef'' then Some DomainPolicy
     else if control_type = ''graph_completion'' \<and> indexed_reference_key key ''requirement.'' then Some DomainCompletionRequirement
     else None)"

fun reference_matches_domain :: "string \<Rightarrow> persisted_reference_domain_kind \<Rightarrow> bool" where
  "reference_matches_domain v DomainAgent = slash_reference v ''project/'' 1 2"
| "reference_matches_domain v DomainArtifact = is_artifact_reference v"
| "reference_matches_domain v DomainCompletionRequirement = (is_artifact_reference v \<or> slash_reference v ''document://'' 1 4)"
| "reference_matches_domain v DomainContextInclude =
    (is_artifact_reference v \<or> slash_reference v ''context://'' 1 4 \<or> slash_reference v ''document://'' 1 4)"
| "reference_matches_domain v DomainContextPolicy = reference_with_token v ''context-policy://'' True"
| "reference_matches_domain v DomainContract = reference_with_token v ''contract://'' True"
| "reference_matches_domain v DomainDeployAdapter = reference_with_token v ''deploy://'' True"
| "reference_matches_domain v DomainDirective = (is_artifact_reference v \<or> reference_with_token v ''contract://'' True)"
| "reference_matches_domain v DomainEnvironment = environment_reference v"
| "reference_matches_domain v DomainEvaluator = reference_with_token v ''evaluator://'' True"
| "reference_matches_domain v DomainGraphTemplate = reference_with_token v ''graph-template://'' True"
| "reference_matches_domain v DomainPolicy = slash_reference v ''policy://'' 2 3"
| "reference_matches_domain v DomainRules = reference_with_token v ''rules://'' True"
| "reference_matches_domain v DomainSchema = reference_with_token v ''schema://'' False"
| "reference_matches_domain v DomainSchemaDialect = (v = SCHEMA_DIALECT)"
| "reference_matches_domain v DomainSchemaIdentity = schema_name v"
| "reference_matches_domain v DomainTool = slash_reference v ''builtin/'' 1 2"
| "reference_matches_domain v DomainDocument = slash_reference v ''document://'' 1 4"

definition validate_context_include_reference :: "string \<Rightarrow> string \<Rightarrow> graph_error + unit" where
  "validate_context_include_reference include_type v =
    (if include_type = ''document'' \<and> reference_matches_domain v DomainDocument then Inr () else Inl InvalidProjection)"

definition require_binding :: "string \<Rightarrow> graph_error + unit" where
  "require_binding v = bindE (parse_persisted_binding v) (\<lambda>_. Inr ())"

definition reject_unexpected_reference :: "string \<Rightarrow> graph_error + unit" where
  "reject_unexpected_reference v = (if starts_with v REFERENCE_PREFIX then Inl InvalidProjection else Inr ())"

definition validate_identifier_reference :: "string \<Rightarrow> string \<Rightarrow> string \<Rightarrow> graph_error + unit" where
  "validate_identifier_reference control_type key v =
    (if (control_type = ''input_contract'' \<or> control_type = ''output_contract'') \<and> indexed_reference_key key ''bindingValue.''
     then require_binding v
     else case persisted_reference_domain control_type key of
       Some domain \<Rightarrow>
         if domain = DomainDirective \<and> \<not> starts_with v REFERENCE_PREFIX
         then bindE (parse_persisted_nominal_identifier v) (\<lambda>_. Inr ())
         else bindE (decode_persisted_reference v) (\<lambda>raw.
           if \<not> reference_matches_domain raw domain then Inl InvalidProjection else Inr ())
     | None \<Rightarrow> reject_unexpected_reference v)"

definition validate_persisted_control_references :: "persisted_control \<Rightarrow> graph_error + unit" where
  "validate_persisted_control_references control =
    bindE (reject_unexpected_reference (pc_control_type control)) (\<lambda>_.
      foldE (\<lambda>(key, v) _. validate_identifier_reference (pc_control_type control) key v) (om_entries (pc_identifiers control)) ())"

definition validate_persisted_references :: "persisted_graph_version \<Rightarrow> graph_error + unit" where
  "validate_persisted_references version =
    (let topology = pgv_topology version in
     bindE (foldE (\<lambda>v _. reject_unexpected_reference v) (om_values (pt_labels topology)) ()) (\<lambda>_.
     bindE (foldE (\<lambda>node _. foldE (\<lambda>control _. validate_persisted_control_references control) (pn_controls node) ())
              (om_values (pt_nodes topology)) ()) (\<lambda>_.
     bindE (foldE (\<lambda>edge _.
              bindE (foldE (\<lambda>v _. require_binding v) (om_values (pe_bindings edge)) ()) (\<lambda>_.
                case pe_condition edge of Some condition \<Rightarrow> validate_persisted_control_references condition | None \<Rightarrow> Inr ()))
              (pt_edges topology) ()) (\<lambda>_.
     bindE (foldE (\<lambda>policy _. validate_persisted_control_references policy) (pt_policies topology) ()) (\<lambda>_.
       validate_persisted_control_references (pt_completion topology))))))"

end
