(* ===== verification/Reference_Codec.thy ===== *)
theory Reference_Codec
  imports References
begin

text \<open>
  The reference codec is a bijection: the unpadded base64url codec loses nothing and accepts nothing that it does not
  produce, so each registered reference has exactly one durable spelling.
\<close>

section \<open>Sextets\<close>

lemma BASE64_URL_bytes: "map byte BASE64_URL = [65..<91] @ [97..<123] @ [48..<58] @ [45, 95]"
  unfolding BASE64_URL_def by code_simp

lemma byte_digit: "i < 64 \<Longrightarrow> byte (base64_digit i) = (if i < 26 then i + 65 else if i < 52 then i + 71 else if i < 62 then i - 4 else if i = 62 then 45 else 95)"
proof -
  assume i: "i < 64"
  have "length BASE64_URL = 64" using arg_cong [OF BASE64_URL_bytes, of length] by simp
  then have b: "byte (base64_digit i) = ([65..<91] @ [97..<123] @ [48..<58] @ [45, 95]) ! i" 
    unfolding base64_digit_def BASE64_URL_bytes [symmetric] using i by (intro nth_map [symmetric]) simp
  note b also have "\<dots> = (if i < 91 - 65 then [65..<91] ! i else if i - (91 - 65) < 123 - 97 then [97..<123] ! (i - (91 - 65))
      else if i - (91 - 65) - (123 - 97) < 58 - 48 then [48..<58] ! (i - (91 - 65) - (123 - 97))
      else [45, 95] ! (i - (91 - 65) - (123 - 97) - (58 - 48)))"
    by (simp only: nth_append length_upt)
  also have "\<dots> = (if i < 91 - 65 then 65 + i else if i - (91 - 65) < 123 - 97 then 97 + (i - (91 - 65))
      else if i - (91 - 65) - (123 - 97) < 58 - 48 then 48 + (i - (91 - 65) - (123 - 97))
      else [45, 95] ! (i - (91 - 65) - (123 - 97) - (58 - 48)))"
    by (intro if_cong refl nth_upt) simp_all
  finally have v: "byte (base64_digit i) = (if i < 91 - 65 then 65 + i else if i - (91 - 65) < 123 - 97 then 97 + (i - (91 - 65))
      else if i - (91 - 65) - (123 - 97) < 58 - 48 then 48 + (i - (91 - 65) - (123 - 97))
      else [45, 95] ! (i - (91 - 65) - (123 - 97) - (58 - 48)))" .
  consider "i < 26" | "26 \<le> i" "i < 52" | "52 \<le> i" "i < 62" | "i = 62" | "i = 63" using i by linarith
  then show ?thesis unfolding v by cases (simp_all, linarith)
qed

lemma byte_inj: "byte a = byte b \<longleftrightarrow> a = b"
  by (simp add: byte_def)
lemma char_eq_byte: "byte CHR ''-'' = 45" "byte CHR ''_'' = 95"
  by (simp_all add: byte_def)

lemma decode_sextet_Inr: "decode_sextet c = Inr s \<longleftrightarrow> s < 64 \<and> c = base64_digit s"
proof -
  have d: "c = CHR ''-'' \<longleftrightarrow> byte c = 45" "c = CHR ''_'' \<longleftrightarrow> byte c = 95"
    using byte_inj [of c "CHR ''-''"] byte_inj [of c "CHR ''_''"] unfolding char_eq_byte by blast+
  have "s < 64 \<and> c = base64_digit s \<longleftrightarrow> s < 64 \<and> byte c = (if s < 26 then s + 65 else if s < 52 then s + 71 else if s < 62 then s - 4 else if s = 62 then 45 else 95)"
    using byte_digit [of s] byte_inj [of c "base64_digit s"] by (cases "s < 64") simp_all
  also have "\<dots> \<longleftrightarrow> decode_sextet c = Inr s"
    unfolding decode_sextet_def d is_ascii_uppercase_def is_ascii_lowercase_def is_ascii_digit_def
    by (auto split: if_splits)
  finally show ?thesis ..
qed

fun sextets :: "string \<Rightarrow> nat list" where
  "sextets [] = []"
| "sextets [a] = [byte a div 4, byte a mod 4 * 16]"
| "sextets [a, b] = [byte a div 4, byte a mod 4 * 16 + byte b div 16, byte b mod 16 * 4]"
| "sextets (a # b # c # bytes) =
    byte a div 4 # (byte a mod 4 * 16 + byte b div 16) # (byte b mod 16 * 4 + byte c div 64) # byte c mod 64 # sextets bytes"

lemma encode_base64url_sextets: "encode_base64url bytes = map base64_digit (sextets bytes)"
  by (induction bytes rule: sextets.induct) simp_all

lemma byte_bound: "byte c < 256"
  using nat_of_char_less_256 [of c] by (simp add: byte_def)

lemma byte_char_of: "byte (char_of n) = n mod 256"
  by (simp add: byte_def)

lemma char_of_byte: "char_of (byte c) = c"
  by (simp add: byte_def)

lemma sextet_bounds:
  "byte a div 4 < 64" "byte a mod 4 * 16 + byte b div 16 < 64" "byte b mod 16 * 4 + byte c div 64 < 64"
  using byte_bound [of a] byte_bound [of b] byte_bound [of c] by linarith+

lemma sextets_bound: "list_all (\<lambda>s. s < 64) (sextets bytes)"
  by (induction bytes rule: sextets.induct) (use sextet_bounds sextet_bounds(2) [where b = "char_of (0 :: nat)"]
      sextet_bounds(3) [where c = "char_of (0 :: nat)"] in \<open>simp_all add: byte_char_of\<close>)

lemma digit_pair:
  fixes x y m :: nat
  assumes "y < m"
  shows "(x * m + y) div m = x" "(x * m + y) mod m = y"
  using assms by simp_all

lemma shift_mod:
  fixes x :: nat
  shows "x * 4 mod 256 = x mod 64 * 4" "x * 16 mod 256 = x mod 16 * 16" "x * 64 mod 256 = x mod 4 * 64"
  using mod_mult_mult2 [of x 4 64] mod_mult_mult2 [of x 16 16] mod_mult_mult2 [of x 64 4] by simp_all

lemma sextet_arith:
  fixes a b c :: nat
  assumes "a < 256" "b < 256" "c < 256"
  shows "a div 4 * 4 mod 256 + (a mod 4 * 16 + b div 16) div 16 = a"
    and "(a mod 4 * 16 + b div 16) * 16 mod 256 + (b mod 16 * 4 + c div 64) div 4 = b"
    and "(b mod 16 * 4 + c div 64) * 64 mod 256 + c mod 64 = c"
proof -
  have lt: "a div 4 < 64" "b div 16 < 16" "c div 64 < 4" using assms by linarith+
  show "a div 4 * 4 mod 256 + (a mod 4 * 16 + b div 16) div 16 = a"
    unfolding shift_mod digit_pair [OF lt(2)] mod_less [OF lt(1)] by (rule div_mult_mod_eq)
  show "(a mod 4 * 16 + b div 16) * 16 mod 256 + (b mod 16 * 4 + c div 64) div 4 = b"
    unfolding shift_mod digit_pair [OF lt(2)] digit_pair [OF lt(3)] by (rule div_mult_mod_eq)
  show "(b mod 16 * 4 + c div 64) * 64 mod 256 + c mod 64 = c"
    unfolding shift_mod digit_pair [OF lt(3)] by (rule div_mult_mod_eq)
qed

fun canonical_sextets :: "nat list \<Rightarrow> bool" where
  "canonical_sextets [] = True"
| "canonical_sextets [p] = False"
| "canonical_sextets [p, q] = (q mod 16 = 0)"
| "canonical_sextets [p, q, r] = (r mod 4 = 0)"
| "canonical_sextets (p # q # r # s # ss) = canonical_sextets ss"

lemma canonical_sextets_iff:
  "canonical_sextets ss \<longleftrightarrow>
    \<not> (length ss mod 4 = 2 \<and> last ss mod 16 \<noteq> 0 \<or> length ss mod 4 = 3 \<and> last ss mod 4 \<noteq> 0 \<or> length ss mod 4 = 1)"
proof (induction ss rule: canonical_sextets.induct)
  case (5 p q r s ss)
  have "length (p # q # r # s # ss) mod 4 = length ss mod 4" by simp
  then show ?case using 5 by (cases ss) simp_all
qed simp_all

lemma canonical_sextets_sextets: "canonical_sextets (sextets bytes)"
  by (induction bytes rule: sextets.induct) simp_all

lemma decode_chunks_sextets: "decode_chunks (sextets bytes) = bytes"
proof (induction bytes rule: sextets.induct)
  case (2 a)
  show ?case using sextet_arith(1) [of "byte a" 0 0] byte_bound [of a] by (simp add: char_of_byte)
next
  case (3 a b)
  show ?case using sextet_arith(1,2) [of "byte a" "byte b" 0] byte_bound [of a] byte_bound [of b] by (simp add: char_of_byte)
next
  case (4 a b c bytes)
  then show ?case using sextet_arith [of "byte a" "byte b" "byte c"] byte_bound [of a] byte_bound [of b] byte_bound [of c]
    by (simp add: char_of_byte)
qed simp

lemma chunk_arith:
  fixes p q r s :: nat
  assumes "p < 64" "q < 64" "r < 64" "s < 64"
  shows "p * 4 mod 256 + q div 16 < 256" "q * 16 mod 256 + r div 4 < 256" "r * 64 mod 256 + s < 256"
    and "(p * 4 mod 256 + q div 16) div 4 = p"
    and "(p * 4 mod 256 + q div 16) mod 4 * 16 + (q * 16 mod 256 + r div 4) div 16 = q"
    and "(q * 16 mod 256 + r div 4) mod 16 * 4 + (r * 64 mod 256 + s) div 64 = r"
    and "(r * 64 mod 256 + s) mod 64 = s"
    and "q mod 16 = 0 \<Longrightarrow> (p * 4 mod 256 + q div 16) mod 4 * 16 = q"
    and "r mod 4 = 0 \<Longrightarrow> (q * 16 mod 256 + r div 4) mod 16 * 4 = r"
proof -
  have lt: "q div 16 < 4" "r div 4 < 16" using assms by linarith+
  have sh: "p * 4 mod 256 = p * 4" using assms(1) by (simp add: shift_mod)
  have md: "q mod 16 < 16" "r mod 4 < 4" by simp_all
  show "p * 4 mod 256 + q div 16 < 256" unfolding sh using lt assms(1) by linarith
  show "q * 16 mod 256 + r div 4 < 256" unfolding shift_mod using lt md by linarith
  show "r * 64 mod 256 + s < 256" unfolding shift_mod using assms(4) md by linarith
  show "(p * 4 mod 256 + q div 16) div 4 = p" unfolding sh digit_pair [OF lt(1)] ..
  show "(p * 4 mod 256 + q div 16) mod 4 * 16 + (q * 16 mod 256 + r div 4) div 16 = q"
    unfolding sh shift_mod digit_pair [OF lt(1)] digit_pair [OF lt(2)] by (rule div_mult_mod_eq)
  show "(q * 16 mod 256 + r div 4) mod 16 * 4 + (r * 64 mod 256 + s) div 64 = r"
    unfolding shift_mod digit_pair [OF lt(2)] digit_pair [OF assms(4)] by (rule div_mult_mod_eq)
  show "(r * 64 mod 256 + s) mod 64 = s" unfolding shift_mod digit_pair [OF assms(4)] ..
  show "q mod 16 = 0 \<Longrightarrow> (p * 4 mod 256 + q div 16) mod 4 * 16 = q"
    unfolding sh digit_pair [OF lt(1)] using div_mult_mod_eq [of q 16] by simp
  show "r mod 4 = 0 \<Longrightarrow> (q * 16 mod 256 + r div 4) mod 16 * 4 = r"
    unfolding shift_mod digit_pair [OF lt(2)] using div_mult_mod_eq [of r 4] by simp
qed

lemma sextets_decode_chunks: "list_all (\<lambda>s. s < 64) ss \<Longrightarrow> canonical_sextets ss \<Longrightarrow> sextets (decode_chunks ss) = ss"
proof (induction ss rule: canonical_sextets.induct)
  case (3 p q)
  then show ?case using chunk_arith(1,4,8) [of p q 0 0] by (simp add: byte_char_of)
next
  case (4 p q r)
  then show ?case using chunk_arith(1,2,4,5,9) [of p q r 0] by (simp add: byte_char_of)
next
  case (5 p q r s ss)
  then show ?case using chunk_arith(1-7) [of p q r s] by (simp add: byte_char_of)
qed simp_all

lemma decode_all:
  "foldE (\<lambda>c acc. bindE (decode_sextet c) (\<lambda>s. Inr (acc @ [s]))) payload acc = Inr ss \<longleftrightarrow>
    (\<exists>ts. ss = acc @ ts \<and> list_all (\<lambda>s. s < 64) ts \<and> payload = map base64_digit ts)"
proof (induction payload arbitrary: acc)
  case (Cons c payload)
  have "foldE (\<lambda>c acc. bindE (decode_sextet c) (\<lambda>s. Inr (acc @ [s]))) (c # payload) acc = Inr ss \<longleftrightarrow>
      (\<exists>s ts. s < 64 \<and> c = base64_digit s \<and> ss = (acc @ [s]) @ ts \<and> list_all (\<lambda>s. s < 64) ts \<and> payload = map base64_digit ts)"
    by (auto simp: Cons.IH decode_sextet_Inr)
  also have "\<dots> \<longleftrightarrow> (\<exists>ts. ss = acc @ ts \<and> list_all (\<lambda>s. s < 64) ts \<and> c # payload = map base64_digit ts)"
    by (force simp: Cons_eq_map_conv)
  finally show ?case .
qed auto

lemma decode_base64url_exact: "decode_base64url payload = Inr bytes \<longleftrightarrow> payload = encode_base64url bytes"
proof -
  have "decode_base64url payload = Inr bytes \<longleftrightarrow>
      (\<exists>ss. list_all (\<lambda>s. s < 64) ss \<and> payload = map base64_digit ss \<and> canonical_sextets ss \<and> bytes = decode_chunks ss)"
    unfolding decode_base64url_def Let_def canonical_sextets_iff bindE_eq_Inr decode_all by (intro ex_cong1) auto
  also have "\<dots> \<longleftrightarrow> payload = map base64_digit (sextets bytes)"
    using sextets_decode_chunks sextets_bound [of bytes] canonical_sextets_sextets [of bytes] decode_chunks_sextets [of bytes] by force
  finally show ?thesis by (simp add: encode_base64url_sextets)
qed


section \<open>References\<close>

lemma encode_base64url_chars: "list_all is_base64url (encode_base64url v)"
proof -
  have "is_base64url (base64_digit s)" if "s < 64" for s
  proof -
    have "decode_sextet (base64_digit s) = Inr s" using that by (simp add: decode_sextet_Inr)
    then show ?thesis
      by (auto simp: decode_sextet_def is_base64url_def is_ascii_alphanumeric_def is_ascii_alphabetic_def split: if_splits)
  qed
  then show ?thesis using sextets_bound [of v] by (simp add: encode_base64url_sextets list_all_iff)
qed

lemma encoded_reference_fits:
  assumes "length v \<le> MAX_REFERENCE_BYTES"
  shows "length (REFERENCE_PREFIX @ encode_base64url v) \<le> 128" "is_safe_value (REFERENCE_PREFIX @ encode_base64url v)"
proof -
  have len: "length (sextets v) * 3 \<le> length v * 4 + 2" for v by (induction v rule: sextets.induct) simp_all
  show le: "length (REFERENCE_PREFIX @ encode_base64url v) \<le> 128"
    using len [of v] assms by (simp add: REFERENCE_PREFIX_def MAX_REFERENCE_BYTES_def encode_base64url_sextets)
  have "list_all (\<lambda>c. is_ascii_alphanumeric c \<or> c \<in> set ''._:-'') (encode_base64url v)"
    using encode_base64url_chars [of v] unfolding list_all_iff by (auto simp: is_base64url_def)
  then show "is_safe_value (REFERENCE_PREFIX @ encode_base64url v)"
    using le by (simp add: is_safe_value_def REFERENCE_PREFIX_def ascii_defs)
qed

lemma registered_not_empty: "is_registered_reference v \<Longrightarrow> v \<noteq> []"
proof
  have "\<not> is_registered_reference []" by code_simp
  then show "is_registered_reference v \<Longrightarrow> v = [] \<Longrightarrow> False" by simp
qed

lemma encode_persisted_reference_Inr:
  "encode_persisted_reference v = Inr encoded \<longleftrightarrow>
    length v \<le> MAX_REFERENCE_BYTES \<and> is_registered_reference v \<and> encoded = REFERENCE_PREFIX @ encode_base64url v"
  using encoded_reference_fits [of v] by (auto simp: encode_persisted_reference_def safe_value_parse_def)

lemma encoded_payload:
  "CHR ''='' \<notin> set (encode_base64url v)" "length (encode_base64url v) mod 4 \<noteq> 1" "v \<noteq> [] \<Longrightarrow> encode_base64url v \<noteq> []"
proof -
  have "\<not> is_base64url CHR ''=''" by code_simp
  then show "CHR ''='' \<notin> set (encode_base64url v)" using encode_base64url_chars [of v] by (auto simp: list_all_iff)
  show "length (encode_base64url v) mod 4 \<noteq> 1"
    using canonical_sextets_sextets [of v] unfolding canonical_sextets_iff by (simp add: encode_base64url_sextets)
  show "v \<noteq> [] \<Longrightarrow> encode_base64url v \<noteq> []" by (cases v rule: encode_base64url.cases) simp_all
qed

text \<open>C12: A durable reference has exactly one spelling. Encoding succeeds for exactly the registered references of at most 91 bytes
  and never overflows the value it is stored in; decoding accepts a text if and only if it is the encoding of the reference it
  returns, so neither another alphabet, nor padding, nor trailing bits, nor an unregistered payload is ever accepted, and no two
  stored texts name the same reference.
\<close>
theorem reference_round_trip:
  "(decode_persisted_reference encoded = Inr v \<longleftrightarrow> encode_persisted_reference v = Inr encoded) \<and>
   (encode_persisted_reference v = Inr encoded \<longleftrightarrow>
      length v \<le> 91 \<and> is_registered_reference v \<and> encoded = ''refv1:'' @ encode_base64url v)"
proof
  show "decode_persisted_reference encoded = Inr v \<longleftrightarrow> encode_persisted_reference v = Inr encoded"
  proof
    assume "decode_persisted_reference encoded = Inr v"
    then show "encode_persisted_reference v = Inr encoded"
      by (auto simp: decode_persisted_reference_def split: if_splits option.splits)
  next
    assume e: "encode_persisted_reference v = Inr encoded"
    then have v: "length v \<le> MAX_REFERENCE_BYTES" "is_registered_reference v" "encoded = REFERENCE_PREFIX @ encode_base64url v"
      by (simp_all add: encode_persisted_reference_Inr)
    have "decode_base64url (encode_base64url v) = Inr v" by (simp add: decode_base64url_exact)
    then show "decode_persisted_reference encoded = Inr v"
      using v encoded_reference_fits(1) [OF v(1)] encoded_payload [of v] registered_not_empty [OF v(2)] e
      by (simp add: decode_persisted_reference_def)
  qed
  show "encode_persisted_reference v = Inr encoded \<longleftrightarrow>
      length v \<le> 91 \<and> is_registered_reference v \<and> encoded = ''refv1:'' @ encode_base64url v"
    by (simp only: encode_persisted_reference_Inr MAX_REFERENCE_BYTES_def REFERENCE_PREFIX_def)
qed

end
