(* ===== verification/Content_Soundness.thy ===== *)
theory Content_Soundness
  imports Content_Scan "HOL-Library.Sublist"
begin

text \<open>
  What the content gate accepts. The scanners walk a text once, with automata and jumping cursors; each is compared with the
  occurrence of a pattern somewhere in the text. The accounting walk keeps a stack of open arrays and objects; it is compared
  with the totals of the value.
\<close>

section \<open>Occurrences\<close>

lemma matches_at_prefix: "matches_at text i needle \<longleftrightarrow> prefix needle (drop i text)"
  by (metis append_take_drop_id append_eq_conv_conj matches_at_def prefix_def)

lemma sublist_at: "sublist needle text \<longleftrightarrow> (\<exists>i. i + length needle \<le> length text \<and> prefix needle (drop i text))"
proof
  assume "sublist needle text"
  then obtain p q where t: "text = p @ needle @ q" by (auto simp: sublist_def)
  show "\<exists>i. i + length needle \<le> length text \<and> prefix needle (drop i text)"
    by (rule exI [of _ "length p"]) (simp add: t)
next
  assume "\<exists>i. i + length needle \<le> length text \<and> prefix needle (drop i text)"
  then show "sublist needle text" by (metis prefix_def sublist_def append_take_drop_id)
qed

lemma list_ex_starts:
  "k \<le> n \<Longrightarrow> list_ex P [0..<n - k + 1] \<longleftrightarrow> (\<exists>i. i + k \<le> n \<and> P i)"
  unfolding list_ex_iff set_upt by (auto simp: less_Suc_eq_le le_diff_conv2)

lemma contains_bytes_sublist: "contains_bytes text needle \<longleftrightarrow> sublist needle text"
proof (cases "length needle \<le> length text")
  case True
  then show ?thesis by (simp only: contains_bytes_def list_ex_starts matches_at_prefix sublist_at simp_thms)
next
  case False
  then show ?thesis using sublist_length_le by (auto simp: contains_bytes_def)
qed

lemma sublist_filter: "sublist xs ys \<Longrightarrow> sublist (filter P xs) (filter P ys)"
  by (auto simp: sublist_def) (metis append_assoc filter_append)

lemma compact_mono: "sublist xs ys \<Longrightarrow> compact_contains_secret_name xs \<Longrightarrow> compact_contains_secret_name ys"
  unfolding compact_contains_secret_name_def list_ex_iff contains_bytes_sublist
  by (meson sublist_filter sublist_order.order.trans)

definition prefixed_secret :: "string \<Rightarrow> nat \<Rightarrow> string \<Rightarrow> bool" where
  "prefixed_secret pre n text \<longleftrightarrow> (\<exists>tail. length tail = n \<and> list_all is_base64url tail \<and> sublist (pre @ tail) text)"

lemma has_run_split:
  assumes "i \<le> length text" "prefix pre (drop i text)"
  shows "has_run P text (i + length pre) n \<longleftrightarrow> (\<exists>tail. length tail = n \<and> list_all P tail \<and> prefix (pre @ tail) (drop i text))"
proof -
  obtain rest where rest: "drop i text = pre @ rest" using assms(2) by (auto simp: prefix_def)
  then have rest': "drop (i + length pre) text = rest" by (metis append_eq_conv_conj drop_drop add.commute)
  have len: "length text = i + length pre + length rest" using arg_cong [OF rest, of length] assms(1) by simp
  have "has_run P text (i + length pre) n \<longleftrightarrow> n \<le> length rest \<and> list_all P (take n rest)" by (simp add: has_run_def rest' len)
  also have "\<dots> \<longleftrightarrow> (\<exists>tail. length tail = n \<and> list_all P tail \<and> prefix tail rest)"
    by (auto simp: prefix_def) (metis append_take_drop_id length_take min.absorb2)
  finally show ?thesis by (simp add: rest)
qed

lemma contains_prefixed_secret_iff: "contains_prefixed_secret text pre n \<longleftrightarrow> prefixed_secret pre n text"
proof (cases "length pre + n \<le> length text")
  case True
  have "contains_prefixed_secret text pre n \<longleftrightarrow>
      (\<exists>i. i + length pre \<le> length text \<and> prefix pre (drop i text) \<and> has_run is_base64url text (i + length pre) n)"
    using True by (simp only: contains_prefixed_secret_def list_ex_starts add_leD1 not_less matches_at_prefix simp_thms)
  also have "\<dots> \<longleftrightarrow> (\<exists>i tail. i + length pre \<le> length text \<and> length tail = n \<and> list_all is_base64url tail \<and> prefix (pre @ tail) (drop i text))"
    using has_run_split append_prefixD by (metis add_leD1)
  also have "\<dots> \<longleftrightarrow> prefixed_secret pre n text"
    (is "?l \<longleftrightarrow> ?r")
  proof
    assume ?l
    then obtain i tail where t: "i + length pre \<le> length text" "length tail = n" "list_all is_base64url tail" "prefix (pre @ tail) (drop i text)" by blast
    then have "i + length (pre @ tail) \<le> length text" using prefix_length_le [OF t(4)] by simp
    then show ?r using t unfolding prefixed_secret_def sublist_at by blast
  next
    assume ?r
    then show ?l unfolding prefixed_secret_def sublist_at by (metis add_leD1 add.assoc length_append)
  qed
  finally show ?thesis .
next
  case False
  then show ?thesis using sublist_length_le by (fastforce simp: contains_prefixed_secret_def prefixed_secret_def)
qed


section \<open>The marker automaton\<close>

fun marker_run :: "string \<Rightarrow> nat \<Rightarrow> string \<Rightarrow> bool" where
  "marker_run m j [] = False"
| "marker_run m j (c # cs) = (pem_step c m j = length m \<or> marker_run m (pem_step c m j) cs)"

lemma pem_scan_runs:
  "length matched = length PEM_MARKERS \<Longrightarrow>
    pem_scan matched cs \<longleftrightarrow> (\<exists>k<length PEM_MARKERS. marker_run (PEM_MARKERS ! k) (matched ! k) (filter is_ascii_alphanumeric cs))"
proof (induction cs arbitrary: matched)
  case (Cons c cs)
  let ?next = "map2 (pem_step c) PEM_MARKERS matched"
  have "list_ex (\<lambda>(marker, n). n = length marker) (zip PEM_MARKERS ?next) \<longleftrightarrow>
      (\<exists>k<length PEM_MARKERS. pem_step c (PEM_MARKERS ! k) (matched ! k) = length (PEM_MARKERS ! k))"
    using Cons.prems by (auto simp: list_ex_length)
  then show ?case using Cons.IH [of ?next] Cons.IH [of matched] Cons.prems by (auto simp: Let_def)
qed simp

lemma marker_run_iff:
  assumes "m ! 0 \<notin> set (tl m)" "1 < length m" "j < length m"
  shows "marker_run m j cs \<longleftrightarrow> prefix (drop j m) cs \<or> sublist m cs"
  using assms(3)
proof (induction cs arbitrary: j)
  case Nil
  then show ?case using assms(2) by auto
next
  case (Cons c cs)
  obtain x xs where m: "m = x # xs" using assms(2) by (cases m) auto
  have drop: "drop j m = m ! j # drop (Suc j) m" using Cons.prems by (simp add: Cons_nth_drop_Suc)
  have first: "m ! j = x \<longleftrightarrow> j = 0" using assms(1) Cons.prems by (auto simp: m nth_Cons split: nat.splits)
  have sub: "sublist m (c # cs) \<longleftrightarrow> c = x \<and> prefix xs cs \<or> sublist m cs" by (auto simp: sublist_Cons_right m)
  have pre: "prefix xs cs \<Longrightarrow> c = x \<Longrightarrow> prefix m (c # cs)" by (simp add: m)
  consider (hit) "c = m ! j" | (first) "c \<noteq> m ! j" "c = x" | (miss) "c \<noteq> m ! j" "c \<noteq> x" by blast
  then show ?case
  proof cases
    case hit
    then have step: "pem_step c m j = Suc j" using Cons.prems by (simp add: pem_step_def)
    have tail: "c = x \<and> prefix xs cs \<longleftrightarrow> j = 0 \<and> prefix (drop (Suc j) m) cs" using hit first by (auto simp: m)
    show ?thesis
    proof (cases "Suc j = length m")
      case True
      then show ?thesis by (simp add: step [unfolded hit] drop hit)
    next
      case False
      then have "Suc j < length m" using Cons.prems by simp
      have "marker_run m j (c # cs) \<longleftrightarrow> marker_run m (Suc j) cs" using False by (simp add: step)
      also have "\<dots> \<longleftrightarrow> prefix (drop (Suc j) m) cs \<or> sublist m cs" using Cons.IH \<open>Suc j < length m\<close> by blast
      also have "\<dots> \<longleftrightarrow> prefix (drop j m) (c # cs) \<or> sublist m (c # cs)" using hit tail unfolding drop sub by auto
      finally show ?thesis .
    qed
  next
    case first
    then have step: "pem_step c m j = 1" by (simp add: pem_step_def m)
    have "marker_run m j (c # cs) \<longleftrightarrow> marker_run m 1 cs" using assms(2) by (simp add: step)
    also have "\<dots> \<longleftrightarrow> prefix (drop 1 m) cs \<or> sublist m cs" using Cons.IH assms(2) by blast
    also have "\<dots> \<longleftrightarrow> prefix (drop j m) (c # cs) \<or> sublist m (c # cs)" using first(1,2) unfolding drop sub by (auto simp: m)
    finally show ?thesis .
  next
    case miss
    then have step: "pem_step c m j = 0" by (simp add: pem_step_def m)
    have "prefix m cs \<Longrightarrow> sublist m cs" by (rule prefix_imp_sublist)
    moreover have "marker_run m j (c # cs) \<longleftrightarrow> marker_run m 0 cs" using assms(2) by (auto simp: step)
    moreover have "marker_run m 0 cs \<longleftrightarrow> prefix m cs \<or> sublist m cs" using Cons.IH [of 0] assms(2) by fastforce
    ultimately show ?thesis using miss unfolding drop sub by auto
  qed
qed

lemma contains_compact_pem_iff:
  "contains_compact_pem text \<longleftrightarrow> list_ex (\<lambda>marker. sublist marker (filter is_ascii_alphanumeric text)) PEM_MARKERS"
proof -
  have "list_all (\<lambda>m. m ! 0 \<notin> set (tl m) \<and> 1 < length m) PEM_MARKERS" by (simp add: PEM_MARKERS_def)
  then have m: "\<forall>k<length PEM_MARKERS. (PEM_MARKERS ! k) ! 0 \<notin> set (tl (PEM_MARKERS ! k)) \<and> 1 < length (PEM_MARKERS ! k)"
    by (simp only: list_all_length)
  have "contains_compact_pem text \<longleftrightarrow> (\<exists>k<length PEM_MARKERS. marker_run (PEM_MARKERS ! k) (replicate 4 0 ! k) (filter is_ascii_alphanumeric text))"
    unfolding contains_compact_pem_def by (rule pem_scan_runs) (simp add: PEM_MARKERS_def)
  also have "\<dots> \<longleftrightarrow> (\<exists>k<length PEM_MARKERS. sublist (PEM_MARKERS ! k) (filter is_ascii_alphanumeric text))"
  proof (intro ex_cong1 conj_cong refl)
    fix k assume k: "k < length PEM_MARKERS"
    then have "replicate 4 (0 :: nat) ! k = 0" by (intro nth_replicate) (simp add: PEM_MARKERS_def)
    moreover have mk: "(PEM_MARKERS ! k) ! 0 \<notin> set (tl (PEM_MARKERS ! k))" "1 < length (PEM_MARKERS ! k)" "0 < length (PEM_MARKERS ! k)"
      using m k by fastforce+
    ultimately show "marker_run (PEM_MARKERS ! k) (replicate 4 0 ! k) (filter is_ascii_alphanumeric text) \<longleftrightarrow>
        sublist (PEM_MARKERS ! k) (filter is_ascii_alphanumeric text)"
      using marker_run_iff [OF mk] prefix_imp_sublist by auto
  qed
  finally show ?thesis by (simp add: list_ex_length)
qed


section \<open>The jumping cursors\<close>

definition environment_secret :: "string \<Rightarrow> bool" where
  "environment_secret text \<longleftrightarrow> (\<exists>a name b. text = a @ ENVIRONMENT_URI @ name @ b \<and> list_all (\<lambda>c. \<not> ends_uri c) name \<and>
    compact_contains_secret_name name)"

abbreviation uri_name :: "string \<Rightarrow> nat \<Rightarrow> string" where
  "uri_name text i \<equiv> takeWhile (\<lambda>c. \<not> ends_uri c) (drop (i + 14) text)"

abbreviation environment_at :: "string \<Rightarrow> nat \<Rightarrow> bool" where
  "environment_at text i \<equiv> prefix ENVIRONMENT_URI (drop i text) \<and> compact_contains_secret_name (uri_name text i)"

lemma takeWhile_covers:
  assumes "j \<le> k" "k \<le> length text" "\<And>l. j \<le> l \<Longrightarrow> l < k \<Longrightarrow> P (text ! l)"
  shows "suffix (takeWhile P (drop k text)) (takeWhile P (drop j text))"
proof -
  have split: "drop j text = take (k - j) (drop j text) @ drop k text" using assms(1) by (metis append_take_drop_id drop_drop le_add_diff_inverse2)
  have "\<forall>x\<in>set (take (k - j) (drop j text)). P x" using assms by (auto simp: in_set_conv_nth)
  then have "takeWhile P (drop j text) = take (k - j) (drop j text) @ takeWhile P (drop k text)"
    by (subst split) (simp add: takeWhile_append)
  then show ?thesis by (simp add: suffix_def)
qed

lemma environment_skips:
  assumes "prefix ENVIRONMENT_URI (drop i text)" "\<not> compact_contains_secret_name (uri_name text i)"
    and k: "i \<le> k" "k < i + 14 + length (uri_name text i)"
  shows "\<not> environment_at text k"
proof
  assume at: "environment_at text k"
  have marker: "list_all (\<lambda>c. \<not> ends_uri c) ENVIRONMENT_URI" by code_simp
  obtain r where r: "drop k text = ENVIRONMENT_URI @ r" using at by (auto simp: prefix_def)
  have len: "k + 14 \<le> length text" using arg_cong [OF r, of length] by simp
  have "\<not> ends_uri (text ! l)" if "i + 14 \<le> l" "l < k + 14" for l
  proof (cases "l < k")
    case True
    then have "l - (i + 14) < length (uri_name text i)" using that k by simp
    moreover from this have "uri_name text i ! (l - (i + 14)) = text ! l"
      using that len by (simp add: takeWhile_nth)
    ultimately show ?thesis using nth_mem set_takeWhileD by metis
  next
    case False
    then have "l - k < 14" using that by simp
    then have "text ! l = ENVIRONMENT_URI ! (l - k)"
      using that False len arg_cong [OF r, of "\<lambda>xs. xs ! (l - k)"] by (simp add: nth_append)
    moreover have "l - k < length ENVIRONMENT_URI" using that False by simp
    ultimately show ?thesis using marker by (simp add: list_all_length)
  qed
  then have "suffix (uri_name text k) (uri_name text i)" using k len by (intro takeWhile_covers) auto
  then show False using at assms(2) compact_mono suffix_imp_sublist by blast
qed

lemma environment_scan_iff: "environment_scan text i \<longleftrightarrow> (\<exists>k\<ge>i. environment_at text k)"
proof (induction "text" i rule: environment_scan.induct)
  case (1 "text" i)
  let ?stop = "max (i + 14 + length (uri_name text i)) (i + 1)"
  have skip: "(\<exists>k\<ge>i. environment_at text k) \<longleftrightarrow> (\<exists>k\<ge>n. environment_at text k)"
    if "i \<le> n" "\<And>k. i \<le> k \<Longrightarrow> k < n \<Longrightarrow> \<not> environment_at text k" for n
    using that by (meson le_trans not_le)
  show ?case
  proof (cases "i + 14 \<le> length text")
    case False
    have "\<not> environment_at text k" if "i \<le> k" for k
      using False that prefix_length_le [of "ENVIRONMENT_URI" "drop k text"] by auto
    then show ?thesis using False by (subst environment_scan.simps) auto
  next
    case len: True
    show ?thesis
    proof (cases "prefix ENVIRONMENT_URI (drop i text)")
      case False
      then have "environment_scan text i \<longleftrightarrow> environment_scan text (i + 1)"
        using len by (subst environment_scan.simps) (simp add: matches_at_prefix)
      also have "\<dots> \<longleftrightarrow> (\<exists>k\<ge>i + 1. environment_at text k)" using 1(1) len False by (simp add: matches_at_prefix)
      finally show ?thesis using skip [of "i + 1"] False by (metis Suc_eq_plus1 le_SucI less_Suc_eq_le antisym order_refl)
    next
      case m: True
      show ?thesis
      proof (cases "compact_contains_secret_name (uri_name text i)")
        case True
        then show ?thesis using len m by (subst environment_scan.simps) (auto simp: matches_at_prefix Let_def)
      next
        case False
        then have "environment_scan text i \<longleftrightarrow> environment_scan text ?stop"
          using len m by (subst environment_scan.simps) (simp add: matches_at_prefix Let_def)
        also have "\<dots> \<longleftrightarrow> (\<exists>k\<ge>?stop. environment_at text k)"
          using 1(2) [OF _ _ refl refl] len m False by (simp add: matches_at_prefix)
        finally show ?thesis using skip [of ?stop] environment_skips [OF m False] by fastforce
      qed
    qed
  qed
qed


lemma environment_secret_iff: "contains_environment_secret_uri text \<longleftrightarrow> environment_secret text"
  unfolding contains_environment_secret_uri_def environment_scan_iff environment_secret_def
proof (intro iffI; elim exE conjE)
  fix k assume k: "prefix ENVIRONMENT_URI (drop k text)" "compact_contains_secret_name (uri_name text k)"
  then obtain r where r: "drop k text = ENVIRONMENT_URI @ r" by (auto simp: prefix_def)
  then have r': "drop (k + 14) text = r" by (metis append_eq_conv_conj drop_drop add.commute length_ENVIRONMENT_URI)
  have "text = take k text @ ENVIRONMENT_URI @ uri_name text k @ dropWhile (\<lambda>c. \<not> ends_uri c) r"
    using append_take_drop_id [of k "text"] by (simp add: r r')
  moreover have "list_all (\<lambda>c. \<not> ends_uri c) (uri_name text k)" by (auto simp: list_all_iff dest: set_takeWhileD)
  ultimately show "\<exists>a name b. text = a @ ENVIRONMENT_URI @ name @ b \<and> list_all (\<lambda>c. \<not> ends_uri c) name \<and> compact_contains_secret_name name"
    using k(2) by blast
next
  fix a name b assume t: "text = a @ ENVIRONMENT_URI @ name @ b" "list_all (\<lambda>c. \<not> ends_uri c) name" "compact_contains_secret_name name"
  have "uri_name text (length a) = name @ takeWhile (\<lambda>c. \<not> ends_uri c) b" using t(1,2) by (simp add: list_all_iff)
  then have "sublist name (uri_name text (length a))" by simp
  then have "environment_at text (length a)" using t(1,3) compact_mono by simp
  then show "\<exists>k\<ge>0. environment_at text k" by blast
qed

definition authorization_at :: "string \<Rightarrow> nat \<Rightarrow> bool" where
  "authorization_at text i \<longleftrightarrow> (\<exists>n. scheme_length text i = Some n \<and> skip_separators text (i + n) > i + n \<and>
    has_run is_secret_tail text (skip_separators text (i + n)) 8)"

lemma prefix_nth:
  assumes "prefix xs (drop i ys)" "j < length xs"
  shows "i + j < length ys" "ys ! (i + j) = xs ! j"
proof -
  obtain zs where z: "drop i ys = xs @ zs" using assms(1) by (auto simp: prefix_def)
  show len: "i + j < length ys" using assms(2) arg_cong [OF z, of length] by simp
  then show "ys ! (i + j) = xs ! j" using assms(2) arg_cong [OF z, of "\<lambda>xs. xs ! j"] by (simp add: nth_append)
qed

lemma nth_not_first: "c \<notin> set (tl s) \<Longrightarrow> 0 < j \<Longrightarrow> j < length s \<Longrightarrow> s ! j \<noteq> c"
  by (cases s) (auto simp: nth_Cons split: nat.splits)

lemma scheme_lengthE:
  assumes "scheme_length text i = Some n"
  obtains s where "s \<in> {''bearer'', ''basic''}" "length s = n" "prefix s (drop i text)"
  using assms that [of "''bearer''"] that [of "''basic''"] by (auto simp: scheme_length_def matches_at_prefix split: if_splits)

lemma scheme_starts_b:
  assumes "scheme_length text i = Some n"
  shows "text ! i = CHR ''b''"
proof -
  obtain s where s: "s \<in> {''bearer'', ''basic''}" "prefix s (drop i text)" using scheme_lengthE [OF assms] by metis
  then have "text ! (i + 0) = s ! 0" by (intro prefix_nth(2)) auto
  then show ?thesis using s(1) by auto
qed

lemma authorization_starts_b: "authorization_at text k \<Longrightarrow> text ! k = CHR ''b''"
  by (auto simp: authorization_at_def scheme_starts_b)

lemma scheme_only_first_b:
  assumes "scheme_length text i = Some n" "i < k" "k < i + n"
  shows "\<not> authorization_at text k"
proof -
  obtain s where s: "s \<in> {''bearer'', ''basic''}" "length s = n" "prefix s (drop i text)" using scheme_lengthE [OF assms(1)] by metis
  have j: "0 < k - i" "k - i < length s" "i + (k - i) = k" using assms s(2) by auto
  have "CHR ''b'' \<notin> set (tl s)" using s(1) by auto
  then have "text ! k \<noteq> CHR ''b''" using prefix_nth(2) [OF s(3) j(2)] nth_not_first j by metis
  then show ?thesis using authorization_starts_b by blast
qed

lemma authorization_start_skips:
  assumes "authorization_start text i = (s, nxt)" "i \<le> k" "k < s"
  shows "\<not> authorization_at text k"
proof -
  define A where "A = ''authorization''"
  have A: "length A = 13" "CHR ''b'' \<notin> set A" by (simp_all add: A_def)
  have m: "prefix A (drop i text)" "s = skip_separators text (i + 13)"
    using assms by (auto simp: authorization_start_def Let_def matches_at_prefix A_def eval_nat_numeral split: if_splits)
  have "text ! k \<noteq> CHR ''b''"
  proof (cases "k < i + 13")
    case True
    then have "text ! (i + (k - i)) = A ! (k - i)" using assms(2) A by (intro prefix_nth(2) [OF m(1)]) simp
    moreover have "A ! (k - i) \<in> set A" using True assms(2) A by (intro nth_mem) simp
    ultimately show ?thesis using assms(2) A by auto
  next
    case False
    let ?t = "takeWhile is_separator (drop (i + 13) text)"
    have k: "k - (i + 13) < length ?t" using assms(3) m(2) False by (simp add: skip_separators_def)
    then have "?t ! (k - (i + 13)) = text ! k" using False
      by (simp add: takeWhile_nth) (metis False add_diff_inverse_nat length_drop length_takeWhile_le less_le_trans nth_drop zero_less_diff less_imp_le not_less_iff_gr_or_eq le_add2)
    then have "is_separator (text ! k)" using k nth_mem set_takeWhileD by metis
    then show ?thesis by (auto simp: is_separator_def is_ascii_whitespace_def byte_def)
  qed
  then show ?thesis using authorization_starts_b by blast
qed

lemma authorization_scan_iff: "authorization_scan text i \<longleftrightarrow> (\<exists>k\<ge>i. k < length text \<and> authorization_at text k)"
proof (induction "text" i rule: authorization_scan.induct)
  case (1 "text" i)
  have skip: "(\<exists>k\<ge>i. k < length text \<and> authorization_at text k) \<longleftrightarrow> (\<exists>k\<ge>n. k < length text \<and> authorization_at text k)"
    if "i \<le> n" "\<And>k. i \<le> k \<Longrightarrow> k < n \<Longrightarrow> \<not> authorization_at text k" for n
    using that by (meson le_trans not_le)
  show ?case
  proof (cases "i < length text")
    case False
    then show ?thesis by (subst authorization_scan.simps) auto
  next
    case len: True
    obtain s nxt where s: "authorization_start text i = (s, nxt)" by fastforce
    have le: "i \<le> s" "s \<le> nxt" "nxt = s \<or> nxt = i + 1 \<and> s = i"
      using s by (auto simp: authorization_start_def skip_separators_def Let_def split: if_splits)
    note none = authorization_start_skips [OF s]
    show ?thesis
    proof (cases "scheme_length text s")
      case None
      then have "authorization_scan text i \<longleftrightarrow> authorization_scan text nxt" using len s by (subst authorization_scan.simps) simp
      also have "\<dots> \<longleftrightarrow> (\<exists>k\<ge>nxt. k < length text \<and> authorization_at text k)" using 1(1) [OF len s [symmetric] None] .
      also have "\<dots> \<longleftrightarrow> (\<exists>k\<ge>i. k < length text \<and> authorization_at text k)"
      proof (rule skip [symmetric])
        fix k assume k: "i \<le> k" "k < nxt"
        then have "k < s \<or> k = s" using le by auto
        then show "\<not> authorization_at text k" using none k(1) None by (auto simp: authorization_at_def)
      qed (use le in simp)
      finally show ?thesis .
    next
      case (Some n)
      let ?tail = "skip_separators text (s + n)"
      show ?thesis
      proof (cases "?tail > s + n \<and> has_run is_secret_tail text ?tail 8")
        case True
        then have "authorization_at text s" using Some by (simp add: authorization_at_def)
        moreover have "s < length text" using True by (auto simp: has_run_def)
        ultimately show ?thesis using True Some len s le(1) by (subst authorization_scan.simps) auto
      next
        case False
        have "authorization_scan text i \<longleftrightarrow> authorization_scan text (max nxt (s + n))"
          using len s Some False by (subst authorization_scan.simps) (auto simp: Let_def)
        also have "\<dots> \<longleftrightarrow> (\<exists>k\<ge>max nxt (s + n). k < length text \<and> authorization_at text k)"
          using 1(2) [OF len s [symmetric] Some refl] False by blast
        also have "\<dots> \<longleftrightarrow> (\<exists>k\<ge>i. k < length text \<and> authorization_at text k)"
        proof (rule skip [symmetric])
          fix k assume k: "i \<le> k" "k < max nxt (s + n)"
          have "0 < n" using Some by (auto simp: scheme_length_def split: if_splits)
          then have "k < s \<or> k = s \<or> s < k \<and> k < s + n" using k le by auto
          then show "\<not> authorization_at text k"
            using none k(1) scheme_only_first_b [OF Some] False Some by (auto simp: authorization_at_def)
        qed (use le in simp)
        finally show ?thesis .
      qed
    qed
  qed
qed

definition authorization_secret :: "string \<Rightarrow> bool" where
  "authorization_secret text \<longleftrightarrow> (\<exists>scheme seps tail. scheme \<in> {''bearer'', ''basic''} \<and> seps \<noteq> [] \<and> list_all is_separator seps \<and>
    length tail = 8 \<and> list_all is_secret_tail tail \<and> \<not> is_separator (hd tail) \<and> sublist (scheme @ seps @ tail) text)"

lemma authorization_at_iff:
  assumes "k < length text"
  shows "authorization_at text k \<longleftrightarrow> (\<exists>scheme seps tail. scheme \<in> {''bearer'', ''basic''} \<and> seps \<noteq> [] \<and> list_all is_separator seps \<and>
    length tail = 8 \<and> list_all is_secret_tail tail \<and> \<not> is_separator (hd tail) \<and> prefix (scheme @ seps @ tail) (drop k text))"
    (is "_ \<longleftrightarrow> ?r")
proof
  assume "authorization_at text k"
  then obtain n where n: "scheme_length text k = Some n" "skip_separators text (k + n) > k + n"
      "has_run is_secret_tail text (skip_separators text (k + n)) 8" by (auto simp: authorization_at_def)
  obtain scheme where scheme: "scheme \<in> {''bearer'', ''basic''}" "length scheme = n" "prefix scheme (drop k text)"
    using scheme_lengthE [OF n(1)] by metis
  obtain r where r: "drop k text = scheme @ r" using scheme(3) by (auto simp: prefix_def)
  then have r': "drop (k + n) text = r" using scheme(2) by (metis append_eq_conv_conj drop_drop add.commute)
  let ?seps = "takeWhile is_separator r" and ?tail = "take 8 (dropWhile is_separator r)"
  have sk: "skip_separators text (k + n) = k + n + length ?seps" by (simp add: skip_separators_def r')
  have drop: "drop (skip_separators text (k + n)) text = dropWhile is_separator r"
    unfolding sk by (metis add.commute drop_drop r' dropWhile_eq_drop)
  have len: "8 \<le> length (dropWhile is_separator r)"
    using n(3) arg_cong [OF drop, of length] unfolding has_run_def length_drop by linarith
  have "\<not> is_separator (hd ?tail)" using len hd_dropWhile [of is_separator r] by (cases "dropWhile is_separator r") auto
  moreover have "list_all is_secret_tail ?tail" using n(3) by (simp add: has_run_def drop)
  moreover have "prefix (scheme @ ?seps @ ?tail) (drop k text)" unfolding r
    by (metis append_take_drop_id prefixI same_prefix_prefix takeWhile_dropWhile_id)
  moreover have "list_all is_separator ?seps" by (auto simp: list_all_iff dest: set_takeWhileD)
  moreover have "?seps \<noteq> []" using n(2) unfolding sk by simp
  moreover have "length ?tail = 8" using len by simp
  ultimately show ?r using scheme(1) by blast
next
  assume ?r
  then obtain scheme seps tail q where t: "scheme \<in> {''bearer'', ''basic''}" "seps \<noteq> []" "list_all is_separator seps"
      "length tail = 8" "list_all is_secret_tail tail" "\<not> is_separator (hd tail)" "drop k text = scheme @ seps @ tail @ q"
    by (auto simp: prefix_def)
  then have n: "scheme_length text k = Some (length scheme)" by (auto simp: scheme_length_def matches_at_prefix)
  have r: "drop (k + length scheme) text = seps @ tail @ q" using t(7) by (metis append_eq_conv_conj drop_drop add.commute)
  obtain c cs where tail: "tail = c # cs" using t(4) by (cases tail) auto
  have sk: "skip_separators text (k + length scheme) = k + length scheme + length seps"
    using t(3,6) by (simp add: skip_separators_def r tail list_all_iff)
  have d: "drop (k + length scheme + length seps) text = tail @ q" using r by (metis append_eq_conv_conj drop_drop add.commute)
  have "length text = k + length scheme + length seps + 8 + length q"
    using arg_cong [OF t(7), of length] assms t(4) by simp
  then have "has_run is_secret_tail text (k + length scheme + length seps) 8" using t(4,5) by (simp add: has_run_def d)
  then show "authorization_at text k" unfolding authorization_at_def using n sk t(2) by auto
qed

lemma authorization_secret_iff: "contains_authorization_secret text \<longleftrightarrow> authorization_secret text"
proof -
  have "contains_authorization_secret text \<longleftrightarrow> (\<exists>k<length text. authorization_at text k)"
    by (auto simp: contains_authorization_secret_def authorization_scan_iff)
  also have "\<dots> \<longleftrightarrow> authorization_secret text"
  proof
    assume "\<exists>k<length text. authorization_at text k"
    then obtain k where k: "k < length text" "authorization_at text k" by blast
    obtain scheme seps tail where t: "scheme \<in> {''bearer'', ''basic''}" "seps \<noteq> []" "list_all is_separator seps"
      "length tail = 8" "list_all is_secret_tail tail" "\<not> is_separator (hd tail)" "prefix (scheme @ seps @ tail) (drop k text)"
      using authorization_at_iff [OF k(1)] k(2) by metis
    have "sublist (scheme @ seps @ tail) text"
      by (rule sublist_order.order.trans [OF prefix_imp_sublist [OF t(7)]]) (rule sublist_drop)
    then show "authorization_secret text" unfolding authorization_secret_def using t by blast
  next
    assume "authorization_secret text"
    then obtain scheme seps tail a b where t: "scheme \<in> {''bearer'', ''basic''}" "seps \<noteq> []" "list_all is_separator seps"
      "length tail = 8" "list_all is_secret_tail tail" "\<not> is_separator (hd tail)" "text = a @ (scheme @ seps @ tail) @ b"
      unfolding authorization_secret_def sublist_def by blast
    have "length a < length text" using t(2,7) by simp
    moreover have "prefix (scheme @ seps @ tail) (drop (length a) text)" by (simp add: t(7))
    ultimately show "\<exists>k<length text. authorization_at text k" using authorization_at_iff t(1-6) by blast
  qed
  finally show ?thesis .
qed


section \<open>Compact tokens\<close>

definition dots :: "string \<Rightarrow> bool" where
  "dots s \<longleftrightarrow> list_all (\<lambda>c. c = CHR ''.'') s"

definition jwt_shape :: "(string \<Rightarrow> json option) \<Rightarrow> string \<Rightarrow> bool" where
  "jwt_shape parse text \<longleftrightarrow> (\<exists>a header d payload e signature b. text = a @ header @ d @ payload @ e @ signature @ b \<and>
    (a = [] \<or> \<not> is_base64url (last a)) \<and> list_all is_base64url (header @ payload @ signature) \<and> structural_jws_header parse header \<and>
    d \<noteq> [] \<and> dots d \<and> 8 \<le> length payload \<and> e \<noteq> [] \<and> dots e \<and> 8 \<le> length signature)"

definition signed :: "bool \<Rightarrow> string \<Rightarrow> bool" where
  "signed joined text \<longleftrightarrow> (\<exists>e s b. text = e @ s @ b \<and> dots e \<and> (joined \<or> e \<noteq> []) \<and> list_all is_base64url s \<and> 8 \<le> length s)"

definition carried :: "bool \<Rightarrow> string \<Rightarrow> bool" where
  "carried joined text \<longleftrightarrow> (\<exists>d p t. text = d @ p @ t \<and> dots d \<and> (joined \<or> d \<noteq> []) \<and> list_all is_base64url p \<and> 8 \<le> length p \<and> signed False t)"

lemma dot_no_base64 [simp]: "\<not> is_base64url CHR ''.''"
  by code_simp

lemma dots_Cons [simp]: "dots (c # s) \<longleftrightarrow> c = CHR ''.'' \<and> dots s" "dots []"
  by (simp_all add: dots_def)

lemma signed_dot: "signed joined (CHR ''.'' # cs) = signed True cs"
proof
  assume "signed joined (CHR ''.'' # cs)"
  then obtain e s b where t: "CHR ''.'' # cs = e @ s @ b" "dots e" "list_all is_base64url s" "8 \<le> length s" by (auto simp: signed_def)
  then obtain e' where e: "e = CHR ''.'' # e'" by (cases e; cases s) auto
  then show "signed True cs" unfolding signed_def using t by auto
next
  assume "signed True cs"
  then obtain e s b where "cs = e @ s @ b" "dots e" "list_all is_base64url s" "8 \<le> length s" by (auto simp: signed_def)
  then show "signed joined (CHR ''.'' # cs)" unfolding signed_def by (intro exI [of _ "CHR ''.'' # e"] exI [of _ s] exI [of _ b]) simp
qed

lemma carried_dot: "carried joined (CHR ''.'' # cs) = carried True cs"
proof
  assume "carried joined (CHR ''.'' # cs)"
  then obtain d p t where t: "CHR ''.'' # cs = d @ p @ t" "dots d" "list_all is_base64url p" "8 \<le> length p" "signed False t" by (auto simp: carried_def)
  then obtain d' where e: "d = CHR ''.'' # d'" by (cases d; cases p) auto
  then show "carried True cs" unfolding carried_def using t by auto
next
  assume "carried True cs"
  then obtain d p t where "cs = d @ p @ t" "dots d" "list_all is_base64url p" "8 \<le> length p" "signed False t" by (auto simp: carried_def)
  then show "carried joined (CHR ''.'' # cs)" unfolding carried_def by (intro exI [of _ "CHR ''.'' # d"] exI [of _ p] exI [of _ t]) simp
qed

lemma signed_other: "c \<noteq> CHR ''.'' \<Longrightarrow> \<not> is_base64url c \<Longrightarrow> \<not> signed joined (c # cs)"
  by (auto simp: signed_def Cons_eq_append_conv)

lemma carried_other: "c \<noteq> CHR ''.'' \<Longrightarrow> \<not> is_base64url c \<Longrightarrow> \<not> carried joined (c # cs)"
  by (auto simp: carried_def Cons_eq_append_conv)

lemma shape_other:
  assumes "\<not> is_base64url c"
  shows "jwt_shape parse (c # cs) = jwt_shape parse cs"
proof
  assume "jwt_shape parse (c # cs)"
  then obtain a header d payload e signature b where t: "c # cs = a @ header @ d @ payload @ e @ signature @ b"
    "a = [] \<or> \<not> is_base64url (last a)" "list_all is_base64url (header @ payload @ signature)" "structural_jws_header parse header"
    "d \<noteq> []" "dots d" "8 \<le> length payload" "e \<noteq> []" "dots e" "8 \<le> length signature" unfolding jwt_shape_def by blast
  have "header \<noteq> []" using t(4) by (auto simp: structural_jws_header_def)
  then obtain a' where a: "a = c # a'" using t(1,3) assms by (cases a; cases header) auto
  have "a' = [] \<or> \<not> is_base64url (last a')" using t(2) by (auto simp: a)
  moreover have "cs = a' @ header @ d @ payload @ e @ signature @ b" using t(1) by (simp add: a)
  ultimately show "jwt_shape parse cs" unfolding jwt_shape_def using t(3-10) by blast
next
  assume "jwt_shape parse cs"
  then obtain a header d payload e signature b where t: "cs = a @ header @ d @ payload @ e @ signature @ b"
    "a = [] \<or> \<not> is_base64url (last a)" "list_all is_base64url (header @ payload @ signature)" "structural_jws_header parse header"
    "d \<noteq> []" "dots d" "8 \<le> length payload" "e \<noteq> []" "dots e" "8 \<le> length signature" unfolding jwt_shape_def by blast
  have "c # cs = (c # a) @ header @ d @ payload @ e @ signature @ b" "c # a = [] \<or> \<not> is_base64url (last (c # a))"
    using t(1,2) assms by auto
  then show "jwt_shape parse (c # cs)" unfolding jwt_shape_def using t(3-10) by blast
qed

lemma run_unique:
  assumes "run @ rest = s @ t" "list_all is_base64url run" "list_all is_base64url s"
    "rest = [] \<or> \<not> is_base64url (hd rest)" "t = [] \<or> \<not> is_base64url (hd t)"
  shows "run = s \<and> rest = t"
proof -
  have "takeWhile is_base64url (run @ rest) = run" "takeWhile is_base64url (s @ t) = s"
    using assms(2-5) by (cases rest; cases t; auto simp: list_all_iff)+
  then show ?thesis using assms(1) by auto
qed

lemma run_prefix:
  assumes "run @ rest = s @ t" "list_all is_base64url s" "rest = [] \<or> \<not> is_base64url (hd rest)"
  shows "length s \<le> length run"
proof (rule ccontr)
  assume "\<not> length s \<le> length run"
  then have "s ! length run = rest ! 0" "length run < length s" "rest \<noteq> []"
    using assms(1) by (metis add.right_neutral add_diff_cancel_left' nth_append not_le less_irrefl, simp, metis append_Nil2 append_eq_append_conv_if not_le nat_less_le prefix_length_le prefixI)
  then show False using assms(2,3) by (metis hd_conv_nth list_all_length)
qed

lemma signed_run:
  assumes "list_all is_base64url run" "run \<noteq> []" "rest = [] \<or> \<not> is_base64url (hd rest)"
  shows "signed joined (run @ rest) \<longleftrightarrow> joined \<and> 8 \<le> length run"
proof
  assume "signed joined (run @ rest)"
  then obtain e s b where t: "run @ rest = e @ s @ b" "dots e" "joined \<or> e \<noteq> []" "list_all is_base64url s" "8 \<le> length s" by (auto simp: signed_def)
  have "e = []" using t(1,2) assms(1,2) by (cases run; cases e) auto
  then show "joined \<and> 8 \<le> length run" using t run_prefix [of run rest s b] assms(3) by auto
next
  assume "joined \<and> 8 \<le> length run"
  then show "signed joined (run @ rest)" unfolding signed_def using assms(1) by (intro exI [of _ "[]"] exI [of _ run] exI [of _ rest]) simp
qed

lemma boundary_hd: "rest = [] \<or> \<not> is_base64url (hd rest) \<Longrightarrow> rest = s @ b \<Longrightarrow> list_all is_base64url s \<Longrightarrow> s = []"
  by (cases s) auto

lemma signed_boundary:
  assumes "rest = [] \<or> \<not> is_base64url (hd rest)"
  shows "signed j rest = signed False rest"
proof
  assume "signed j rest"
  then obtain e s b where t: "rest = e @ s @ b" "dots e" "list_all is_base64url s" "8 \<le> length s" unfolding signed_def by blast
  have "e \<noteq> []"
  proof
    assume "e = []"
    then have "s = []" using boundary_hd [OF assms _ t(3)] t(1) by simp
    then show False using t(4) by simp
  qed
  then show "signed False rest" unfolding signed_def using t by blast
next
  assume "signed False rest"
  then show "signed j rest" unfolding signed_def by blast
qed

lemma carried_boundary:
  assumes "rest = [] \<or> \<not> is_base64url (hd rest)"
  shows "carried j rest = carried False rest"
proof
  assume "carried j rest"
  then obtain d p t where t: "rest = d @ p @ t" "dots d" "list_all is_base64url p" "8 \<le> length p" "signed False t"
    unfolding carried_def by blast
  have "d \<noteq> []"
  proof
    assume "d = []"
    then have "p = []" using boundary_hd [OF assms _ t(3)] t(1) by simp
    then show False using t(4) by simp
  qed
  then show "carried False rest" unfolding carried_def using t by blast
next
  assume "carried False rest"
  then show "carried j rest" unfolding carried_def by blast
qed

lemma signed_hd: "signed False t \<Longrightarrow> t \<noteq> [] \<and> \<not> is_base64url (hd t)"
  by (auto simp: signed_def neq_Nil_conv)

lemma carried_run:
  assumes "list_all is_base64url run" "run \<noteq> []" "rest = [] \<or> \<not> is_base64url (hd rest)"
  shows "carried joined (run @ rest) \<longleftrightarrow> joined \<and> 8 \<le> length run \<and> signed False rest"
proof
  assume "carried joined (run @ rest)"
  then obtain d p t where t: "run @ rest = d @ p @ t" "dots d" "joined \<or> d \<noteq> []" "list_all is_base64url p" "8 \<le> length p" "signed False t"
    by (auto simp: carried_def)
  have d: "d = []" using t(1,2) assms(1,2) by (cases run; cases d) auto
  have "run = p \<and> rest = t" using t(1,4) assms(1,3) signed_hd [OF t(6)] by (intro run_unique) (auto simp: d)
  then show "joined \<and> 8 \<le> length run \<and> signed False rest" using t d by auto
next
  assume "joined \<and> 8 \<le> length run \<and> signed False rest"
  then show "carried joined (run @ rest)" unfolding carried_def using assms(1) by (intro exI [of _ "[]"] exI [of _ run] exI [of _ rest]) simp
qed

lemma shape_run:
  assumes run: "list_all is_base64url run" "run \<noteq> []" "rest = [] \<or> \<not> is_base64url (hd rest)"
  shows "jwt_shape parse (run @ rest) \<longleftrightarrow> structural_jws_header parse run \<and> carried False rest \<or> jwt_shape parse rest"
proof
  assume "jwt_shape parse (run @ rest)"
  then obtain a header d payload e signature b where t: "run @ rest = a @ header @ d @ payload @ e @ signature @ b"
    "a = [] \<or> \<not> is_base64url (last a)" "list_all is_base64url (header @ payload @ signature)" "structural_jws_header parse header"
    "d \<noteq> []" "dots d" "8 \<le> length payload" "e \<noteq> []" "dots e" "8 \<le> length signature" unfolding jwt_shape_def by blast
  let ?t = "d @ payload @ e @ signature @ b"
  show "structural_jws_header parse run \<and> carried False rest \<or> jwt_shape parse rest"
  proof (cases "a = []")
    case True
    have "\<not> is_base64url (hd ?t)" using t(5,6) by (cases d) auto
    then have eq: "run = header \<and> rest = ?t" using t(1,3) True run by (intro run_unique) auto
    have "signed False (e @ signature @ b)" unfolding signed_def using t(3,8-10) by auto
    then have "carried False ?t" unfolding carried_def using t(3,5-7) by auto
    then show ?thesis using eq t(4) by blast
  next
    case False
    then have last: "\<not> is_base64url (last a)" using t(2) by blast
    have "\<not> length a \<le> length run"
    proof
      assume "length a \<le> length run"
      then have "prefix a run" using t(1) by (metis prefixI prefix_length_prefix)
      then have "last a \<in> set run" using False by (auto simp: prefix_def)
      then show False using last run(1) by (simp add: list_all_iff)
    qed
    then have "prefix run a" using t(1) by (metis linear prefixI prefix_length_prefix)
    then obtain a' where a: "a = run @ a'" by (auto simp: prefix_def)
    have "a' \<noteq> []" using \<open>\<not> length a \<le> length run\<close> by (auto simp: a)
    then have "\<not> is_base64url (last a')" using last by (simp add: a)
    moreover have "rest = a' @ header @ d @ payload @ e @ signature @ b" using t(1) by (simp add: a)
    ultimately have "jwt_shape parse rest" unfolding jwt_shape_def using t(3-10) by blast
    then show ?thesis ..
  qed
next
  assume "structural_jws_header parse run \<and> carried False rest \<or> jwt_shape parse rest"
  then show "jwt_shape parse (run @ rest)"
  proof (elim disjE conjE)
    assume h: "structural_jws_header parse run" "carried False rest"
    then obtain d p e s b where t: "rest = d @ p @ e @ s @ b" "dots d" "d \<noteq> []" "list_all is_base64url p" "8 \<le> length p"
        "dots e" "e \<noteq> []" "list_all is_base64url s" "8 \<le> length s" unfolding carried_def signed_def by blast
    have "run @ rest = [] @ run @ d @ p @ e @ s @ b" "list_all is_base64url (run @ p @ s)" using t(1,4,8) run(1) by auto
    then show ?thesis unfolding jwt_shape_def using h(1) t by blast
  next
    assume "jwt_shape parse rest"
    then obtain a header d payload e signature b where t: "rest = a @ header @ d @ payload @ e @ signature @ b"
      "a = [] \<or> \<not> is_base64url (last a)" "list_all is_base64url (header @ payload @ signature)" "structural_jws_header parse header"
      "d \<noteq> []" "dots d" "8 \<le> length payload" "e \<noteq> []" "dots e" "8 \<le> length signature" unfolding jwt_shape_def by blast
    have "header \<noteq> []" using t(4) by (auto simp: structural_jws_header_def)
    then have "a \<noteq> []" using t(1,3) run(3) by (cases header) auto
    then have "run @ rest = (run @ a) @ header @ d @ payload @ e @ signature @ b" "run @ a = [] \<or> \<not> is_base64url (last (run @ a))"
      using t(1,2) by auto
    then show ?thesis unfolding jwt_shape_def using t(3-10) by blast
  qed
qed

abbreviation eligible :: "(nat \<times> bool) option \<Rightarrow> bool" where
  "eligible s \<equiv> (case s of Some (_, eligible) \<Rightarrow> eligible | None \<Rightarrow> False)"

abbreviation sizable :: "(nat \<times> bool) option \<Rightarrow> bool" where
  "sizable s \<equiv> (case s of Some (len, _) \<Rightarrow> len \<ge> 8 | None \<Rightarrow> False)"

lemma jwt_scan_iff:
  "jwt_scan parse text previous before joined \<longleftrightarrow>
    jwt_shape parse text \<or> eligible previous \<and> carried joined text \<or> eligible before \<and> sizable previous \<and> signed joined text"
proof (induction parse "text" previous before joined rule: jwt_scan.induct)
  case (1 parse previous before joined)
  then show ?case by (auto simp: jwt_shape_def carried_def signed_def)
next
  case (2 parse c cs previous before joined)
  show ?case
  proof (cases "is_base64url c")
    case False
    then show ?thesis
      using 2(1,2) by (cases "c = CHR ''.''") (simp_all add: shape_other carried_dot signed_dot carried_other signed_other)
  next
    case True
    let ?run = "takeWhile is_base64url (c # cs)" and ?rest = "dropWhile is_base64url (c # cs)"
    let ?j = "case ?rest of [] \<Rightarrow> False | d # _ \<Rightarrow> d = CHR ''.''"
    let ?hit = "joined \<and> eligible before \<and> sizable previous \<and> 8 \<le> length ?run"
    have run: "list_all is_base64url ?run" "?run \<noteq> []" "?rest = [] \<or> \<not> is_base64url (hd ?rest)"
      using True hd_dropWhile [of is_base64url "c # cs"] by (auto simp: list_all_iff dest: set_takeWhileD)
    note split = shape_run [OF run, of parse] carried_run [OF run, of joined] signed_run [OF run, of joined]
    have eq: "c # cs = ?run @ ?rest" by simp
    have "jwt_scan parse (c # cs) previous before joined \<longleftrightarrow> ?hit \<or>
        jwt_scan parse ?rest (Some (length ?run, structural_jws_header parse ?run)) (if joined then previous else None) ?j"
      using True by (auto simp: Let_def split: option.splits)
    also have "\<dots> \<longleftrightarrow> ?hit \<or> jwt_shape parse ?rest \<or> structural_jws_header parse ?run \<and> carried False ?rest \<or>
        (joined \<and> eligible previous) \<and> 8 \<le> length ?run \<and> signed False ?rest"
      using 2(3) True carried_boundary [OF run(3), of ?j] signed_boundary [OF run(3), of ?j]
      by (cases ?hit) (simp_all add: Let_def split: if_splits)
    also have "\<dots> \<longleftrightarrow> jwt_shape parse (c # cs) \<or> eligible previous \<and> carried joined (c # cs) \<or>
        eligible before \<and> sizable previous \<and> signed joined (c # cs)"
      using split unfolding eq [symmetric] by blast
    finally show ?thesis .
  qed
qed

lemma contains_jwt_linear_iff: "contains_jwt_linear parse text \<longleftrightarrow> jwt_shape parse text"
  by (simp add: contains_jwt_linear_def jwt_scan_iff)


section \<open>Secret-shaped text\<close>

lemma starts_with_prefix: "starts_with text pre \<longleftrightarrow> prefix pre text"
  by (metis append_eq_conv_conj append_take_drop_id prefixE prefixI starts_with_def)

definition secret_shape :: "(string \<Rightarrow> json option) \<Rightarrow> string \<Rightarrow> bool" where
  "secret_shape parse text \<longleftrightarrow>
    jwt_shape parse text \<or>
    (let lower = map to_ascii_lowercase text; compact = filter is_ascii_alphanumeric lower in
       list_ex (\<lambda>(pre, n). prefixed_secret pre n lower) SECRET_PREFIXES
       \<or> authorization_secret lower
       \<or> environment_secret lower
       \<or> (sublist ''://'' lower \<or> prefix ''project/'' lower \<or> prefix ''builtin/'' lower) \<and> list_ex (\<lambda>name. sublist name compact) SECRET_NAMES
       \<or> list_ex (\<lambda>marker. sublist marker compact) PEM_MARKERS
       \<or> list_ex (\<lambda>uri. sublist uri lower) SECRET_URIS)"

text \<open>C10: The secret scan finds exactly the secret-shaped texts. Its single-pass automata and jumping cursors report a text if and
  only if one of these occurs in it, at any offset: a compact token (a maximal base64url run that decodes to a JOSE header, then
  runs of at least eight base64url bytes, joined by dots), or, ignoring case, a vendor prefix followed by its minimal tail, an
  authorization scheme followed by separators and eight credential bytes, an environment reference whose name contains a
  secret name, a reference that contains one, a private-key marker in the alphanumeric bytes, or a secret scheme.
\<close>
theorem secret_scan_exact: "is_secret_shaped parse text \<longleftrightarrow> secret_shape parse text"
  unfolding is_secret_shaped_def secret_shape_def Let_def contains_reference_secret_name_def compact_contains_secret_name_def
    contains_jwt_linear_iff contains_prefixed_secret_iff authorization_secret_iff environment_secret_iff contains_compact_pem_iff
    contains_bytes_sublist starts_with_prefix
  by (simp add: contains_bytes_sublist [abs_def])

end
