(* ===== verification/Content_Bounds.thy ===== *)
theory Content_Bounds
  imports Content_Soundness
begin

text \<open>
  The bounds of the content gate. The accounting walk keeps a stack of open arrays and objects and may stop at any value; it is
  compared with the depth, the number of values and the texts of the whole value, and the scan that follows it never meets a
  limit the walk has not already refused.
\<close>

section \<open>Totals of a value\<close>

fun json_depth :: "json \<Rightarrow> nat" where
  "json_depth (JArray xs) = foldr max (map (\<lambda>x. Suc (json_depth x)) xs) 0"
| "json_depth (JObject fs) = foldr max (map (\<lambda>f. Suc (json_depth (snd f))) fs) 0"
| "json_depth _ = 0"

fun json_texts :: "json \<Rightarrow> string list" where
  "json_texts (JString t) = [t]"
| "json_texts (JArray xs) = concat (map json_texts xs)"
| "json_texts (JObject fs) = concat (map (\<lambda>f. fst f # json_texts (snd f)) fs)"
| "json_texts _ = []"

fun json_values :: "json \<Rightarrow> nat" where
  "json_values (JArray xs) = Suc (sum_list (map json_values xs))"
| "json_values (JObject fs) = Suc (sum_list (map (\<lambda>f. Suc (json_values (snd f))) fs))"
| "json_values _ = 1"

abbreviation text_bytes :: "string list \<Rightarrow> nat" where
  "text_bytes ts \<equiv> sum_list (map length ts)"

abbreviation sized :: "string \<Rightarrow> bool" where
  "sized t \<equiv> length t \<le> MAX_RECORD_STRING_BYTES"

definition content_bounded :: "json \<Rightarrow> bool" where
  "content_bounded v \<longleftrightarrow> json_depth v \<le> MAX_CONTENT_SCAN_DEPTH \<and> json_values v \<le> MAX_CONTENT_SCAN_VALUES \<and>
    list_all sized (json_texts v) \<and> text_bytes (json_texts v) \<le> MAX_CONTENT_SCAN_BYTES"

definition fits :: "json \<Rightarrow> nat \<Rightarrow> bool" where
  "fits v depth \<longleftrightarrow> depth + json_depth v \<le> MAX_CONTENT_SCAN_DEPTH \<and> list_all sized (json_texts v)"

lemma foldr_max_le: "d + foldr max (map f xs) (0::nat) \<le> n \<longleftrightarrow> d \<le> n \<and> list_all (\<lambda>x. d + f x \<le> n) xs"
  by (induction xs) auto

lemma list_all_concat: "list_all P (concat (map f xs)) \<longleftrightarrow> list_all (\<lambda>x. list_all P (f x)) xs"
  by (induction xs) auto

lemma list_all_conj: "list_all (\<lambda>x. P x \<and> Q x) xs \<longleftrightarrow> list_all P xs \<and> list_all Q xs"
  by (induction xs) auto

lemma fits_array: "fits (JArray (x # xs)) d \<longleftrightarrow> d < MAX_CONTENT_SCAN_DEPTH \<and> list_all (\<lambda>v. fits v (Suc d)) (x # xs)"
  unfolding fits_def json_depth.simps foldr_max_le json_texts.simps list_all_concat list_all_conj by auto

lemma fits_object:
  "fits (JObject (f # fs)) d \<longleftrightarrow> d < MAX_CONTENT_SCAN_DEPTH \<and> list_all (\<lambda>f. sized (fst f) \<and> fits (snd f) (Suc d)) (f # fs)"
  unfolding fits_def json_depth.simps foldr_max_le json_texts.simps list_all_concat list_all_conj by (auto simp: list_all_conj)


section \<open>The accounting walk\<close>

definition charge :: "bool \<Rightarrow> nat \<Rightarrow> nat \<Rightarrow> persistence_preflight \<Rightarrow> durable_content_error + persistence_preflight" where
  "charge ok n b u =
    (if ok \<and> ppf_value_count u + n \<le> MAX_CONTENT_SCAN_VALUES \<and> ppf_bytes u + b \<le> MAX_CONTENT_SCAN_BYTES
     then Inr \<lparr>ppf_value_count = ppf_value_count u + n, ppf_bytes = ppf_bytes u + b\<rparr> else Inl ContentLimitExceeded)"

lemma charge_charge: "bindE (charge p m a u) (charge q n b) = charge (p \<and> q) (m + n) (a + b) u"
  by (auto simp: charge_def)

lemma charge_zero: "charge p m a u = Inr u' \<Longrightarrow> charge True 0 0 u' = Inr u'"
  by (auto simp: charge_def split: if_splits)

lemma account_persistence_string_charge: "account_persistence_string t u = charge (sized t) 1 (length t) u"
  by (auto simp: account_persistence_string_def charge_def check_persistence_usage_def usize_add_def scan_limits)

lemma account_persistence_scalar_charge: "account_persistence_scalar u = charge True 1 0 u"
  by (cases u) (auto simp: account_persistence_scalar_def charge_def check_persistence_usage_def usize_add_def scan_limits)

fun frame_fits :: "persistence_frame \<Rightarrow> bool" where
  "frame_fits (FrameArray vs d) = list_all (\<lambda>v. fits v d) vs"
| "frame_fits (FrameObject fs d) = list_all (\<lambda>f. sized (fst f) \<and> fits (snd f) d) fs"

fun frame_values :: "persistence_frame \<Rightarrow> nat" where
  "frame_values (FrameArray vs d) = sum_list (map json_values vs)"
| "frame_values (FrameObject fs d) = sum_list (map (\<lambda>f. Suc (json_values (snd f))) fs)"

fun frame_bytes :: "persistence_frame \<Rightarrow> nat" where
  "frame_bytes (FrameArray vs d) = sum_list (map (\<lambda>v. text_bytes (json_texts v)) vs)"
| "frame_bytes (FrameObject fs d) = sum_list (map (\<lambda>f. length (fst f) + text_bytes (json_texts (snd f))) fs)"

definition charge_frames :: "persistence_frame list \<Rightarrow> persistence_preflight \<Rightarrow> durable_content_error + persistence_preflight" where
  "charge_frames frames = charge (list_all frame_fits frames) (sum_list (map frame_values frames)) (sum_list (map frame_bytes frames))"

definition charge_value :: "json \<Rightarrow> nat \<Rightarrow> persistence_frame list \<Rightarrow> persistence_preflight \<Rightarrow> durable_content_error + persistence_preflight" where
  "charge_value v d frames u = bindE (charge (fits v d) (json_values v) (text_bytes (json_texts v)) u) (charge_frames frames)"

lemma text_bytes_concat: "text_bytes (concat (map f xs)) = sum_list (map (\<lambda>x. text_bytes (f x)) xs)"
  by (induction xs) auto

lemma enter_value_charges:
  "charge_value v d frames u = bindE (enter_value v d frames u) (\<lambda>(frames, u). charge_frames frames u)"
proof (cases "d \<le> MAX_CONTENT_SCAN_DEPTH")
  case False
  then have "\<not> fits v d" by (simp add: fits_def)
  then show ?thesis using False by (simp add: charge_value_def enter_value.simps charge_def)
next
  case True
  have leaf: "fits v d" if "json_depth v = 0" "json_texts v = []" for v using True that by (simp add: fits_def)
  note enter = charge_value_def enter_value.simps account_persistence_string_charge account_persistence_scalar_charge bindE_assoc
  show ?thesis
  proof (cases v)
    case (JString t)
    then show ?thesis using True by (simp add: enter fits_def del: One_nat_def)
  next
    case (JArray xs)
    then show ?thesis using True
      by (cases xs) (auto simp: enter leaf fits_array charge_frames_def charge_charge text_bytes_concat charge_def)
  next
    case (JObject fs)
    then show ?thesis using True
      by (cases fs) (auto simp: enter leaf fits_object charge_frames_def charge_charge text_bytes_concat charge_def)
  qed (use True in \<open>simp_all add: enter leaf\<close>)
qed

lemma enter_value_used: "enter_value v d frames u = Inr (frames', u') \<Longrightarrow> charge True 0 0 u' = Inr u'"
  by (auto simp: enter_value.simps account_persistence_string_charge account_persistence_scalar_charge
      dest: charge_zero split: if_splits json.splits list.splits)

lemma next_value_charges:
  "charge_frames frames u = bindE (next_value frames u) (\<lambda>(n, frames, u).
    case n of None \<Rightarrow> charge True 0 0 u | Some (v, d) \<Rightarrow> charge_value v d frames u)"
  by (induction frames u rule: next_value.induct)
    (simp_all add: charge_frames_def charge_value_def charge_charge account_persistence_string_charge bindE_assoc ac_simps)

lemma next_value_done: "next_value frames u = Inr (None, frames', u') \<Longrightarrow> u' = u"
  by (induction frames u rule: next_value.induct) auto

lemma preflight_loop_charges: "preflight_loop v d frames u = charge_value v d frames u"
proof (induction v d frames u rule: preflight_loop.induct)
  case (1 v d frames u)
  show ?case
  proof (cases "enter_value v d frames u")
    case (Inl e)
    then show ?thesis by (simp add: preflight_loop.simps [of v] enter_value_charges)
  next
    case (Inr r)
    obtain frames1 u1 where e: "enter_value v d frames u = Inr (frames1, u1)" using Inr by (cases r) auto
    show ?thesis
    proof (cases "next_value frames1 u1")
      case (Inl e')
      then show ?thesis using e by (simp add: preflight_loop.simps [of v] enter_value_charges next_value_charges [of frames1])
    next
      case (Inr r)
      then obtain n frames2 u2 where n: "next_value frames1 u1 = Inr (n, frames2, u2)" by (cases r) auto
      show ?thesis
      proof (cases n)
        case None
        then have "u2 = u1" using n next_value_done by simp
        then show ?thesis using e n None enter_value_used [OF e]
          by (simp add: preflight_loop.simps [of v] enter_value_charges next_value_charges [of frames1])
      next
        case (Some vd)
        then obtain w d2 where "n = Some (w, d2)" by (cases vd) auto
        then show ?thesis using e n 1 [OF e refl n refl _ refl refl, of w d2]
          by (simp add: preflight_loop.simps [of v] enter_value_charges next_value_charges [of frames1])
      qed
    qed
  qed
qed

lemma preflight_json_structure_exact:
  "preflight_json_structure v = (if content_bounded v then Inr () else Inl ContentLimitExceeded)"
  by (auto simp: preflight_json_structure_def preflight_persistence_values_def preflight_loop_charges charge_value_def
      charge_frames_def charge_def preflight_zero_def content_bounded_def fits_def)


section \<open>The scan\<close>

lemma scan_text_fits:
  "dcs_bytes s + length t \<le> MAX_CONTENT_SCAN_BYTES \<Longrightarrow>
   scan_text parse t s = (if is_secret_shaped parse t then Inl UnsafeContent else Inr (s\<lparr>dcs_bytes := dcs_bytes s + length t\<rparr>))"
  by (auto simp: scan_text_def usize_add_def scan_limits)

lemma count_value_fits:
  "d \<le> MAX_CONTENT_SCAN_DEPTH \<Longrightarrow> dcs_values s < MAX_CONTENT_SCAN_VALUES \<Longrightarrow> count_value d s = Inr (s\<lparr>dcs_values := Suc (dcs_values s)\<rparr>)"
  by (auto simp: count_value_def usize_add_def scan_limits)

definition scanned :: "(string \<Rightarrow> json option) \<Rightarrow> string list \<Rightarrow> durable_content_error + durable_content_scanner \<Rightarrow> durable_content_scanner \<Rightarrow> nat \<Rightarrow> bool" where
  "scanned parse ts r s n \<longleftrightarrow>
    (if list_ex (is_secret_shaped parse) ts then r = Inl UnsafeContent
     else \<exists>s'. r = Inr s' \<and> dcs_bytes s' = dcs_bytes s + text_bytes ts \<and> dcs_values s' \<le> dcs_values s + n)"

lemma scanned_bind:
  assumes "scanned parse ts r s n"
    and "\<And>s'. r = Inr s' \<Longrightarrow> dcs_bytes s' = dcs_bytes s + text_bytes ts \<Longrightarrow> dcs_values s' \<le> dcs_values s + n \<Longrightarrow> scanned parse us (f s') s' m"
  shows "scanned parse (ts @ us) (bindE r f) s (n + m)"
  using assms unfolding scanned_def by (fastforce split: if_splits)

lemma scanned_text: "dcs_bytes s + length t \<le> MAX_CONTENT_SCAN_BYTES \<Longrightarrow> scanned parse [t] (scan_text parse t s) s 0"
  by (simp add: scanned_def scan_text_fits)

lemma scanned_count:
  "d \<le> MAX_CONTENT_SCAN_DEPTH \<Longrightarrow> dcs_values s < MAX_CONTENT_SCAN_VALUES \<Longrightarrow> scanned parse [] (count_value d s) s 1"
  by (simp add: scanned_def count_value_fits)

lemma scanned_zero: "scanned parse [] (Inr s) s 0"
  by (simp add: scanned_def)

abbreviation room :: "nat \<Rightarrow> nat \<Rightarrow> durable_content_scanner \<Rightarrow> bool" where
  "room n b s \<equiv> dcs_values s + n \<le> MAX_CONTENT_SCAN_VALUES \<and> dcs_bytes s + b \<le> MAX_CONTENT_SCAN_BYTES"

lemma scan_json_scanned:
  shows "d + json_depth v \<le> MAX_CONTENT_SCAN_DEPTH \<Longrightarrow> room (json_values v) (text_bytes (json_texts v)) s \<Longrightarrow>
      scanned parse (json_texts v) (scan_json parse v d s) s (json_values v)"
    and "list_all (\<lambda>v. d + json_depth v \<le> MAX_CONTENT_SCAN_DEPTH) vs \<Longrightarrow>
      room (sum_list (map json_values vs)) (text_bytes (concat (map json_texts vs))) s \<Longrightarrow>
      scanned parse (concat (map json_texts vs)) (scan_items parse vs d s) s (sum_list (map json_values vs))"
    and "list_all (\<lambda>f. d + json_depth (snd f) \<le> MAX_CONTENT_SCAN_DEPTH) fs \<Longrightarrow>
      room (sum_list (map (\<lambda>f. Suc (json_values (snd f))) fs)) (text_bytes (concat (map (\<lambda>f. fst f # json_texts (snd f)) fs))) s \<Longrightarrow>
      scanned parse (concat (map (\<lambda>f. fst f # json_texts (snd f)) fs)) (scan_fields parse fs d s) s
        (sum_list (map (\<lambda>f. Suc (json_values (snd f))) fs))"
proof (induction parse v d s and parse vs d s and parse fs d s rule: scan_json_scan_items_scan_fields.induct)
  case (1 parse t depth s)
  then show ?case using scanned_bind [OF scanned_count scanned_text] by fastforce
next
  case (2 parse xs depth s)
  have d: "depth \<le> MAX_CONTENT_SCAN_DEPTH" "list_all (\<lambda>v. depth + 1 + json_depth v \<le> MAX_CONTENT_SCAN_DEPTH) xs"
    using 2(2) unfolding json_depth.simps foldr_max_le by simp_all
  have "scanned parse ([] @ concat (map json_texts xs)) (bindE (count_value depth s) (scan_items parse xs (depth + 1))) s
      (1 + sum_list (map json_values xs))"
    by (rule scanned_bind [OF scanned_count]) (use 2(1,3) d in simp_all)
  then show ?case by simp
next
  case (3 parse fs depth s)
  have d: "depth \<le> MAX_CONTENT_SCAN_DEPTH" "list_all (\<lambda>f. depth + 1 + json_depth (snd f) \<le> MAX_CONTENT_SCAN_DEPTH) fs"
    using 3(2) unfolding json_depth.simps foldr_max_le by simp_all
  have "scanned parse ([] @ concat (map (\<lambda>f. fst f # json_texts (snd f)) fs)) (bindE (count_value depth s) (scan_fields parse fs (depth + 1))) s
      (1 + sum_list (map (\<lambda>f. Suc (json_values (snd f))) fs))"
    by (rule scanned_bind [OF scanned_count]) (use 3(1,3) d in simp_all)
  then show ?case by simp
next
  case (6 parse x xs depth s)
  have "scanned parse (json_texts x @ concat (map json_texts xs)) (bindE (scan_json parse x depth s) (scan_items parse xs depth)) s
      (json_values x + sum_list (map json_values xs))"
    by (rule scanned_bind) (use 6 in simp_all)
  then show ?case by simp
next
  case (8 parse k v fs depth s)
  have "scanned parse ([k] @ json_texts v @ concat (map (\<lambda>f. fst f # json_texts (snd f)) fs))
      (bindE (scan_text parse k s) (\<lambda>s. bindE (scan_json parse v depth s) (scan_fields parse fs depth))) s
      (0 + (json_values v + sum_list (map (\<lambda>f. Suc (json_values (snd f))) fs)))"
  proof (rule scanned_bind)
    show "scanned parse [k] (scan_text parse k s) s 0" using 8(4) by (intro scanned_text) simp
  next
    fix s1 assume s1: "scan_text parse k s = Inr s1" "dcs_bytes s1 = dcs_bytes s + text_bytes [k]" "dcs_values s1 \<le> dcs_values s + 0"
    show "scanned parse (json_texts v @ concat (map (\<lambda>f. fst f # json_texts (snd f)) fs))
        (bindE (scan_json parse v depth s1) (scan_fields parse fs depth)) s1
        (json_values v + sum_list (map (\<lambda>f. Suc (json_values (snd f))) fs))"
      by (rule scanned_bind) (use 8 s1 in simp_all)
  qed
  then show ?case unfolding scanned_def by (fastforce split: if_splits)
qed (use scanned_count scanned_zero in force)+

lemma scan_json_bounded:
  assumes "content_bounded v"
  shows "scanned parse (json_texts v) (scan_json parse v 0 scanner_default) scanner_default (json_values v)"
  using assms by (intro scan_json_scanned(1)) (simp_all add: content_bounded_def scanner_default_def)

lemma scan_text_Inr:
  "scan_text parse t s = Inr s' \<longleftrightarrow> dcs_bytes s + length t \<le> MAX_CONTENT_SCAN_BYTES \<and> \<not> is_secret_shaped parse t \<and>
    s' = s\<lparr>dcs_bytes := dcs_bytes s + length t\<rparr>"
  by (auto simp: scan_text_def usize_add_def scan_limits)

lemma scan_texts_accepted:
  "dcs_bytes s \<le> MAX_CONTENT_SCAN_BYTES \<Longrightarrow>
   (\<exists>s'. foldE (scan_text parse) ts s = Inr s') \<longleftrightarrow>
     dcs_bytes s + text_bytes ts \<le> MAX_CONTENT_SCAN_BYTES \<and> \<not> list_ex (is_secret_shaped parse) ts"
proof (induction ts arbitrary: s)
  case (Cons t ts)
  show ?case
  proof (cases "dcs_bytes s + length t \<le> MAX_CONTENT_SCAN_BYTES \<and> \<not> is_secret_shaped parse t")
    case True
    then show ?thesis using Cons.IH [of "s\<lparr>dcs_bytes := dcs_bytes s + length t\<rparr>"] by (simp add: scan_text_Inr add.assoc)
  qed (auto simp: scan_text_Inr)
qed simp

text \<open>C11: The content gate is exact. It accepts a value with its additional texts if and only if the value nests at most 64 deep, has
  at most 131072 values and keys, no text of it is over 16 MiB, all its texts and the additional ones take at most 64 MiB, and none
  of them is secret-shaped. Without additional texts the error is exact too: a value beyond a bound is refused for its size
  before any of it is scanned, and a value within them is refused as unsafe precisely when a key or a text of it is
  secret-shaped.
\<close>
theorem durable_content_exact:
  "(validate_durable_content parse v ts = Inr () \<longleftrightarrow>
      content_bounded v \<and> text_bytes (json_texts v @ ts) \<le> MAX_CONTENT_SCAN_BYTES \<and>
      \<not> list_ex (is_secret_shaped parse) (json_texts v @ ts)) \<and>
   validate_durable_content parse v [] =
     (if \<not> content_bounded v then Inl ContentLimitExceeded
      else if list_ex (is_secret_shaped parse) (json_texts v) then Inl UnsafeContent else Inr ())"
proof -
  let ?r = "scan_json parse v 0 scanner_default"
  have gate: "validate_durable_content parse v ts =
      (if content_bounded v then bindE ?r (\<lambda>s. bindE (foldE (scan_text parse) ts s) (\<lambda>_. Inr ())) else Inl ContentLimitExceeded)" for ts
    by (simp add: validate_durable_content_def preflight_json_structure_exact)
  show ?thesis
  proof (cases "content_bounded v \<and> \<not> list_ex (is_secret_shaped parse) (json_texts v)")
    case True
    then obtain s where s: "?r = Inr s" "dcs_bytes s = text_bytes (json_texts v)"
      using scan_json_bounded [of v parse] by (auto simp: scanned_def scanner_default_def)
    moreover have "dcs_bytes s \<le> MAX_CONTENT_SCAN_BYTES" using True s(2) by (simp add: content_bounded_def)
    ultimately show ?thesis using True scan_texts_accepted [of s parse ts] by (simp add: gate)
  next
    case False
    then have "content_bounded v \<Longrightarrow> ?r = Inl UnsafeContent" using scan_json_bounded [of v parse] by (simp add: scanned_def)
    then show ?thesis using False by (auto simp: gate)
  qed
qed

end
