(* ===== verification/Graph_Preflight.thy ===== *)
theory Graph_Preflight
  imports Content_Bounds Policy
begin

text \<open>
  The size accounting of an authored graph, before anything recursive is done with it (\<open>preflight_execution_graph\<close> and
  \<open>preflight_graph_version_record_values\<close> of \<open>core/graph/src/persistence.rs\<close>). The functions there are long sequences of calls on a
  \<open>PersistencePreflight\<close>; here each is the list of those calls, made one after the other until one refuses. The lists are compared
  with the document that \<open>serde\<close> writes of the same graph (the attributes of \<open>core/protocols/src/graph.rs\<close>).
\<close>

section \<open>The calls\<close>

definition account_collection :: "nat \<Rightarrow> nat \<Rightarrow> durable_content_error + unit" where
  "account_collection n maximum = (if n > maximum then Inl ContentLimitExceeded else Inr ())"

definition account_container :: "nat \<Rightarrow> nat \<Rightarrow> persistence_preflight \<Rightarrow> durable_content_error + persistence_preflight" where
  "account_container n maximum u = bindE (account_collection n maximum) (\<lambda>_. account_persistence_scalar u)"

datatype accounting = AccountString string | AccountContainer nat nat | AccountScalar | AccountValue json

fun account :: "accounting \<Rightarrow> persistence_preflight \<Rightarrow> durable_content_error + persistence_preflight" where
  "account (AccountString v) = account_persistence_string v"
| "account (AccountContainer n maximum) = account_container n maximum"
| "account AccountScalar = account_persistence_scalar"
| "account (AccountValue v) = preflight_loop v 0 []"

fun optionality_as_str :: "optionality \<Rightarrow> string" where
  "optionality_as_str Required = ''required''"
| "optionality_as_str Recommended = ''recommended''"
| "optionality_as_str Optional = ''optional''"

fun edge_type_as_str :: "edge_type \<Rightarrow> string" where
  "edge_type_as_str Control = ''control''"
| "edge_type_as_str Data = ''data''"
| "edge_type_as_str Evidence = ''evidence''"
| "edge_type_as_str Event = ''event''"
| "edge_type_as_str Failure = ''failure''"
| "edge_type_as_str Compensation = ''compensation''"
| "edge_type_as_str HumanApproval = ''human_approval''"

fun unknown_behavior_as_str :: "unknown_condition_behavior \<Rightarrow> string" where
  "unknown_behavior_as_str PauseOnUnknown = ''pause''"
| "unknown_behavior_as_str FailOnUnknown = ''fail''"
| "unknown_behavior_as_str SkipOnUnknown = ''skip''"
| "unknown_behavior_as_str RouteOnUnknown = ''route''"

definition account_strings :: "(string, string) omap \<Rightarrow> accounting list" where
  "account_strings m = concat (map (\<lambda>(key, v). [AccountString key, AccountString v]) (om_entries m))"

definition account_properties :: "(string, json) omap \<Rightarrow> accounting list" where
  "account_properties m = concat (map (\<lambda>(key, v). [AccountString key, AccountValue v]) (om_entries m))"

definition account_metadata :: "graph_metadata \<Rightarrow> accounting list" where
  "account_metadata m =
    AccountContainer (6 + om_len (gm_properties m)) 135 #
    map AccountString [''id'', ''name'', ''executionId'', ''version'', ''basedOn'', ''labels''] @
    [AccountScalar, AccountContainer (om_len (gm_labels m)) 128, AccountContainer (om_len (gm_properties m)) 128] @
    map AccountString [gm_id m, gm_name m, gm_execution_id m] @
    [case gm_based_on m of Some v \<Rightarrow> AccountString v | None \<Rightarrow> AccountScalar] @
    account_strings (gm_labels m) @ account_properties (gm_properties m)"

definition account_node :: "string \<times> graph_node \<Rightarrow> accounting list" where
  "account_node = (\<lambda>(node_id, node).
    AccountString node_id # AccountContainer (4 + om_len (gn_properties node)) 132 #
    map AccountString [''type'', ''name'', ''objective'', ''optionality''] @
    [AccountContainer (om_len (gn_properties node)) 128] @
    map AccountString [node_type_as_str (gn_node_type node), gn_name node, gn_objective node, optionality_as_str (gn_optionality node)] @
    account_properties (gn_properties node))"

definition account_optional :: "string \<Rightarrow> ('a \<Rightarrow> accounting) \<Rightarrow> 'a option \<Rightarrow> accounting list" where
  "account_optional key f v = (case v of Some x \<Rightarrow> [AccountString key, f x] | None \<Rightarrow> [])"

definition account_edge :: "graph_edge \<Rightarrow> accounting list" where
  "account_edge edge =
    (let optional_fields = of_bool (ge_payload_schema edge \<noteq> None) + of_bool (ge_condition edge \<noteq> None)
           + of_bool (ge_on_false edge \<noteq> None) + of_bool (ge_on_unknown edge \<noteq> None) + of_bool (ge_priority edge \<noteq> None) in
     AccountContainer (5 + optional_fields) 10 #
     map AccountString [''id'', ''from'', ''to'', ''type'', ''map''] @
     [AccountContainer (om_len (ge_bindings edge)) 128] @
     map AccountString [ge_id edge, ge_from edge, ge_to edge, edge_type_as_str (ge_edge_type edge)] @
     account_optional ''payloadSchema'' AccountString (ge_payload_schema edge) @
     account_strings (ge_bindings edge) @
     account_optional ''condition'' AccountValue (ge_condition edge) @
     account_optional ''onFalse'' AccountValue (ge_on_false edge) @
     account_optional ''onUnknown'' (\<lambda>v. AccountString (unknown_behavior_as_str v)) (ge_on_unknown edge) @
     account_optional ''priority'' (\<lambda>_. AccountScalar) (ge_priority edge))"

definition account_budgets :: "graph_budgets \<Rightarrow> accounting list" where
  "account_budgets b =
    (let budget_fields = of_bool (gb_max_nodes b \<noteq> None) + of_bool (gb_max_depth b \<noteq> None) + of_bool (gb_max_mutations b \<noteq> None)
           + of_bool (gb_max_retries_per_node b \<noteq> None) + of_bool (gb_max_wall_clock_seconds b \<noteq> None)
           + of_bool (gb_max_api_cost_usd b \<noteq> None) + of_bool (gb_max_parallel_model_calls b \<noteq> None) in
     AccountContainer budget_fields 7 #
     concat (map (\<lambda>(key, present). if present then [AccountString key, AccountScalar] else [])
       [(''maxNodes'', gb_max_nodes b \<noteq> None), (''maxDepth'', gb_max_depth b \<noteq> None), (''maxMutations'', gb_max_mutations b \<noteq> None),
        (''maxRetriesPerNode'', gb_max_retries_per_node b \<noteq> None), (''maxWallClockSeconds'', gb_max_wall_clock_seconds b \<noteq> None),
        (''maxApiCostUsd'', gb_max_api_cost_usd b \<noteq> None), (''maxParallelModelCalls'', gb_max_parallel_model_calls b \<noteq> None)]))"

definition account_spec :: "graph_spec \<Rightarrow> accounting list" where
  "account_spec s =
    AccountContainer 6 6 #
    map AccountString [''entrypoints'', ''nodes'', ''edges'', ''budgets'', ''policies'', ''completion''] @
    [AccountContainer (length (gs_entrypoints s)) 64, AccountContainer (om_len (gs_nodes s)) 1024,
     AccountContainer (length (gs_edges s)) 4096, AccountContainer (length (gs_policies s)) 64] @
    map AccountString (gs_entrypoints s) @
    concat (map account_node (om_entries (gs_nodes s))) @
    concat (map account_edge (gs_edges s)) @
    account_budgets (gs_budgets s) @
    map AccountValue (gs_policies s) @
    [AccountValue (gs_completion s)]"

definition account_execution_graph :: "execution_graph \<Rightarrow> accounting list" where
  "account_execution_graph g =
    AccountContainer 4 4 #
    map AccountString [''apiVersion'', ''kind'', ''metadata'', ''spec''] @
    map AccountString [eg_api_version g, eg_kind g] @
    account_metadata (eg_metadata g) @ account_spec (eg_spec g)"

definition preflight_execution_graph :: "execution_graph \<Rightarrow> durable_content_error + unit" where
  "preflight_execution_graph g = bindE (foldE account (account_execution_graph g) preflight_zero) (\<lambda>_. Inr ())"


section \<open>The version record\<close>

record graph_version_ref =
  gvr_number :: u64
  gvr_content_hash :: string

record graph_version_record =
  gvc_graph :: execution_graph
  gvc_predecessor :: "graph_version_ref option"
  gvc_semantic :: json
  gvc_content_hash :: string
  gvc_created_by :: actor
  gvc_created_at :: timestamp

fun actor_type_as_str :: "actor_type \<Rightarrow> string" where
  "actor_type_as_str OwnerType = ''owner''"
| "actor_type_as_str HumanType = ''human''"
| "actor_type_as_str AgentType = ''agent''"
| "actor_type_as_str SystemType = ''system''"

definition account_predecessor :: "graph_version_ref option \<Rightarrow> accounting list" where
  "account_predecessor predecessor =
    (case predecessor of
       Some p \<Rightarrow> [AccountContainer 2 2, AccountString ''number'', AccountScalar, AccountString ''contentHash'',
         AccountString (gvr_content_hash p)]
     | None \<Rightarrow> [AccountScalar])"

text \<open>\<open>rfc3339\<close> is \<open>chrono\<close>'s rendering of the instant.\<close>

definition account_version_record :: "(timestamp \<Rightarrow> string) \<Rightarrow> graph_version_record \<Rightarrow> accounting list" where
  "account_version_record rfc3339 r =
    AccountContainer 6 6 #
    map AccountString [''graph'', ''predecessor'', ''semantic'', ''contentHash'', ''createdBy'', ''createdAt''] @
    account_execution_graph (gvc_graph r) @
    account_predecessor (gvc_predecessor r) @
    [AccountValue (gvc_semantic r), AccountString (gvc_content_hash r), AccountContainer 2 2, AccountString ''type'',
     AccountString (actor_type_as_str (act_type (gvc_created_by r))), AccountString ''id'', AccountString (act_id (gvc_created_by r)),
     AccountString (rfc3339 (gvc_created_at r))]"

definition preflight_graph_version_record_values :: "(timestamp \<Rightarrow> string) \<Rightarrow> graph_version_record \<Rightarrow> durable_content_error + unit" where
  "preflight_graph_version_record_values rfc3339 r =
    bindE (foldE account (account_version_record rfc3339 r) preflight_zero) (\<lambda>_. Inr ())"


section \<open>The document\<close>

definition json_u64 :: "u64 \<Rightarrow> json" where
  "json_u64 n = JNumber (PosInt n)"

definition json_i64 :: "64 word \<Rightarrow> json" where
  "json_i64 n = JNumber (if 0 \<le> sint n then PosInt n else NegInt n)"

definition json_strings :: "(string, string) omap \<Rightarrow> json" where
  "json_strings m = JObject (map (\<lambda>(key, v). (key, JString v)) (om_entries m))"

definition json_optional :: "string \<Rightarrow> ('a \<Rightarrow> json) \<Rightarrow> 'a option \<Rightarrow> (string \<times> json) list" where
  "json_optional key f v = (case v of Some x \<Rightarrow> [(key, f x)] | None \<Rightarrow> [])"

definition metadata_value :: "graph_metadata \<Rightarrow> json" where
  "metadata_value m =
    JObject ([(''id'', JString (gm_id m)), (''name'', JString (gm_name m)), (''executionId'', JString (gm_execution_id m)),
      (''version'', json_u64 (gm_version m)), (''basedOn'', case gm_based_on m of Some v \<Rightarrow> JString v | None \<Rightarrow> JNull),
      (''labels'', json_strings (gm_labels m))] @ om_entries (gm_properties m))"

definition node_value :: "graph_node \<Rightarrow> json" where
  "node_value node =
    JObject ([(''type'', JString (node_type_as_str (gn_node_type node))), (''name'', JString (gn_name node)),
      (''objective'', JString (gn_objective node)), (''optionality'', JString (optionality_as_str (gn_optionality node)))]
      @ om_entries (gn_properties node))"

definition edge_value :: "graph_edge \<Rightarrow> json" where
  "edge_value edge =
    JObject ([(''id'', JString (ge_id edge)), (''from'', JString (ge_from edge)), (''to'', JString (ge_to edge)),
      (''type'', JString (edge_type_as_str (ge_edge_type edge)))] @
      json_optional ''payloadSchema'' JString (ge_payload_schema edge) @
      json_optional ''condition'' id (ge_condition edge) @
      json_optional ''onFalse'' id (ge_on_false edge) @
      json_optional ''onUnknown'' (\<lambda>v. JString (unknown_behavior_as_str v)) (ge_on_unknown edge) @
      [(''map'', json_strings (ge_bindings edge))] @
      json_optional ''priority'' json_i64 (ge_priority edge))"

definition budgets_value :: "graph_budgets \<Rightarrow> json" where
  "budgets_value b =
    JObject (json_optional ''maxNodes'' json_u64 (gb_max_nodes b) @ json_optional ''maxDepth'' json_u64 (gb_max_depth b) @
      json_optional ''maxMutations'' json_u64 (gb_max_mutations b) @ json_optional ''maxRetriesPerNode'' json_u64 (gb_max_retries_per_node b) @
      json_optional ''maxWallClockSeconds'' json_u64 (gb_max_wall_clock_seconds b) @
      json_optional ''maxApiCostUsd'' (\<lambda>v. JNumber (Float v)) (gb_max_api_cost_usd b) @
      json_optional ''maxParallelModelCalls'' json_u64 (gb_max_parallel_model_calls b))"

definition spec_value :: "graph_spec \<Rightarrow> json" where
  "spec_value s =
    JObject [(''entrypoints'', JArray (map JString (gs_entrypoints s))),
      (''nodes'', JObject (map (\<lambda>(node_id, node). (node_id, node_value node)) (om_entries (gs_nodes s)))),
      (''edges'', JArray (map edge_value (gs_edges s))), (''budgets'', budgets_value (gs_budgets s)),
      (''policies'', JArray (gs_policies s)), (''completion'', gs_completion s)]"

definition graph_value :: "execution_graph \<Rightarrow> json" where
  "graph_value g =
    JObject [(''apiVersion'', JString (eg_api_version g)), (''kind'', JString (eg_kind g)),
      (''metadata'', metadata_value (eg_metadata g)), (''spec'', spec_value (eg_spec g))]"

definition version_record_value :: "(timestamp \<Rightarrow> string) \<Rightarrow> graph_version_record \<Rightarrow> json" where
  "version_record_value rfc3339 r =
    JObject [(''graph'', graph_value (gvc_graph r)),
      (''predecessor'', case gvc_predecessor r of None \<Rightarrow> JNull
        | Some p \<Rightarrow> JObject [(''number'', json_u64 (gvr_number p)), (''contentHash'', JString (gvr_content_hash p))]),
      (''semantic'', gvc_semantic r), (''contentHash'', JString (gvc_content_hash r)),
      (''createdBy'', JObject [(''type'', JString (actor_type_as_str (act_type (gvc_created_by r)))), (''id'', JString (act_id (gvc_created_by r)))]),
      (''createdAt'', JString (rfc3339 (gvc_created_at r)))]"

end
