(* ===== verification/Preflight_Soundness.thy ===== *)
theory Preflight_Soundness
  imports Graph_Preflight
begin

text \<open>
  The size accounting of a graph against the document it stands for: the calls count every value and every byte of text of the
  document, and one value more for each map of authored properties, so an accepted graph is bounded before it is serialised.
\<close>

section \<open>The calls as charges\<close>

fun step_ok :: "accounting \<Rightarrow> bool" where
  "step_ok (AccountString v) = sized v"
| "step_ok (AccountContainer n maximum) = (n \<le> maximum)"
| "step_ok AccountScalar = True"
| "step_ok (AccountValue v) = fits v 0"

fun step_values :: "accounting \<Rightarrow> nat" where
  "step_values (AccountValue v) = json_values v"
| "step_values _ = 1"

fun step_bytes :: "accounting \<Rightarrow> nat" where
  "step_bytes (AccountString v) = length v"
| "step_bytes (AccountValue v) = text_bytes (json_texts v)"
| "step_bytes _ = 0"

lemma account_charge: "account s u = charge (step_ok s) (step_values s) (step_bytes s) u"
proof (cases s)
  case (AccountContainer n maximum)
  then show ?thesis by (auto simp: account_container_def account_collection_def account_persistence_scalar_charge charge_def)
next
  case (AccountValue v)
  have "charge_frames [] = charge True 0 0" by (rule ext) (simp add: charge_frames_def)
  then show ?thesis using AccountValue by (simp add: preflight_loop_charges charge_value_def charge_charge)
qed (simp_all add: account_persistence_string_charge account_persistence_scalar_charge)

lemma foldE_account:
  "charge True 0 0 u = Inr u \<Longrightarrow>
   foldE account steps u = charge (list_all step_ok steps) (sum_list (map step_values steps)) (sum_list (map step_bytes steps)) u"
proof (induction steps arbitrary: u)
  case (Cons s steps)
  have "bindE (account s u) (foldE account steps) =
      bindE (account s u) (charge (list_all step_ok steps) (sum_list (map step_values steps)) (sum_list (map step_bytes steps)))"
  proof (cases "account s u")
    case (Inr u')
    then have "charge True 0 0 u' = Inr u'" using charge_zero by (simp add: account_charge)
    then show ?thesis using Inr Cons.IH by simp
  qed simp
  then show ?case by (simp add: account_charge [of s] charge_charge)
qed simp

lemma foldE_account_zero:
  "bindE (foldE account steps preflight_zero) (\<lambda>_. Inr ()) =
    (if list_all step_ok steps \<and> sum_list (map step_values steps) \<le> MAX_CONTENT_SCAN_VALUES
        \<and> sum_list (map step_bytes steps) \<le> MAX_CONTENT_SCAN_BYTES then Inr () else Inl ContentLimitExceeded)"
proof -
  have "charge True 0 0 preflight_zero = Inr preflight_zero" by (simp add: charge_def preflight_zero_def)
  then show ?thesis by (auto simp: foldE_account) (auto simp: charge_def preflight_zero_def)
qed


section \<open>The parts of a graph\<close>

text \<open>The calls \<open>steps\<close> account for the document \<open>v\<close>, with \<open>extra\<close> values more, and are refused only beyond \<open>capped\<close>.\<close>

definition accounts_for :: "accounting list \<Rightarrow> json \<Rightarrow> nat \<Rightarrow> bool \<Rightarrow> bool" where
  "accounts_for steps v extra capped \<longleftrightarrow>
    (list_all step_ok steps \<longleftrightarrow> capped \<and> list_all sized (json_texts v)) \<and>
    sum_list (map step_values steps) = json_values v + extra \<and>
    sum_list (map step_bytes steps) = text_bytes (json_texts v)"

abbreviation shallow :: "json \<Rightarrow> bool" where
  "shallow v \<equiv> json_depth v \<le> MAX_CONTENT_SCAN_DEPTH"

lemma fits_zero: "fits v 0 \<longleftrightarrow> shallow v \<and> list_all sized (json_texts v)"
  by (simp add: fits_def)

lemma short_sized: "length k \<le> 32 \<Longrightarrow> sized k"
  by (simp add: scan_limits)

definition metadata_capped :: "graph_metadata \<Rightarrow> bool" where
  "metadata_capped m \<longleftrightarrow> om_len (gm_labels m) \<le> 128 \<and> om_len (gm_properties m) \<le> 128 \<and> list_all shallow (om_values (gm_properties m))"

definition node_capped :: "graph_node \<Rightarrow> bool" where
  "node_capped node \<longleftrightarrow> om_len (gn_properties node) \<le> 128 \<and> list_all shallow (om_values (gn_properties node))"

definition edge_capped :: "graph_edge \<Rightarrow> bool" where
  "edge_capped edge \<longleftrightarrow> om_len (ge_bindings edge) \<le> 128 \<and> pred_option shallow (ge_condition edge) \<and> pred_option shallow (ge_on_false edge)"

definition spec_capped :: "graph_spec \<Rightarrow> bool" where
  "spec_capped s \<longleftrightarrow> length (gs_entrypoints s) \<le> 64 \<and> om_len (gs_nodes s) \<le> 1024 \<and> length (gs_edges s) \<le> 4096 \<and>
    length (gs_policies s) \<le> 64 \<and> list_all node_capped (om_values (gs_nodes s)) \<and> list_all edge_capped (gs_edges s) \<and>
    list_all shallow (gs_policies s) \<and> shallow (gs_completion s)"

definition graph_capped :: "execution_graph \<Rightarrow> bool" where
  "graph_capped g \<longleftrightarrow> metadata_capped (eg_metadata g) \<and> spec_capped (eg_spec g)"

lemma sum_list_concat_map: "sum_list (map g (concat (map f xs))) = sum_list (map (\<lambda>x. sum_list (map g (f x))) xs)"
  by (induction xs) auto

lemma sum_list_Suc: "sum_list (map (\<lambda>x. Suc (f x)) xs) = length xs + sum_list (map f xs)"
  by (induction xs) auto

lemmas accounting_simps = accounts_for_def list_all_concat list_all_conj sum_list_concat_map sum_list_addf sum_list_Suc split_def
  list.pred_map o_def fits_zero short_sized text_bytes_concat

lemma strings_accounted:
  "list_all step_ok (account_strings m) \<longleftrightarrow> list_all sized (json_texts (json_strings m))"
  "json_values (json_strings m) = Suc (sum_list (map step_values (account_strings m)))"
  "sum_list (map step_bytes (account_strings m)) = text_bytes (json_texts (json_strings m))"
  by (simp_all add: account_strings_def json_strings_def accounting_simps)

lemma properties_accounted:
  "list_all step_ok (account_properties m) \<longleftrightarrow>
    list_all shallow (om_values m) \<and> list_all sized (concat (map (\<lambda>f. fst f # json_texts (snd f)) (om_entries m)))"
  "sum_list (map step_values (account_properties m)) = sum_list (map (\<lambda>f. Suc (json_values (snd f))) (om_entries m))"
  "sum_list (map step_bytes (account_properties m)) = text_bytes (concat (map (\<lambda>f. fst f # json_texts (snd f)) (om_entries m)))"
  by (auto simp: account_properties_def om_values_def accounting_simps)

lemma metadata_accounted: "accounts_for (account_metadata m) (metadata_value m) 1 (metadata_capped m)"
  by (cases "gm_based_on m")
    (auto simp: accounts_for_def account_metadata_def metadata_value_def metadata_capped_def strings_accounted properties_accounted
      short_sized json_u64_def)

lemma node_accounted:
  "list_all step_ok (account_node e) \<longleftrightarrow> node_capped (snd e) \<and> sized (fst e) \<and> list_all sized (json_texts (node_value (snd e)))"
  "sum_list (map step_values (account_node e)) = Suc (Suc (json_values (node_value (snd e))))"
  "sum_list (map step_bytes (account_node e)) = length (fst e) + text_bytes (json_texts (node_value (snd e)))"
  by (cases e; auto simp: account_node_def node_value_def node_capped_def properties_accounted short_sized)+

text \<open>An optional field is counted with its key exactly when it is written.\<close>

lemma optional_accounted:
  assumes "\<And>x. step_ok (f x) \<longleftrightarrow> P x \<and> list_all sized (json_texts (g x))"
    and "\<And>x. step_values (f x) = json_values (g x)" and "\<And>x. step_bytes (f x) = text_bytes (json_texts (g x))" and "length key \<le> 32"
  shows "list_all step_ok (account_optional key f v) \<longleftrightarrow>
      pred_option P v \<and> list_all sized (concat (map (\<lambda>f. fst f # json_texts (snd f)) (json_optional key g v)))"
    and "sum_list (map step_values (account_optional key f v)) = sum_list (map (\<lambda>f. Suc (json_values (snd f))) (json_optional key g v))"
    and "sum_list (map step_bytes (account_optional key f v)) = text_bytes (concat (map (\<lambda>f. fst f # json_texts (snd f)) (json_optional key g v)))"
  using assms short_sized by (cases v; simp add: account_optional_def json_optional_def)+

lemmas text_optional = optional_accounted [of AccountString "\<lambda>_. True" JString, simplified]
lemmas value_optional = optional_accounted [of AccountValue shallow id, simplified, OF fits_zero]
lemmas behavior_optional =
  optional_accounted [of "\<lambda>v. AccountString (unknown_behavior_as_str v)" "\<lambda>_. True" "\<lambda>v. JString (unknown_behavior_as_str v)", simplified]
lemmas number_optional = optional_accounted [of "\<lambda>_. AccountScalar" "\<lambda>_. True", simplified]

lemma edge_accounted: "accounts_for (account_edge edge) (edge_value edge) 0 (edge_capped edge)"
  unfolding accounts_for_def
proof (intro conjI)
  show "list_all step_ok (account_edge edge) \<longleftrightarrow> edge_capped edge \<and> list_all sized (json_texts (edge_value edge))"
    by (auto simp: account_edge_def Let_def edge_value_def edge_capped_def strings_accounted text_optional value_optional
        behavior_optional number_optional [of json_i64] short_sized json_i64_def)
qed (simp_all add: account_edge_def Let_def edge_value_def strings_accounted text_optional value_optional
      behavior_optional number_optional [of json_i64] json_i64_def)

lemma budgets_accounted: "accounts_for (account_budgets b) (budgets_value b) 0 True"
  unfolding accounts_for_def account_budgets_def Let_def budgets_value_def
  by (cases "gb_max_nodes b"; cases "gb_max_depth b"; cases "gb_max_mutations b"; cases "gb_max_retries_per_node b";
      cases "gb_max_wall_clock_seconds b"; cases "gb_max_api_cost_usd b"; cases "gb_max_parallel_model_calls b";
      simp add: json_optional_def json_u64_def short_sized)

lemma spec_accounted: "accounts_for (account_spec s) (spec_value s) (om_len (gs_nodes s)) (spec_capped s)"
proof -
  have edge: "list_all step_ok (account_edge e) \<longleftrightarrow> edge_capped e \<and> list_all sized (json_texts (edge_value e))"
    "sum_list (map step_values (account_edge e)) = json_values (edge_value e)"
    "sum_list (map step_bytes (account_edge e)) = text_bytes (json_texts (edge_value e))" for e
    using edge_accounted by (simp_all add: accounts_for_def)
  have b: "list_all step_ok (account_budgets b) \<longleftrightarrow> list_all sized (json_texts (budgets_value b))"
    "sum_list (map step_values (account_budgets b)) = json_values (budgets_value b)"
    "sum_list (map step_bytes (account_budgets b)) = text_bytes (json_texts (budgets_value b))" for b
    using budgets_accounted by (simp_all add: accounts_for_def)
  note parts = account_spec_def spec_value_def node_accounted edge b accounting_simps om_len_def om_values_def
  show ?thesis unfolding accounts_for_def
  proof (intro conjI)
    show "list_all step_ok (account_spec s) \<longleftrightarrow> spec_capped s \<and> list_all sized (json_texts (spec_value s))"
      by (auto simp: parts spec_capped_def)
  qed (simp_all add: parts)
qed

lemma graph_accounted: "accounts_for (account_execution_graph g) (graph_value g) (1 + om_len (gs_nodes (eg_spec g))) (graph_capped g)"
  using metadata_accounted [of "eg_metadata g"] spec_accounted [of "eg_spec g"]
  by (auto simp: accounts_for_def account_execution_graph_def graph_value_def graph_capped_def short_sized)

lemma record_accounted:
  "accounts_for (account_version_record rfc3339 r) (version_record_value rfc3339 r) (1 + om_len (gs_nodes (eg_spec (gvc_graph r))))
    (graph_capped (gvc_graph r) \<and> shallow (gvc_semantic r))"
  using graph_accounted [of "gvc_graph r"]
  by (cases "gvc_predecessor r"; cases "act_type (gvc_created_by r)")
    (auto simp: accounts_for_def account_version_record_def version_record_value_def account_predecessor_def fits_zero short_sized json_u64_def)


section \<open>The verdict\<close>

definition bounded_document :: "json \<Rightarrow> nat \<Rightarrow> bool" where
  "bounded_document v extra \<longleftrightarrow> json_values v + extra \<le> MAX_CONTENT_SCAN_VALUES \<and> list_all sized (json_texts v) \<and>
    text_bytes (json_texts v) \<le> MAX_CONTENT_SCAN_BYTES"

lemma accounted_verdict:
  assumes "accounts_for steps v extra capped"
  shows "bindE (foldE account steps preflight_zero) (\<lambda>_. Inr ()) =
    (if capped \<and> bounded_document v extra then Inr () else Inl ContentLimitExceeded)"
  using assms unfolding foldE_account_zero accounts_for_def bounded_document_def by auto

text \<open>C15: The size accounting of an authored graph, and of its version record, is an exact inventory of the document \<open>serde\<close>
  writes of it: it accepts if and only if every collection is within its cap, no authored value is nested beyond the scan depth, and
  the document, with one value more for each map of authored properties, is within the limits on values, on each text and on bytes of
  text; otherwise it reports the limit, whatever was exceeded.
\<close>
theorem graph_preflight_exact:
  "preflight_execution_graph g =
     (if graph_capped g \<and> bounded_document (graph_value g) (1 + om_len (gs_nodes (eg_spec g))) then Inr () else Inl ContentLimitExceeded) \<and>
   preflight_graph_version_record_values rfc3339 r =
     (if graph_capped (gvc_graph r) \<and> shallow (gvc_semantic r) \<and>
         bounded_document (version_record_value rfc3339 r) (1 + om_len (gs_nodes (eg_spec (gvc_graph r))))
      then Inr () else Inl ContentLimitExceeded)"
  unfolding preflight_execution_graph_def preflight_graph_version_record_values_def
    accounted_verdict [OF graph_accounted] accounted_verdict [OF record_accounted] by simp

end
