(* ===== verification/Control_Grammar.thy ===== *)
theory Control_Grammar
  imports References
begin

text \<open>
  The closed grammar of the controls of a persisted graph (\<open>core/graph/src/persistence.rs\<close>): the keys each control type may
  carry, the indexed families with their counts, the modes and discriminators, and the order and node type of a node's controls.
  A set of indices is an ordered set of naturals. Every refusal is \<open>InvalidProjection\<close>.
\<close>

section \<open>Keys\<close>

definition three_digits :: "string \<Rightarrow> bool" where
  "three_digits s = (length s = 3 \<and> list_all is_ascii_digit s)"

definition decimal_value :: "string \<Rightarrow> nat" where
  "decimal_value s = foldl (\<lambda>n c. n * 10 + (byte c - 48)) 0 s"

definition pad3 :: "nat \<Rightarrow> string" where
  "pad3 n = (let digits = show_decimal n in replicate (3 - length digits) CHR ''0'' @ digits)"

definition usize_try_from :: "64 word \<Rightarrow> nat option" where
  "usize_try_from v = (if sint v < 0 then None else Some (nat (sint v)))"

definition indexed_suffix :: "string \<Rightarrow> string \<Rightarrow> nat option" where
  "indexed_suffix key pre =
    Option.bind (strip_prefix pre key) (\<lambda>suffix. if three_digits suffix then Some (decimal_value suffix) else None)"

definition indexed_key :: "string \<Rightarrow> string \<Rightarrow> bool" where
  "indexed_key key pre = (indexed_suffix key pre \<noteq> None)"

definition indexed_any :: "string \<Rightarrow> string list \<Rightarrow> bool" where
  "indexed_any key prefixes = list_ex (indexed_key key) prefixes"

definition double_indexed_suffix :: "string \<Rightarrow> string \<Rightarrow> (nat \<times> nat) option" where
  "double_indexed_suffix key pre =
    Option.bind (Option.bind (strip_prefix pre key) (split_once ''.'')) (\<lambda>(parent, child).
      if \<not> three_digits parent \<or> \<not> three_digits child then None else Some (decimal_value parent, decimal_value child))"

definition double_indexed_key :: "string \<Rightarrow> string \<Rightarrow> bool" where
  "double_indexed_key key pre =
    (case Option.bind (strip_prefix pre key) (split_once ''.'') of
       Some (first, second) \<Rightarrow> three_digits first \<and> three_digits second | None \<Rightarrow> False)"

definition nested_count_key :: "string \<Rightarrow> string \<Rightarrow> bool" where
  "nested_count_key key pre =
    (case Option.bind (strip_prefix pre key) (strip_suffix ''Count'') of Some index \<Rightarrow> three_digits index | None \<Rightarrow> False)"

definition control_identifier :: "persisted_control \<Rightarrow> string \<Rightarrow> string option" where
  "control_identifier control key = om_get (pc_identifiers control) key"

definition has_identifier :: "persisted_control \<Rightarrow> string \<Rightarrow> bool" where
  "has_identifier control key = om_contains (pc_identifiers control) key"

definition has_integer :: "persisted_control \<Rightarrow> string \<Rightarrow> bool" where
  "has_integer control key = om_contains (pc_integers control) key"

definition has_flag :: "persisted_control \<Rightarrow> string \<Rightarrow> bool" where
  "has_flag control key = om_contains (pc_flags control) key"

definition control_keys :: "persisted_control \<Rightarrow> string list" where
  "control_keys control = om_keys (pc_identifiers control) @ om_keys (pc_integers control) @ om_keys (pc_flags control)"

definition key_indices :: "string list \<Rightarrow> string \<Rightarrow> nat oset" where
  "key_indices keys pre = os_of_list (List.map_filter (\<lambda>key. indexed_suffix key pre) keys)"

definition control_indices :: "persisted_control \<Rightarrow> string \<Rightarrow> nat oset" where
  "control_indices control pre = key_indices (control_keys control) pre"

text \<open>\<open>indices.len() != count || (0..count).any(|index| !indices.contains(&index))\<close>, which the source repeats.\<close>

definition not_exactly :: "nat oset \<Rightarrow> nat \<Rightarrow> bool" where
  "not_exactly indices count = (om_len indices \<noteq> count \<or> list_ex (\<lambda>index. \<not> os_member indices index) [0..<count])"

abbreviation invalid_if :: "bool \<Rightarrow> graph_error + unit" where
  "invalid_if b \<equiv> ensure (\<not> b) InvalidProjection"


section \<open>Vocabularies\<close>

definition control_allowed_for_node :: "string \<Rightarrow> string \<Rightarrow> bool" where
  "control_allowed_for_node control_type node_type =
    (if control_type \<in> {''agent_configuration'', ''agent_model_requirements'', ''agent_context_strategy'',
         ''agent_evidence_requirements'', ''agent_memory_policy'', ''node_agents''} then node_type = ''agent''
     else if control_type = ''tool_configuration'' then node_type = ''tool''
     else if control_type = ''classifier_configuration'' then node_type = ''classifier''
     else if control_type = ''gate_configuration'' then node_type = ''gate''
     else if control_type = ''fork_configuration'' then node_type = ''fork''
     else if control_type = ''join_configuration'' then node_type = ''join''
     else if control_type = ''human_decision'' then node_type = ''human_decision''
     else if control_type = ''subgraph_configuration'' then node_type = ''subgraph''
     else if control_type = ''materializer_configuration'' then node_type = ''materializer''
     else if control_type = ''deploy_configuration'' then node_type = ''deploy''
     else if control_type = ''rollback_configuration'' then node_type = ''rollback''
     else control_type \<in> {''node_common'', ''input_contract'', ''output_contract'', ''node_model'', ''node_context'',
         ''node_permissions'', ''node_isolation'', ''node_retry'', ''node_resources'', ''node_memory'', ''node_completion'',
         ''node_configuration'', ''node_loop'', ''node_delegation''})"

definition node_control_orders :: "(string \<times> nat) list" where
  "node_control_orders =
    [(''agent_configuration'', 0), (''agent_context_strategy'', 1), (''agent_evidence_requirements'', 2),
     (''agent_memory_policy'', 3), (''agent_model_requirements'', 4), (''node_agents'', 5), (''node_delegation'', 6),
     (''input_contract'', 10), (''output_contract'', 11),
     (''node_model'', 20), (''node_context'', 21), (''node_permissions'', 22), (''node_isolation'', 23), (''node_retry'', 24),
     (''node_resources'', 25), (''node_memory'', 26), (''node_completion'', 27), (''node_common'', 28), (''node_loop'', 29),
     (''tool_configuration'', 30), (''classifier_configuration'', 30), (''gate_configuration'', 30), (''fork_configuration'', 30),
     (''join_configuration'', 30), (''human_decision'', 30), (''subgraph_configuration'', 30),
     (''materializer_configuration'', 30), (''deploy_configuration'', 30), (''rollback_configuration'', 30),
     (''node_configuration'', 31)]"

definition persisted_node_control_order :: "string \<Rightarrow> nat option" where
  "persisted_node_control_order control_type = map_of node_control_orders control_type"

definition identifier_key_allowed :: "string \<Rightarrow> string \<Rightarrow> bool" where
  "identifier_key_allowed control_type key =
    (if control_type = ''agent_configuration'' then
       key \<in> {''mode'', ''agentRef'', ''inputSchema'', ''resultSchema'', ''directiveRef'', ''isolation''}
       \<or> indexed_any key [''capability.'', ''allowedTool.'', ''prohibitedAction.'']
     else if control_type = ''node_agents'' then indexed_key key ''agentRef.''
     else if control_type = ''node_delegation'' then key = ''kind''
     else if control_type \<in> {''agent_model_requirements'', ''node_model''} then
       key \<in> {''profile'', ''routePolicy''} \<or> indexed_key key ''independent.''
     else if control_type = ''agent_context_strategy'' then indexed_key key ''includeScope.''
     else if control_type = ''agent_evidence_requirements'' then indexed_any key [''requirement.'', ''type.'', ''ref.'']
     else if control_type \<in> {''agent_memory_policy'', ''node_memory''} then key = ''policyRef'' \<or> indexed_key key ''includeScope.''
     else if control_type \<in> {''input_contract'', ''output_contract''} then
       key \<in> {''schema'', ''schemaId'', ''schemaDialect'', ''publishAs''} \<or> indexed_any key [''bindingKey.'', ''bindingValue.'']
     else if control_type = ''node_context'' then
       key \<in> {''policyRef'', ''conflicts''}
       \<or> indexed_any key [''includeType.'', ''includeRef.'', ''includeNode.'', ''exclude.'', ''revalidate.'']
       \<or> double_indexed_key key ''scopeSlot.''
     else if control_type = ''node_permissions'' then
       indexed_any key [''capability.'', ''duration.''] \<or> double_indexed_key key ''allow.'' \<or> double_indexed_key key ''scopeSlot.''
     else if control_type = ''node_isolation'' then
       key \<in> {''minimum'', ''filesystemMode'', ''networkMode'', ''brokerMode''}
       \<or> indexed_key key ''networkAllow.'' \<or> indexed_key key ''writeScopeSlot.''
     else if control_type = ''node_retry'' then key = ''backoff'' \<or> indexed_any key [''retryOn.'', ''noRetry.'', ''beforeRetry.'']
     else if control_type = ''node_resources'' then False
     else if control_type = ''node_common'' then key \<in> {''onCancel'', ''onFailure''} \<or> indexed_key key ''tag.''
     else if control_type = ''tool_configuration'' then key \<in> {''toolRef'', ''action''}
     else if control_type = ''classifier_configuration'' then key \<in> {''method'', ''profile'', ''rulesRef''}
     else if control_type = ''gate_configuration'' then
       key \<in> {''passWhen'', ''failureRoute'', ''overrideResult''}
       \<or> indexed_any key [''requirement.'', ''evaluator.'', ''overrideRole.'']
     else if control_type = ''fork_configuration'' then key = ''strategy''
     else if control_type = ''join_configuration'' then key \<in> {''strategy'', ''mergeMethod'', ''resultSchema''}
     else if control_type = ''human_decision'' then key \<in> {''directiveSlot'', ''timeoutAction''} \<or> indexed_key key ''option.''
     else if control_type = ''subgraph_configuration'' then
       key = ''graphRef'' \<or> indexed_any key [''parameterKey.'', ''parameterValue.'', ''exposedResult.'']
     else if control_type = ''materializer_configuration'' then key \<in> {''target'', ''strategy''}
     else if control_type = ''deploy_configuration'' then
       key \<in> {''adapterRef'', ''compensationNode''} \<or> indexed_key key ''precondition.''
     else if control_type = ''rollback_configuration'' then key = ''adapterRef''
     else if control_type = ''node_completion'' then
       key = ''contractRef''
       \<or> indexed_any key [''customsProof.'', ''requires.'', ''forbids.'', ''requiresArtifact.'', ''forbidsArtifact.'',
            ''requiresEvidenceType.'', ''forbidsEvidenceType.'', ''requiresSlot.'', ''forbidsSlot.'']
     else if control_type = ''node_configuration'' then key = ''targetRef''
     else if control_type = ''node_loop'' then False
     else if control_type = ''edge_condition'' then key \<in> {''schema'', ''unknownBehavior'', ''slot0'', ''slot1''}
     else if control_type = ''policy_control'' then
       key \<in> {''mode'', ''policyRef'', ''reasonCode'', ''resultLabel'', ''ruleTextSlot'', ''explanationSlot''}
       \<or> indexed_any key [''deny.'', ''bypassedRequirement.'', ''acknowledgedRisk.'']
     else if control_type = ''graph_completion'' then
       key \<in> {''statusFull'', ''statusWaived''} \<or> indexed_any key [''terminal.'', ''requirement.'']
     else control_type = ''terminal_nodes'' \<and> key = ''terminalNode'')"

definition integer_key_allowed :: "string \<Rightarrow> string \<Rightarrow> bool" where
  "integer_key_allowed control_type key =
    (if control_type = ''agent_configuration'' then key \<in> {''capabilityCount'', ''allowedToolCount'', ''prohibitedActionCount''}
     else if control_type = ''node_agents'' then key = ''agentRefCount''
     else if control_type \<in> {''agent_model_requirements'', ''node_model''} then key = ''independentCount''
     else if control_type = ''agent_context_strategy'' then key \<in> {''includeScopeCount'', ''maxUnits''}
     else if control_type = ''agent_evidence_requirements'' then key = ''requirementCount'' \<or> indexed_key key ''min.''
     else if control_type \<in> {''agent_memory_policy'', ''node_memory''} then key \<in> {''defaultTtlDays'', ''includeScopeCount''}
     else if control_type \<in> {''input_contract'', ''output_contract''} then key = ''bindingCount''
     else if control_type = ''node_context'' then
       key \<in> {''includeCount'', ''excludeCount'', ''revalidateCount'', ''freshnessMaxAgeDays'', ''initialUnits'', ''maxUnits''}
       \<or> nested_count_key key ''scope.''
     else if control_type = ''node_permissions'' then
       key = ''permissionCount'' \<or> nested_count_key key ''allow.'' \<or> nested_count_key key ''scope.''
     else if control_type = ''node_isolation'' then
       key \<in> {''networkAllowCount'', ''writeScopeCount'', ''isolationCpu'', ''isolationMemoryMb'', ''isolationDiskMb''}
     else if control_type = ''node_retry'' then
       key \<in> {''maxAttempts'', ''maxBackoffSeconds'', ''retryOnCount'', ''noRetryCount'', ''beforeRetryCount''}
     else if control_type = ''node_resources'' then key \<in> {''cpu'', ''memoryMb'', ''diskMb''}
     else if control_type = ''node_common'' then key = ''tagCount''
     else if control_type = ''gate_configuration'' then key \<in> {''requirementCount'', ''evaluatorCount'', ''overrideRoleCount''}
     else if control_type = ''human_decision'' then key \<in> {''optionCount'', ''timeoutSeconds''}
     else if control_type = ''subgraph_configuration'' then key \<in> {''parameterCount'', ''exposedResultCount''}
     else if control_type = ''deploy_configuration'' then key = ''preconditionCount''
     else if control_type = ''node_completion'' then
       key \<in> {''requiresCount'', ''forbidsCount'', ''customsProofCount''}
       \<or> indexed_any key [''requiresEvidenceMin.'', ''forbidsEvidenceMin.'']
     else if control_type = ''node_configuration'' then key = ''timeoutSeconds''
     else if control_type = ''node_loop'' then key = ''maxIterations''
     else if control_type = ''policy_control'' then key \<in> {''denyCount'', ''bypassedRequirementCount'', ''acknowledgedRiskCount''}
     else control_type = ''graph_completion'' \<and> key \<in> {''terminalCount'', ''requirementCount''})"

definition flag_key_allowed :: "string \<Rightarrow> string \<Rightarrow> bool" where
  "flag_key_allowed control_type key =
    (if key = ''present'' \<and> control_type \<notin> {''edge_condition'', ''terminal_nodes''} then True
     else if control_type \<in> {''agent_memory_policy'', ''node_memory''} then key = ''writeCandidates''
     else if control_type = ''node_context'' then
       key \<in> {''freshnessPresent'', ''budgetPresent'', ''expansionPresent'', ''expansionAllowed'', ''expansionRequiresReason''}
     else if control_type = ''node_isolation'' then key \<in> {''filesystemPresent'', ''networkPresent'', ''brokerPresent''}
     else if control_type = ''deploy_configuration'' then key \<in> {''reversible'', ''compensationRequired''}
     else if control_type = ''node_completion'' then indexed_any key [''requiresSchemaValid.'', ''forbidsSchemaValid.'']
     else if control_type = ''node_configuration'' then key \<in> {''userEditable'', ''userOverrideAllowed''}
     else control_type \<in> {''graph_completion'', ''terminal_nodes''} \<and> key = ''allowWaivers'')"

definition allowed_values :: "((string \<times> string) \<times> string list) list" where
  "allowed_values =
    [((''agent_configuration'', ''mode''), [''ref'', ''ephemeral'']),
     ((''tool_configuration'', ''action''), [''execute'']),
     ((''classifier_configuration'', ''method''), [''hybrid'']),
     ((''gate_configuration'', ''passWhen''), [''all'']),
     ((''fork_configuration'', ''strategy''), [''all'']),
     ((''join_configuration'', ''strategy''),
        [''all_completed'', ''all_succeeded'', ''any_succeeded'', ''quorum'', ''first_valid'', ''custom_evaluator'']),
     ((''human_decision'', ''timeoutAction''), [''pause'']),
     ((''materializer_configuration'', ''strategy''), [''evidence_backed_patch'']),
     ((''edge_condition'', ''unknownBehavior''), [''pause'', ''fail'', ''skip'', ''route'']),
     ((''policy_control'', ''mode''), [''ref'', ''inline'', ''manual_override''])]"

definition identifier_value_allowed :: "string \<Rightarrow> string \<Rightarrow> string \<Rightarrow> bool" where
  "identifier_value_allowed control_type key v =
    (if (control_type, key) \<in> {(''node_isolation'', ''minimum''), (''agent_configuration'', ''isolation'')}
     then is_valid_isolation_tier v
     else case map_of allowed_values (control_type, key) of Some allowed \<Rightarrow> v \<in> set allowed | None \<Rightarrow> True)"


section \<open>Modes and discriminators\<close>

definition only_present :: "persisted_control \<Rightarrow> bool" where
  "only_present control = (om_entries (pc_flags control) = [(''present'', True)])"

definition identifiers_valid :: "persisted_control \<Rightarrow> string list \<Rightarrow> string list \<Rightarrow> bool" where
  "identifiers_valid control fixed prefixes =
    list_all (\<lambda>key. key \<in> set fixed \<or> list_ex (indexed_key key) prefixes) (om_keys (pc_identifiers control))"

definition integers_exact :: "persisted_control \<Rightarrow> string list \<Rightarrow> bool" where
  "integers_exact control keys =
    (om_len (pc_integers control) = length keys \<and> list_all (has_integer control) keys)"

definition validate_exact_policy_mode :: "persisted_control \<Rightarrow> graph_error + unit" where
  "validate_exact_policy_mode control =
    bindE (ok_or (control_identifier control ''mode'') InvalidProjection) (\<lambda>mode.
      if \<not> only_present control then Inl InvalidProjection
      else if mode = ''ref'' \<and> identifiers_valid control [''mode'', ''policyRef''] []
           \<and> om_len (pc_identifiers control) = 2 \<and> om_len (pc_integers control) = 0
         \<or> mode = ''inline'' \<and> identifiers_valid control [''mode'', ''reasonCode'', ''ruleTextSlot'', ''explanationSlot''] [''deny.'']
           \<and> integers_exact control [''denyCount'']
           \<and> (case om_values (pc_integers control) of count # _ \<Rightarrow> sint count > 0 | [] \<Rightarrow> False)
         \<or> mode = ''manual_override''
           \<and> identifiers_valid control [''mode'', ''resultLabel''] [''bypassedRequirement.'', ''acknowledgedRisk.'']
           \<and> integers_exact control [''bypassedRequirementCount'', ''acknowledgedRiskCount'']
           \<and> control_identifier control ''resultLabel'' \<noteq> None
           \<and> list_all (\<lambda>count. sint count > 0) (om_values (pc_integers control))
      then Inr () else Inl InvalidProjection)"

definition integer_positive :: "persisted_control \<Rightarrow> string \<Rightarrow> bool" where
  "integer_positive control key = (case om_get (pc_integers control) key of Some count \<Rightarrow> sint count > 0 | None \<Rightarrow> False)"

definition validate_required_discriminators :: "persisted_control \<Rightarrow> graph_error + unit" where
  "validate_required_discriminators control =
    bindE
      (if pc_control_type control = ''agent_configuration'' then
         bindE (ok_or (control_identifier control ''mode'') InvalidProjection) (\<lambda>mode.
           let exact_flags = only_present control;
               valid =
                 (if mode = ''ref'' then
                    exact_flags \<and> om_len (pc_identifiers control) = 2 \<and> control_identifier control ''agentRef'' \<noteq> None
                    \<and> om_len (pc_integers control) = 0
                  else if mode = ''ephemeral'' then
                    exact_flags \<and> control_identifier control ''agentRef'' = None \<and> control_identifier control ''inputSchema'' \<noteq> None
                    \<and> control_identifier control ''resultSchema'' \<noteq> None \<and> integer_positive control ''capabilityCount''
                  else False) in
           invalid_if (\<not> valid))
       else Inr ())
      (\<lambda>_. if pc_control_type control = ''policy_control'' then validate_exact_policy_mode control else Inr ())"


section \<open>Counted families\<close>

definition declared_count :: "persisted_control \<Rightarrow> string \<Rightarrow> graph_error + nat option" where
  "declared_count control count_key =
    (case om_get (pc_integers control) count_key of
       None \<Rightarrow> Inr None
     | Some v \<Rightarrow> bindE (ok_or (usize_try_from v) InvalidProjection) (\<lambda>n. Inr (Some n)))"

definition group_indices :: "persisted_control \<Rightarrow> string list \<Rightarrow> nat oset" where
  "group_indices control prefixes =
    os_of_list (concat (map (\<lambda>key. List.map_filter (indexed_suffix key) prefixes) (control_keys control)))"

definition validate_count_group :: "persisted_control \<Rightarrow> string \<times> string list \<Rightarrow> graph_error + unit" where
  "validate_count_group control = (\<lambda>(count_key, prefixes).
    let indices = group_indices control prefixes in
    case om_get (pc_integers control) count_key of
      None \<Rightarrow> ensure (om_len indices = 0) InvalidProjection
    | Some count \<Rightarrow>
        if 0 \<le> sint count \<and> sint count \<le> 64 then
          bindE (ok_or (usize_try_from count) InvalidProjection) (\<lambda>n.
            invalid_if (list_ex (\<lambda>index. index \<ge> n) (om_keys indices) \<or> list_ex (\<lambda>index. \<not> os_member indices index) [0..<n]))
        else Inl InvalidProjection)"

definition count_groups :: "string \<Rightarrow> (string \<times> string list) list" where
  "count_groups control_type =
    (if control_type = ''agent_configuration'' then
       [(''capabilityCount'', [''capability.'']), (''allowedToolCount'', [''allowedTool.'']),
        (''prohibitedActionCount'', [''prohibitedAction.''])]
     else if control_type = ''node_agents'' then [(''agentRefCount'', [''agentRef.''])]
     else if control_type \<in> {''agent_model_requirements'', ''node_model''} then [(''independentCount'', [''independent.''])]
     else if control_type = ''agent_context_strategy'' then [(''includeScopeCount'', [''includeScope.''])]
     else if control_type = ''agent_evidence_requirements'' then
       [(''requirementCount'', [''requirement.'', ''type.'', ''ref.'', ''min.''])]
     else if control_type \<in> {''agent_memory_policy'', ''node_memory''} then [(''includeScopeCount'', [''includeScope.''])]
     else if control_type \<in> {''input_contract'', ''output_contract''} then [(''bindingCount'', [''bindingKey.'', ''bindingValue.''])]
     else if control_type = ''node_context'' then
       [(''includeCount'', [''includeType.'', ''includeRef.'', ''includeNode.'']), (''excludeCount'', [''exclude.'']),
        (''revalidateCount'', [''revalidate.''])]
     else if control_type = ''node_isolation'' then [(''networkAllowCount'', [''networkAllow.''])]
     else if control_type = ''node_retry'' then
       [(''retryOnCount'', [''retryOn.'']), (''noRetryCount'', [''noRetry.'']), (''beforeRetryCount'', [''beforeRetry.''])]
     else if control_type = ''node_common'' then [(''tagCount'', [''tag.''])]
     else if control_type = ''gate_configuration'' then
       [(''requirementCount'', [''requirement.'']), (''evaluatorCount'', [''evaluator.'']), (''overrideRoleCount'', [''overrideRole.''])]
     else if control_type = ''human_decision'' then [(''optionCount'', [''option.''])]
     else if control_type = ''subgraph_configuration'' then
       [(''parameterCount'', [''parameterKey.'', ''parameterValue.'']), (''exposedResultCount'', [''exposedResult.''])]
     else if control_type = ''deploy_configuration'' then [(''preconditionCount'', [''precondition.''])]
     else if control_type = ''node_completion'' then
       [(''customsProofCount'', [''customsProof.'']),
        (''requiresCount'', [''requires.'', ''requiresArtifact.'', ''requiresEvidenceType.'', ''requiresEvidenceMin.'',
           ''requiresSchemaValid.'', ''requiresSlot.'']),
        (''forbidsCount'', [''forbids.'', ''forbidsArtifact.'', ''forbidsEvidenceType.'', ''forbidsEvidenceMin.'',
           ''forbidsSchemaValid.'', ''forbidsSlot.''])]
     else if control_type = ''policy_control'' then
       [(''denyCount'', [''deny.'']), (''bypassedRequirementCount'', [''bypassedRequirement.'']),
        (''acknowledgedRiskCount'', [''acknowledgedRisk.''])]
     else if control_type = ''graph_completion'' then [(''terminalCount'', [''terminal.'']), (''requirementCount'', [''requirement.''])]
     else [])"

definition validate_control_counts :: "persisted_control \<Rightarrow> graph_error + unit" where
  "validate_control_counts control =
    foldE (\<lambda>group _. validate_count_group control group) (count_groups (pc_control_type control)) ()"

definition exact_group :: "persisted_control \<Rightarrow> string \<Rightarrow> string list \<Rightarrow> graph_error + unit" where
  "exact_group control count_key prefixes =
    bindE (declared_count control count_key) (\<lambda>count.
      case count of None \<Rightarrow> Inr ()
      | Some n \<Rightarrow> foldE (\<lambda>pre _. invalid_if (not_exactly (control_indices control pre) n)) prefixes ())"

definition validate_one_of_positions :: "persisted_control \<Rightarrow> string \<Rightarrow> string list \<Rightarrow> graph_error + unit" where
  "validate_one_of_positions control count_key prefixes =
    bindE (declared_count control count_key) (\<lambda>count.
      case count of None \<Rightarrow> Inr ()
      | Some n \<Rightarrow>
          let sets = map (control_indices control) prefixes in
          invalid_if (list_ex (\<lambda>index. length (filter (\<lambda>indices. os_member indices index) sets) \<noteq> 1) [0..<n]))"

definition validate_optional_position_owner :: "persisted_control \<Rightarrow> string \<Rightarrow> string \<Rightarrow> graph_error + unit" where
  "validate_optional_position_owner control optional_prefix owner_prefix =
    invalid_if (list_ex (\<lambda>index. \<not> os_member (control_indices control owner_prefix) index)
      (om_keys (control_indices control optional_prefix)))"

definition validate_correlated_control_groups :: "persisted_control \<Rightarrow> graph_error + unit" where
  "validate_correlated_control_groups control =
    (let control_type = pc_control_type control in
     if control_type \<in> {''input_contract'', ''output_contract''} then
       exact_group control ''bindingCount'' [''bindingKey.'', ''bindingValue.'']
     else if control_type = ''subgraph_configuration'' then
       exact_group control ''parameterCount'' [''parameterKey.'', ''parameterValue.'']
     else if control_type = ''node_permissions'' then exact_group control ''permissionCount'' [''capability.'']
     else if control_type = ''node_context'' then exact_group control ''includeCount'' [''includeType.'']
     else if control_type = ''agent_evidence_requirements'' then
       bindE (validate_one_of_positions control ''requirementCount'' [''requirement.'', ''type.'']) (\<lambda>_.
       bindE (validate_optional_position_owner control ''ref.'' ''type.'') (\<lambda>_.
         validate_optional_position_owner control ''min.'' ''type.''))
     else if control_type = ''node_completion'' then
       bindE (validate_one_of_positions control ''requiresCount''
         [''requires.'', ''requiresArtifact.'', ''requiresEvidenceType.'', ''requiresSchemaValid.'', ''requiresSlot.'']) (\<lambda>_.
       bindE (validate_one_of_positions control ''forbidsCount''
         [''forbids.'', ''forbidsArtifact.'', ''forbidsEvidenceType.'', ''forbidsSchemaValid.'', ''forbidsSlot.'']) (\<lambda>_.
       bindE (validate_optional_position_owner control ''requiresEvidenceMin.'' ''requiresEvidenceType.'') (\<lambda>_.
         validate_optional_position_owner control ''forbidsEvidenceMin.'' ''forbidsEvidenceType.'')))
     else Inr ())"


section \<open>Presence flags\<close>

definition require_presence_equivalence :: "persisted_control \<Rightarrow> string \<Rightarrow> bool \<Rightarrow> graph_error + unit" where
  "require_presence_equivalence control presence_key has_child =
    (case om_get (pc_flags control) presence_key of
       Some True \<Rightarrow> ensure has_child InvalidProjection
     | None \<Rightarrow> ensure (\<not> has_child) InvalidProjection
     | _ \<Rightarrow> Inl InvalidProjection)"

definition has_indexed_identifier :: "persisted_control \<Rightarrow> string \<Rightarrow> bool" where
  "has_indexed_identifier control pre = list_ex (\<lambda>key. indexed_key key pre) (om_keys (pc_identifiers control))"

definition validate_nested_presence_families :: "persisted_control \<Rightarrow> graph_error + unit" where
  "validate_nested_presence_families control =
    (if pc_control_type control = ''node_context'' then
       bindE (require_presence_equivalence control ''freshnessPresent''
         (has_integer control ''freshnessMaxAgeDays'' \<or> has_integer control ''revalidateCount''
          \<or> has_indexed_identifier control ''revalidate.'')) (\<lambda>_.
       bindE (require_presence_equivalence control ''budgetPresent''
         (has_integer control ''initialUnits'' \<or> has_integer control ''maxUnits'')) (\<lambda>_.
         require_presence_equivalence control ''expansionPresent''
           (has_flag control ''expansionAllowed'' \<or> has_flag control ''expansionRequiresReason'')))
     else if pc_control_type control = ''node_isolation'' then
       bindE (require_presence_equivalence control ''filesystemPresent''
         (has_identifier control ''filesystemMode'' \<or> has_integer control ''writeScopeCount''
          \<or> has_indexed_identifier control ''writeScopeSlot.'')) (\<lambda>_.
       bindE (require_presence_equivalence control ''networkPresent''
         (has_identifier control ''networkMode'' \<or> has_integer control ''networkAllowCount''
          \<or> has_indexed_identifier control ''networkAllow.'')) (\<lambda>_.
         require_presence_equivalence control ''brokerPresent'' (has_identifier control ''brokerMode'')))
     else Inr ())"


section \<open>Paths and permissions\<close>

definition nested_path_count :: "persisted_control \<Rightarrow> string \<Rightarrow> nat \<Rightarrow> nat option" where
  "nested_path_count control pre parent =
    Option.bind (om_get (pc_integers control) (pre @ ''.'' @ pad3 parent @ ''Count'')) usize_try_from"

definition nested_indices :: "persisted_control \<Rightarrow> string \<Rightarrow> nat \<Rightarrow> nat oset" where
  "nested_indices control slot_prefix parent =
    os_of_list (List.map_filter (\<lambda>key. Option.bind (double_indexed_suffix key slot_prefix)
      (\<lambda>(candidate, child). if candidate = parent then Some child else None)) (om_keys (pc_identifiers control)))"

definition validate_nested_slots :: "persisted_control \<Rightarrow> string \<Rightarrow> string \<Rightarrow> nat \<Rightarrow> bool \<Rightarrow> graph_error + unit" where
  "validate_nested_slots control count_prefix slot_prefix parent required =
    (let indices = nested_indices control slot_prefix parent in
     case nested_path_count control count_prefix parent of
       Some count \<Rightarrow> if 1 \<le> count \<and> count \<le> 64 then invalid_if (not_exactly indices count) else Inl InvalidProjection
     | None \<Rightarrow> ensure (\<not> required \<and> om_len indices = 0) InvalidProjection)"

definition reject_nested_slots :: "persisted_control \<Rightarrow> string \<Rightarrow> string \<Rightarrow> nat \<Rightarrow> graph_error + unit" where
  "reject_nested_slots control count_prefix slot_prefix parent =
    invalid_if (nested_path_count control count_prefix parent \<noteq> None
      \<or> list_ex (\<lambda>key. case double_indexed_suffix key slot_prefix of Some (candidate, _) \<Rightarrow> candidate = parent | None \<Rightarrow> False)
          (om_keys (pc_identifiers control)))"

definition validate_include :: "persisted_control \<Rightarrow> nat \<Rightarrow> graph_error + unit" where
  "validate_include control index =
    bindE (ok_or (control_identifier control (''includeType.'' @ pad3 index)) InvalidProjection) (\<lambda>kind.
      let has_ref = control_identifier control (''includeRef.'' @ pad3 index) \<noteq> None;
          has_node = control_identifier control (''includeNode.'' @ pad3 index) \<noteq> None in
      if kind = ''project_kernel'' \<and> \<not> has_ref \<and> \<not> has_node then reject_nested_slots control ''scope'' ''scopeSlot.'' index
      else if kind = ''document'' \<and> has_ref \<and> \<not> has_node then
        bindE (ok_or (control_identifier control (''includeRef.'' @ pad3 index)) InvalidProjection) (\<lambda>encoded.
        bindE (decode_persisted_reference encoded) (\<lambda>raw.
        bindE (validate_context_include_reference kind raw) (\<lambda>_.
          reject_nested_slots control ''scope'' ''scopeSlot.'' index)))
      else if kind = ''dependency_output'' \<and> \<not> has_ref \<and> has_node then reject_nested_slots control ''scope'' ''scopeSlot.'' index
      else if kind = ''source_scope'' \<and> \<not> has_ref \<and> \<not> has_node then validate_nested_slots control ''scope'' ''scopeSlot.'' index True
      else Inl InvalidProjection)"

definition validate_path_control_shape :: "persisted_control \<Rightarrow> graph_error + unit" where
  "validate_path_control_shape control =
    (if pc_control_type control = ''node_context'' then
       bindE (declared_count control ''includeCount'') (\<lambda>count.
         let has_indexed_include =
               list_ex (\<lambda>key. indexed_any key [''includeType.'', ''includeRef.'', ''includeNode.''] \<or> double_indexed_key key ''scopeSlot.'')
                 (om_keys (pc_identifiers control))
               \<or> list_ex (\<lambda>key. nested_count_key key ''scope.'') (om_keys (pc_integers control)) in
         case count of
           None \<Rightarrow> invalid_if has_indexed_include
         | Some n \<Rightarrow>
             if \<not> (1 \<le> n \<and> n \<le> 32) then Inl InvalidProjection
             else foldE (\<lambda>index _. validate_include control index) [0..<n] ())
     else if pc_control_type control = ''node_permissions'' then
       bindE (ok_or (Option.bind (om_get (pc_integers control) ''permissionCount'') usize_try_from) InvalidProjection) (\<lambda>n.
         foldE (\<lambda>index _. validate_nested_slots control ''scope'' ''scopeSlot.'' index False) [0..<n] ())
     else if pc_control_type control = ''node_isolation'' then
       bindE (declared_count control ''writeScopeCount'') (\<lambda>count.
         let indices = key_indices (om_keys (pc_identifiers control)) ''writeScopeSlot.'' in
         case count of
           Some n \<Rightarrow> if 1 \<le> n \<and> n \<le> 64 then invalid_if (not_exactly indices n) else Inl InvalidProjection
         | None \<Rightarrow> ensure (om_len indices = 0) InvalidProjection)
     else Inl InvalidProjection)"

text \<open>A permission is represented by a capability, a duration or a counted allow list.\<close>

definition represent_permission :: "nat \<Rightarrow> string \<Rightarrow> nat oset \<Rightarrow> graph_error + nat oset" where
  "represent_permission permission_count key represented =
    foldE (\<lambda>pre represented.
        case indexed_suffix key pre of
          Some index \<Rightarrow> if index \<ge> permission_count then Inl InvalidProjection else Inr (os_insert index represented)
        | None \<Rightarrow> Inr represented)
      [''capability.'', ''duration.''] represented"

definition represent_allow_list :: "persisted_control \<Rightarrow> nat \<Rightarrow> string \<times> 64 word \<Rightarrow> nat oset \<Rightarrow> graph_error + nat oset" where
  "represent_allow_list control permission_count = (\<lambda>(key, v) represented.
    if \<not> nested_count_key key ''allow.'' then Inr represented
    else
      bindE (ok_or (Option.bind (strip_prefix ''allow.'' key) (strip_suffix ''Count'')) InvalidProjection) (\<lambda>index.
      bindE (ok_or (usize_try_from v) InvalidProjection) (\<lambda>count.
        let permission = decimal_value index in
        if permission \<ge> permission_count \<or> count > 64 then Inl InvalidProjection
        else if not_exactly (key_indices (om_keys (pc_identifiers control)) (''allow.'' @ pad3 permission @ ''.'')) count
        then Inl InvalidProjection
        else Inr (os_insert permission represented))))"

definition check_allow_entry :: "persisted_control \<Rightarrow> nat \<Rightarrow> string \<Rightarrow> graph_error + unit" where
  "check_allow_entry control permission_count key =
    (if \<not> double_indexed_key key ''allow.'' then Inr ()
     else
       bindE (ok_or (Option.bind (strip_prefix ''allow.'' key) (split_once ''.'')) InvalidProjection) (\<lambda>(v, _).
         let permission = decimal_value v in
         invalid_if (permission \<ge> permission_count \<or> \<not> has_integer control (''allow.'' @ pad3 permission @ ''Count''))))"

definition validate_permission_allowlist_counts :: "persisted_control \<Rightarrow> graph_error + unit" where
  "validate_permission_allowlist_counts control =
    bindE (ok_or (Option.bind (om_get (pc_integers control) ''permissionCount'') usize_try_from) InvalidProjection) (\<lambda>permission_count.
      if permission_count > 32 then Inl InvalidProjection
      else
        bindE (foldE (represent_permission permission_count) (om_keys (pc_identifiers control)) om_empty) (\<lambda>represented.
        bindE (foldE (represent_allow_list control permission_count) (om_entries (pc_integers control)) represented) (\<lambda>represented.
        bindE (foldE (\<lambda>key _. check_allow_entry control permission_count key) (om_keys (pc_identifiers control)) ()) (\<lambda>_.
          invalid_if (list_ex (\<lambda>index. \<not> os_member represented index) [0..<permission_count])))))"


section \<open>The shape of a control\<close>

definition keys_disallowed :: "persisted_control \<Rightarrow> bool" where
  "keys_disallowed control =
    (let control_type = pc_control_type control; contract = control_type \<in> {''input_contract'', ''output_contract''} in
     list_ex (\<lambda>key. \<not> contract \<or> key \<noteq> ''schema'') (om_keys (pc_digests control))
     \<or> list_ex (\<lambda>key. \<not> identifier_key_allowed control_type key) (om_keys (pc_identifiers control))
     \<or> list_ex (\<lambda>key. \<not> integer_key_allowed control_type key) (om_keys (pc_integers control))
     \<or> list_ex (\<lambda>key. \<not> flag_key_allowed control_type key) (om_keys (pc_flags control))
     \<or> list_ex (\<lambda>(key, v). \<not> identifier_value_allowed control_type key v) (om_entries (pc_identifiers control)))"

definition validate_presence :: "persisted_control \<Rightarrow> graph_error + unit" where
  "validate_presence control =
    (if pc_control_type control = ''edge_condition'' then
       invalid_if (om_len (pc_identifiers control) = 0 \<or> om_len (pc_integers control) \<noteq> 0 \<or> om_len (pc_flags control) \<noteq> 0)
     else if pc_control_type control = ''terminal_nodes'' then
       invalid_if (om_len (pc_identifiers control) \<noteq> 1
         \<or> \<not> is_safe_key ''terminalNode'' \<or> \<not> om_contains (pc_identifiers control) ''terminalNode''
         \<or> om_len (pc_integers control) \<noteq> 0 \<or> om_len (pc_flags control) \<noteq> 1
         \<or> (case om_values (pc_flags control) of v # _ \<Rightarrow> v | [] \<Rightarrow> True))
     else invalid_if (om_get (pc_flags control) ''present'' \<noteq> Some True))"

definition validate_contract_content :: "persisted_control \<Rightarrow> graph_error + unit" where
  "validate_contract_content control =
    (let schema_identifier = has_identifier control ''schema''; schema_digest = om_contains (pc_digests control) ''schema'' in
     if schema_identifier \<and> schema_digest then Inl InvalidProjection
     else
       let has_semantic_identifier =
             list_ex (\<lambda>key. key \<in> {''schema'', ''schemaId'', ''schemaDialect'', ''publishAs''}
                 \<or> indexed_key key ''bindingKey.'' \<or> indexed_key key ''bindingValue.'') (om_keys (pc_identifiers control));
           has_bindings = integer_positive control ''bindingCount'' in
       invalid_if (\<not> has_semantic_identifier \<and> \<not> schema_digest \<and> \<not> has_bindings))"

definition validate_control_shape :: "persisted_control \<Rightarrow> graph_error + unit" where
  "validate_control_shape control =
    (let control_type = pc_control_type control in
     if keys_disallowed control then Inl InvalidProjection
     else
       bindE (validate_presence control) (\<lambda>_.
       bindE (invalid_if (control_type \<notin> {''edge_condition'', ''terminal_nodes'', ''input_contract'', ''output_contract''}
           \<and> om_len (pc_identifiers control) = 0 \<and> om_len (pc_integers control) = 0 \<and> om_len (pc_flags control) = 1)) (\<lambda>_.
       bindE (validate_required_discriminators control) (\<lambda>_.
       bindE (validate_control_counts control) (\<lambda>_.
       bindE (validate_correlated_control_groups control) (\<lambda>_.
       bindE (validate_nested_presence_families control) (\<lambda>_.
       bindE (if control_type \<in> {''input_contract'', ''output_contract''} then validate_contract_content control else Inr ()) (\<lambda>_.
       bindE (invalid_if (control_type = ''node_loop'' \<and> \<not> integer_positive control ''maxIterations'')) (\<lambda>_.
       bindE (invalid_if (control_type = ''node_delegation'' \<and>
           (case control_identifier control ''kind'' of
              Some v \<Rightarrow> v \<notin> {''explorer'', ''implementer'', ''reviewer'', ''verifier''} | None \<Rightarrow> True))) (\<lambda>_.
       bindE (if control_type = ''node_permissions'' then validate_permission_allowlist_counts control else Inr ()) (\<lambda>_.
         if control_type \<in> {''node_context'', ''node_permissions'', ''node_isolation''} then validate_path_control_shape control
         else Inr ())))))))))))"


section \<open>The grammar of a version\<close>

record control_walk =
  cw_seen :: "string oset"
  cw_last_order :: "nat option"

definition validate_node_control :: "node_type \<Rightarrow> persisted_control \<Rightarrow> control_walk \<Rightarrow> graph_error + control_walk" where
  "validate_node_control ty control walk =
    bindE (ok_or (persisted_node_control_order (pc_control_type control)) InvalidProjection) (\<lambda>order.
      if (case cw_last_order walk of Some previous \<Rightarrow> previous \<ge> order | None \<Rightarrow> False)
        \<or> os_member (cw_seen walk) (pc_control_type control)
        \<or> \<not> control_allowed_for_node (pc_control_type control) (node_type_as_str ty)
      then Inl InvalidProjection
      else
        bindE (validate_control_shape control) (\<lambda>_.
          if pc_control_type control = ''node_configuration'' \<and> control_identifier control ''targetRef'' \<noteq> None
             \<and> node_type_as_str ty \<noteq> ''deploy''
          then Inl InvalidProjection
          else Inr \<lparr>cw_seen = os_insert (pc_control_type control) (cw_seen walk), cw_last_order = Some order\<rparr>))"

definition validate_node_controls :: "persisted_node \<Rightarrow> graph_error + unit" where
  "validate_node_controls node =
    bindE (foldE (validate_node_control (pn_node_type node)) (pn_controls node) \<lparr>cw_seen = om_empty, cw_last_order = None\<rparr>)
      (\<lambda>_. Inr ())"

definition validate_projection_grammar :: "persisted_graph_version \<Rightarrow> graph_error + unit" where
  "validate_projection_grammar version =
    (let topology = pgv_topology version in
     bindE (foldE (\<lambda>node _. validate_node_controls node) (om_values (pt_nodes topology)) ()) (\<lambda>_.
     bindE (foldE (\<lambda>edge _.
         case pe_condition edge of
           Some condition \<Rightarrow>
             if pc_control_type condition \<noteq> ''edge_condition'' then Inl InvalidProjection else validate_control_shape condition
         | None \<Rightarrow> Inr ()) (pt_edges topology) ()) (\<lambda>_.
     bindE (foldE (\<lambda>policy _.
         if pc_control_type policy \<noteq> ''policy_control'' then Inl InvalidProjection else validate_control_shape policy)
         (pt_policies topology) ()) (\<lambda>_.
       if pc_control_type (pt_completion topology) \<noteq> ''graph_completion'' then Inl InvalidProjection
       else validate_control_shape (pt_completion topology)))))"

end
