(* ===== verification/Projection_Rules.thy ===== *)
theory Projection_Rules
  imports Control_Grammar Depth
begin

text \<open>
  The complete validation of a persisted graph version (\<open>validate_persisted_projection\<close> of \<open>core/graph/src/persistence.rs\<close>): the
  grammar and references, the content scan, the two identities, the structure of the topology, and the bindings between content
  slots and the controls that name them.

  The environment has SHA-256, the parser of a decoded token header, the JSON of a topology (\<open>serde\<close>) and the bytes of a JSON
  value (\<open>serde_json::to_vec\<close>).
\<close>

record projection_env =
  pje_sha_hex :: "string \<Rightarrow> string"
  pje_parse :: "string \<Rightarrow> json option"
  pje_topology_json :: "persisted_topology \<Rightarrow> json option"
  pje_to_vec :: "json \<Rightarrow> string option"


section \<open>Identities\<close>

definition derive_content_slot_id ::
  "(string \<Rightarrow> string) \<Rightarrow> content_owner_kind \<Rightarrow> string \<Rightarrow> content_field_kind \<Rightarrow> u32 \<Rightarrow> graph_error + string" where
  "derive_content_slot_id sha_hex owner_kind owner_id field_kind ordinal =
    bindE (push_slot_position_part [] ''graphhelm-content-slot-position-v1'') (\<lambda>bytes.
    bindE (push_slot_position_part bytes (content_owner_kind_bytes owner_kind)) (\<lambda>bytes.
    bindE (push_slot_position_part bytes owner_id) (\<lambda>bytes.
    bindE (push_slot_position_part bytes (content_field_kind_bytes field_kind)) (\<lambda>bytes.
    bindE (raw_content_sha256 sha_hex (bytes @ be32 ordinal)) (\<lambda>digest.
      let slot_id = ''slot-'' @ digest in
      if is_opaque_id slot_id then Inr slot_id else Inl InvalidProjection)))))"

fun sort_value :: "json \<Rightarrow> json" where
  "sort_value (JObject fs) = JObject (om_entries (fold (\<lambda>(k, v). om_insert k v) (map (\<lambda>(k, v). (k, sort_value v)) fs) om_empty))"
| "sort_value (JArray xs) = JArray (map sort_value xs)"
| "sort_value v = v"

definition canonical_content_bytes :: "projection_env \<Rightarrow> json \<Rightarrow> graph_error + string" where
  "canonical_content_bytes env v =
    (case preflight_json_structure v of
       Inl _ \<Rightarrow> Inl InvalidProjection
     | Inr _ \<Rightarrow> ok_or (pje_to_vec env (sort_value v)) InvalidProjection)"

definition slot_position_fields :: "content_slot \<Rightarrow> (string \<times> json) list" where
  "slot_position_fields slot =
    [(''ownerKind'', JString (content_owner_kind_bytes (cs_owner_kind slot))), (''ownerId'', JString (cs_owner_id slot)),
     (''fieldKind'', JString (content_field_kind_bytes (cs_field_kind slot))),
     (''ordinal'', JNumber (PosInt (ucast (cs_ordinal slot))))]"

definition topology_identity :: "projection_env \<Rightarrow> persisted_topology \<Rightarrow> content_slot list \<Rightarrow> graph_error + json" where
  "topology_identity env topology slots =
    bindE (ok_or (pje_topology_json env topology) InvalidProjection) (\<lambda>v.
      Inr (sort_value (JObject [(''topology'', v),
        (''contentPositions'', JArray (map (\<lambda>slot. JObject (slot_position_fields slot)) slots))])))"

definition hash_value :: "projection_env \<Rightarrow> json \<Rightarrow> graph_error + string" where
  "hash_value env v =
    bindE (ok_or (pje_to_vec env v) InvalidProjection) (\<lambda>bytes.
      let hash = ''sha256:'' @ pje_sha_hex env bytes in if is_wire_hash hash then Inr hash else Inl InvalidProjection)"

record persistence_hashes =
  phs_topology_hash :: string
  phs_semantic_hash :: string

definition persisted_hashes :: "projection_env \<Rightarrow> persisted_topology \<Rightarrow> content_slot list \<Rightarrow> graph_error + persistence_hashes" where
  "persisted_hashes env topology slots =
    bindE (topology_identity env topology slots) (\<lambda>topology_value.
      let semantic_value = sort_value (JObject [(''topology'', topology_value),
            (''contentDigests'', JArray (map (\<lambda>slot.
               JObject (slot_position_fields slot @ [(''contentSha256'', JString (cs_content_sha256 slot))])) slots))]) in
      bindE (hash_value env topology_value) (\<lambda>topology_hash.
      bindE (hash_value env semantic_value) (\<lambda>semantic_hash.
        Inr \<lparr>phs_topology_hash = topology_hash, phs_semantic_hash = semantic_hash\<rparr>)))"


section \<open>Content\<close>

type_synonym scan_step = "durable_content_scanner \<Rightarrow> graph_error + durable_content_scanner"

definition scan_projected :: "(string \<Rightarrow> json option) \<Rightarrow> string \<Rightarrow> scan_step" where
  "scan_projected parse v s = (case scan_text parse v s of Inl _ \<Rightarrow> Inl InvalidProjection | Inr s \<Rightarrow> Inr s)"

definition scan_reference :: "(string \<Rightarrow> json option) \<Rightarrow> string \<Rightarrow> scan_step" where
  "scan_reference parse v s =
    (if starts_with v REFERENCE_PREFIX then bindE (decode_persisted_reference v) (\<lambda>decoded. scan_projected parse decoded s) else Inr s)"

definition scan_entry :: "(string \<Rightarrow> json option) \<Rightarrow> string \<times> string \<Rightarrow> scan_step" where
  "scan_entry parse = (\<lambda>(key, v) s.
    bindE (scan_projected parse key s) (\<lambda>s. bindE (scan_projected parse v s) (scan_reference parse v)))"

definition scan_control_content :: "(string \<Rightarrow> json option) \<Rightarrow> persisted_control \<Rightarrow> scan_step" where
  "scan_control_content parse control s =
    bindE (scan_projected parse (pc_control_type control) s) (\<lambda>s.
    bindE (foldE (scan_entry parse) (om_entries (pc_identifiers control)) s)
      (foldE (scan_projected parse)
        (om_keys (pc_digests control) @ om_keys (pc_integers control) @ om_keys (pc_flags control))))"

definition scan_node_content :: "(string \<Rightarrow> json option) \<Rightarrow> string \<times> persisted_node \<Rightarrow> scan_step" where
  "scan_node_content parse = (\<lambda>(node_id, node) s.
    bindE (scan_projected parse node_id s) (\<lambda>s.
    bindE (foldE (scan_projected parse) (pn_content_slot_ids node) s)
      (foldE (scan_control_content parse) (pn_controls node))))"

definition scan_edge_content :: "(string \<Rightarrow> json option) \<Rightarrow> persisted_edge \<Rightarrow> scan_step" where
  "scan_edge_content parse edge s =
    bindE (foldE (scan_projected parse) [pe_id edge, pe_from edge, pe_to edge] s) (\<lambda>s.
    bindE (foldE (scan_entry parse) (om_entries (pe_bindings edge)) s)
      (case pe_condition edge of Some condition \<Rightarrow> scan_control_content parse condition | None \<Rightarrow> Inr))"

definition validate_projection_content :: "(string \<Rightarrow> json option) \<Rightarrow> persisted_graph_version \<Rightarrow> graph_error + unit" where
  "validate_projection_content parse version =
    (let topology = pgv_topology version in
     bindE (foldE (scan_projected parse) [pt_graph_id topology, pt_execution_id topology, pa_id (pgv_created_by version)] scanner_default) (\<lambda>s.
     bindE (foldE (\<lambda>(key, v) s. bindE (scan_projected parse key s) (scan_projected parse v)) (om_entries (pt_labels topology)) s) (\<lambda>s.
     bindE (foldE (scan_projected parse) (pt_entrypoints topology) s) (\<lambda>s.
     bindE (foldE (scan_node_content parse) (om_entries (pt_nodes topology)) s) (\<lambda>s.
     bindE (foldE (scan_edge_content parse) (pt_edges topology) s) (\<lambda>s.
     bindE (foldE (scan_control_content parse) (pt_policies topology) s) (\<lambda>s.
     bindE (scan_control_content parse (pt_completion topology) s) (\<lambda>s.
     bindE (foldE (\<lambda>slot. foldE (scan_projected parse) [cs_slot_id slot, cs_owner_id slot, cs_evidence_id slot])
              (pgv_content_slots version) s) (\<lambda>_. Inr ())))))))))"


section \<open>Nodes and edges\<close>

definition topology_contains_node :: "persisted_topology \<Rightarrow> string \<Rightarrow> bool" where
  "topology_contains_node topology node_id = om_contains (pt_nodes topology) node_id"

text \<open>The set of edge identities is what \<open>ValidatedTopology\<close> adds to a topology.\<close>

definition validate_edge_identity_and_endpoints :: "persisted_topology \<Rightarrow> graph_error + string oset" where
  "validate_edge_identity_and_endpoints topology =
    (let edge_ids = os_of_list (map pe_id (pt_edges topology)) in
     if om_len edge_ids \<noteq> length (pt_edges topology)
        \<or> list_ex (\<lambda>edge. \<not> om_contains (pt_nodes topology) (pe_from edge) \<or> \<not> om_contains (pt_nodes topology) (pe_to edge))
             (pt_edges topology)
     then Inl InvalidProjection else Inr edge_ids)"

definition relational_key :: "string \<Rightarrow> string option" where
  "relational_key control_type =
    (if control_type = ''gate_configuration'' then Some ''failureRoute''
     else if control_type = ''deploy_configuration'' then Some ''compensationNode''
     else None)"

definition unknown_binding_node :: "persisted_topology \<Rightarrow> string \<Rightarrow> graph_error + bool" where
  "unknown_binding_node topology v =
    bindE (parse_persisted_binding_reference_node v) (\<lambda>node.
      Inr (case node of Some node_id \<Rightarrow> \<not> topology_contains_node topology node_id | None \<Rightarrow> False))"

definition unrelated_peer :: "persisted_topology \<Rightarrow> string \<Rightarrow> string \<Rightarrow> string \<times> string \<Rightarrow> bool" where
  "unrelated_peer topology node_id pre = (\<lambda>(key, v).
    indexed_suffix key pre \<noteq> None \<and> (v = node_id \<or> \<not> topology_contains_node topology v))"

definition validate_node_relations :: "persisted_topology \<Rightarrow> string \<times> persisted_node \<Rightarrow> graph_error + unit" where
  "validate_node_relations topology = (\<lambda>(node_id, node).
    bindE (invalid_if (list_ex (\<lambda>control.
        case relational_key (pc_control_type control) of
          Some key \<Rightarrow> (case control_identifier control key of Some v \<Rightarrow> \<not> topology_contains_node topology v | None \<Rightarrow> False)
        | None \<Rightarrow> False) (pn_controls node))) (\<lambda>_.
    bindE (foldE (\<lambda>control _. foldE (\<lambda>(key, v) _.
          if indexed_reference_key key ''bindingValue.''
          then bindE (unknown_binding_node topology v) invalid_if else Inr ()) (om_entries (pc_identifiers control)) ())
        (filter (\<lambda>control. pc_control_type control \<in> {''input_contract'', ''output_contract''}) (pn_controls node)) ()) (\<lambda>_.
      invalid_if (list_ex (\<lambda>control.
        if pc_control_type control \<in> {''node_model'', ''agent_model_requirements''}
        then list_ex (unrelated_peer topology node_id ''independent.'') (om_entries (pc_identifiers control))
        else if pc_control_type control = ''node_context''
        then list_ex (unrelated_peer topology node_id ''includeNode.'') (om_entries (pc_identifiers control))
        else False) (pn_controls node)))))"

definition validate_control_node_relations :: "persisted_topology \<Rightarrow> graph_error + unit" where
  "validate_control_node_relations topology =
    bindE (foldE (\<lambda>entry _. validate_node_relations topology entry) (om_entries (pt_nodes topology)) ()) (\<lambda>_.
    bindE (foldE (\<lambda>edge _. foldE (\<lambda>v _. bindE (unknown_binding_node topology v) invalid_if) (om_values (pe_bindings edge)) ())
             (pt_edges topology) ()) (\<lambda>_.
      invalid_if (list_ex (\<lambda>(key, v).
        (key = ''terminalNode'' \<or> indexed_reference_key key ''terminal.'') \<and> \<not> topology_contains_node topology v)
        (om_entries (pc_identifiers (pt_completion topology))))))"


section \<open>The topology\<close>

definition find_control :: "persisted_node \<Rightarrow> string \<Rightarrow> persisted_control option" where
  "find_control node control_type = List.find (\<lambda>control. pc_control_type control = control_type) (pn_controls node)"

definition validate_deploy_node :: "persisted_topology \<Rightarrow> persisted_node \<Rightarrow> graph_error + unit" where
  "validate_deploy_node topology node =
    (if node_type_as_str (pn_node_type node) \<noteq> ''deploy'' then Inr ()
     else if Option.bind (find_control node ''node_configuration'') (\<lambda>control. control_identifier control ''targetRef'') = None
     then Inl InvalidProjection
     else case find_control node ''deploy_configuration'' of
       None \<Rightarrow> Inr ()
     | Some effects \<Rightarrow>
         if list_ex (\<lambda>(key, v). key \<in> {''reversible'', ''compensationRequired''} \<and> v) (om_entries (pc_flags effects)) then
           bindE (ok_or (control_identifier effects ''compensationNode'') InvalidProjection) (\<lambda>compensation.
           bindE (ok_or (om_get (pt_nodes topology) compensation) InvalidProjection) (\<lambda>target.
             invalid_if (node_type_as_str (pn_node_type target) \<noteq> ''rollback'')))
         else Inr ())"

definition topology_links :: "persisted_topology \<Rightarrow> (string \<times> string) list" where
  "topology_links topology = map (\<lambda>edge. (pe_from edge, pe_to edge)) (pt_edges topology)"

definition topology_outgoing :: "persisted_topology \<Rightarrow> (string, string list) omap" where
  "topology_outgoing topology = om_map sort (adjacency (topology_links topology))"

definition topology_incoming :: "persisted_topology \<Rightarrow> (string, string list) omap" where
  "topology_incoming topology = om_map sort (adjacency (map prod.swap (topology_links topology)))"

definition persisted_components ::
  "string list \<Rightarrow> (string, string list) omap \<Rightarrow> (string, string list) omap \<Rightarrow> string list list" where
  "persisted_components nodes outgoing incoming = gather incoming (snd (start_order outgoing nodes om_empty [])) om_empty"

definition terminal_ids :: "persisted_topology \<Rightarrow> string list" where
  "terminal_ids topology =
    map snd (filter (\<lambda>(key, _). indexed_reference_key key ''terminal.'') (om_entries (pc_identifiers (pt_completion topology))))"

definition bounded_loop :: "persisted_topology \<Rightarrow> string \<Rightarrow> bool" where
  "bounded_loop topology node_id =
    (case om_get (pt_nodes topology) node_id of
       None \<Rightarrow> False
     | Some node \<Rightarrow>
         list_ex (\<lambda>control. pc_control_type control = ''node_loop'' \<and> integer_positive control ''maxIterations'') (pn_controls node))"

definition uncontrolled_component :: "persisted_topology \<Rightarrow> string list \<Rightarrow> bool" where
  "uncontrolled_component topology component =
    (let start = hd component;
         cyclic = length component > 1 \<or> start \<in> set (links (topology_outgoing topology) start) in
     cyclic \<and> \<not> list_ex (bounded_loop topology) component)"

text \<open>The depth of the graph of the components; \<open>relax\<close> and the fuel of \<open>depth_loop\<close> are never exhausted. The source counts in
  \<open>u64\<close>, which the number of nodes cannot exceed.\<close>

definition persisted_depth :: "(string \<times> string) list \<Rightarrow> string list list \<Rightarrow> graph_error + nat" where
  "persisted_depth es cs =
    (let by_node = component_by_node cs in
     if list_ex (\<lambda>(src, dst). om_get by_node src = None \<or> om_get by_node dst = None) es then Inl InvalidProjection
     else ok_or (longest_depth cs es (cs = [])) InvalidProjection)"

definition attempts_exceed :: "u64 \<Rightarrow> persisted_node \<Rightarrow> bool" where
  "attempts_exceed maximum_attempts node =
    (case Option.bind (find_control node ''node_retry'') (\<lambda>control. om_get (pc_integers control) ''maxAttempts'') of
       None \<Rightarrow> False
     | Some attempts \<Rightarrow> sint attempts < 0 \<or> sint attempts > uint maximum_attempts)"

definition validate_persisted_budgets :: "persisted_topology \<Rightarrow> string list list \<Rightarrow> graph_error + unit" where
  "validate_persisted_budgets topology cs =
    bindE (invalid_if (case gb_max_nodes (pt_budgets topology) of
        Some limit \<Rightarrow> om_len (pt_nodes topology) > unat limit | None \<Rightarrow> False)) (\<lambda>_.
    bindE (case gb_max_depth (pt_budgets topology) of
        None \<Rightarrow> Inr ()
      | Some limit \<Rightarrow> bindE (persisted_depth (topology_links topology) cs) (\<lambda>maximum. invalid_if (maximum > unat limit))) (\<lambda>_.
      case gb_max_retries_per_node (pt_budgets topology) of
        None \<Rightarrow> Inr ()
      | Some retries \<Rightarrow>
          bindE (ok_or (checked_add retries 1) InvalidProjection) (\<lambda>maximum_attempts.
            invalid_if (list_ex (attempts_exceed maximum_attempts) (om_values (pt_nodes topology))))))"

definition validate_persisted_topology :: "persisted_topology \<Rightarrow> graph_error + unit" where
  "validate_persisted_topology topology =
    (let outgoing = topology_outgoing topology; incoming = topology_incoming topology; terminals = terminal_ids topology in
     bindE (foldE (\<lambda>node _. validate_deploy_node topology node) (om_values (pt_nodes topology)) ()) (\<lambda>_.
       if terminals = [] \<or> om_len (os_of_list terminals) \<noteq> length terminals
          \<or> list_ex (\<lambda>node_id. \<not> topology_contains_node topology node_id) terminals
       then Inl InvalidProjection
       else
         let reachable = traverse_from outgoing (pt_entrypoints topology) om_empty;
             can_finish = traverse_from incoming terminals om_empty in
         if list_ex (\<lambda>node. \<not> os_member can_finish node) (om_keys reachable) then Inl InvalidProjection
         else
           let cs = persisted_components (om_keys (pt_nodes topology)) outgoing incoming in
           if list_ex (uncontrolled_component topology) cs then Inl InvalidProjection
           else validate_persisted_budgets topology cs))"


section \<open>Content slots\<close>

fun valid_slot_field :: "content_owner_kind \<Rightarrow> content_field_kind \<Rightarrow> bool" where
  "valid_slot_field OwnerGraph field = (field \<in> {DisplayName, Description})"
| "valid_slot_field OwnerNode field =
    (field \<in> {DisplayName, Description, Objective, Instructions, CompletionContract, ContextPath, PermissionPath, IsolationPath})"
| "valid_slot_field OwnerAgent field = (field \<in> {Purpose, Instructions, CompletionContract})"
| "valid_slot_field OwnerEdge field = (field = PolicyText)"
| "valid_slot_field OwnerPolicy field = (field = PolicyText)"
| "valid_slot_field OwnerDiagnostic field = False"

definition slot_at :: "content_owner_kind \<Rightarrow> string \<Rightarrow> content_field_kind \<Rightarrow> u32 \<Rightarrow> content_slot \<Rightarrow> bool" where
  "slot_at owner_kind owner_id field_kind ordinal slot =
    (cs_owner_kind slot = owner_kind \<and> cs_owner_id slot = owner_id \<and> cs_field_kind slot = field_kind \<and> cs_ordinal slot = ordinal)"

definition has_slot :: "persisted_graph_version \<Rightarrow> content_owner_kind \<Rightarrow> string \<Rightarrow> content_field_kind \<Rightarrow> u32 \<Rightarrow> bool" where
  "has_slot version owner_kind owner_id field_kind ordinal =
    list_ex (slot_at owner_kind owner_id field_kind ordinal) (pgv_content_slots version)"

definition validate_agent_image :: "persisted_graph_version \<Rightarrow> string \<Rightarrow> persisted_node \<Rightarrow> graph_error + unit" where
  "validate_agent_image version node_id node =
    bindE (ok_or (find_control node ''agent_configuration'') InvalidProjection) (\<lambda>agent.
    bindE (ok_or (control_identifier agent ''mode'') InvalidProjection) (\<lambda>mode.
      let agent_slots = filter (\<lambda>slot. cs_owner_kind slot = OwnerAgent \<and> cs_owner_id slot = node_id) (pgv_content_slots version);
          ephemeral = (mode = ''ephemeral'');
          expected_instructions = (ephemeral \<and> control_identifier agent ''directiveRef'' = None);
          exact_agent_slot = (\<lambda>field_kind expected.
            length (filter (\<lambda>slot. cs_field_kind slot = field_kind \<and> cs_ordinal slot = 0) agent_slots) = of_bool expected) in
      invalid_if (mode \<notin> {''ref'', ''ephemeral''}
        \<or> \<not> exact_agent_slot Purpose ephemeral
        \<or> \<not> exact_agent_slot CompletionContract ephemeral
        \<or> \<not> exact_agent_slot Instructions expected_instructions
        \<or> length agent_slots \<noteq> of_bool ephemeral * 2 + of_bool expected_instructions)))"

definition validate_node_image :: "persisted_graph_version \<Rightarrow> string \<times> persisted_node \<Rightarrow> graph_error + unit" where
  "validate_node_image version = (\<lambda>(node_id, node).
    if \<not> has_slot version OwnerNode node_id DisplayName 0 \<or> \<not> has_slot version OwnerNode node_id Objective 0
    then Inl InvalidProjection
    else
      bindE (if node_type_as_str (pn_node_type node) = ''agent'' then validate_agent_image version node_id node else Inr ()) (\<lambda>_.
        invalid_if (node_type_as_str (pn_node_type node) = ''gate'' \<and> find_control node ''node_completion'' = None)))"

definition validate_minimum_projection_image :: "persisted_graph_version \<Rightarrow> graph_error + unit" where
  "validate_minimum_projection_image version =
    (let topology = pgv_topology version in
     if \<not> has_slot version OwnerGraph (pt_graph_id topology) DisplayName 0 then Inl InvalidProjection
     else foldE (\<lambda>entry _. validate_node_image version entry) (om_entries (pt_nodes topology)) ())"

definition u32_try_from :: "nat \<Rightarrow> u32 option" where
  "u32_try_from n = (if n < 2 ^ 32 then Some (of_nat n) else None)"

definition usize_mul :: "nat \<Rightarrow> nat \<Rightarrow> nat option" where
  "usize_mul a b = (if a * b < 2 ^ 64 then Some (a * b) else None)"

definition nested_slot_ordinal :: "nat \<Rightarrow> nat \<Rightarrow> graph_error + u32" where
  "nested_slot_ordinal parent child =
    ok_or (Option.bind (Option.bind (usize_mul parent 64) (\<lambda>v. usize_add v child)) u32_try_from) InvalidProjection"

definition bind_exact_slot ::
  "(string, content_slot) omap \<Rightarrow> string \<Rightarrow> content_owner_kind \<Rightarrow> string \<Rightarrow> content_field_kind \<Rightarrow> u32 \<Rightarrow> string oset
   \<Rightarrow> graph_error + string oset" where
  "bind_exact_slot slots slot_id owner_kind owner_id field_kind ordinal bound =
    bindE (ok_or (om_get slots slot_id) InvalidProjection) (\<lambda>slot.
      if \<not> slot_at owner_kind owner_id field_kind ordinal slot \<or> os_member bound slot_id then Inl InvalidProjection
      else Inr (os_insert slot_id bound))"

text \<open>The content positions a control names: the field and the ordinal of each identifier that holds a slot.\<close>

definition requires_count :: "persisted_control \<Rightarrow> u32" where
  "requires_count control =
    (case om_get (pc_integers control) ''requiresCount'' of
       Some v \<Rightarrow> if 0 \<le> sint v \<and> sint v < 2 ^ 32 then of_int (sint v) else 0
     | None \<Rightarrow> 0)"

definition completion_ordinal :: "persisted_control \<Rightarrow> string \<Rightarrow> graph_error + u32 option" where
  "completion_ordinal control key =
    (case indexed_suffix key ''requiresSlot.'' of
       Some index \<Rightarrow> bindE (ok_or (u32_try_from index) InvalidProjection) (\<lambda>n. Inr (Some n))
     | None \<Rightarrow>
         (case indexed_suffix key ''forbidsSlot.'' of
            Some index \<Rightarrow>
              bindE (ok_or (u32_try_from index) InvalidProjection) (\<lambda>n.
              bindE (ok_or (checked_add (requires_count control) n) InvalidProjection) (\<lambda>ordinal. Inr (Some ordinal)))
          | None \<Rightarrow> Inr None))"

definition nested_ordinal :: "string \<Rightarrow> graph_error + u32 option" where
  "nested_ordinal key =
    (case double_indexed_suffix key ''scopeSlot.'' of
       Some (parent, child) \<Rightarrow> bindE (nested_slot_ordinal parent child) (\<lambda>ordinal. Inr (Some ordinal))
     | None \<Rightarrow> Inr None)"

definition isolation_ordinal :: "string \<Rightarrow> graph_error + u32 option" where
  "isolation_ordinal key =
    (case indexed_suffix key ''writeScopeSlot.'' of
       Some index \<Rightarrow> bindE (ok_or (u32_try_from index) InvalidProjection) (\<lambda>ordinal. Inr (Some ordinal))
     | None \<Rightarrow> Inr None)"

definition slot_ordinal :: "persisted_control \<Rightarrow> string \<Rightarrow> graph_error + (content_field_kind \<times> u32) option" where
  "slot_ordinal control key =
    (let tagged = (\<lambda>field_kind ordinal. bindE ordinal (\<lambda>n. Inr (map_option (Pair field_kind) n))) in
     if pc_control_type control = ''human_decision'' then Inr (if key = ''directiveSlot'' then Some (Instructions, 0) else None)
     else if pc_control_type control = ''node_completion'' then tagged CompletionContract (completion_ordinal control key)
     else if pc_control_type control = ''node_context'' then tagged ContextPath (nested_ordinal key)
     else if pc_control_type control = ''node_permissions'' then tagged PermissionPath (nested_ordinal key)
     else if pc_control_type control = ''node_isolation'' then tagged IsolationPath (isolation_ordinal key)
     else Inr None)"

definition bind_control_slots ::
  "(string, content_slot) omap \<Rightarrow> string \<Rightarrow> persisted_control \<Rightarrow> string oset \<Rightarrow> graph_error + string oset" where
  "bind_control_slots slots node_id control =
    foldE (\<lambda>(key, v) bound.
        bindE (slot_ordinal control key) (\<lambda>position.
          case position of
            Some (field_kind, ordinal) \<Rightarrow> bind_exact_slot slots v OwnerNode node_id field_kind ordinal bound
          | None \<Rightarrow> Inr bound))
      (om_entries (pc_identifiers control))"

definition bind_edge_slots :: "(string, content_slot) omap \<Rightarrow> persisted_edge \<Rightarrow> string oset \<Rightarrow> graph_error + string oset" where
  "bind_edge_slots slots edge bound =
    (case pe_condition edge of
       None \<Rightarrow> Inr bound
     | Some condition \<Rightarrow>
         foldE (\<lambda>(key, ordinal) bound.
             case control_identifier condition key of
               Some slot_id \<Rightarrow> bind_exact_slot slots slot_id OwnerEdge (pe_id edge) PolicyText ordinal bound
             | None \<Rightarrow> Inr bound)
           [(''slot0'', 0), (''slot1'', 1)] bound)"

definition bind_policy_slots ::
  "(string, content_slot) omap \<Rightarrow> string \<Rightarrow> nat \<times> persisted_control \<Rightarrow> string oset \<Rightarrow> graph_error + string oset" where
  "bind_policy_slots slots graph_id = (\<lambda>(policy_index, policy).
    foldE (\<lambda>(key, offset) bound.
        case control_identifier policy key of
          None \<Rightarrow> Inr bound
        | Some slot_id \<Rightarrow>
            bindE (ok_or (Option.bind (Option.bind (usize_mul policy_index 2) (\<lambda>v. usize_add v offset)) u32_try_from) InvalidProjection)
              (\<lambda>ordinal. bind_exact_slot slots slot_id OwnerPolicy graph_id PolicyText ordinal bound))
      [(''ruleTextSlot'', 0), (''explanationSlot'', 1)])"

definition must_be_bound :: "content_slot \<Rightarrow> bool" where
  "must_be_bound slot =
    (cs_owner_kind slot \<in> {OwnerEdge, OwnerPolicy}
     \<or> cs_owner_kind slot = OwnerNode
       \<and> cs_field_kind slot \<in> {Instructions, CompletionContract, ContextPath, PermissionPath, IsolationPath})"

definition validate_exact_slot_bindings :: "persisted_graph_version \<Rightarrow> graph_error + unit" where
  "validate_exact_slot_bindings version =
    (let topology = pgv_topology version;
         slots = fold (\<lambda>slot. om_insert (cs_slot_id slot) slot) (pgv_content_slots version) om_empty in
     bindE (foldE (\<lambda>(node_id, node). foldE (bind_control_slots slots node_id) (pn_controls node)) (om_entries (pt_nodes topology)) om_empty) (\<lambda>bound.
     bindE (foldE (bind_edge_slots slots) (pt_edges topology) bound) (\<lambda>bound.
     bindE (foldE (bind_policy_slots slots (pt_graph_id topology)) (List.enumerate 0 (pt_policies topology)) bound) (\<lambda>bound.
       invalid_if (list_ex (\<lambda>slot. must_be_bound slot \<and> \<not> os_member bound (cs_slot_id slot)) (pgv_content_slots version))))))"

definition validate_slot ::
  "projection_env \<Rightarrow> persisted_topology \<Rightarrow> string oset \<Rightarrow> content_slot \<Rightarrow> (string, string list) omap
   \<Rightarrow> graph_error + (string, string list) omap" where
  "validate_slot env topology edge_ids slot node_slots =
    (if \<not> valid_slot_field (cs_owner_kind slot) (cs_field_kind slot) then Inl InvalidProjection
     else
       bindE (derive_content_slot_id (pje_sha_hex env) (cs_owner_kind slot) (cs_owner_id slot) (cs_field_kind slot) (cs_ordinal slot)) (\<lambda>slot_id.
         if slot_id \<noteq> cs_slot_id slot then Inl InvalidProjection
         else
           bindE (derive_content_slot_profile (cs_owner_kind slot) (cs_owner_id slot) (cs_field_kind slot) (cs_ordinal slot)) (\<lambda>profile.
             if cs_sensitivity slot \<noteq> csp_sensitivity profile \<or> cs_required_for_execution slot \<noteq> csp_required_for_execution profile
             then Inl InvalidProjection
             else case cs_owner_kind slot of
               OwnerDiagnostic \<Rightarrow> Inl InvalidProjection
             | OwnerEdge \<Rightarrow> if \<not> os_member edge_ids (cs_owner_id slot) then Inl InvalidProjection else Inr node_slots
             | owner_kind \<Rightarrow>
                 if owner_kind \<in> {OwnerGraph, OwnerPolicy} then
                   if cs_owner_id slot \<noteq> pt_graph_id topology then Inl InvalidProjection else Inr node_slots
                 else
                   bindE (ok_or (om_get (pt_nodes topology) (cs_owner_id slot)) InvalidProjection) (\<lambda>node.
                     if owner_kind = OwnerAgent \<and> node_type_as_str (pn_node_type node) \<noteq> ''agent'' then Inl InvalidProjection
                     else
                       bindE (ok_or (om_get node_slots (cs_owner_id slot)) InvalidProjection) (\<lambda>owned.
                         Inr (om_insert (cs_owner_id slot) (owned @ [cs_slot_id slot]) node_slots))))))"


section \<open>The validation\<close>

definition validate_persisted_projection :: "projection_env \<Rightarrow> persisted_graph_version \<Rightarrow> graph_error + unit" where
  "validate_persisted_projection env version =
    (let topology = pgv_topology version in
     bindE (case pgv_predecessor version of
         None \<Rightarrow> ensure (pgv_number version = 1) InvalidProjection
       | Some predecessor \<Rightarrow> ensure (checked_add (pgr_number predecessor) 1 = Some (pgv_number version)) InvalidProjection) (\<lambda>_.
     bindE (validate_projection_grammar version) (\<lambda>_.
     bindE (validate_persisted_references version) (\<lambda>_.
     bindE (validate_projection_content (pje_parse env) version) (\<lambda>_.
     bindE (persisted_hashes env topology (pgv_content_slots version)) (\<lambda>hashes.
     bindE (invalid_if (phs_topology_hash hashes \<noteq> pgv_topology_hash version \<or> phs_semantic_hash hashes \<noteq> pgv_semantic_hash version)) (\<lambda>_.
     bindE (invalid_if (list_ex (\<lambda>entrypoint. \<not> om_contains (pt_nodes topology) entrypoint) (pt_entrypoints topology))) (\<lambda>_.
     bindE (validate_edge_identity_and_endpoints topology) (\<lambda>edge_ids.
     bindE (validate_control_node_relations topology) (\<lambda>_.
     bindE (validate_persisted_topology topology) (\<lambda>_.
     bindE (foldE (validate_slot env topology edge_ids) (pgv_content_slots version) (om_map (\<lambda>_. []) (pt_nodes topology))) (\<lambda>node_slots.
     bindE (invalid_if (list_ex (\<lambda>(node_id, node). om_get node_slots node_id \<noteq> Some (pn_content_slot_ids node)) (om_entries (pt_nodes topology)))) (\<lambda>_.
     bindE (validate_minimum_projection_image version) (\<lambda>_.
       validate_exact_slot_bindings version))))))))))))))"

end
