(* ===== verification/Projection_Soundness.thy ===== *)
theory Projection_Soundness
  imports Projection_Rules
begin

text \<open>
  What a validated projection satisfies: the structure of its topology, the order and the families of its controls, and the
  one-to-one match of content slots and the controls that name them.
\<close>

section \<open>The structure of a topology\<close>

abbreviation links_of :: "persisted_topology \<Rightarrow> (string \<times> string) set" where
  "links_of topology \<equiv> set (topology_links topology)"

abbreviation node_ids :: "persisted_topology \<Rightarrow> string list" where
  "node_ids topology \<equiv> om_keys (pt_nodes topology)"

definition deploy_sound :: "persisted_topology \<Rightarrow> persisted_node \<Rightarrow> bool" where
  "deploy_sound topology node \<longleftrightarrow> (node_type_as_str (pn_node_type node) = ''deploy'' \<longrightarrow>
    Option.bind (find_control node ''node_configuration'') (\<lambda>control. control_identifier control ''targetRef'') \<noteq> None \<and>
    (\<forall>effects. find_control node ''deploy_configuration'' = Some effects \<longrightarrow>
       om_get (pc_flags effects) ''reversible'' = Some True \<or> om_get (pc_flags effects) ''compensationRequired'' = Some True \<longrightarrow>
       (\<exists>target. Option.bind (control_identifier effects ''compensationNode'') (om_get (pt_nodes topology)) = Some target \<and>
          node_type_as_str (pn_node_type target) = ''rollback'')))"

definition budgets_sound :: "persisted_topology \<Rightarrow> bool" where
  "budgets_sound topology \<longleftrightarrow>
    (\<forall>limit. gb_max_nodes (pt_budgets topology) = Some limit \<longrightarrow> length (node_ids topology) \<le> unat limit) \<and>
    (\<forall>limit. gb_max_depth (pt_budgets topology) = Some limit \<longrightarrow>
       (\<forall>ns. set ns \<subseteq> set (node_ids topology) \<longrightarrow> chain (strictly_before (links_of topology)) ns \<longrightarrow> length ns \<le> unat limit)) \<and>
    (\<forall>retries. gb_max_retries_per_node (pt_budgets topology) = Some retries \<longrightarrow> uint retries < 2 ^ 64 - 1 \<and>
       (\<forall>node\<in>set (om_values (pt_nodes topology)). \<forall>control attempts. find_control node ''node_retry'' = Some control \<longrightarrow>
          om_get (pc_integers control) ''maxAttempts'' = Some attempts \<longrightarrow> 0 \<le> sint attempts \<and> sint attempts \<le> uint retries + 1))"

definition structurally_sound :: "persisted_topology \<Rightarrow> bool" where
  "structurally_sound topology \<longleftrightarrow>
    distinct (map pe_id (pt_edges topology)) \<and>
    links_of topology \<subseteq> set (node_ids topology) \<times> set (node_ids topology) \<and>
    (\<forall>node\<in>set (om_values (pt_nodes topology)). deploy_sound topology node) \<and>
    terminal_ids topology \<noteq> [] \<and> distinct (terminal_ids topology) \<and> set (terminal_ids topology) \<subseteq> set (node_ids topology) \<and>
    (\<forall>e\<in>set (pt_entrypoints topology). \<forall>n. (e, n) \<in> (links_of topology)\<^sup>* \<longrightarrow>
       (\<exists>t\<in>set (terminal_ids topology). (n, t) \<in> (links_of topology)\<^sup>*)) \<and>
    (\<forall>n. (n, n) \<in> (links_of topology)\<^sup>+ \<longrightarrow> (\<exists>m\<in>scc (links_of topology) n. bounded_loop topology m)) \<and>
    budgets_sound topology"

lemma bindE_unit: "bindE r (\<lambda>_. s) = Inr () \<longleftrightarrow> r = Inr () \<and> s = Inr ()"
  for r :: "'e + unit" and s :: "'e + unit"
  by (cases r) auto

lemma foldE_unit: "foldE (\<lambda>x _. f x) xs () = Inr () \<longleftrightarrow> list_all (\<lambda>x. f x = Inr ()) xs"
  by (induction xs) auto

lemma edges_accepted:
  "(\<exists>ids. validate_edge_identity_and_endpoints topology = Inr ids) \<longleftrightarrow>
    distinct (map pe_id (pt_edges topology)) \<and> links_of topology \<subseteq> set (node_ids topology) \<times> set (node_ids topology)"
proof -
  have "list_ex (\<lambda>edge. \<not> om_contains (pt_nodes topology) (pe_from edge) \<or> \<not> om_contains (pt_nodes topology) (pe_to edge)) (pt_edges topology) \<longleftrightarrow>
      \<not> links_of topology \<subseteq> set (node_ids topology) \<times> set (node_ids topology)"
    unfolding list_ex_iff topology_links_def by auto
  moreover have "om_len (os_of_list (map pe_id (pt_edges topology))) = length (pt_edges topology) \<longleftrightarrow> distinct (map pe_id (pt_edges topology))"
    using os_of_list_len_distinct [of "map pe_id (pt_edges topology)"] by simp
  ultimately show ?thesis by (simp add: validate_edge_identity_and_endpoints_def del: set_om_keys)
qed

lemma flag_entry: "list_ex (\<lambda>(key, v). key \<in> {a, b} \<and> v) (om_entries m) \<longleftrightarrow> om_get m a = Some True \<or> om_get m b = Some True"
  unfolding list_ex_iff Bex_def case_prod_beta split_paired_Ex fst_conv snd_conv om_in_entries by (auto intro: exI [of _ True])

lemma deploy_accepted: "validate_deploy_node topology node = Inr () \<longleftrightarrow> deploy_sound topology node"
proof (cases "find_control node ''deploy_configuration''")
  case None
  then show ?thesis by (simp add: validate_deploy_node_def deploy_sound_def)
next
  case (Some effects)
  then show ?thesis unfolding validate_deploy_node_def deploy_sound_def Some option.case flag_entry
    by (cases "control_identifier effects ''compensationNode''") auto
qed

lemma links_sorted: "links (om_map sort m) n = sort (links m n)"
  by (simp add: links_def split: option.splits)

lemma edges_of_topology:
  "edge_of (topology_outgoing topology) = links_of topology" "edge_of (topology_incoming topology) = (links_of topology)\<inverse>"
proof -
  have out: "set (links (topology_outgoing topology) a) = {b. (a, b) \<in> links_of topology}"
    and inc: "set (links (topology_incoming topology) a) = {b. (a, b) \<in> set (map prod.swap (topology_links topology))}" for a
    unfolding topology_outgoing_def topology_incoming_def links_sorted set_sort set_links_adjacency by (rule refl)+
  have "set (map prod.swap (topology_links topology)) = (links_of topology)\<inverse>" by auto
  then show "edge_of (topology_incoming topology) = (links_of topology)\<inverse>" unfolding inc by (simp only: mem_Collect_eq) auto
  show "edge_of (topology_outgoing topology) = links_of topology" unfolding out by simp
qed

lemma traverse_exact: "edge_of m = r \<Longrightarrow> os_set (traverse_from m starts om_empty) = r\<^sup>* `` set starts"
  using traverse_from_exact [of om_empty m starts] by simp

lemma terminal_paths_accepted:
  "\<not> list_ex (\<lambda>node. \<not> os_member (traverse_from (topology_incoming topology) terminals om_empty) node)
      (om_keys (traverse_from (topology_outgoing topology) starts om_empty)) \<longleftrightarrow>
    (\<forall>e\<in>set starts. \<forall>n. (e, n) \<in> (links_of topology)\<^sup>* \<longrightarrow> (\<exists>t\<in>set terminals. (n, t) \<in> (links_of topology)\<^sup>*))"
proof -
  have f: "os_member (traverse_from (topology_incoming topology) terminals om_empty) n \<longleftrightarrow> (\<exists>t\<in>set terminals. (n, t) \<in> (links_of topology)\<^sup>*)" for n
    unfolding os_set_simps(3) [symmetric] traverse_exact [OF edges_of_topology(2)] by (auto simp: rtrancl_converse)
  have r: "n \<in> set (om_keys (traverse_from (topology_outgoing topology) starts om_empty)) \<longleftrightarrow> (\<exists>e\<in>set starts. (e, n) \<in> (links_of topology)\<^sup>*)" for n
    unfolding set_os_list mem_Collect_eq os_set_simps(3) [symmetric] traverse_exact [OF edges_of_topology(1)] by auto
  have "\<not> list_ex P xs \<longleftrightarrow> (\<forall>n. n \<in> set xs \<longrightarrow> \<not> P n)" for P and xs :: "string list" by (auto simp: list_ex_iff)
  then show ?thesis by (simp only: r f not_not) blast
qed

lemma components_accepted:
  assumes r: "links_of topology \<subseteq> set (node_ids topology) \<times> set (node_ids topology)"
  defines "cs \<equiv> persisted_components (node_ids topology) (topology_outgoing topology) (topology_incoming topology)"
  shows "distinct cs" "set cs = component_list (links_of topology) ` set (node_ids topology)"
    "\<not> list_ex (uncontrolled_component topology) cs \<longleftrightarrow>
      (\<forall>n. (n, n) \<in> (links_of topology)\<^sup>+ \<longrightarrow> (\<exists>m\<in>scc (links_of topology) n. bounded_loop topology m))"
proof -
  let ?r = "links_of topology" and ?N = "set (node_ids topology)"
  show "distinct cs" and image: "set cs = component_list ?r ` ?N"
    unfolding cs_def persisted_components_def by (rule two_passes_exact [OF edges_of_topology r])+
  have report: "uncontrolled_component topology (component_list ?r n) \<longleftrightarrow> (n, n) \<in> ?r\<^sup>+ \<and> \<not> (\<exists>m\<in>scc ?r n. bounded_loop topology m)"
    if "n \<in> ?N" for n
  proof -
    have fin: "finite (scc ?r n)" using scc_within [OF r that] finite_subset by blast
    let ?k = "Min (scc ?r n)"
    have k: "?k \<in> scc ?r n" using least_of_component [OF fin] by blast
    have "scc ?r ?k = scc ?r n" by (rule scc_eq [OF k])
    then have cyc: "(n, n) \<in> ?r\<^sup>+ \<longleftrightarrow> 1 < card (scc ?r n) \<or> (?k, ?k) \<in> ?r"
      using cyclic_component [of ?r ?k] fin trancl_scc [OF k] trancl_scc [OF scc_sym [OF k]] by metis
    have "?k \<in> set (links (topology_outgoing topology) ?k) \<longleftrightarrow> (?k, ?k) \<in> ?r"
      using edges_of_topology(1) [of topology] by blast
    then show ?thesis using fin
      by (simp add: uncontrolled_component_def Let_def hd_component [OF fin] cyc list_ex_iff)
  qed
  have node: "n \<in> ?N" if "(n, n) \<in> ?r\<^sup>+" for n using tranclD [OF that] r by blast
  have "list_ex (uncontrolled_component topology) cs \<longleftrightarrow> (\<exists>n\<in>?N. uncontrolled_component topology (component_list ?r n))"
    unfolding list_ex_iff image by blast
  then show "\<not> list_ex (uncontrolled_component topology) cs \<longleftrightarrow>
      (\<forall>n. (n, n) \<in> ?r\<^sup>+ \<longrightarrow> (\<exists>m\<in>scc ?r n. bounded_loop topology m))"
    using report node by (metis (no_types, lifting))
qed

lemma component_reps:
  assumes r: "r \<subseteq> set nodes \<times> set nodes" and cs: "distinct cs" "set cs = component_list r ` set nodes"
  obtains reps where "distinct reps" "set reps = {n \<in> set nodes. n = Min (scc r n)}" "cs = map (component_list r) reps"
proof
  have fin: "finite (scc r n)" if "n \<in> set nodes" for n using scc_within [OF r that] finite_subset by blast
  have hd: "hd (component_list r n) = Min (scc r n)" "component_list r (hd (component_list r n)) = component_list r n"
    "hd (component_list r n) \<in> scc r n" if "n \<in> set nodes" for n
    using hd_component [OF fin [OF that]] least_of_component [OF fin [OF that]] by simp_all
  have hd_list: "component_list r (hd c) = c" if "c \<in> set cs" for c using that hd(2) unfolding cs(2) by auto
  show "cs = map (component_list r) (map hd cs)" using hd_list by (simp add: map_idI)
  have "inj_on hd (set cs)" by (rule inj_on_inverseI) (rule hd_list)
  then show "distinct (map hd cs)" using cs(1) by (simp add: distinct_map)
  have "hd ` component_list r ` set nodes = {n \<in> set nodes. n = Min (scc r n)}"
  proof (intro set_eqI iffI)
    fix k assume "k \<in> hd ` component_list r ` set nodes"
    then obtain n where n: "n \<in> set nodes" "k = hd (component_list r n)" by auto
    have k: "k \<in> scc r n" "k = Min (scc r n)" using hd [OF n(1)] n(2) by simp_all
    have "k \<in> set nodes" using scc_within [OF r n(1)] k(1) by blast
    moreover have "scc r k = scc r n" by (rule scc_eq [OF k(1)])
    ultimately show "k \<in> {n \<in> set nodes. n = Min (scc r n)}" using k(2) by simp
  next
    fix k assume "k \<in> {n \<in> set nodes. n = Min (scc r n)}"
    then show "k \<in> hd ` component_list r ` set nodes" using hd(1) [of k] by force
  qed
  then show "set (map hd cs) = {n \<in> set nodes. n = Min (scc r n)}" by (simp only: set_map cs(2))
qed

lemma depth_accepted:
  assumes r: "set es \<subseteq> set nodes \<times> set nodes" and cs: "distinct cs" "set cs = component_list (set es) ` set nodes"
  obtains d where "persisted_depth es cs = Inr d"
    "\<And>limit. d \<le> limit \<longleftrightarrow> (\<forall>ns. set ns \<subseteq> set nodes \<longrightarrow> chain (strictly_before (set es)) ns \<longrightarrow> length ns \<le> limit)"
proof -
  obtain reps where reps: "distinct reps" "set reps = {n \<in> set nodes. n = Min (scc (set es) n)}" "cs = map (component_list (set es)) reps"
    by (rule component_reps [OF r cs])
  have c: "condensation (set es) nodes reps es" using r reps by unfold_locales auto
  have known: "om_get (component_by_node cs) v \<noteq> None" if v: "v \<in> set nodes" for v
  proof -
    obtain i where "i < length reps" "v \<in> scc (set es) (reps ! i)" by (rule condensation.rep_of [OF c v])
    then show ?thesis using condensation.by_node [OF c, of v i] unfolding reps(3) by simp
  qed
  have nil: "cs = [] \<longleftrightarrow> nodes = []" using cs(2) by auto
  have ends: "\<not> list_ex (\<lambda>(src, dst). om_get (component_by_node cs) src = None \<or> om_get (component_by_node cs) dst = None) es"
    using known r by (fastforce simp: list_ex_iff)
  show thesis
  proof (rule condensation.longest_depth_exact [OF c])
    fix d assume d: "longest_depth (map (component_list (set es)) reps) es (nodes = []) = Some d"
      "\<And>ns. set ns \<subseteq> set nodes \<Longrightarrow> chain (strictly_before (set es)) ns \<Longrightarrow> length ns \<le> d"
      "\<exists>ns. set ns \<subseteq> set nodes \<and> chain (strictly_before (set es)) ns \<and> length ns = d"
    have "longest_depth cs es (cs = []) = Some d" unfolding nil using d(1) by (simp only: reps(3))
    then have "persisted_depth es cs = Inr d" using ends by (simp add: persisted_depth_def)
    moreover have "d \<le> limit \<longleftrightarrow> (\<forall>ns. set ns \<subseteq> set nodes \<longrightarrow> chain (strictly_before (set es)) ns \<longrightarrow> length ns \<le> limit)" for limit
      using d(2,3) by (meson le_trans)
    ultimately show thesis by (rule that)
  qed
qed

lemma retries_accepted:
  "(case retries of None \<Rightarrow> Inr () | Some retries \<Rightarrow>
      bindE (ok_or (checked_add retries 1) InvalidProjection) (\<lambda>maximum_attempts. invalid_if (list_ex (attempts_exceed maximum_attempts) nodes))) = Inr () \<longleftrightarrow>
   (\<forall>n. retries = Some n \<longrightarrow> uint n < 2 ^ 64 - 1 \<and>
      (\<forall>node\<in>set nodes. \<forall>control attempts. find_control node ''node_retry'' = Some control \<longrightarrow>
         om_get (pc_integers control) ''maxAttempts'' = Some attempts \<longrightarrow> 0 \<le> sint attempts \<and> sint attempts \<le> uint n + 1))"
proof (cases retries)
  case (Some n)
  show ?thesis
  proof (cases "checked_add n 1")
    case None
    then have "18446744073709551615 \<le> unat n" by (simp add: checked_add_None_iff)
    then have "\<not> uint n < 18446744073709551615" using uint_nat [of n] by linarith
    then have "\<not> uint n < 2 ^ 64 - 1" by simp
    then show ?thesis using Some None by simp
  next
    case (Some m)
    then have "unat m = unat n + 1" using checked_add_Some by fastforce
    then have m: "uint m = uint n + 1" using uint_nat [of m] uint_nat [of n] by linarith
    moreover have "uint m < 2 ^ 64" using uint_lt2p [of m] by simp
    ultimately have "uint n < 2 ^ 64 - 1" by simp
    moreover have "attempts_exceed m node \<longleftrightarrow> \<not> (\<forall>control attempts. find_control node ''node_retry'' = Some control \<longrightarrow>
         om_get (pc_integers control) ''maxAttempts'' = Some attempts \<longrightarrow> 0 \<le> sint attempts \<and> sint attempts \<le> uint n + 1)" for node
      by (cases "find_control node ''node_retry''") (auto simp: attempts_exceed_def m split: option.splits)
    ultimately show ?thesis using \<open>retries = Some n\<close> Some by (simp add: list_ex_iff)
  qed
qed simp

lemma budgets_accepted:
  assumes r: "links_of topology \<subseteq> set (node_ids topology) \<times> set (node_ids topology)"
  defines "cs \<equiv> persisted_components (node_ids topology) (topology_outgoing topology) (topology_incoming topology)"
  shows "validate_persisted_budgets topology cs = Inr () \<longleftrightarrow> budgets_sound topology"
proof -
  have cs: "distinct cs" "set cs = component_list (links_of topology) ` set (node_ids topology)"
    unfolding cs_def by (rule components_accepted [OF r])+
  obtain d where d: "persisted_depth (topology_links topology) cs = Inr d"
    "\<And>limit. d \<le> limit \<longleftrightarrow> (\<forall>ns. set ns \<subseteq> set (node_ids topology) \<longrightarrow> chain (strictly_before (links_of topology)) ns \<longrightarrow> length ns \<le> limit)"
    by (rule depth_accepted [OF r cs]) blast
  have len: "om_len (pt_nodes topology) = length (node_ids topology)" by (simp add: om_len_def om_keys_def)
  have nodes: "invalid_if (case gb_max_nodes (pt_budgets topology) of Some limit \<Rightarrow> om_len (pt_nodes topology) > unat limit | None \<Rightarrow> False) = Inr () \<longleftrightarrow>
      (\<forall>limit. gb_max_nodes (pt_budgets topology) = Some limit \<longrightarrow> length (node_ids topology) \<le> unat limit)"
    unfolding len by (cases "gb_max_nodes (pt_budgets topology)") (simp_all add: not_less)
  have depth: "(case gb_max_depth (pt_budgets topology) of
        None \<Rightarrow> Inr ()
      | Some limit \<Rightarrow> bindE (persisted_depth (topology_links topology) cs) (\<lambda>maximum. invalid_if (maximum > unat limit))) = Inr () \<longleftrightarrow>
      (\<forall>limit. gb_max_depth (pt_budgets topology) = Some limit \<longrightarrow>
       (\<forall>ns. set ns \<subseteq> set (node_ids topology) \<longrightarrow> chain (strictly_before (links_of topology)) ns \<longrightarrow> length ns \<le> unat limit))"
    unfolding d(1) d(2) [symmetric] by (cases "gb_max_depth (pt_budgets topology)") (simp_all add: not_less)
  show ?thesis
    unfolding validate_persisted_budgets_def bindE_unit budgets_sound_def
    using nodes depth retries_accepted [where retries = "gb_max_retries_per_node (pt_budgets topology)" and nodes = "om_values (pt_nodes topology)"]
    by (simp only:)
qed

lemma topology_accepted:
  "(\<exists>ids. validate_edge_identity_and_endpoints topology = Inr ids) \<and> validate_persisted_topology topology = Inr () \<longleftrightarrow>
    structurally_sound topology"
proof (cases "links_of topology \<subseteq> set (node_ids topology) \<times> set (node_ids topology)")
  case False
  then show ?thesis unfolding edges_accepted structurally_sound_def by blast
next
  case True
  have terms: "\<not> (terminal_ids topology = [] \<or> om_len (os_of_list (terminal_ids topology)) \<noteq> length (terminal_ids topology) \<or>
         list_ex (\<lambda>node_id. \<not> topology_contains_node topology node_id) (terminal_ids topology)) \<longleftrightarrow>
      terminal_ids topology \<noteq> [] \<and> distinct (terminal_ids topology) \<and> set (terminal_ids topology) \<subseteq> set (node_ids topology)"
    unfolding os_of_list_len_distinct topology_contains_node_def list_ex_iff by auto
  have nodes: "list_all (\<lambda>node. validate_deploy_node topology node = Inr ()) (om_values (pt_nodes topology)) \<longleftrightarrow>
      (\<forall>node\<in>set (om_values (pt_nodes topology)). deploy_sound topology node)"
    unfolding deploy_accepted list_all_iff ..
  have "validate_persisted_topology topology = Inr () \<longleftrightarrow>
      list_all (\<lambda>node. validate_deploy_node topology node = Inr ()) (om_values (pt_nodes topology)) \<and>
      \<not> (terminal_ids topology = [] \<or> om_len (os_of_list (terminal_ids topology)) \<noteq> length (terminal_ids topology) \<or>
         list_ex (\<lambda>node_id. \<not> topology_contains_node topology node_id) (terminal_ids topology)) \<and>
      \<not> list_ex (\<lambda>node. \<not> os_member (traverse_from (topology_incoming topology) (terminal_ids topology) om_empty) node)
          (om_keys (traverse_from (topology_outgoing topology) (pt_entrypoints topology) om_empty)) \<and>
      \<not> list_ex (uncontrolled_component topology)
          (persisted_components (node_ids topology) (topology_outgoing topology) (topology_incoming topology)) \<and>
      validate_persisted_budgets topology
        (persisted_components (node_ids topology) (topology_outgoing topology) (topology_incoming topology)) = Inr ()"
    unfolding validate_persisted_topology_def Let_def by (auto simp: foldE_unit)
  also have "\<dots> \<longleftrightarrow>
      (\<forall>node\<in>set (om_values (pt_nodes topology)). deploy_sound topology node) \<and>
      (terminal_ids topology \<noteq> [] \<and> distinct (terminal_ids topology) \<and> set (terminal_ids topology) \<subseteq> set (node_ids topology)) \<and>
      (\<forall>e\<in>set (pt_entrypoints topology). \<forall>n. (e, n) \<in> (links_of topology)\<^sup>* \<longrightarrow>
       (\<exists>t\<in>set (terminal_ids topology). (n, t) \<in> (links_of topology)\<^sup>*)) \<and>
      (\<forall>n. (n, n) \<in> (links_of topology)\<^sup>+ \<longrightarrow> (\<exists>m\<in>scc (links_of topology) n. bounded_loop topology m)) \<and> budgets_sound topology"
    unfolding terminal_paths_accepted components_accepted(3) [OF True] budgets_accepted [OF True] terms nodes ..
  finally show ?thesis unfolding edges_accepted structurally_sound_def using True by blast
qed

text \<open>C16: The structural validation accepts exactly the sound topologies: edge identities do not repeat and every edge joins known
  nodes; a deployment names its target and, when it is reversible or must be compensated, a rollback node; the completion
  names at least one terminal, without repetition and all known; whatever an entrypoint reaches can reach a terminal;
  every cycle passes through a component with a bounded loop; and the node, depth and retry budgets hold, the depth being the
  longest chain of nodes that cannot be walked back. The order of the edges does not matter.
\<close>
theorem topology_accepts_exact:
  "(\<exists>ids. validate_edge_identity_and_endpoints topology = Inr ids) \<and> validate_persisted_topology topology = Inr () \<longleftrightarrow>
    structurally_sound topology"
  by (rule topology_accepted)

end
