(* ===== verification/Control_Soundness.thy ===== *)
theory Control_Soundness
  imports Control_Grammar
begin

text \<open>
  What the control grammar admits: the controls of a node in their one canonical order and of the types its node type allows, and
  counted families that are exactly the indices below their count.
\<close>

section \<open>Canonical order\<close>

abbreviation control_order :: "persisted_control \<Rightarrow> nat option" where
  "control_order control \<equiv> persisted_node_control_order (pc_control_type control)"

definition control_fits :: "node_type \<Rightarrow> persisted_control \<Rightarrow> bool" where
  "control_fits ty control \<longleftrightarrow>
    control_allowed_for_node (pc_control_type control) (node_type_as_str ty) \<and> validate_control_shape control = Inr () \<and>
    (pc_control_type control = ''node_configuration'' \<longrightarrow> control_identifier control ''targetRef'' \<noteq> None \<longrightarrow> node_type_as_str ty = ''deploy'')"

definition walk_of :: "persisted_control list \<Rightarrow> control_walk" where
  "walk_of before = \<lparr>cw_seen = os_of_list (map pc_control_type before),
     cw_last_order = (if before = [] then None else control_order (last before))\<rparr>"

lemma walk_of_snoc:
  "control_order c = Some order \<Longrightarrow> walk_of (before @ [c]) = \<lparr>cw_seen = os_insert (pc_control_type c) (cw_seen (walk_of before)), cw_last_order = Some order\<rparr>"
  by (simp add: walk_of_def os_of_list_snoc)

abbreviation ordered_controls :: "persisted_control list \<Rightarrow> nat list \<Rightarrow> bool" where
  "ordered_controls controls orders \<equiv> map control_order controls = map Some orders \<and> sorted_wrt (<) orders"

text \<open>The set of types already seen refuses nothing that the order has not refused.\<close>

lemma order_fresh:
  assumes "ordered_controls before orders" "control_order c = Some n" "before = [] \<or> last orders < n"
  shows "pc_control_type c \<notin> pc_control_type ` set before"
proof
  assume "pc_control_type c \<in> pc_control_type ` set before"
  then obtain d where d: "d \<in> set before" "control_order d = Some n" using assms(2) by auto
  then have "Some n \<in> set (map control_order before)" by (metis (no_types) image_eqI image_set)
  then have n: "n \<in> set orders" unfolding conjunct1 [OF assms(1)] by (simp add: image_iff)
  then obtain ys zs where "orders = ys @ n # zs" by (meson split_list)
  then have "n \<le> last orders" using conjunct2 [OF assms(1)] by (cases zs rule: rev_cases) (auto simp: sorted_wrt_append)
  moreover have "before \<noteq> []" using d(1) by auto
  ultimately show False using assms(3) by simp
qed

lemma node_control_step:
  assumes "ordered_controls before orders"
  shows "validate_node_control ty c (walk_of before) = Inr walk \<longleftrightarrow>
    (\<exists>n. control_order c = Some n \<and> (before = [] \<or> last orders < n) \<and> walk = walk_of (before @ [c])) \<and> control_fits ty c"
proof (cases "control_order c")
  case None
  then show ?thesis by (simp add: validate_node_control_def)
next
  case (Some n)
  have last: "control_order (last before) = Some (last orders)" if "before \<noteq> []"
  proof -
    have "last (map control_order before) = last (map Some orders)" by (simp only: conjunct1 [OF assms])
    moreover have "orders \<noteq> []" using conjunct1 [OF assms] that by auto
    ultimately show ?thesis using that by (simp add: last_map)
  qed
  have prev: "(case cw_last_order (walk_of before) of Some previous \<Rightarrow> previous \<ge> n | None \<Rightarrow> False) \<longleftrightarrow> \<not> (before = [] \<or> last orders < n)"
    using last by (simp add: walk_of_def not_less)
  have seen: "os_member (cw_seen (walk_of before)) (pc_control_type c) \<longleftrightarrow> pc_control_type c \<in> pc_control_type ` set before"
    by (simp add: walk_of_def)
  show ?thesis
    using order_fresh [OF assms Some] walk_of_snoc [OF Some, of before]
    by (auto simp: validate_node_control_def Some prev seen control_fits_def)
qed

lemma sorted_snoc: "sorted_wrt (<) (xs @ [n]) \<longleftrightarrow> sorted_wrt (<) xs \<and> (xs = [] \<or> last xs < n)" for n :: nat
proof (cases xs rule: rev_cases)
  case (snoc ys y)
  then show ?thesis by (auto simp: sorted_wrt_append)
qed simp

lemma ordered_snoc:
  "(\<exists>orders n. ordered_controls controls orders \<and> control_order c = Some n \<and> (controls = [] \<or> last orders < n)) \<longleftrightarrow>
    (\<exists>orders. ordered_controls (controls @ [c]) orders)"
proof
  assume "\<exists>orders n. ordered_controls controls orders \<and> control_order c = Some n \<and> (controls = [] \<or> last orders < n)"
  then obtain orders n where h: "ordered_controls controls orders" "control_order c = Some n" "controls = [] \<or> last orders < n" by blast
  then have "orders = [] \<or> last orders < n" by auto
  then have "ordered_controls (controls @ [c]) (orders @ [n])" using h by (simp add: sorted_snoc)
  then show "\<exists>orders. ordered_controls (controls @ [c]) orders" ..
next
  assume "\<exists>orders. ordered_controls (controls @ [c]) orders"
  then obtain orders where h: "ordered_controls (controls @ [c]) orders" ..
  then have "orders \<noteq> []" by auto
  then obtain os n where o: "orders = os @ [n]" by (meson rev_exhaust)
  then have "ordered_controls controls os" "control_order c = Some n" "os = [] \<or> last os < n" using h by (simp_all add: sorted_snoc)
  moreover have "controls = [] \<longleftrightarrow> os = []" using h o by (metis Nil_is_map_conv butlast_snoc map_butlast)
  ultimately show "\<exists>orders n. ordered_controls controls orders \<and> control_order c = Some n \<and> (controls = [] \<or> last orders < n)" by blast
qed

lemma node_controls_walk:
  "foldE (validate_node_control ty) controls (walk_of []) = Inr walk \<longleftrightarrow>
    (\<exists>orders. ordered_controls controls orders) \<and> list_all (control_fits ty) controls \<and> walk = walk_of controls"
proof (induction controls arbitrary: walk rule: rev_induct)
  case (snoc c controls)
  have "foldE (validate_node_control ty) (controls @ [c]) (walk_of []) = Inr walk \<longleftrightarrow>
      (\<exists>orders. ordered_controls controls orders) \<and> list_all (control_fits ty) controls \<and>
      validate_node_control ty c (walk_of controls) = Inr walk"
    by (auto simp: foldE_snoc_Inr snoc.IH)
  also have "\<dots> \<longleftrightarrow> (\<exists>orders n. ordered_controls controls orders \<and> control_order c = Some n \<and> (controls = [] \<or> last orders < n)) \<and>
      list_all (control_fits ty) (controls @ [c]) \<and> walk = walk_of (controls @ [c])"
    using node_control_step [of controls _ ty c walk] by auto
  also have "(\<exists>orders n. ordered_controls controls orders \<and> control_order c = Some n \<and> (controls = [] \<or> last orders < n)) \<longleftrightarrow>
      (\<exists>orders. ordered_controls (controls @ [c]) orders)"
    by (rule ordered_snoc)
  finally show ?case .
qed (auto simp: walk_of_def)


section \<open>Counted families\<close>

definition family_indices :: "persisted_control \<Rightarrow> string list \<Rightarrow> nat set" where
  "family_indices control prefixes = {i. \<exists>key\<in>set (control_keys control). \<exists>pre\<in>set prefixes. indexed_suffix key pre = Some i}"

definition family_counted :: "persisted_control \<Rightarrow> string \<times> string list \<Rightarrow> bool" where
  "family_counted control = (\<lambda>(count_key, prefixes).
    family_indices control prefixes =
      (case om_get (pc_integers control) count_key of None \<Rightarrow> {} | Some n \<Rightarrow> {..<nat (sint n)}) \<and>
    (case om_get (pc_integers control) count_key of None \<Rightarrow> True | Some n \<Rightarrow> 0 \<le> sint n \<and> sint n \<le> 64))"

lemma group_member: "os_member (group_indices control prefixes) i \<longleftrightarrow> i \<in> family_indices control prefixes"
  by (simp add: group_indices_def family_indices_def set_map_filter)

lemma below_iff: "\<not> ((\<exists>x\<in>{i. i \<in> F}. m \<le> x) \<or> (\<exists>i\<in>{0..<m}. i \<notin> F)) \<longleftrightarrow> F = {..<m}" for F :: "nat set"
proof -
  have "\<not> ((\<exists>x\<in>{i. i \<in> F}. m \<le> x) \<or> (\<exists>i\<in>{0..<m}. i \<notin> F)) \<longleftrightarrow> F \<subseteq> {..<m} \<and> {..<m} \<subseteq> F" by (auto simp: subset_iff not_le)
  then show ?thesis by (simp only: set_eq_subset)
qed

lemma count_group_exact: "validate_count_group control counted = Inr () \<longleftrightarrow> family_counted control counted"
proof (cases counted)
  case (Pair count_key prefixes)
  have mem: "os_member (group_indices control prefixes) i \<longleftrightarrow> i \<in> family_indices control prefixes" for i by (rule group_member)
  have nil: "om_len (group_indices control prefixes) = 0 \<longleftrightarrow> family_indices control prefixes = {}"
  proof -
    have "om_len (group_indices control prefixes) = 0 \<longleftrightarrow> set (om_keys (group_indices control prefixes)) = {}"
      by (simp add: om_len_def om_keys_def)
    then show ?thesis by (simp only: set_os_list mem) simp
  qed
  show ?thesis
  proof (cases "om_get (pc_integers control) count_key")
    case None
    then show ?thesis by (simp add: Pair validate_count_group_def family_counted_def nil)
  next
    case (Some n)
    let ?g = "group_indices control prefixes" and ?F = "family_indices control prefixes"
    have exact: "\<not> (list_ex (\<lambda>index. index \<ge> m) (om_keys ?g) \<or> list_ex (\<lambda>index. \<not> os_member ?g index) [0..<m]) \<longleftrightarrow> ?F = {..<m}" for m
      unfolding list_ex_iff set_os_list mem set_upt by (rule below_iff)
    have "validate_count_group control counted = Inr () \<longleftrightarrow> 0 \<le> sint n \<and> sint n \<le> 64 \<and>
        \<not> (list_ex (\<lambda>index. index \<ge> nat (sint n)) (om_keys ?g) \<or> list_ex (\<lambda>index. \<not> os_member ?g index) [0..<nat (sint n)])"
      unfolding Pair validate_count_group_def prod.case Let_def Some option.case usize_try_from_def
      by (cases "0 \<le> sint n \<and> sint n \<le> 64") (simp_all del: set_om_keys, blast)
    then show ?thesis unfolding exact Pair family_counted_def prod.case Some option.case by blast
  qed
qed

lemma node_controls_accepted:
  "validate_node_controls node = Inr () \<longleftrightarrow>
    (\<exists>orders. ordered_controls (pn_controls node) orders) \<and> list_all (control_fits (pn_node_type node)) (pn_controls node)"
proof -
  have "walk_of [] = \<lparr>cw_seen = om_empty, cw_last_order = None\<rparr>" by (simp add: walk_of_def os_of_list_def)
  then show ?thesis
    using node_controls_walk [of "pn_node_type node" "pn_controls node"] by (auto simp: validate_node_controls_def)
qed

text \<open>C17: The controls of a node are well typed. They are accepted if and only if each is registered, they stand in the strictly
  increasing canonical order (so no type repeats), each is of a type the node's type allows and has an admissible shape, and only a
  deployment carries a target; and the counts of a control are accepted if and only if every counted family of its type
  is exactly the indices below its declared count, at most 64, and empty when no count is declared.
\<close>
theorem controls_well_typed:
  "(validate_node_controls node = Inr () \<longleftrightarrow>
      (\<exists>orders. map control_order (pn_controls node) = map Some orders \<and> sorted_wrt (<) orders) \<and>
      list_all (control_fits (pn_node_type node)) (pn_controls node)) \<and>
   (validate_control_counts control = Inr () \<longleftrightarrow> list_all (family_counted control) (count_groups (pc_control_type control)))"
proof
  show "validate_node_controls node = Inr () \<longleftrightarrow>
      (\<exists>orders. map control_order (pn_controls node) = map Some orders \<and> sorted_wrt (<) orders) \<and>
      list_all (control_fits (pn_node_type node)) (pn_controls node)"
    by (rule node_controls_accepted)
  have "foldE (\<lambda>counted _. validate_count_group control counted) groups () = Inr () \<longleftrightarrow> list_all (family_counted control) groups" for groups
    by (induction groups) (auto simp: count_group_exact)
  then show "validate_control_counts control = Inr () \<longleftrightarrow> list_all (family_counted control) (count_groups (pc_control_type control))"
    by (simp add: validate_control_counts_def)
qed

end
