(* ===== verification/Slot_Bindings.thy ===== *)
theory Slot_Bindings
  imports Projection_Rules
begin

text \<open>
  The bindings of content slots: the walk over the controls, which threads the set of slots already bound, against the list of
  the positions the controls name.
\<close>

section \<open>Walks as lists\<close>

definition mapE :: "('a \<Rightarrow> 'e + 'b list) \<Rightarrow> 'a list \<Rightarrow> 'e + 'b list" where
  "mapE f xs = foldE (\<lambda>x ys. bindE (f x) (\<lambda>zs. Inr (ys @ zs))) xs []"

lemma mapE_from: "foldE (\<lambda>x ys. bindE (f x) (\<lambda>zs. Inr (ys @ zs))) xs ys = bindE (mapE f xs) (\<lambda>zs. Inr (ys @ zs))"
proof (induction xs arbitrary: ys)
  case (Cons x xs)
  show ?case
  proof (cases "f x")
    case (Inr zs)
    then show ?thesis using Cons.IH [of "ys @ zs"] Cons.IH [of zs] by (simp add: mapE_def bindE_assoc)
  qed (simp add: mapE_def)
qed (simp add: mapE_def)

lemma mapE_simps [simp]: "mapE f [] = Inr []" "mapE f (x # xs) = bindE (f x) (\<lambda>zs. bindE (mapE f xs) (\<lambda>ws. Inr (zs @ ws)))"
proof -
  show "mapE f (x # xs) = bindE (f x) (\<lambda>zs. bindE (mapE f xs) (\<lambda>ws. Inr (zs @ ws)))"
  proof (cases "f x")
    case (Inr zs)
    then show ?thesis using mapE_from [of f xs zs] by (simp add: mapE_def)
  qed (simp add: mapE_def)
qed (simp add: mapE_def)

text \<open>A walk that computes a list at each step and works through it is the computation of the whole list, then the work.\<close>

lemma foldE_mapE:
  assumes "\<And>x b b'. step x b = Inr b' \<longleftrightarrow> (\<exists>ps. f x = Inr ps \<and> foldE g ps b = Inr b')"
  shows "foldE step xs b = Inr b' \<longleftrightarrow> (\<exists>ps. mapE f xs = Inr ps \<and> foldE g ps b = Inr b')"
proof (induction xs arbitrary: b)
  case (Cons x xs)
  show ?case
  proof (cases "f x")
    case (Inr zs)
    then show ?thesis by (cases "mapE f xs") (auto simp: foldE_append assms Cons.IH)
  qed (simp add: assms)
qed simp


section \<open>Named positions\<close>

type_synonym named_position = "string \<times> content_owner_kind \<times> string \<times> content_field_kind \<times> u32"

definition control_positions :: "string \<Rightarrow> persisted_control \<Rightarrow> graph_error + named_position list" where
  "control_positions node_id control =
    mapE (\<lambda>(key, v). bindE (slot_ordinal control key) (\<lambda>position.
      Inr (case position of Some (field_kind, ordinal) \<Rightarrow> [(v, OwnerNode, node_id, field_kind, ordinal)] | None \<Rightarrow> [])))
      (om_entries (pc_identifiers control))"

definition edge_positions :: "persisted_edge \<Rightarrow> named_position list" where
  "edge_positions edge =
    (case pe_condition edge of
       None \<Rightarrow> []
     | Some condition \<Rightarrow> concat (map (\<lambda>(key, ordinal).
         case control_identifier condition key of Some v \<Rightarrow> [(v, OwnerEdge, pe_id edge, PolicyText, ordinal)] | None \<Rightarrow> [])
         [(''slot0'', 0), (''slot1'', 1)]))"

definition policy_positions :: "string \<Rightarrow> nat \<times> persisted_control \<Rightarrow> graph_error + named_position list" where
  "policy_positions graph_id = (\<lambda>(policy_index, policy).
    mapE (\<lambda>(key, offset).
      case control_identifier policy key of
        None \<Rightarrow> Inr []
      | Some v \<Rightarrow>
          bindE (ok_or (Option.bind (Option.bind (usize_mul policy_index 2) (\<lambda>v. usize_add v offset)) u32_try_from) InvalidProjection)
            (\<lambda>ordinal. Inr [(v, OwnerPolicy, graph_id, PolicyText, ordinal)]))
      [(''ruleTextSlot'', 0), (''explanationSlot'', 1)])"

definition named_positions :: "persisted_topology \<Rightarrow> graph_error + named_position list" where
  "named_positions topology =
    bindE (mapE (\<lambda>(node_id, node). mapE (control_positions node_id) (pn_controls node)) (om_entries (pt_nodes topology))) (\<lambda>nodes.
    bindE (mapE (policy_positions (pt_graph_id topology)) (List.enumerate 0 (pt_policies topology))) (\<lambda>policies.
      Inr (nodes @ concat (map edge_positions (pt_edges topology)) @ policies)))"

definition slot_named :: "content_slot list \<Rightarrow> string \<Rightarrow> content_slot option" where
  "slot_named slots v = List.find (\<lambda>slot. cs_slot_id slot = v) (rev slots)"

definition position_holds :: "content_slot list \<Rightarrow> named_position \<Rightarrow> bool" where
  "position_holds slots = (\<lambda>(v, owner_kind, owner_id, field_kind, ordinal).
    case slot_named slots v of Some slot \<Rightarrow> slot_at owner_kind owner_id field_kind ordinal slot | None \<Rightarrow> False)"

definition slots_bound_once :: "persisted_topology \<Rightarrow> content_slot list \<Rightarrow> bool" where
  "slots_bound_once topology slots \<longleftrightarrow>
    (\<exists>ps. named_positions topology = Inr ps \<and> distinct (map fst ps) \<and> list_all (position_holds slots) ps \<and>
      list_all (\<lambda>slot. must_be_bound slot \<longrightarrow> cs_slot_id slot \<in> fst ` set ps) slots)"


section \<open>The walk\<close>

definition bind_position :: "(string, content_slot) omap \<Rightarrow> named_position \<Rightarrow> string oset \<Rightarrow> graph_error + string oset" where
  "bind_position slots = (\<lambda>(v, owner_kind, owner_id, field_kind, ordinal). bind_exact_slot slots v owner_kind owner_id field_kind ordinal)"

lemma bind_position_simps [simp]:
  "bind_position slots (v, owner_kind, owner_id, field_kind, ordinal) = bind_exact_slot slots v owner_kind owner_id field_kind ordinal"
  by (simp add: bind_position_def)

lemma bind_control_slots_list:
  "bind_control_slots slots node_id control bound = Inr bound' \<longleftrightarrow>
    (\<exists>ps. control_positions node_id control = Inr ps \<and> foldE (bind_position slots) ps bound = Inr bound')"
  unfolding bind_control_slots_def control_positions_def
proof (rule foldE_mapE, clarify)
  fix key v b b'
  show "bindE (slot_ordinal control key) (\<lambda>position.
          case position of
            Some (field_kind, ordinal) \<Rightarrow> bind_exact_slot slots v OwnerNode node_id field_kind ordinal b
          | None \<Rightarrow> Inr b) = Inr b' \<longleftrightarrow>
      (\<exists>ps. bindE (slot_ordinal control key) (\<lambda>position.
          Inr (case position of Some (field_kind, ordinal) \<Rightarrow> [(v, OwnerNode, node_id, field_kind, ordinal)] | None \<Rightarrow> [])) = Inr ps \<and>
        foldE (bind_position slots) ps b = Inr b')"
  proof (cases "slot_ordinal control key")
    case (Inr position)
    then show ?thesis by (cases position) auto
  qed simp
qed

lemma bind_edge_slots_list:
  "bind_edge_slots slots edge bound = Inr bound' \<longleftrightarrow> foldE (bind_position slots) (edge_positions edge) bound = Inr bound'"
  by (auto simp: bind_edge_slots_def edge_positions_def split: option.split)

lemma bind_policy_slots_list:
  "bind_policy_slots slots graph_id policy bound = Inr bound' \<longleftrightarrow>
    (\<exists>ps. policy_positions graph_id policy = Inr ps \<and> foldE (bind_position slots) ps bound = Inr bound')"
  unfolding bind_policy_slots_def policy_positions_def split_def
  by (rule foldE_mapE) (auto split: option.split)

lemma bindings_list:
  "bindE (foldE (\<lambda>(node_id, node). foldE (bind_control_slots slots node_id) (pn_controls node)) (om_entries (pt_nodes topology)) b) (\<lambda>bound.
   bindE (foldE (bind_edge_slots slots) (pt_edges topology) bound)
     (foldE (bind_policy_slots slots (pt_graph_id topology)) (List.enumerate 0 (pt_policies topology)))) = Inr b' \<longleftrightarrow>
   (\<exists>ps. named_positions topology = Inr ps \<and> foldE (bind_position slots) ps b = Inr b')"
proof -
  have nodes: "foldE (\<lambda>(node_id, node). foldE (bind_control_slots slots node_id) (pn_controls node)) es b = Inr b' \<longleftrightarrow>
      (\<exists>ps. mapE (\<lambda>(node_id, node). mapE (control_positions node_id) (pn_controls node)) es = Inr ps \<and> foldE (bind_position slots) ps b = Inr b')"
    for es b b'
    by (rule foldE_mapE) (auto simp: split_def intro!: foldE_mapE bind_control_slots_list)
  have edges: "foldE (bind_edge_slots slots) es b = Inr b' \<longleftrightarrow> foldE (bind_position slots) (concat (map edge_positions es)) b = Inr b'" for es b b'
    by (induction es arbitrary: b) (auto simp: foldE_append bind_edge_slots_list)
  have policies: "foldE (bind_policy_slots slots graph_id) es b = Inr b' \<longleftrightarrow>
      (\<exists>ps. mapE (policy_positions graph_id) es = Inr ps \<and> foldE (bind_position slots) ps b = Inr b')" for graph_id es b b'
    by (rule foldE_mapE) (rule bind_policy_slots_list)
  show ?thesis unfolding named_positions_def by (auto simp: nodes edges policies foldE_append)
qed

lemma positions_bound:
  "foldE (bind_position slots) ps bound = Inr bound' \<longleftrightarrow>
    distinct (map fst ps) \<and> list_all (\<lambda>p. \<not> os_member bound (fst p)) ps \<and>
    list_all (\<lambda>(v, owner_kind, owner_id, field_kind, ordinal).
      case om_get slots v of Some slot \<Rightarrow> slot_at owner_kind owner_id field_kind ordinal slot | None \<Rightarrow> False) ps \<and>
    bound' = fold os_insert (map fst ps) bound"
proof (induction ps arbitrary: bound)
  case (Cons p ps)
  obtain v owner_kind owner_id field_kind ordinal where p: "p = (v, owner_kind, owner_id, field_kind, ordinal)" by (cases p) auto
  show ?case
  proof (cases "om_get slots v")
    case (Some slot)
    then show ?thesis by (auto simp: p bind_exact_slot_def Cons.IH list_all_iff image_iff split: if_splits)
  qed (simp add: p bind_exact_slot_def)
qed auto

lemma slots_named: "om_get (fold (\<lambda>slot. om_insert (cs_slot_id slot) slot) slots om_empty) v = slot_named slots v"
  by (induction slots rule: rev_induct) (auto simp: slot_named_def)

lemma bindings_accepted:
  "validate_exact_slot_bindings version = Inr () \<longleftrightarrow> slots_bound_once (pgv_topology version) (pgv_content_slots version)"
proof -
  define topology slots where "topology = pgv_topology version" and "slots = pgv_content_slots version"
  let ?slots = "fold (\<lambda>slot. om_insert (cs_slot_id slot) slot) slots om_empty"
  let ?unbound = "\<lambda>bound. list_ex (\<lambda>slot. must_be_bound slot \<and> \<not> os_member bound (cs_slot_id slot)) slots"
  have "validate_exact_slot_bindings version = Inr () \<longleftrightarrow>
      (\<exists>bound. bindE (foldE (\<lambda>(node_id, node). foldE (bind_control_slots ?slots node_id) (pn_controls node)) (om_entries (pt_nodes topology)) om_empty)
          (\<lambda>bound. bindE (foldE (bind_edge_slots ?slots) (pt_edges topology) bound)
            (foldE (bind_policy_slots ?slots (pt_graph_id topology)) (List.enumerate 0 (pt_policies topology)))) = Inr bound \<and> \<not> ?unbound bound)"
    by (auto simp: validate_exact_slot_bindings_def Let_def topology_def slots_def)
  also have "\<dots> \<longleftrightarrow> (\<exists>ps. named_positions topology = Inr ps \<and> distinct (map fst ps) \<and> list_all (position_holds slots) ps \<and>
      \<not> ?unbound (fold os_insert (map fst ps) om_empty))"
    unfolding bindings_list positions_bound slots_named position_holds_def by (auto simp: list_all_iff)
  also have "\<dots> \<longleftrightarrow> slots_bound_once topology slots"
    unfolding slots_bound_once_def by (auto simp: os_member_fold_insert list_all_iff list_ex_iff)
  finally show ?thesis unfolding topology_def slots_def .
qed

text \<open>C14: A content slot is named once. The bindings of an accepted projection are exactly the positions its node controls,
  edge conditions and policies name, with their ordinals computed without overflow: no slot is named twice, each named slot is stored
  and is the slot of that very owner, field and ordinal, and every slot whose text only a control can reach is named.
\<close>
theorem slots_bound_exactly:
  "validate_exact_slot_bindings version = Inr () \<longleftrightarrow> slots_bound_once (pgv_topology version) (pgv_content_slots version)"
  by (rule bindings_accepted)

end
