(* ===== verification/Projection_Acceptance.thy ===== *)
theory Projection_Acceptance
  imports Projection_Soundness Control_Soundness Slot_Bindings Content_Bounds
begin

text \<open>
  The whole validation of a persisted graph version against one declarative statement: the texts a projection holds are listed
  and none is secret-shaped, every slot is the one its position derives, and the parts proved before.
\<close>

section \<open>Texts\<close>

definition joinE :: "'e + 'a list \<Rightarrow> 'e + 'a list \<Rightarrow> 'e + 'a list" where
  "joinE ts us = bindE ts (\<lambda>a. bindE us (\<lambda>b. Inr (a @ b)))"

definition reference_texts :: "string \<Rightarrow> graph_error + string list" where
  "reference_texts v = (if starts_with v REFERENCE_PREFIX then bindE (decode_persisted_reference v) (\<lambda>decoded. Inr [decoded]) else Inr [])"

definition entry_texts :: "string \<times> string \<Rightarrow> graph_error + string list" where
  "entry_texts = (\<lambda>(key, v). joinE (Inr [key]) (joinE (Inr [v]) (reference_texts v)))"

definition control_texts :: "persisted_control \<Rightarrow> graph_error + string list" where
  "control_texts control =
    joinE (Inr [pc_control_type control]) (joinE (mapE entry_texts (om_entries (pc_identifiers control)))
      (Inr (om_keys (pc_digests control) @ om_keys (pc_integers control) @ om_keys (pc_flags control))))"

definition node_texts :: "string \<times> persisted_node \<Rightarrow> graph_error + string list" where
  "node_texts = (\<lambda>(node_id, node).
    joinE (Inr [node_id]) (joinE (Inr (pn_content_slot_ids node)) (mapE control_texts (pn_controls node))))"

definition edge_texts :: "persisted_edge \<Rightarrow> graph_error + string list" where
  "edge_texts edge =
    joinE (Inr [pe_id edge, pe_from edge, pe_to edge]) (joinE (mapE entry_texts (om_entries (pe_bindings edge)))
      (case pe_condition edge of Some condition \<Rightarrow> control_texts condition | None \<Rightarrow> Inr []))"

text \<open>Every text of a version, and the decoded form of every reference among them.\<close>

definition version_texts :: "persisted_graph_version \<Rightarrow> graph_error + string list" where
  "version_texts version =
    (let topology = pgv_topology version in
     joinE (Inr [pt_graph_id topology, pt_execution_id topology, pa_id (pgv_created_by version)])
     (joinE (mapE (\<lambda>(key, v). joinE (Inr [key]) (Inr [v])) (om_entries (pt_labels topology)))
     (joinE (Inr (pt_entrypoints topology))
     (joinE (mapE node_texts (om_entries (pt_nodes topology)))
     (joinE (mapE edge_texts (pt_edges topology))
     (joinE (mapE control_texts (pt_policies topology))
     (joinE (control_texts (pt_completion topology))
       (mapE (\<lambda>slot. Inr [cs_slot_id slot, cs_owner_id slot, cs_evidence_id slot]) (pgv_content_slots version)))))))))"

definition texts_safe :: "(string \<Rightarrow> json option) \<Rightarrow> persisted_graph_version \<Rightarrow> bool" where
  "texts_safe parse version \<longleftrightarrow>
    (\<exists>ts. version_texts version = Inr ts \<and> \<not> list_ex (is_secret_shaped parse) ts \<and> text_bytes ts \<le> MAX_CONTENT_SCAN_BYTES)"


text \<open>A step of the scan reads the texts listed for it, in order.\<close>

definition scans :: "(string \<Rightarrow> json option) \<Rightarrow> scan_step \<Rightarrow> graph_error + string list \<Rightarrow> bool" where
  "scans parse step texts \<longleftrightarrow> (\<forall>s s'. step s = Inr s' \<longleftrightarrow> (\<exists>ts. texts = Inr ts \<and> foldE (scan_projected parse) ts s = Inr s'))"

named_theorems scanning

lemma scans_text [scanning]: "scans parse (scan_projected parse t) (Inr [t])"
  by (simp add: scans_def)

lemma scans_list [scanning]: "scans parse (foldE (scan_projected parse) ts) (Inr ts)"
  by (simp add: scans_def)

lemma scans_none [scanning]: "scans parse Inr (Inr [])"
  by (auto simp: scans_def)

lemma scans_join [scanning]: "scans parse f ts \<Longrightarrow> scans parse g us \<Longrightarrow> scans parse (\<lambda>s. bindE (f s) g) (joinE ts us)"
  by (auto simp: scans_def joinE_def foldE_append)

lemma scans_fold [scanning]: "(\<And>x. scans parse (step x) (texts x)) \<Longrightarrow> scans parse (foldE step xs) (mapE texts xs)"
  unfolding scans_def by (intro allI foldE_mapE) blast

lemma scans_pair [scanning]: "(\<And>a b. scans parse (f a b) (g a b)) \<Longrightarrow> scans parse (case p of (a, b) \<Rightarrow> f a b) (case p of (a, b) \<Rightarrow> g a b)"
  by (cases p) simp

lemma scans_reference [scanning]: "scans parse (scan_reference parse v) (reference_texts v)"
  by (auto simp: scans_def scan_reference_def reference_texts_def)

lemma scans_entry [scanning]: "scans parse (scan_entry parse e) (entry_texts e)"
  by (cases e) (simp add: scan_entry_def entry_texts_def scanning)

lemma scans_control [scanning]: "scans parse (scan_control_content parse control) (control_texts control)"
  unfolding scan_control_content_def [abs_def] control_texts_def by (intro scanning)

lemma scans_node [scanning]: "scans parse (scan_node_content parse e) (node_texts e)"
  by (cases e) (simp add: scan_node_content_def node_texts_def scanning)

lemma scans_edge [scanning]: "scans parse (scan_edge_content parse edge) (edge_texts edge)"
  unfolding scan_edge_content_def [abs_def] edge_texts_def by (intro scanning) (auto split: option.split intro: scanning)

lemma scan_projected_texts: "foldE (scan_projected parse) ts s = Inr s' \<longleftrightarrow> foldE (scan_text parse) ts s = Inr s'"
proof (induction ts arbitrary: s)
  case (Cons t ts)
  show ?case by (cases "scan_text parse t s") (simp_all add: scan_projected_def [of parse t s] Cons.IH)
qed simp

lemma content_accepted: "validate_projection_content parse version = Inr () \<longleftrightarrow> texts_safe parse version"
proof -
  define topology where "topology = pgv_topology version"
  define walk where "walk = (\<lambda>s.
    bindE (foldE (scan_projected parse) [pt_graph_id topology, pt_execution_id topology, pa_id (pgv_created_by version)] s) (\<lambda>s.
    bindE (foldE (\<lambda>(key, v) s. bindE (scan_projected parse key s) (scan_projected parse v)) (om_entries (pt_labels topology)) s) (\<lambda>s.
    bindE (foldE (scan_projected parse) (pt_entrypoints topology) s) (\<lambda>s.
    bindE (foldE (scan_node_content parse) (om_entries (pt_nodes topology)) s) (\<lambda>s.
    bindE (foldE (scan_edge_content parse) (pt_edges topology) s) (\<lambda>s.
    bindE (foldE (scan_control_content parse) (pt_policies topology) s) (\<lambda>s.
    bindE (scan_control_content parse (pt_completion topology) s)
      (foldE (\<lambda>slot. foldE (scan_projected parse) [cs_slot_id slot, cs_owner_id slot, cs_evidence_id slot]) (pgv_content_slots version)))))))))"
  have "scans parse walk (version_texts version)"
    unfolding walk_def version_texts_def topology_def Let_def by (intro scanning)
  moreover have "validate_projection_content parse version = bindE (walk scanner_default) (\<lambda>_. Inr ())"
    by (simp only: validate_projection_content_def walk_def topology_def Let_def bindE_assoc)
  ultimately have "validate_projection_content parse version = Inr () \<longleftrightarrow>
      (\<exists>ts. version_texts version = Inr ts \<and> (\<exists>s. foldE (scan_text parse) ts scanner_default = Inr s))"
    by (auto simp: scans_def scan_projected_texts)
  then show ?thesis using scan_texts_accepted [of scanner_default parse] by (auto simp: texts_safe_def scanner_default_def)
qed


section \<open>Slots\<close>

definition slot_sound :: "(string \<Rightarrow> string) \<Rightarrow> persisted_topology \<Rightarrow> content_slot \<Rightarrow> bool" where
  "slot_sound sha_hex topology slot \<longleftrightarrow>
    valid_slot_field (cs_owner_kind slot) (cs_field_kind slot) \<and>
    derive_content_slot_id sha_hex (cs_owner_kind slot) (cs_owner_id slot) (cs_field_kind slot) (cs_ordinal slot) = Inr (cs_slot_id slot) \<and>
    derive_content_slot_profile (cs_owner_kind slot) (cs_owner_id slot) (cs_field_kind slot) (cs_ordinal slot) =
      Inr \<lparr>csp_sensitivity = cs_sensitivity slot, csp_required_for_execution = cs_required_for_execution slot\<rparr> \<and>
    (case cs_owner_kind slot of
       OwnerGraph \<Rightarrow> cs_owner_id slot = pt_graph_id topology
     | OwnerPolicy \<Rightarrow> cs_owner_id slot = pt_graph_id topology
     | OwnerNode \<Rightarrow> om_contains (pt_nodes topology) (cs_owner_id slot)
     | OwnerAgent \<Rightarrow> \<exists>node. om_get (pt_nodes topology) (cs_owner_id slot) = Some node \<and> node_type_as_str (pn_node_type node) = ''agent''
     | OwnerEdge \<Rightarrow> cs_owner_id slot \<in> pe_id ` set (pt_edges topology)
     | OwnerDiagnostic \<Rightarrow> False)"

abbreviation owned_by_node :: "content_slot \<Rightarrow> bool" where
  "owned_by_node slot \<equiv> cs_owner_kind slot \<in> {OwnerNode, OwnerAgent}"

definition slots_of :: "content_slot list \<Rightarrow> string \<Rightarrow> string list" where
  "slots_of slots node_id = map cs_slot_id (filter (\<lambda>slot. owned_by_node slot \<and> cs_owner_id slot = node_id) slots)"

definition collected :: "persisted_topology \<Rightarrow> content_slot list \<Rightarrow> (string, string list) omap \<Rightarrow> bool" where
  "collected topology slots m \<longleftrightarrow>
    (\<forall>k. om_get m k = (if om_contains (pt_nodes topology) k then Some (slots_of slots k) else None))"

definition collect_slot :: "content_slot list \<Rightarrow> content_slot \<Rightarrow> (string, string list) omap \<Rightarrow> (string, string list) omap" where
  "collect_slot slots slot m =
    (if owned_by_node slot then om_insert (cs_owner_id slot) (slots_of slots (cs_owner_id slot) @ [cs_slot_id slot]) m else m)"

lemma ensure_slot: "(if b then Inl e else r) = Inr x \<longleftrightarrow> \<not> b \<and> r = Inr x"
  by simp

lemma slot_step:
  assumes ids: "os_set_ids = os_of_list (map pe_id (pt_edges topology))" and m: "collected topology slots m"
  shows "validate_slot env topology os_set_ids slot m = Inr m' \<longleftrightarrow>
    slot_sound (pje_sha_hex env) topology slot \<and> m' = collect_slot slots slot m"
proof -
  have get: "om_get m k = (if om_contains (pt_nodes topology) k then Some (slots_of slots k) else None)" for k
    using m by (simp add: collected_def)
  have profile: "derive_content_slot_profile k i f n = Inr \<lparr>csp_sensitivity = a, csp_required_for_execution = b\<rparr> \<longleftrightarrow>
      (\<exists>p. derive_content_slot_profile k i f n = Inr p \<and> \<not> (a \<noteq> csp_sensitivity p \<or> b \<noteq> csp_required_for_execution p))" for k i f n a b
    by (auto simp: content_slot_profile.equality)
  show ?thesis
    unfolding validate_slot_def slot_sound_def profile ensure_slot ids
    by (cases "cs_owner_kind slot") (auto simp: ensure_slot collect_slot_def om_contains_def get)
qed

lemma collected_step: "slot_sound sha_hex topology slot \<Longrightarrow> collected topology slots m \<Longrightarrow> collected topology (slots @ [slot]) (collect_slot slots slot m)"
  by (cases "cs_owner_kind slot") (auto simp: slot_sound_def collected_def collect_slot_def slots_of_def om_contains_def)

lemma slots_accepted:
  fixes env :: projection_env
  assumes "collected topology before m"
  defines "walk \<equiv> foldE (validate_slot env topology (os_of_list (map pe_id (pt_edges topology))))"
  shows "(\<exists>m'. walk slots m = Inr m') \<longleftrightarrow> list_all (slot_sound (pje_sha_hex env) topology) slots"
    and "walk slots m = Inr m' \<Longrightarrow> collected topology (before @ slots) m'"
proof -
  have "((\<exists>m'. walk slots m = Inr m') \<longleftrightarrow> list_all (slot_sound (pje_sha_hex env) topology) slots) \<and>
      (\<forall>m'. walk slots m = Inr m' \<longrightarrow> collected topology (before @ slots) m')"
    using assms(1)
  proof (induction slots arbitrary: before m)
    case (Cons slot slots)
    note step = slot_step [OF refl Cons.prems]
    show ?case
    proof (cases "slot_sound (pje_sha_hex env) topology slot")
      case True
      then show ?thesis
        using Cons.IH [OF collected_step [OF True Cons.prems]] by (simp add: walk_def step)
    qed (simp add: walk_def step)
  qed (simp add: walk_def)
  then show "(\<exists>m'. walk slots m = Inr m') \<longleftrightarrow> list_all (slot_sound (pje_sha_hex env) topology) slots"
    and "walk slots m = Inr m' \<Longrightarrow> collected topology (before @ slots) m'"
    by blast+
qed


section \<open>The whole validation\<close>

definition controls_sound :: "persisted_topology \<Rightarrow> bool" where
  "controls_sound topology \<longleftrightarrow>
    list_all (\<lambda>node. (\<exists>orders. ordered_controls (pn_controls node) orders) \<and> list_all (control_fits (pn_node_type node)) (pn_controls node))
      (om_values (pt_nodes topology)) \<and>
    list_all (\<lambda>edge. pred_option (\<lambda>condition. pc_control_type condition = ''edge_condition'' \<and> validate_control_shape condition = Inr ())
      (pe_condition edge)) (pt_edges topology) \<and>
    list_all (\<lambda>policy. pc_control_type policy = ''policy_control'' \<and> validate_control_shape policy = Inr ()) (pt_policies topology) \<and>
    pc_control_type (pt_completion topology) = ''graph_completion'' \<and> validate_control_shape (pt_completion topology) = Inr ()"

lemma grammar_accepted: "validate_projection_grammar version = Inr () \<longleftrightarrow> controls_sound (pgv_topology version)"
proof -
  have "(case c of Some condition \<Rightarrow> if pc_control_type condition \<noteq> t then Inl InvalidProjection else validate_control_shape condition | None \<Rightarrow> Inr ()) = Inr ()
      \<longleftrightarrow> pred_option (\<lambda>condition. pc_control_type condition = t \<and> validate_control_shape condition = Inr ()) c" for c t
    by (cases c) auto
  then show ?thesis
    unfolding validate_projection_grammar_def controls_sound_def Let_def bindE_unit foldE_unit node_controls_accepted
    by (auto simp: list_all_iff)
qed

definition lineage_sound :: "persisted_graph_version \<Rightarrow> bool" where
  "lineage_sound version \<longleftrightarrow>
    (case pgv_predecessor version of
       None \<Rightarrow> unat (pgv_number version) = 1
     | Some predecessor \<Rightarrow> unat (pgv_number version) = unat (pgr_number predecessor) + 1)"

definition slots_stored :: "(string \<Rightarrow> string) \<Rightarrow> persisted_graph_version \<Rightarrow> bool" where
  "slots_stored sha_hex version \<longleftrightarrow>
    list_all (slot_sound sha_hex (pgv_topology version)) (pgv_content_slots version) \<and>
    list_all (\<lambda>(node_id, node). pn_content_slot_ids node = slots_of (pgv_content_slots version) node_id) (om_entries (pt_nodes (pgv_topology version)))"

definition projection_sound :: "projection_env \<Rightarrow> persisted_graph_version \<Rightarrow> bool" where
  "projection_sound env version \<longleftrightarrow>
    lineage_sound version \<and> controls_sound (pgv_topology version) \<and> validate_persisted_references version = Inr () \<and>
    texts_safe (pje_parse env) version \<and>
    persisted_hashes env (pgv_topology version) (pgv_content_slots version) =
      Inr \<lparr>phs_topology_hash = pgv_topology_hash version, phs_semantic_hash = pgv_semantic_hash version\<rparr> \<and>
    set (pt_entrypoints (pgv_topology version)) \<subseteq> set (node_ids (pgv_topology version)) \<and>
    structurally_sound (pgv_topology version) \<and> validate_control_node_relations (pgv_topology version) = Inr () \<and>
    slots_stored (pje_sha_hex env) version \<and> validate_minimum_projection_image version = Inr () \<and>
    slots_bound_once (pgv_topology version) (pgv_content_slots version)"

lemma lineage_accepted:
  "(case pgv_predecessor version of
      None \<Rightarrow> ensure (pgv_number version = 1) InvalidProjection
    | Some predecessor \<Rightarrow> ensure (checked_add (pgr_number predecessor) 1 = Some (pgv_number version)) InvalidProjection) = Inr () \<longleftrightarrow>
    lineage_sound version"
proof -
  have "checked_add a 1 = Some b \<longleftrightarrow> unat b = unat a + 1" for a b :: u64
  proof
    show "checked_add a 1 = Some b \<Longrightarrow> unat b = unat a + 1" using checked_add_Some [of a 1 b] by simp
    assume b: "unat b = unat a + 1"
    have "unat b < 2 ^ LENGTH(64)" by (rule unsigned_less)
    then obtain c where c: "checked_add a 1 = Some c" using b by (simp add: checked_add_def)
    have "unat c = unat b" using b c checked_add_Some [OF c] by simp
    then show "checked_add a 1 = Some b" using c by (simp add: word_unat_eq_iff)
  qed
  moreover have "n = 1 \<longleftrightarrow> unat n = 1" for n :: u64 by (simp add: word_unat_eq_iff)
  ultimately show ?thesis by (auto simp: lineage_sound_def split: option.split)
qed

lemma hashes_accepted:
  "(\<exists>hashes. persisted_hashes env topology slots = Inr hashes \<and> invalid_if (phs_topology_hash hashes \<noteq> a \<or> phs_semantic_hash hashes \<noteq> b) = Inr ()) \<longleftrightarrow>
    persisted_hashes env topology slots = Inr \<lparr>phs_topology_hash = a, phs_semantic_hash = b\<rparr>"
  by (auto intro: persistence_hashes.equality)

lemma stored_accepted:
  fixes env :: projection_env
  assumes "validate_edge_identity_and_endpoints (pgv_topology version) = Inr ids"
  shows "(\<exists>m. foldE (validate_slot env (pgv_topology version) ids) (pgv_content_slots version) (om_map (\<lambda>_. []) (pt_nodes (pgv_topology version))) = Inr m \<and>
      \<not> list_ex (\<lambda>(node_id, node). om_get m node_id \<noteq> Some (pn_content_slot_ids node)) (om_entries (pt_nodes (pgv_topology version)))) \<longleftrightarrow>
    slots_stored (pje_sha_hex env) version"
proof -
  define topology slots m where "topology = pgv_topology version" and "slots = pgv_content_slots version"
    and "m = om_map (\<lambda>_. [] :: string list) (pt_nodes topology)"
  have ids: "ids = os_of_list (map pe_id (pt_edges topology))"
    using assms by (auto simp: validate_edge_identity_and_endpoints_def topology_def Let_def split: if_splits)
  have m: "collected topology [] m" by (auto simp: collected_def m_def slots_of_def om_contains_def)
  note walk = slots_accepted [OF m, of env slots, folded ids]
  have entries: "list_ex (\<lambda>(node_id, node). om_get m' node_id \<noteq> Some (pn_content_slot_ids node)) (om_entries (pt_nodes topology)) \<longleftrightarrow>
      \<not> list_all (\<lambda>(node_id, node). pn_content_slot_ids node = slots_of slots node_id) (om_entries (pt_nodes topology))"
    if c: "collected topology slots m'" for m'
  proof -
    have "om_get m' (fst e) = Some (slots_of slots (fst e))" if "e \<in> set (om_entries (pt_nodes topology))" for e
    proof -
      have "fst e \<in> fst ` set (om_entries (pt_nodes topology))" using that by simp
      then have "om_contains (pt_nodes topology) (fst e)" by (simp add: om_contains_def om_get_entries map_of_eq_None_iff)
      then show ?thesis using c by (simp add: collected_def)
    qed
    then show ?thesis unfolding list_ex_iff list_all_iff split_def by (metis option.inject)
  qed
  show ?thesis
    unfolding slots_stored_def topology_def [symmetric] slots_def [symmetric] m_def [symmetric] walk(1) [symmetric]
    using walk(2) entries by (simp only: append_Nil) blast
qed

lemma projection_accepted: "validate_persisted_projection env version = Inr () \<longleftrightarrow> projection_sound env version"
proof -
  let ?topology = "pgv_topology version" and ?slots = "pgv_content_slots version"
  have one: "(\<exists>u. r = Inr u \<and> Q u) \<longleftrightarrow> r = Inr () \<and> Q ()" for r :: "graph_error + unit" and Q by (cases r) auto
  have regroup: "(\<exists>h. A h \<and> B h \<and> E \<and> (\<exists>i. V i \<and> R \<and> T \<and> (\<exists>m. F i m \<and> X m \<and> M))) \<longleftrightarrow>
      (\<exists>h. A h \<and> B h) \<and> E \<and> R \<and> T \<and> M \<and> (\<exists>i. V i \<and> (\<exists>m. F i m \<and> X m))" for A B E V R T F X M by blast
  have entry: "invalid_if (list_ex (\<lambda>entrypoint. \<not> om_contains (pt_nodes ?topology) entrypoint) (pt_entrypoints ?topology)) = Inr () \<longleftrightarrow>
      set (pt_entrypoints ?topology) \<subseteq> set (node_ids ?topology)"
    by (auto simp: list_ex_iff)
  let ?stored = "\<exists>ids. validate_edge_identity_and_endpoints ?topology = Inr ids \<and>
      (\<exists>m. foldE (validate_slot env ?topology ids) ?slots (om_map (\<lambda>_. []) (pt_nodes ?topology)) = Inr m \<and>
        invalid_if (list_ex (\<lambda>(node_id, node). om_get m node_id \<noteq> Some (pn_content_slot_ids node)) (om_entries (pt_nodes ?topology))) = Inr ())"
  have stored: "?stored \<longleftrightarrow> (\<exists>ids. validate_edge_identity_and_endpoints ?topology = Inr ids) \<and> slots_stored (pje_sha_hex env) version"
    using stored_accepted [of version _ env] unfolding ensure_eq_Inr by blast
  have "validate_persisted_projection env version = Inr () \<longleftrightarrow>
      lineage_sound version \<and> controls_sound ?topology \<and> validate_persisted_references version = Inr () \<and> texts_safe (pje_parse env) version \<and>
      persisted_hashes env ?topology ?slots = Inr \<lparr>phs_topology_hash = pgv_topology_hash version, phs_semantic_hash = pgv_semantic_hash version\<rparr> \<and>
      set (pt_entrypoints ?topology) \<subseteq> set (node_ids ?topology) \<and> validate_control_node_relations ?topology = Inr () \<and>
      validate_persisted_topology ?topology = Inr () \<and>
      (validate_minimum_projection_image version = Inr () \<and> slots_bound_once ?topology ?slots) \<and> ?stored"
    unfolding validate_persisted_projection_def Let_def bindE_eq_Inr one regroup lineage_accepted grammar_accepted content_accepted entry
      bindings_accepted hashes_accepted ..
  then show ?thesis unfolding stored projection_sound_def topology_accepted [symmetric] by blast
qed

text \<open>C13: The validation of a persisted graph version is exact. It accepts a version if and only if its number follows its predecessor,
  its controls are well typed, its references are registered and in their places, no text of it (nor any decoded reference) is
  secret-shaped, its two stored identities are the recomputed ones, its entrypoints are nodes, its topology is structurally sound, the
  relations between controls and nodes hold, every content slot has the identity, sensitivity and owner its position derives and
  each node lists exactly its own slots in order, the minimal image is present and every slot is named exactly once.
\<close>
theorem projection_accepts_exact: "validate_persisted_projection env version = Inr () \<longleftrightarrow> projection_sound env version"
  by (rule projection_accepted)

end
