(* ===== verification/Projection_Samples.thy ===== *)
theory Projection_Samples
  imports Projection_Acceptance 
begin

text \<open>
  A small graph version that the complete validation accepts: one node, its three content slots, and the completion that names
  it. The digest of the sample is a function of the length of its input, enough to keep the slots of the sample apart.
\<close>

definition position_digest :: "string \<Rightarrow> string" where
  "position_digest bytes = replicate 63 CHR ''0'' @ [(char_of :: nat \<Rightarrow> char) (48 + length bytes mod 10)]"

definition sample_projection_env :: projection_env where
  "sample_projection_env = \<lparr>pje_sha_hex = position_digest, pje_parse = (\<lambda>_. None), pje_topology_json = (\<lambda>_. Some JNull), pje_to_vec = (\<lambda>_. Some [])\<rparr>"

definition position_slot :: "content_owner_kind \<Rightarrow> string \<Rightarrow> content_field_kind \<Rightarrow> nat \<Rightarrow> sensitivity \<Rightarrow> bool \<Rightarrow> content_slot" where
  "position_slot owner_kind owner_id field_kind n sensitivity required =
    \<lparr>cs_slot_id = ''slot-'' @ position_digest (replicate n CHR ''x''), cs_owner_kind = owner_kind, cs_owner_id = owner_id,
     cs_field_kind = field_kind, cs_ordinal = 0, cs_evidence_id = ''evidence-'' @ position_digest (replicate n CHR ''x''), cs_content_sha256 = position_digest [],
     cs_sensitivity = sensitivity, cs_required_for_execution = required\<rparr>"

definition sample_slots :: "content_slot list" where
  "sample_slots = [position_slot OwnerGraph ''g'' DisplayName 2 Internal False, position_slot OwnerNode ''n'' DisplayName 1 Internal False,
    position_slot OwnerNode ''n'' Objective 8 Restricted True]"

definition sample_completion :: persisted_control where
  "sample_completion =
    \<lparr>pc_control_type = ''graph_completion'', pc_identifiers = om_insert ''terminal.000'' ''n'' om_empty, pc_digests = om_empty,
     pc_integers = om_insert ''terminalCount'' 1 om_empty, pc_flags = om_insert ''present'' True om_empty\<rparr>"

definition sample_graph :: persisted_topology where
  "sample_graph =
    \<lparr>pt_graph_id = ''g'', pt_execution_id = ''e'', pt_labels = om_empty, pt_entrypoints = [''n''],
     pt_nodes = om_insert ''n'' \<lparr>pn_node_type = Timer, pn_optionality = Required, pn_controls = [],
       pn_content_slot_ids = map cs_slot_id (drop 1 sample_slots), pn_timeout_seconds = None, pn_customs = None\<rparr> om_empty,
     pt_edges = [], pt_budgets = default_budgets, pt_policies = [], pt_completion = sample_completion\<rparr>"

definition sample_accepted_version :: persisted_graph_version where
  "sample_accepted_version =
    \<lparr>pgv_number = 1, pgv_predecessor = None, pgv_topology = sample_graph, pgv_topology_hash = ''sha256:'' @ position_digest [],
     pgv_semantic_hash = ''sha256:'' @ position_digest [], pgv_content_slots = sample_slots,
     pgv_created_by = \<lparr>pa_actor_type = Owner, pa_id = ''o''\<rparr>, pgv_created_at = 0\<rparr>"

definition sample_texts :: "string list" where
  "sample_texts = [''g'', ''e'', ''o'', ''n'', ''n''] @ map cs_slot_id (drop 1 sample_slots) @
    [''graph_completion'', ''terminal.000'', ''n'', ''terminalCount'', ''present''] @
    concat (map (\<lambda>slot. [cs_slot_id slot, cs_owner_id slot, cs_evidence_id slot]) sample_slots)"

lemma sample_texts_listed: "version_texts sample_accepted_version = Inr sample_texts"
  by (simp add: version_texts_def joinE_def node_texts_def control_texts_def entry_texts_def reference_texts_def starts_with_def
      REFERENCE_PREFIX_def sample_accepted_version_def sample_graph_def sample_completion_def sample_texts_def sample_slots_def omap_simps om_keys_def)

text \<open>Most secret shapes have a \<open>b\<close>, a colon or a slash; a vendor prefix and a token with its dots need room.\<close>

lemma plain_text:
  assumes low: "CHR ''b'' \<notin> set (map to_ascii_lowercase t)" "CHR '':'' \<notin> set (map to_ascii_lowercase t)" "CHR ''/'' \<notin> set (map to_ascii_lowercase t)"
    and dot: "CHR ''.'' \<notin> set t \<or> length t \<le> 16"
    and pre: "list_all (\<lambda>(pre, n). length t < length pre + n \<or> \<not> set pre \<subseteq> set (map to_ascii_lowercase t)) SECRET_PREFIXES"
  shows "\<not> is_secret_shaped parse t"
proof -
  define lower where "lower = map to_ascii_lowercase t"
  have no: "\<not> sublist u lower" "\<not> sublist u (filter P lower)" if "c \<in> set u" "c \<in> {CHR ''b'', CHR '':'', CHR ''/''}" for u P c
    using that low set_mono_sublist [of u lower] set_mono_sublist [of u "filter P lower"] unfolding lower_def by auto
  have "\<not> jwt_shape parse t"
  proof
    assume "jwt_shape parse t"
    then obtain a header d payload e signature b where t: "t = a @ header @ d @ payload @ e @ signature @ b"
      and d: "d \<noteq> []" "dots d" "8 \<le> length payload" "e \<noteq> []" "8 \<le> length signature" unfolding jwt_shape_def by blast
    have "CHR ''.'' \<in> set d" using d(1,2) by (cases d) auto
    moreover have "length t \<ge> 18" using d unfolding t by (cases d; cases e) simp_all
    ultimately show False using dot unfolding t by auto
  qed
  moreover have "\<not> list_ex (\<lambda>(pre, n). contains_prefixed_secret lower pre n) SECRET_PREFIXES"
  proof -
    have "length pre + n \<le> length t \<and> set pre \<subseteq> set lower" if p: "prefixed_secret pre n lower" for pre n
    proof -
      obtain tail where "length tail = n" "sublist (pre @ tail) lower" using p unfolding prefixed_secret_def by blast
      then show ?thesis using sublist_length_le [of "pre @ tail" lower] set_mono_sublist [of "pre @ tail" lower] by (simp add: lower_def)
    qed
    then show ?thesis using pre unfolding contains_prefixed_secret_iff list_ex_iff list_all_iff lower_def by fastforce
  qed
  moreover have "\<not> authorization_secret lower"
  proof -
    have "\<not> sublist (scheme @ u) lower" if "scheme \<in> {''bearer'', ''basic''}" for scheme u
      by (rule no(1) [of "CHR ''b''"]) (use that in auto)
    then show ?thesis unfolding authorization_secret_def by blast
  qed
  moreover have "\<not> environment_secret lower"
  proof -
    have "\<not> sublist ENVIRONMENT_URI lower" by (rule no(1) [of "CHR '':''"]) (simp_all add: ENVIRONMENT_URI_def)
    then show ?thesis unfolding environment_secret_def by (auto simp: sublist_def)
  qed
  moreover have "\<not> contains_reference_secret_name lower"
    unfolding contains_reference_secret_name_def contains_bytes_sublist starts_with_prefix
    using no(1) [of "CHR ''/''" "''://''"] no(1) [of "CHR ''/''" "''project/''"] no(1) [of "CHR ''/''" "''builtin/''"]
    by (auto dest: prefix_imp_sublist)
  moreover have "\<not> contains_compact_pem lower"
  proof -
    have "list_all (\<lambda>m. CHR ''b'' \<in> set m) PEM_MARKERS" by code_simp
    then show ?thesis using no(2) unfolding contains_compact_pem_iff list_ex_iff list_all_iff by blast
  qed
  moreover have "\<not> list_ex (contains_bytes lower) SECRET_URIS"
  proof -
    have "list_all (\<lambda>m. CHR ''/'' \<in> set m) SECRET_URIS" by code_simp
    then show ?thesis using no(1) unfolding list_ex_iff list_all_iff contains_bytes_sublist by blast
  qed
  ultimately show ?thesis
    unfolding is_secret_shaped_def contains_jwt_linear_iff authorization_secret_iff environment_secret_iff lower_def Let_def by blast
qed

lemma sample_digits: "set (position_digest t) \<subseteq> set ''0123456789''"
proof -
  have "list_all (\<lambda>k. (char_of :: nat \<Rightarrow> char) (48 + k) \<in> set ''0123456789'') [0..<10]" by code_simp
  moreover have "length t mod 10 \<in> set [0..<10]" by simp
  ultimately have "(char_of :: nat \<Rightarrow> char) (48 + length t mod 10) \<in> set ''0123456789''" unfolding list_all_iff by blast
  then show ?thesis unfolding position_digest_def by auto
qed

text \<open>The identities of the sample: of its slots and of their evidence.\<close>

abbreviation sample_chars :: string where
  "sample_chars \<equiv> ''slotevidnc-0123456789''"

lemma position_digest_chars: "set (''slot-'' @ position_digest t) \<subseteq> set sample_chars" "set (''evidence-'' @ position_digest t) \<subseteq> set sample_chars"
proof -
  have "list_all (\<lambda>c. c \<in> set sample_chars) (''slot-'' @ ''evidence-'' @ ''0123456789'')" by simp
  then show "set (''slot-'' @ position_digest t) \<subseteq> set sample_chars" "set (''evidence-'' @ position_digest t) \<subseteq> set sample_chars"
    using sample_digits [of t] unfolding list_all_iff set_append by blast+
qed

abbreviation sample_names :: "string list" where
  "sample_names \<equiv> [''g'', ''e'', ''o'', ''n'', ''graph_completion'', ''terminal.000'', ''terminalCount'', ''present'']"

lemma sample_names_plain: "list_all (\<lambda>t. \<not> is_secret_shaped parse t) sample_names"
proof -
  have c: "(char_of :: nat \<Rightarrow> char) 99 = CHR ''c''" by code_simp
  have names: "list_all (\<lambda>t. length t \<le> 16 \<and> CHR ''b'' \<notin> set (map to_ascii_lowercase t) \<and> CHR '':'' \<notin> set (map to_ascii_lowercase t) \<and>
      CHR ''/'' \<notin> set (map to_ascii_lowercase t)) sample_names"
    by (simp add: to_ascii_lowercase_def is_ascii_uppercase_def byte_def c)
  have "list_all (\<lambda>(pre, n). 16 < length pre + n) SECRET_PREFIXES" by code_simp
  then have "length t \<le> 16 \<Longrightarrow> list_all (\<lambda>(pre, n). length t < length pre + n \<or> \<not> set pre \<subseteq> set (map to_ascii_lowercase t)) SECRET_PREFIXES" for t
    unfolding list_all_iff by fastforce
  then have "length t \<le> 16 \<and> CHR ''b'' \<notin> set (map to_ascii_lowercase t) \<and> CHR '':'' \<notin> set (map to_ascii_lowercase t) \<and>
      CHR ''/'' \<notin> set (map to_ascii_lowercase t) \<Longrightarrow> \<not> is_secret_shaped parse t" for t using plain_text by blast
  then show ?thesis using names unfolding list_all_iff by blast
qed

lemma sample_chars_plain:
  assumes "set t \<subseteq> set sample_chars"
  shows "\<not> is_secret_shaped parse t"
proof -
  have low: "set (map to_ascii_lowercase t) \<subseteq> set sample_chars"
  proof -
    have "list_all (\<lambda>c. to_ascii_lowercase c \<in> set sample_chars) sample_chars" by code_simp
    then show ?thesis using assms unfolding list_all_iff set_map by blast
  qed
  have "list_all (\<lambda>(pre, n). \<not> set pre \<subseteq> set sample_chars) SECRET_PREFIXES" by code_simp
  then have pre: "list_all (\<lambda>(pre, n). length t < length pre + n \<or> \<not> set pre \<subseteq> set (map to_ascii_lowercase t)) SECRET_PREFIXES"
    using low unfolding list_all_iff by blast
  have "list_all (\<lambda>c. c \<notin> set sample_chars) [CHR ''b'', CHR '':'', CHR ''/'', CHR ''.'']" by code_simp
  then have out: "CHR ''b'' \<notin> set sample_chars" "CHR '':'' \<notin> set sample_chars" "CHR ''/'' \<notin> set sample_chars" "CHR ''.'' \<notin> set sample_chars"
    by simp_all
  show ?thesis by (rule plain_text [OF _ _ _ _ pre]) (use out low assms in blast)+
qed

lemmas sample_id_plain = sample_chars_plain [OF position_digest_chars(1)] sample_chars_plain [OF position_digest_chars(2)]

lemma sample_id_opaque: "is_opaque_id (''slot-'' @ position_digest t)" "is_opaque_id (''evidence-'' @ position_digest t)"
proof -
  have "list_all (\<lambda>c. is_opaque_id [c]) sample_chars" by code_simp
  then have "is_opaque_id t" if "set t \<subseteq> set sample_chars" "t \<noteq> []" "length t \<le> 128" for t
    using that unfolding is_opaque_id_def list_all_iff by auto
  then show "is_opaque_id (''slot-'' @ position_digest t)" "is_opaque_id (''evidence-'' @ position_digest t)"
    using position_digest_chars [of t] by (simp_all add: position_digest_def)
qed

lemma position_digest_raw: "is_raw_sha256 (position_digest t)"
proof -
  have "list_all (\<lambda>c. is_raw_sha256 (replicate 64 c)) ''0123456789''" by code_simp
  then have digit: "c \<in> set ''0123456789'' \<Longrightarrow> is_ascii_digit c \<or> (97 \<le> byte c \<and> byte c \<le> 102)" for c
    unfolding list_all_iff is_raw_sha256_def by (auto simp: numeral_eq_Suc)
  have "length (position_digest t) = 64" "set (position_digest t) \<subseteq> set ''0123456789''"
    using sample_digits [of t] by (simp_all add: position_digest_def)
  then show ?thesis using digit unfolding is_raw_sha256_def list_all_iff by blast
qed

lemma position_digest_cong: "length a mod 10 = length b mod 10 \<Longrightarrow> position_digest a = position_digest b"
  by (simp add: position_digest_def)

lemma push_identity_part: "length w < 100 \<Longrightarrow> push_slot_position_part out w = Inr (out @ be_bytes 4 (length w) @ w)"
  by (simp add: push_slot_position_part_def)

lemma kind_bytes_short: "length (content_owner_kind_bytes owner_kind) < 100" "length (content_field_kind_bytes field_kind) < 100"
  by (cases owner_kind; simp) (cases field_kind; simp)

lemma sample_texts_safe: "texts_safe (\<lambda>_. None) sample_accepted_version"
proof -
  have len: "length (position_digest t) = 64" for t by (simp add: position_digest_def)
  have "list_all (\<lambda>t. \<not> is_secret_shaped (\<lambda>_. None) t \<and> length t \<le> 73) sample_texts \<and> length sample_texts \<le> 30"
    unfolding sample_texts_def sample_slots_def
    using sample_names_plain sample_id_plain [simplified] by (simp add: position_slot_def len)
  moreover have "text_bytes ts \<le> length ts * 73" if "list_all (\<lambda>t. length t \<le> 73) ts" for ts :: "string list"
    using that by (induction ts) auto
  ultimately show ?thesis
    using sample_texts_listed by (fastforce simp: texts_safe_def list_all_iff list_ex_iff scan_limits)
qed

lemma position_slot_id:
  assumes "length owner_id < 100"
    and "(length ''graphhelm-content-slot-position-v1'' + length (content_owner_kind_bytes owner_kind) + length owner_id
      + length (content_field_kind_bytes field_kind)) mod 10 = n mod 10"
  shows "derive_content_slot_id position_digest owner_kind owner_id field_kind 0 = Inr (''slot-'' @ position_digest (replicate n CHR ''x''))"
proof -
  define tag where "tag = ''graphhelm-content-slot-position-v1''"
  have tag: "length tag < 100" unfolding tag_def by simp
  define bytes where "bytes = be_bytes 4 (length tag) @ tag @
    be_bytes 4 (length (content_owner_kind_bytes owner_kind)) @ content_owner_kind_bytes owner_kind @
    be_bytes 4 (length owner_id) @ owner_id @
    be_bytes 4 (length (content_field_kind_bytes field_kind)) @ content_field_kind_bytes field_kind @ be32 0"
  have "length bytes = 20 + (length tag + length (content_owner_kind_bytes owner_kind) + length owner_id
      + length (content_field_kind_bytes field_kind))"
    unfolding bytes_def by (simp only: length_append length_be_bytes length_be32)
  moreover have "(20 + a) mod 10 = a mod 10" for a :: nat by presburger
  ultimately have "length bytes mod 10 = length (replicate n CHR ''x'') mod 10"
    using assms(2) unfolding tag_def [symmetric] by (simp only: length_replicate)
  then have same: "position_digest bytes = position_digest (replicate n CHR ''x'')" by (rule position_digest_cong)
  have "derive_content_slot_id position_digest owner_kind owner_id field_kind 0 = bindE (raw_content_sha256 position_digest bytes) (\<lambda>digest.
      let slot_id = ''slot-'' @ digest in if is_opaque_id slot_id then Inr slot_id else Inl InvalidProjection)"
    unfolding derive_content_slot_id_def tag_def [symmetric] bytes_def
    by (simp only: push_identity_part [OF tag] push_identity_part [OF kind_bytes_short(1)] push_identity_part [OF assms(1)] push_identity_part [OF kind_bytes_short(2)] bindE.simps append_Nil append_assoc)
  then show ?thesis using position_digest_raw sample_id_opaque(1) by (simp add: raw_content_sha256_def same Let_def)
qed

lemma sample_slots_sound: "list_all (slot_sound position_digest sample_graph) sample_slots"
proof -
  have "derive_content_slot_id position_digest OwnerGraph ''g'' DisplayName 0 = Inr (''slot-'' @ position_digest (replicate 2 CHR ''x''))"
    "derive_content_slot_id position_digest OwnerNode ''n'' DisplayName 0 = Inr (''slot-'' @ position_digest (replicate 1 CHR ''x''))"
    "derive_content_slot_id position_digest OwnerNode ''n'' Objective 0 = Inr (''slot-'' @ position_digest (replicate 8 CHR ''x''))"
    by (rule position_slot_id; simp)+
  then show ?thesis
    by (simp add: slot_sound_def sample_slots_def position_slot_def sample_graph_def derive_content_slot_profile_def)
qed

lemma sample_slots_stored: "slots_stored position_digest sample_accepted_version"
  using sample_slots_sound
  by (simp add: slots_stored_def sample_accepted_version_def slots_of_def sample_graph_def sample_slots_def position_slot_def omap_simps)

lemma sample_controls: "validate_projection_grammar sample_accepted_version = Inr ()"
  by code_simp

lemma sample_references: "validate_persisted_references sample_accepted_version = Inr ()"
  by code_simp

lemma sample_relations: "validate_control_node_relations sample_graph = Inr ()"
  by code_simp

lemma sample_structure: "validate_edge_identity_and_endpoints sample_graph = Inr om_empty" "validate_persisted_topology sample_graph = Inr ()"
  by code_simp+

lemma sample_bindings: "validate_exact_slot_bindings sample_accepted_version = Inr ()"
  by code_simp

lemma sample_image: "validate_minimum_projection_image sample_accepted_version = Inr ()"
  by code_simp

lemma sample_hashes:
  "persisted_hashes sample_projection_env sample_graph sample_slots =
    Inr \<lparr>phs_topology_hash = ''sha256:'' @ position_digest [], phs_semantic_hash = ''sha256:'' @ position_digest []\<rparr>"
  by code_simp

text \<open>The complete validation accepts the sample, so what it guarantees can be met.\<close>

lemma sample_accepted: "validate_persisted_projection sample_projection_env sample_accepted_version = Inr ()"
proof -
  have v: "pgv_topology sample_accepted_version = sample_graph" "pgv_content_slots sample_accepted_version = sample_slots"
    "pje_sha_hex sample_projection_env = position_digest" "pje_parse sample_projection_env = (\<lambda>_. None)"
    by (simp_all add: sample_accepted_version_def sample_projection_env_def)
  have "lineage_sound sample_accepted_version" by (simp add: lineage_sound_def sample_accepted_version_def)
  moreover have "set (pt_entrypoints sample_graph) \<subseteq> set (node_ids sample_graph)" by (simp add: sample_graph_def)
  moreover have "structurally_sound sample_graph" using sample_structure topology_accepted by blast
  moreover have "slots_bound_once sample_graph sample_slots" using sample_bindings unfolding bindings_accepted v .
  ultimately show ?thesis
    unfolding projection_accepted projection_sound_def v
    using sample_controls sample_references sample_texts_safe sample_hashes sample_relations sample_slots_stored sample_image
    by (simp add: grammar_accepted v sample_accepted_version_def)
qed

end
