(* ===== verification/Published_Lineage.thy ===== *)
theory Published_Lineage
  imports Fold_Invariants Projection_Samples
begin

text \<open>
  The graph versions a journal publishes. The fold takes the validation of a persisted graph version as a parameter; here it is
  the modelled \<open>validate_persisted_projection\<close>, with the same SHA-256. Whatever a journal that folds has published is then sound,
  numbered, linked by hash and backed by the evidence its events reference, and the last version published is the active one.
\<close>

definition validating :: "projection_env \<Rightarrow> fold_env \<Rightarrow> fold_env" where
  "validating pje env = env\<lparr>fe_sha_hex := pje_sha_hex pje,
     fe_validate_persisted_projection := (\<lambda>v. validate_persisted_projection pje v = Inr ())\<rparr>"

definition publishes :: "event_envelope \<Rightarrow> persisted_graph_version option" where
  "publishes ev = (case env_kind ev of GraphVersionPublished pl \<Rightarrow> Some (gvp_version pl) | _ \<Rightarrow> None)"

definition published :: "event_envelope list \<Rightarrow> persisted_graph_version list" where
  "published evs = List.map_filter publishes evs"

text \<open>One publication: a sound version, published by its author in the scope of its execution, whose slots name, in order, the
  evidence the event references, each under the identity derived for its position.\<close>

definition published_soundly :: "projection_env \<Rightarrow> event_envelope \<Rightarrow> persisted_graph_version \<Rightarrow> bool" where
  "published_soundly pje ev v \<longleftrightarrow> projection_sound pje v \<and> env_actor ev = pgv_created_by v \<and>
    rs_execution_id (env_scope ev) = Some (pt_execution_id (pgv_topology v)) \<and>
    map (\<lambda>s. (cs_evidence_id s, cs_content_sha256 s)) (pgv_content_slots v) =
      map (\<lambda>r. (er_evidence_id r, er_content_sha256 r)) (env_evidence_refs ev) \<and>
    (\<forall>s\<in>set (pgv_content_slots v).
      derive_publication_evidence_id (pje_sha_hex pje) (env_scope ev) (pgv_number v) (pgv_semantic_hash v) s = Inr (cs_evidence_id s))"

text \<open>The links: the first version is number one without a predecessor, every other one counts on from the version before it and
  names its number and semantic hash.\<close>

definition succeeds :: "persisted_graph_version \<Rightarrow> persisted_graph_version \<Rightarrow> bool" where
  "succeeds v w \<longleftrightarrow> unat (pgv_number w) = unat (pgv_number v) + 1 \<and>
    pgv_predecessor w = Some \<lparr>pgr_number = pgv_number v, pgr_semantic_hash = pgv_semantic_hash v\<rparr>"

definition version_chain :: "persisted_graph_version list \<Rightarrow> bool" where
  "version_chain vs \<longleftrightarrow> successively succeeds vs \<and>
    (case vs of [] \<Rightarrow> True | v # _ \<Rightarrow> pgv_number v = 1 \<and> pgv_predecessor v = None)"


section \<open>One step\<close>

lemma evidence_ids_exact:
  "validate_publication_evidence_ids sha scope v = Inr () \<longleftrightarrow> (\<forall>s\<in>set (pgv_content_slots v).
    derive_publication_evidence_id sha scope (pgv_number v) (pgv_semantic_hash v) s = Inr (cs_evidence_id s))"
proof -
  let ?f = "\<lambda>slot u. bindE (derive_publication_evidence_id sha scope (pgv_number v) (pgv_semantic_hash v) slot)
    (\<lambda>eid. ensure (eid = cs_evidence_id slot) InvalidProjection)"
  have "foldE ?f ss () = Inr () \<longleftrightarrow> (\<forall>s\<in>set ss.
      derive_publication_evidence_id sha scope (pgv_number v) (pgv_semantic_hash v) s = Inr (cs_evidence_id s))" for ss
    by (induction ss) (auto simp: ensure_def)
  then show ?thesis unfolding validate_publication_evidence_ids_def .
qed

lemma accepted_unit: "\<not> isl r \<longleftrightarrow> r = Inr ()"
  by (cases r) simp_all

lemma publication_step:
  assumes "fold_projection (validating pje env) ev p = Inr q" "publishes ev = Some v"
  shows "p_current_graph q = Some v" "follows_active (p_current_graph p) v" "published_soundly pje ev v"
proof -
  obtain pl where k: "env_kind ev = GraphVersionPublished pl" "v = gvp_version pl"
    using assms(2) by (auto simp: publishes_def split: event_kind.splits)
  have f: "fold_graph_version_published (validating pje env) ev pl p = Inr q"
    using assms(1) by (simp add: fold_projection_def k)
  show "p_current_graph q = Some v" "follows_active (p_current_graph p) v"
    using f by (auto simp: fold_graph_version_published_def Let_def k(2) split: if_splits)
  have "validate_persisted_projection pje v = Inr ()" "env_actor ev = pgv_created_by v"
    "rs_execution_id (env_scope ev) = Some (pt_execution_id (pgv_topology v))"
    "validate_publication_evidence_ids (pje_sha_hex pje) (env_scope ev) v = Inr ()"
    "validate_evidence_bijection (pgv_content_slots v) (env_evidence_refs ev) = Inr ()"
    using f by (auto simp: fold_graph_version_published_def Let_def k(2) validating_def accepted_unit split: if_splits)
  then show "published_soundly pje ev v"
    by (simp add: published_soundly_def projection_accepted evidence_ids_exact evidence_bijection_exact)
qed

lemma no_publication_step:
  assumes "fold_projection env ev p = Inr q" "publishes ev = None"
  shows "p_current_graph q = p_current_graph p"
  using assms by (cases "env_kind ev") (auto simp: fold_projection_def publishes_def dest!: fold_frames)

lemma follows_active_links:
  "follows_active (Some v) w \<Longrightarrow> succeeds v w" "follows_active None w \<Longrightarrow> pgv_number w = 1 \<and> pgv_predecessor w = None"
  by (auto simp: follows_active_def succeeds_def dest!: checked_add_Some intro!: persisted_graph_version_ref.equality split: option.splits)


section \<open>The journal\<close>

definition lineage_kept :: "projection_env \<Rightarrow> event_envelope list \<Rightarrow> persisted_graph_version option \<Rightarrow> bool" where
  "lineage_kept pje evs active \<longleftrightarrow>
    active = (if published evs = [] then None else Some (last (published evs))) \<and> version_chain (published evs) \<and>
    (\<forall>ev\<in>set evs. \<forall>v. publishes ev = Some v \<longrightarrow> published_soundly pje ev v)"

lemma published_snoc: "published (evs @ [ev]) = published evs @ (case publishes ev of None \<Rightarrow> [] | Some v \<Rightarrow> [v])"
  by (simp add: published_def List.map_filter_def split: option.splits)

lemma version_chain_snoc:
  assumes "version_chain vs" "follows_active (if vs = [] then None else Some (last vs)) v"
  shows "version_chain (vs @ [v])"
proof -
  have "successively succeeds (vs @ [v])"
    using assms follows_active_links(1) by (auto simp: version_chain_def successively_append_iff split: if_splits)
  then show ?thesis using assms follows_active_links(2) by (cases vs) (auto simp: version_chain_def)
qed

lemma lineage_kept_step:
  assumes "lineage_kept pje evs (p_current_graph p)" "fold_projection (validating pje env) ev p = Inr q"
  shows "lineage_kept pje (evs @ [ev]) (p_current_graph q)"
proof (cases "publishes ev")
  case None
  then show ?thesis using assms(1) no_publication_step [OF assms(2) None] by (auto simp: lineage_kept_def published_snoc)
next
  case (Some v)
  note step = publication_step [OF assms(2) Some]
  have "version_chain (published evs @ [v])" by (rule version_chain_snoc) (use assms(1) step(2) in \<open>simp_all add: lineage_kept_def\<close>)
  then show ?thesis using assms(1) step(1,3) Some by (auto simp: lineage_kept_def published_snoc)
qed

lemma genesis_lineage: "from_genesis (validating pje env) evs = Inr (p, a) \<Longrightarrow> lineage_kept pje evs (p_current_graph p)"
proof (induction evs arbitrary: p a rule: rev_induct)
  case Nil
  then show ?case by (auto simp: lineage_kept_def default_projection_def published_def List.map_filter_def version_chain_def)
next
  case (snoc ev evs)
  then obtain p0 a0 where p0: "from_genesis (validating pje env) evs = Inr (p0, a0)"
    and step: "apply_projection_event (validating pje env) ev (p0, a0) = Inr (p, a)"
    by (auto simp: from_genesis_snoc)
  obtain x r y where r: "fold_projection (validating pje env) ev (p0\<lparr>p_stream_id := x\<rparr>) = Inr r" "p = r\<lparr>p_legal_holds := y\<rparr>"
    using step by (rule apply_event_arm)
  have "lineage_kept pje (evs @ [ev]) (p_current_graph r)"
    by (rule lineage_kept_step [OF _ r(1)]) (use snoc.IH [OF p0] in simp)
  then show ?case by (simp add: r(2))
qed

text \<open>C27: The versions a journal publishes form a chain. In every journal that folds, each published graph version is sound and
  is published by its author, in the scope of its execution, with exactly the evidence its slots name under their derived
  identities; the first is number one, every other one counts on from the one before it and names its number and semantic hash;
  and the active graph is the last one published.\<close>

theorem published_versions_chain:
  assumes "from_genesis (validating pje env) evs = Inr (p, a)"
  shows "p_current_graph p = (if published evs = [] then None else Some (last (published evs))) \<and>
    version_chain (published evs) \<and>
    (\<forall>ev v. ev \<in> set evs \<and> publishes ev = Some v \<longrightarrow> published_soundly pje ev v)"
  using genesis_lineage [OF assms] unfolding lineage_kept_def by blast


section \<open>A journal with a publication\<close>

lemma position_evidence_id:
  assumes "length (cs_owner_id slot) < 100" "length (cs_slot_id slot) = 69" "length semantic_hash = 71"
    and "(length (content_owner_kind_bytes (cs_owner_kind slot)) + length (cs_owner_id slot)
      + length (content_field_kind_bytes (cs_field_kind slot)) + 4) mod 10 = n mod 10"
  shows "derive_publication_evidence_id position_digest sample_scope number semantic_hash slot =
    Inr (''evidence-'' @ position_digest (replicate n CHR ''x''))"
proof -
  let ?owner = "content_owner_kind_bytes (cs_owner_kind slot)" and ?field = "content_field_kind_bytes (cs_field_kind slot)"
  define tag where "tag = ''graphhelm-publication-evidence-identity-v1''"
  have tag: "length tag = 42" unfolding tag_def by simp
  define one where "one = [(char_of :: nat \<Rightarrow> char) 1]"
  define bytes where "bytes = be_bytes 4 42 @ tag @ be_bytes 4 1 @ ''w'' @ be_bytes 4 1 @ ''p'' @ one @ be_bytes 4 1 @ ''e'' @
    be64 number @ be_bytes 4 71 @ semantic_hash @ be_bytes 4 69 @ cs_slot_id slot @ be_bytes 4 (length ?owner) @ ?owner @
    be_bytes 4 (length (cs_owner_id slot)) @ cs_owner_id slot @ be_bytes 4 (length ?field) @ ?field @ be32 (cs_ordinal slot)"
  have lens: "length tag < 100" "length ''w'' < 100" "length ''p'' < 100" "length ''e'' < 100" "length semantic_hash < 100"
      "length (cs_slot_id slot) < 100"
    using tag assms(2,3) by simp_all
  have scope: "rs_workspace_id sample_scope = ''w''" "rs_project_id sample_scope = ''p''" "rs_execution_id sample_scope = Some ''e''"
    by (simp_all add: sample_scope_def)
  have one_len: "length ''w'' = 1" "length ''p'' = 1" "length ''e'' = 1" by simp_all
  have identity: "publication_identity_bytes sample_scope number semantic_hash slot = Inr bytes"
    unfolding publication_identity_bytes_def tag_def [symmetric] one_def [symmetric] scope bytes_def
    by (simp only: lens [THEN push_identity_part] assms(1) [THEN push_identity_part] kind_bytes_short [THEN push_identity_part] bindE.simps option.case append_Nil
        append_assoc tag assms(2,3) one_len)
  have "length bytes = 230 + (length ?owner + length (cs_owner_id slot) + length ?field + 4)"
    unfolding bytes_def one_def by (simp only: length_append length_be_bytes length_be32 length_be64 tag assms(2,3) one_len list.size)
  moreover have "(230 + a) mod 10 = a mod 10" for a :: nat using mod_mult_self3 [of 23 10 a] by simp
  ultimately have "length bytes mod 10 = length (replicate n CHR ''x'') mod 10" using assms(4) by (simp only: length_replicate)
  then have "position_digest bytes = position_digest (replicate n CHR ''x'')" by (rule position_digest_cong)
  then show ?thesis
    using position_digest_raw sample_id_opaque(2) by (simp add: derive_publication_evidence_id_def identity raw_content_sha256_def Let_def)
qed

lemma slot_evidence:
  fixes sensitivity :: sensitivity and required :: bool
  assumes "length owner_id < 100" "(length (content_owner_kind_bytes owner_kind) + length owner_id
      + length (content_field_kind_bytes field_kind) + 4) mod 10 = n mod 10"
  defines "slot \<equiv> position_slot owner_kind owner_id field_kind n sensitivity required"
  shows "derive_publication_evidence_id position_digest sample_scope number (''sha256:'' @ position_digest []) slot = Inr (cs_evidence_id slot)"
proof -
  have len: "length (position_digest t) = 64" for t by (simp add: position_digest_def)
  have "derive_publication_evidence_id position_digest sample_scope number (''sha256:'' @ position_digest []) slot =
      Inr (''evidence-'' @ position_digest (replicate n CHR ''x''))"
    by (rule position_evidence_id) (use assms(1,2) in \<open>simp_all add: slot_def position_slot_def len\<close>)
  then show ?thesis by (simp add: slot_def position_slot_def)
qed

definition publication_event :: event_envelope where
  "publication_event = (sample_event 1 (GraphVersionPublished \<lparr>gvp_version = sample_accepted_version\<rparr>))
    \<lparr>env_actor := pgv_created_by sample_accepted_version,
     env_evidence_refs := map (\<lambda>s. \<lparr>er_evidence_id = cs_evidence_id s, er_content_sha256 = cs_content_sha256 s,
       er_ciphertext_sha256 = position_digest []\<rparr>) sample_slots\<rparr>"

lemma publication_evidence:
  "validate_publication_evidence_ids position_digest sample_scope sample_accepted_version = Inr ()"
  "validate_evidence_bijection sample_slots (env_evidence_refs publication_event) = Inr ()"
proof -
  have "\<forall>s\<in>set sample_slots. derive_publication_evidence_id position_digest sample_scope 1 (''sha256:'' @ position_digest []) s = Inr (cs_evidence_id s)"
    unfolding sample_slots_def list.set ball_simps by (intro conjI slot_evidence TrueI) simp_all
  then show "validate_publication_evidence_ids position_digest sample_scope sample_accepted_version = Inr ()"
    unfolding evidence_ids_exact by (simp add: sample_accepted_version_def)
  show "validate_evidence_bijection sample_slots (env_evidence_refs publication_event) = Inr ()"
    unfolding evidence_bijection_exact
    by (simp add: publication_event_def sample_slots_def position_slot_def position_digest_def slot_position_def)
qed

lemma publication_folds:
  obtains p where "from_genesis (validating sample_projection_env sample_env) [sample_event 1 started_kind, publication_event] = Inr (p, om_empty)"
proof -
  let ?env = "validating sample_projection_env sample_env"
  have pje: "pje_sha_hex sample_projection_env = position_digest" by (simp add: sample_projection_env_def)
  have start: "\<exists>p. from_genesis ?env [sample_event 1 started_kind] = Inr (p, om_empty) \<and> p_current_graph p = None"
    by (simp add: sample_defs sample_fold)
  then obtain p where p: "from_genesis ?env [sample_event 1 started_kind] = Inr (p, om_empty)" "p_current_graph p = None" by blast
  have "\<exists>q. apply_projection_event ?env publication_event (p, om_empty) = Inr (q, om_empty)"
    using publication_evidence p(2)
    by (simp add: publication_event_def sample_event_def apply_projection_event_def fold_projection_def fold_graph_version_published_def
        Let_def validating_def pje sample_accepted follows_active_def stamp_stream_def split: option.split)
       (simp add: sample_accepted_version_def sample_scope_def sample_graph_def)
  then show ?thesis using that p(1) by (auto simp: fold_events_def)
qed

theorem published_versions_chain_witness:
  "\<exists>p. from_genesis (validating sample_projection_env sample_env) [sample_event 1 started_kind, publication_event] = Inr (p, om_empty) \<and>
     p_current_graph p = Some sample_accepted_version \<and> published_soundly sample_projection_env publication_event sample_accepted_version"
proof -
  obtain p where p: "from_genesis (validating sample_projection_env sample_env) [sample_event 1 started_kind, publication_event] = Inr (p, om_empty)"
    by (rule publication_folds)
  have v: "publishes publication_event = Some sample_accepted_version" "publishes (sample_event 1 started_kind) = None"
    by (simp_all add: publishes_def publication_event_def sample_event_def started_kind_def)
  from published_versions_chain [OF p] p v show ?thesis by (auto simp: published_def List.map_filter_def)
qed

end
