(* ===== verification/Spec2Isabelle.thy ===== *)
theory Spec2Isabelle
  imports Scheduling Recovery Store_Paging Policy_Samples Code_Contract Simulation_Samples
    Reference_Codec Preflight_Soundness Published_Lineage
begin

text \<open>
  A verification library for the deterministic core of GraphHelm.

  \<^bold>\<open>The program.\<close> GraphHelm runs graphs of work. Everything that happens to an execution is an event of an append-only
  journal; every verdict is computed from the projection that folds the journal. The parts modelled here are the ones that decide:
  the node state machine and the scheduler (\<open>core/execution\<close>), the event vocabulary (\<open>core/protocols\<close>), the fold, replay,
  append checks and the local store (\<open>core/events\<close>), the customs desk that parks, claims and clears nodes (\<open>core/execution\<close>,
  \<open>core/events\<close>), the linter and the persistence identities of graphs (\<open>core/graph\<close>), the policy that admits a graph change
  (\<open>core/policy\<close>) and the simulator (\<open>core/simulation\<close>). A driver asks the scheduler what may run, records outcomes the state
  machine allows, and the store refuses any append that does not extend the stream it was decided on. A graph change is linted,
  judged by the policy and published as an event; a simulation is journalled as one batch.

  \<^bold>\<open>The theories,\<close> each with the code it translates, in the order they build on each other.

  \<^item> \<open>Prelude\<close>: errors as sums (\<open>bindE\<close>, \<open>foldE\<close>), machine integers with the checked and saturating operations of the source,
    ordered maps and sets (\<open>BTreeMap\<close>, \<open>BTreeSet\<close>) behind the interface \<open>ordered_map\<close>, and the induction scheme \<open>fold_invariant\<close>.
  \<^item> \<open>Wire\<close>, \<open>Graph_Model\<close>, \<open>Persisted_Graph\<close>: the validators of identifiers, hashes, keys and dates (\<open>persistence.rs\<close>), the graph
    document (\<open>graph.rs\<close>), the persisted graph with its validating constructors (\<open>projection.rs\<close>) and the publication
    evidence identities (\<open>core/graph/src/persistence.rs\<close>). Strings are byte strings, as \<open>str\<close> is; character counts are
    written out where the source counts characters.
  \<^item> \<open>Transition\<close>, \<open>Scheduling\<close>: \<open>apply_transition\<close> arm by arm, the ready set, the dispatch plan and view.
  \<^item> \<open>Graph_Payloads\<close>, \<open>Execution_Payloads\<close>, \<open>Operations_Payloads\<close>, \<open>Event_Model\<close>: the payload records and the sum of the 54 event
    kinds, the envelope and the wire names (\<open>event.rs\<close>, \<open>delegation.rs\<close>, \<open>dreams.rs\<close>, \<open>policy.rs\<close>, \<open>diagnostic.rs\<close>).
  \<^item> \<open>Projection\<close>, \<open>Fold\<close>, \<open>Fold_Invariants\<close>: the projection record, \<open>apply_projection_event\<close> with one definition per arm, and
    what the fold keeps: holds, guards, counters, lineage, causes of node moves.
  \<^item> \<open>Replay\<close>, \<open>Replay_Soundness\<close>, \<open>Recovery\<close>: envelope validation, replay and the paged rebuild with their limits and read
    budget; a journal is accepted exactly when it is sound; recovery, the resume gate and the retry verdict.
  \<^item> \<open>Customs\<close>: the claim decision, the overdue query and the status view (\<open>customs.rs\<close>) as functions of a projection.
  \<^item> \<open>Append\<close>, \<open>Store\<close>: the prepared append with its static checks (\<open>repository.rs\<close>, \<open>integrity.rs\<close>, \<open>evidence.rs\<close>, \<open>artifact.rs\<close>), and
    the local store (\<open>local.rs\<close>, \<open>local/segments.rs\<close>): a list of sealed segments and an active one, the verified walk of a load, the
    plan and commit of an append, rotation, and every read of the repository trait.
  \<^item> \<open>Store_Soundness\<close>, \<open>Store_Append\<close>, \<open>Store_Commit\<close>, \<open>Store_Retry\<close>, \<open>Store_Paging\<close>: what a load proves of the history, that a written
    batch is a batch the next load verifies, exactly-once appends, and cursors that follow a stream.
  \<^item> \<open>Event_Log\<close>, \<open>Store_Log\<close>, \<open>Customs_Verbs\<close>: the repository contract as the interface \<open>event_log\<close>, the local store as its
    instance, and the verbs claim, clear and sweep (\<open>customs.rs\<close>, \<open>sweep.rs\<close>) proved against the contract, with what other handles
    append between a reading and a write as a parameter.
  \<^item> \<open>Traversal\<close>, \<open>Components\<close>, \<open>Depth\<close>, \<open>Lint\<close>, \<open>Lint_Soundness\<close>: the graph walks, the two-pass strongly connected components
    against the reference definition, the longest chain of components (interface \<open>condensation\<close>), the fourteen errors and two
    warnings of the linter, and what an accepted graph satisfies.
  \<^item> \<open>Content_Scan\<close>, \<open>Content_Soundness\<close>, \<open>Content_Bounds\<close>: the gate of durable content (\<open>core/graph/src/persistence.rs\<close>): the
    iterative preflight of depth, values and bytes against a structural reference, and the single-pass secret scan against the
    list of shapes it must find.
  \<^item> \<open>References\<close>, \<open>Reference_Codec\<close>: the registered references, their base64url encoding and the exact round trip.
  \<^item> \<open>Control_Grammar\<close>, \<open>Control_Soundness\<close>, \<open>Projection_Rules\<close>, \<open>Projection_Soundness\<close>, \<open>Slot_Bindings\<close>,
    \<open>Projection_Acceptance\<close>: the validation of a persisted graph version (\<open>validate_persisted_projection\<close>): the closed vocabulary of
    controls with their indexed families, references, content, the two identities, relations, structure, content slots and the
    controls that name them. Each part accepts exactly what its declarative counterpart describes, and so does the whole.
  \<^item> \<open>Published_Lineage\<close>: the fold with that validation as its parameter: the graph versions a journal publishes are sound and
    form a numbered, hash-linked chain whose last member is the active graph.
  \<^item> \<open>Graph_Preflight\<close>, \<open>Preflight_Soundness\<close>: the size accounting of an authored graph and of a version record, against the
    document \<open>serde\<close> writes of it.
  \<^item> \<open>Policy\<close>, \<open>Code_Contract\<close>: the policy report of a graph transition with its owner override (\<open>evaluator.rs\<close>), delegation and
    adoption choices, and the resolution of layered code rules (\<open>code_contract.rs\<close>).
  \<^item> \<open>Simulation\<close>, \<open>Simulation_Soundness\<close>: the simulator's main loop, and its journal replayed through the fold.
  \<^item> \<open>Store_Samples\<close>, \<open>Verb_Samples\<close>, \<open>Policy_Samples\<close>, \<open>Simulation_Samples\<close>, \<open>Projection_Samples\<close>: concrete stores, requests,
    graphs and an accepted graph version, on which the theorems are applied.

  \<^bold>\<open>State and effects.\<close> Structs are records, enums datatypes, and a stateful operation returns the state it leaves. Fallible code
  returns \<open>Inl\<close> of the source's error. \<open>u64\<close> and \<open>u32\<close> are words; \<open>usize\<close> is a natural number bounded by \<open>2 ^ 64\<close> where the source
  checks. A repository handle is a function of the store; interleaving with other handles is an arbitrary later store.

  \<^bold>\<open>What is a parameter.\<close> SHA-256 (\<open>fe_sha_hex\<close>), JSON serialisation and its lengths, JSON schema validation, date parsing and
  the calendar, generated ids and clocks belong to other packages; they are the fields of \<open>fold_env\<close>, \<open>replay_env\<close>, \<open>append_env\<close>,
  \<open>store_env\<close> and \<open>simulation_services\<close>, and the arguments \<open>to_value\<close> and \<open>decode\<close>. The fold and the append take the scan of durable
  content and the check of a persisted projection (\<open>fe_validate_persisted_projection\<close>) as fields; both functions are modelled
  in the theories on durable content and persisted projections, whose own parameters (\<open>projection_env\<close>) are the parser of a decoded
  token header, the JSON of a topology, the bytes of a JSON value and SHA-256. Where a result needs
  SHA-256 not to collide, the hypothesis names the finitely many inputs concerned (\<open>keys_distinct\<close>, \<open>no_collision\<close>,
  \<open>stream_distinguished\<close>); the samples show that these hypotheses can hold.

  \<^bold>\<open>Bounds and fuel.\<close> Limits are the source's constants. Loops are structural, or functions with a termination proof
  (\<open>traverse_from\<close>, \<open>finish_order\<close>, \<open>collect\<close>, \<open>sim_loop\<close>). Only \<open>depth_loop\<close> takes fuel, the number of components: it is proved
  that the queue is empty before the fuel is.

  \<^bold>\<open>Not modelled.\<close> Files, locks, \<open>fsync\<close>, torn tails, active markers and the store's prefix cache (the store works on parsed lines);
  encryption, key providers, retention and memory services (asynchronous I/O over external stores); the runtime, process and tool
  brokers, adapters, the HTTP server, the command line and Studio (I/O around the modelled decisions); serde's decoding of documents;
  schema evolution; the keel line prover, the governor, the architect and the quality gates; attention, briefing, tasks and journeys
  (reports over a projection).
\<close>

end
